(* ===== verification/Prelude.thy ===== *)
theory Prelude
  imports Main "HOL-Library.Word"
begin

text \<open>
  Shared foundations of the development.

  \<^item> \<open>bytes\<close> are lists of 8-bit words; the section on fixed-width integers models Python's
    \<open>int.from_bytes\<close> and \<open>int.to_bytes\<close> for both byte orders and proves the two round trips;
  \<^item> \<open>result\<close> is the type of fallible code: \<open>Inl\<close> carries the exception that was raised;
  \<^item> \<open>run\<close> feeds a list of events to a step function, stopping at the first exception, and
    collects the commands the steps emit.  Every reducer of the collector is such a step function;
  \<^item> the machine locales are the interfaces between a reducer and the facts about its event
    histories: an invariant that every step keeps holds along every run, a command emitted anywhere
    in a run was licensed by the state it was emitted in, an absorbing set is never left, a measured
    quantity never decreases.  Each machine theory interprets them on its own step function.
\<close>

section \<open>Results\<close>

type_synonym ('x, 'a) result = "'x + 'a"

definition bind_result :: "('x, 'a) result \<Rightarrow> ('a \<Rightarrow> ('x, 'b) result) \<Rightarrow> ('x, 'b) result" where
  "bind_result r f = (case r of Inl x \<Rightarrow> Inl x | Inr a \<Rightarrow> f a)"

definition require :: "bool \<Rightarrow> 'x \<Rightarrow> ('x, unit) result" where
  "require b x = (if b then Inr () else Inl x)"

named_theorems codec_simps "sizes and round trips of the fixed-width integer codecs"

lemma bind_result_simps [simp]:
  "bind_result (Inl x) f = Inl x"
  "bind_result (Inr a) f = f a"
  by (simp_all add: bind_result_def)

lemma bind_result_Inr_iff:
  "bind_result r f = Inr b \<longleftrightarrow> (\<exists>a. r = Inr a \<and> f a = Inr b)"
  by (cases r) simp_all

lemma bind_result_Inl_iff:
  "bind_result r f = Inl x \<longleftrightarrow> r = Inl x \<or> (\<exists>a. r = Inr a \<and> f a = Inl x)"
  by (cases r) simp_all

text \<open>A loop that threads a state through steps that can fail.\<close>

primrec fold_result :: "('s \<Rightarrow> 'a \<Rightarrow> ('x, 's) result) \<Rightarrow> 's \<Rightarrow> 'a list \<Rightarrow> ('x, 's) result" where
  "fold_result f s [] = Inr s"
| "fold_result f s (x # xs) = bind_result (f s x) (\<lambda>t. fold_result f t xs)"

lemma fold_result_snoc: "fold_result f s (xs @ [x]) = bind_result (fold_result f s xs) (\<lambda>t. f t x)"
  by (induction xs arbitrary: s) (simp_all add: bind_result_def split: sum.splits)

lemma fold_result_keeps:
  assumes "fold_result f s xs = Inr t" and "P [] s"
    and "\<And>ys y u v. P ys u \<Longrightarrow> f u y = Inr v \<Longrightarrow> P (ys @ [y]) v"
  shows "P xs t"
  using assms(1)
proof (induction xs arbitrary: t rule: rev_induct)
  case (snoc x xs)
  then show ?case by (auto simp: fold_result_snoc bind_result_Inr_iff intro: assms(3))
qed (use assms(2) in simp)

text \<open>A comprehension whose element expression can fail.\<close>

primrec map_result :: "('a \<Rightarrow> ('x, 'b) result) \<Rightarrow> 'a list \<Rightarrow> ('x, 'b list) result" where
  "map_result f [] = Inr []"
| "map_result f (x # xs) = bind_result (f x) (\<lambda>y. bind_result (map_result f xs) (\<lambda>ys. Inr (y # ys)))"

lemma map_result_total: "\<forall>x \<in> set xs. f x = Inr (g x) \<Longrightarrow> map_result f xs = Inr (map g xs)"
  by (induction xs) simp_all

lemma require_simps [simp]:
  "require b x = Inr u \<longleftrightarrow> b"
  "require b x = Inl y \<longleftrightarrow> \<not> b \<and> x = y"
  "require True x = Inr ()"
  "require False x = Inl x"
  by (auto simp: require_def)

lemma bind_require [simp]:
  "bind_result (require b x) f = (if b then f () else Inl x)"
  by (simp add: require_def)

lemmas result_iffs = bind_result_Inr_iff bind_result_Inl_iff

section \<open>Arithmetic\<close>

lemma le_div_times: "k \<le> m div n \<Longrightarrow> k * n \<le> (m :: nat)"
  by (metis div_times_less_eq_dividend mult_le_mono1 order.trans)

section \<open>Byte strings\<close>

type_synonym byte = "8 word"
type_synonym bytes = "byte list"

text \<open>Python's \<open>xs[a:b]\<close> for nonnegative bounds; it clips at the end of the sequence.\<close>

definition slice_of :: "nat \<Rightarrow> nat \<Rightarrow> 'a list \<Rightarrow> 'a list" where
  "slice_of a b xs = take (b - a) (drop a xs)"

lemma length_slice_of [simp]: "length (slice_of a b xs) = min (b - a) (length xs - a)"
  by (simp add: slice_of_def)

lemma slice_of_append_left: "b \<le> length xs \<Longrightarrow> slice_of a b (xs @ ys) = slice_of a b xs"
  by (cases "a \<le> b") (simp_all add: slice_of_def)

lemma slice_of_append_right: "length xs \<le> a \<Longrightarrow> slice_of a b (xs @ ys) = slice_of (a - length xs) (b - length xs) ys"
  by (simp add: slice_of_def diff_diff_eq)

lemma slice_of_whole: "length xs \<le> b \<Longrightarrow> slice_of 0 b xs = xs"
  by (simp add: slice_of_def)

lemma slice_of_join: "a \<le> b \<Longrightarrow> b \<le> c \<Longrightarrow> slice_of a b xs @ slice_of b c xs = slice_of a c xs"
proof -
  assume ab: "a \<le> b" and bc: "b \<le> c"
  have "c - a = (b - a) + (c - b)" using ab bc by simp
  then have "take (c - a) (drop a xs) = take (b - a) (drop a xs) @ take (c - b) (drop (b - a) (drop a xs))"
    by (simp only: take_add)
  with ab show ?thesis by (simp add: slice_of_def)
qed

lemma slice_of_prefix: "slice_of 0 b xs = take b xs"
  by (simp add: slice_of_def)

lemma nth_slice_of: "i < b - a \<Longrightarrow> a + i < length xs \<Longrightarrow> slice_of a b xs ! i = xs ! (a + i)"
  by (simp add: slice_of_def)

section \<open>Fixed-width unsigned integers\<close>

definition from_bytes_big :: "bytes \<Rightarrow> int" where
  "from_bytes_big bs = foldl (\<lambda>acc b. acc * 256 + uint b) 0 bs"

definition from_bytes_little :: "bytes \<Rightarrow> int" where
  "from_bytes_little bs = from_bytes_big (rev bs)"

primrec to_bytes_big :: "nat \<Rightarrow> int \<Rightarrow> bytes" where
  "to_bytes_big 0 v = []"
| "to_bytes_big (Suc n) v = to_bytes_big n (v div 256) @ [word_of_int v]"

definition to_bytes_little :: "nat \<Rightarrow> int \<Rightarrow> bytes" where
  "to_bytes_little n v = rev (to_bytes_big n v)"

lemma length_to_bytes_big [simp, codec_simps]: "length (to_bytes_big n v) = n"
  by (induction n arbitrary: v) simp_all

lemma length_to_bytes_little [simp, codec_simps]: "length (to_bytes_little n v) = n"
  by (simp add: to_bytes_little_def)

lemma from_bytes_big_Nil [simp]: "from_bytes_big [] = 0"
  by (simp add: from_bytes_big_def)

lemma from_bytes_big_snoc [simp]: "from_bytes_big (bs @ [b]) = from_bytes_big bs * 256 + uint b"
  by (simp add: from_bytes_big_def)

lemma uint_byte_bounds [simp]: "0 \<le> uint (b :: byte)" "uint (b :: byte) < 256"
  using uint_range_size [of b] by (auto simp: word_size)

lemma from_bytes_big_nonneg [simp]: "0 \<le> from_bytes_big bs"
  by (induction bs rule: rev_induct) simp_all

lemma from_bytes_big_less: "from_bytes_big bs < 256 ^ length bs"
proof (induction bs rule: rev_induct)
  case Nil
  show ?case by simp
next
  case (snoc b bs)
  have "from_bytes_big (bs @ [b]) < (from_bytes_big bs + 1) * 256"
    by (simp add: distrib_right)
  also have "\<dots> \<le> 256 ^ length bs * 256"
    using snoc.IH by simp
  finally show ?case by (simp add: mult.commute)
qed

lemma from_to_bytes_big [codec_simps]:
  "0 \<le> v \<Longrightarrow> v < 256 ^ n \<Longrightarrow> from_bytes_big (to_bytes_big n v) = v"
proof (induction n arbitrary: v)
  case 0
  then show ?case by simp
next
  case (Suc n)
  have "v div 256 < 256 ^ n"
    using Suc.prems by (simp add: div_less_iff_less_mult mult.commute)
  then have "from_bytes_big (to_bytes_big n (v div 256)) = v div 256"
    using Suc.prems by (intro Suc.IH) (simp_all add: pos_imp_zdiv_nonneg_iff)
  then show ?case
    by (simp add: uint_word_of_int)
qed

lemma to_from_bytes_big [codec_simps]: "to_bytes_big (length bs) (from_bytes_big bs) = bs"
proof (induction bs rule: rev_induct)
  case Nil
  show ?case by simp
next
  case (snoc b bs)
  have "(from_bytes_big bs * 256 + uint b) div 256 = from_bytes_big bs"
    using uint_byte_bounds [of b] by simp
  moreover have "(word_of_int (from_bytes_big bs * 256 + uint b) :: byte) = b"
  proof -
    have "(256 :: byte) = 0" by simp
    then have "word_of_int (from_bytes_big bs) * (256 :: byte) = 0" by (simp only: mult_zero_right)
    then show ?thesis by simp
  qed
  ultimately show ?case using snoc.IH by simp
qed

lemma from_bytes_little_nonneg [simp]: "0 \<le> from_bytes_little bs"
  by (simp add: from_bytes_little_def)

lemma from_bytes_little_less: "from_bytes_little bs < 256 ^ length bs"
  using from_bytes_big_less [of "rev bs"] by (simp add: from_bytes_little_def)

lemma from_to_bytes_little [codec_simps]:
  "0 \<le> v \<Longrightarrow> v < 256 ^ n \<Longrightarrow> from_bytes_little (to_bytes_little n v) = v"
  by (simp add: from_bytes_little_def to_bytes_little_def from_to_bytes_big)

lemma to_from_bytes_little [codec_simps]: "to_bytes_little (length bs) (from_bytes_little bs) = bs"
  using to_from_bytes_big [of "rev bs"] by (simp add: from_bytes_little_def to_bytes_little_def)

lemma to_bytes_big_inj:
  "0 \<le> v \<Longrightarrow> v < 256 ^ n \<Longrightarrow> 0 \<le> w \<Longrightarrow> w < 256 ^ n \<Longrightarrow> to_bytes_big n v = to_bytes_big n w \<Longrightarrow> v = w"
  by (metis from_to_bytes_big)

text \<open>The interface a wire format relies on: a fixed width and two inverse functions on it.\<close>

locale uint_codec =
  fixes enc :: "nat \<Rightarrow> int \<Rightarrow> bytes"
    and dec :: "bytes \<Rightarrow> int"
  assumes enc_length: "length (enc n v) = n"
    and dec_enc: "0 \<le> v \<Longrightarrow> v < 256 ^ n \<Longrightarrow> dec (enc n v) = v"
    and enc_dec: "enc (length bs) (dec bs) = bs"
    and dec_nonneg: "0 \<le> dec bs"
    and dec_less: "dec bs < 256 ^ length bs"
begin

lemma field_at:
  assumes "length pre = a" and "0 \<le> v" and "v < 256 ^ n"
  shows "dec (slice_of a (a + n) (pre @ enc n v @ post)) = v"
  using assms by (simp add: slice_of_def enc_length dec_enc)

lemma field_back:
  assumes "a + n \<le> length p"
  shows "enc n (dec (slice_of a (a + n) p)) = slice_of a (a + n) p"
proof -
  have "length (slice_of a (a + n) p) = n" using assms by simp
  then show ?thesis using enc_dec [of "slice_of a (a + n) p"] by simp
qed

lemma field_range:
  assumes "a + n \<le> length p"
  shows "0 \<le> dec (slice_of a (a + n) p) \<and> dec (slice_of a (a + n) p) < 256 ^ n"
proof -
  have "length (slice_of a (a + n) p) = n" using assms by simp
  then show ?thesis using dec_nonneg dec_less [of "slice_of a (a + n) p"] by simp
qed

end

interpretation be: uint_codec to_bytes_big from_bytes_big
  by unfold_locales (simp_all add: codec_simps from_bytes_big_less)

interpretation le: uint_codec to_bytes_little from_bytes_little
  by unfold_locales (simp_all add: codec_simps from_bytes_little_less)

section \<open>Event histories of a reducer\<close>

fun run :: "('s \<Rightarrow> 'e \<Rightarrow> ('x, 's \<times> 'c) result) \<Rightarrow> 's \<Rightarrow> 'e list \<Rightarrow> ('x, 's \<times> 'c list) result" where
  "run step s [] = Inr (s, [])"
| "run step s (e # es) =
     (case step s e of
        Inl x \<Rightarrow> Inl x
      | Inr (t, c) \<Rightarrow>
          (case run step t es of
             Inl x \<Rightarrow> Inl x
           | Inr (u, cs) \<Rightarrow> Inr (u, c # cs)))"

lemma run_Cons_Inr:
  "run step s (e # es) = Inr (u, ds) \<longleftrightarrow>
     (\<exists>t c cs. step s e = Inr (t, c) \<and> run step t es = Inr (u, cs) \<and> ds = c # cs)"
  by (auto split: sum.splits prod.splits)

lemma run_append_Inr:
  "run step s (es @ fs) = Inr (u, ds) \<longleftrightarrow>
     (\<exists>t cs cs'. run step s es = Inr (t, cs) \<and> run step t fs = Inr (u, cs') \<and> ds = cs @ cs')"
  by (induction es arbitrary: s ds) (force simp: run_Cons_Inr simp del: run.simps(2))+

lemma run_single_Inr: "run step s [e] = Inr (u, ds) \<longleftrightarrow> (\<exists>c. step s e = Inr (u, c) \<and> ds = [c])"
  by (auto split: sum.splits prod.splits)

lemma run_snoc_Inr:
  "run step s (es @ [e]) = Inr (u, ds) \<longleftrightarrow>
     (\<exists>t cs c. run step s es = Inr (t, cs) \<and> step t e = Inr (u, c) \<and> ds = cs @ [c])"
  unfolding run_append_Inr run_single_Inr by blast

lemma run_length: "run step s es = Inr (t, cs) \<Longrightarrow> length cs = length es"
  by (induction es arbitrary: s cs) (auto simp: run_Cons_Inr simp del: run.simps(2))

text \<open>The step at position \<open>i\<close> of a history, between the states before and after it.\<close>

lemma run_nth:
  assumes "run step s es = Inr (t, cs)" and "i < length cs"
  shows "\<exists>u v. run step s (take i es) = Inr (u, take i cs) \<and> step u (es ! i) = Inr (v, cs ! i)
     \<and> run step v (drop (Suc i) es) = Inr (t, drop (Suc i) cs)"
proof -
  have len: "length cs = length es" using assms(1) by (rule run_length)
  with assms have "run step s (take i es @ es ! i # drop (Suc i) es) = Inr (t, cs)"
    by (simp add: id_take_nth_drop [symmetric])
  then obtain u v as c bs where u: "run step s (take i es) = Inr (u, as)" "step u (es ! i) = Inr (v, c)"
      "run step v (drop (Suc i) es) = Inr (t, bs)" and cs: "cs = as @ c # bs"
    unfolding run_append_Inr run_Cons_Inr by blast
  have "length as = i" using run_length [OF u(1)] assms(2) len by simp
  with u cs show ?thesis by (auto simp: nth_append)
qed

text \<open>A state predicate kept by the events of a class holds until an event outside the class occurs.\<close>

lemma run_keeps:
  assumes "\<And>s e t c. P s \<Longrightarrow> Q e \<Longrightarrow> step s e = Inr (t, c) \<Longrightarrow> P t"
    and "P s" and "run step s es = Inr (t, cs)" and "\<forall>e \<in> set es. Q e"
  shows "P t"
  using assms(2-)
proof (induction es arbitrary: s cs)
  case (Cons e es)
  then obtain u c ds where "step s e = Inr (u, c)" "run step u es = Inr (t, ds)"
    by (auto simp: run_Cons_Inr simp del: run.simps(2))
  then show ?case using Cons assms(1) [of s e u c] by auto
qed simp

lemma run_between:
  assumes "run step s es = Inr (t, cs)" and "i < j" and "j < length cs"
  obtains u u' v v' where "step u (es ! i) = Inr (u', cs ! i)" and "step v (es ! j) = Inr (v', cs ! j)"
    and "\<forall>P Q. (\<forall>s e t c. P s \<longrightarrow> Q e \<longrightarrow> step s e = Inr (t, c) \<longrightarrow> P t) \<longrightarrow> P u' \<longrightarrow>
           (\<forall>k. i < k \<longrightarrow> k < j \<longrightarrow> Q (es ! k)) \<longrightarrow> P v"
proof -
  obtain u u' where u: "step u (es ! i) = Inr (u', cs ! i)" "run step u' (drop (Suc i) es) = Inr (t, drop (Suc i) cs)"
    using run_nth [OF assms(1), of i] assms(2,3) by auto
  let ?mid = "take (j - Suc i) (drop (Suc i) es)"
  obtain v v' where v: "run step u' ?mid = Inr (v, take (j - Suc i) (drop (Suc i) cs))" "step v (es ! j) = Inr (v', cs ! j)"
    using run_nth [OF u(2), of "j - Suc i"] assms(2,3) run_length [OF assms(1)] by (auto simp: diff_less_mono)
  have mid: "\<exists>k. i < k \<and> k < j \<and> x = es ! k" if "x \<in> set ?mid" for x
  proof -
    obtain m where "m < length ?mid" "x = ?mid ! m" using \<open>x \<in> set ?mid\<close> by (auto simp: in_set_conv_nth)
    then show ?thesis by (intro exI [of _ "Suc i + m"]) auto
  qed
  show thesis
  proof (rule that [OF u(1) v(2)], intro allI impI)
    fix P Q assume keep: "\<forall>s e t c. P s \<longrightarrow> Q e \<longrightarrow> step s e = Inr (t, c) \<longrightarrow> P t" and "P u'"
      and q: "\<forall>k. i < k \<longrightarrow> k < j \<longrightarrow> Q (es ! k)"
    have "\<forall>e \<in> set ?mid. Q e" using mid q by blast
    then show "P v" using run_keeps [of P Q step u' ?mid v] keep \<open>P u'\<close> v(1) by blast
  qed
qed

text \<open>The states a reducer can reach from a start state by accepted events.\<close>

inductive reachable :: "('s \<Rightarrow> 'e \<Rightarrow> ('x, 's \<times> 'c) result) \<Rightarrow> 's \<Rightarrow> 's \<Rightarrow> bool" for step s0 where
  reach_start: "reachable step s0 s0"
| reach_step: "reachable step s0 s \<Longrightarrow> step s e = Inr (t, c) \<Longrightarrow> reachable step s0 t"

lemma run_reachable: "reachable step s0 s \<Longrightarrow> run step s es = Inr (t, cs) \<Longrightarrow> reachable step s0 t"
  by (induction es arbitrary: s cs)
    (auto simp: run_Cons_Inr intro: reach_step simp del: run.simps(2))

lemma reachable_run: "reachable step s0 t \<Longrightarrow> \<exists>es cs. run step s0 es = Inr (t, cs)"
proof (induction rule: reachable.induct)
  case reach_start
  have "run step s0 [] = Inr (s0, [])" by simp
  then show ?case by blast
next
  case (reach_step s e t c)
  then obtain es cs where "run step s0 es = Inr (s, cs)" by blast
  with reach_step.hyps(2) have "run step s0 (es @ [e]) = Inr (t, cs @ [c])"
    by (force simp: run_append_Inr)
  then show ?case by blast
qed

text \<open>
  \<open>since P Q tr\<close>: the trace has an entry with \<open>P\<close>, and every later entry satisfies \<open>Q\<close>.
\<close>

definition since :: "('a \<Rightarrow> bool) \<Rightarrow> ('a \<Rightarrow> bool) \<Rightarrow> 'a list \<Rightarrow> bool" where
  "since P Q tr \<longleftrightarrow> (\<exists>xs y ys. tr = xs @ y # ys \<and> P y \<and> (\<forall>z \<in> set ys. Q z))"

lemma since_new: "P y \<Longrightarrow> since P Q (tr @ [y])"
  unfolding since_def by (intro exI [of _ tr] exI [of _ y] exI [of _ "[]"]) simp

lemma since_snoc:
  assumes "since P Q tr" and "Q z"
  shows "since P Q (tr @ [z])"
proof -
  obtain xs y ys where "tr = xs @ y # ys" "P y" "\<forall>z \<in> set ys. Q z" using assms(1) unfolding since_def by blast
  then show ?thesis
    unfolding since_def using assms(2) by (intro exI [of _ xs] exI [of _ y] exI [of _ "ys @ [z]"]) auto
qed

text \<open>
  The contract of a machine with an invariant.  The reducer promises that an accepted event keeps
  the invariant; the clients get it along every history and in every reachable state.
\<close>

locale invariant_machine =
  fixes step :: "'s \<Rightarrow> 'e \<Rightarrow> ('x, 's \<times> 'c) result"
    and inv :: "'s \<Rightarrow> bool"
  assumes inv_step: "inv s \<Longrightarrow> step s e = Inr (t, c) \<Longrightarrow> inv t"
begin

lemma run_inv: "inv s \<Longrightarrow> run step s es = Inr (t, cs) \<Longrightarrow> inv t"
  by (induction es arbitrary: s cs)
    (auto simp: run_Cons_Inr dest: inv_step simp del: run.simps(2))

lemma reachable_inv: "inv s0 \<Longrightarrow> reachable step s0 s \<Longrightarrow> inv s"
  by (rotate_tac 1, induction rule: reachable.induct) (blast intro: inv_step)+

end

text \<open>
  A machine whose commands are guarded: every command emitted from a state with the invariant
  satisfies the licence of that state and event.
\<close>

locale guarded_machine = invariant_machine step inv
  for step :: "'s \<Rightarrow> 'e \<Rightarrow> ('x, 's \<times> 'c) result" and inv +
  fixes licence :: "'s \<Rightarrow> 'e \<Rightarrow> 'c \<Rightarrow> bool"
  assumes licensed: "inv s \<Longrightarrow> step s e = Inr (t, c) \<Longrightarrow> licence s e c"
begin

lemma run_licensed:
  assumes "inv s" and "run step s es = Inr (t, cs)" and "i < length cs"
  shows "\<exists>u. run step s (take i es) = Inr (u, take i cs) \<and> inv u \<and> licence u (es ! i) (cs ! i)"
  using assms
proof (induction es arbitrary: s cs i)
  case Nil
  then show ?case by simp
next
  case (Cons e es)
  then obtain u c cs' where st: "step s e = Inr (u, c)" and rn: "run step u es = Inr (t, cs')"
    and cs: "cs = c # cs'"
    by (auto simp: run_Cons_Inr simp del: run.simps(2))
  show ?case
  proof (cases i)
    case 0
    then show ?thesis using Cons.prems(1) st cs licensed by simp
  next
    case (Suc j)
    have "inv u" using Cons.prems(1) st by (rule inv_step)
    then obtain v where "run step u (take j es) = Inr (v, take j cs')" "inv v" "licence v (es ! j) (cs' ! j)"
      using Cons.IH [of u cs' j] rn Cons.prems(3) cs Suc by auto
    then show ?thesis using st cs Suc by simp
  qed
qed

end

text \<open>A set of states that accepted events never leave.\<close>

locale absorbing_machine =
  fixes step :: "'s \<Rightarrow> 'e \<Rightarrow> ('x, 's \<times> 'c) result"
    and final :: "'s \<Rightarrow> bool"
  assumes final_step: "final s \<Longrightarrow> step s e = Inr (t, c) \<Longrightarrow> final t"

sublocale absorbing_machine \<subseteq> absorbed: invariant_machine step final
  by unfold_locales (rule final_step)

text \<open>A preorder along which every accepted event moves up, as long as the invariant holds.\<close>

locale monotone_machine = invariant_machine step inv
  for step :: "'s \<Rightarrow> 'e \<Rightarrow> ('x, 's \<times> 'c) result" and inv +
  fixes up :: "'s \<Rightarrow> 's \<Rightarrow> bool"
  assumes up_refl: "up s s"
    and up_trans: "up s t \<Longrightarrow> up t u \<Longrightarrow> up s u"
    and up_step: "inv s \<Longrightarrow> step s e = Inr (t, c) \<Longrightarrow> up s t"
begin

lemma run_up: "inv s \<Longrightarrow> run step s es = Inr (t, cs) \<Longrightarrow> up s t"
proof (induction es arbitrary: s cs)
  case Nil
  then show ?case by (simp add: up_refl)
next
  case (Cons e es)
  then obtain u c ds where st: "step s e = Inr (u, c)" and rn: "run step u es = Inr (t, ds)"
    by (auto simp: run_Cons_Inr simp del: run.simps(2))
  have "up s u" using Cons.prems(1) st by (rule up_step)
  moreover have "up u t" using inv_step [OF Cons.prems(1) st] rn by (rule Cons.IH)
  ultimately show ?case by (rule up_trans)
qed

text \<open>Between two positions of a history the state after the first is below the state before the second.\<close>

lemma run_later:
  assumes "inv s" and "run step s es = Inr (t, cs)" and "i < j" and "j < length cs"
  shows "\<exists>u u' v v'. step u (es ! i) = Inr (u', cs ! i) \<and> step v (es ! j) = Inr (v', cs ! j) \<and> inv u \<and> inv v \<and> up u' v"
proof -
  obtain u u' where u: "run step s (take i es) = Inr (u, take i cs)" "step u (es ! i) = Inr (u', cs ! i)"
      "run step u' (drop (Suc i) es) = Inr (t, drop (Suc i) cs)"
    using run_nth [OF assms(2), of i] assms(3,4) by auto
  have invu: "inv u" using assms(1) u(1) by (rule run_inv)
  then have invu': "inv u'" using u(2) by (rule inv_step)
  obtain v v' where v: "run step u' (take (j - Suc i) (drop (Suc i) es)) = Inr (v, take (j - Suc i) (drop (Suc i) cs))"
      "step v (es ! j) = Inr (v', cs ! j)"
    using run_nth [OF u(3), of "j - Suc i"] assms(3,4) run_length [OF assms(2)] by (auto simp: diff_less_mono)
  have "inv v" "up u' v" using run_inv [OF invu' v(1)] run_up [OF invu' v(1)] by blast+
  with u(2) v(2) invu show ?thesis by blast
qed

end

end
