(* ===== verification/Ring_Protocol.thy ===== *)
theory Ring_Protocol
  imports Prelude
begin

text \<open>
  The pendant's ring-buffer protocol, \<open>capture/domain/ring_protocol.py\<close>: the frames of the five
  notifications and the status characteristic as parsers into records, and the four host commands as
  encoders.  A frame that is malformed raises \<open>RingProtocolError\<close>, here a value of
  \<open>ring_protocol_error\<close>.  The lemmas show that each parser accepts exactly the frames of its wire
  format and recovers every field, and that each command frame carries its operands unchanged.
\<close>

section \<open>Constants and data\<close>

definition RECORD_SIZE :: nat where "RECORD_SIZE = 444"
definition TIMESTAMP_SIZE :: nat where "TIMESTAMP_SIZE = 4"

definition NOTIFY_ACK :: byte where "NOTIFY_ACK = 0x01"
definition NOTIFY_INFO :: byte where "NOTIFY_INFO = 0x02"
definition NOTIFY_DATA :: byte where "NOTIFY_DATA = 0x03"
definition NOTIFY_DONE :: byte where "NOTIFY_DONE = 0x04"
definition NOTIFY_READ_BEGIN :: byte where "NOTIFY_READ_BEGIN = 0x05"

definition STATUS_STORAGE_NOT_READY :: int where "STATUS_STORAGE_NOT_READY = 9"

definition CMD_STOP :: byte where "CMD_STOP = 0x03"
definition CMD_INFO :: byte where "CMD_INFO = 0x10"
definition CMD_READ :: byte where "CMD_READ = 0x11"
definition CMD_ADVANCE :: byte where "CMD_ADVANCE = 0x12"

datatype ring_protocol_error =
    WrongLength string nat nat
  | WrongOpcode string byte byte
  | EmptyData
  | NotUnsigned string nat
  | PayloadIndexError

record ring_status =
  used_bytes :: int
  status_unread_packets :: int
  free_bytes :: int
  rtc_valid :: int

definition has_valid_rtc :: "ring_status \<Rightarrow> bool" where
  "has_valid_rtc s \<longleftrightarrow> rtc_valid s \<noteq> 0"

record ring_info =
  read_sequence :: int
  write_sequence :: int
  capacity_packets :: int
  dropped_packets :: int
  packet_size :: int

definition unread_packets :: "ring_info \<Rightarrow> int" where
  "unread_packets i = write_sequence i - read_sequence i"

record ack_notification =
  ack_status :: int

definition ack_is_ok :: "ack_notification \<Rightarrow> bool" where
  "ack_is_ok n \<longleftrightarrow> ack_status n = 0"

record done_notification =
  done_status :: int
  done_next_sequence :: int

definition done_is_ok :: "done_notification \<Rightarrow> bool" where
  "done_is_ok n \<longleftrightarrow> done_status n = 0"

record read_begin_notification =
  transfer_start_sequence :: int
  begin_packet_count :: int

section \<open>Guards and field access\<close>

definition require_exact_length :: "bytes \<Rightarrow> nat \<Rightarrow> string \<Rightarrow> (ring_protocol_error, unit) result" where
  "require_exact_length payload expected label =
     require (length payload = expected) (WrongLength label expected (length payload))"

definition require_opcode :: "bytes \<Rightarrow> byte \<Rightarrow> string \<Rightarrow> (ring_protocol_error, unit) result" where
  "require_opcode payload expected label =
     (case payload of
        [] \<Rightarrow> Inl PayloadIndexError
      | b # _ \<Rightarrow> require (b = expected) (WrongOpcode label b expected))"

definition require_uint :: "int \<Rightarrow> nat \<Rightarrow> string \<Rightarrow> (ring_protocol_error, unit) result" where
  "require_uint value bits label = require (0 \<le> value \<and> value < 2 ^ bits) (NotUnsigned label bits)"

definition read_uint_big :: "bytes \<Rightarrow> nat \<Rightarrow> nat \<Rightarrow> int" where
  "read_uint_big payload offset width = from_bytes_big (slice_of offset (offset + width) payload)"

definition read_uint_little :: "bytes \<Rightarrow> nat \<Rightarrow> nat \<Rightarrow> int" where
  "read_uint_little payload offset width = from_bytes_little (slice_of offset (offset + width) payload)"

section \<open>Parsers\<close>

definition parse_status :: "bytes \<Rightarrow> (ring_protocol_error, ring_status) result" where
  "parse_status payload =
     bind_result (require_exact_length payload 16 ''status'') (\<lambda>_.
     Inr \<lparr>used_bytes = read_uint_little payload 0 4,
          status_unread_packets = read_uint_little payload 4 4,
          free_bytes = read_uint_little payload 8 4,
          rtc_valid = read_uint_little payload 12 4\<rparr>)"

definition parse_info_notification :: "bytes \<Rightarrow> (ring_protocol_error, ring_info) result" where
  "parse_info_notification payload =
     bind_result (require_exact_length payload 31 ''INFO notification'') (\<lambda>_.
     bind_result (require_opcode payload NOTIFY_INFO ''INFO notification'') (\<lambda>_.
     Inr \<lparr>read_sequence = read_uint_big payload 1 8,
          write_sequence = read_uint_big payload 9 8,
          capacity_packets = read_uint_big payload 17 4,
          dropped_packets = read_uint_big payload 21 8,
          packet_size = read_uint_big payload 29 2\<rparr>))"

definition parse_ack_notification :: "bytes \<Rightarrow> (ring_protocol_error, ack_notification) result" where
  "parse_ack_notification payload =
     bind_result (require_exact_length payload 2 ''ACK notification'') (\<lambda>_.
     bind_result (require_opcode payload NOTIFY_ACK ''ACK notification'') (\<lambda>_.
     Inr \<lparr>ack_status = uint (payload ! 1)\<rparr>))"

definition parse_done_notification :: "bytes \<Rightarrow> (ring_protocol_error, done_notification) result" where
  "parse_done_notification payload =
     bind_result (require_exact_length payload 10 ''DONE notification'') (\<lambda>_.
     bind_result (require_opcode payload NOTIFY_DONE ''DONE notification'') (\<lambda>_.
     Inr \<lparr>done_status = uint (payload ! 1),
          done_next_sequence = read_uint_big payload 2 8\<rparr>))"

definition parse_read_begin_notification :: "bytes \<Rightarrow> (ring_protocol_error, read_begin_notification) result" where
  "parse_read_begin_notification payload =
     bind_result (require_exact_length payload 13 ''READ_BEGIN notification'') (\<lambda>_.
     bind_result (require_opcode payload NOTIFY_READ_BEGIN ''READ_BEGIN notification'') (\<lambda>_.
     Inr \<lparr>transfer_start_sequence = read_uint_big payload 1 8,
          begin_packet_count = read_uint_big payload 9 4\<rparr>))"

definition parse_data_notification :: "bytes \<Rightarrow> (ring_protocol_error, bytes) result" where
  "parse_data_notification payload =
     (if payload = [] then Inl EmptyData
      else bind_result (require_opcode payload NOTIFY_DATA ''DATA notification'') (\<lambda>_.
           Inr (drop 1 payload)))"

section \<open>Commands\<close>

definition encode_info_command :: bytes where
  "encode_info_command = [CMD_INFO]"

definition encode_stop_command :: bytes where
  "encode_stop_command = [CMD_STOP]"

definition encode_read_command :: "int \<Rightarrow> int option \<Rightarrow> (ring_protocol_error, bytes) result" where
  "encode_read_command start_sequence packet_count =
     bind_result (require_uint start_sequence 64 ''start_sequence'') (\<lambda>_.
     case packet_count of
       None \<Rightarrow> Inr (CMD_READ # to_bytes_big 8 start_sequence)
     | Some n \<Rightarrow>
         if n = 0 then Inr (CMD_READ # to_bytes_big 8 start_sequence)
         else bind_result (require_uint n 32 ''packet_count'') (\<lambda>_.
              Inr (CMD_READ # to_bytes_big 8 start_sequence @ to_bytes_big 4 n)))"

definition encode_advance_command :: "int \<Rightarrow> (ring_protocol_error, bytes) result" where
  "encode_advance_command new_read_sequence =
     bind_result (require_uint new_read_sequence 64 ''new_read_sequence'') (\<lambda>_.
     Inr (CMD_ADVANCE # to_bytes_big 8 new_read_sequence))"

section \<open>The wire format\<close>

text \<open>
  The frames as the device sends them, written from the field layout alone.  They are the
  specification the parsers are checked against.
\<close>

definition fits :: "nat \<Rightarrow> int \<Rightarrow> bool" where
  "fits n v \<longleftrightarrow> 0 \<le> v \<and> v < 256 ^ n"

definition status_frame :: "ring_status \<Rightarrow> bytes" where
  "status_frame s = to_bytes_little 4 (used_bytes s) @ to_bytes_little 4 (status_unread_packets s)
     @ to_bytes_little 4 (free_bytes s) @ to_bytes_little 4 (rtc_valid s)"

definition status_fits :: "ring_status \<Rightarrow> bool" where
  "status_fits s \<longleftrightarrow> fits 4 (used_bytes s) \<and> fits 4 (status_unread_packets s) \<and> fits 4 (free_bytes s)
     \<and> fits 4 (rtc_valid s)"

definition info_frame :: "ring_info \<Rightarrow> bytes" where
  "info_frame i = [NOTIFY_INFO] @ to_bytes_big 8 (read_sequence i) @ to_bytes_big 8 (write_sequence i)
     @ to_bytes_big 4 (capacity_packets i) @ to_bytes_big 8 (dropped_packets i) @ to_bytes_big 2 (packet_size i)"

definition info_fits :: "ring_info \<Rightarrow> bool" where
  "info_fits i \<longleftrightarrow> fits 8 (read_sequence i) \<and> fits 8 (write_sequence i) \<and> fits 4 (capacity_packets i)
     \<and> fits 8 (dropped_packets i) \<and> fits 2 (packet_size i)"

definition ack_frame :: "ack_notification \<Rightarrow> bytes" where
  "ack_frame n = [NOTIFY_ACK, word_of_int (ack_status n)]"

definition done_frame :: "done_notification \<Rightarrow> bytes" where
  "done_frame n = [NOTIFY_DONE, word_of_int (done_status n)] @ to_bytes_big 8 (done_next_sequence n)"

definition read_begin_frame :: "read_begin_notification \<Rightarrow> bytes" where
  "read_begin_frame n = [NOTIFY_READ_BEGIN] @ to_bytes_big 8 (transfer_start_sequence n)
     @ to_bytes_big 4 (begin_packet_count n)"

lemmas opcode_defs = NOTIFY_ACK_def NOTIFY_INFO_def NOTIFY_DATA_def NOTIFY_DONE_def NOTIFY_READ_BEGIN_def

lemmas guard_defs = require_exact_length_def require_opcode_def require_uint_def

lemmas parser_defs = parse_status_def parse_info_notification_def parse_ack_notification_def
  parse_done_notification_def parse_read_begin_notification_def parse_data_notification_def

lemma require_opcode_Inr [simp]:
  "require_opcode p b l = Inr u \<longleftrightarrow> (\<exists>ps. p = b # ps)"
  by (auto simp: require_opcode_def split: list.splits)

lemma require_exact_length_Inr [simp]:
  "require_exact_length p n l = Inr u \<longleftrightarrow> length p = n"
  by (simp add: require_exact_length_def)

lemma require_uint_Inr [simp]:
  "require_uint v n l = Inr u \<longleftrightarrow> 0 \<le> v \<and> v < 2 ^ n"
  by (simp add: require_uint_def)

lemma read_uint_big_field:
  "length pre = a \<Longrightarrow> fits n v \<Longrightarrow> read_uint_big (pre @ to_bytes_big n v @ post) a n = v"
  by (simp add: read_uint_big_def fits_def be.field_at)

lemma read_uint_little_field:
  "length pre = a \<Longrightarrow> fits n v \<Longrightarrow> read_uint_little (pre @ to_bytes_little n v @ post) a n = v"
  by (simp add: read_uint_little_def fits_def le.field_at)

lemma read_uint_big_fits: "a + n \<le> length p \<Longrightarrow> fits n (read_uint_big p a n)"
  using be.field_range [of a n p] by (simp add: read_uint_big_def fits_def)

lemma read_uint_little_fits: "a + n \<le> length p \<Longrightarrow> fits n (read_uint_little p a n)"
  using le.field_range [of a n p] by (simp add: read_uint_little_def fits_def)

lemma read_uint_big_back: "a + n \<le> length p \<Longrightarrow> to_bytes_big n (read_uint_big p a n) = slice_of a (a + n) p"
  by (simp add: read_uint_big_def be.field_back)

lemma read_uint_little_back:
  "a + n \<le> length p \<Longrightarrow> to_bytes_little n (read_uint_little p a n) = slice_of a (a + n) p"
  by (simp add: read_uint_little_def le.field_back)

lemma fits_byte [simp]: "fits (Suc 0) (uint (b :: byte))"
  by (simp add: fits_def)

lemma uint_of_fits: "fits 1 v \<Longrightarrow> uint (word_of_int v :: byte) = v"
  by (simp add: fits_def uint_word_of_int)

lemma head_slice: "p = b # ps \<Longrightarrow> slice_of 0 (Suc 0) p = [b]"
  by (simp add: slice_of_def)

section \<open>Each parser accepts exactly its frames\<close>

lemma slice_of_three:
  "length p = c \<Longrightarrow> a \<le> b \<Longrightarrow> b \<le> c \<Longrightarrow> slice_of 0 a p @ slice_of a b p @ slice_of b c p = p"
  by (simp add: slice_of_join slice_of_whole)

lemma parse_status_frame: "status_fits s \<Longrightarrow> parse_status (status_frame s) = Inr s"
proof -
  assume fit: "status_fits s"
  let ?u = "to_bytes_little 4 (used_bytes s)" and ?n = "to_bytes_little 4 (status_unread_packets s)"
    and ?f = "to_bytes_little 4 (free_bytes s)" and ?r = "to_bytes_little 4 (rtc_valid s)"
  have p: "status_frame s = ?u @ ?n @ ?f @ ?r" by (simp add: status_frame_def)
  have "read_uint_little (status_frame s) 0 4 = used_bytes s"
    using read_uint_little_field [of "[]" 0 4 "used_bytes s" "?n @ ?f @ ?r"] fit p by (simp add: status_fits_def)
  moreover have "read_uint_little (status_frame s) 4 4 = status_unread_packets s"
    using read_uint_little_field [of "?u" 4 4 "status_unread_packets s" "?f @ ?r"] fit p
    by (simp add: status_fits_def)
  moreover have "read_uint_little (status_frame s) 8 4 = free_bytes s"
    using read_uint_little_field [of "?u @ ?n" 8 4 "free_bytes s" "?r"] fit p by (simp add: status_fits_def)
  moreover have "read_uint_little (status_frame s) 12 4 = rtc_valid s"
    using read_uint_little_field [of "?u @ ?n @ ?f" 12 4 "rtc_valid s" "[]"] fit p by (simp add: status_fits_def)
  ultimately show ?thesis
    by (simp add: parse_status_def require_exact_length_def) (simp add: p)
qed

lemma parse_status_only: "parse_status p = Inr s \<Longrightarrow> status_fits s \<and> p = status_frame s"
proof -
  assume "parse_status p = Inr s"
  then have len: "length p = 16" and s: "s = \<lparr>used_bytes = read_uint_little p 0 4,
      status_unread_packets = read_uint_little p 4 4, free_bytes = read_uint_little p 8 4,
      rtc_valid = read_uint_little p 12 4\<rparr>"
    by (auto simp: parse_status_def result_iffs)
  have "status_frame s = slice_of 0 4 p @ slice_of 4 8 p @ slice_of 8 12 p @ slice_of 12 16 p"
    using len by (simp add: s status_frame_def read_uint_little_back)
  then show ?thesis
    using len by (simp add: s status_fits_def read_uint_little_fits slice_of_join slice_of_whole)
qed

lemma parse_info_frame: "info_fits i \<Longrightarrow> parse_info_notification (info_frame i) = Inr i"
proof -
  assume fit: "info_fits i"
  let ?r = "to_bytes_big 8 (read_sequence i)" and ?w = "to_bytes_big 8 (write_sequence i)"
    and ?c = "to_bytes_big 4 (capacity_packets i)" and ?d = "to_bytes_big 8 (dropped_packets i)"
    and ?s = "to_bytes_big 2 (packet_size i)"
  have p: "info_frame i = [NOTIFY_INFO] @ ?r @ ?w @ ?c @ ?d @ ?s" by (simp add: info_frame_def)
  have "read_uint_big (info_frame i) 1 8 = read_sequence i"
    using read_uint_big_field [of "[NOTIFY_INFO]" 1 8 "read_sequence i" "?w @ ?c @ ?d @ ?s"] fit p
    by (simp add: info_fits_def)
  moreover have "read_uint_big (info_frame i) 9 8 = write_sequence i"
    using read_uint_big_field [of "[NOTIFY_INFO] @ ?r" 9 8 "write_sequence i" "?c @ ?d @ ?s"] fit p
    by (simp add: info_fits_def)
  moreover have "read_uint_big (info_frame i) 17 4 = capacity_packets i"
    using read_uint_big_field [of "[NOTIFY_INFO] @ ?r @ ?w" 17 4 "capacity_packets i" "?d @ ?s"] fit p
    by (simp add: info_fits_def)
  moreover have "read_uint_big (info_frame i) 21 8 = dropped_packets i"
    using read_uint_big_field [of "[NOTIFY_INFO] @ ?r @ ?w @ ?c" 21 8 "dropped_packets i" "?s"] fit p
    by (simp add: info_fits_def)
  moreover have "read_uint_big (info_frame i) 29 2 = packet_size i"
    using read_uint_big_field [of "[NOTIFY_INFO] @ ?r @ ?w @ ?c @ ?d" 29 2 "packet_size i" "[]"] fit p
    by (simp add: info_fits_def)
  ultimately show ?thesis
    by (simp add: parse_info_notification_def require_exact_length_def) (simp add: p require_opcode_def)
qed

lemma parse_info_only: "parse_info_notification p = Inr i \<Longrightarrow> info_fits i \<and> p = info_frame i"
proof -
  assume "parse_info_notification p = Inr i"
  then obtain ps where len: "length p = 31" and op: "p = NOTIFY_INFO # ps"
    and i: "i = \<lparr>read_sequence = read_uint_big p 1 8, write_sequence = read_uint_big p 9 8,
      capacity_packets = read_uint_big p 17 4, dropped_packets = read_uint_big p 21 8,
      packet_size = read_uint_big p 29 2\<rparr>"
    by (auto simp: parse_info_notification_def result_iffs)
  have "info_frame i = slice_of 0 1 p @ slice_of 1 9 p @ slice_of 9 17 p @ slice_of 17 21 p
      @ slice_of 21 29 p @ slice_of 29 31 p"
    using len by (simp add: i info_frame_def read_uint_big_back head_slice [OF op])
  then show ?thesis
    using len by (simp add: i info_fits_def read_uint_big_fits slice_of_join slice_of_whole)
qed

lemma parse_done_exact:
  "parse_done_notification p = Inr n \<longleftrightarrow>
     fits 1 (done_status n) \<and> fits 8 (done_next_sequence n) \<and> p = done_frame n" (is "?L \<longleftrightarrow> ?R")
proof
  assume ?L
  then obtain ps where len: "length p = 10" and op: "p = NOTIFY_DONE # ps"
    and n: "n = \<lparr>done_status = uint (p ! 1), done_next_sequence = read_uint_big p 2 8\<rparr>"
    by (auto simp: parse_done_notification_def result_iffs)
  then obtain b qs where ps: "ps = b # qs" by (cases ps) auto
  have "done_frame n = slice_of 0 2 p @ slice_of 2 10 p"
    using len by (simp add: n done_frame_def read_uint_big_back op ps) (simp add: slice_of_def)
  then show ?R
    using len by (simp add: n read_uint_big_fits slice_of_join slice_of_whole)
next
  assume R: ?R
  then have "read_uint_big p 2 8 = done_next_sequence n"
    using read_uint_big_field [of "[NOTIFY_DONE, word_of_int (done_status n)]" 2 8 "done_next_sequence n" "[]"]
    by (simp add: done_frame_def)
  with R show ?L
    by (simp add: parse_done_notification_def require_exact_length_def)
      (simp add: require_opcode_def done_frame_def uint_of_fits)
qed

lemma parse_read_begin_exact:
  "parse_read_begin_notification p = Inr n \<longleftrightarrow>
     fits 8 (transfer_start_sequence n) \<and> fits 4 (begin_packet_count n) \<and> p = read_begin_frame n"
  (is "?L \<longleftrightarrow> ?R")
proof
  assume ?L
  then obtain ps where len: "length p = 13" and op: "p = NOTIFY_READ_BEGIN # ps"
    and n: "n = \<lparr>transfer_start_sequence = read_uint_big p 1 8, begin_packet_count = read_uint_big p 9 4\<rparr>"
    by (auto simp: parse_read_begin_notification_def result_iffs)
  have "read_begin_frame n = slice_of 0 1 p @ slice_of 1 9 p @ slice_of 9 13 p"
    using len by (simp add: n read_begin_frame_def read_uint_big_back head_slice [OF op])
  then show ?R
    using len by (simp add: n read_uint_big_fits slice_of_join slice_of_whole)
next
  assume R: ?R
  then have "read_uint_big p 1 8 = transfer_start_sequence n"
    using read_uint_big_field [of "[NOTIFY_READ_BEGIN]" 1 8 "transfer_start_sequence n"
        "to_bytes_big 4 (begin_packet_count n)"]
    by (simp add: read_begin_frame_def)
  moreover have "read_uint_big p 9 4 = begin_packet_count n"
    using R read_uint_big_field [of "[NOTIFY_READ_BEGIN] @ to_bytes_big 8 (transfer_start_sequence n)" 9 4
        "begin_packet_count n" "[]"]
    by (simp add: read_begin_frame_def)
  ultimately show ?L
    using R by (simp add: parse_read_begin_notification_def require_exact_length_def)
      (simp add: require_opcode_def read_begin_frame_def)
qed

lemma parse_ack_exact:
  "parse_ack_notification p = Inr n \<longleftrightarrow> fits 1 (ack_status n) \<and> p = ack_frame n" (is "?L \<longleftrightarrow> ?R")
proof
  assume ?L
  then obtain b where "p = [NOTIFY_ACK, b]" and "n = \<lparr>ack_status = uint b\<rparr>"
    by (auto simp: parse_ack_notification_def result_iffs length_Suc_conv numeral_2_eq_2)
  then show ?R by (simp add: ack_frame_def)
next
  assume ?R
  then show ?L
    by (simp add: parse_ack_notification_def guard_defs ack_frame_def uint_of_fits)
qed

lemma parse_data_exact: "parse_data_notification p = Inr d \<longleftrightarrow> p = NOTIFY_DATA # d"
  by (cases p) (auto simp: parse_data_notification_def require_opcode_def)

text \<open>
  C37: every notification parser accepts exactly the frames of its wire format.  A payload parses to a
  value if and only if the value's fields fit their widths and the payload is, byte for byte, the frame
  of that value; so parsing recovers every field, two different payloads never parse alike, and every
  other payload is refused.
\<close>

theorem notification_parsers_exact:
  "(parse_status p = Inr st \<longleftrightarrow> status_fits st \<and> p = status_frame st)
   \<and> (parse_info_notification p = Inr i \<longleftrightarrow> info_fits i \<and> p = info_frame i)
   \<and> (parse_ack_notification p = Inr a \<longleftrightarrow> fits 1 (ack_status a) \<and> p = ack_frame a)
   \<and> (parse_done_notification p = Inr d \<longleftrightarrow>
        fits 1 (done_status d) \<and> fits 8 (done_next_sequence d) \<and> p = done_frame d)
   \<and> (parse_read_begin_notification p = Inr b \<longleftrightarrow>
        fits 8 (transfer_start_sequence b) \<and> fits 4 (begin_packet_count b) \<and> p = read_begin_frame b)
   \<and> (parse_data_notification p = Inr raw \<longleftrightarrow> p = NOTIFY_DATA # raw)"
  using parse_status_frame [of st] parse_status_only [of p st]
    parse_info_frame [of i] parse_info_only [of p i]
  by (auto simp: parse_ack_exact parse_done_exact parse_read_begin_exact parse_data_exact)

section \<open>Command frames\<close>

text \<open>What the firmware reads back out of a command frame.\<close>

datatype ring_command = InfoCommand | StopCommand | ReadCommand int "int option" | AdvanceCommand int

definition device_decode :: "bytes \<Rightarrow> ring_command option" where
  "device_decode f =
     (if f = [CMD_INFO] then Some InfoCommand
      else if f = [CMD_STOP] then Some StopCommand
      else if length f = 9 \<and> hd f = CMD_READ then Some (ReadCommand (from_bytes_big (slice_of 1 9 f)) None)
      else if length f = 13 \<and> hd f = CMD_READ
        then Some (ReadCommand (from_bytes_big (slice_of 1 9 f)) (Some (from_bytes_big (slice_of 9 13 f))))
      else if length f = 9 \<and> hd f = CMD_ADVANCE then Some (AdvanceCommand (from_bytes_big (slice_of 1 9 f)))
      else None)"

definition requested_count :: "int option \<Rightarrow> int option" where
  "requested_count c = (if c = Some 0 then None else c)"

lemma from_bytes_8 [simp]: "0 \<le> v \<Longrightarrow> v < 2 ^ 64 \<Longrightarrow> from_bytes_big (to_bytes_big 8 v) = v"
  by (rule from_to_bytes_big) simp_all

lemma from_bytes_4 [simp]: "0 \<le> v \<Longrightarrow> v < 2 ^ 32 \<Longrightarrow> from_bytes_big (to_bytes_big 4 v) = v"
  by (rule from_to_bytes_big) simp_all

lemma encode_read_accepts_iff:
  "(\<exists>f. encode_read_command s c = Inr f) \<longleftrightarrow>
     0 \<le> s \<and> s < 2 ^ 64 \<and> (case c of None \<Rightarrow> True | Some n \<Rightarrow> 0 \<le> n \<and> n < 2 ^ 32)"
  by (auto simp: encode_read_command_def result_iffs split: option.splits)

lemma encode_read_decodes:
  "encode_read_command s c = Inr f \<Longrightarrow> device_decode f = Some (ReadCommand s (requested_count c))"
  by (auto simp: encode_read_command_def result_iffs device_decode_def requested_count_def slice_of_def
      CMD_READ_def CMD_INFO_def CMD_STOP_def split: option.splits if_splits)

lemma encode_advance_decodes:
  "encode_advance_command n = Inr f \<Longrightarrow> device_decode f = Some (AdvanceCommand n)"
  by (auto simp: encode_advance_command_def result_iffs device_decode_def slice_of_def
      CMD_ADVANCE_def CMD_READ_def CMD_INFO_def CMD_STOP_def)

text \<open>
  A command frame carries its operands to the device unchanged.  READ is encoded exactly when the
  start sequence is an unsigned 64-bit and the count, if given, an unsigned 32-bit integer; the frame
  the device receives decodes to the same start sequence and the same count, a zero count reading as
  all available data; ADVANCE decodes to the requested read sequence.
\<close>

theorem command_frames_carry_operands:
  "((\<exists>f. encode_read_command s c = Inr f) \<longleftrightarrow>
      0 \<le> s \<and> s < 2 ^ 64 \<and> (case c of None \<Rightarrow> True | Some n \<Rightarrow> 0 \<le> n \<and> n < 2 ^ 32))
   \<and> (\<forall>f. encode_read_command s c = Inr f \<longrightarrow> device_decode f = Some (ReadCommand s (requested_count c)))
   \<and> ((\<exists>f. encode_advance_command n = Inr f) \<longleftrightarrow> 0 \<le> n \<and> n < 2 ^ 64)
   \<and> (\<forall>f. encode_advance_command n = Inr f \<longrightarrow> device_decode f = Some (AdvanceCommand n))
   \<and> device_decode encode_info_command = Some InfoCommand
   \<and> device_decode encode_stop_command = Some StopCommand"
  by (simp add: encode_read_accepts_iff encode_read_decodes encode_advance_decodes)
    (auto simp: encode_advance_command_def result_iffs device_decode_def encode_info_command_def
      encode_stop_command_def CMD_INFO_def CMD_STOP_def)

theorem command_frames_carry_operands_witness:
  "device_decode (CMD_READ # to_bytes_big 8 7 @ to_bytes_big 4 3) = Some (ReadCommand 7 (Some 3))
   \<and> device_decode (CMD_ADVANCE # to_bytes_big 8 10) = Some (AdvanceCommand 10)"
proof -
  have r: "encode_read_command 7 (Some 3) = Inr (CMD_READ # to_bytes_big 8 7 @ to_bytes_big 4 3)"
    by (simp add: encode_read_command_def guard_defs)
  have a: "encode_advance_command 10 = Inr (CMD_ADVANCE # to_bytes_big 8 10)"
    by (simp add: encode_advance_command_def guard_defs)
  show ?thesis
    using command_frames_carry_operands [of 7 "Some 3" 10] r a by (simp add: requested_count_def)
qed

end
