(* ===== verification/Transfer_Arena.thy ===== *)
theory Transfer_Arena
  imports Ring_Protocol
begin

text \<open>
  \<open>capture/domain/transfer_arena.py\<close>: the preallocated buffer that assembles one bounded ring transfer
  from notification fragments, over any number of reconnect legs.  The object's fields are a record;
  every method is a function that returns the updated record or the exception.  Integers the
  constructors have checked to be nonnegative are naturals.  The facts: the fields stay consistent;
  the received bytes are a gap-free prefix that only ever grows and never changes; what was submitted
  to the writer is record-aligned and immutable; and if the device serves one byte stream, the arena
  holds exactly its prefix, whatever the fragmentation and the overlap of the legs.
\<close>

section \<open>Data\<close>

datatype arena_error =
    TransferArenaError string
  | ArenaCapacityError nat nat
  | ArenaLegError
  | ArenaSequenceError string
  | ArenaOverrunError string
  | ArenaDataMismatchError
  | ArenaPublicationError string

record transfer_snapshot =
  start_sequence :: nat
  total_records :: nat
  record_size :: nat

definition total_bytes :: "transfer_snapshot \<Rightarrow> nat" where
  "total_bytes s = total_records s * record_size s"

definition end_sequence :: "transfer_snapshot \<Rightarrow> nat" where
  "end_sequence s = start_sequence s + total_records s"

record transfer_arena =
  arena_buffer :: bytes
  arena_snapshot :: transfer_snapshot
  received_bytes :: nat
  submitted_bytes :: nat
  leg_start :: nat
  leg_bytes :: nat
  leg_total_bytes :: nat

section \<open>Operations\<close>

definition require_arena_uint :: "int \<Rightarrow> string \<Rightarrow> (arena_error, nat) result" where
  "require_arena_uint value label = (if value < 0 then Inl (TransferArenaError label) else Inr (nat value))"

definition new_snapshot :: "int \<Rightarrow> int \<Rightarrow> nat \<Rightarrow> (arena_error, transfer_snapshot) result" where
  "new_snapshot start records rsize =
     bind_result (require_arena_uint start ''start_sequence'') (\<lambda>s.
     bind_result (require_arena_uint records ''total_records'') (\<lambda>n.
     if rsize \<noteq> RECORD_SIZE then Inl (TransferArenaError ''record_size'')
     else Inr \<lparr>start_sequence = s, total_records = n, record_size = rsize\<rparr>))"

definition new_arena :: "int \<Rightarrow> int \<Rightarrow> int \<Rightarrow> nat \<Rightarrow> (arena_error, transfer_arena) result" where
  "new_arena start records max_bytes rsize =
     bind_result (new_snapshot start records rsize) (\<lambda>snapshot.
     bind_result (require_arena_uint max_bytes ''max_bytes'') (\<lambda>limit.
     if total_bytes snapshot > limit then Inl (ArenaCapacityError (total_bytes snapshot) limit)
     else Inr \<lparr>arena_buffer = replicate (total_bytes snapshot) 0,
               arena_snapshot = snapshot,
               received_bytes = 0,
               submitted_bytes = 0,
               leg_start = start_sequence snapshot,
               leg_bytes = 0,
               leg_total_bytes = total_bytes snapshot\<rparr>))"

definition complete_records :: "transfer_arena \<Rightarrow> nat" where
  "complete_records a = received_bytes a div record_size (arena_snapshot a)"

definition leg_complete_records :: "transfer_arena \<Rightarrow> nat" where
  "leg_complete_records a = leg_bytes a div record_size (arena_snapshot a)"

definition next_sequence :: "transfer_arena \<Rightarrow> nat" where
  "next_sequence a = start_sequence (arena_snapshot a) + complete_records a"

definition submitted_records :: "transfer_arena \<Rightarrow> nat" where
  "submitted_records a = submitted_bytes a div record_size (arena_snapshot a)"

definition begin_leg :: "transfer_arena \<Rightarrow> int \<Rightarrow> int \<Rightarrow> (arena_error, transfer_arena) result" where
  "begin_leg a start count =
     bind_result (require_arena_uint start ''start_sequence'') (\<lambda>s.
     bind_result (require_arena_uint count ''record_count'') (\<lambda>n.
     if n = 0 then Inl ArenaLegError
     else if s < start_sequence (arena_snapshot a) then Inl (ArenaSequenceError ''leg starts before the snapshot'')
     else if s + n > end_sequence (arena_snapshot a) then Inl (ArenaOverrunError ''leg extends beyond the snapshot'')
     else if s > next_sequence a then Inl (ArenaSequenceError ''leg starts after the next expected sequence'')
     else Inr (a\<lparr>leg_start := s, leg_bytes := 0, leg_total_bytes := n * record_size (arena_snapshot a)\<rparr>)))"

definition absolute_start :: "transfer_arena \<Rightarrow> nat" where
  "absolute_start a =
     (leg_start a - start_sequence (arena_snapshot a)) * record_size (arena_snapshot a) + leg_bytes a"

definition append_fragment :: "transfer_arena \<Rightarrow> bytes \<Rightarrow> (arena_error, transfer_arena) result" where
  "append_fragment a fragment =
     (let flen = length fragment;
          abs_start = absolute_start a;
          abs_end = abs_start + flen;
          overlap_end = min abs_end (received_bytes a);
          write_start = max abs_start (received_bytes a)
      in if leg_total_bytes a < leg_bytes a + flen
         then Inl (ArenaOverrunError ''fragment exceeds the selected leg'')
         else if abs_end > total_bytes (arena_snapshot a)
         then Inl (ArenaOverrunError ''fragment exceeds the snapshot'')
         else if abs_start < overlap_end
              \<and> slice_of abs_start overlap_end (arena_buffer a) \<noteq> take (overlap_end - abs_start) fragment
         then Inl ArenaDataMismatchError
         else Inr
           (let a' = (if write_start < abs_end
                      then a\<lparr>arena_buffer := take write_start (arena_buffer a)
                                @ drop (write_start - abs_start) fragment
                                @ drop abs_end (arena_buffer a),
                             received_bytes := abs_end\<rparr>
                      else a)
            in a'\<lparr>leg_bytes := leg_bytes a' + flen\<rparr>))"

definition submitted_prefix :: "transfer_arena \<Rightarrow> bytes" where
  "submitted_prefix a = take (submitted_bytes a) (arena_buffer a)"

definition submit_prefix :: "transfer_arena \<Rightarrow> int option \<Rightarrow> (arena_error, transfer_arena \<times> bytes) result" where
  "submit_prefix a record_count =
     (let available = complete_records a;
          target = (case record_count of None \<Rightarrow> int available | Some n \<Rightarrow> n)
      in if \<not> (0 \<le> target \<and> target \<le> int available)
         then Inl (ArenaPublicationError ''submitted record count is outside the received prefix'')
         else if nat target * record_size (arena_snapshot a) < submitted_bytes a
         then Inl (ArenaPublicationError ''submitted prefix cannot move backward'')
         else let a' = a\<lparr>submitted_bytes := nat target * record_size (arena_snapshot a)\<rparr>
              in Inr (a', submitted_prefix a'))"

definition partial_tail :: "transfer_arena \<Rightarrow> bytes" where
  "partial_tail a =
     slice_of (complete_records a * record_size (arena_snapshot a)) (received_bytes a) (arena_buffer a)"

definition readonly_source :: "transfer_arena \<Rightarrow> bytes" where
  "readonly_source a = arena_buffer a"

section \<open>Consistency of the fields\<close>

definition arena_inv :: "transfer_arena \<Rightarrow> bool" where
  "arena_inv a \<longleftrightarrow>
     record_size (arena_snapshot a) = RECORD_SIZE \<and>
     length (arena_buffer a) = total_bytes (arena_snapshot a) \<and>
     received_bytes a \<le> total_bytes (arena_snapshot a) \<and>
     submitted_bytes a \<le> received_bytes a \<and>
     RECORD_SIZE dvd submitted_bytes a \<and>
     start_sequence (arena_snapshot a) \<le> leg_start a \<and>
     leg_bytes a \<le> leg_total_bytes a \<and>
     (leg_start a - start_sequence (arena_snapshot a)) * RECORD_SIZE + leg_total_bytes a
       \<le> total_bytes (arena_snapshot a) \<and>
     absolute_start a \<le> received_bytes a"

text \<open>The bytes received so far, without the unused rest of the buffer.\<close>

definition received_prefix :: "transfer_arena \<Rightarrow> bytes" where
  "received_prefix a = take (received_bytes a) (arena_buffer a)"

lemma RECORD_SIZE_pos [simp]: "0 < RECORD_SIZE"
  by (simp add: RECORD_SIZE_def)

lemma new_arena_inv: "new_arena s n m r = Inr a \<Longrightarrow> arena_inv a"
  by (auto simp: new_arena_def new_snapshot_def result_iffs arena_inv_def absolute_start_def total_bytes_def
      split: if_splits)

lemma begin_leg_inv:
  assumes inv: "arena_inv a" and ok: "begin_leg a start count = Inr b"
  shows "arena_inv b"
proof -
  from ok obtain s n where sn: "0 < n" "start_sequence (arena_snapshot a) \<le> s"
      "s + n \<le> end_sequence (arena_snapshot a)" "s \<le> next_sequence a"
    and b: "b = a\<lparr>leg_start := s, leg_bytes := 0, leg_total_bytes := n * record_size (arena_snapshot a)\<rparr>"
    by (fastforce simp: begin_leg_def result_iffs not_less split: if_splits)
  from inv have rs: "record_size (arena_snapshot a) = RECORD_SIZE" by (simp add: arena_inv_def)
  let ?d = "s - start_sequence (arena_snapshot a)"
  have "?d + n \<le> total_records (arena_snapshot a)"
    using sn by (simp add: end_sequence_def)
  then have fit: "?d * RECORD_SIZE + n * RECORD_SIZE \<le> total_bytes (arena_snapshot a)"
    using rs by (metis add_mult_distrib mult_le_mono1 total_bytes_def)
  have "?d \<le> received_bytes a div RECORD_SIZE"
    using sn rs by (simp add: next_sequence_def complete_records_def)
  then have "?d * RECORD_SIZE \<le> received_bytes a"
    by (rule le_div_times)
  with fit sn inv rs show ?thesis
    by (simp add: b arena_inv_def absolute_start_def)
qed

text \<open>
  With a gap-free prefix an accepted fragment appends exactly its unseen suffix, and the overlap has
  been compared with what is already there.
\<close>

lemma append_fragment_exact:
  assumes inv: "arena_inv a"
  shows "append_fragment a f = Inr b \<longleftrightarrow>
    leg_bytes a + length f \<le> leg_total_bytes a \<and>
    take (received_bytes a - absolute_start a) f = take (length f) (drop (absolute_start a) (received_prefix a)) \<and>
    b = a\<lparr>arena_buffer := received_prefix a @ drop (received_bytes a - absolute_start a) f
              @ drop (max (received_bytes a) (absolute_start a + length f)) (arena_buffer a),
          received_bytes := max (received_bytes a) (absolute_start a + length f),
          leg_bytes := leg_bytes a + length f\<rparr>"
proof -
  let ?s = "absolute_start a" and ?r = "received_bytes a" and ?n = "length f" and ?buf = "arena_buffer a"
  have facts: "?s \<le> ?r" "?r \<le> length ?buf" "length ?buf = total_bytes (arena_snapshot a)"
    using inv by (simp_all add: arena_inv_def)
  have room: "?s + ?n \<le> total_bytes (arena_snapshot a)" if "leg_bytes a + ?n \<le> leg_total_bytes a"
    using that inv by (auto simp: arena_inv_def absolute_start_def)
  have overlap: "slice_of ?s (min (?s + ?n) ?r) ?buf = take ?n (drop ?s (received_prefix a))"
    using facts by (auto simp: slice_of_def received_prefix_def min_def drop_take take_take)
  have cut: "take (min (?s + ?n) ?r - ?s) f = take (?r - ?s) f"
    using facts by (auto simp: min_def)
  have agree: "(?s < min (?s + ?n) ?r \<and> slice_of ?s (min (?s + ?n) ?r) ?buf \<noteq> take (min (?s + ?n) ?r - ?s) f)
      \<longleftrightarrow> take (?r - ?s) f \<noteq> take ?n (drop ?s (received_prefix a))"
    unfolding overlap cut using facts by (cases "?s < ?r") (auto simp: min_def received_prefix_def)
  have upd: "(let a' = (if max ?s ?r < ?s + ?n
                 then a\<lparr>arena_buffer := take (max ?s ?r) ?buf @ drop (max ?s ?r - ?s) f @ drop (?s + ?n) ?buf,
                        received_bytes := ?s + ?n\<rparr>
                 else a) in a'\<lparr>leg_bytes := leg_bytes a' + ?n\<rparr>)
    = a\<lparr>arena_buffer := received_prefix a @ drop (?r - ?s) f @ drop (max ?r (?s + ?n)) ?buf,
        received_bytes := max ?r (?s + ?n), leg_bytes := leg_bytes a + ?n\<rparr>"
    using facts by (auto simp: Let_def received_prefix_def max_def)
  show ?thesis
    unfolding append_fragment_def Let_def [of "length f"] Let_def [of "absolute_start a"]
      Let_def [of "?s + ?n"] Let_def [of "min (?s + ?n) ?r"] Let_def [of "max ?s ?r"]
    unfolding agree upd
    using room by (auto simp: not_less)
qed

lemma append_fragment_inv:
  assumes inv: "arena_inv a" and ok: "append_fragment a f = Inr b"
  shows "arena_inv b"
proof -
  have fit: "leg_bytes a + length f \<le> leg_total_bytes a"
    and b: "b = a\<lparr>arena_buffer := received_prefix a @ drop (received_bytes a - absolute_start a) f
              @ drop (max (received_bytes a) (absolute_start a + length f)) (arena_buffer a),
          received_bytes := max (received_bytes a) (absolute_start a + length f),
          leg_bytes := leg_bytes a + length f\<rparr>"
    using ok by (simp_all add: append_fragment_exact [OF inv])
  have room: "absolute_start a + length f \<le> total_bytes (arena_snapshot a)"
    using fit inv by (auto simp: arena_inv_def absolute_start_def)
  have "absolute_start b = absolute_start a + length f"
    by (simp add: b absolute_start_def)
  moreover have "length (arena_buffer b) = total_bytes (arena_snapshot a)"
    using inv room by (auto simp: b arena_inv_def received_prefix_def max_def)
  ultimately show ?thesis
    using inv fit room by (simp add: b arena_inv_def le_max_iff_disj)
qed

lemma submit_prefix_Inr:
  "submit_prefix a n = Inr (b, v) \<longleftrightarrow>
     (\<exists>k. n \<in> {None, Some (int k)} \<and> (n = None \<longrightarrow> k = complete_records a) \<and> k \<le> complete_records a \<and>
        submitted_bytes a \<le> k * record_size (arena_snapshot a) \<and>
        b = a\<lparr>submitted_bytes := k * record_size (arena_snapshot a)\<rparr> \<and> v = submitted_prefix b)"
proof (cases n)
  case None
  then show ?thesis by (auto simp: submit_prefix_def Let_def not_less)
next
  case (Some m)
  show ?thesis
  proof (cases "0 \<le> m")
    case True
    then obtain k where "m = int k" by (metis nonneg_int_cases)
    with Some show ?thesis by (auto simp: submit_prefix_def Let_def not_less)
  next
    case False
    with Some show ?thesis by (auto simp: submit_prefix_def Let_def)
  qed
qed

lemma submit_prefix_inv:
  assumes inv: "arena_inv a" and ok: "submit_prefix a n = Inr (b, view)"
  shows "arena_inv b"
proof -
  from ok obtain k where k: "k \<le> complete_records a"
    and b: "b = a\<lparr>submitted_bytes := k * record_size (arena_snapshot a)\<rparr>"
    by (auto simp: submit_prefix_Inr)
  have rs: "record_size (arena_snapshot a) = RECORD_SIZE" using inv by (simp add: arena_inv_def)
  have "k * RECORD_SIZE \<le> received_bytes a"
    using k rs by (simp add: complete_records_def le_div_times)
  then show ?thesis
    using inv rs by (simp add: b arena_inv_def absolute_start_def)
qed

section \<open>Histories of one arena\<close>

datatype arena_op = BeginLeg int int | AppendFragment bytes | SubmitPrefix "int option"

text \<open>One call on the arena; a submission also emits the read-only view the writer receives.\<close>

fun arena_step :: "transfer_arena \<Rightarrow> arena_op \<Rightarrow> (arena_error, transfer_arena \<times> bytes option) result" where
  "arena_step a (BeginLeg s n) = bind_result (begin_leg a s n) (\<lambda>b. Inr (b, None))"
| "arena_step a (AppendFragment f) = bind_result (append_fragment a f) (\<lambda>b. Inr (b, None))"
| "arena_step a (SubmitPrefix n) = bind_result (submit_prefix a n) (\<lambda>(b, v). Inr (b, Some v))"

lemma begin_leg_frame:
  "begin_leg a s n = Inr b \<Longrightarrow>
     received_prefix b = received_prefix a \<and> submitted_bytes b = submitted_bytes a
     \<and> submitted_prefix b = submitted_prefix a \<and> arena_snapshot b = arena_snapshot a"
  by (auto simp: begin_leg_def result_iffs received_prefix_def submitted_prefix_def split: if_splits)

lemma append_fragment_received:
  assumes inv: "arena_inv a" and ok: "append_fragment a f = Inr b"
  shows "received_prefix b = received_prefix a @ drop (received_bytes a - absolute_start a) f"
proof -
  let ?p = "received_prefix a @ drop (received_bytes a - absolute_start a) f"
  have "length (received_prefix a) = received_bytes a"
    using inv by (simp add: received_prefix_def arena_inv_def)
  then have "length ?p = max (received_bytes a) (absolute_start a + length f)"
    using inv by (auto simp: arena_inv_def max_def)
  then have "received_bytes b = length ?p"
    and "\<exists>rest. arena_buffer b = ?p @ rest"
    using ok by (simp_all add: append_fragment_exact [OF inv])
  then show ?thesis by (auto simp: received_prefix_def [of b])
qed

lemma submitted_of_received:
  "arena_inv a \<Longrightarrow> submitted_prefix a = take (submitted_bytes a) (received_prefix a)"
  by (simp add: submitted_prefix_def received_prefix_def arena_inv_def min_def)

lemma length_received_prefix: "arena_inv a \<Longrightarrow> length (received_prefix a) = received_bytes a"
  by (simp add: received_prefix_def arena_inv_def)

text \<open>Later states extend what was received and what was submitted, byte for byte.\<close>

definition arena_extends :: "transfer_arena \<Rightarrow> transfer_arena \<Rightarrow> bool" where
  "arena_extends a b \<longleftrightarrow>
     (\<exists>zs. received_prefix b = received_prefix a @ zs) \<and>
     (\<exists>zs. submitted_prefix b = submitted_prefix a @ zs)"

lemma arena_step_inv: "arena_inv a \<Longrightarrow> arena_step a x = Inr (b, v) \<Longrightarrow> arena_inv b"
  by (cases x) (auto simp: result_iffs dest: begin_leg_inv append_fragment_inv submit_prefix_inv)

lemma take_extend: "m \<le> n \<Longrightarrow> \<exists>zs. take n xs = take m xs @ zs"
  by (metis le_add_diff_inverse take_add)

lemma arena_step_extends:
  assumes inv: "arena_inv a" and st: "arena_step a x = Inr (b, v)"
  shows "arena_extends a b"
proof (cases x)
  case (BeginLeg s n)
  then show ?thesis
    using st by (auto simp: result_iffs arena_extends_def dest: begin_leg_frame)
next
  case (AppendFragment f)
  then have ap: "append_fragment a f = Inr b" using st by (auto simp: result_iffs)
  have sub: "submitted_bytes b = submitted_bytes a"
    using ap inv by (simp add: append_fragment_exact)
  have "submitted_prefix b = submitted_prefix a"
    using append_fragment_received [OF inv ap] sub inv append_fragment_inv [OF inv ap]
    by (simp add: submitted_of_received length_received_prefix arena_inv_def)
  then show ?thesis
    using append_fragment_received [OF inv ap] by (auto simp: arena_extends_def)
next
  case (SubmitPrefix n)
  then obtain k where "submitted_bytes a \<le> k * record_size (arena_snapshot a)"
    and b: "b = a\<lparr>submitted_bytes := k * record_size (arena_snapshot a)\<rparr>"
    using st by (auto simp: result_iffs submit_prefix_Inr)
  then show ?thesis
    by (simp add: arena_extends_def received_prefix_def submitted_prefix_def take_extend)
qed

interpretation arena: monotone_machine arena_step arena_inv arena_extends
proof unfold_locales
  fix a b c d x v
  show "arena_inv a \<Longrightarrow> arena_step a x = Inr (b, v) \<Longrightarrow> arena_inv b" by (rule arena_step_inv)
  show "arena_extends a a" by (simp add: arena_extends_def)
  show "arena_extends a b \<Longrightarrow> arena_extends b c \<Longrightarrow> arena_extends a c"
    by (auto simp: arena_extends_def)
  show "arena_inv a \<Longrightarrow> arena_step a x = Inr (b, v) \<Longrightarrow> arena_extends a b" by (rule arena_step_extends)
qed

text \<open>
  C38: the arena stays consistent and what it handed out never changes.  From a new arena, after any
  sequence of accepted leg selections, fragments and submissions, the buffer has the size of the
  snapshot, the received bytes lie inside it with no gap before the current leg position, and the
  submitted bytes are a whole number of records inside the received bytes; and everything received
  and everything submitted at any earlier moment is, byte for byte, a prefix of what is received and
  submitted now.
\<close>

theorem arena_prefixes_only_grow:
  assumes "new_arena s n m r = Inr a0" and "run arena_step a0 xs = Inr (a, us)" and "run arena_step a ys = Inr (b, vs)"
  shows "arena_inv a \<and> arena_inv b
    \<and> (\<exists>zs. received_prefix b = received_prefix a @ zs) \<and> (\<exists>zs. submitted_prefix b = submitted_prefix a @ zs)"
proof -
  have "arena_inv a0" using assms(1) by (rule new_arena_inv)
  then have a: "arena_inv a" using assms(2) by (rule arena.run_inv)
  then show ?thesis
    using arena.run_inv [OF a assms(3)] arena.run_up [OF a assms(3)] by (auto simp: arena_extends_def)
qed

lemma new_arena_one_record:
  "new_arena 5 1 1000 444 = Inr \<lparr>arena_buffer = replicate 444 0,
     arena_snapshot = \<lparr>start_sequence = 5, total_records = 1, record_size = 444\<rparr>,
     received_bytes = 0, submitted_bytes = 0, leg_start = 5, leg_bytes = 0, leg_total_bytes = 444\<rparr>"
  by (simp only: new_arena_def new_snapshot_def require_arena_uint_def RECORD_SIZE_def)
    (simp, simp add: total_bytes_def)

theorem arena_prefixes_only_grow_witness:
  "\<exists>a0 a b us vs. new_arena 5 1 1000 444 = Inr a0
     \<and> run arena_step a0 [AppendFragment (replicate 444 7), SubmitPrefix None] = Inr (a, us)
     \<and> run arena_step a [BeginLeg 5 1, AppendFragment (replicate 3 7)] = Inr (b, vs)
     \<and> submitted_prefix a = replicate 444 7
     \<and> (\<exists>zs. submitted_prefix b = submitted_prefix a @ zs)"
proof -
  let ?snap = "\<lparr>start_sequence = 5, total_records = 1, record_size = 444\<rparr>"
  let ?start = "\<lparr>arena_buffer = replicate 444 0, arena_snapshot = ?snap, received_bytes = 0, submitted_bytes = 0,
      leg_start = 5, leg_bytes = 0, leg_total_bytes = 444\<rparr>"
  let ?a = "?start\<lparr>arena_buffer := replicate 444 7, received_bytes := 444, leg_bytes := 444, submitted_bytes := 444\<rparr>"
  let ?b = "?a\<lparr>leg_bytes := 3\<rparr>"
  have new: "new_arena 5 1 1000 444 = Inr ?start"
    by (rule new_arena_one_record)
  have r1: "run arena_step ?start [AppendFragment (replicate 444 7), SubmitPrefix None]
      = Inr (?a, [None, Some (replicate 444 7)])"
    by (simp add: append_fragment_def absolute_start_def total_bytes_def submit_prefix_def complete_records_def
        submitted_prefix_def Let_def)
  have r2: "run arena_step ?a [BeginLeg 5 1, AppendFragment (replicate 3 7)] = Inr (?b, [None, None])"
    by (simp add: begin_leg_def require_arena_uint_def end_sequence_def next_sequence_def complete_records_def
        append_fragment_def absolute_start_def total_bytes_def Let_def slice_of_def)
  show ?thesis
    using new r1 r2 arena_prefixes_only_grow [OF new r1 r2]
    by (intro exI [of _ ?start] exI [of _ ?a] exI [of _ ?b] exI conjI) (auto simp: submitted_prefix_def)
qed

section \<open>The arena against one device stream\<close>

text \<open>
  The device serves one byte stream \<open>dev\<close> for the snapshot.  Whatever legs the host selects and however
  the notifications cut them, the next \<open>n\<close> bytes of the selected leg are the \<open>n\<close> bytes of the stream at
  the leg position.
\<close>

datatype device_op = SelectLeg int int | Notify nat | Submit "int option"

fun device_step :: "bytes \<Rightarrow> transfer_arena \<Rightarrow> device_op \<Rightarrow> (arena_error, transfer_arena \<times> bytes option) result" where
  "device_step dev a (SelectLeg s n) = arena_step a (BeginLeg s n)"
| "device_step dev a (Notify n) =
     arena_step a (AppendFragment (slice_of (absolute_start a) (absolute_start a + n) dev))"
| "device_step dev a (Submit n) = arena_step a (SubmitPrefix n)"

definition holds_prefix_of :: "bytes \<Rightarrow> transfer_arena \<Rightarrow> bool" where
  "holds_prefix_of dev a \<longleftrightarrow>
     arena_inv a \<and> length dev = total_bytes (arena_snapshot a) \<and>
     received_prefix a = take (received_bytes a) dev"

lemma device_notify_accepted:
  assumes h: "holds_prefix_of dev a" and fit: "leg_bytes a + n \<le> leg_total_bytes a"
  shows "\<exists>b. device_step dev a (Notify n) = Inr (b, None)
     \<and> received_bytes b = max (received_bytes a) (absolute_start a + n)
     \<and> leg_bytes b = leg_bytes a + n \<and> holds_prefix_of dev b"
proof -
  let ?s = "absolute_start a" and ?r = "received_bytes a"
  let ?f = "slice_of ?s (?s + n) dev"
  have inv: "arena_inv a" and dev: "length dev = total_bytes (arena_snapshot a)"
    and rec: "received_prefix a = take ?r dev"
    using h by (simp_all add: holds_prefix_of_def)
  have bounds: "?s \<le> ?r" "?r \<le> length dev" "?s + n \<le> length dev"
    using inv dev fit by (auto simp: arena_inv_def absolute_start_def)
  then have len: "length ?f = n" by simp
  have agree: "take (?r - ?s) ?f = take (length ?f) (drop ?s (received_prefix a))"
    unfolding len rec using bounds by (simp add: slice_of_def drop_take min.commute)
  let ?b = "a\<lparr>arena_buffer := received_prefix a @ drop (?r - ?s) ?f @ drop (max ?r (?s + length ?f)) (arena_buffer a),
          received_bytes := max ?r (?s + length ?f), leg_bytes := leg_bytes a + length ?f\<rparr>"
  have ap: "append_fragment a ?f = Inr ?b"
    using agree fit len by (simp add: append_fragment_exact [OF inv])
  have tail: "drop (?r - ?s) ?f = slice_of ?r (max ?r (?s + n)) dev"
    using bounds by (auto simp: slice_of_def drop_take max_def add.commute)
  have rp: "received_prefix ?b = take (max ?r (?s + length ?f)) dev"
    using append_fragment_received [OF inv ap] slice_of_join [of 0 ?r "max ?r (?s + n)" dev]
    unfolding rec tail len by (simp add: slice_of_prefix)
  have "holds_prefix_of dev ?b"
    unfolding holds_prefix_of_def rp using append_fragment_inv [OF inv ap] dev by simp
  then show ?thesis using ap len by (intro exI [of _ ?b]) simp
qed

lemma arena_step_snapshot: "arena_step a x = Inr (b, v) \<Longrightarrow> arena_snapshot b = arena_snapshot a"
  by (cases x) (auto simp: result_iffs begin_leg_def append_fragment_def submit_prefix_def Let_def split: if_splits)

lemma device_step_holds:
  assumes h: "holds_prefix_of dev a" and st: "device_step dev a x = Inr (b, v)"
  shows "holds_prefix_of dev b \<and> (\<forall>w. v = Some w \<longrightarrow> (\<exists>k. w = take (k * RECORD_SIZE) dev))"
proof (cases x)
  case (SelectLeg s n)
  then have "begin_leg a s n = Inr b" "v = None" using st by (auto simp: result_iffs)
  moreover from this(1) h have "received_bytes b = received_bytes a"
    by (auto simp: begin_leg_def result_iffs split: if_splits)
  ultimately show ?thesis
    using h by (auto simp: holds_prefix_of_def dest: begin_leg_frame begin_leg_inv)
next
  case (Notify n)
  have inv: "arena_inv a" using h by (simp add: holds_prefix_of_def)
  have ap: "append_fragment a (slice_of (absolute_start a) (absolute_start a + n) dev) = Inr b" and v: "v = None"
    using st Notify by (auto simp: result_iffs)
  define k where "k = length (slice_of (absolute_start a) (absolute_start a + n) dev)"
  have same: "slice_of (absolute_start a) (absolute_start a + n) dev
      = slice_of (absolute_start a) (absolute_start a + k) dev"
    by (auto simp: k_def slice_of_def min_def)
  have "leg_bytes a + k \<le> leg_total_bytes a"
    using ap by (simp add: append_fragment_exact [OF inv] k_def)
  then obtain b' where "device_step dev a (Notify k) = Inr (b', None)" "holds_prefix_of dev b'"
    using device_notify_accepted [OF h] by blast
  moreover have "b' = b" using calculation ap same by (simp add: result_iffs)
  ultimately show ?thesis using v by simp
next
  case (Submit n)
  have inv: "arena_inv a" using h by (simp add: holds_prefix_of_def)
  obtain k where k: "k \<le> complete_records a"
      and b: "b = a\<lparr>submitted_bytes := k * record_size (arena_snapshot a)\<rparr>" and v: "v = Some (submitted_prefix b)"
    and sp: "submit_prefix a n = Inr (b, submitted_prefix b)"
    using st Submit by (auto simp: result_iffs submit_prefix_Inr)
  have invb: "arena_inv b" using submit_prefix_inv [OF inv sp] .
  have rs: "record_size (arena_snapshot a) = RECORD_SIZE" using inv by (simp add: arena_inv_def)
  have rp: "received_prefix b = take (received_bytes a) dev" using h by (simp add: b received_prefix_def holds_prefix_of_def)
  have "submitted_prefix b = take (k * RECORD_SIZE) dev"
    using submitted_of_received [OF invb] rp invb rs by (simp add: b arena_inv_def min_def)
  then show ?thesis
    using h invb rp v by (auto simp: holds_prefix_of_def b)
qed

lemma new_arena_holds:
  "new_arena s n m r = Inr a \<Longrightarrow> length dev = total_bytes (arena_snapshot a) \<Longrightarrow> holds_prefix_of dev a"
  by (frule new_arena_inv)
    (auto simp: holds_prefix_of_def received_prefix_def new_arena_def result_iffs split: if_splits)

interpretation device_stream: guarded_machine "device_step dev" "holds_prefix_of dev"
    "\<lambda>a x v. \<forall>w. v = Some w \<longrightarrow> (\<exists>k. w = take (k * RECORD_SIZE) dev)"
  for dev
  by unfold_locales (use device_step_holds in blast)+

text \<open>
  C18: reassembly is exact.  Let the device serve one stream of the snapshot's size.  After any accepted
  sequence of leg selections, notifications of any length and submissions, the received bytes are a
  prefix of that stream, and every view handed to the writer is a whole-record prefix of it; and a
  notification that fits the selected leg is never refused, even when it replays bytes already held.
\<close>

theorem arena_reassembles_device_stream:
  assumes "new_arena s n m r = Inr a0" and "length dev = total_bytes (arena_snapshot a0)"
    and "run (device_step dev) a0 xs = Inr (a, vs)"
  shows "received_prefix a = take (received_bytes a) dev
    \<and> (\<forall>i < length vs. \<forall>w. vs ! i = Some w \<longrightarrow> (\<exists>k. w = take (k * RECORD_SIZE) dev))
    \<and> (\<forall>j. leg_bytes a + j \<le> leg_total_bytes a \<longrightarrow>
          (\<exists>b. device_step dev a (Notify j) = Inr (b, None) \<and> received_prefix b = take (received_bytes b) dev
             \<and> received_bytes b = max (received_bytes a) (absolute_start a + j)))"
proof -
  have h0: "holds_prefix_of dev a0" using assms(1,2) by (rule new_arena_holds)
  have h: "holds_prefix_of dev a" using h0 assms(3) by (rule device_stream.run_inv)
  have "\<exists>k. w = take (k * RECORD_SIZE) dev" if "i < length vs" "vs ! i = Some w" for i w
    using device_stream.run_licensed [OF h0 assms(3) that(1)] that(2) by auto
  then show ?thesis
    using h device_notify_accepted [OF h] by (fastforce simp: holds_prefix_of_def)
qed

theorem arena_reassembles_device_stream_witness:
  "\<exists>a0 a vs. new_arena 5 1 1000 444 = Inr a0
     \<and> run (device_step (replicate 444 9)) a0 [Notify 400, SelectLeg 5 1, Notify 444, Submit None] = Inr (a, vs)
     \<and> received_bytes a = 444 \<and> received_prefix a = replicate 444 9"
proof -
  let ?dev = "replicate 444 9 :: bytes"
  let ?snap = "\<lparr>start_sequence = 5, total_records = 1, record_size = 444\<rparr>"
  let ?start = "\<lparr>arena_buffer = replicate 444 0, arena_snapshot = ?snap, received_bytes = 0, submitted_bytes = 0,
      leg_start = 5, leg_bytes = 0, leg_total_bytes = 444\<rparr>"
  let ?a = "?start\<lparr>arena_buffer := ?dev, received_bytes := 444, leg_bytes := 444, submitted_bytes := 444\<rparr>"
  have new: "new_arena 5 1 1000 444 = Inr ?start"
    by (rule new_arena_one_record)
  have dev: "length ?dev = total_bytes (arena_snapshot ?start)" by (simp add: total_bytes_def)
  have rep: "replicate 400 x @ replicate 44 x = replicate 444 x" for x :: byte
    by (simp flip: replicate_add)
  have run: "run (device_step ?dev) ?start [Notify 400, SelectLeg 5 1, Notify 444, Submit None]
      = Inr (?a, [None, None, None, Some ?dev])"
    by (simp add: append_fragment_def absolute_start_def total_bytes_def begin_leg_def require_arena_uint_def
        end_sequence_def next_sequence_def complete_records_def submit_prefix_def submitted_prefix_def Let_def
        slice_of_def rep)
  show ?thesis
    using new run arena_reassembles_device_stream [OF new dev run]
    by (intro exI [of _ ?start] exI [of _ ?a] exI conjI) (auto simp: received_prefix_def)
qed

end
