(* ===== verification/Opus_Duration.thy ===== *)
theory Opus_Duration
  imports Prelude
begin

text \<open>
  The audio framing of one ring record (\<open>domain/opus_duration.py\<close>).

  A 444-byte record is a 4-byte timestamp and a 440-byte payload.  The payload is read as a sequence of
  length-prefixed Opus packets with zero bytes as padding; a packet that would reach the end of the
  payload is the overflow tail that continues in the next record.  Indexing outside a byte string is
  Python's \<open>IndexError\<close>, so it is an error value of the model and not an unspecified one.

  The frame counters are compared with the packet grammar of RFC 6716: within the size limit a packet is
  accepted exactly when it is a framing of nonempty frames that last 20 ms.  The records built from such
  packets are the subject of \<open>Opus_Records\<close>.
\<close>

unbundle bit_operations_syntax

section \<open>Constants and data\<close>

definition PAYLOAD_DATA_LIMIT :: nat where "PAYLOAD_DATA_LIMIT = 439"
definition MAX_PACKET_SIZE :: nat where "MAX_PACKET_SIZE = 160"
definition PACKET_SAMPLES :: nat where "PACKET_SAMPLES = 960"
definition SILK_CONFIG_LIMIT :: nat where "SILK_CONFIG_LIMIT = 12"
definition HYBRID_CONFIG_LIMIT :: nat where "HYBRID_CONFIG_LIMIT = 16"
definition MAX_OPUS_FRAMES :: nat where "MAX_OPUS_FRAMES = 48"
definition PADDING_CONTINUATION :: nat where "PADDING_CONTINUATION = 255"
definition LENGTH_EXTENDED :: nat where "LENGTH_EXTENDED = 252"
definition TWO_FRAMES :: nat where "TWO_FRAMES = 2"

lemmas opus_constants =
  PAYLOAD_DATA_LIMIT_def MAX_PACKET_SIZE_def PACKET_SAMPLES_def SILK_CONFIG_LIMIT_def
  HYBRID_CONFIG_LIMIT_def MAX_OPUS_FRAMES_def PADDING_CONTINUATION_def LENGTH_EXTENDED_def TWO_FRAMES_def

datatype opus_error = OpusIndexError | OpusValueError string

record record_audio_layout =
  packet_count :: nat
  first_size :: nat
  overflow_size :: "nat option"
  audio_packets :: "bytes list"

section \<open>Operations\<close>

text \<open>\<open>xs[i]\<close> for a byte string and a nonnegative index.\<close>

definition index_byte :: "bytes \<Rightarrow> nat \<Rightarrow> (opus_error, nat) result" where
  "index_byte xs i = (if i < length xs then Inr (unat (xs ! i)) else Inl OpusIndexError)"

definition opus_length :: "bytes \<Rightarrow> nat \<Rightarrow> int \<Rightarrow> (opus_error, nat option \<times> nat) result" where
  "opus_length packet cursor fin =
     (if fin \<le> int cursor then Inr (None, cursor)
      else bind_result (index_byte packet cursor) (\<lambda>value.
        let cursor' = cursor + 1 in
        if value < LENGTH_EXTENDED then Inr (Some value, cursor')
        else if fin \<le> int cursor' then Inr (None, cursor')
        else bind_result (index_byte packet cursor') (\<lambda>ext. Inr (Some (value + 4 * ext), cursor' + 1))))"

function padding_loop :: "bytes \<Rightarrow> nat \<Rightarrow> nat \<Rightarrow> (opus_error, nat \<times> nat) result" where
  "padding_loop packet cursor padding =
     (if cursor < length packet
      then bind_result (index_byte packet cursor) (\<lambda>value.
        if value \<noteq> PADDING_CONTINUATION then Inr (cursor + 1, padding + value)
        else padding_loop packet (cursor + 1) (padding + value))
      else Inr (length packet + 1, padding))"
  by pat_completeness auto
termination by (relation "measure (\<lambda>(p, c, _). length p - c)") auto

definition opus_padding :: "bytes \<Rightarrow> nat \<Rightarrow> (opus_error, nat \<times> nat) result" where
  "opus_padding packet control =
     (if control AND 64 = 0 then Inr (2, 0) else padding_loop packet 2 0)"

definition valid_cbr_frames :: "nat \<Rightarrow> nat \<Rightarrow> int \<Rightarrow> bool" where
  "valid_cbr_frames count cursor fin =
     (let body = fin - int cursor in 0 < body \<and> body mod int count = 0)"

text \<open>The loop over \<open>range(count - 1)\<close>; \<open>acc\<close> is the sum of the sizes read so far.\<close>

fun vbr_loop :: "nat \<Rightarrow> bytes \<Rightarrow> nat \<Rightarrow> int \<Rightarrow> nat \<Rightarrow> (opus_error, bool) result" where
  "vbr_loop 0 packet cursor fin acc = Inr (0 < fin - int cursor - int acc)"
| "vbr_loop (Suc n) packet cursor fin acc =
     bind_result (opus_length packet cursor fin) (\<lambda>(sz, cursor').
       case sz of
         None \<Rightarrow> Inr False
       | Some s \<Rightarrow> if s = 0 then Inr False else vbr_loop n packet cursor' fin (acc + s))"

definition valid_vbr_frames :: "bytes \<Rightarrow> nat \<Rightarrow> nat \<Rightarrow> int \<Rightarrow> (opus_error, bool) result" where
  "valid_vbr_frames packet count cursor fin = vbr_loop (count - 1) packet cursor fin 0"

definition multi_count :: "bytes \<Rightarrow> (opus_error, nat option) result" where
  "multi_count packet =
     (if length packet < TWO_FRAMES then Inr None
      else bind_result (index_byte packet 1) (\<lambda>control.
        let count = control AND 63 in
        if \<not> (1 \<le> count \<and> count \<le> MAX_OPUS_FRAMES) then Inr None
        else bind_result (opus_padding packet control) (\<lambda>(cursor, padding).
          let fin = int (length packet) - int padding in
          if \<not> int cursor \<le> fin then Inr None
          else bind_result
            (if control AND 128 \<noteq> 0 then valid_vbr_frames packet count cursor fin
             else Inr (valid_cbr_frames count cursor fin))
            (\<lambda>valid. Inr (if valid then Some count else None)))))"

definition vbr_two_count :: "bytes \<Rightarrow> (opus_error, nat option) result" where
  "vbr_two_count packet =
     bind_result (opus_length packet 1 (int (length packet))) (\<lambda>(first, cursor).
       Inr (case first of
              None \<Rightarrow> None
            | Some f \<Rightarrow> if 0 < f \<and> cursor < length packet \<and> cursor + f < length packet then Some 2 else None))"

definition frame_count :: "bytes \<Rightarrow> nat \<Rightarrow> (opus_error, nat option) result" where
  "frame_count packet code =
     (if code = 0 then Inr (if 1 < length packet then Some 1 else None)
      else if code = 1 then
        Inr (if TWO_FRAMES < length packet \<and> (length packet - 1) mod TWO_FRAMES = 0 then Some TWO_FRAMES else None)
      else if code = TWO_FRAMES then vbr_two_count packet
      else multi_count packet)"

definition opus_duration :: "nat \<Rightarrow> nat" where
  "opus_duration config =
     (if config < SILK_CONFIG_LIMIT then [480, 960, 1920, 2880] ! (config AND 3)
      else if config < HYBRID_CONFIG_LIMIT then [480, 960] ! (config AND 1)
      else [120, 240, 480, 960] ! (config AND 3))"

definition is_20ms :: "bytes \<Rightarrow> (opus_error, bool) result" where
  "is_20ms packet =
     (if packet = [] then Inr False
      else bind_result (index_byte packet 0) (\<lambda>toc.
        let config = drop_bit 3 toc; code = toc AND 3; duration = opus_duration config in
        bind_result (frame_count packet code) (\<lambda>frames.
          Inr (case frames of None \<Rightarrow> False | Some n \<Rightarrow> n * duration = PACKET_SAMPLES))))"

text \<open>
  The test of line 61, with Python's short-circuiting: the size is looked at first, then the packet,
  and the stereo flag only for a mono record.
\<close>

definition packet_valid :: "bool \<Rightarrow> nat \<Rightarrow> bytes \<Rightarrow> (opus_error, bool) result" where
  "packet_valid mono_only sz packet =
     (if sz > MAX_PACKET_SIZE then Inr False
      else bind_result (is_20ms packet) (\<lambda>ok.
        if \<not> ok then Inr False
        else if \<not> mono_only then Inr True
        else bind_result (index_byte packet 0) (\<lambda>toc. Inr (toc AND 4 = 0))))"

function scan_payload ::
  "bool \<Rightarrow> bytes \<Rightarrow> nat \<Rightarrow> nat \<Rightarrow> bytes list \<Rightarrow> (opus_error, nat \<times> nat option \<times> bytes list) result" where
  "scan_payload mono_only payload offset count packets =
     (if \<not> offset < PAYLOAD_DATA_LIMIT then Inr (count, None, packets)
      else bind_result (index_byte payload offset) (\<lambda>sz.
        let offset' = offset + 1 in
        if sz = 0 then scan_payload mono_only payload offset' count packets
        else let fin = offset' + sz in
        if length payload \<le> fin then
          (if sz > MAX_PACKET_SIZE then Inl (OpusValueError ''invalid Opus packet size'')
           else Inr (count, Some sz, packets))
        else let packet = slice_of offset' fin payload in
        bind_result (packet_valid mono_only sz packet) (\<lambda>ok.
          if \<not> ok then Inl (OpusValueError ''invalid 20 ms Opus packet'')
          else scan_payload mono_only payload fin (count + 1) (packets @ [packet]))))"
  by pat_completeness auto
termination by (relation "measure (\<lambda>(_, _, offset, _). PAYLOAD_DATA_LIMIT - offset)") auto

definition inspect_record :: "bool \<Rightarrow> bytes \<Rightarrow> (opus_error, record_audio_layout) result" where
  "inspect_record mono_only rec =
     (let payload = drop 4 rec in
      bind_result (scan_payload mono_only payload 0 0 []) (\<lambda>(count, overflow, packets).
      bind_result (index_byte payload 0) (\<lambda>first.
        Inr \<lparr>packet_count = count, first_size = first, overflow_size = overflow, audio_packets = packets\<rparr>)))"

definition inspect_20ms_record :: "bytes \<Rightarrow> (opus_error, record_audio_layout) result" where
  "inspect_20ms_record rec = inspect_record False rec"

definition inspect_mono_20ms_record :: "bytes \<Rightarrow> (opus_error, record_audio_layout) result" where
  "inspect_mono_20ms_record rec = inspect_record True rec"

definition count_20ms_packets :: "bytes \<Rightarrow> (opus_error, nat) result" where
  "count_20ms_packets rec = bind_result (inspect_20ms_record rec) (\<lambda>layout. Inr (packet_count layout))"

declare padding_loop.simps [simp del] scan_payload.simps [simp del]

section \<open>No index is out of range\<close>

lemma index_byte_simps [simp]:
  "index_byte xs i = Inr v \<longleftrightarrow> i < length xs \<and> v = unat (xs ! i)"
  "index_byte xs i = Inl e \<longleftrightarrow> length xs \<le> i \<and> e = OpusIndexError"
  by (auto simp: index_byte_def)

text \<open>The lookups of \<open>_duration\<close> stay inside their tuples, so it is the table of RFC 6716.\<close>

lemma and_below: "(a :: nat) AND 3 < 4" "(a :: nat) AND 1 < 2"
proof -
  have "a AND mask 2 < 4" "a AND mask 1 < 2"
    by (simp_all add: take_bit_eq_mod flip: take_bit_eq_mask)
  then show "a AND 3 < 4" "a AND 1 < 2" by (simp_all add: mask_eq_exp_minus_1)
qed

lemma opus_duration_range: "opus_duration config \<in> {120, 240, 480, 960, 1920, 2880}"
proof -
  have pick: "xs ! (config AND 3) \<in> set xs" if "length xs = 4" for xs :: "nat list"
    using that and_below(1) [of config] by (simp add: nth_mem)
  have pick2: "xs ! (config AND 1) \<in> set xs" if "length xs = 2" for xs :: "nat list"
    using that and_below(2) [of config] by (simp add: nth_mem)
  show ?thesis
    using pick [of "[480, 960, 1920, 2880]"] pick [of "[120, 240, 480, 960]"] pick2 [of "[480, 960]"]
    by (auto simp: opus_duration_def)
qed

lemma opus_length_safe: "fin \<le> int (length p) \<Longrightarrow> \<exists>r. opus_length p c fin = Inr r"
  by (auto simp: opus_length_def index_byte_def Let_def)

lemma vbr_loop_safe: "fin \<le> int (length p) \<Longrightarrow> \<exists>b. vbr_loop n p c fin acc = Inr b"
proof (induction n arbitrary: c acc)
  case 0
  show ?case by simp
next
  case (Suc n)
  obtain r where r: "opus_length p c fin = Inr r" using opus_length_safe [OF Suc.prems] by blast
  show ?case using Suc by (cases r) (auto simp: r split: option.split)
qed

lemma padding_loop_safe: "\<exists>r. padding_loop p c k = Inr r"
proof (induction p c k rule: padding_loop.induct)
  case (1 p c k)
  then show ?case by (subst padding_loop.simps) (auto simp: index_byte_def)
qed

lemma multi_count_safe: "\<exists>r. multi_count p = Inr r"
proof -
  obtain c k where "opus_padding p (unat (p ! 1)) = Inr (c, k)"
    using padding_loop_safe [of p 2 0] by (cases "unat (p ! 1) AND 64 = 0") (auto simp: opus_padding_def)
  moreover obtain b where "valid_vbr_frames p (unat (p ! 1) AND 63) c (int (length p) - int k) = Inr b"
    using vbr_loop_safe [of "int (length p) - int k" p] by (force simp: valid_vbr_frames_def)
  ultimately show ?thesis
    by (simp add: multi_count_def index_byte_def TWO_FRAMES_def Let_def)
qed

lemma vbr_two_count_safe: "\<exists>r. vbr_two_count p = Inr r"
  using opus_length_safe [of "int (length p)" p 1] by (auto simp: vbr_two_count_def)

lemma is_20ms_safe: "\<exists>b. is_20ms p = Inr b"
proof -
  have "\<exists>r. frame_count p code = Inr r" for code
    using vbr_two_count_safe multi_count_safe by (simp add: frame_count_def)
  then show ?thesis
    by (cases p) (auto simp: is_20ms_def index_byte_def Let_def bind_result_def split: sum.split, metis sum.distinct(1))
qed

lemma packet_valid_safe: "\<exists>b. packet_valid mono_only n p = Inr b"
proof -
  obtain b where b: "is_20ms p = Inr b" using is_20ms_safe by blast
  have "p \<noteq> []" if b by (rule notI) (use b that in \<open>simp add: is_20ms_def\<close>)
  then show ?thesis by (auto simp: packet_valid_def b index_byte_def)
qed

section \<open>The packet grammar of RFC 6716\<close>

text \<open>
  The framing of a packet after its TOC byte, section 3.2 of the RFC, restricted to nonempty frames: one frame,
  two of equal size, two with a coded size, or up to 48 of constant or coded sizes with optional padding.  A
  padding length of 255 or more is left out: no packet of at most 160 bytes can carry it.
\<close>

definition len_code :: "nat \<Rightarrow> bytes" where
  "len_code n = (if n < 252 then [word_of_nat n] else [word_of_nat (252 + (n - 252) mod 4), word_of_nat ((n - 252) div 4)])"

definition padded :: "byte \<Rightarrow> bytes \<Rightarrow> bytes \<Rightarrow> bool" where
  "padded ctl pads zs \<longleftrightarrow>
     (if bit ctl 6 then length zs < 255 \<and> pads = [word_of_nat (length zs)] else pads = [] \<and> zs = [])"

definition sized :: "byte \<Rightarrow> bytes list \<Rightarrow> bytes \<Rightarrow> bool" where
  "sized ctl frames lens \<longleftrightarrow>
     (if bit ctl 7 then lens = concat (map (\<lambda>f. len_code (length f)) (butlast frames)) \<and> (\<forall>f \<in> set (butlast frames). length f \<le> 1275)
      else lens = [] \<and> (\<forall>f \<in> set frames. length f = length (hd frames)))"

definition framed_multi :: "bytes list \<Rightarrow> bytes \<Rightarrow> bool" where
  "framed_multi frames body \<longleftrightarrow>
     (\<exists>ctl pads lens zs. body = ctl # pads @ (lens @ concat frames) @ zs \<and> take_bit 6 (unat ctl) = length frames
        \<and> 1 \<le> length frames \<and> length frames \<le> 48 \<and> padded ctl pads zs \<and> sized ctl frames lens)"

definition framed :: "nat \<Rightarrow> bytes list \<Rightarrow> bytes \<Rightarrow> bool" where
  "framed code frames body \<longleftrightarrow>
     [] \<notin> set frames
   \<and> (if code = 0 then frames = [body]
      else if code = 1 then \<exists>a b. frames = [a, b] \<and> length a = length b \<and> body = a @ b
      else if code = 2 then \<exists>a b. frames = [a, b] \<and> length a \<le> 1275 \<and> body = len_code (length a) @ a @ b
      else framed_multi frames body)"

text \<open>Samples at 48 kHz of one frame, for each of the 32 configurations.\<close>

definition config_samples :: "nat list" where
  "config_samples = concat (replicate 3 [480, 960, 1920, 2880]) @ concat (replicate 2 [480, 960])
     @ concat (replicate 4 [120, 240, 480, 960])"

definition opus_20ms_packet :: "bytes \<Rightarrow> bool" where
  "opus_20ms_packet p \<longleftrightarrow>
     (\<exists>toc body frames. p = toc # body \<and> framed (unat toc mod 4) frames body
        \<and> length frames * config_samples ! (unat toc div 8) = 960)"

subsection \<open>Coded sizes\<close>

lemma slice_of_Cons: "c < f \<Longrightarrow> f \<le> length p \<Longrightarrow> slice_of c f p = p ! c # slice_of (c + 1) f p"
proof -
  assume "c < f" "f \<le> length p"
  then have "f - c = Suc (f - (c + 1))" "c < length p" by simp_all
  then show ?thesis by (simp only: slice_of_def take_Suc_Cons flip: Cons_nth_drop_Suc) simp
qed

lemma byte_less: "unat (x :: byte) < 256"
  using unsigned_less [of x] by simp

lemma byte_eq_iff: "n < 256 \<Longrightarrow> (x :: byte) = word_of_nat n \<longleftrightarrow> unat x = n"
  by (auto simp: unsigned_of_nat take_bit_nat_eq_self_iff)

lemma len_code_one: "[x] = len_code n \<longleftrightarrow> unat x = n \<and> n < 252" if "n \<le> 1275"
  using that by (auto simp: len_code_def byte_eq_iff)

lemma len_code_two:
  assumes "n \<le> 1275"
  shows "[x, y] = len_code n \<longleftrightarrow> 252 \<le> unat x \<and> n = unat x + 4 * unat y"
proof -
  have "(n - 252) mod 4 < 4" "(n - 252) div 4 < 256" using assms by simp_all
  then have "[x, y] = len_code n \<longleftrightarrow> 252 \<le> n \<and> unat x = 252 + (n - 252) mod 4 \<and> unat y = (n - 252) div 4"
    using byte_eq_iff [of "252 + (n - 252) mod 4" x] byte_eq_iff [of "(n - 252) div 4" y] by (auto simp: len_code_def)
  also have "\<dots> \<longleftrightarrow> 252 \<le> unat x \<and> n = unat x + 4 * unat y"
  proof
    assume "252 \<le> n \<and> unat x = 252 + (n - 252) mod 4 \<and> unat y = (n - 252) div 4"
    then show "252 \<le> unat x \<and> n = unat x + 4 * unat y" using mult_div_mod_eq [of 4 "n - 252"] by simp
  next
    assume h: "252 \<le> unat x \<and> n = unat x + 4 * unat y"
    then have "n - 252 = (unat x - 252) + 4 * unat y" by simp
    moreover have "unat x - 252 < 4" using byte_less [of x] by simp
    ultimately have "(n - 252) mod 4 = unat x - 252" "(n - 252) div 4 = unat y" by simp_all
    then show "252 \<le> n \<and> unat x = 252 + (n - 252) mod 4 \<and> unat y = (n - 252) div 4" using h by simp
  qed
  finally show ?thesis .
qed

lemma len_code_length: "length (len_code n) = (if n < 252 then 1 else 2)"
  by (simp add: len_code_def)

lemma opus_length_exact:
  assumes "f \<le> length p"
  shows "opus_length p c (int f) = Inr (Some n, c') \<longleftrightarrow>
     n \<le> 1275 \<and> c' = c + length (len_code n) \<and> c' \<le> f \<and> slice_of c c' p = len_code n"
proof -
  have s1: "slice_of c (c + 1) p = [p ! c]" if "c < f"
    using slice_of_Cons [of c "c + 1" p] that assms by (simp add: slice_of_def)
  have s2: "slice_of c (c + 2) p = [p ! c, p ! (c + 1)]" if "c + 1 < f"
    using slice_of_Cons [of c "c + 2" p] slice_of_Cons [of "c + 1" "c + 2" p] that assms by (simp add: slice_of_def)
  consider (none) "f \<le> c" | (one) "c < f" "unat (p ! c) < 252" | (cut) "f = c + 1" "252 \<le> unat (p ! c)"
    | (two) "c + 1 < f" "252 \<le> unat (p ! c)" by linarith
  then show ?thesis
  proof cases
    case none
    then show ?thesis by (auto simp: opus_length_def len_code_length)
  next
    case one
    then show ?thesis
      using assms s1 s2 len_code_one [of n "p ! c"] len_code_two [of n "p ! c" "p ! (c + 1)"]
      by (auto simp: opus_length_def index_byte_def LENGTH_EXTENDED_def Let_def len_code_length byte_less split: if_splits)
  next
    case cut
    then show ?thesis
      using assms s1 len_code_one [of n "p ! c"]
      by (auto simp: opus_length_def index_byte_def LENGTH_EXTENDED_def Let_def len_code_length split: if_splits)
  next
    case two
    have "unat (p ! c) + 4 * unat (p ! (c + 1)) \<le> 1275" using byte_less [of "p ! c"] byte_less [of "p ! (c + 1)"] by simp
    then show ?thesis
      using two assms s1 s2 len_code_one [of n "p ! c"] len_code_two [of n "p ! c" "p ! (c + 1)"]
      by (auto simp: opus_length_def index_byte_def LENGTH_EXTENDED_def Let_def len_code_length split: if_splits)
  qed
qed

subsection \<open>Frames\<close>

lemma slice_of_cut:
  "c + length xs \<le> f \<Longrightarrow> f \<le> length p \<Longrightarrow>
     (slice_of c f p = xs @ r) \<longleftrightarrow> slice_of c (c + length xs) p = xs \<and> slice_of (c + length xs) f p = r"
proof -
  assume "c + length xs \<le> f" "f \<le> length p"
  then have "slice_of c f p = slice_of c (c + length xs) p @ slice_of (c + length xs) f p"
    and "length (slice_of c (c + length xs) p) = length xs" using slice_of_join [of c "c + length xs" f p] by simp_all
  then show ?thesis by auto
qed

lemma slice_of_split: "f \<le> length p \<Longrightarrow> slice_of c f p = xs @ r \<Longrightarrow> xs \<noteq> [] \<Longrightarrow> c + length xs \<le> f"
  by (drule arg_cong [of _ _ length]) (cases xs; simp)

lemma len_code_nonempty: "len_code n \<noteq> []"
  by (simp add: len_code_def)

text \<open>What the loop reads, on the window it reads from: sizes, then a rest that is longer than their sum.\<close>

fun sized_rest :: "nat \<Rightarrow> bytes \<Rightarrow> nat \<Rightarrow> bool" where
  "sized_rest 0 w acc \<longleftrightarrow> acc < length w"
| "sized_rest (Suc n) w acc \<longleftrightarrow> (\<exists>s w'. 0 < s \<and> s \<le> 1275 \<and> w = len_code s @ w' \<and> sized_rest n w' (acc + s))"

lemma opus_length_window:
  assumes "f \<le> length p"
  shows "opus_length p c (int f) = Inr (Some s, c') \<longleftrightarrow>
     s \<le> 1275 \<and> c' = c + length (len_code s) \<and> slice_of c f p = len_code s @ slice_of c' f p"
  using opus_length_exact [OF assms, of c s c'] slice_of_cut [of c "len_code s" f p "slice_of c' f p"]
    slice_of_split [OF assms, of c "len_code s" "slice_of c' f p"] len_code_nonempty [of s] assms
  by (auto simp del: length_slice_of)

lemma vbr_loop_window:
  assumes "f \<le> length p"
  shows "vbr_loop n p c (int f) acc = Inr True \<longleftrightarrow> sized_rest n (slice_of c f p) acc"
proof (induction n arbitrary: c acc)
  case 0
  show ?case using assms by auto
next
  case (Suc n)
  have "vbr_loop (Suc n) p c (int f) acc = Inr True \<longleftrightarrow>
      (\<exists>s c'. opus_length p c (int f) = Inr (Some s, c') \<and> 0 < s \<and> vbr_loop n p c' (int f) (acc + s) = Inr True)"
    by (auto simp: bind_result_Inr_iff split: option.splits if_splits)
  also have "\<dots> \<longleftrightarrow> (\<exists>s. 0 < s \<and> s \<le> 1275 \<and> (let c' = c + length (len_code s) in
      slice_of c f p = len_code s @ slice_of c' f p \<and> sized_rest n (slice_of c' f p) (acc + s)))"
    unfolding opus_length_window [OF assms] Suc.IH Let_def by blast
  also have "\<dots> \<longleftrightarrow> sized_rest (Suc n) (slice_of c f p) acc"
  proof -
    have "slice_of (c + length (len_code s)) f p = w'" if "slice_of c f p = len_code s @ w'" for s w'
      using that slice_of_split [OF assms that len_code_nonempty] slice_of_cut [of c "len_code s" f p w'] assms by simp
    then show ?thesis unfolding sized_rest.simps Let_def by metis
  qed
  finally show ?case .
qed

lemma sized_rest_sizes:
  "sized_rest n w acc \<longleftrightarrow>
    (\<exists>sizes r. length sizes = n \<and> (\<forall>s \<in> set sizes. 0 < s \<and> s \<le> 1275)
       \<and> w = concat (map len_code sizes) @ r \<and> acc + sum_list sizes < length r)"
proof (induction n arbitrary: w acc)
  case 0
  show ?case by simp
next
  case (Suc n)
  show ?case (is "?L = ?R")
  proof
    assume ?L
    then obtain s w' sizes r where "0 < s" "s \<le> 1275" "w = len_code s @ w'" "length sizes = n" "\<forall>s \<in> set sizes. 0 < s \<and> s \<le> 1275"
      "w' = concat (map len_code sizes) @ r" "acc + s + sum_list sizes < length r" using Suc.IH by auto
    then show ?R by (intro exI [of _ "s # sizes"] exI [of _ r]) auto
  next
    assume ?R
    then obtain s sizes r where "length sizes = n" "0 < s" "s \<le> 1275" "\<forall>s \<in> set sizes. 0 < s \<and> s \<le> 1275"
      "w = len_code s @ concat (map len_code sizes) @ r" "acc + s + sum_list sizes < length r"
      by (auto simp: length_Suc_conv add.assoc)
    then show ?L using Suc.IH by auto
  qed
qed

lemma split_by_sizes: "sum_list ns = length xs \<Longrightarrow> \<exists>fs. map length fs = ns \<and> concat fs = xs"
proof (induction ns arbitrary: xs)
  case (Cons n ns)
  then have "length xs = n + sum_list ns" by simp
  then obtain fs where "map length fs = ns" "concat fs = drop n xs" using Cons.IH [of "drop n xs"] by auto
  then show ?case using Cons.prems by (intro exI [of _ "take n xs # fs"]) auto
qed simp

lemma vbr_frames_exact:
  assumes "f \<le> length p" "1 \<le> count"
  shows "valid_vbr_frames p count c (int f) = Inr True \<longleftrightarrow>
    (\<exists>frames. length frames = count \<and> [] \<notin> set frames \<and> (\<forall>x \<in> set (butlast frames). length x \<le> 1275)
       \<and> slice_of c f p = concat (map (\<lambda>x. len_code (length x)) (butlast frames)) @ concat frames)" (is "_ \<longleftrightarrow> ?R")
proof -
  let ?w = "slice_of c f p"
  have L: "valid_vbr_frames p count c (int f) = Inr True \<longleftrightarrow> (\<exists>sizes r. length sizes = count - 1
       \<and> (\<forall>s \<in> set sizes. 0 < s \<and> s \<le> 1275) \<and> ?w = concat (map len_code sizes) @ r \<and> sum_list sizes < length r)"
    by (simp add: valid_vbr_frames_def vbr_loop_window [OF assms(1)] sized_rest_sizes)
  show ?thesis
  proof
    assume "valid_vbr_frames p count c (int f) = Inr True"
    then obtain sizes r where s: "length sizes = count - 1" "\<forall>s \<in> set sizes. 0 < s \<and> s \<le> 1275"
      "?w = concat (map len_code sizes) @ r" "sum_list sizes < length r" using L by auto
    then obtain fs where fs: "map length fs = sizes @ [length r - sum_list sizes]" "concat fs = r"
      using split_by_sizes [of "sizes @ [length r - sum_list sizes]" r] by auto
    then obtain gs g where g: "fs = gs @ [g]" by (cases fs rule: rev_cases) auto
    have "map length gs = sizes" "length g = length r - sum_list sizes" using fs(1) by (auto simp: g)
    then show ?R using s fs(2) assms(2)
      by (intro exI [of _ fs]) (auto simp: g comp_def image_iff simp flip: map_map [of _ length])
  next
    assume ?R
    then obtain frames where fr: "length frames = count" "[] \<notin> set frames" "\<forall>x \<in> set (butlast frames). length x \<le> 1275"
      "?w = concat (map (\<lambda>x. len_code (length x)) (butlast frames)) @ concat frames" by auto
    then obtain gs g where g: "frames = gs @ [g]" using assms(2) by (cases frames rule: rev_cases) auto
    show "valid_vbr_frames p count c (int f) = Inr True" unfolding L
      using fr by (intro exI [of _ "map length gs"] exI [of _ "concat frames"])
         (auto simp: g comp_def length_concat)
  qed
qed

lemma cbr_frames_exact:
  assumes "f \<le> length p" "1 \<le> count" "c \<le> f"
  shows "valid_cbr_frames count c (int f) \<longleftrightarrow>
    (\<exists>frames. length frames = count \<and> [] \<notin> set frames \<and> (\<forall>x \<in> set frames. length x = length (hd frames))
       \<and> slice_of c f p = concat frames)" (is "_ \<longleftrightarrow> ?R")
proof -
  have len: "length (slice_of c f p) = f - c" using assms by simp
  have L: "valid_cbr_frames count c (int f) \<longleftrightarrow> c < f \<and> (f - c) mod count = 0"
  proof -
    have "int f - int c = int (f - c)" using assms(3) by simp
    moreover have "int (f - c) mod int count = int ((f - c) mod count)" by (simp only: of_nat_mod)
    ultimately show ?thesis by (simp only: valid_cbr_frames_def Let_def of_nat_eq_0_iff of_nat_0_less_iff zero_less_diff)
  qed
  show ?thesis
  proof
    assume "valid_cbr_frames count c (int f)"
    then have d: "(f - c) div count * count = f - c" "c < f" using L by (auto simp: mult_div_mod_eq [of count])
    then obtain fs where fs: "map length fs = replicate count ((f - c) div count)" "concat fs = slice_of c f p"
      using split_by_sizes [of "replicate count ((f - c) div count)" "slice_of c f p"] len by (auto simp: sum_list_replicate mult.commute)
    have eq: "length x = (f - c) div count" if "x \<in> set fs" for x
      using that fs(1) by (metis in_set_conv_nth length_map length_replicate nth_map nth_replicate)
    have "0 < (f - c) div count" using d by (cases "(f - c) div count") auto
    moreover have "length fs = count" using arg_cong [OF fs(1), of length] by simp
    moreover from this have "hd fs \<in> set fs" using assms(2) by (cases fs) auto
    ultimately show ?R using eq fs(2) by (intro exI [of _ fs]) force
  next
    assume ?R
    then obtain fs where fs: "length fs = count" "[] \<notin> set fs" "\<forall>x \<in> set fs. length x = length (hd fs)" "slice_of c f p = concat fs" by auto
    then have "map length fs = replicate count (length (hd fs))" by (metis map_replicate_const map_cong)
    then have "f - c = count * length (hd fs)" using len fs(4) by (simp add: length_concat sum_list_replicate)
    moreover have "0 < length (hd fs)" using fs(1,2) assms(2) by (cases fs) auto
    ultimately show "valid_cbr_frames count c (int f)" using L assms(2) by (auto simp: less_diff_conv)
  qed
qed

lemma control_bits:
  "unat (ctl :: byte) AND 64 = 0 \<longleftrightarrow> \<not> bit ctl 6" "unat ctl AND 128 = 0 \<longleftrightarrow> \<not> bit ctl 7"
  "unat ctl AND 63 = take_bit 6 (unat ctl)" "unat ctl AND 3 = unat ctl mod 4" "unat ctl AND 4 = 0 \<longleftrightarrow> \<not> bit ctl 2"
  "drop_bit 3 (unat ctl) = unat ctl div 8"
proof -
  have "unat ctl AND 2 ^ n = 0 \<longleftrightarrow> \<not> bit ctl n" for n
    by (simp add: and_exp_eq_0_iff_not_bit bit_unsigned_iff)
  from this [of 6] this [of 7] this [of 2] show "unat ctl AND 64 = 0 \<longleftrightarrow> \<not> bit ctl 6" "unat ctl AND 128 = 0 \<longleftrightarrow> \<not> bit ctl 7"
    "unat ctl AND 4 = 0 \<longleftrightarrow> \<not> bit ctl 2" by simp_all
  have "unat ctl AND mask n = take_bit n (unat ctl)" for n by (simp add: take_bit_eq_mask)
  from this [of 6] this [of 2] show "unat ctl AND 63 = take_bit 6 (unat ctl)" "unat ctl AND 3 = unat ctl mod 4"
    by (simp_all add: mask_eq_exp_minus_1 take_bit_eq_mod)
  show "drop_bit 3 (unat ctl) = unat ctl div 8" by (simp add: drop_bit_eq_div)
qed

lemma padding_loop_grows: "padding_loop p c k = Inr (c', k') \<Longrightarrow> k \<le> k'"
proof (induction p c k rule: padding_loop.induct)
  case (1 p c k)
  show ?case
  proof (cases "c < length p \<and> unat (p ! c) = PADDING_CONTINUATION")
    case True
    then have "padding_loop p (c + 1) (k + unat (p ! c)) = Inr (c', k')"
      using 1(2) by (subst (asm) padding_loop.simps) (simp add: index_byte_def)
    then show ?thesis using 1(1) [of "unat (p ! c)"] True by (simp add: index_byte_def)
  next
    case False
    then show ?thesis using 1(2) by (subst (asm) padding_loop.simps) (auto simp: index_byte_def split: if_splits)
  qed
qed

lemma padding_exact:
  assumes p: "p = toc # ctl # q" "length p \<le> 160"
  shows "opus_padding p (unat ctl) = Inr (c, k) \<and> c + k \<le> length p \<longleftrightarrow>
    (\<exists>pads w zs. q = pads @ w @ zs \<and> c = 2 + length pads \<and> k = length zs \<and> padded ctl pads zs)"
proof (cases "bit ctl 6")
  case False
  then show ?thesis by (auto simp: opus_padding_def control_bits padded_def p)
next
  case True
  have loop: "opus_padding p (unat ctl) = padding_loop p 2 0" using True by (simp add: opus_padding_def control_bits)
  show ?thesis
  proof (cases q)
    case Nil
    then have "padding_loop p 2 0 = Inr (3, 0)" by (subst padding_loop.simps) (simp add: p)
    then show ?thesis unfolding loop using True Nil by (auto simp: padded_def p)
  next
    case (Cons v q')
    have v: "p ! 2 = v" "2 < length p" using Cons by (simp_all add: p numeral_2_eq_2)
    show ?thesis
    proof (cases "unat v = 255")
      case False
      then have L: "padding_loop p 2 0 = Inr (3, unat v)"
        using v by (subst padding_loop.simps) (simp add: index_byte_def PADDING_CONTINUATION_def)
      have "(\<exists>pads w zs. q = pads @ w @ zs \<and> c = 2 + length pads \<and> k = length zs \<and> padded ctl pads zs)
          \<longleftrightarrow> c = 3 \<and> k = unat v \<and> unat v \<le> length q'" (is "?A \<longleftrightarrow> ?B")
      proof
        assume ?A
        then obtain w zs where "q' = w @ zs" "v = word_of_nat (length zs)" "length zs < 255" "c = 3" "k = length zs"
          using True Cons by (auto simp: padded_def)
        then show ?B by (simp add: byte_eq_iff)
      next
        assume B: ?B
        let ?w = "take (length q' - k) q'" and ?zs = "drop (length q' - k) q'"
        have k: "length ?zs = k" "k < 255" using B False byte_less [of v] by simp_all
        then have "padded ctl [v] ?zs" using True B by (simp add: padded_def byte_eq_iff)
        then show ?A using k B Cons by (intro exI [of _ "[v]"] exI [of _ ?w] exI [of _ ?zs]) simp
      qed
      moreover have "length p = 3 + length q'" by (simp add: p Cons)
      ultimately show ?thesis unfolding loop L by auto
    next
      case 255: True
      have "padding_loop p 2 0 = padding_loop p 3 255"
        using v 255 by (subst padding_loop.simps) (simp add: index_byte_def PADDING_CONTINUATION_def)
      then have "\<not> (opus_padding p (unat ctl) = Inr (c, k) \<and> c + k \<le> length p)"
        using padding_loop_grows [of p 3 255 c k] p(2) by (auto simp: loop)
      moreover have "\<not> padded ctl pads zs" if "q = pads @ w @ zs" for pads w zs
        using that True 255 Cons by (auto simp: padded_def byte_eq_iff)
      ultimately show ?thesis by blast
    qed
  qed
qed

subsection \<open>Packets\<close>

lemma multi_count_exact:
  assumes p: "p = toc # body" "length p \<le> 160"
  shows "multi_count p = Inr (Some n) \<longleftrightarrow> (\<exists>frames. length frames = n \<and> [] \<notin> set frames \<and> framed_multi frames body)"
proof (cases body)
  case Nil
  then show ?thesis by (auto simp: multi_count_def p TWO_FRAMES_def framed_multi_def)
next
  case (Cons ctl q)
  have pq: "p = toc # ctl # q" by (simp add: p Cons)
  have idx: "index_byte p 1 = Inr (unat ctl)" by (simp add: index_byte_def pq)
  let ?m = "take_bit 6 (unat ctl)"
  have frames: "(if bit ctl 7 then valid_vbr_frames p ?m c (int f) else Inr (valid_cbr_frames ?m c (int f))) = Inr True \<longleftrightarrow>
      (\<exists>fs lens. length fs = ?m \<and> [] \<notin> set fs \<and> sized ctl fs lens \<and> slice_of c f p = lens @ concat fs)"
    if "c \<le> f" "f \<le> length p" "1 \<le> ?m" for c f
    using vbr_frames_exact [OF that(2,3), of c] cbr_frames_exact [OF that(2,3,1)]
    by (auto simp: sized_def)
  have L: "multi_count p = Inr (Some n) \<longleftrightarrow> 1 \<le> ?m \<and> ?m \<le> 48 \<and> n = ?m \<and>
     (\<exists>c k. opus_padding p (unat ctl) = Inr (c, k) \<and> c + k \<le> length p \<and>
       (if bit ctl 7 then valid_vbr_frames p ?m c (int (length p - k)) else Inr (valid_cbr_frames ?m c (int (length p - k)))) = Inr True)"
  proof -
    obtain c0 k0 where pad: "opus_padding p (unat ctl) = Inr (c0, k0)"
      using padding_loop_safe [of p 2 0] by (cases "unat ctl AND 64 = 0") (auto simp: opus_padding_def)
    let ?ok = "if bit ctl 7 then valid_vbr_frames p ?m c0 (int (length p - k0)) else Inr (valid_cbr_frames ?m c0 (int (length p - k0)))"
    have "\<not> length p < 2" by (simp add: pq)
    moreover have "int c0 \<le> int (length p) - int k0 \<longleftrightarrow> c0 + k0 \<le> length p" by linarith
    moreover have "int (length p) - int k0 = int (length p - k0)" if "c0 + k0 \<le> length p" using that by linarith
    ultimately have "multi_count p = (if 1 \<le> ?m \<and> ?m \<le> 48 \<and> c0 + k0 \<le> length p
        then bind_result ?ok (\<lambda>valid. Inr (if valid then Some ?m else None)) else Inr None)"
      unfolding multi_count_def idx bind_result_simps Let_def control_bits pad prod.case MAX_OPUS_FRAMES_def TWO_FRAMES_def by simp
    moreover have "bind_result r (\<lambda>valid. Inr (if valid then Some ?m else None)) = Inr (Some n) \<longleftrightarrow> r = Inr True \<and> n = ?m"
      for r :: "(opus_error, bool) result" by (cases r) auto
    ultimately show ?thesis by (auto simp: pad)
  qed
  have win: "slice_of (2 + length pads) (length p - length zs) p = w" if "q = pads @ w @ zs" for pads w zs
    using that by (simp add: slice_of_def pq)
  have "multi_count p = Inr (Some n) \<longleftrightarrow> 1 \<le> ?m \<and> ?m \<le> 48 \<and> n = ?m \<and>
     (\<exists>pads w zs fs lens. q = pads @ w @ zs \<and> padded ctl pads zs \<and> length fs = ?m \<and> [] \<notin> set fs \<and> sized ctl fs lens \<and> w = lens @ concat fs)"
    (is "_ \<longleftrightarrow> 1 \<le> ?m \<and> ?m \<le> 48 \<and> n = ?m \<and> ?W")
  proof -
    have "(\<exists>c k. opus_padding p (unat ctl) = Inr (c, k) \<and> c + k \<le> length p \<and>
       (if bit ctl 7 then valid_vbr_frames p ?m c (int (length p - k)) else Inr (valid_cbr_frames ?m c (int (length p - k)))) = Inr True)
       \<longleftrightarrow> ?W" (is "?V \<longleftrightarrow> _") if m: "1 \<le> ?m"
    proof
      assume ?V
      then obtain c k where ck: "opus_padding p (unat ctl) = Inr (c, k)" "c + k \<le> length p"
        and ok: "(if bit ctl 7 then valid_vbr_frames p ?m c (int (length p - k)) else Inr (valid_cbr_frames ?m c (int (length p - k)))) = Inr True"
        by blast
      obtain pads w zs where z: "q = pads @ w @ zs" "c = 2 + length pads" "k = length zs" "padded ctl pads zs"
        using padding_exact [OF pq p(2), of c k] ck by blast
      have "c \<le> length p - k" using ck(2) by simp
      then have "\<exists>fs lens. length fs = ?m \<and> [] \<notin> set fs \<and> sized ctl fs lens \<and> w = lens @ concat fs"
        using frames [of c "length p - k"] ok m win [OF z(1)] z(2,3) by simp
      then show ?W using z(1,4) by blast
    next
      assume ?W
      then obtain pads w zs where z: "q = pads @ w @ zs" "padded ctl pads zs"
        and fs: "\<exists>fs lens. length fs = ?m \<and> [] \<notin> set fs \<and> sized ctl fs lens \<and> w = lens @ concat fs" by blast
      have "opus_padding p (unat ctl) = Inr (2 + length pads, length zs) \<and> 2 + length pads + length zs \<le> length p"
        using padding_exact [OF pq p(2)] z by blast
      moreover have "2 + length pads \<le> length p - length zs" using z(1) by (simp add: pq)
      ultimately show ?V using frames [of "2 + length pads" "length p - length zs"] fs m win [OF z(1)] by auto
    qed
    then show ?thesis unfolding L by blast
  qed
  moreover have fm: "framed_multi fs body \<longleftrightarrow> ?m = length fs \<and> 1 \<le> length fs \<and> length fs \<le> 48
      \<and> (\<exists>pads lens zs. q = pads @ (lens @ concat fs) @ zs \<and> padded ctl pads zs \<and> sized ctl fs lens)" for fs
    unfolding framed_multi_def Cons list.inject by blast
  ultimately show ?thesis
  proof (intro iffI, goal_cases)
    case 1
    then obtain pads zs fs lens where "1 \<le> ?m" "?m \<le> 48" "n = ?m" "q = pads @ (lens @ concat fs) @ zs" "padded ctl pads zs"
      "length fs = ?m" "[] \<notin> set fs" "sized ctl fs lens" by blast
    then show ?case unfolding fm by (intro exI [of _ fs]) auto
  next
    case 2
    then obtain fs pads lens zs where "length fs = n" "[] \<notin> set fs" "?m = length fs" "1 \<le> length fs" "length fs \<le> 48"
      "q = pads @ (lens @ concat fs) @ zs" "padded ctl pads zs" "sized ctl fs lens" unfolding fm by blast
    then show ?case unfolding 2(1) by (metis (no_types, lifting))
  qed
qed

lemma vbr_two_exact:
  assumes p: "p = toc # body"
  shows "vbr_two_count p = Inr (Some n) \<longleftrightarrow> n = 2 \<and>
    (\<exists>a b. a \<noteq> [] \<and> b \<noteq> [] \<and> length a \<le> 1275 \<and> body = len_code (length a) @ a @ b)" (is "_ \<longleftrightarrow> n = 2 \<and> ?R")
proof -
  have L: "vbr_two_count p = Inr (Some n) \<longleftrightarrow> n = 2 \<and>
      (\<exists>s c. opus_length p 1 (int (length p)) = Inr (Some s, c) \<and> 0 < s \<and> c + s < length p)"
  proof -
    obtain x c0 where "opus_length p 1 (int (length p)) = Inr (x, c0)" using opus_length_safe [of "int (length p)" p 1] by auto
    then show ?thesis by (cases x) (auto simp: vbr_two_count_def)
  qed
  have win: "slice_of 1 (length p) p = body" "slice_of (1 + length xs) (length p) p = drop (length xs) body" for xs
    by (simp_all add: slice_of_def p)
  have pre: "body = xs @ drop (length xs) body \<longleftrightarrow> (\<exists>r. body = xs @ r)" for xs
  proof
    assume "\<exists>r. body = xs @ r"
    then obtain r where "body = xs @ r" ..
    then show "body = xs @ drop (length xs) body" by simp
  qed blast
  have "opus_length p 1 (int (length p)) = Inr (Some s, c) \<longleftrightarrow>
      s \<le> 1275 \<and> c = 1 + length (len_code s) \<and> (\<exists>r. body = len_code s @ r)" for s c
    unfolding opus_length_window [OF order_refl] win(1) pre [symmetric] using win(2) [of "len_code s"] by auto
  then have "vbr_two_count p = Inr (Some n) \<longleftrightarrow> n = 2 \<and> (\<exists>s r. 0 < s \<and> s \<le> 1275 \<and> body = len_code s @ r \<and> s < length r)"
    unfolding L by (auto simp: p)
  also have "(\<exists>s r. 0 < s \<and> s \<le> 1275 \<and> body = len_code s @ r \<and> s < length r) \<longleftrightarrow> ?R"
  proof
    assume "\<exists>s r. 0 < s \<and> s \<le> 1275 \<and> body = len_code s @ r \<and> s < length r"
    then obtain s r where "0 < s" "s \<le> 1275" "body = len_code s @ r" "s < length r" by blast
    then show ?R by (intro exI [of _ "take s r"] exI [of _ "drop s r"]) (auto simp: min_def)
  next
    assume ?R
    then obtain a b where "a \<noteq> []" "b \<noteq> []" "length a \<le> 1275" "body = len_code (length a) @ a @ b" by blast
    then show "\<exists>s r. 0 < s \<and> s \<le> 1275 \<and> body = len_code s @ r \<and> s < length r"
      by (intro exI [of _ "length a"] exI [of _ "a @ b"]) simp
  qed
  finally show ?thesis .
qed

lemma framed_pair:
  "framed 1 [a, b] body \<longleftrightarrow> a \<noteq> [] \<and> b \<noteq> [] \<and> length a = length b \<and> body = a @ b"
  "framed 2 [a, b] body \<longleftrightarrow> a \<noteq> [] \<and> b \<noteq> [] \<and> length a \<le> 1275 \<and> body = len_code (length a) @ a @ b"
  by (auto simp: framed_def)

lemma framed_pairs:
  assumes "code \<in> {1, 2}"
  shows "(\<exists>frames. length frames = n \<and> framed code frames body) \<longleftrightarrow> n = 2 \<and> (\<exists>a b. framed code [a, b] body)"
proof -
  have "\<exists>a b. frames = [a, b]" if "framed code frames body" for frames using assms that by (auto simp: framed_def)
  then show ?thesis by (metis length_Cons list.size(3) One_nat_def Suc_1)
qed

lemma frame_count_exact:
  assumes p: "p = toc # body" "length p \<le> 160"
  shows "frame_count p code = Inr (Some n) \<longleftrightarrow> (\<exists>frames. length frames = n \<and> framed code frames body)"
proof -
  consider "code = 0" | "code = 1" | "code = 2" | (multi) "code \<notin> {0, 1, 2}" by blast
  then show ?thesis
  proof cases
    case 1
    then show ?thesis by (auto simp: frame_count_def framed_def p)
  next
    case 2
    have "(\<exists>a b. a \<noteq> [] \<and> b \<noteq> [] \<and> length a = length b \<and> body = a @ b) \<longleftrightarrow> body \<noteq> [] \<and> even (length body)" (is "?L \<longleftrightarrow> ?R")
    proof
      assume ?R
      then obtain b where "length body = 2 * b" by (auto elim!: evenE)
      moreover have "0 < length body" using \<open>?R\<close> by simp
      ultimately have "2 * (length body div 2) = length body" "0 < length body div 2" by simp_all
      then show ?L by (intro exI [of _ "take (length body div 2) body"] exI [of _ "drop (length body div 2) body"]) auto
    qed auto
    moreover have "2 < length p \<longleftrightarrow> 2 \<le> length body" by (auto simp: p)
    moreover have "body \<noteq> [] \<and> even (length body) \<longleftrightarrow> 2 \<le> length body \<and> even (length body)"
      by (cases body; cases "tl body") auto
    ultimately have "frame_count p code = Inr (Some n) \<longleftrightarrow> n = 2 \<and> (\<exists>a b. a \<noteq> [] \<and> b \<noteq> [] \<and> length a = length b \<and> body = a @ b)"
      using 2 by (auto simp: frame_count_def TWO_FRAMES_def p even_iff_mod_2_eq_zero)
    also have "\<dots> \<longleftrightarrow> (\<exists>frames. length frames = n \<and> framed code frames body)" using 2 by (simp add: framed_pairs framed_pair [unfolded One_nat_def])
    finally show ?thesis .
  next
    case 3
    then show ?thesis using vbr_two_exact [OF p(1), of n] by (simp add: frame_count_def TWO_FRAMES_def framed_pairs framed_pair)
  next
    case multi
    then show ?thesis using multi_count_exact [OF p, of n] by (auto simp: frame_count_def framed_def TWO_FRAMES_def)
  qed
qed

lemma opus_duration_table: "opus_duration config = config_samples ! config" if "config < 32"
proof -
  have "\<forall>c \<in> set [0..<32]. opus_duration c = config_samples ! c" by code_simp
  then show ?thesis using that by simp
qed

lemma is_20ms_exact:
  assumes "length p \<le> 160"
  shows "is_20ms p = Inr True \<longleftrightarrow> opus_20ms_packet p"
proof (cases p)
  case Nil
  then show ?thesis by (simp add: is_20ms_def opus_20ms_packet_def)
next
  case (Cons toc body)
  have "unat toc div 8 < 32" using byte_less [of toc] by simp
  then have d: "opus_duration (unat toc div 8) = config_samples ! (unat toc div 8)" by (rule opus_duration_table)
  have "is_20ms p = Inr True \<longleftrightarrow> (\<exists>n. frame_count p (unat toc mod 4) = Inr (Some n) \<and> n * config_samples ! (unat toc div 8) = 960)"
    by (auto simp: is_20ms_def Cons index_byte_def control_bits Let_def d bind_result_Inr_iff PACKET_SAMPLES_def split: option.splits)
  then show ?thesis using frame_count_exact [OF Cons assms] by (auto simp: opus_20ms_packet_def Cons)
qed

lemma packet_valid_exact:
  "packet_valid mono_only (length p) p = Inr True \<longleftrightarrow>
     length p \<le> 160 \<and> opus_20ms_packet p \<and> (mono_only \<longrightarrow> \<not> bit (hd p) 2)"
proof -
  obtain b where b: "is_20ms p = Inr b" using is_20ms_safe by blast
  have "p \<noteq> []" if "b" using b that by (auto simp: is_20ms_def)
  then have "bind_result (index_byte p 0) (\<lambda>toc. Inr (toc AND 4 = 0)) = Inr (\<not> bit (hd p) 2)" if "b"
    using that by (cases p) (auto simp: index_byte_def control_bits)
  then show ?thesis using is_20ms_exact [of p] b by (auto simp: packet_valid_def MAX_PACKET_SIZE_def split: if_splits)
qed

end
