(* ===== verification/Opus_Records.thy ===== *)
theory Opus_Records
  imports Opus_Duration
begin

text \<open>
  Records of audio packets (\<open>domain/opus_duration.py\<close>): the scanner of \<open>Opus_Duration\<close> against a grammar of
  payloads that does not mention it.  A record is accepted exactly when its payload is an encoding of gaps
  and RFC 6716 packets of 20 ms followed by a legal tail, and the layout that is returned is the one the
  grammar gives.
\<close>

unbundle bit_operations_syntax

section \<open>The grammar of payloads\<close>

datatype audio_item = Gap | Packet bytes

fun encode_item :: "audio_item \<Rightarrow> bytes" where
  "encode_item Gap = [0]"
| "encode_item (Packet p) = word_of_nat (length p) # p"

fun valid_item :: "bool \<Rightarrow> audio_item \<Rightarrow> bool" where
  "valid_item mono_only Gap = True"
| "valid_item mono_only (Packet p) = (length p \<le> 160 \<and> opus_20ms_packet p \<and> (mono_only \<longrightarrow> \<not> bit (hd p) 2))"

lemma valid_packet: "valid_item m (Packet p) \<longleftrightarrow> p \<noteq> [] \<and> packet_valid m (length p) p = Inr True"
  by (auto simp: packet_valid_exact opus_20ms_packet_def)

declare valid_item.simps(2) [simp del] valid_packet [simp]

definition items_bytes :: "audio_item list \<Rightarrow> bytes" where
  "items_bytes items = concat (map encode_item items)"

fun packets_of :: "audio_item list \<Rightarrow> bytes list" where
  "packets_of [] = []"
| "packets_of (Gap # items) = packets_of items"
| "packets_of (Packet p # items) = p # packets_of items"

text \<open>
  What may follow the items: nothing but the last byte of the payload, or the size byte of a packet
  that reaches the end of the payload.
\<close>

definition legal_tail :: "bytes \<Rightarrow> nat \<Rightarrow> nat option \<Rightarrow> bool" where
  "legal_tail payload t overflow =
     (case overflow of
        None \<Rightarrow> t = 439
      | Some n \<Rightarrow> t < 439 \<and> n = unat (payload ! t) \<and> 0 < n \<and> n \<le> 160 \<and> 440 \<le> t + 1 + n)"

definition payload_layout :: "bool \<Rightarrow> bytes \<Rightarrow> nat \<Rightarrow> audio_item list \<Rightarrow> nat option \<Rightarrow> bool" where
  "payload_layout mono_only payload offset items overflow =
     (list_all (valid_item mono_only) items
      \<and> offset + length (items_bytes items) \<le> 439
      \<and> slice_of offset (offset + length (items_bytes items)) payload = items_bytes items
      \<and> legal_tail payload (offset + length (items_bytes items)) overflow)"

lemma items_bytes_simps [simp]:
  "items_bytes [] = []"
  "items_bytes (i # is) = encode_item i @ items_bytes is"
  by (simp_all add: items_bytes_def)

lemma packet_valid_size: "packet_valid mono_only n p = Inr True \<Longrightarrow> n \<le> 160"
  by (auto simp: packet_valid_def MAX_PACKET_SIZE_def split: if_splits)

lemma valid_packet_size: "valid_item mono_only (Packet p) \<Longrightarrow> 0 < length p \<and> length p \<le> 160"
  by (auto dest: packet_valid_size)

lemma unat_packet_size: "n \<le> 160 \<Longrightarrow> unat (word_of_nat n :: byte) = n"
  by (simp add: unat_of_nat)


lemma slice_of_append_iff:
  assumes "off + length x + length y \<le> length pl"
  shows "slice_of off (off + (length x + length y)) pl = x @ y \<longleftrightarrow>
     slice_of off (off + length x) pl = x \<and> slice_of (off + length x) (off + length x + length y) pl = y"
proof -
  have "slice_of off (off + (length x + length y)) pl
      = slice_of off (off + length x) pl @ slice_of (off + length x) (off + length x + length y) pl"
    using slice_of_join [of off "off + length x" "off + length x + length y" pl] by (simp add: add.assoc)
  moreover have "length (slice_of off (off + length x) pl) = length x" using assms by simp
  ultimately show ?thesis by simp
qed

lemma payload_layout_Cons:
  assumes "length pl = 440"
  shows "payload_layout m pl off (i # is) ov \<longleftrightarrow>
     valid_item m i \<and> slice_of off (off + length (encode_item i)) pl = encode_item i
     \<and> payload_layout m pl (off + length (encode_item i)) is ov"
  using assms slice_of_append_iff [of off "encode_item i" "items_bytes is" pl]
  by (auto simp: payload_layout_def add.assoc)

lemma payload_layout_Nil:
  "payload_layout m pl off [] ov \<longleftrightarrow> off \<le> 439 \<and> legal_tail pl off ov"
  by (simp add: payload_layout_def slice_of_def)

lemma payload_layout_bound: "payload_layout m pl off items ov \<Longrightarrow> off \<le> 439"
  by (simp add: payload_layout_def)

text \<open>What one turn of the loop reads.\<close>

lemma scan_gap:
  assumes "length pl = 440" and "off < 439" and "pl ! off = 0"
  shows "scan_payload m pl off n ps = scan_payload m pl (off + 1) n ps"
  using assms by (subst scan_payload.simps) (simp add: index_byte_def PAYLOAD_DATA_LIMIT_def)

lemma scan_packet:
  assumes "length pl = 440" and "off < 439" and "off + 1 + unat (pl ! off) < 440" and "pl ! off \<noteq> 0"
    and "packet_valid m (unat (pl ! off)) (slice_of (off + 1) (off + 1 + unat (pl ! off)) pl) = Inr ok"
  shows "scan_payload m pl off n ps =
     (if ok then scan_payload m pl (off + 1 + unat (pl ! off)) (n + 1)
                   (ps @ [slice_of (off + 1) (off + 1 + unat (pl ! off)) pl])
      else Inl (OpusValueError ''invalid 20 ms Opus packet''))"
  using assms
  by (subst scan_payload.simps) (simp add: index_byte_def PAYLOAD_DATA_LIMIT_def unat_eq_0 Let_def)

lemma scan_tail:
  assumes "length pl = 440" and "off < 439" and "440 \<le> off + 1 + unat (pl ! off)" and "pl ! off \<noteq> 0"
  shows "scan_payload m pl off n ps =
     (if unat (pl ! off) \<le> 160 then Inr (n, Some (unat (pl ! off)), ps)
      else Inl (OpusValueError ''invalid Opus packet size''))"
  using assms
  by (subst scan_payload.simps)
    (simp add: index_byte_def PAYLOAD_DATA_LIMIT_def MAX_PACKET_SIZE_def unat_eq_0 Let_def)

lemma scan_end: "439 \<le> off \<Longrightarrow> scan_payload m pl off n ps = Inr (n, None, ps)"
  by (subst scan_payload.simps) (simp add: PAYLOAD_DATA_LIMIT_def)

lemma slice_of_head:
  "off < length pl \<Longrightarrow> slice_of off (off + Suc k) pl = pl ! off # slice_of (off + 1) (off + 1 + k) pl"
  by (simp add: slice_of_def flip: Cons_nth_drop_Suc)

lemma packet_item_read:
  assumes len: "length pl = 440" and lay: "payload_layout m pl off (Packet p # items) ov"
  shows "off < 439 \<and> unat (pl ! off) = length p \<and> off + 1 + length p \<le> 439 \<and> pl ! off \<noteq> 0
     \<and> slice_of (off + 1) (off + 1 + length p) pl = p \<and> packet_valid m (length p) p = Inr True"
proof -
  have v: "valid_item m (Packet p)" and sl: "slice_of off (off + Suc (length p)) pl = word_of_nat (length p) # p"
    and rest: "payload_layout m pl (off + Suc (length p)) items ov"
    using lay by (simp_all add: payload_layout_Cons [OF len])
  have end_le: "off + 1 + length p \<le> 439" using payload_layout_bound [OF rest] by simp
  then have "pl ! off = word_of_nat (length p)" "slice_of (off + 1) (off + 1 + length p) pl = p"
    using sl len slice_of_head [of off pl "length p"] by simp_all
  moreover have "unat (word_of_nat (length p) :: byte) = length p" "0 < length p"
    using valid_packet_size [OF v] by (simp_all add: unat_packet_size)
  ultimately show ?thesis using end_le v by (auto simp flip: unat_eq_0)
qed

lemma scan_complete:
  assumes len: "length pl = 440" and lay: "payload_layout m pl off items ov"
  shows "scan_payload m pl off n ps = Inr (n + length (packets_of items), ov, ps @ packets_of items)"
  using lay
proof (induction items arbitrary: off n ps)
  case Nil
  then show ?case
    using scan_end [of off] scan_tail [OF len, of off]
    by (cases ov) (auto simp: payload_layout_Nil legal_tail_def unat_gt_0)
next
  case (Cons i items)
  show ?case
  proof (cases i)
    case Gap
    have rest: "payload_layout m pl (off + 1) items ov" and sl: "slice_of off (off + 1) pl = [0]"
      using Cons.prems by (simp_all add: Gap payload_layout_Cons [OF len])
    have "off < 439" using payload_layout_bound [OF rest] by simp
    moreover have "pl ! off = 0" using sl len calculation slice_of_head [of off pl 0] by simp
    ultimately show ?thesis using Cons.IH [OF rest] scan_gap [OF len] by (simp add: Gap)
  next
    case (Packet p)
    note r = packet_item_read [OF len Cons.prems [unfolded Packet]]
    have rest: "payload_layout m pl (off + 1 + length p) items ov"
      using Cons.prems by (simp add: Packet payload_layout_Cons [OF len])
    show ?thesis using r Cons.IH [OF rest] scan_packet [OF len, of off m True n ps] by (simp add: Packet)
  qed
qed

lemma scan_cases [consumes 1, case_names fin gap tail packet]:
  assumes "off \<le> 439"
  obtains "off = 439" | "off < 439" "pl ! off = 0"
    | "off < 439" "pl ! off \<noteq> 0" "440 \<le> off + 1 + unat (pl ! off :: byte)"
    | "off < 439" "pl ! off \<noteq> 0" "off + 1 + unat (pl ! off) < 440"
  using assms by linarith

lemma scan_sound:
  assumes "length pl = 440" and "off \<le> 439" and "scan_payload m pl off n ps = Inr (c, ov, qs)"
  shows "\<exists>items. payload_layout m pl off items ov \<and> c = n + length (packets_of items) \<and> qs = ps @ packets_of items"
  using assms
proof (induction "439 - off" arbitrary: off n ps rule: less_induct)
  case less
  note len = less.prems(1)
  from less.prems(2) show ?case
  proof (cases rule: scan_cases [where off = off and pl = pl])
    case fin
    then show ?thesis using less.prems(3) by (intro exI [of _ "[]"]) (auto simp: scan_end payload_layout_Nil legal_tail_def)
  next
    case gap
    then obtain items where "payload_layout m pl (off + 1) items ov" "c = n + length (packets_of items)" "qs = ps @ packets_of items"
      using less.hyps [of "off + 1" n ps] less.prems scan_gap [OF len gap] by force
    then show ?thesis
      using gap len slice_of_head [of off pl 0]
      by (intro exI [of _ "Gap # items"]) (simp add: payload_layout_Cons slice_of_def)
  next
    case tail
    then show ?thesis
      using less.prems(3) scan_tail [OF len tail(1,3,2)]
      by (intro exI [of _ "[]"]) (auto simp: payload_layout_Nil legal_tail_def unat_gt_0 split: if_splits)
  next
    case packet
    let ?z = "unat (pl ! off)" let ?p = "slice_of (off + 1) (off + 1 + ?z) pl"
    obtain ok where ok: "packet_valid m ?z ?p = Inr ok" using packet_valid_safe by blast
    have "ok" and more: "scan_payload m pl (off + 1 + ?z) (n + 1) (ps @ [?p]) = Inr (c, ov, qs)"
      using less.prems(3) scan_packet [OF len packet(1,3,2) ok] by (simp_all split: if_splits)
    then obtain items where "payload_layout m pl (off + 1 + ?z) items ov" "c = n + 1 + length (packets_of items)" "qs = (ps @ [?p]) @ packets_of items"
      using less.hyps [OF _ len _ more] packet by fastforce
    moreover have "length ?p = ?z" "0 < ?z" using len packet by (simp_all add: unat_gt_0)
    moreover from this have "?p \<noteq> []" by (metis length_0_conv less_numeral_extra(3))
    ultimately show ?thesis
      using ok \<open>ok\<close> packet len slice_of_head [of off pl ?z]
      by (intro exI [of _ "Packet ?p # items"]) (auto simp: payload_layout_Cons unat_gt_0)
  qed
qed

lemma scan_errors:
  assumes "length pl = 440" and "off \<le> 439" and "scan_payload m pl off n ps = Inl e"
  shows "e \<noteq> OpusIndexError"
  using assms
proof (induction "439 - off" arbitrary: off n ps rule: less_induct)
  case less
  note len = less.prems(1)
  from less.prems(2) show ?case
  proof (cases rule: scan_cases [where off = off and pl = pl])
    case gap
    then show ?thesis using less.hyps [of "off + 1"] less.prems scan_gap [OF len gap] by auto
  next
    case packet
    obtain ok where ok: "packet_valid m (unat (pl ! off)) (slice_of (off + 1) (off + 1 + unat (pl ! off)) pl) = Inr ok"
      using packet_valid_safe by blast
    show ?thesis
      using less.hyps [of "off + 1 + unat (pl ! off)"] less.prems packet scan_packet [OF len packet(1,3,2) ok]
      by (auto split: if_splits)
  qed (use less.prems(3) scan_end scan_tail [OF len] in \<open>auto split: if_splits\<close>)
qed

section \<open>Properties\<close>

text \<open>
  C19: the scanner recognises exactly the payload grammar.  For a record of 444 bytes,
  \<open>_inspect_record\<close> returns a layout if and only if the payload is an encoding of zero bytes and RFC 6716
  packets (of at most 160 bytes, whose nonempty frames last 20 ms, mono where that is asked for) followed by a
  legal tail, and then the layout has the packets of that encoding in order, their
  number, the first size byte and the overflow size.  Every other record of this size is refused with
  \<open>ValueError\<close>; no index is ever out of range.
\<close>

theorem inspect_record_exact:
  assumes "length rec = 444"
  shows "(inspect_record mono_only rec = Inr layout \<longleftrightarrow>
      (\<exists>items. payload_layout mono_only (drop 4 rec) 0 items (overflow_size layout)
         \<and> audio_packets layout = packets_of items \<and> packet_count layout = length (packets_of items)
         \<and> first_size layout = unat (rec ! 4)))
    \<and> inspect_record mono_only rec \<noteq> Inl OpusIndexError"
proof (intro conjI iffI)
  have len: "length (drop 4 rec) = 440" using assms by simp
  show "inspect_record mono_only rec \<noteq> Inl OpusIndexError"
    using scan_errors [OF len, of 0 mono_only 0 "[]"] len by (auto simp: inspect_record_def result_iffs Let_def)
  {
    assume "inspect_record mono_only rec = Inr layout"
    then obtain c ov ps where "scan_payload mono_only (drop 4 rec) 0 0 [] = Inr (c, ov, ps)"
      and "layout = \<lparr>packet_count = c, first_size = unat (rec ! 4), overflow_size = ov, audio_packets = ps\<rparr>"
      using assms by (auto simp: inspect_record_def result_iffs Let_def)
    then show "\<exists>items. payload_layout mono_only (drop 4 rec) 0 items (overflow_size layout)
         \<and> audio_packets layout = packets_of items \<and> packet_count layout = length (packets_of items)
         \<and> first_size layout = unat (rec ! 4)"
      using scan_sound [OF len] by fastforce
  next
    assume "\<exists>items. payload_layout mono_only (drop 4 rec) 0 items (overflow_size layout)
         \<and> audio_packets layout = packets_of items \<and> packet_count layout = length (packets_of items)
         \<and> first_size layout = unat (rec ! 4)"
    then obtain items where "payload_layout mono_only (drop 4 rec) 0 items (overflow_size layout)"
      and "layout = \<lparr>packet_count = length (packets_of items), first_size = unat (rec ! 4),
             overflow_size = overflow_size layout, audio_packets = packets_of items\<rparr>"
      by auto
    then show "inspect_record mono_only rec = Inr layout"
      using scan_complete [OF len] len by (simp add: inspect_record_def index_byte_def)
  }
qed

text \<open>A record with one mono packet of 20 ms and padding.\<close>

definition sample_record :: bytes where
  "sample_record = [0, 0, 0, 0, 3, 184, 1, 2] @ replicate 436 0"

lemma sample_record_layout:
  "payload_layout True (drop 4 sample_record) 0 (Packet [184, 1, 2] # replicate 435 Gap) None"
proof -
  have gaps: "items_bytes (replicate n Gap) = replicate n 0" for n by (induction n) simp_all
  have ok: "packet_valid True (Suc (Suc (Suc 0))) [184, 1, 2] = Inr True" by code_simp
  show ?thesis
    using ok by (simp add: payload_layout_def gaps legal_tail_def slice_of_def list_all_iff sample_record_def)
qed

theorem inspect_record_exact_witness:
  "length sample_record = 444
   \<and> inspect_record True sample_record
     = Inr \<lparr>packet_count = 1, first_size = 3, overflow_size = None, audio_packets = [[184, 1, 2]]\<rparr>"
proof -
  let ?items = "Packet [184, 1, 2] # replicate 435 Gap"
  have len: "length sample_record = 444" by (simp add: sample_record_def)
  have none: "packets_of (replicate n Gap) = []" for n by (induction n) simp_all
  have "unat (sample_record ! 4) = 3" by (simp add: sample_record_def)
  then show ?thesis
    using inspect_record_exact [OF len, of True] sample_record_layout none len by fastforce
qed

lemma valid_item_mono: "valid_item True i \<Longrightarrow> valid_item False i"
  by (cases i) (auto simp: packet_valid_def result_iffs split: if_splits)

lemma is_20ms_min: "is_20ms p = Inr True \<Longrightarrow> 2 \<le> length p"
  by (rule ccontr, cases "p = [] \<or> length p = 1")
    (auto simp: not_le less_2_cases_iff length_Suc_conv is_20ms_def
      index_byte_def frame_count_def vbr_two_count_def multi_count_def opus_length_def
      TWO_FRAMES_def Let_def split: if_splits)

lemma valid_packets:
  "list_all (valid_item m) items \<Longrightarrow> p \<in> set (packets_of items) \<Longrightarrow> 2 \<le> length p \<and> length p \<le> 160"
proof (induction items rule: packets_of.induct)
  case (3 q items)
  have "is_20ms q = Inr True" using 3(2) by (auto simp: packet_valid_def result_iffs split: if_splits)
  then show ?case using 3 is_20ms_min valid_packet_size [of m q] by auto
qed simp_all

lemma packets_fit: "sum_list (map (\<lambda>p. length p + 1) (packets_of items)) \<le> length (items_bytes items)"
  by (induction items rule: packets_of.induct) simp_all

lemma three_per_packet: "\<forall>p \<in> set ps. 2 \<le> length p \<Longrightarrow> 3 * length ps \<le> sum_list (map (\<lambda>p. length p + 1) ps)"
  by (induction ps) auto

text \<open>
  Restricting to mono never changes a layout, and a layout is bounded.  A record accepted by the
  mono check is accepted by the general check with the same layout; each packet has between 2 and 160
  bytes, the packets with their size bytes fit the 439 data bytes, and so a record never holds more than
  146 packets of 20 ms.
\<close>

theorem mono_record_layout_bounds:
  assumes "length rec = 444" and "inspect_mono_20ms_record rec = Inr layout"
  shows "inspect_20ms_record rec = Inr layout
    \<and> count_20ms_packets rec = Inr (length (audio_packets layout))
    \<and> (\<forall>p \<in> set (audio_packets layout). 2 \<le> length p \<and> length p \<le> 160)
    \<and> sum_list (map (\<lambda>p. length p + 1) (audio_packets layout)) \<le> 439
    \<and> packet_count layout \<le> 146"
proof -
  have len: "length (drop 4 rec) = 440" using assms(1) by simp
  obtain c ov ps where scan: "scan_payload True (drop 4 rec) 0 0 [] = Inr (c, ov, ps)"
    and layout: "layout = \<lparr>packet_count = c, first_size = unat (rec ! 4), overflow_size = ov, audio_packets = ps\<rparr>"
    using assms by (auto simp: inspect_mono_20ms_record_def inspect_record_def result_iffs Let_def)
  obtain items where lay: "payload_layout True (drop 4 rec) 0 items ov"
    and c: "c = length (packets_of items)" and ps: "ps = packets_of items"
    using scan_sound [OF len _ scan] by auto
  have lay': "payload_layout False (drop 4 rec) 0 items ov"
    using lay valid_item_mono by (auto simp: payload_layout_def list_all_iff)
  have gen: "inspect_20ms_record rec = Inr layout"
    using scan_complete [OF len lay'] assms(1)
    by (simp add: inspect_20ms_record_def inspect_record_def index_byte_def layout c ps)
  have sizes: "\<forall>p \<in> set ps. 2 \<le> length p \<and> length p \<le> 160"
    using lay valid_packets by (auto simp: payload_layout_def ps)
  have fit: "sum_list (map (\<lambda>p. length p + 1) ps) \<le> 439"
    using packets_fit [of items] lay by (simp add: payload_layout_def ps)
  show ?thesis
    using gen sizes fit three_per_packet [of ps]
    by (auto simp: count_20ms_packets_def layout c ps)
qed

theorem mono_record_layout_bounds_witness:
  "inspect_20ms_record sample_record
     = Inr \<lparr>packet_count = 1, first_size = 3, overflow_size = None, audio_packets = [[184, 1, 2]]\<rparr>"
proof -
  have len: "length sample_record = 444" "length (drop 4 sample_record) = 440" by (simp_all add: sample_record_def)
  have none: "packets_of (replicate n Gap) = []" for n by (induction n) simp_all
  have "inspect_mono_20ms_record sample_record
     = Inr \<lparr>packet_count = 1, first_size = 3, overflow_size = None, audio_packets = [[184, 1, 2]]\<rparr>"
    using scan_complete [OF len(2) sample_record_layout] len none
    by (simp add: inspect_mono_20ms_record_def inspect_record_def index_byte_def) (simp add: sample_record_def)
  then show ?thesis using mono_record_layout_bounds [OF len(1)] by blast
qed

end
