(* ===== verification/Batch_Machine.thy ===== *)
theory Batch_Machine
  imports Prelude
begin

text \<open>
  \<open>capture/application/batch_machine.py\<close>: the lifecycle of one bounded transfer.  Two reducers live
  here.  The read machine orders the notifications of one READ, its failures and the durability
  barrier; its table is a partial map from phase and event, as the source's dictionary is.  The batch machine classifies the receipts of a live batch into a
  milestone (\<open>derive_milestone\<close>) and decides what a milestone allows next.  The facts that matter to
  the collector: a read completes only after its data, its DONE and a successful barrier, and ADVANCE
  is issued only for a sealed batch whose whole prefix is durable, on fresh INFO with the cursor
  still at the batch.
\<close>

section \<open>Data\<close>

datatype milestone =
    Milestone_RETIRED | Milestone_ADMITTED | Milestone_PREFIX_DURABLE | Milestone_FULL_DURABLE |
    Milestone_SEALED

datatype batch_event =
    Event_SEAL_REQUEST | Event_SEAL | Event_FRESH_INFO | Event_ADVANCE_ACK_INFO |
    Event_ADVANCE_UNCERTAIN | Event_WRITER_CLOSED

datatype cursor_action =
    CursorAction_REPEAT | CursorAction_CONFIRMED | CursorAction_AHEAD | CursorAction_REGRESSED |
    CursorAction_EXPIRED

datatype command =
    Command_NONE | Command_ADVANCE | Command_CLOSE | Command_RETIRE | Command_KEEP | Command_REJECT

datatype read_phase =
    ReadPhase_AWAIT_BEGIN | ReadPhase_RECEIVING | ReadPhase_DONE | ReadPhase_STOPPING |
    ReadPhase_EXITED

datatype read_event =
    ReadEvent_ACK | ReadEvent_BEGIN | ReadEvent_DATA | ReadEvent_DONE | ReadEvent_WRITER_FAILED |
    ReadEvent_READ_FAILED | ReadEvent_CANCELLED | ReadEvent_STOP_SETTLED | ReadEvent_BARRIER_OK |
    ReadEvent_BARRIER_FAILED

datatype read_action =
    ReadAction_CONSUME | ReadAction_BARRIER | ReadAction_STOP | ReadAction_LATCH_FAILURE |
    ReadAction_LATCH_CANCELLATION | ReadAction_PROPAGATE | ReadAction_COMPLETE | ReadAction_REJECT |
    ReadAction_IGNORE

datatype read_decision_data =
  ReadDecision (decision_phase: read_phase) (decision_action: read_action) (decision_reason: string)

datatype batch_error =
    UnknownReadTransition
  | RetiredBatchRetainsReceipts
  | ImpossibleDurablePrefix
  | SealedBeforeDurable
  | UnknownCursorClassification
  | CursorClassificationRequired
  | InvalidBatchTransition milestone batch_event

section \<open>The read machine\<close>

definition read_decision :: "read_phase \<Rightarrow> read_action \<Rightarrow> string \<Rightarrow> read_decision_data" where
  "read_decision next_phase action reason = ReadDecision next_phase action reason"

fun read_transition_table :: "read_phase \<Rightarrow> read_event \<Rightarrow> read_decision_data option" where
  "read_transition_table ReadPhase_AWAIT_BEGIN ReadEvent_ACK =
     Some (read_decision ReadPhase_AWAIT_BEGIN ReadAction_CONSUME ''acknowledged before read begin'')"
| "read_transition_table ReadPhase_AWAIT_BEGIN ReadEvent_BEGIN =
     Some (read_decision ReadPhase_RECEIVING ReadAction_CONSUME ''read began'')"
| "read_transition_table ReadPhase_AWAIT_BEGIN ReadEvent_DATA =
     Some (read_decision ReadPhase_AWAIT_BEGIN ReadAction_REJECT ''data arrived before read begin'')"
| "read_transition_table ReadPhase_AWAIT_BEGIN ReadEvent_DONE =
     Some (read_decision ReadPhase_AWAIT_BEGIN ReadAction_REJECT ''done arrived before read begin'')"
| "read_transition_table ReadPhase_AWAIT_BEGIN ReadEvent_WRITER_FAILED =
     Some (read_decision ReadPhase_STOPPING ReadAction_STOP ''writer failed before read began'')"
| "read_transition_table ReadPhase_AWAIT_BEGIN ReadEvent_READ_FAILED =
     Some (read_decision ReadPhase_STOPPING ReadAction_STOP ''read failed before read began'')"
| "read_transition_table ReadPhase_AWAIT_BEGIN ReadEvent_CANCELLED =
     Some (read_decision ReadPhase_STOPPING ReadAction_STOP ''read cancelled before read began'')"
| "read_transition_table ReadPhase_AWAIT_BEGIN ReadEvent_STOP_SETTLED =
     Some (read_decision ReadPhase_AWAIT_BEGIN ReadAction_REJECT ''stop settled before stopping'')"
| "read_transition_table ReadPhase_AWAIT_BEGIN ReadEvent_BARRIER_OK =
     Some (read_decision ReadPhase_AWAIT_BEGIN ReadAction_REJECT ''barrier completed before read'')"
| "read_transition_table ReadPhase_AWAIT_BEGIN ReadEvent_BARRIER_FAILED =
     Some (read_decision ReadPhase_AWAIT_BEGIN ReadAction_REJECT ''barrier failed before read'')"
| "read_transition_table ReadPhase_RECEIVING ReadEvent_ACK =
     Some (read_decision ReadPhase_RECEIVING ReadAction_CONSUME ''acknowledged while receiving'')"
| "read_transition_table ReadPhase_RECEIVING ReadEvent_BEGIN =
     Some (read_decision ReadPhase_RECEIVING ReadAction_REJECT ''duplicate read begin'')"
| "read_transition_table ReadPhase_RECEIVING ReadEvent_DATA =
     Some (read_decision ReadPhase_RECEIVING ReadAction_CONSUME ''data received'')"
| "read_transition_table ReadPhase_RECEIVING ReadEvent_DONE =
     Some (read_decision ReadPhase_DONE ReadAction_BARRIER ''read completed; await barrier'')"
| "read_transition_table ReadPhase_RECEIVING ReadEvent_WRITER_FAILED =
     Some (read_decision ReadPhase_STOPPING ReadAction_STOP ''writer failed while receiving'')"
| "read_transition_table ReadPhase_RECEIVING ReadEvent_READ_FAILED =
     Some (read_decision ReadPhase_STOPPING ReadAction_STOP ''read failed while receiving'')"
| "read_transition_table ReadPhase_RECEIVING ReadEvent_CANCELLED =
     Some (read_decision ReadPhase_STOPPING ReadAction_STOP ''read cancelled while receiving'')"
| "read_transition_table ReadPhase_RECEIVING ReadEvent_STOP_SETTLED =
     Some (read_decision ReadPhase_RECEIVING ReadAction_REJECT ''stop settled before stopping'')"
| "read_transition_table ReadPhase_RECEIVING ReadEvent_BARRIER_OK =
     Some (read_decision ReadPhase_RECEIVING ReadAction_REJECT ''barrier completed while receiving'')"
| "read_transition_table ReadPhase_RECEIVING ReadEvent_BARRIER_FAILED =
     Some (read_decision ReadPhase_RECEIVING ReadAction_REJECT ''barrier failed while receiving'')"
| "read_transition_table ReadPhase_DONE ReadEvent_ACK =
     Some (read_decision ReadPhase_DONE ReadAction_REJECT ''late acknowledgement after read completion'')"
| "read_transition_table ReadPhase_DONE ReadEvent_BEGIN =
     Some (read_decision ReadPhase_DONE ReadAction_REJECT ''read begin repeated after completion'')"
| "read_transition_table ReadPhase_DONE ReadEvent_DATA =
     Some (read_decision ReadPhase_DONE ReadAction_REJECT ''data arrived after read completion'')"
| "read_transition_table ReadPhase_DONE ReadEvent_DONE =
     Some (read_decision ReadPhase_DONE ReadAction_REJECT ''duplicate read completion'')"
| "read_transition_table ReadPhase_DONE ReadEvent_WRITER_FAILED =
     Some (read_decision ReadPhase_EXITED ReadAction_PROPAGATE ''writer failed after read completion'')"
| "read_transition_table ReadPhase_DONE ReadEvent_READ_FAILED =
     Some (read_decision ReadPhase_DONE ReadAction_REJECT ''late read failure after completion'')"
| "read_transition_table ReadPhase_DONE ReadEvent_CANCELLED =
     Some (read_decision ReadPhase_EXITED ReadAction_PROPAGATE ''read cancelled after completion'')"
| "read_transition_table ReadPhase_DONE ReadEvent_STOP_SETTLED =
     Some (read_decision ReadPhase_DONE ReadAction_REJECT ''stop settled before barrier'')"
| "read_transition_table ReadPhase_DONE ReadEvent_BARRIER_OK =
     Some (read_decision ReadPhase_EXITED ReadAction_COMPLETE ''barrier completed'')"
| "read_transition_table ReadPhase_DONE ReadEvent_BARRIER_FAILED =
     Some (read_decision ReadPhase_EXITED ReadAction_PROPAGATE ''barrier failed'')"
| "read_transition_table ReadPhase_STOPPING ReadEvent_ACK =
     Some (read_decision ReadPhase_STOPPING ReadAction_IGNORE ''late acknowledgement while stopping'')"
| "read_transition_table ReadPhase_STOPPING ReadEvent_BEGIN =
     Some (read_decision ReadPhase_STOPPING ReadAction_IGNORE ''late read begin while stopping'')"
| "read_transition_table ReadPhase_STOPPING ReadEvent_DATA =
     Some (read_decision ReadPhase_STOPPING ReadAction_IGNORE ''late data while stopping'')"
| "read_transition_table ReadPhase_STOPPING ReadEvent_DONE =
     Some (read_decision ReadPhase_STOPPING ReadAction_IGNORE ''late read completion while stopping'')"
| "read_transition_table ReadPhase_STOPPING ReadEvent_WRITER_FAILED =
     Some (read_decision ReadPhase_STOPPING ReadAction_LATCH_FAILURE ''writer failure already latched'')"
| "read_transition_table ReadPhase_STOPPING ReadEvent_READ_FAILED =
     Some (read_decision ReadPhase_STOPPING ReadAction_IGNORE ''read failure already latched'')"
| "read_transition_table ReadPhase_STOPPING ReadEvent_CANCELLED =
     Some (read_decision ReadPhase_STOPPING ReadAction_LATCH_CANCELLATION ''retain cancellation while stop settles'')"
| "read_transition_table ReadPhase_STOPPING ReadEvent_STOP_SETTLED =
     Some (read_decision ReadPhase_EXITED ReadAction_PROPAGATE ''stop settled after failure'')"
| "read_transition_table ReadPhase_STOPPING ReadEvent_BARRIER_OK =
     Some (read_decision ReadPhase_STOPPING ReadAction_REJECT ''barrier completion while stopping'')"
| "read_transition_table ReadPhase_STOPPING ReadEvent_BARRIER_FAILED =
     Some (read_decision ReadPhase_STOPPING ReadAction_REJECT ''barrier failure while stopping'')"
| "read_transition_table ReadPhase_EXITED ReadEvent_ACK =
     Some (read_decision ReadPhase_EXITED ReadAction_REJECT ''acknowledgement after read exit'')"
| "read_transition_table ReadPhase_EXITED ReadEvent_BEGIN =
     Some (read_decision ReadPhase_EXITED ReadAction_REJECT ''read begin after read exit'')"
| "read_transition_table ReadPhase_EXITED ReadEvent_DATA =
     Some (read_decision ReadPhase_EXITED ReadAction_REJECT ''data after read exit'')"
| "read_transition_table ReadPhase_EXITED ReadEvent_DONE =
     Some (read_decision ReadPhase_EXITED ReadAction_REJECT ''read completion after read exit'')"
| "read_transition_table ReadPhase_EXITED ReadEvent_WRITER_FAILED =
     Some (read_decision ReadPhase_EXITED ReadAction_IGNORE ''writer failure after read exit'')"
| "read_transition_table ReadPhase_EXITED ReadEvent_READ_FAILED =
     Some (read_decision ReadPhase_EXITED ReadAction_IGNORE ''read failure after read exit'')"
| "read_transition_table ReadPhase_EXITED ReadEvent_CANCELLED =
     Some (read_decision ReadPhase_EXITED ReadAction_IGNORE ''cancellation after read exit'')"
| "read_transition_table ReadPhase_EXITED ReadEvent_STOP_SETTLED =
     Some (read_decision ReadPhase_EXITED ReadAction_IGNORE ''stop settlement after read exit'')"
| "read_transition_table ReadPhase_EXITED ReadEvent_BARRIER_OK =
     Some (read_decision ReadPhase_EXITED ReadAction_IGNORE ''barrier completion after read exit'')"
| "read_transition_table ReadPhase_EXITED ReadEvent_BARRIER_FAILED =
     Some (read_decision ReadPhase_EXITED ReadAction_IGNORE ''barrier failure after read exit'')"

definition read_transition :: "read_phase \<Rightarrow> read_event \<Rightarrow> (batch_error, read_decision_data) result" where
  "read_transition phase event =
     (case read_transition_table phase event of
        None \<Rightarrow> Inl UnknownReadTransition
      | Some d \<Rightarrow> Inr d)"

definition read_event_priority :: "read_event list" where
  "read_event_priority =
     [ReadEvent_WRITER_FAILED, ReadEvent_CANCELLED, ReadEvent_READ_FAILED, ReadEvent_DATA, ReadEvent_DONE,
      ReadEvent_ACK, ReadEvent_BEGIN, ReadEvent_STOP_SETTLED, ReadEvent_BARRIER_FAILED, ReadEvent_BARRIER_OK]"

definition decide_read_event :: "read_event list \<Rightarrow> bool \<Rightarrow> read_event option" where
  "decide_read_event pending writer_failed =
     (if writer_failed then Some ReadEvent_WRITER_FAILED
      else List.find (\<lambda>e. e \<in> set pending) read_event_priority)"

section \<open>The batch machine\<close>

datatype transition = Transition (transition_milestone: milestone) (transition_command: command)

definition batch_transitions :: "((milestone \<times> batch_event) \<times> transition) list" where
  "batch_transitions = [
     ((Milestone_FULL_DURABLE, Event_SEAL_REQUEST), Transition Milestone_FULL_DURABLE Command_NONE),
     ((Milestone_FULL_DURABLE, Event_SEAL), Transition Milestone_SEALED Command_NONE),
     ((Milestone_SEALED, Event_ADVANCE_UNCERTAIN), Transition Milestone_SEALED Command_KEEP),
     ((Milestone_SEALED, Event_WRITER_CLOSED), Transition Milestone_RETIRED Command_RETIRE)]"

definition cursor_commands :: "batch_event \<Rightarrow> cursor_action \<Rightarrow> command option" where
  "cursor_commands event action =
     (if event = Event_FRESH_INFO then
        Some (if action = CursorAction_REPEAT then Command_ADVANCE
              else if action \<in> {CursorAction_REGRESSED, CursorAction_EXPIRED} then Command_REJECT
              else Command_CLOSE)
      else if event = Event_ADVANCE_ACK_INFO then
        Some (if action = CursorAction_REPEAT then Command_KEEP
              else if action \<in> {CursorAction_REGRESSED, CursorAction_EXPIRED} then Command_REJECT
              else Command_CLOSE)
      else None)"

definition derive_milestone ::
  "int option \<Rightarrow> int option \<Rightarrow> int option \<Rightarrow> bool \<Rightarrow> (batch_error, milestone) result" where
  "derive_milestone start stop durable_next sealed =
     (case (start, stop) of
        (Some s, Some e) \<Rightarrow>
          (case durable_next of
             None \<Rightarrow> Inl ImpossibleDurablePrefix
           | Some d \<Rightarrow>
               if e < s \<or> \<not> (s \<le> d \<and> d \<le> e) then Inl ImpossibleDurablePrefix
               else if sealed then
                 (if d \<noteq> e then Inl SealedBeforeDurable else Inr Milestone_SEALED)
               else if d = e then Inr Milestone_FULL_DURABLE
               else if s < d then Inr Milestone_PREFIX_DURABLE
               else Inr Milestone_ADMITTED)
      | _ \<Rightarrow>
          if start \<noteq> None \<or> stop \<noteq> None \<or> durable_next \<noteq> None \<or> sealed
          then Inl RetiredBatchRetainsReceipts
          else Inr Milestone_RETIRED)"

definition batch_transition ::
  "milestone \<Rightarrow> batch_event \<Rightarrow> cursor_action option \<Rightarrow> (batch_error, transition) result" where
  "batch_transition m event cursor =
     (let cursor_event = event \<in> {Event_FRESH_INFO, Event_ADVANCE_ACK_INFO}
      in if cursor \<noteq> None \<and> \<not> cursor_event then Inl UnknownCursorClassification
         else if cursor_event then
           (case cursor of
              None \<Rightarrow> Inl CursorClassificationRequired
            | Some action \<Rightarrow>
                (case cursor_commands event action of
                   None \<Rightarrow> Inl (InvalidBatchTransition m event)
                 | Some c \<Rightarrow>
                     if m \<noteq> Milestone_SEALED then Inl (InvalidBatchTransition m event)
                     else Inr (Transition m c)))
         else
           (case map_of batch_transitions (m, event) of
              None \<Rightarrow> Inl (InvalidBatchTransition m event)
            | Some r \<Rightarrow> Inr r))"

section \<open>Read histories\<close>

definition read_step :: "read_phase \<Rightarrow> read_event \<Rightarrow> (batch_error, read_phase \<times> read_action) result" where
  "read_step phase event =
     bind_result (read_transition phase event) (\<lambda>d. Inr (decision_phase d, decision_action d))"

lemma read_transition_total: "\<exists>d. read_transition p e = Inr d"
  by (cases p; cases e) (simp_all add: read_transition_def)

lemmas read_step_defs = read_step_def read_transition_def read_decision_def

text \<open>What an accepted read event tells about the phase it was accepted in.\<close>

definition read_licence :: "read_phase \<Rightarrow> read_event \<Rightarrow> read_action \<Rightarrow> bool" where
  "read_licence phase event action \<longleftrightarrow>
     (action = ReadAction_COMPLETE \<longleftrightarrow> phase = ReadPhase_DONE \<and> event = ReadEvent_BARRIER_OK) \<and>
     (action = ReadAction_BARRIER \<longleftrightarrow> phase = ReadPhase_RECEIVING \<and> event = ReadEvent_DONE) \<and>
     (action = ReadAction_STOP \<longrightarrow> phase \<in> {ReadPhase_AWAIT_BEGIN, ReadPhase_RECEIVING}) \<and>
     (action = ReadAction_CONSUME \<and> event = ReadEvent_DATA \<longrightarrow> phase = ReadPhase_RECEIVING)"

interpretation read_machine: guarded_machine read_step "\<lambda>_. True" read_licence
proof unfold_locales
  fix s e t c
  show "read_step s e = Inr (t, c) \<Longrightarrow> read_licence s e c"
    by (cases s; cases e) (auto simp: read_step_defs read_licence_def)
qed simp

interpretation read_exit: absorbing_machine read_step "\<lambda>p. p = ReadPhase_EXITED"
proof unfold_locales
  fix s e t c
  show "s = ReadPhase_EXITED \<Longrightarrow> read_step s e = Inr (t, c) \<Longrightarrow> t = ReadPhase_EXITED"
    by (cases e) (auto simp: read_step_defs)
qed

text \<open>What a phase of a read tells about the events before it.\<close>

definition began :: "read_event list \<Rightarrow> bool" where
  "began es \<longleftrightarrow> ReadEvent_BEGIN \<in> set es"

definition finished :: "read_event list \<Rightarrow> read_action list \<Rightarrow> bool" where
  "finished es cs \<longleftrightarrow>
     (\<exists>j k. j < k \<and> k < length es \<and> es ! j = ReadEvent_BEGIN \<and> es ! k = ReadEvent_DONE \<and>
        cs ! k = ReadAction_BARRIER)"

definition read_history :: "read_phase \<Rightarrow> read_event list \<Rightarrow> read_action list \<Rightarrow> bool" where
  "read_history p es cs \<longleftrightarrow>
     (p = ReadPhase_RECEIVING \<longrightarrow> began es) \<and>
     (p = ReadPhase_DONE \<longrightarrow> finished es cs) \<and>
     (p \<in> {ReadPhase_AWAIT_BEGIN, ReadPhase_RECEIVING, ReadPhase_DONE} \<longrightarrow>
        ReadEvent_WRITER_FAILED \<notin> set es \<and> ReadEvent_CANCELLED \<notin> set es)"

lemma began_snoc [simp]: "began (es @ [e]) \<longleftrightarrow> began es \<or> e = ReadEvent_BEGIN"
  by (auto simp: began_def)

lemma finished_keep: "finished es cs \<Longrightarrow> length cs = length es \<Longrightarrow> finished (es @ [e]) (cs @ [c])"
proof -
  assume "finished es cs" and len: "length cs = length es"
  then obtain j k where "j < k" "k < length es" "es ! j = ReadEvent_BEGIN" "es ! k = ReadEvent_DONE"
      "cs ! k = ReadAction_BARRIER"
    by (auto simp: finished_def)
  then show ?thesis
    using len unfolding finished_def by (intro exI [of _ j] exI [of _ k]) (simp add: nth_append)
qed

lemma finished_new:
  "began es \<Longrightarrow> length cs = length es \<Longrightarrow> finished (es @ [ReadEvent_DONE]) (cs @ [ReadAction_BARRIER])"
proof -
  assume "began es" and len: "length cs = length es"
  then obtain j where "j < length es" and "es ! j = ReadEvent_BEGIN"
    by (auto simp: began_def in_set_conv_nth)
  then show ?thesis
    using len unfolding finished_def
    by (intro exI [of _ j] exI [of _ "length es"]) (simp add: nth_append)
qed

lemma read_history_snoc:
  assumes "read_history q es cs" and "length cs = length es" and "read_step q e = Inr (p, c)"
  shows "read_history p (es @ [e]) (cs @ [c])"
proof -
  have keep: "finished es cs \<Longrightarrow> finished (es @ [e]) (cs @ [c])"
    using assms(2) by (rule finished_keep [rotated])
  have new: "began es \<Longrightarrow> e = ReadEvent_DONE \<Longrightarrow> c = ReadAction_BARRIER \<Longrightarrow> finished (es @ [e]) (cs @ [c])"
    using assms(2) by (simp add: finished_new)
  show ?thesis
    using assms(1,3) keep new
    by (cases q; cases e) (simp_all add: read_step_defs read_history_def)
qed

lemma run_read_history:
  "run read_step ReadPhase_AWAIT_BEGIN es = Inr (p, cs) \<Longrightarrow> read_history p es cs"
proof (induction es arbitrary: p cs rule: rev_induct)
  case Nil
  then show ?case by (simp add: read_history_def)
next
  case (snoc e es)
  then obtain q ds c where r: "run read_step ReadPhase_AWAIT_BEGIN es = Inr (q, ds)"
    and "read_step q e = Inr (p, c)" and "cs = ds @ [c]"
    by (auto simp: run_snoc_Inr)
  with snoc.IH [OF r] run_length [OF r] show ?case
    by (simp add: read_history_snoc)
qed

text \<open>
  A READ completes only behind its durability barrier.  In every history of the read machine, if
  COMPLETE is decided at some event, that event is the successful barrier, the device's READ_BEGIN
  and, after it, its DONE (which requested the barrier) came before, and neither a writer failure nor
  a cancellation was observed in between.
\<close>

theorem read_completes_behind_barrier:
  assumes "run read_step ReadPhase_AWAIT_BEGIN es = Inr (p, acts)"
    and "i < length acts" and "acts ! i = ReadAction_COMPLETE"
  shows "es ! i = ReadEvent_BARRIER_OK
    \<and> (\<exists>j k. j < k \<and> k < i \<and> es ! j = ReadEvent_BEGIN \<and> es ! k = ReadEvent_DONE \<and> acts ! k = ReadAction_BARRIER)
    \<and> (\<forall>m < i. es ! m \<noteq> ReadEvent_WRITER_FAILED \<and> es ! m \<noteq> ReadEvent_CANCELLED)"
proof -
  have len: "length acts = length es" using assms(1) by (rule run_length)
  obtain u where u: "run read_step ReadPhase_AWAIT_BEGIN (take i es) = Inr (u, take i acts)"
    and lic: "read_licence u (es ! i) (acts ! i)"
    using read_machine.run_licensed [OF _ assms(1,2)] by auto
  then have fin: "u = ReadPhase_DONE" and ok: "es ! i = ReadEvent_BARRIER_OK"
    using assms(3) by (auto simp: read_licence_def)
  have h: "read_history ReadPhase_DONE (take i es) (take i acts)"
    using run_read_history [OF u] fin by simp
  then have clean: "ReadEvent_WRITER_FAILED \<notin> set (take i es)" "ReadEvent_CANCELLED \<notin> set (take i es)"
    by (simp_all add: read_history_def)
  from h obtain j k where "j < k" "k < i" "es ! j = ReadEvent_BEGIN" "es ! k = ReadEvent_DONE"
      "acts ! k = ReadAction_BARRIER"
    by (auto simp: read_history_def finished_def)
  moreover have "\<forall>m < i. es ! m \<noteq> ReadEvent_WRITER_FAILED \<and> es ! m \<noteq> ReadEvent_CANCELLED"
    using clean assms(2) len by (auto simp: in_set_conv_nth)
  ultimately show ?thesis using ok by blast
qed

theorem read_completes_behind_barrier_witness:
  "run read_step ReadPhase_AWAIT_BEGIN
      [ReadEvent_BEGIN, ReadEvent_DATA, ReadEvent_DONE, ReadEvent_BARRIER_OK] =
     Inr (ReadPhase_EXITED, [ReadAction_CONSUME, ReadAction_CONSUME, ReadAction_BARRIER, ReadAction_COMPLETE])
   \<and> [ReadEvent_BEGIN, ReadEvent_DATA, ReadEvent_DONE, ReadEvent_BARRIER_OK] ! 3 = ReadEvent_BARRIER_OK"
proof -
  have r: "run read_step ReadPhase_AWAIT_BEGIN
      [ReadEvent_BEGIN, ReadEvent_DATA, ReadEvent_DONE, ReadEvent_BARRIER_OK] =
     Inr (ReadPhase_EXITED, [ReadAction_CONSUME, ReadAction_CONSUME, ReadAction_BARRIER, ReadAction_COMPLETE])"
    by (simp add: read_step_defs)
  show ?thesis
    using read_completes_behind_barrier [OF r, of 3] r by simp
qed

section \<open>Event priority\<close>

lemma find_first_in:
  "List.find P xs = Some x \<longleftrightarrow> (\<exists>i < length xs. xs ! i = x \<and> P x \<and> (\<forall>j < i. \<not> P (xs ! j)))"
  by (auto simp: find_Some_iff)

lemma read_event_priority_all: "e \<in> set read_event_priority"
  by (cases e) (simp_all add: read_event_priority_def)

lemma decide_read_event_none:
  "decide_read_event pending failed = None \<longleftrightarrow> \<not> failed \<and> pending = []"
proof -
  have "List.find (\<lambda>e. e \<in> set pending) read_event_priority = None \<longleftrightarrow> pending = []"
    using read_event_priority_all by (cases pending) (auto simp: find_None_iff)
  then show ?thesis by (simp add: decide_read_event_def)
qed

lemma decide_read_event_failure_wins:
  "failed \<or> ReadEvent_WRITER_FAILED \<in> set pending \<Longrightarrow> decide_read_event pending failed = Some ReadEvent_WRITER_FAILED"
  by (auto simp: decide_read_event_def read_event_priority_def)

section \<open>Milestones and ADVANCE\<close>

lemma derive_milestone_sealed:
  "derive_milestone s e d sealed = Inr Milestone_SEALED \<Longrightarrow> sealed \<and> d = e \<and> e \<noteq> None \<and> s \<noteq> None"
  by (auto simp: derive_milestone_def split: option.splits if_splits)

lemma derive_milestone_accepts:
  "derive_milestone (Some s) (Some e) (Some d) sealed = Inr m \<longleftrightarrow>
     s \<le> d \<and> d \<le> e \<and> (sealed \<longrightarrow> d = e) \<and>
     m = (if sealed then Milestone_SEALED else if d = e then Milestone_FULL_DURABLE
          else if s < d then Milestone_PREFIX_DURABLE else Milestone_ADMITTED)"
  by (auto simp: derive_milestone_def)

lemma batch_advance_licence:
  "batch_transition m ev c = Inr (Transition m' Command_ADVANCE) \<Longrightarrow>
     m = Milestone_SEALED \<and> m' = Milestone_SEALED \<and> ev = Event_FRESH_INFO \<and> c = Some CursorAction_REPEAT"
  by (cases m; cases ev)
    (auto simp: batch_transition_def batch_transitions_def cursor_commands_def Let_def
      split: option.splits if_splits)

text \<open>
  C14: host ADVANCE is durable advance.  When the receipts of a batch classify to a milestone and that
  milestone answers an event with ADVANCE, then the batch is sealed, its durable prefix reaches
  exactly the end of the batch, the event is a fresh INFO and the device cursor was classified as
  still standing at the batch; no other event and no other cursor classification yields ADVANCE.
\<close>

theorem advance_only_after_durable_seal:
  assumes "derive_milestone start stop durable_next sealed = Inr m"
    and "batch_transition m event cursor = Inr (Transition m' Command_ADVANCE)"
  shows "sealed \<and> stop \<noteq> None \<and> durable_next = stop \<and> event = Event_FRESH_INFO \<and> cursor = Some CursorAction_REPEAT"
  using batch_advance_licence [OF assms(2)] derive_milestone_sealed [of start stop durable_next sealed] assms(1)
  by auto

theorem advance_only_after_durable_seal_witness:
  "derive_milestone (Some 4) (Some 9) (Some 9) True = Inr Milestone_SEALED
   \<and> batch_transition Milestone_SEALED Event_FRESH_INFO (Some CursorAction_REPEAT)
       = Inr (Transition Milestone_SEALED Command_ADVANCE)
   \<and> Some (9::int) = Some 9"
proof -
  have d: "derive_milestone (Some 4) (Some 9) (Some 9) True = Inr Milestone_SEALED"
    by (simp add: derive_milestone_def)
  have t: "batch_transition Milestone_SEALED Event_FRESH_INFO (Some CursorAction_REPEAT)
       = Inr (Transition Milestone_SEALED Command_ADVANCE)"
    by (simp add: batch_transition_def cursor_commands_def)
  show ?thesis using advance_only_after_durable_seal [OF d t] d t by simp
qed

text \<open>The batch machine without its cursor argument, as a step over cursor-tagged events.\<close>

definition batch_step ::
  "milestone \<Rightarrow> batch_event \<times> cursor_action option \<Rightarrow> (batch_error, milestone \<times> command) result" where
  "batch_step m ec =
     bind_result (batch_transition m (fst ec) (snd ec)) (\<lambda>t. Inr (transition_milestone t, transition_command t))"

fun milestone_rank :: "milestone \<Rightarrow> nat" where
  "milestone_rank Milestone_ADMITTED = 0"
| "milestone_rank Milestone_PREFIX_DURABLE = 1"
| "milestone_rank Milestone_FULL_DURABLE = 2"
| "milestone_rank Milestone_SEALED = 3"
| "milestone_rank Milestone_RETIRED = 4"

interpretation batch_machine: monotone_machine batch_step "\<lambda>_. True" "\<lambda>a b. milestone_rank a \<le> milestone_rank b"
proof unfold_locales
  fix s :: milestone and e :: "batch_event \<times> cursor_action option" and t c
  assume "batch_step s e = Inr (t, c)"
  then show "milestone_rank s \<le> milestone_rank t"
    by (cases e; cases s; cases "fst e")
      (auto simp: batch_step_def result_iffs batch_transition_def batch_transitions_def Let_def
        split: option.splits if_splits)
qed simp_all

end
