(* ===== verification/Session_Machine.thy ===== *)
theory Session_Machine
  imports Prelude
begin

text \<open>
  The effect order of one connected session (\<open>application/session_machine.py\<close>).

  A state names the one effect the shell may run next.  The Python literals of outcomes and results are
  datatypes; each has one further constructor for a string outside the literal, because the code checks
  for it at run time.  The constructor of \<open>SessionState\<close> validates its fields and raises \<open>ValueError\<close>,
  so it is a fallible operation here.  The handler table is a function with one equation per cell.
\<close>

section \<open>Data\<close>

datatype session_outcome =
    OutDrained | OutCollected | OutRetry | OutCandidateUnavailable | OutConnectedInterrupted
  | OutUnsupported string

datatype preflight_result = PreflightDisabled | PreflightCompleted | PreflightDegraded | PreflightUnsupported string
datatype read_result = ReadPending | ReadDrained | ReadCollected | ReadUnsupported string

datatype session_command =
    CmdConnect | CmdInfo | CmdPreflight | CmdRead | CmdTeardown | CmdCheckpoint
  | CmdFinished | CmdReturned | CmdFailed | CmdCancelled

datatype after_teardown_kind = AfterCheckpoint | AfterFailed | AfterCancelled

record session_state =
  session_cmd :: session_command
  after_teardown :: "after_teardown_kind option"
  session_out :: "session_outcome option"
  teardown_interrupted :: bool

datatype session_event =
    Connected
  | InfoResolved
  | PreflightResolved preflight_result
  | ReadResolved read_result
  | EffectFailed "session_outcome option"
  | CancellationObserved
  | TeardownResolved bool
  | CheckpointResolved
  | OutcomeReturned session_outcome

datatype session_error = SessionTransitionError string | SessionValueError string

section \<open>Construction of a state\<close>

fun supported_outcome :: "session_outcome \<Rightarrow> bool" where
  "supported_outcome (OutUnsupported s) = False"
| "supported_outcome _ = True"

definition validate_state_tags :: "session_state \<Rightarrow> (session_error, unit) result" where
  "validate_state_tags s =
     (case session_out s of
        None \<Rightarrow> Inr ()
      | Some o' \<Rightarrow> require (supported_outcome o') (SessionValueError ''unsupported session outcome''))"

definition validate_state_shape :: "session_state \<Rightarrow> (session_error, unit) result" where
  "validate_state_shape s =
     bind_result
       (if session_cmd s = CmdTeardown then
          (if after_teardown s = None then Inl (SessionValueError ''teardown state requires a continuation'')
           else require ((after_teardown s = Some AfterCheckpoint) = (session_out s \<noteq> None))
             (SessionValueError ''only checkpoint continuation carries an expected outcome''))
        else require (after_teardown s = None) (SessionValueError ''only teardown state may carry a continuation''))
       (\<lambda>_.
     bind_result
       (require ((session_cmd s \<in> {CmdCheckpoint, CmdFinished, CmdReturned}
                  \<or> session_cmd s = CmdTeardown \<and> after_teardown s = Some AfterCheckpoint)
                 = (session_out s \<noteq> None))
         (SessionValueError ''state has invalid outcome metadata''))
       (\<lambda>_.
     require (\<not> (teardown_interrupted s
                  \<and> (session_cmd s \<notin> {CmdCheckpoint, CmdFinished, CmdReturned}
                     \<or> session_out s \<noteq> Some OutConnectedInterrupted)))
       (SessionValueError ''only interrupted outcomes may record interrupted teardown'')))"

definition new_session_state ::
  "session_command \<Rightarrow> after_teardown_kind option \<Rightarrow> session_outcome option \<Rightarrow> bool \<Rightarrow> (session_error, session_state) result" where
  "new_session_state cmd aft out interrupted =
     (let s = \<lparr>session_cmd = cmd, after_teardown = aft, session_out = out, teardown_interrupted = interrupted\<rparr> in
      bind_result (validate_state_tags s) (\<lambda>_.
      bind_result (validate_state_shape s) (\<lambda>_. Inr s)))"

definition session_initial_state :: "(session_error, session_state) result" where
  "session_initial_state = new_session_state CmdConnect None None False"

definition require_command :: "session_state \<Rightarrow> session_command \<Rightarrow> (session_error, unit) result" where
  "require_command s cmd =
     require (session_cmd s = cmd) (SessionTransitionError ''cannot run effect while another is pending'')"

section \<open>Handlers\<close>

definition failed_before_teardown :: "session_outcome option \<Rightarrow> bool \<Rightarrow> (session_error, session_state) result" where
  "failed_before_teardown retry_outcome has_session =
     (case retry_outcome of
        None \<Rightarrow>
          (if has_session then new_session_state CmdTeardown (Some AfterFailed) None False
           else new_session_state CmdFailed None None False)
      | Some r \<Rightarrow>
          if r \<notin> {OutRetry, OutCandidateUnavailable, OutConnectedInterrupted}
             \<or> \<not> has_session \<and> r = OutConnectedInterrupted
          then Inl (SessionTransitionError ''unsupported retry outcome'')
          else if has_session then new_session_state CmdTeardown (Some AfterCheckpoint) (Some r) False
          else new_session_state CmdCheckpoint None (Some r) False)"

type_synonym session_handler = "session_state \<Rightarrow> session_event \<Rightarrow> (session_error, session_state) result"

definition handle_connect :: session_handler where
  "handle_connect s e =
     (case e of
        Connected \<Rightarrow> new_session_state CmdInfo None None False
      | EffectFailed r \<Rightarrow> failed_before_teardown r False
      | _ \<Rightarrow> new_session_state CmdCancelled None None False)"

definition handle_info :: session_handler where
  "handle_info s e =
     (case e of
        InfoResolved \<Rightarrow> new_session_state CmdPreflight None None False
      | EffectFailed r \<Rightarrow> failed_before_teardown r True
      | _ \<Rightarrow> new_session_state CmdTeardown (Some AfterCancelled) None False)"

definition handle_preflight :: session_handler where
  "handle_preflight s e =
     (case e of
        PreflightResolved p \<Rightarrow>
          (if p \<notin> {PreflightDisabled, PreflightCompleted, PreflightDegraded}
           then Inl (SessionTransitionError ''unsupported preflight result'')
           else new_session_state CmdRead None None False)
      | EffectFailed r \<Rightarrow> failed_before_teardown r True
      | _ \<Rightarrow> new_session_state CmdTeardown (Some AfterCancelled) None False)"

definition handle_read :: session_handler where
  "handle_read s e =
     (case e of
        ReadResolved r \<Rightarrow>
          (case r of
             ReadPending \<Rightarrow> new_session_state CmdRead None None False
           | ReadDrained \<Rightarrow> new_session_state CmdTeardown (Some AfterCheckpoint) (Some OutDrained) False
           | ReadCollected \<Rightarrow> new_session_state CmdTeardown (Some AfterCheckpoint) (Some OutCollected) False
           | ReadUnsupported _ \<Rightarrow> Inl (SessionTransitionError ''unsupported read result''))
      | EffectFailed r \<Rightarrow> failed_before_teardown r True
      | _ \<Rightarrow> new_session_state CmdTeardown (Some AfterCancelled) None False)"

definition handle_teardown :: session_handler where
  "handle_teardown s e =
     (case e of
        TeardownResolved interrupted \<Rightarrow>
          (if after_teardown s = Some AfterCheckpoint then
             (case session_out s of
                None \<Rightarrow> Inl (SessionTransitionError ''checkpoint continuation has no expected outcome'')
              | Some x \<Rightarrow>
                  new_session_state CmdCheckpoint None
                    (Some (if interrupted then OutConnectedInterrupted else x)) interrupted)
           else if after_teardown s = Some AfterCancelled then new_session_state CmdCancelled None None False
           else new_session_state CmdFailed None None False)
      | EffectFailed r \<Rightarrow>
          (if r \<noteq> None then Inl (SessionTransitionError ''teardown failure cannot carry a retry outcome'')
           else new_session_state CmdFailed None None False)
      | _ \<Rightarrow> new_session_state CmdCancelled None None False)"

definition handle_checkpoint :: session_handler where
  "handle_checkpoint s e =
     (case e of
        CheckpointResolved \<Rightarrow> new_session_state CmdFinished None (session_out s) (teardown_interrupted s)
      | EffectFailed r \<Rightarrow>
          (if r \<noteq> None then Inl (SessionTransitionError ''checkpoint failure cannot carry a retry outcome'')
           else new_session_state CmdFailed None None False)
      | _ \<Rightarrow> new_session_state CmdCancelled None None False)"

definition handle_finished :: session_handler where
  "handle_finished s e =
     (case e of
        OutcomeReturned x \<Rightarrow>
          (if Some x \<noteq> session_out s
           then Inl (SessionTransitionError ''returned outcome does not match completed session'')
           else if teardown_interrupted s \<and> x \<noteq> OutConnectedInterrupted
           then Inl (SessionTransitionError ''interrupted teardown requires interrupted outcome'')
           else new_session_state CmdReturned None (Some x) (teardown_interrupted s))
      | _ \<Rightarrow> Inl (SessionTransitionError ''returned outcome does not match completed session''))"

text \<open>Python's \<open>type(event)\<close>, the second half of the key of the handler table.\<close>

datatype session_event_type =
    ConnectedType
  | InfoResolvedType
  | PreflightResolvedType
  | ReadResolvedType
  | EffectFailedType
  | CancellationObservedType
  | TeardownResolvedType
  | CheckpointResolvedType
  | OutcomeReturnedType

fun session_event_type_of :: "session_event \<Rightarrow> session_event_type" where
  "session_event_type_of Connected = ConnectedType"
| "session_event_type_of InfoResolved = InfoResolvedType"
| "session_event_type_of (PreflightResolved _) = PreflightResolvedType"
| "session_event_type_of (ReadResolved _) = ReadResolvedType"
| "session_event_type_of (EffectFailed _) = EffectFailedType"
| "session_event_type_of CancellationObserved = CancellationObservedType"
| "session_event_type_of (TeardownResolved _) = TeardownResolvedType"
| "session_event_type_of CheckpointResolved = CheckpointResolvedType"
| "session_event_type_of (OutcomeReturned _) = OutcomeReturnedType"

definition session_handlers :: "((session_command \<times> session_event_type) \<times> session_handler) list" where
  "session_handlers =
     [((CmdConnect, ConnectedType), handle_connect),
      ((CmdConnect, EffectFailedType), handle_connect),
      ((CmdConnect, CancellationObservedType), handle_connect),
      ((CmdInfo, InfoResolvedType), handle_info),
      ((CmdInfo, EffectFailedType), handle_info),
      ((CmdInfo, CancellationObservedType), handle_info),
      ((CmdPreflight, PreflightResolvedType), handle_preflight),
      ((CmdPreflight, EffectFailedType), handle_preflight),
      ((CmdPreflight, CancellationObservedType), handle_preflight),
      ((CmdRead, ReadResolvedType), handle_read),
      ((CmdRead, EffectFailedType), handle_read),
      ((CmdRead, CancellationObservedType), handle_read),
      ((CmdTeardown, TeardownResolvedType), handle_teardown),
      ((CmdTeardown, EffectFailedType), handle_teardown),
      ((CmdTeardown, CancellationObservedType), handle_teardown),
      ((CmdCheckpoint, CheckpointResolvedType), handle_checkpoint),
      ((CmdCheckpoint, EffectFailedType), handle_checkpoint),
      ((CmdCheckpoint, CancellationObservedType), handle_checkpoint),
      ((CmdFinished, OutcomeReturnedType), handle_finished)]"

definition session_transition :: session_handler where
  "session_transition s e =
     (case map_of session_handlers (session_cmd s, session_event_type_of e) of
        None \<Rightarrow> Inl (SessionTransitionError ''event is invalid'')
      | Some handler \<Rightarrow> handler s e)"

text \<open>The step the shell sees: the command of the new state is the next effect to run.\<close>

definition session_step :: "session_state \<Rightarrow> session_event \<Rightarrow> (session_error, session_state \<times> session_command) result" where
  "session_step s e = bind_result (session_transition s e) (\<lambda>t. Inr (t, session_cmd t))"

lemmas session_handler_defs =
  handle_connect_def handle_info_def handle_preflight_def handle_read_def handle_teardown_def
  handle_checkpoint_def handle_finished_def failed_before_teardown_def

section \<open>Well-formed states\<close>

definition session_wf :: "session_state \<Rightarrow> bool" where
  "session_wf s \<longleftrightarrow> validate_state_tags s = Inr () \<and> validate_state_shape s = Inr ()"

lemma new_session_state_Inr:
  "new_session_state cmd aft out i = Inr s \<longleftrightarrow>
     s = \<lparr>session_cmd = cmd, after_teardown = aft, session_out = out, teardown_interrupted = i\<rparr> \<and> session_wf s"
  by (auto simp: new_session_state_def session_wf_def result_iffs Let_def)

lemma new_session_state_Inl:
  "new_session_state cmd aft out i = Inl e \<longleftrightarrow>
     \<not> session_wf \<lparr>session_cmd = cmd, after_teardown = aft, session_out = out, teardown_interrupted = i\<rparr>
     \<and> new_session_state cmd aft out i = Inl e"
  by (auto simp: new_session_state_def session_wf_def result_iffs Let_def)

lemmas session_wf_unfold = session_wf_def validate_state_tags_def validate_state_shape_def

lemma session_handlers_wf:
  assumes "handler \<in> {handle_connect, handle_info, handle_preflight, handle_read, handle_teardown, handle_checkpoint, handle_finished}"
    and "handler s e = Inr t"
  shows "session_wf t"
  using assms
  by (auto simp: session_handler_defs new_session_state_Inr
      split: if_splits option.splits read_result.splits session_event.splits)

lemma session_transition_wf:
  assumes "session_transition s e = Inr t"
  shows "session_wf t"
proof -
  obtain handler where h: "map_of session_handlers (session_cmd s, session_event_type_of e) = Some handler" "handler s e = Inr t"
    using assms by (auto simp: session_transition_def split: option.splits)
  then have "handler \<in> snd ` set session_handlers" by (force dest: map_of_SomeD)
  with h(2) show ?thesis by (intro session_handlers_wf [of handler]) (auto simp: session_handlers_def)
qed

text \<open>
  The moves of each command.  Every fallible construction in a handler succeeds, so the moves mention
  the new state only.
\<close>

abbreviation sess_at :: "session_command \<Rightarrow> after_teardown_kind option \<Rightarrow> session_outcome option \<Rightarrow> bool \<Rightarrow> session_state" where
  "sess_at cmd aft out i \<equiv> \<lparr>session_cmd = cmd, after_teardown = aft, session_out = out, teardown_interrupted = i\<rparr>"

abbreviation "sess_plain cmd \<equiv> sess_at cmd None None False"

definition retry_outcomes :: "session_outcome set" where
  "retry_outcomes = {OutRetry, OutCandidateUnavailable, OutConnectedInterrupted}"

lemma new_plain:
  "cmd \<notin> {CmdTeardown, CmdCheckpoint, CmdFinished, CmdReturned} \<Longrightarrow> new_session_state cmd None None False = Inr (sess_plain cmd)"
  by (simp add: new_session_state_def validate_state_tags_def validate_state_shape_def)

lemma new_teardown:
  "new_session_state CmdTeardown (Some AfterFailed) None False = Inr (sess_at CmdTeardown (Some AfterFailed) None False)"
  "new_session_state CmdTeardown (Some AfterCancelled) None False = Inr (sess_at CmdTeardown (Some AfterCancelled) None False)"
  "supported_outcome x \<Longrightarrow>
     new_session_state CmdTeardown (Some AfterCheckpoint) (Some x) False = Inr (sess_at CmdTeardown (Some AfterCheckpoint) (Some x) False)"
  by (simp_all add: new_session_state_def validate_state_tags_def validate_state_shape_def)

lemma new_post:
  "cmd \<in> {CmdCheckpoint, CmdFinished, CmdReturned} \<Longrightarrow> supported_outcome x \<Longrightarrow> (i \<longrightarrow> x = OutConnectedInterrupted) \<Longrightarrow>
     new_session_state cmd None (Some x) i = Inr (sess_at cmd None (Some x) i)"
  by (auto simp: new_session_state_def validate_state_tags_def validate_state_shape_def)

lemmas session_construct = new_plain new_teardown new_post

lemma failed_before_teardown_simps:
  "failed_before_teardown None True = Inr (sess_at CmdTeardown (Some AfterFailed) None False)"
  "failed_before_teardown None False = Inr (sess_plain CmdFailed)"
  "failed_before_teardown (Some r) True = Inr t \<longleftrightarrow> r \<in> retry_outcomes \<and> t = sess_at CmdTeardown (Some AfterCheckpoint) (Some r) False"
  "failed_before_teardown (Some r) False = Inr t \<longleftrightarrow>
     r \<in> {OutRetry, OutCandidateUnavailable} \<and> t = sess_at CmdCheckpoint None (Some r) False"
  by (cases r; auto simp: failed_before_teardown_def session_construct retry_outcomes_def)+

lemma move_connect:
  "session_transition (sess_plain CmdConnect) e = Inr t \<longleftrightarrow>
     e = Connected \<and> t = sess_plain CmdInfo
   \<or> e = EffectFailed None \<and> t = sess_plain CmdFailed
   \<or> (\<exists>r \<in> {OutRetry, OutCandidateUnavailable}. e = EffectFailed (Some r) \<and> t = sess_at CmdCheckpoint None (Some r) False)
   \<or> e = CancellationObserved \<and> t = sess_plain CmdCancelled"
  by (cases e; cases "\<exists>r. e = EffectFailed (Some r)")
    (auto simp: session_transition_def session_handlers_def handle_connect_def session_construct failed_before_teardown_simps not_Some_eq)

lemma move_open:
  assumes "cmd \<in> {CmdInfo, CmdPreflight, CmdRead}"
  shows "session_transition (sess_plain cmd) e = Inr t \<longleftrightarrow>
     cmd = CmdInfo \<and> e = InfoResolved \<and> t = sess_plain CmdPreflight
   \<or> cmd = CmdPreflight \<and> (\<exists>p \<in> {PreflightDisabled, PreflightCompleted, PreflightDegraded}. e = PreflightResolved p) \<and> t = sess_plain CmdRead
   \<or> cmd = CmdRead \<and> e = ReadResolved ReadPending \<and> t = sess_plain CmdRead
   \<or> cmd = CmdRead \<and> e = ReadResolved ReadDrained \<and> t = sess_at CmdTeardown (Some AfterCheckpoint) (Some OutDrained) False
   \<or> cmd = CmdRead \<and> e = ReadResolved ReadCollected \<and> t = sess_at CmdTeardown (Some AfterCheckpoint) (Some OutCollected) False
   \<or> (\<exists>r \<in> retry_outcomes. e = EffectFailed (Some r) \<and> t = sess_at CmdTeardown (Some AfterCheckpoint) (Some r) False)
   \<or> e = EffectFailed None \<and> t = sess_at CmdTeardown (Some AfterFailed) None False
   \<or> e = CancellationObserved \<and> t = sess_at CmdTeardown (Some AfterCancelled) None False"
  using assms
  by (cases e; cases "\<exists>r. e = EffectFailed (Some r)")
    (auto simp: session_transition_def session_handlers_def handle_info_def handle_preflight_def handle_read_def session_construct
      failed_before_teardown_simps not_Some_eq split: read_result.splits if_splits)

text \<open>The shapes of the states from the teardown on.\<close>

lemma wf_teardown:
  assumes "session_wf s" and "session_cmd s = CmdTeardown"
  obtains x where "s = sess_at CmdTeardown (Some AfterCheckpoint) (Some x) False" "supported_outcome x"
  | "s = sess_at CmdTeardown (Some AfterFailed) None False"
  | "s = sess_at CmdTeardown (Some AfterCancelled) None False"
proof -
  obtain aft where "after_teardown s = Some aft" using assms by (auto simp: session_wf_unfold split: if_splits)
  with assms that show thesis
    by (cases s, cases aft) (auto simp: session_wf_unfold split: option.splits)
qed

lemma wf_post:
  assumes "session_wf s" and "session_cmd s \<in> {CmdCheckpoint, CmdFinished, CmdReturned}"
  obtains x i where "s = sess_at (session_cmd s) None (Some x) i" "supported_outcome x" "i \<longrightarrow> x = OutConnectedInterrupted"
  using assms that by (cases s) (auto simp: session_wf_unfold split: option.splits if_splits)

lemma move_teardown:
  "supported_outcome x \<Longrightarrow>
   session_transition (sess_at CmdTeardown (Some AfterCheckpoint) (Some x) False) e = Inr t \<longleftrightarrow>
     (\<exists>i. e = TeardownResolved i \<and> t = sess_at CmdCheckpoint None (Some (if i then OutConnectedInterrupted else x)) i)
   \<or> e = EffectFailed None \<and> t = sess_plain CmdFailed
   \<or> e = CancellationObserved \<and> t = sess_plain CmdCancelled"
  "session_transition (sess_at CmdTeardown (Some AfterFailed) None False) e = Inr t \<longleftrightarrow>
     (\<exists>i. e = TeardownResolved i \<and> t = sess_plain CmdFailed)
   \<or> e = EffectFailed None \<and> t = sess_plain CmdFailed
   \<or> e = CancellationObserved \<and> t = sess_plain CmdCancelled"
  "session_transition (sess_at CmdTeardown (Some AfterCancelled) None False) e = Inr t \<longleftrightarrow>
     (\<exists>i. e = TeardownResolved i \<and> t = sess_plain CmdCancelled)
   \<or> e = EffectFailed None \<and> t = sess_plain CmdFailed
   \<or> e = CancellationObserved \<and> t = sess_plain CmdCancelled"
  by (cases e; auto simp: session_transition_def session_handlers_def handle_teardown_def session_construct)+

lemma move_checkpoint:
  "supported_outcome x \<Longrightarrow> (i \<longrightarrow> x = OutConnectedInterrupted) \<Longrightarrow>
   session_transition (sess_at CmdCheckpoint None (Some x) i) e = Inr t \<longleftrightarrow>
     e = CheckpointResolved \<and> t = sess_at CmdFinished None (Some x) i
   \<or> e = EffectFailed None \<and> t = sess_plain CmdFailed
   \<or> e = CancellationObserved \<and> t = sess_plain CmdCancelled"
  by (cases e) (auto simp: session_transition_def session_handlers_def handle_checkpoint_def session_construct)

lemma move_finished:
  "supported_outcome x \<Longrightarrow> (i \<longrightarrow> x = OutConnectedInterrupted) \<Longrightarrow>
   session_transition (sess_at CmdFinished None (Some x) i) e = Inr t \<longleftrightarrow>
     e = OutcomeReturned x \<and> t = sess_at CmdReturned None (Some x) i"
  by (cases e) (auto simp: session_transition_def session_handlers_def handle_finished_def session_construct)

definition session_terminal :: "session_state \<Rightarrow> bool" where
  "session_terminal s \<longleftrightarrow> session_cmd s \<in> {CmdReturned, CmdFailed, CmdCancelled}"

lemma no_move_terminal: "session_terminal s \<Longrightarrow> session_transition s e \<noteq> Inr t"
  by (cases e) (auto simp: session_transition_def session_handlers_def session_terminal_def)


section \<open>Histories of a session\<close>

definition open_trace :: "session_event list \<Rightarrow> session_command \<Rightarrow> bool" where
  "open_trace es cmd \<longleftrightarrow>
     cmd = CmdInfo \<and> es = [Connected]
   \<or> cmd = CmdPreflight \<and> es = [Connected, InfoResolved]
   \<or> cmd = CmdRead \<and> (\<exists>p \<in> {PreflightDisabled, PreflightCompleted, PreflightDegraded}. \<exists>n.
       es = [Connected, InfoResolved, PreflightResolved p] @ replicate n (ReadResolved ReadPending))"

definition ended_by :: "session_command \<Rightarrow> session_event \<Rightarrow> session_outcome \<Rightarrow> bool" where
  "ended_by cmd e x \<longleftrightarrow>
     cmd = CmdRead \<and> e = ReadResolved ReadDrained \<and> x = OutDrained
   \<or> cmd = CmdRead \<and> e = ReadResolved ReadCollected \<and> x = OutCollected
   \<or> x \<in> retry_outcomes \<and> e = EffectFailed (Some x)"

text \<open>The histories after which the visit may be checkpointed with outcome \<open>x\<close>.\<close>

definition checkpoint_trace :: "session_event list \<Rightarrow> session_outcome \<Rightarrow> bool \<Rightarrow> bool" where
  "checkpoint_trace es x i \<longleftrightarrow>
     es = [EffectFailed (Some x)] \<and> x \<in> {OutRetry, OutCandidateUnavailable} \<and> \<not> i
   \<or> (\<exists>body cmd e y. open_trace body cmd \<and> ended_by cmd e y
        \<and> es = body @ [e, TeardownResolved i] \<and> x = (if i then OutConnectedInterrupted else y))"

definition session_trace :: "session_event list \<Rightarrow> session_state \<Rightarrow> bool" where
  "session_trace es s \<longleftrightarrow> session_wf s \<and>
     (case session_cmd s of
        CmdConnect \<Rightarrow> es = [] \<and> s = sess_plain CmdConnect
      | CmdInfo \<Rightarrow> s = sess_plain CmdInfo \<and> open_trace es CmdInfo
      | CmdPreflight \<Rightarrow> s = sess_plain CmdPreflight \<and> open_trace es CmdPreflight
      | CmdRead \<Rightarrow> s = sess_plain CmdRead \<and> open_trace es CmdRead
      | CmdTeardown \<Rightarrow> (\<exists>body cmd e. open_trace body cmd \<and> es = body @ [e]
                          \<and> (\<forall>x. session_out s = Some x \<longrightarrow> ended_by cmd e x))
      | CmdCheckpoint \<Rightarrow> (\<exists>x. session_out s = Some x \<and> checkpoint_trace es x (teardown_interrupted s))
      | CmdFinished \<Rightarrow> (\<exists>pre x. session_out s = Some x \<and> checkpoint_trace pre x (teardown_interrupted s)
                          \<and> es = pre @ [CheckpointResolved])
      | CmdReturned \<Rightarrow> (\<exists>pre x. session_out s = Some x \<and> checkpoint_trace pre x (teardown_interrupted s)
                          \<and> es = pre @ [CheckpointResolved, OutcomeReturned x])
      | _ \<Rightarrow> True)"

lemma open_trace_cmd: "open_trace es cmd \<Longrightarrow> cmd \<in> {CmdInfo, CmdPreflight, CmdRead}"
  by (auto simp: open_trace_def)

lemma open_trace_step:
  "open_trace [Connected] CmdInfo"
  "open_trace es CmdInfo \<Longrightarrow> open_trace (es @ [InfoResolved]) CmdPreflight"
  "open_trace es CmdPreflight \<Longrightarrow> p \<in> {PreflightDisabled, PreflightCompleted, PreflightDegraded} \<Longrightarrow>
     open_trace (es @ [PreflightResolved p]) CmdRead"
  "open_trace es CmdRead \<Longrightarrow> open_trace (es @ [ReadResolved ReadPending]) CmdRead"
proof -
  show "open_trace es CmdRead \<Longrightarrow> open_trace (es @ [ReadResolved ReadPending]) CmdRead"
    unfolding open_trace_def by (auto simp: replicate_append_same) (metis replicate_Suc)+
  show "open_trace es CmdPreflight \<Longrightarrow> p \<in> {PreflightDisabled, PreflightCompleted, PreflightDegraded} \<Longrightarrow>
     open_trace (es @ [PreflightResolved p]) CmdRead"
    unfolding open_trace_def by (auto intro: exI [of _ 0])
qed (simp_all add: open_trace_def)

lemma session_trace_step:
  assumes tr: "session_trace es s" and st: "session_transition s e = Inr t"
  shows "session_trace (es @ [e]) t"
proof -
  have wft: "session_wf t" using st by (rule session_transition_wf)
  have wfs: "session_wf s" using tr by (simp add: session_trace_def)
  consider (connect) "session_cmd s = CmdConnect" | (live) "session_cmd s \<in> {CmdInfo, CmdPreflight, CmdRead}"
    | (teardown) "session_cmd s = CmdTeardown" | (checkpoint) "session_cmd s = CmdCheckpoint"
    | (finished) "session_cmd s = CmdFinished" | (terminal) "session_terminal s"
    by (cases "session_cmd s") (auto simp: session_terminal_def)
  then show ?thesis
  proof cases
    case connect
    then have "s = sess_plain CmdConnect" "es = []" using tr by (auto simp: session_trace_def)
    then show ?thesis
      using st wft unfolding move_connect
      by (auto simp: session_trace_def open_trace_def checkpoint_trace_def move_connect)
  next
    case live
    then have s: "s = sess_plain (session_cmd s)" and op: "open_trace es (session_cmd s)"
      using tr by (auto simp: session_trace_def split: session_command.splits)
    have mv: "session_transition (sess_plain (session_cmd s)) e = Inr t" using st s by simp
    show ?thesis
      using mv wft op open_trace_step unfolding move_open [OF live]
      by (auto simp: session_trace_def ended_by_def)
  next
    case teardown
    obtain body cmd ev where op: "open_trace body cmd" and es: "es = body @ [ev]"
      and en: "\<forall>x. session_out s = Some x \<longrightarrow> ended_by cmd ev x"
      using tr teardown by (auto simp: session_trace_def)
    from wfs teardown show ?thesis
    proof (cases rule: wf_teardown)
      case (1 x)
      then have "ended_by cmd ev x" using en by simp
      with op es have "checkpoint_trace (es @ [TeardownResolved i]) (if i then OutConnectedInterrupted else x) i" for i
        unfolding checkpoint_trace_def by (intro disjI2 exI [of _ body] exI [of _ cmd] exI [of _ ev] exI [of _ x]) simp
      then show ?thesis
        using st wft unfolding 1(1) move_teardown(1) [OF 1(2)] by (auto simp: session_trace_def)
    qed (use st wft in \<open>auto simp: move_teardown session_trace_def\<close>)
  next
    case checkpoint
    then obtain x i where s: "s = sess_at CmdCheckpoint None (Some x) i" and "supported_outcome x" "i \<longrightarrow> x = OutConnectedInterrupted"
      using wfs by (metis wf_post insertCI)
    then show ?thesis
      using st wft tr by (auto simp: move_checkpoint session_trace_def)
  next
    case finished
    then obtain x i where s: "s = sess_at CmdFinished None (Some x) i" and "supported_outcome x" "i \<longrightarrow> x = OutConnectedInterrupted"
      using wfs by (metis wf_post insertCI)
    then show ?thesis
      using st wft tr by (auto simp: move_finished session_trace_def)
  next
    case terminal
    then show ?thesis using st no_move_terminal by blast
  qed
qed


lemma session_step_Inr: "session_step s e = Inr (t, c) \<longleftrightarrow> session_transition s e = Inr t \<and> c = session_cmd t"
  by (auto simp: session_step_def result_iffs)

lemma session_run_trace: "run session_step (sess_plain CmdConnect) es = Inr (s, cs) \<Longrightarrow> session_trace es s"
proof (induction es arbitrary: s cs rule: rev_induct)
  case Nil
  then show ?case by (auto simp: session_trace_def session_wf_unfold)
next
  case (snoc e es)
  then show ?case by (auto simp: run_snoc_Inr session_step_Inr intro: session_trace_step)
qed

text \<open>The other direction: the histories of the grammar are accepted.\<close>

definition accepts :: "session_event list \<Rightarrow> session_state \<Rightarrow> bool" where
  "accepts es s \<longleftrightarrow> (\<exists>cs. run session_step (sess_plain CmdConnect) es = Inr (s, cs))"

lemma accepts_snoc: "accepts es s \<Longrightarrow> session_transition s e = Inr t \<Longrightarrow> accepts (es @ [e]) t"
  by (auto simp: accepts_def run_snoc_Inr session_step_Inr)

lemma accepts_Nil: "accepts [] (sess_plain CmdConnect)"
  by (simp add: accepts_def)

lemma accepts_info: "accepts [Connected] (sess_plain CmdInfo)"
  using accepts_snoc [OF accepts_Nil, of Connected] by (simp add: move_connect)

lemma accepts_preflight: "accepts [Connected, InfoResolved] (sess_plain CmdPreflight)"
  using accepts_snoc [OF accepts_info, of InfoResolved] by (simp add: move_open)

lemma accepts_read:
  assumes "p \<in> {PreflightDisabled, PreflightCompleted, PreflightDegraded}"
  shows "accepts ([Connected, InfoResolved, PreflightResolved p] @ replicate n (ReadResolved ReadPending)) (sess_plain CmdRead)"
proof (induction n)
  case 0
  then show ?case
    using accepts_snoc [OF accepts_preflight, of "PreflightResolved p"] assms by (auto simp: move_open)
next
  case (Suc n)
  then show ?case
    using accepts_snoc [OF Suc.IH, of "ReadResolved ReadPending" "sess_plain CmdRead"]
    by (simp add: move_open replicate_append_same)
qed

lemma accepts_open: "open_trace es cmd \<Longrightarrow> accepts es (sess_plain cmd)"
  using accepts_info accepts_preflight accepts_read by (auto simp: open_trace_def)

lemma ended_by_supported: "ended_by cmd e x \<Longrightarrow> supported_outcome x"
  by (auto simp: ended_by_def retry_outcomes_def)

lemma accepts_checkpoint:
  assumes "checkpoint_trace es x i"
  shows "accepts es (sess_at CmdCheckpoint None (Some x) i) \<and> supported_outcome x \<and> (i \<longrightarrow> x = OutConnectedInterrupted)"
proof -
  from assms consider (unopened) "es = [EffectFailed (Some x)]" "x \<in> {OutRetry, OutCandidateUnavailable}" "\<not> i"
    | (live) body cmd e y where "open_trace body cmd" "ended_by cmd e y"
        "es = body @ [e, TeardownResolved i]" "x = (if i then OutConnectedInterrupted else y)"
    unfolding checkpoint_trace_def by blast
  then show ?thesis
  proof cases
    case unopened
    then show ?thesis
      using accepts_snoc [OF accepts_Nil, of "EffectFailed (Some x)"] by (auto simp: move_connect)
  next
    case live
    have "session_transition (sess_plain cmd) e = Inr (sess_at CmdTeardown (Some AfterCheckpoint) (Some y) False)"
      unfolding move_open [OF open_trace_cmd [OF live(1)]] using live(2) by (auto simp: ended_by_def)
    then have "accepts (body @ [e]) (sess_at CmdTeardown (Some AfterCheckpoint) (Some y) False)"
      using accepts_snoc [OF accepts_open [OF live(1)]] by blast
    then have "accepts ((body @ [e]) @ [TeardownResolved i]) (sess_at CmdCheckpoint None (Some x) i)"
      by (rule accepts_snoc) (simp add: move_teardown(1) [OF ended_by_supported [OF live(2)]] live(4))
    then show ?thesis using live ended_by_supported [OF live(2)] by auto
  qed
qed

section \<open>Properties\<close>

text \<open>
  C22: a session returns an outcome exactly after the prescribed order of effects.  A history is accepted
  and ends in RETURNED with outcome \<open>x\<close> if and only if it is either a connection that never opened, with
  a retry outcome, the checkpoint and the return, or: connect, then INFO, preflight and any number of
  pending reads as far as the session came, one event that ends it with an expected outcome, the
  teardown, the checkpoint, and the return of that outcome, replaced by \<open>connected_interrupted\<close> exactly
  when the teardown was interrupted.
\<close>

theorem session_returns_exactly:
  "(\<exists>cs. run session_step (sess_plain CmdConnect) es = Inr (sess_at CmdReturned None (Some x) i, cs)) \<longleftrightarrow>
     (\<exists>pre. checkpoint_trace pre x i \<and> es = pre @ [CheckpointResolved, OutcomeReturned x])"
proof
  assume "\<exists>cs. run session_step (sess_plain CmdConnect) es = Inr (sess_at CmdReturned None (Some x) i, cs)"
  then show "\<exists>pre. checkpoint_trace pre x i \<and> es = pre @ [CheckpointResolved, OutcomeReturned x]"
    by (auto dest: session_run_trace simp: session_trace_def)
next
  assume "\<exists>pre. checkpoint_trace pre x i \<and> es = pre @ [CheckpointResolved, OutcomeReturned x]"
  then obtain pre where pre: "checkpoint_trace pre x i" and es: "es = (pre @ [CheckpointResolved]) @ [OutcomeReturned x]"
    by auto
  note ok = accepts_checkpoint [OF pre]
  have "accepts (pre @ [CheckpointResolved]) (sess_at CmdFinished None (Some x) i)"
    using ok by (intro accepts_snoc [of pre]) (auto simp: move_checkpoint)
  then have "accepts es (sess_at CmdReturned None (Some x) i)"
    unfolding es by (rule accepts_snoc) (use ok in \<open>auto simp: move_finished\<close>)
  then show "\<exists>cs. run session_step (sess_plain CmdConnect) es = Inr (sess_at CmdReturned None (Some x) i, cs)"
    by (simp add: accepts_def)
qed

lemma live_before_teardown:
  assumes "cmd \<in> {CmdInfo, CmdPreflight, CmdRead}" and "session_transition (sess_plain cmd) e = Inr t"
  shows "(\<exists>cmd'. cmd' \<in> {CmdInfo, CmdPreflight, CmdRead} \<and> t = sess_plain cmd') \<or> session_cmd t = CmdTeardown"
  using assms(2) unfolding move_open [OF assms(1)] by (elim disjE conjE bexE exE) simp_all

definition past_teardown :: "session_state \<Rightarrow> bool" where
  "past_teardown s \<longleftrightarrow> session_wf s \<and> session_cmd s \<in> {CmdCheckpoint, CmdFinished, CmdReturned, CmdFailed, CmdCancelled}"

lemma past_teardown_step:
  assumes "session_wf s" and "session_cmd s \<in> {CmdTeardown, CmdCheckpoint, CmdFinished, CmdReturned, CmdFailed, CmdCancelled}"
    and st: "session_transition s e = Inr t"
  shows "past_teardown t"
proof -
  have wft: "session_wf t" using st by (rule session_transition_wf)
  consider (teardown) "session_cmd s = CmdTeardown" | (post) "session_cmd s \<in> {CmdCheckpoint, CmdFinished}" | (terminal) "session_terminal s"
    using assms(2) by (auto simp: session_terminal_def)
  then show ?thesis
  proof cases
    case teardown
    from assms(1) this st wft show ?thesis
      by (cases rule: wf_teardown) (auto simp: move_teardown past_teardown_def)
  next
    case post
    then obtain x i where "s = sess_at (session_cmd s) None (Some x) i" "supported_outcome x" "i \<longrightarrow> x = OutConnectedInterrupted"
      using wf_post [OF assms(1)] by blast
    then show ?thesis
      using post st wft by (cases s) (auto simp: move_checkpoint move_finished past_teardown_def)
  qed (use st no_move_terminal in blast)
qed

interpretation session_exit: guarded_machine session_step past_teardown "\<lambda>_ _ c. c \<noteq> CmdTeardown"
  by unfold_locales (auto simp: session_step_Inr past_teardown_def dest: past_teardown_step [unfolded past_teardown_def])

lemma past_teardown_silent:
  assumes "past_teardown s" and "run session_step s es = Inr (t, cs)"
  shows "count_list cs CmdTeardown = 0"
  using session_exit.run_licensed [OF assms] by (auto simp: count_list_0_iff in_set_conv_nth)

lemma teardown_silent:
  assumes "session_wf s" and "session_cmd s = CmdTeardown" and "run session_step s es = Inr (t, cs)"
  shows "count_list cs CmdTeardown = 0"
proof (cases es)
  case (Cons e es')
  then obtain u ds where "session_transition s e = Inr u" "run session_step u es' = Inr (t, ds)" "cs = session_cmd u # ds"
    using assms(3) by (auto simp: run_Cons_Inr session_step_Inr simp del: run.simps(2))
  moreover from this(1) have "past_teardown u" using past_teardown_step assms by blast
  ultimately show ?thesis using past_teardown_silent by (auto simp: past_teardown_def)
qed (use assms in auto)

lemma live_tears_down_once:
  assumes "cmd \<in> {CmdInfo, CmdPreflight, CmdRead}" and "run session_step (sess_plain cmd) es = Inr (t, cs)" and "session_terminal t"
  shows "count_list cs CmdTeardown = 1"
  using assms(1,2)
proof (induction es arbitrary: cmd cs)
  case Nil
  then show ?case using assms(3) by (auto simp: session_terminal_def)
next
  case (Cons e es)
  then obtain u ds where u: "session_transition (sess_plain cmd) e = Inr u" "run session_step u es = Inr (t, ds)" "cs = session_cmd u # ds"
    by (auto simp: run_Cons_Inr session_step_Inr simp del: run.simps(2))
  from live_before_teardown [OF Cons.prems(1) u(1)] show ?case
  proof
    assume "\<exists>cmd'. cmd' \<in> {CmdInfo, CmdPreflight, CmdRead} \<and> u = sess_plain cmd'"
    then show ?thesis using Cons.IH u by auto
  next
    assume "session_cmd u = CmdTeardown"
    then show ?thesis using teardown_silent u session_transition_wf [OF u(1)] by simp
  qed
qed

text \<open>
  The teardown runs exactly once for an opened session, and never for one that did not open.  Take
  any accepted history that reaches a terminal command, whether returned, failed or cancelled.  If its
  first event is \<open>Connected\<close> then TEARDOWN was requested exactly once; otherwise it was never requested.
\<close>

theorem session_tears_down_once:
  assumes "run session_step (sess_plain CmdConnect) (e # es) = Inr (t, cs)" and "session_terminal t"
  shows "count_list cs CmdTeardown = (if e = Connected then 1 else 0)"
proof -
  obtain u ds where u: "session_transition (sess_plain CmdConnect) e = Inr u" "run session_step u es = Inr (t, ds)" "cs = session_cmd u # ds"
    using assms(1) by (auto simp: run_Cons_Inr session_step_Inr simp del: run.simps(2))
  show ?thesis
  proof (cases "e = Connected")
    case True
    then have "u = sess_plain CmdInfo" using u(1) by (simp add: move_connect)
    then show ?thesis using live_tears_down_once [of CmdInfo es t ds] u assms(2) True by simp
  next
    case False
    then have "past_teardown u"
      using u(1) session_transition_wf [OF u(1)] unfolding move_connect by (auto simp: past_teardown_def)
    then show ?thesis using past_teardown_silent u(2,3) False by (auto simp: past_teardown_def)
  qed
qed

theorem session_tears_down_once_witness:
  "\<exists>t cs. run session_step (sess_plain CmdConnect) (Connected # [EffectFailed None, CancellationObserved]) = Inr (t, cs)
     \<and> session_terminal t \<and> count_list cs CmdTeardown = 1"
proof -
  have "accepts ([Connected] @ [EffectFailed None]) (sess_at CmdTeardown (Some AfterFailed) None False)"
    by (rule accepts_snoc [OF accepts_info]) (simp add: move_open)
  then have "accepts (([Connected] @ [EffectFailed None]) @ [CancellationObserved]) (sess_plain CmdCancelled)"
    by (rule accepts_snoc) (simp add: move_teardown)
  then obtain cs where r: "run session_step (sess_plain CmdConnect) (Connected # [EffectFailed None, CancellationObserved]) = Inr (sess_plain CmdCancelled, cs)"
    by (auto simp: accepts_def)
  then show ?thesis using session_tears_down_once [OF r] by (auto simp: session_terminal_def)
qed

interpretation session: invariant_machine session_step session_wf
  by unfold_locales (auto simp: session_step_Inr intro: session_transition_wf)

lemma session_no_value_error:
  assumes "session_wf s"
  shows "session_transition s e \<noteq> Inl (SessionValueError m)"
proof -
  have fbt: "failed_before_teardown r b \<noteq> Inl (SessionValueError m)" for r b
    by (auto simp: failed_before_teardown_def session_construct split: option.split)
  consider (teardown) "session_cmd s = CmdTeardown" | (post) "session_cmd s \<in> {CmdCheckpoint, CmdFinished}"
    | (other) "session_cmd s \<notin> {CmdTeardown, CmdCheckpoint, CmdFinished}" by blast
  then show ?thesis
  proof cases
    case teardown
    from assms this show ?thesis
      by (cases rule: wf_teardown)
        (cases e; auto simp: session_transition_def session_handlers_def handle_teardown_def session_construct)+
  next
    case post
    then obtain x i where "s = sess_at (session_cmd s) None (Some x) i" "supported_outcome x" "i \<longrightarrow> x = OutConnectedInterrupted"
      using wf_post [OF assms] by blast
    then show ?thesis
      using post by (cases s, cases e)
        (auto simp: session_transition_def session_handlers_def handle_checkpoint_def handle_finished_def session_construct)
  next
    case other
    have early: "handler s e \<noteq> Inl (SessionValueError m)"
      if "handler \<in> {handle_connect, handle_info, handle_preflight, handle_read}" for handler
      using that fbt
      by (auto simp: handle_connect_def handle_info_def handle_preflight_def handle_read_def session_construct
          split: session_event.splits read_result.splits if_splits)
    have "handler \<in> {handle_connect, handle_info, handle_preflight, handle_read}"
      if "map_of session_handlers (session_cmd s, session_event_type_of e) = Some handler" for handler
      using map_of_SomeD [OF that] other by (auto simp: session_handlers_def)
    with early show ?thesis by (auto simp: session_transition_def split: option.split)
  qed
qed

text \<open>
  The validation in the constructor never fires.  In every state reachable from the initial one the
  fields are consistent, and no event makes a transition fail with the \<open>ValueError\<close> of the constructor:
  an event is either accepted, with a well-formed new state, or refused as out of order.
\<close>

theorem session_states_consistent:
  assumes "session_initial_state = Inr initial" and "reachable session_step initial s"
  shows "session_wf s \<and> session_transition s e \<noteq> Inl (SessionValueError m)
    \<and> (session_transition s e = Inr t \<longrightarrow> session_wf t \<and> require_command t (session_cmd t) = Inr ())"
proof -
  have "session_wf initial" using assms(1) unfolding session_initial_state_def new_session_state_Inr by blast
  then have "session_wf s" using assms(2) by (rule session.reachable_inv)
  then show ?thesis
    using session_no_value_error session_transition_wf by (auto simp: require_command_def)
qed

theorem session_states_consistent_witness:
  "session_initial_state = Inr (sess_plain CmdConnect) \<and> session_wf (sess_plain CmdInfo)
   \<and> session_transition (sess_plain CmdInfo) InfoResolved \<noteq> Inl (SessionValueError [])"
proof -
  have i: "session_initial_state = Inr (sess_plain CmdConnect)"
    by (simp add: session_initial_state_def session_construct)
  have "session_step (sess_plain CmdConnect) Connected = Inr (sess_plain CmdInfo, CmdInfo)"
    by (simp add: session_step_Inr move_connect)
  then have r: "reachable session_step (sess_plain CmdConnect) (sess_plain CmdInfo)" by (rule reach_step [OF reach_start])
  show ?thesis using i session_states_consistent [OF i r] by blast
qed

end
