(* ===== verification/Visit_Machine.thy ===== *)
theory Visit_Machine
  imports Prelude
begin

text \<open>
  The lifecycle of one pendant visit (\<open>application/visit_machine.py\<close>): recovery of durable evidence,
  attempts, and the durable closure of the visit.  The classes \<open>Closing\<close>, \<open>CommitClosure\<close> and
  \<open>DrainConfirmed\<close> validate their fields when they are constructed, so their construction is fallible.
  Reasons and dispositions outside the Python literals are kept as a separate constructor, because the
  code refuses them at run time.
\<close>

section \<open>Data\<close>

datatype close_reason =
    CloseDrained | CloseAbsence | CloseRecoveryExhausted | CloseRestartInterrupted | CloseOperatorLimit
  | CloseUnsupported string

datatype recovery_disposition = RecoveryEmpty | RecoveryResumable | RecoveryNeedsInterruptedClose | RecoveryUnsupported string

datatype visit_origin = OriginIdle | OriginWaiting

datatype visit_state =
    VisitRecovering
  | VisitIdle
  | VisitWaiting
  | VisitAttempting visit_origin
  | VisitClosing close_reason "int option"
  | VisitStopped

datatype visit_outcome =
    DrainConfirmed int
  | Interrupted bool bool
  | CandidateUnavailable
  | OperatorBatchCompleted

datatype visit_event =
    RecoveryLoaded recovery_disposition
  | AttemptGranted
  | SessionFinished visit_outcome
  | RecoveryEnded close_reason
  | ClosureCommitted
  | CloseFailed
  | VisitShutdown

datatype visit_command =
    InspectRecovery
  | WaitForAttempt bool "visit_outcome option"
  | RunAttempt
  | CommitClosure close_reason "int option"
  | FinishVisit close_reason bool
  | PreserveAndStop
  | VisitNoOp

datatype visit_error = VisitTransitionError | VisitValueError string

type_synonym visit_result = "(visit_error, visit_state \<times> visit_command) result"

section \<open>Operations\<close>

definition validate_drain_cursor :: "close_reason \<Rightarrow> int option \<Rightarrow> (visit_error, unit) result" where
  "validate_drain_cursor reason cursor =
     (if reason \<notin> {CloseDrained, CloseAbsence, CloseRecoveryExhausted, CloseRestartInterrupted, CloseOperatorLimit}
      then Inl (VisitValueError ''unsupported closure reason'')
      else if reason = CloseDrained
      then require (case cursor of None \<Rightarrow> False | Some c \<Rightarrow> 0 \<le> c)
             (VisitValueError ''drained closure requires a nonnegative confirmed cursor'')
      else require (cursor = None) (VisitValueError ''only drained closure may carry a confirmed cursor''))"

definition new_drain_confirmed :: "int \<Rightarrow> (visit_error, visit_outcome) result" where
  "new_drain_confirmed cursor =
     (if cursor < 0 then Inl (VisitValueError ''drain cursor must be a nonnegative integer'')
      else Inr (DrainConfirmed cursor))"

definition new_closing :: "close_reason \<Rightarrow> int option \<Rightarrow> (visit_error, visit_state) result" where
  "new_closing reason cursor =
     bind_result (validate_drain_cursor reason cursor) (\<lambda>_. Inr (VisitClosing reason cursor))"

definition new_commit_closure :: "close_reason \<Rightarrow> int option \<Rightarrow> (visit_error, visit_command) result" where
  "new_commit_closure reason cursor =
     bind_result (validate_drain_cursor reason cursor) (\<lambda>_. Inr (CommitClosure reason cursor))"

text \<open>\<open>TransitionResult(Closing(reason, cursor), CommitClosure(reason, cursor))\<close>.\<close>

definition close_visit :: "close_reason \<Rightarrow> int option \<Rightarrow> visit_result" where
  "close_visit reason cursor =
     bind_result (new_closing reason cursor) (\<lambda>s.
     bind_result (new_commit_closure reason cursor) (\<lambda>c. Inr (s, c)))"

definition visit_initial_transition :: "visit_state \<times> visit_command" where
  "visit_initial_transition = (VisitRecovering, InspectRecovery)"

definition recovering_transition :: "visit_event \<Rightarrow> visit_result" where
  "recovering_transition event =
     (case event of
        RecoveryLoaded RecoveryEmpty \<Rightarrow> Inr (VisitIdle, WaitForAttempt False None)
      | RecoveryLoaded RecoveryResumable \<Rightarrow> Inr (VisitWaiting, WaitForAttempt True None)
      | RecoveryLoaded RecoveryNeedsInterruptedClose \<Rightarrow> close_visit CloseRestartInterrupted None
      | _ \<Rightarrow> Inl VisitTransitionError)"

definition waiting_transition :: "visit_origin \<Rightarrow> visit_event \<Rightarrow> visit_result" where
  "waiting_transition state event =
     (case event of
        AttemptGranted \<Rightarrow> Inr (VisitAttempting state, RunAttempt)
      | RecoveryEnded reason \<Rightarrow>
          if state = OriginWaiting then close_visit reason None else Inl VisitTransitionError
      | _ \<Rightarrow> Inl VisitTransitionError)"

fun origin_state :: "visit_origin \<Rightarrow> visit_state" where
  "origin_state OriginIdle = VisitIdle"
| "origin_state OriginWaiting = VisitWaiting"

definition attempting_transition :: "visit_origin \<Rightarrow> visit_event \<Rightarrow> visit_result" where
  "attempting_transition origin event =
     (case event of
        SessionFinished outcome \<Rightarrow>
          (case outcome of
             Interrupted c d \<Rightarrow> Inr (VisitWaiting, WaitForAttempt False (Some outcome))
           | CandidateUnavailable \<Rightarrow> Inr (origin_state origin, WaitForAttempt False (Some outcome))
           | DrainConfirmed cursor \<Rightarrow> close_visit CloseDrained (Some cursor)
           | OperatorBatchCompleted \<Rightarrow> close_visit CloseOperatorLimit None)
      | _ \<Rightarrow> Inl VisitTransitionError)"

definition closing_transition :: "bool \<Rightarrow> close_reason \<Rightarrow> visit_event \<Rightarrow> visit_result" where
  "closing_transition stop_after_drained reason event =
     (case event of
        CloseFailed \<Rightarrow> Inr (VisitStopped, PreserveAndStop)
      | ClosureCommitted \<Rightarrow>
          (if reason = CloseRestartInterrupted then Inr (VisitRecovering, InspectRecovery)
           else if reason = CloseOperatorLimit \<or> reason = CloseDrained \<and> stop_after_drained
           then Inr (VisitStopped, FinishVisit reason True)
           else Inr (VisitIdle, FinishVisit reason False))
      | _ \<Rightarrow> Inl VisitTransitionError)"

definition visit_transition :: "bool \<Rightarrow> visit_state \<Rightarrow> visit_event \<Rightarrow> visit_result" where
  "visit_transition stop_after_drained state event =
     (case state of
        VisitStopped \<Rightarrow> Inr (VisitStopped, VisitNoOp)
      | _ \<Rightarrow>
          if event = VisitShutdown then Inr (VisitStopped, PreserveAndStop)
          else case state of
            VisitRecovering \<Rightarrow> recovering_transition event
          | VisitIdle \<Rightarrow> waiting_transition OriginIdle event
          | VisitWaiting \<Rightarrow> waiting_transition OriginWaiting event
          | VisitAttempting origin \<Rightarrow> attempting_transition origin event
          | VisitClosing reason cursor \<Rightarrow> closing_transition stop_after_drained reason event
          | VisitStopped \<Rightarrow> Inl VisitTransitionError)"

lemmas visit_transition_defs =
  visit_transition_def recovering_transition_def waiting_transition_def attempting_transition_def closing_transition_def

section \<open>Steps\<close>

lemma origin_state_simps [simp]:
  "origin_state o' \<noteq> VisitClosing r c" "VisitClosing r c \<noteq> origin_state o'" "origin_state o' \<noteq> VisitStopped"
  by (cases o'; simp)+

definition valid_closure :: "close_reason \<Rightarrow> int option \<Rightarrow> bool" where
  "valid_closure reason cursor \<longleftrightarrow>
     (case reason of
        CloseUnsupported _ \<Rightarrow> False
      | CloseDrained \<Rightarrow> (\<exists>c \<ge> 0. cursor = Some c)
      | _ \<Rightarrow> cursor = None)"

lemma close_visit_Inr [simp]:
  "close_visit r c = Inr (s, k) \<longleftrightarrow> s = VisitClosing r c \<and> k = CommitClosure r c \<and> valid_closure r c"
  by (cases r; cases c)
    (auto simp: close_visit_def new_closing_def new_commit_closure_def validate_drain_cursor_def valid_closure_def)

text \<open>The state carries a closure that passed validation.\<close>

definition visit_inv :: "visit_state \<Rightarrow> bool" where
  "visit_inv s \<longleftrightarrow> (\<forall>r c. s = VisitClosing r c \<longrightarrow> valid_closure r c)"

lemma visit_step_cases:
  assumes "visit_transition stop s e = Inr (t, k)"
  obtains (stopped) "s = VisitStopped" "t = VisitStopped" "k = VisitNoOp"
  | (shutdown) "s \<noteq> VisitStopped" "e = VisitShutdown" "t = VisitStopped" "k = PreserveAndStop"
  | (empty) "s = VisitRecovering" "e = RecoveryLoaded RecoveryEmpty" "t = VisitIdle" "k = WaitForAttempt False None"
  | (resume) "s = VisitRecovering" "e = RecoveryLoaded RecoveryResumable" "t = VisitWaiting" "k = WaitForAttempt True None"
  | (restart) "s = VisitRecovering" "e = RecoveryLoaded RecoveryNeedsInterruptedClose"
      "t = VisitClosing CloseRestartInterrupted None" "k = CommitClosure CloseRestartInterrupted None"
  | (grant) o' where "s = origin_state o'" "e = AttemptGranted" "t = VisitAttempting o'" "k = RunAttempt"
  | (ended) r where "s = VisitWaiting" "e = RecoveryEnded r" "r \<noteq> CloseDrained" "valid_closure r None"
      "t = VisitClosing r None" "k = CommitClosure r None"
  | (interrupted) o' b d where "s = VisitAttempting o'" "e = SessionFinished (Interrupted b d)" "t = VisitWaiting"
      "k = WaitForAttempt False (Some (Interrupted b d))"
  | (unavailable) o' where "s = VisitAttempting o'" "e = SessionFinished CandidateUnavailable" "t = origin_state o'"
      "k = WaitForAttempt False (Some CandidateUnavailable)"
  | (drained) o' c where "s = VisitAttempting o'" "e = SessionFinished (DrainConfirmed c)" "0 \<le> c"
      "t = VisitClosing CloseDrained (Some c)" "k = CommitClosure CloseDrained (Some c)"
  | (limit) o' where "s = VisitAttempting o'" "e = SessionFinished OperatorBatchCompleted"
      "t = VisitClosing CloseOperatorLimit None" "k = CommitClosure CloseOperatorLimit None"
  | (failed) r c where "s = VisitClosing r c" "e = CloseFailed" "t = VisitStopped" "k = PreserveAndStop"
  | (restarted) c where "s = VisitClosing CloseRestartInterrupted c" "e = ClosureCommitted" "t = VisitRecovering" "k = InspectRecovery"
  | (finished) r c where "s = VisitClosing r c" "e = ClosureCommitted" "r \<noteq> CloseRestartInterrupted"
      "t = (if r = CloseOperatorLimit \<or> r = CloseDrained \<and> stop then VisitStopped else VisitIdle)"
      "k = FinishVisit r (r = CloseOperatorLimit \<or> r = CloseDrained \<and> stop)"
proof (cases "e = VisitShutdown \<or> s = VisitStopped")
  case True
  with assms that(1,2) show thesis by (cases s) (auto simp: visit_transition_def)
next
  case False
  note st = assms False
  show thesis
  proof (cases s)
    case VisitRecovering
    with st that(3-5) show thesis
      by (cases e) (auto simp: visit_transition_def recovering_transition_def split: recovery_disposition.splits)
  next
    case VisitIdle
    with st that(6) [of OriginIdle] show thesis
      by (cases e) (auto simp: visit_transition_def waiting_transition_def)
  next
    case VisitWaiting
    with st that(6) [of OriginWaiting] that(7) show thesis
      by (cases e) (auto simp: visit_transition_def waiting_transition_def valid_closure_def split: close_reason.splits)
  next
    case (VisitAttempting o')
    with st that(8-11) show thesis
      by (cases e) (auto simp: visit_transition_def attempting_transition_def valid_closure_def split: visit_outcome.splits)
  next
    case (VisitClosing r c)
    with st that(12-14) show thesis
      by (cases e) (auto simp: visit_transition_def closing_transition_def split: if_splits)
  qed (use False in simp)
qed


lemma visit_step_inv: "visit_transition stop s e = Inr (t, k) \<Longrightarrow> visit_inv t"
  by (erule visit_step_cases) (auto simp: visit_inv_def valid_closure_def)

section \<open>Properties\<close>

definition closure_licence :: "bool \<Rightarrow> visit_state \<Rightarrow> visit_event \<Rightarrow> visit_command \<Rightarrow> bool" where
  "closure_licence stop s e k \<longleftrightarrow>
     (\<forall>r c. k = CommitClosure r c \<longrightarrow>
        valid_closure r c \<and> (r = CloseDrained \<longleftrightarrow> (\<exists>n. e = SessionFinished (DrainConfirmed n) \<and> c = Some n)))
   \<and> (\<forall>r f. k = FinishVisit r f \<longrightarrow>
        e = ClosureCommitted \<and> (\<exists>c. s = VisitClosing r c)
        \<and> (f \<longleftrightarrow> r = CloseOperatorLimit \<or> r = CloseDrained \<and> stop))"

lemma visit_step_licence: "visit_transition stop s e = Inr (t, k) \<Longrightarrow> closure_licence stop s e k"
  by (erule visit_step_cases) (auto simp: closure_licence_def valid_closure_def)

interpretation visit: guarded_machine "visit_transition stop" visit_inv "closure_licence stop" for stop
  by unfold_locales (blast intro: visit_step_inv visit_step_licence)+

text \<open>A visit that is closing has just asked for that closure to be committed.\<close>

lemma closing_backed:
  assumes "run (visit_transition stop) VisitRecovering es = Inr (VisitClosing r c, cs)"
  shows "cs \<noteq> [] \<and> last cs = CommitClosure r c"
proof (cases es rule: rev_cases)
  case (snoc es' e)
  then obtain s k cs' where "visit_transition stop s e = Inr (VisitClosing r c, k)" "cs = cs' @ [k]"
    using assms by (auto simp: run_snoc_Inr)
  then show ?thesis by (auto elim!: visit_step_cases split: if_splits)
qed (use assms in simp)

text \<open>
  C23: a visit is closed as drained exactly on a confirmed drain, and finished only after its closure was
  committed.  In any accepted history from the initial state, every commit of a closure carries a valid
  reason and cursor, and its reason is \<open>drained\<close> if and only if the event was the session outcome
  \<open>DrainConfirmed\<close> with that very cursor.  Every \<open>FinishVisit\<close> answers \<open>ClosureCommitted\<close>, repeats the
  reason of the commit issued immediately before it, and stops the supervisor exactly for the operator
  limit, or for a drained visit when the caller asked for that.
\<close>

theorem visit_closure_is_backed:
  assumes "run (visit_transition stop) (fst visit_initial_transition) es = Inr (s, cs)" and "i < length cs"
  shows "(\<forall>r c. cs ! i = CommitClosure r c \<longrightarrow>
        valid_closure r c \<and> (r = CloseDrained \<longleftrightarrow> (\<exists>n. es ! i = SessionFinished (DrainConfirmed n) \<and> c = Some n)))
    \<and> (\<forall>r f. cs ! i = FinishVisit r f \<longrightarrow>
        0 < i \<and> es ! i = ClosureCommitted \<and> (\<exists>c. cs ! (i - 1) = CommitClosure r c)
        \<and> (f \<longleftrightarrow> r = CloseOperatorLimit \<or> r = CloseDrained \<and> stop))"
proof -
  have start: "fst visit_initial_transition = VisitRecovering" "visit_inv VisitRecovering"
    by (simp_all add: visit_initial_transition_def visit_inv_def)
  obtain u where u: "run (visit_transition stop) VisitRecovering (take i es) = Inr (u, take i cs)"
    and lic: "closure_licence stop u (es ! i) (cs ! i)"
    using visit.run_licensed [OF start(2)] assms unfolding start(1) by blast
  have "0 < i \<and> cs ! (i - 1) = CommitClosure r c" if "u = VisitClosing r c" for r c
    using closing_backed [of stop "take i es" r c "take i cs"] u that assms(2)
    by (cases "i = 0") (auto simp: last_conv_nth)
  with lic show ?thesis unfolding closure_licence_def by blast
qed

theorem visit_closure_is_backed_witness:
  "\<exists>s cs. run (visit_transition False) (fst visit_initial_transition)
       [RecoveryLoaded RecoveryEmpty, AttemptGranted, SessionFinished (DrainConfirmed 7), ClosureCommitted] = Inr (s, cs)
     \<and> cs ! 3 = FinishVisit CloseDrained False \<and> (\<exists>c. cs ! 2 = CommitClosure CloseDrained c)"
proof -
  let ?cs = "[WaitForAttempt False None, RunAttempt, CommitClosure CloseDrained (Some 7), FinishVisit CloseDrained False]"
  have r: "run (visit_transition False) (fst visit_initial_transition)
      [RecoveryLoaded RecoveryEmpty, AttemptGranted, SessionFinished (DrainConfirmed 7), ClosureCommitted] = Inr (VisitIdle, ?cs)"
    by (simp add: visit_transition_defs visit_initial_transition_def close_visit_def new_closing_def
        new_commit_closure_def validate_drain_cursor_def)
  then show ?thesis using visit_closure_is_backed [OF r, of 3] by simp
qed

text \<open>An interrupted visit is retained while it waits and while it is attempted again.\<close>

fun visit_retained :: "visit_state \<Rightarrow> bool" where
  "visit_retained VisitWaiting = True"
| "visit_retained (VisitAttempting OriginWaiting) = True"
| "visit_retained _ = False"

lemma visit_retained_origin [simp]:
  "visit_retained (origin_state o') = (o' = OriginWaiting)"
  "visit_retained (VisitAttempting o') = (o' = OriginWaiting)"
  by (cases o'; simp)+

definition gives_up :: "visit_command \<Rightarrow> bool" where
  "gives_up k \<longleftrightarrow> (\<exists>r c. k = CommitClosure r c) \<or> k = PreserveAndStop"

lemma visit_retained_step:
  assumes "visit_transition stop s e = Inr (t, k)" and "visit_retained s" and "\<not> gives_up k"
  shows "visit_retained t"
  using assms
  by (elim visit_step_cases) (auto simp: gives_up_def)

lemma visit_retained_run:
  "visit_retained s \<Longrightarrow> run (visit_transition stop) s es = Inr (t, cs) \<Longrightarrow> \<forall>k \<in> set cs. \<not> gives_up k \<Longrightarrow> visit_retained t"
  by (induction es arbitrary: s cs)
    (auto simp: run_Cons_Inr dest: visit_retained_step simp del: run.simps(2))

text \<open>
  An interrupted attempt is never forgotten.  After an attempt ends with \<open>Interrupted\<close>, whatever
  accepted events follow, the visit is still retained, waiting or being attempted again, unless a
  closure commit was issued for it or it was preserved for a shutdown; in particular an unavailable
  candidate does not drop it.
\<close>

theorem interrupted_visit_is_retained:
  assumes "visit_transition stop s (SessionFinished (Interrupted b d)) = Inr (t, k)"
    and "s \<noteq> VisitStopped"
    and "run (visit_transition stop) t es = Inr (u, cs)"
    and "\<forall>c \<in> set cs. \<not> gives_up c"
  shows "visit_retained u"
proof -
  have "visit_retained t" using assms(1,2) by (auto elim: visit_step_cases)
  then show ?thesis using assms(3,4) by (rule visit_retained_run)
qed

theorem interrupted_visit_is_retained_witness:
  "\<exists>u cs. run (visit_transition True) VisitWaiting [AttemptGranted, SessionFinished CandidateUnavailable] = Inr (u, cs)
     \<and> visit_retained u"
proof -
  have a: "visit_transition True (VisitAttempting OriginIdle) (SessionFinished (Interrupted True False))
      = Inr (VisitWaiting, WaitForAttempt False (Some (Interrupted True False)))"
    by (simp add: visit_transition_defs)
  have r: "run (visit_transition True) VisitWaiting [AttemptGranted, SessionFinished CandidateUnavailable]
      = Inr (VisitWaiting, [RunAttempt, WaitForAttempt False (Some CandidateUnavailable)])"
    by (simp add: visit_transition_defs)
  have "visit_retained VisitWaiting"
    using interrupted_visit_is_retained [OF a _ r] by (simp add: gives_up_def)
  with r show ?thesis by blast
qed

text \<open>Attempts and closures are paired with their results.\<close>

fun visit_attempting :: "visit_state \<Rightarrow> nat" where
  "visit_attempting (VisitAttempting _) = 1"
| "visit_attempting _ = 0"

fun visit_closing :: "visit_state \<Rightarrow> nat" where
  "visit_closing (VisitClosing _ _) = 1"
| "visit_closing _ = 0"

lemma visit_pending_origin [simp]: "visit_attempting (origin_state o') = 0" "visit_closing (origin_state o') = 0"
  by (cases o'; simp)+

definition is_session_finished :: "visit_event \<Rightarrow> bool" where
  "is_session_finished e \<longleftrightarrow> (\<exists>x. e = SessionFinished x)"

definition is_commit :: "visit_command \<Rightarrow> bool" where
  "is_commit k \<longleftrightarrow> (\<exists>r c. k = CommitClosure r c)"

lemma visit_step_paired:
  assumes "visit_transition stop s e = Inr (t, k)" and "t \<noteq> VisitStopped"
  shows "visit_attempting t + (if is_session_finished e then 1 else 0) = visit_attempting s + (if k = RunAttempt then 1 else 0)
    \<and> visit_closing t + (if e = ClosureCommitted then 1 else 0) = visit_closing s + (if is_commit k then 1 else 0)"
  using assms
  by (elim visit_step_cases) (auto simp: is_session_finished_def is_commit_def split: if_splits)

interpretation visit_stop: absorbing_machine "visit_transition stop" "\<lambda>s. s = VisitStopped" for stop
  by unfold_locales (simp add: visit_transition_def)

lemma visit_paired_run:
  assumes "run (visit_transition stop) s es = Inr (t, cs)" and "t \<noteq> VisitStopped"
  shows "visit_attempting t + length (filter is_session_finished es) = visit_attempting s + count_list cs RunAttempt
    \<and> visit_closing t + count_list es ClosureCommitted = visit_closing s + length (filter is_commit cs)"
  using assms(1)
proof (induction es arbitrary: s cs)
  case (Cons e es)
  then obtain u k ds where u: "visit_transition stop s e = Inr (u, k)" "run (visit_transition stop) u es = Inr (t, ds)" "cs = k # ds"
    by (auto simp: run_Cons_Inr simp del: run.simps(2))
  have "u \<noteq> VisitStopped" using visit_stop.absorbed.run_inv [OF _ u(2)] assms(2) by blast
  then show ?case using visit_step_paired [OF u(1)] Cons.IH [OF u(2)] u(3) by (auto split: if_splits)
qed simp

text \<open>
  Attempts and closures never overlap or get lost.  In every accepted history from the initial state
  that has not stopped, each requested attempt but a running one has had its session result, and each
  committed closure but a pending one has been acknowledged.  Once the machine has stopped, it answers
  every event with \<open>NoOp\<close> and stays stopped.
\<close>

theorem visit_effects_are_paired:
  assumes "run (visit_transition stop) (fst visit_initial_transition) es = Inr (s, cs)"
  shows "(s \<noteq> VisitStopped \<longrightarrow>
        count_list cs RunAttempt = length (filter is_session_finished es) + visit_attempting s
      \<and> length (filter is_commit cs) = count_list es ClosureCommitted + visit_closing s)
    \<and> (s = VisitStopped \<longrightarrow> (\<forall>fs. run (visit_transition stop) s fs = Inr (s, replicate (length fs) VisitNoOp)))"
proof (intro conjI impI allI)
  assume "s \<noteq> VisitStopped"
  then show "count_list cs RunAttempt = length (filter is_session_finished es) + visit_attempting s"
    and "length (filter is_commit cs) = count_list es ClosureCommitted + visit_closing s"
    using visit_paired_run [OF assms] by (simp_all add: visit_initial_transition_def)
next
  fix fs assume "s = VisitStopped"
  then show "run (visit_transition stop) s fs = Inr (s, replicate (length fs) VisitNoOp)"
    by (induction fs) (auto simp: visit_transition_def)
qed

theorem visit_effects_are_paired_witness:
  "\<exists>cs. run (visit_transition False) (fst visit_initial_transition) [RecoveryLoaded RecoveryEmpty, AttemptGranted]
      = Inr (VisitAttempting OriginIdle, cs) \<and> count_list cs RunAttempt = 1"
proof -
  have r: "run (visit_transition False) (fst visit_initial_transition) [RecoveryLoaded RecoveryEmpty, AttemptGranted]
      = Inr (VisitAttempting OriginIdle, [WaitForAttempt False None, RunAttempt])"
    by (simp add: visit_transition_defs visit_initial_transition_def)
  then show ?thesis using visit_effects_are_paired [OF r] by (simp add: is_session_finished_def)
qed

end
