(* ===== verification/Attempt_Writer_Machine.thy ===== *)
theory Attempt_Writer_Machine
  imports Prelude
begin

text \<open>
  The lifecycle of the background writer of one attempt (\<open>adapters/attempt_writer_machine.py\<close>).  The
  reducer is total: every event in every state gives a new state and one directive for the driver.
  The retained exception is a value of a type parameter.  Python's \<open>failure_of(state) or event.error\<close>
  keeps the first operand when it is not \<open>None\<close>, since an exception object is true.
\<close>

section \<open>Data\<close>

datatype 'x writer_state =
    WConstructed
  | WPreparing
  | WPrepared
  | WReading
  | WFinalizing
  | WFinalized
  | WFailed 'x
  | WClosing (closing_failure: "'x option") (closing_drain: bool) (closing_start: bool)
  | WClosed "'x option" bool

datatype 'x writer_event =
    StartRequested
  | LegRequested
  | ReadBeginRequested
  | CheckpointRequested
  | FinalizeRequested
  | CloseRequested
  | PublishRequested
  | PrepareSucceeded
  | LegSucceeded
  | ReadBeginSucceeded
  | CheckpointSucceeded
  | FinalizeSucceeded
  | CommandFailed 'x
  | CloseSucceeded
  | WriterCloseFailed 'x

datatype rejection_kind =
    RejectNotStarted | RejectPreparePending | RejectReadPending | RejectFinalizing
  | RejectFinalized | RejectFinalizePending | RejectClosed | RejectFailed

datatype writer_directive = Admit | ReuseClose | Ignore | Reject rejection_kind

type_synonym 'x writer_result = "'x writer_state \<times> writer_directive"

section \<open>Operations\<close>

fun failure_of :: "'x writer_state \<Rightarrow> 'x option" where
  "failure_of (WFailed e) = Some e"
| "failure_of (WClosing f d a) = f"
| "failure_of (WClosed f a) = f"
| "failure_of _ = None"

fun is_result :: "'x writer_event \<Rightarrow> bool" where
  "is_result PrepareSucceeded = True"
| "is_result LegSucceeded = True"
| "is_result ReadBeginSucceeded = True"
| "is_result CheckpointSucceeded = True"
| "is_result FinalizeSucceeded = True"
| "is_result (CommandFailed _) = True"
| "is_result CloseSucceeded = True"
| "is_result (WriterCloseFailed _) = True"
| "is_result _ = False"

definition first_error :: "'x option \<Rightarrow> 'x \<Rightarrow> 'x" where
  "first_error failure err = (case failure of None \<Rightarrow> err | Some e \<Rightarrow> e)"

definition request_rejection :: "'x writer_state \<Rightarrow> 'x writer_event \<Rightarrow> rejection_kind \<Rightarrow> 'x writer_result" where
  "request_rejection state event kind = (if is_result event then (state, Ignore) else (state, Reject kind))"

definition handle_constructed :: "'x writer_event \<Rightarrow> 'x writer_result" where
  "handle_constructed event =
     (case event of
        PublishRequested \<Rightarrow> (WConstructed, Admit)
      | _ \<Rightarrow> request_rejection WConstructed event RejectNotStarted)"

definition handle_preparing :: "'x writer_event \<Rightarrow> 'x writer_result" where
  "handle_preparing event =
     (case event of
        PrepareSucceeded \<Rightarrow> (WPrepared, Ignore)
      | PublishRequested \<Rightarrow> (WPreparing, Admit)
      | _ \<Rightarrow> request_rejection WPreparing event RejectPreparePending)"

definition handle_prepared :: "'x writer_event \<Rightarrow> 'x writer_result" where
  "handle_prepared event =
     (case event of
        LegRequested \<Rightarrow> (WPrepared, Admit)
      | ReadBeginRequested \<Rightarrow> (WPrepared, Admit)
      | PublishRequested \<Rightarrow> (WPrepared, Admit)
      | FinalizeRequested \<Rightarrow> (WFinalizing, Admit)
      | ReadBeginSucceeded \<Rightarrow> (WReading, Ignore)
      | LegSucceeded \<Rightarrow> (WPrepared, Ignore)
      | _ \<Rightarrow> request_rejection WPrepared event RejectReadPending)"

definition handle_reading :: "'x writer_event \<Rightarrow> 'x writer_result" where
  "handle_reading event =
     (case event of
        FinalizeRequested \<Rightarrow> (WFinalizing, Admit)
      | LegRequested \<Rightarrow> (WReading, Admit)
      | ReadBeginRequested \<Rightarrow> (WReading, Admit)
      | CheckpointRequested \<Rightarrow> (WReading, Admit)
      | PublishRequested \<Rightarrow> (WReading, Admit)
      | LegSucceeded \<Rightarrow> (WPrepared, Ignore)
      | ReadBeginSucceeded \<Rightarrow> (WReading, Ignore)
      | _ \<Rightarrow> request_rejection WReading event RejectReadPending)"

definition handle_finalizing :: "'x writer_event \<Rightarrow> 'x writer_result" where
  "handle_finalizing event =
     (case event of
        FinalizeSucceeded \<Rightarrow> (WFinalized, Ignore)
      | FinalizeRequested \<Rightarrow> (WFinalizing, Reject RejectFinalizePending)
      | _ \<Rightarrow> if is_result event then (WFinalizing, Ignore) else (WFinalizing, Reject RejectFinalizing))"

definition handle_finalized :: "'x writer_event \<Rightarrow> 'x writer_result" where
  "handle_finalized event = (if is_result event then (WFinalized, Ignore) else (WFinalized, Reject RejectFinalized))"

definition handle_closing :: "'x option \<Rightarrow> bool \<Rightarrow> bool \<Rightarrow> 'x writer_event \<Rightarrow> 'x writer_result" where
  "handle_closing failure drain start_admitted event =
     (case event of
        CloseSucceeded \<Rightarrow> (WClosed failure start_admitted, Ignore)
      | ReadBeginSucceeded \<Rightarrow> (WClosing failure (failure = None) start_admitted, Ignore)
      | _ \<Rightarrow> if is_result event then (WClosing failure drain start_admitted, Ignore)
            else (WClosing failure drain start_admitted, Reject RejectClosed))"

definition handle_close_request :: "'x writer_state \<Rightarrow> 'x writer_result" where
  "handle_close_request state =
     (case state of
        WClosed f a \<Rightarrow> (state, ReuseClose)
      | WClosing f d a \<Rightarrow> (state, ReuseClose)
      | WFailed e \<Rightarrow> (WClosing (Some e) False True, Admit)
      | _ \<Rightarrow> (WClosing None (state \<in> {WReading, WFinalizing, WFinalized}) (state \<noteq> WConstructed), Admit))"

definition handle_healthy :: "'x writer_state \<Rightarrow> 'x writer_event \<Rightarrow> 'x writer_result" where
  "handle_healthy state event =
     (case state of
        WConstructed \<Rightarrow> handle_constructed event
      | WPreparing \<Rightarrow> handle_preparing event
      | WPrepared \<Rightarrow> handle_prepared event
      | WReading \<Rightarrow> handle_reading event
      | WFinalizing \<Rightarrow> handle_finalizing event
      | _ \<Rightarrow> handle_finalized event)"

definition handle_close_failure :: "'x writer_state \<Rightarrow> 'x \<Rightarrow> 'x writer_result" where
  "handle_close_failure state err =
     (WClosed (Some (first_error (failure_of state) err))
        (case state of WClosing f d a \<Rightarrow> a | WClosed f a \<Rightarrow> a | _ \<Rightarrow> state \<noteq> WConstructed),
      Ignore)"

definition handle_command_failure :: "'x writer_state \<Rightarrow> 'x \<Rightarrow> 'x writer_result" where
  "handle_command_failure state err =
     (let failure = first_error (failure_of state) err in
      case state of
        WClosing f d a \<Rightarrow> (WClosing (Some failure) False a, Ignore)
      | WClosed f a \<Rightarrow> (WClosed (Some failure) a, Ignore)
      | _ \<Rightarrow> (WFailed failure, Ignore))"

definition handle_open_state :: "'x writer_state \<Rightarrow> 'x writer_event \<Rightarrow> 'x writer_result" where
  "handle_open_state state event =
     (if event = CloseSucceeded then (state, Ignore)
      else case state of
        WFailed e \<Rightarrow> (state, if is_result event then Ignore else Reject RejectFailed)
      | _ \<Rightarrow> handle_healthy state event)"

fun start_refused :: "'x writer_state \<Rightarrow> bool" where
  "start_refused (WClosing f d a) = (\<not> a)"
| "start_refused (WClosed f a) = (\<not> a)"
| "start_refused _ = False"

definition handle_start_request :: "'x writer_state \<Rightarrow> 'x writer_result" where
  "handle_start_request state =
     (if state = WConstructed then (WPreparing, Admit)
      else if start_refused state then (state, Reject RejectClosed)
      else if failure_of state \<noteq> None then (state, Reject RejectFailed)
      else (state, Ignore))"

definition writer_transition :: "'x writer_state \<Rightarrow> 'x writer_event \<Rightarrow> 'x writer_result" where
  "writer_transition state event =
     (case event of
        StartRequested \<Rightarrow> handle_start_request state
      | CloseRequested \<Rightarrow> handle_close_request state
      | CommandFailed err \<Rightarrow> handle_command_failure state err
      | WriterCloseFailed err \<Rightarrow> handle_close_failure state err
      | _ \<Rightarrow>
          (case state of
             WClosed f a \<Rightarrow> (state, if is_result event then Ignore else Reject RejectClosed)
           | WClosing f d a \<Rightarrow> handle_closing f d a event
           | _ \<Rightarrow> handle_open_state state event))"

text \<open>The reducer as a step function; it raises nothing.\<close>

definition writer_step :: "'x writer_state \<Rightarrow> 'x writer_event \<Rightarrow> (unit, 'x writer_result) result" where
  "writer_step state event = Inr (writer_transition state event)"

lemma writer_step_Inr [simp]: "writer_step s e = Inr r \<longleftrightarrow> writer_transition s e = r"
  by (simp add: writer_step_def)

lemmas writer_handler_defs =
  writer_transition_def handle_start_request_def handle_close_request_def handle_command_failure_def
  handle_close_failure_def handle_open_state_def handle_healthy_def handle_closing_def handle_constructed_def
  handle_preparing_def handle_prepared_def handle_reading_def handle_finalizing_def handle_finalized_def
  request_rejection_def first_error_def

section \<open>The first failure is retained\<close>

fun error_of :: "'x writer_event \<Rightarrow> 'x option" where
  "error_of (CommandFailed e) = Some e"
| "error_of (WriterCloseFailed e) = Some e"
| "error_of _ = None"

fun first_error_of :: "'x writer_event list \<Rightarrow> 'x option" where
  "first_error_of [] = None"
| "first_error_of (e # es) = (case error_of e of None \<Rightarrow> first_error_of es | Some x \<Rightarrow> Some x)"

lemma writer_failure_step:
  "failure_of (fst (writer_transition s e)) = (case failure_of s of None \<Rightarrow> error_of e | Some x \<Rightarrow> Some x)"
  by (cases s; cases e) (auto simp: writer_handler_defs split: option.splits)

lemma writer_failure_run:
  "run writer_step s es = Inr (t, ds) \<Longrightarrow>
     failure_of t = (case failure_of s of None \<Rightarrow> first_error_of es | Some x \<Rightarrow> Some x)"
proof (induction es arbitrary: s ds)
  case (Cons e es)
  then obtain cs where "run writer_step (fst (writer_transition s e)) es = Inr (t, cs)"
    by (auto simp: run_Cons_Inr simp del: run.simps(2))
  from Cons.IH [OF this] show ?case by (auto simp: writer_failure_step split: option.splits)
qed (auto split: option.splits)

section \<open>The order of phases\<close>

fun phase_rank :: "'x writer_state \<Rightarrow> nat" where
  "phase_rank WConstructed = 0"
| "phase_rank WPreparing = 1"
| "phase_rank WPrepared = 2"
| "phase_rank WReading = 2"
| "phase_rank WFinalizing = 3"
| "phase_rank WFinalized = 4"
| "phase_rank (WFailed _) = 5"
| "phase_rank (WClosing _ _ _) = 6"
| "phase_rank (WClosed _ _) = 7"

lemma writer_rank_step: "phase_rank s \<le> phase_rank (fst (writer_transition s e))"
  by (cases s; cases e) (simp_all add: writer_handler_defs)

text \<open>What an admission implies: the phase before and after it.\<close>

definition admission_ok :: "'x writer_state \<Rightarrow> 'x writer_event \<Rightarrow> bool" where
  "admission_ok s e \<longleftrightarrow>
     (case e of
        StartRequested \<Rightarrow> s = WConstructed
      | PublishRequested \<Rightarrow> phase_rank s \<le> 2
      | LegRequested \<Rightarrow> phase_rank s = 2
      | ReadBeginRequested \<Rightarrow> phase_rank s = 2
      | CheckpointRequested \<Rightarrow> s = WReading
      | FinalizeRequested \<Rightarrow> phase_rank s = 2
      | CloseRequested \<Rightarrow> phase_rank s \<le> 5
      | _ \<Rightarrow> False)"

lemma writer_admits: "snd (writer_transition s e) = Admit \<longleftrightarrow> admission_ok s e"
  by (cases s; cases e) (simp_all add: writer_handler_defs admission_ok_def)

lemma writer_advances:
  "snd (writer_transition s e) = Admit \<Longrightarrow>
     (e = StartRequested \<longrightarrow> phase_rank (fst (writer_transition s e)) = 1)
   \<and> (e = FinalizeRequested \<longrightarrow> phase_rank (fst (writer_transition s e)) = 3)
   \<and> (e = CloseRequested \<longrightarrow> phase_rank (fst (writer_transition s e)) = 6)"
  unfolding writer_admits
  by (cases s; cases e) (simp_all add: writer_handler_defs admission_ok_def)


interpretation writer: monotone_machine writer_step "\<lambda>_. True" "\<lambda>s t. phase_rank s \<le> phase_rank t"
  by unfold_locales (auto simp: dest: arg_cong [of _ _ fst] intro: order.trans, metis fst_conv writer_rank_step)

section \<open>Closing\<close>

text \<open>Once a start was admitted it is never reported as refused.\<close>

definition writer_started :: "'x writer_state \<Rightarrow> bool" where
  "writer_started s \<longleftrightarrow> s \<noteq> WConstructed \<and> \<not> start_refused s"

lemma writer_started_step: "writer_started s \<Longrightarrow> writer_started (fst (writer_transition s e))"
  by (cases s; cases e) (simp_all add: writer_handler_defs writer_started_def)

interpretation writer_start: absorbing_machine writer_step writer_started
  by unfold_locales (metis fst_conv writer_started_step writer_step_Inr)

text \<open>Phases that promise data to drain, and closing states that do so in spite of a failure.\<close>

fun expects_data :: "'x writer_state \<Rightarrow> bool" where
  "expects_data WReading = True"
| "expects_data WFinalizing = True"
| "expects_data WFinalized = True"
| "expects_data (WClosing f d a) = d"
| "expects_data _ = False"

fun drain_sound :: "'x writer_state \<Rightarrow> bool" where
  "drain_sound (WClosing f d a) = (d \<longrightarrow> f = None)"
| "drain_sound _ = True"

lemma expects_data_step:
  "expects_data (fst (writer_transition s e)) \<Longrightarrow> expects_data s \<or> e \<in> {ReadBeginSucceeded, FinalizeRequested}"
  by (cases s; cases e) (simp_all add: writer_handler_defs split: if_splits)

lemma drain_sound_step: "drain_sound s \<Longrightarrow> drain_sound (fst (writer_transition s e))"
  by (cases s; cases e) (simp_all add: writer_handler_defs)

interpretation writer_drain: invariant_machine writer_step drain_sound
  by unfold_locales (metis fst_conv drain_sound_step writer_step_Inr)

lemma expects_data_run:
  "run writer_step s es = Inr (t, ds) \<Longrightarrow> expects_data t \<Longrightarrow>
     expects_data s \<or> ReadBeginSucceeded \<in> set es \<or> FinalizeRequested \<in> set es"
proof (induction es arbitrary: s ds)
  case (Cons e es)
  then obtain cs where "run writer_step (fst (writer_transition s e)) es = Inr (t, cs)"
    by (auto simp: run_Cons_Inr simp del: run.simps(2))
  then show ?case using Cons expects_data_step [of s e] by auto
qed simp

section \<open>Properties\<close>

text \<open>
  The writer retains the first failure and nothing else.  After any sequence of events from the
  constructed state, in whatever phase they arrive, the retained failure is the error of the first
  \<open>CommandFailed\<close> or \<open>CloseFailed\<close> event, and there is none if no such event occurred.
\<close>

theorem writer_retains_first_failure:
  assumes "run writer_step WConstructed es = Inr (s, ds)"
  shows "failure_of s = first_error_of es"
  using writer_failure_run [OF assms] by simp

theorem writer_retains_first_failure_witness:
  "\<exists>s ds. run writer_step WConstructed [StartRequested, CommandFailed (1 :: nat), CloseRequested, WriterCloseFailed 2] = Inr (s, ds)
     \<and> failure_of s = Some 1"
proof -
  have r: "run writer_step WConstructed [StartRequested, CommandFailed (1 :: nat), CloseRequested, WriterCloseFailed 2]
      = Inr (WClosed (Some 1) True, [Admit, Ignore, Admit, Ignore])"
    by (simp add: writer_step_def writer_handler_defs)
  then show ?thesis using writer_retains_first_failure [OF r] by simp
qed

text \<open>
  Admissions follow the lifecycle.  If an operation is admitted at position \<open>j\<close> after one admitted at
  position \<open>i\<close>, then it is not a second start, after a finalization it can only be the close, and after a
  close nothing is admitted at all.  So start, finalization and close are each admitted at most once, and
  no data command reaches the target once sealing or closing has been requested.
\<close>

theorem writer_admissions_ordered:
  assumes "run writer_step WConstructed es = Inr (s, ds)" and "i < j" and "j < length ds"
    and "ds ! i = Admit" and "ds ! j = Admit"
  shows "(es ! j = StartRequested \<longrightarrow> es ! i = PublishRequested)
    \<and> (es ! i = FinalizeRequested \<longrightarrow> es ! j = CloseRequested)
    \<and> es ! i \<noteq> CloseRequested"
proof -
  obtain u u' v where ui: "writer_transition u (es ! i) = (u', Admit)" and up: "phase_rank u' \<le> phase_rank v"
    and vj: "snd (writer_transition v (es ! j)) = Admit"
    using writer.run_later [OF _ assms(1-3)] assms(4,5) by auto
  have oki: "admission_ok u (es ! i)" and okj: "admission_ok v (es ! j)"
    using ui vj by (simp_all flip: writer_admits)
  have "phase_rank u \<le> phase_rank u'" using writer_rank_step [of u "es ! i"] ui by simp
  then have "phase_rank v = 0 \<Longrightarrow> es ! i = PublishRequested"
    using up oki writer_advances [of u "es ! i"] ui
    by (cases "es ! i") (auto simp: admission_ok_def)
  then show ?thesis
    using up okj writer_advances [of u "es ! i"] ui
    by (cases "es ! j") (auto simp: admission_ok_def)
qed

theorem writer_admissions_ordered_witness:
  "\<exists>s ds. run writer_step WConstructed [StartRequested, PrepareSucceeded, FinalizeRequested, CloseRequested] = Inr (s :: nat writer_state, ds)
     \<and> ds ! 2 = Admit \<and> ds ! 3 = Admit
     \<and> [StartRequested, PrepareSucceeded, FinalizeRequested, CloseRequested] ! 3 = (CloseRequested :: nat writer_event)"
proof -
  have r: "run writer_step WConstructed [StartRequested, PrepareSucceeded, FinalizeRequested, CloseRequested]
      = Inr (WClosing None True True :: nat writer_state, [Admit, Ignore, Admit, Admit])"
    by (simp add: writer_step_def writer_handler_defs)
  then show ?thesis using writer_admissions_ordered [OF r, of 2 3] by simp
qed

text \<open>
  A closing writer tells the truth about its history.  When the close is asked to drain, there is no
  retained failure and the history has a successful READ_BEGIN or a finalization request, so the target
  holds data.  When a start is refused because the writer was closed before it began, no start had been
  admitted anywhere in the history.
\<close>

theorem writer_close_truthful:
  assumes "run writer_step WConstructed es = Inr (s, ds)"
  shows "(\<forall>f a. s = WClosing f True a \<longrightarrow>
        f = None \<and> (ReadBeginSucceeded \<in> set es \<or> FinalizeRequested \<in> set es))
    \<and> (snd (writer_transition s StartRequested) = Reject RejectClosed \<longrightarrow>
        (\<forall>i < length ds. es ! i = StartRequested \<longrightarrow> ds ! i \<noteq> Admit))"
proof (intro conjI allI impI)
  fix f a assume s: "s = WClosing f True a"
  have "drain_sound s" using writer_drain.run_inv [OF _ assms] by simp
  then show "f = None" using s by simp
  show "ReadBeginSucceeded \<in> set es \<or> FinalizeRequested \<in> set es"
    using expects_data_run [OF assms] s by simp
next
  fix i assume rej: "snd (writer_transition s StartRequested) = Reject RejectClosed"
    and i: "i < length ds" and ei: "es ! i = StartRequested"
  show "ds ! i \<noteq> Admit"
  proof
    assume "ds ! i = Admit"
    then obtain u v where uv: "writer_transition u StartRequested = (v, Admit)"
      and rest: "run writer_step v (drop (Suc i) es) = Inr (s, drop (Suc i) ds)"
      using run_nth [OF assms i] ei by auto
    from uv have "v = WPreparing" by (auto simp: writer_transition_def handle_start_request_def split: if_splits)
    then have "writer_started s"
      using writer_start.absorbed.run_inv [OF _ rest] by (simp add: writer_started_def)
    then show False
      using rej by (auto simp: writer_transition_def handle_start_request_def writer_started_def split: if_splits)
  qed
qed

theorem writer_close_truthful_witness:
  "\<exists>ds. run writer_step WConstructed [PublishRequested, CloseRequested] = Inr (WClosing None False False :: nat writer_state, ds)
     \<and> (\<forall>i < length ds. [PublishRequested, CloseRequested] ! i = (StartRequested :: nat writer_event) \<longrightarrow> ds ! i \<noteq> Admit)"
proof -
  have r: "run writer_step WConstructed [PublishRequested, CloseRequested]
      = Inr (WClosing None False False :: nat writer_state, [Admit, Admit])"
    by (simp add: writer_step_def writer_handler_defs)
  have "snd (writer_transition (WClosing None False False :: nat writer_state) StartRequested) = Reject RejectClosed"
    by (simp add: writer_handler_defs)
  then show ?thesis using r writer_close_truthful [OF r] by blast
qed

end
