(* ===== verification/Internal_Audio_Machine.thy ===== *)
theory Internal_Audio_Machine
  imports Prelude
begin

text \<open>
  The lifecycle of one internal capture source (\<open>domain/internal_audio_machine.py\<close>, first part) and the
  coverage decision built on it (\<open>domain/coverage_decision.py\<close>).

  The phase \<open>None\<close> is a source that does not exist.  The reducer never raises; a refused event is a
  decision with the action \<open>REFUSE\<close>.  Each event carries the guards its caller has evaluated, with the
  arguments in the order of the source's fields.
\<close>

section \<open>Data\<close>

datatype audio_phase =
    PREPARED | LEG_PREPARED | RECEIVING | INTERRUPTED | SEALED_WAITING | BLOCKED | COVERED | RETIRING

datatype audio_action = PERSIST | IDEMPOTENT | COMMIT_BARRIER | INSPECT_ONLY | RETIRE | REFUSE | BLOCK

datatype audio_event =
    Create
  | PrepareLeg (leg_bounded: bool) (leg_exact_identity: bool) (leg_barrier_committed: bool)
  | ReadBegin (begin_matching: bool) (begin_duplicate: bool)
  | Data (data_matching: bool) (data_replay: bool) (data_evidence_retained: bool)
  | Barrier
  | Done (done_validated: bool) (done_authenticated_prefix: bool) (done_exact_identity: bool)
  | TerminalPrefix (prefix_authenticated: bool)
  | Interruption
  | AuthenticatedConflict (conflict_authenticated: bool)
  | SourceIntegrityHold
  | ReadyCustody (custody_proved: bool) (certified_quarantine_prefix: bool)
  | BeginRetirement
  | RetirementStep (step_custody_proved: bool) (step_final: bool)
  | Ack

record audio_decision =
  next_phase :: "audio_phase option"
  audio_act :: audio_action
  audio_reason :: string

definition decide :: "audio_phase option \<Rightarrow> audio_action \<Rightarrow> string \<Rightarrow> audio_decision" where
  "decide p a r = \<lparr>next_phase = p, audio_act = a, audio_reason = r\<rparr>"

lemma decide_simps [simp]: "next_phase (decide p a r) = p" "audio_act (decide p a r) = a"
  by (simp_all add: decide_def)

section \<open>Handlers\<close>

definition audio_refuse :: "audio_phase option \<Rightarrow> string \<Rightarrow> audio_decision" where
  "audio_refuse phase reason = decide phase REFUSE reason"

definition on_prepare_leg :: "audio_phase option \<Rightarrow> bool \<Rightarrow> bool \<Rightarrow> bool \<Rightarrow> audio_decision" where
  "on_prepare_leg phase bounded exact_identity barrier_committed =
     (if \<not> bounded then audio_refuse phase ''leg is outside the immutable source bounds''
      else if phase = Some PREPARED then decide (Some LEG_PREPARED) PERSIST ''bounded leg prepared''
      else if phase = Some INTERRUPTED then decide (Some LEG_PREPARED) PERSIST ''recovery leg prepared''
      else if phase = Some LEG_PREPARED \<and> exact_identity
      then decide (Some LEG_PREPARED) IDEMPOTENT ''same leg already prepared''
      else if phase = Some RECEIVING \<and> barrier_committed
      then decide (Some LEG_PREPARED) COMMIT_BARRIER ''barrier then prepare leg''
      else audio_refuse phase ''PREPARE_LEG is not valid for this source phase'')"

definition on_barrier :: "audio_phase option \<Rightarrow> audio_decision" where
  "on_barrier phase =
     (if phase = Some PREPARED then decide (Some PREPARED) PERSIST ''durable zero prefix''
      else if phase \<in> {Some LEG_PREPARED, Some RECEIVING, Some INTERRUPTED}
      then decide phase COMMIT_BARRIER ''frontier barrier committed''
      else if phase \<in> {Some SEALED_WAITING, Some BLOCKED}
      then decide phase INSPECT_ONLY ''barrier is inspection only''
      else audio_refuse phase ''barrier is not valid after source coverage'')"

definition on_done :: "audio_phase option \<Rightarrow> bool \<Rightarrow> bool \<Rightarrow> bool \<Rightarrow> audio_decision" where
  "on_done phase validated authenticated_prefix exact_identity =
     (if phase \<in> {Some RECEIVING, Some INTERRUPTED} \<and> validated \<and> authenticated_prefix
      then decide (Some SEALED_WAITING) PERSIST ''authenticated source sealed''
      else if phase = Some SEALED_WAITING \<and> validated \<and> authenticated_prefix \<and> exact_identity
      then decide (Some SEALED_WAITING) IDEMPOTENT ''seal already recorded''
      else audio_refuse phase ''DONE lacks a validated authenticated prefix'')"

definition on_terminal_prefix :: "audio_phase option \<Rightarrow> bool \<Rightarrow> audio_decision" where
  "on_terminal_prefix phase authenticated =
     (if authenticated \<and> phase \<in> {Some PREPARED, Some LEG_PREPARED, Some RECEIVING, Some INTERRUPTED}
      then decide (Some SEALED_WAITING) PERSIST ''authenticated terminal prefix sealed''
      else if authenticated \<and> phase = Some SEALED_WAITING
      then decide (Some SEALED_WAITING) IDEMPOTENT ''terminal prefix already sealed''
      else audio_refuse phase ''terminal prefix is unauthenticated or source phase is invalid'')"

definition on_create :: "audio_phase option \<Rightarrow> audio_decision" where
  "on_create phase =
     (if phase = None then decide (Some PREPARED) PERSIST ''source created''
      else audio_refuse phase ''source already exists'')"

definition on_read_begin :: "audio_phase option \<Rightarrow> bool \<Rightarrow> bool \<Rightarrow> audio_decision" where
  "on_read_begin phase matching duplicate =
     (if phase = Some LEG_PREPARED \<and> matching then decide (Some RECEIVING) PERSIST ''READ_BEGIN bound''
      else if phase = Some RECEIVING \<and> matching \<and> duplicate
      then decide (Some RECEIVING) IDEMPOTENT ''READ_BEGIN replay''
      else audio_refuse phase ''READ_BEGIN is not a matching permitted leg binding'')"

definition on_data :: "audio_phase option \<Rightarrow> bool \<Rightarrow> bool \<Rightarrow> bool \<Rightarrow> audio_decision" where
  "on_data phase matching replay evidence_retained =
     (if phase = Some RECEIVING \<and> matching
      then decide (Some RECEIVING) (if replay then IDEMPOTENT else PERSIST) ''record data accepted''
      else if phase \<in> {Some PREPARED, Some LEG_PREPARED, Some RECEIVING, Some INTERRUPTED}
              \<and> \<not> matching \<and> evidence_retained
      then decide (Some BLOCKED) BLOCK ''record conflict retained''
      else audio_refuse phase ''record data requires a matching active READ_BEGIN'')"

definition on_interruption :: "audio_phase option \<Rightarrow> audio_decision" where
  "on_interruption phase =
     (if phase \<in> {Some PREPARED, Some LEG_PREPARED, Some RECEIVING}
      then decide (Some INTERRUPTED) PERSIST ''transfer interrupted''
      else if phase = Some INTERRUPTED then decide (Some INTERRUPTED) IDEMPOTENT ''interruption already recorded''
      else if phase \<in> {Some SEALED_WAITING, Some BLOCKED}
      then decide phase INSPECT_ONLY ''terminal phase is unchanged''
      else audio_refuse phase ''interruption requires receiving audio'')"

definition on_conflict :: "audio_phase option \<Rightarrow> bool \<Rightarrow> audio_decision" where
  "on_conflict phase authenticated =
     (if \<not> authenticated then audio_refuse phase ''conflict lacks authenticated rejected evidence''
      else if phase \<in> {Some PREPARED, Some LEG_PREPARED, Some RECEIVING, Some INTERRUPTED, Some SEALED_WAITING, Some BLOCKED}
      then decide (Some BLOCKED) BLOCK ''authenticated conflict retained''
      else audio_refuse phase ''covered source cannot accept conflict evidence'')"

definition on_source_integrity_hold :: "audio_phase option \<Rightarrow> audio_decision" where
  "on_source_integrity_hold phase =
     (if phase \<in> {Some BLOCKED, Some COVERED, Some RETIRING}
      then decide (Some BLOCKED) BLOCK ''source integrity mismatch retained''
      else audio_refuse phase ''integrity hold requires quarantine custody'')"

definition on_ready_custody :: "audio_phase option \<Rightarrow> bool \<Rightarrow> bool \<Rightarrow> audio_decision" where
  "on_ready_custody phase proved certified =
     (if proved \<and> (phase = Some SEALED_WAITING \<or> phase = Some BLOCKED \<and> certified)
      then decide (Some COVERED) RETIRE ''ready custody covers source''
      else if phase = Some COVERED \<and> proved
      then decide (Some COVERED) IDEMPOTENT ''ready custody already recorded''
      else audio_refuse phase ''full ready custody is not valid for this source'')"

definition on_begin_retirement :: "audio_phase option \<Rightarrow> audio_decision" where
  "on_begin_retirement phase =
     (if phase = Some COVERED then decide (Some RETIRING) RETIRE ''retirement cursor started''
      else audio_refuse phase ''retirement requires covered source'')"

definition on_retirement_step :: "audio_phase option \<Rightarrow> bool \<Rightarrow> bool \<Rightarrow> audio_decision" where
  "on_retirement_step phase proved final =
     (if phase = Some RETIRING \<and> proved
      then decide (if final then None else Some RETIRING) RETIRE ''retirement cursor advanced''
      else audio_refuse phase ''retirement requires current custody proof'')"

definition on_ack :: "audio_phase option \<Rightarrow> audio_decision" where
  "on_ack phase = audio_refuse phase ''ACK cannot change internal source lifecycle''"

fun audio_transition :: "audio_phase option \<Rightarrow> audio_event \<Rightarrow> audio_decision" where
  "audio_transition phase Create = on_create phase"
| "audio_transition phase (PrepareLeg b i c) = on_prepare_leg phase b i c"
| "audio_transition phase (ReadBegin m d) = on_read_begin phase m d"
| "audio_transition phase (Data m r v) = on_data phase m r v"
| "audio_transition phase Barrier = on_barrier phase"
| "audio_transition phase (Done v a i) = on_done phase v a i"
| "audio_transition phase (TerminalPrefix a) = on_terminal_prefix phase a"
| "audio_transition phase Interruption = on_interruption phase"
| "audio_transition phase (AuthenticatedConflict a) = on_conflict phase a"
| "audio_transition phase SourceIntegrityHold = on_source_integrity_hold phase"
| "audio_transition phase (ReadyCustody p c) = on_ready_custody phase p c"
| "audio_transition phase BeginRetirement = on_begin_retirement phase"
| "audio_transition phase (RetirementStep p f) = on_retirement_step phase p f"
| "audio_transition phase Ack = on_ack phase"

lemmas audio_handler_defs =
  on_create_def on_prepare_leg_def on_read_begin_def on_data_def on_barrier_def on_done_def on_terminal_prefix_def
  on_interruption_def on_conflict_def on_source_integrity_hold_def on_ready_custody_def on_begin_retirement_def
  on_retirement_step_def on_ack_def audio_refuse_def

section \<open>Coverage decision\<close>

datatype coverage_error = CoverageDecisionError string | UnknownLifecycle

definition audio_phase_values :: "(string \<times> audio_phase) list" where
  "audio_phase_values =
     [(''prepared'', PREPARED), (''leg_prepared'', LEG_PREPARED), (''receiving'', RECEIVING),
      (''interrupted'', INTERRUPTED), (''sealed_waiting'', SEALED_WAITING), (''blocked'', BLOCKED),
      (''covered'', COVERED), (''retiring'', RETIRING)]"

text \<open>\<open>AudioPhase(lifecycle)\<close>: a value outside the enumeration is Python's \<open>ValueError\<close>.\<close>

definition parse_audio_phase :: "string \<Rightarrow> (coverage_error, audio_phase) result" where
  "parse_audio_phase lifecycle =
     (case map_of audio_phase_values lifecycle of None \<Rightarrow> Inl UnknownLifecycle | Some p \<Rightarrow> Inr p)"

definition decide_coverage :: "string \<Rightarrow> int \<Rightarrow> int \<Rightarrow> (coverage_error, audio_phase \<times> int option) result" where
  "decide_coverage lifecycle admitted_count committed_count =
     (let full = (admitted_count = committed_count) in
      if \<not> full \<and> lifecycle \<noteq> ''blocked''
      then Inl (CoverageDecisionError ''only a certified blocked prefix may retain uncovered source rows'')
      else bind_result (parse_audio_phase lifecycle) (\<lambda>phase.
        let d = audio_transition (Some phase) (ReadyCustody True (lifecycle = ''blocked'')) in
        if audio_act d \<noteq> RETIRE \<or> next_phase d \<noteq> Some COVERED
        then Inl (CoverageDecisionError ''capture source FSM refused ReadyCustody'')
        else if \<not> full then Inr (COVERED, None)
        else let d' = audio_transition (Some COVERED) BeginRetirement in
          if audio_act d' \<noteq> RETIRE \<or> next_phase d' \<noteq> Some RETIRING
          then Inl (CoverageDecisionError ''capture source FSM refused BeginRetirement'')
          else Inr (RETIRING, Some 0)))"

section \<open>Histories\<close>

definition audio_step :: "audio_phase option \<Rightarrow> audio_event \<Rightarrow> (unit, audio_phase option \<times> audio_decision) result" where
  "audio_step phase event = (let d = audio_transition phase event in Inr (next_phase d, d))"

lemma audio_step_Inr [simp]: "audio_step p e = Inr (q, d) \<longleftrightarrow> d = audio_transition p e \<and> q = next_phase d"
  by (auto simp: audio_step_def Let_def)

text \<open>
  A trace pairs each event with its decision.  \<open>covered_since\<close> says that the source came under ready
  custody and has not left it since; \<open>retiring_since\<close> that its retirement was started after that.
\<close>

definition under_custody :: "audio_event \<times> audio_decision \<Rightarrow> bool" where
  "under_custody z \<longleftrightarrow> next_phase (snd z) \<in> {Some COVERED, Some RETIRING}"

definition custody_entry :: "audio_event \<times> audio_decision \<Rightarrow> bool" where
  "custody_entry z \<longleftrightarrow> (\<exists>c. fst z = ReadyCustody True c) \<and> audio_act (snd z) = RETIRE"

definition covered_since :: "(audio_event \<times> audio_decision) list \<Rightarrow> bool" where
  "covered_since = since custody_entry under_custody"

definition receiving_since :: "(audio_event \<times> audio_decision) list \<Rightarrow> bool" where
  "receiving_since =
     since (\<lambda>(e, d). (\<exists>dup. e = ReadBegin True dup) \<and> audio_act d = PERSIST) (\<lambda>(e, d). next_phase d = Some RECEIVING)"

definition retiring_since :: "(audio_event \<times> audio_decision) list \<Rightarrow> bool" where
  "retiring_since tr \<longleftrightarrow>
     (\<exists>xs ys. tr = xs @ ys \<and> covered_since xs \<and> (\<forall>z \<in> set ys. under_custody z)
        \<and> (\<exists>g. (BeginRetirement, g) \<in> set ys \<and> audio_act g = RETIRE))"

lemma covered_entry:
  "next_phase (audio_transition p e) = Some COVERED \<Longrightarrow>
     p = Some COVERED \<or> (\<exists>c. e = ReadyCustody True c \<and> audio_act (audio_transition p e) = RETIRE)"
  by (cases e) (auto simp: audio_handler_defs split: if_splits)

lemma retiring_entry:
  "next_phase (audio_transition p e) = Some RETIRING \<Longrightarrow>
     p = Some RETIRING \<or> p = Some COVERED \<and> e = BeginRetirement \<and> audio_act (audio_transition p e) = RETIRE"
  by (cases e) (auto simp: audio_handler_defs split: if_splits)

lemma absent_entry:
  "next_phase (audio_transition (Some p) e) = None \<Longrightarrow> p = RETIRING \<and> e = RetirementStep True True"
  by (cases e) (auto simp: audio_handler_defs split: if_splits)

lemma receiving_entry:
  "next_phase (audio_transition p e) = Some RECEIVING \<Longrightarrow>
     p = Some RECEIVING \<or> (\<exists>dup. e = ReadBegin True dup) \<and> audio_act (audio_transition p e) = PERSIST"
  by (cases e) (auto simp: audio_handler_defs split: if_splits)

lemma retiring_since_snoc:
  assumes "retiring_since tr" and "under_custody z"
  shows "retiring_since (tr @ [z])"
proof -
  obtain xs ys g where "tr = xs @ ys" "covered_since xs" "\<forall>z \<in> set ys. under_custody z" "(BeginRetirement, g) \<in> set ys" "audio_act g = RETIRE"
    using assms(1) unfolding retiring_since_def by blast
  then show ?thesis
    unfolding retiring_since_def using assms(2) by (intro exI [of _ xs] exI [of _ "ys @ [z]"]) auto
qed

lemma retiring_since_new:
  assumes "covered_since tr" and "audio_act g = RETIRE" and "under_custody (BeginRetirement, g)"
  shows "retiring_since (tr @ [(BeginRetirement, g)])"
  unfolding retiring_since_def using assms by (intro exI [of _ tr] exI [of _ "[(BeginRetirement, g)]"]) auto

lemma custody_run:
  "run audio_step None es = Inr (p, ds) \<Longrightarrow>
     (p = Some COVERED \<longrightarrow> covered_since (zip es ds)) \<and> (p = Some RETIRING \<longrightarrow> retiring_since (zip es ds))
     \<and> (p = Some RECEIVING \<longrightarrow> receiving_since (zip es ds))"
proof (induction es arbitrary: p ds rule: rev_induct)
  case (snoc e es)
  then obtain q cs where q: "run audio_step None es = Inr (q, cs)" and p: "p = next_phase (audio_transition q e)"
    and ds: "ds = cs @ [audio_transition q e]"
    by (auto simp: run_snoc_Inr)
  have zip: "zip (es @ [e]) ds = zip es cs @ [(e, audio_transition q e)]"
    using run_length [OF q] by (simp add: ds)
  note ih = snoc.IH [OF q]
  have "covered_since (zip (es @ [e]) ds)" if "p = Some COVERED"
    using that ih covered_entry [of q e] unfolding zip p
    by (auto simp: covered_since_def custody_entry_def under_custody_def intro: since_new since_snoc)
  moreover have "retiring_since (zip (es @ [e]) ds)" if "p = Some RETIRING"
    using that ih retiring_entry [of q e] unfolding zip p
    by (auto simp: under_custody_def intro: retiring_since_snoc retiring_since_new)
  moreover have "receiving_since (zip (es @ [e]) ds)" if "p = Some RECEIVING"
    using that ih receiving_entry [of q e] unfolding zip p
    by (auto simp: receiving_since_def intro: since_new since_snoc)
  ultimately show ?case by blast
qed simp

section \<open>Sealed sources\<close>

definition sealed_phase :: "audio_phase \<Rightarrow> bool" where
  "sealed_phase p \<longleftrightarrow> p \<in> {SEALED_WAITING, BLOCKED, COVERED, RETIRING}"

lemma sealed_step:
  assumes "sealed_phase p"
  shows "audio_act (audio_transition (Some p) e) \<notin> {PERSIST, COMMIT_BARRIER}
    \<and> (\<forall>q. next_phase (audio_transition (Some p) e) = Some q \<longrightarrow> sealed_phase q)"
  using assms by (cases p; cases e) (auto simp: sealed_phase_def audio_handler_defs)

lemma sealed_run:
  assumes "sealed_phase p" and "run audio_step (Some p) es = Inr (q, ds)" and "i < length ds"
    and "\<forall>j < i. next_phase (ds ! j) \<noteq> None"
  shows "audio_act (ds ! i) \<notin> {PERSIST, COMMIT_BARRIER}"
  using assms
proof (induction es arbitrary: p ds i)
  case (Cons e es)
  let ?d = "audio_transition (Some p) e"
  obtain cs where rest: "run audio_step (next_phase ?d) es = Inr (q, cs)" and ds: "ds = ?d # cs"
    using Cons.prems(2) by (auto simp: run_Cons_Inr simp del: run.simps(2))
  show ?case
  proof (cases i)
    case (Suc k)
    then obtain r where r: "next_phase ?d = Some r" using Cons.prems(4) ds by force
    then have "sealed_phase r" using sealed_step [OF Cons.prems(1)] by blast
    moreover have "\<forall>j < k. next_phase (cs ! j) \<noteq> None" using Cons.prems(4) Suc ds by force
    ultimately show ?thesis using Cons.IH [of r cs k] rest r ds Suc Cons.prems(3) by simp
  qed (use sealed_step [OF Cons.prems(1)] ds in simp)
qed simp

section \<open>Properties\<close>

text \<open>
  C20: a captured source is deleted only under proved ready custody.  Take any history of a source from
  before its creation.  If an event makes an existing source disappear, then it is the final retirement
  step with a current custody proof on a retiring source; before it the history has a \<open>ReadyCustody\<close> event
  with proof that was accepted, then an accepted \<open>BeginRetirement\<close>, and from the first of them on the
  source was covered or retiring without interruption.
\<close>

theorem source_removed_only_under_custody:
  assumes "run audio_step None es = Inr (Some p, ds)" and "next_phase (audio_transition (Some p) e) = None"
  shows "p = RETIRING \<and> e = RetirementStep True True \<and> retiring_since (zip es ds)"
  using custody_run [OF assms(1)] absent_entry [OF assms(2)] by simp

theorem source_removed_only_under_custody_witness:
  "\<exists>ds. run audio_step None [Create, TerminalPrefix True, ReadyCustody True False, BeginRetirement] = Inr (Some RETIRING, ds)
     \<and> next_phase (audio_transition (Some RETIRING) (RetirementStep True True)) = None
     \<and> retiring_since (zip [Create, TerminalPrefix True, ReadyCustody True False, BeginRetirement] ds)"
proof -
  obtain ds where r: "run audio_step None [Create, TerminalPrefix True, ReadyCustody True False, BeginRetirement] = Inr (Some RETIRING, ds)"
    by (simp add: audio_step_def audio_handler_defs Let_def)
  have n: "next_phase (audio_transition (Some RETIRING) (RetirementStep True True)) = None"
    by (simp add: audio_handler_defs)
  show ?thesis using r n source_removed_only_under_custody [OF r n] by blast
qed

text \<open>
  Record bytes are written only between a bound READ_BEGIN and the seal.  If a \<open>Data\<close> event is decided
  as \<open>PERSIST\<close>, then the history has an accepted matching READ_BEGIN and the source has been receiving ever
  since.  And once a source is sealed, blocked, covered or retiring, no event is decided as a write of
  capture state until the source has been removed.
\<close>

theorem record_writes_bracketed:
  assumes "run audio_step None es = Inr (p, ds)"
  shows "(\<forall>m r v. audio_act (audio_transition p (Data m r v)) = PERSIST \<longrightarrow> receiving_since (zip es ds))
    \<and> (\<forall>q fs t cs i. p = Some q \<longrightarrow> sealed_phase q \<longrightarrow> run audio_step p fs = Inr (t, cs) \<longrightarrow> i < length cs \<longrightarrow>
         (\<forall>j < i. next_phase (cs ! j) \<noteq> None) \<longrightarrow> audio_act (cs ! i) \<notin> {PERSIST, COMMIT_BARRIER})"
proof -
  have "p = Some RECEIVING" if "audio_act (audio_transition p (Data m r v)) = PERSIST" for m r v
    using that by (auto simp: audio_handler_defs split: if_splits)
  then show ?thesis using custody_run [OF assms] sealed_run by blast
qed

theorem record_writes_bracketed_witness:
  "\<exists>ds. run audio_step None [Create, PrepareLeg True False False, ReadBegin True False] = Inr (Some RECEIVING, ds)
     \<and> audio_act (audio_transition (Some RECEIVING) (Data True False True)) = PERSIST
     \<and> receiving_since (zip [Create, PrepareLeg True False False, ReadBegin True False] ds)"
proof -
  obtain ds where r: "run audio_step None [Create, PrepareLeg True False False, ReadBegin True False] = Inr (Some RECEIVING, ds)"
    by (simp add: audio_step_def audio_handler_defs Let_def)
  have n: "audio_act (audio_transition (Some RECEIVING) (Data True False True)) = PERSIST"
    by (simp add: audio_handler_defs)
  show ?thesis using r n record_writes_bracketed [OF r] by blast
qed

lemma ready_custody_covers:
  "audio_act (on_ready_custody (Some q) True c) = RETIRE \<and> next_phase (on_ready_custody (Some q) True c) = Some COVERED
     \<longleftrightarrow> q = SEALED_WAITING \<or> q = BLOCKED \<and> c"
  by (auto simp: on_ready_custody_def audio_refuse_def)

lemma parse_audio_phase_known:
  "parse_audio_phase ''sealed_waiting'' = Inr SEALED_WAITING" "parse_audio_phase ''blocked'' = Inr BLOCKED"
  by (simp_all add: parse_audio_phase_def audio_phase_values_def)

lemma parse_audio_phase_only:
  "parse_audio_phase x = Inr SEALED_WAITING \<longleftrightarrow> x = ''sealed_waiting''"
  "parse_audio_phase x = Inr BLOCKED \<longleftrightarrow> x = ''blocked''"
  by (auto simp: parse_audio_phase_def audio_phase_values_def split: if_splits option.splits)

lemma decide_coverage_cases:
  "decide_coverage x a c =
     (if a \<noteq> c \<and> x \<noteq> ''blocked''
      then Inl (CoverageDecisionError ''only a certified blocked prefix may retain uncovered source rows'')
      else if x = ''blocked'' \<and> a \<noteq> c then Inr (COVERED, None)
      else if x = ''sealed_waiting'' \<or> x = ''blocked'' then Inr (RETIRING, Some 0)
      else case parse_audio_phase x of
        Inl e \<Rightarrow> Inl e
      | Inr _ \<Rightarrow> Inl (CoverageDecisionError ''capture source FSM refused ReadyCustody''))"
proof -
  have start: "audio_act (on_begin_retirement (Some COVERED)) = RETIRE" "next_phase (on_begin_retirement (Some COVERED)) = Some RETIRING"
    by (simp_all add: on_begin_retirement_def)
  have custody: "audio_act (on_ready_custody (Some q) True b) = RETIRE \<longrightarrow> next_phase (on_ready_custody (Some q) True b) \<noteq> Some COVERED"
    if "q \<noteq> SEALED_WAITING" "q \<noteq> BLOCKED" for q b
    using ready_custody_covers [of q b] that by blast
  consider "x = ''blocked''" | "x = ''sealed_waiting''" | "x \<noteq> ''blocked''" "x \<noteq> ''sealed_waiting''" by blast
  then show ?thesis
  proof cases
    case 1
    then show ?thesis
      using ready_custody_covers [of BLOCKED True]
      by (simp add: decide_coverage_def parse_audio_phase_known start Let_def)
  next
    case 2
    then show ?thesis
      using ready_custody_covers [of SEALED_WAITING False]
      by (simp add: decide_coverage_def parse_audio_phase_known start Let_def)
  next
    case 3
    then have "parse_audio_phase x \<noteq> Inr SEALED_WAITING" "parse_audio_phase x \<noteq> Inr BLOCKED"
      by (simp_all add: parse_audio_phase_only)
    then show ?thesis
      using 3 custody by (cases "parse_audio_phase x") (auto simp: decide_coverage_def Let_def)
  qed
qed

text \<open>
  The coverage decision is exact.  A source starts retirement at cursor 0 exactly when all committed
  rows are admitted and its lifecycle is sealed or blocked; it is covered with its rest retained exactly
  when only a part is admitted and it is blocked; it is refused with the error of the decision in every
  other case, except that an unknown lifecycle string is a \<open>ValueError\<close> when the counts agree.
\<close>

theorem coverage_decision_exact:
  "(decide_coverage x a c = Inr (RETIRING, Some 0) \<longleftrightarrow> a = c \<and> (x = ''sealed_waiting'' \<or> x = ''blocked''))
   \<and> (decide_coverage x a c = Inr (COVERED, None) \<longleftrightarrow> a \<noteq> c \<and> x = ''blocked'')
   \<and> (decide_coverage x a c = Inl UnknownLifecycle \<longleftrightarrow> a = c \<and> map_of audio_phase_values x = None)
   \<and> (decide_coverage x a c \<in> {Inr (RETIRING, Some 0), Inr (COVERED, None), Inl UnknownLifecycle}
        \<or> (\<exists>m. decide_coverage x a c = Inl (CoverageDecisionError m)))"
  unfolding decide_coverage_cases
  by (cases "x = ''blocked'' \<or> x = ''sealed_waiting''")
    (auto simp: parse_audio_phase_def audio_phase_values_def split: option.split)

end
