(* ===== verification/Internal_Audio_Cohorts.thy ===== *)
theory Internal_Audio_Cohorts
  imports Internal_Audio_Machine
begin

text \<open>
  Publication cohorts and quarantine evidence (\<open>domain/internal_audio_machine.py\<close>, second part) and the
  classification of an authenticated conflict (\<open>domain/quarantine_disposition.py\<close>).  The phase \<open>None\<close> is
  what the code calls an unsupported phase: a retired cohort, to which every event is refused.
\<close>

section \<open>Cohorts\<close>

datatype cohort_phase = UNQUALIFIED | ACCEPTED | STAGING | COMPLETE

datatype cohort_action =
    CohortWait | CohortAccept | CohortStage | CohortReconcile | CohortCommit | CohortRetire | CohortBlock | CohortRefuse

datatype cohort_event =
    QualifiedDrained bool
  | Stage bool
  | OwnedIncompleteRetry bool
  | DurableDestination bool bool
  | CompleteRetire bool
  | ExistingReadyCustody bool bool
  | CohortConflict bool

record cohort_decision =
  cohort_next :: "cohort_phase option"
  cohort_act :: cohort_action
  cohort_reason :: string

definition cohort_decide :: "cohort_phase option \<Rightarrow> cohort_action \<Rightarrow> string \<Rightarrow> cohort_decision" where
  "cohort_decide p a r = \<lparr>cohort_next = p, cohort_act = a, cohort_reason = r\<rparr>"

lemma cohort_decide_simps [simp]: "cohort_next (cohort_decide p a r) = p" "cohort_act (cohort_decide p a r) = a"
  by (simp_all add: cohort_decide_def)

definition cohort_refused :: "cohort_phase \<Rightarrow> cohort_decision" where
  "cohort_refused phase = cohort_decide (Some phase) CohortRefuse ''cohort event is invalid for this phase''"

definition cohort_transition :: "cohort_phase option \<Rightarrow> cohort_event \<Rightarrow> cohort_decision" where
  "cohort_transition phase event =
     (case phase of
        None \<Rightarrow> cohort_decide None CohortRefuse ''unsupported cohort phase''
      | Some p \<Rightarrow>
          (case event of
             QualifiedDrained qualified \<Rightarrow>
               if p = UNQUALIFIED
               then (if qualified then cohort_decide (Some ACCEPTED) CohortAccept ''cohort permit persisted''
                     else cohort_decide (Some UNQUALIFIED) CohortWait ''drained threshold is not qualified'')
               else cohort_refused p
           | Stage next_group \<Rightarrow>
               if p = ACCEPTED \<and> next_group then cohort_decide (Some STAGING) CohortStage ''accepted group staged''
               else cohort_refused p
           | OwnedIncompleteRetry owned \<Rightarrow>
               if p = STAGING \<and> owned then cohort_decide (Some STAGING) CohortReconcile ''owned stage reconciled''
               else cohort_refused p
           | DurableDestination durable cohort_complete \<Rightarrow>
               if p = STAGING \<and> durable
               then cohort_decide (Some (if cohort_complete then COMPLETE else ACCEPTED)) CohortCommit ''durable destination committed''
               else cohort_refused p
           | ExistingReadyCustody proved_progress cohort_complete \<Rightarrow>
               if p = ACCEPTED \<and> proved_progress
               then cohort_decide (Some (if cohort_complete then COMPLETE else ACCEPTED)) CohortCommit ''existing ready custody advanced cohort''
               else cohort_refused p
           | CohortConflict accepted_remainder \<Rightarrow>
               if p = ACCEPTED
               then cohort_decide (if accepted_remainder then Some ACCEPTED else None) CohortBlock ''custody conflict excluded from accepted cohort''
               else cohort_refused p
           | CompleteRetire all_coverage_proved \<Rightarrow>
               if p = COMPLETE \<and> all_coverage_proved then cohort_decide None CohortRetire ''cohort coverage retired''
               else cohort_refused p))"

definition cohort_step :: "cohort_phase option \<Rightarrow> cohort_event \<Rightarrow> (unit, cohort_phase option \<times> cohort_decision) result" where
  "cohort_step phase event = (let d = cohort_transition phase event in Inr (cohort_next d, d))"

lemma cohort_step_Inr [simp]: "cohort_step p e = Inr (q, d) \<longleftrightarrow> d = cohort_transition p e \<and> q = cohort_next d"
  by (auto simp: cohort_step_def Let_def)

section \<open>Quarantine\<close>

datatype quarantine_disposition = UNCLASSIFIED | PUBLISHED_PREFIX | UNPROCESSABLE

datatype quarantine_act = PublishPrefix | MarkedUnprocessable | Keep | RetireEvidence | RefuseQuarantine

datatype quarantine_event =
    CertifiedPrefix bool bool
  | MarkUnprocessable string bool
  | QuarantineOpened int bool
  | ResidualExpiry bool bool
  | CanonicalExpiry audio_phase bool bool bool

record quarantine_decision =
  next_disposition :: "quarantine_disposition option"
  quarantine_action :: quarantine_act
  quarantine_reason :: string

definition quarantine_decide :: "quarantine_disposition option \<Rightarrow> quarantine_act \<Rightarrow> string \<Rightarrow> quarantine_decision" where
  "quarantine_decide p a r = \<lparr>next_disposition = p, quarantine_action = a, quarantine_reason = r\<rparr>"

lemma quarantine_decide_simps [simp]:
  "next_disposition (quarantine_decide p a r) = p" "quarantine_action (quarantine_decide p a r) = a"
  by (simp_all add: quarantine_decide_def)

definition quarantine_refuse :: "quarantine_disposition \<Rightarrow> quarantine_decision" where
  "quarantine_refuse d = quarantine_decide (Some d) RefuseQuarantine ''quarantine event is invalid for this disposition''"

definition quarantine_opened :: "quarantine_disposition \<Rightarrow> int \<Rightarrow> bool \<Rightarrow> quarantine_decision" where
  "quarantine_opened disposition committed_count has_canonical_records =
     (if disposition \<noteq> UNCLASSIFIED then quarantine_refuse disposition
      else if committed_count < 0 then quarantine_refuse disposition
      else quarantine_decide
        (Some (if committed_count \<noteq> 0 \<or> has_canonical_records then UNCLASSIFIED else UNPROCESSABLE))
        (if committed_count \<noteq> 0 \<or> has_canonical_records then Keep else MarkedUnprocessable)
        ''authenticated conflict retained'')"

definition certified_prefix :: "quarantine_disposition \<Rightarrow> bool \<Rightarrow> bool \<Rightarrow> quarantine_decision" where
  "certified_prefix disposition checkpoint_certified salvage_eligible =
     (if disposition \<noteq> UNCLASSIFIED \<or> \<not> (checkpoint_certified \<and> salvage_eligible) then quarantine_refuse disposition
      else quarantine_decide (Some PUBLISHED_PREFIX) PublishPrefix ''certified salvage prefix'')"

definition mark_unprocessable :: "quarantine_disposition \<Rightarrow> string \<Rightarrow> bool \<Rightarrow> quarantine_decision" where
  "mark_unprocessable disposition reason custody_conflict =
     (if disposition \<noteq> UNCLASSIFIED \<or> reason = [] \<or> custody_conflict then quarantine_refuse disposition
      else quarantine_decide (Some UNPROCESSABLE) MarkedUnprocessable ''terminal reason recorded'')"

definition residual_expiry :: "quarantine_disposition \<Rightarrow> bool \<Rightarrow> bool \<Rightarrow> quarantine_decision" where
  "residual_expiry disposition terminal age_expired =
     (if disposition = UNCLASSIFIED \<or> \<not> terminal then quarantine_refuse disposition
      else if \<not> age_expired then quarantine_decide (Some disposition) Keep ''residual evidence has not expired''
      else quarantine_decide (Some disposition) RetireEvidence ''expired residual evidence retired'')"

definition canonical_expiry :: "quarantine_disposition \<Rightarrow> audio_phase \<Rightarrow> bool \<Rightarrow> bool \<Rightarrow> bool \<Rightarrow> quarantine_decision" where
  "canonical_expiry disposition source_phase age_expired cohort_references stage_references =
     (if disposition \<noteq> UNPROCESSABLE \<or> source_phase \<noteq> BLOCKED then quarantine_refuse disposition
      else if \<not> age_expired \<or> cohort_references \<or> stage_references
      then quarantine_decide (Some disposition) Keep ''canonical source remains pinned''
      else quarantine_decide (Some disposition) RetireEvidence ''expired unreferenced canonical source retired'')"

definition quarantine_evidence_transition :: "quarantine_disposition option \<Rightarrow> quarantine_event \<Rightarrow> quarantine_decision" where
  "quarantine_evidence_transition disposition event =
     (case disposition of
        None \<Rightarrow> quarantine_decide None RefuseQuarantine ''unsupported quarantine disposition''
      | Some d \<Rightarrow>
          (case event of
             QuarantineOpened n r \<Rightarrow> quarantine_opened d n r
           | CertifiedPrefix c s \<Rightarrow> certified_prefix d c s
           | MarkUnprocessable r c \<Rightarrow> mark_unprocessable d r c
           | ResidualExpiry t a \<Rightarrow> residual_expiry d t a
           | CanonicalExpiry p a c s \<Rightarrow> canonical_expiry d p a c s))"

lemmas quarantine_handler_defs =
  quarantine_evidence_transition_def quarantine_opened_def certified_prefix_def mark_unprocessable_def
  residual_expiry_def canonical_expiry_def quarantine_refuse_def

definition quarantine_evidence_step ::
  "quarantine_disposition option \<Rightarrow> quarantine_event \<Rightarrow> (unit, quarantine_disposition option \<times> quarantine_decision) result" where
  "quarantine_evidence_step d event = (let r = quarantine_evidence_transition d event in Inr (next_disposition r, r))"

lemma quarantine_evidence_step_Inr [simp]:
  "quarantine_evidence_step p e = Inr (q, d) \<longleftrightarrow> d = quarantine_evidence_transition p e \<and> q = next_disposition d"
  by (auto simp: quarantine_evidence_step_def Let_def)

section \<open>Conflict disposition\<close>

record conflict_disposition =
  classification :: quarantine_decision
  block_reason :: string

definition classify_conflict :: "int \<Rightarrow> bool \<Rightarrow> string \<Rightarrow> conflict_disposition" where
  "classify_conflict committed_count has_canonical_records reason =
     \<lparr>classification = quarantine_evidence_transition (Some UNCLASSIFIED) (QuarantineOpened committed_count has_canonical_records),
      block_reason = (if committed_count = 0 \<and> has_canonical_records then ''source_authentication_mismatch'' else reason)\<rparr>"

section \<open>Cohort histories\<close>

definition count_act :: "cohort_action \<Rightarrow> cohort_decision list \<Rightarrow> nat" where
  "count_act a ds = length (filter (\<lambda>d. cohort_act d = a) ds)"

lemma count_act_simps [simp]:
  "count_act a [] = 0"
  "count_act a (ds @ [d]) = count_act a ds + (if cohort_act d = a then 1 else 0)"
  by (simp_all add: count_act_def)

text \<open>Commits that answer a staged group, as opposed to output that was ready before.\<close>

definition stage_commits :: "cohort_event list \<Rightarrow> cohort_decision list \<Rightarrow> nat" where
  "stage_commits es ds = length (filter (\<lambda>(e, d). (\<exists>a b. e = DurableDestination a b) \<and> cohort_act d = CohortCommit) (zip es ds))"

definition cohort_ledger :: "cohort_event list \<Rightarrow> cohort_decision list \<Rightarrow> cohort_phase option \<Rightarrow> bool" where
  "cohort_ledger es ds p \<longleftrightarrow>
     count_act CohortAccept ds = (if p = Some UNQUALIFIED then 0 else 1)
   \<and> count_act CohortStage ds = stage_commits es ds + (if p = Some STAGING then 1 else 0)
   \<and> (p = Some UNQUALIFIED \<longrightarrow> count_act CohortCommit ds = 0)
   \<and> (p = Some COMPLETE \<longrightarrow> 0 < count_act CohortCommit ds)
   \<and> (0 < count_act CohortRetire ds \<longrightarrow> p = None \<and> 0 < count_act CohortCommit ds)
   \<and> (p = None \<longrightarrow> count_act CohortRetire ds = 1 \<or> 0 < count_act CohortBlock ds)"

lemma stage_commits_snoc:
  "length es = length ds \<Longrightarrow>
     stage_commits (es @ [e]) (ds @ [d]) = stage_commits es ds + (if (\<exists>a b. e = DurableDestination a b) \<and> cohort_act d = CohortCommit then 1 else 0)"
  by (simp add: stage_commits_def)

lemma cohort_ledger_step:
  assumes "cohort_ledger es ds p" and "length es = length ds"
  shows "cohort_ledger (es @ [e]) (ds @ [cohort_transition p e]) (cohort_next (cohort_transition p e))"
proof (cases p)
  case None
  then show ?thesis
    using assms by (simp add: cohort_ledger_def stage_commits_snoc cohort_transition_def)
next
  case (Some q)
  then show ?thesis
    using assms
    by (cases q; cases e) (auto simp: cohort_ledger_def stage_commits_snoc cohort_transition_def cohort_refused_def)
qed

lemma cohort_ledger_run: "run cohort_step (Some UNQUALIFIED) es = Inr (p, ds) \<Longrightarrow> cohort_ledger es ds p"
proof (induction es arbitrary: p ds rule: rev_induct)
  case Nil
  then show ?case by (auto simp: cohort_ledger_def stage_commits_def)
next
  case (snoc e es)
  then obtain q cs where "run cohort_step (Some UNQUALIFIED) es = Inr (q, cs)" "p = cohort_next (cohort_transition q e)"
      "ds = cs @ [cohort_transition q e]"
    by (auto simp: run_snoc_Inr)
  with snoc.IH show ?case by (simp add: cohort_ledger_step run_length)
qed

text \<open>
  A cohort publishes one group at a time under one permit.  In every history from the unqualified
  phase the permit is accepted exactly once when that phase is left and never again, every staged group but the
  one in progress has been committed at its destination, and a cohort that is gone was either retired
  once, after at least one commit, or emptied by a custody conflict.
\<close>

theorem cohort_bookkeeping:
  assumes "run cohort_step (Some UNQUALIFIED) es = Inr (p, ds)"
  shows "count_act CohortAccept ds = (if p = Some UNQUALIFIED then 0 else 1)
    \<and> count_act CohortStage ds = stage_commits es ds + (if p = Some STAGING then 1 else 0)
    \<and> (0 < count_act CohortRetire ds \<longrightarrow> p = None \<and> 0 < count_act CohortCommit ds)
    \<and> (p = None \<longrightarrow> count_act CohortRetire ds = 1 \<or> 0 < count_act CohortBlock ds)"
  using cohort_ledger_run [OF assms] by (simp add: cohort_ledger_def)

theorem cohort_bookkeeping_witness:
  "\<exists>ds. run cohort_step (Some UNQUALIFIED)
      [QualifiedDrained True, Stage True, DurableDestination True True, CompleteRetire True] = Inr (None, ds)
    \<and> count_act CohortStage ds = 1 \<and> count_act CohortRetire ds = 1 \<and> count_act CohortAccept ds = 1"
proof -
  obtain ds where r: "run cohort_step (Some UNQUALIFIED)
      [QualifiedDrained True, Stage True, DurableDestination True True, CompleteRetire True] = Inr (None, ds)"
    and ds: "map cohort_act ds = [CohortAccept, CohortStage, CohortCommit, CohortRetire]"
    by (simp add: cohort_step_def cohort_transition_def Let_def)
  from ds have "count_act CohortStage ds = 1" "count_act CohortRetire ds = 1"
    by (auto simp: count_act_def map_eq_Cons_conv)
  then show ?thesis using r cohort_bookkeeping [OF r] by auto
qed

section \<open>Quarantine histories\<close>

definition evidence_licence :: "quarantine_disposition option \<Rightarrow> quarantine_event \<Rightarrow> quarantine_decision \<Rightarrow> bool" where
  "evidence_licence d e r \<longleftrightarrow>
     (quarantine_action r = RetireEvidence \<longrightarrow>
        next_disposition r = d \<and> d \<in> {Some PUBLISHED_PREFIX, Some UNPROCESSABLE}
        \<and> (e = ResidualExpiry True True \<or> e = CanonicalExpiry BLOCKED True False False \<and> d = Some UNPROCESSABLE))"

lemma evidence_licensed: "evidence_licence d e (quarantine_evidence_transition d e)"
proof (cases d)
  case (Some q)
  then show ?thesis by (cases q; cases e) (auto simp: evidence_licence_def quarantine_handler_defs)
qed (simp add: evidence_licence_def quarantine_evidence_transition_def)

interpretation quarantine_evidence: guarded_machine quarantine_evidence_step "\<lambda>_. True" evidence_licence
  by unfold_locales (simp_all add: evidence_licensed)

lemma classified_step:
  "d \<noteq> Some UNCLASSIFIED \<Longrightarrow> next_disposition (quarantine_evidence_transition d e) = d"
  by (cases d; cases e) (auto simp: quarantine_handler_defs)

interpretation classified: absorbing_machine quarantine_evidence_step "\<lambda>d. d = d0 \<and> d0 \<noteq> Some UNCLASSIFIED" for d0
  by unfold_locales (auto simp: classified_step)

text \<open>
  Quarantine evidence is deleted only when it is classified and past its guards.  In any history, a
  decision to delete is taken on a terminal expired residual, or on canonical bytes that are
  unprocessable, blocked, expired and referenced by no cohort and no stage; and once a disposition is
  classified, no later event changes it.
\<close>

theorem quarantine_evidence_deletion_guarded:
  assumes "run quarantine_evidence_step (Some UNCLASSIFIED) es = Inr (d, rs)"
  shows "(\<forall>i < length rs. quarantine_action (rs ! i) = RetireEvidence \<longrightarrow>
        next_disposition (rs ! i) \<in> {Some PUBLISHED_PREFIX, Some UNPROCESSABLE}
        \<and> (es ! i = ResidualExpiry True True
           \<or> es ! i = CanonicalExpiry BLOCKED True False False \<and> next_disposition (rs ! i) = Some UNPROCESSABLE))
    \<and> (d \<noteq> Some UNCLASSIFIED \<longrightarrow> (\<forall>fs u ts. run quarantine_evidence_step d fs = Inr (u, ts) \<longrightarrow> u = d))"
proof -
  have "evidence_licence u (es ! i) (rs ! i) \<Longrightarrow> quarantine_action (rs ! i) = RetireEvidence \<Longrightarrow>
        next_disposition (rs ! i) \<in> {Some PUBLISHED_PREFIX, Some UNPROCESSABLE}
        \<and> (es ! i = ResidualExpiry True True
           \<or> es ! i = CanonicalExpiry BLOCKED True False False \<and> next_disposition (rs ! i) = Some UNPROCESSABLE)" for u i
    by (auto simp: evidence_licence_def)
  moreover have "\<exists>u. evidence_licence u (es ! i) (rs ! i)" if "i < length rs" for i
    using quarantine_evidence.run_licensed [OF _ assms that] by blast
  moreover have "u = d" if "d \<noteq> Some UNCLASSIFIED" "run quarantine_evidence_step d fs = Inr (u, ts)" for fs u ts
    using classified.absorbed.run_inv [OF _ that(2)] that(1) by blast
  ultimately show ?thesis by blast
qed

theorem quarantine_evidence_deletion_guarded_witness:
  "\<exists>d rs. run quarantine_evidence_step (Some UNCLASSIFIED) [QuarantineOpened 0 False, ResidualExpiry True True] = Inr (d, rs)
     \<and> quarantine_action (rs ! 1) = RetireEvidence \<and> next_disposition (rs ! 1) \<in> {Some PUBLISHED_PREFIX, Some UNPROCESSABLE}"
proof -
  obtain rs where r: "run quarantine_evidence_step (Some UNCLASSIFIED) [QuarantineOpened 0 False, ResidualExpiry True True] = Inr (Some UNPROCESSABLE, rs)"
    and rs: "length rs = 2" "quarantine_action (rs ! 1) = RetireEvidence"
    by (simp add: quarantine_evidence_step_def quarantine_handler_defs Let_def)
  then show ?thesis using quarantine_evidence_deletion_guarded [OF r] by auto
qed

text \<open>
  Opening a quarantine never loses committed audio.  Classifying an authenticated conflict gives
  \<open>unprocessable\<close> exactly when there are no committed rows and no canonical records; otherwise the
  evidence is kept unclassified, and canonical records without a commit are always recorded as an
  authentication mismatch.
\<close>

theorem conflict_keeps_committed_audio:
  assumes "0 \<le> n"
  shows "(next_disposition (classification (classify_conflict n canonical reason)) = Some UNPROCESSABLE \<longleftrightarrow> n = 0 \<and> \<not> canonical)
    \<and> (0 < n \<or> canonical \<longrightarrow>
         next_disposition (classification (classify_conflict n canonical reason)) = Some UNCLASSIFIED
         \<and> quarantine_action (classification (classify_conflict n canonical reason)) = Keep)
    \<and> (n = 0 \<and> canonical \<longrightarrow> block_reason (classify_conflict n canonical reason) = ''source_authentication_mismatch'')"
  using assms by (auto simp: classify_conflict_def quarantine_handler_defs)

theorem conflict_keeps_committed_audio_witness:
  "quarantine_action (classification (classify_conflict 3 False ''sequence_conflict'')) = Keep"
  using conflict_keeps_committed_audio [of 3 False "''sequence_conflict''"] by simp

end
