(* ===== verification/Ready_Machine.thy ===== *)
theory Ready_Machine
  imports Prelude Complex_Main
begin

text \<open>
  Publication of captured audio (\<open>domain/ready_machine.py\<close>): the merge of a recovered closure into the
  recorded one, and the reducer that admits, settles and retries publication and compaction jobs.

  Revisions are opaque Python objects that are only compared; \<open>None\<close> is the missing revision of a wake
  that has not probed its input.  Times and delays are rationals, so the arithmetic of deadlines is
  exact and float rounding is outside the model.  The outcome kept in a settled or waiting state is the
  caller's object, or the result of a compaction.
\<close>

section \<open>Recovered closures\<close>

datatype closure_error =
    InvalidReason | InvalidFrontier | InvalidExistingReason | CursorWithoutDrain | DrainWithoutCursor
  | CursorBelowExisting | CursorBelowRecovered

type_synonym closure_entry = "int \<times> string"

abbreviation drained_reason :: string where "drained_reason \<equiv> ''drained''"

definition validate_closure_entry :: "closure_entry option \<Rightarrow> (closure_error, int option) result" where
  "validate_closure_entry existing =
     (case existing of
        None \<Rightarrow> Inr None
      | Some (frontier, reason) \<Rightarrow>
          if frontier < 0 then Inl InvalidFrontier
          else if reason = [] then Inl InvalidExistingReason
          else Inr (Some frontier))"

definition validate_recovered_closure ::
  "closure_entry option \<Rightarrow> int option \<Rightarrow> string \<Rightarrow> int option \<Rightarrow> (closure_error, int option) result" where
  "validate_recovered_closure existing recovered_frontier reason drain_cursor =
     (if reason = [] then Inl InvalidReason
      else bind_result (validate_closure_entry existing) (\<lambda>existing_frontier.
        if (case recovered_frontier of None \<Rightarrow> False | Some f \<Rightarrow> f < 0) then Inl InvalidFrontier
        else if reason \<noteq> drained_reason
        then (if drain_cursor \<noteq> None then Inl CursorWithoutDrain else Inr None)
        else case drain_cursor of
            None \<Rightarrow> Inl DrainWithoutCursor
          | Some c \<Rightarrow>
              if c < 0 then Inl DrainWithoutCursor
              else if (case existing_frontier of None \<Rightarrow> False | Some f \<Rightarrow> c < f) then Inl CursorBelowExisting
              else Inr (Some c)))"

definition recovered_closure ::
  "closure_entry option \<Rightarrow> int option \<Rightarrow> string \<Rightarrow> int option \<Rightarrow> (closure_error, closure_entry option) result" where
  "recovered_closure existing recovered_frontier reason drain_cursor =
     bind_result (validate_recovered_closure existing recovered_frontier reason drain_cursor) (\<lambda>cursor.
       case recovered_frontier of
         None \<Rightarrow> Inr None
       | Some rf \<Rightarrow>
           if reason = drained_reason \<and> (case cursor of None \<Rightarrow> False | Some c \<Rightarrow> c < rf) then Inl CursorBelowRecovered
           else case existing of
               None \<Rightarrow> Inr (Some (rf, reason))
             | Some (ef, er) \<Rightarrow>
                 if rf > ef then Inr (Some (rf, reason))
                 else if rf < ef then Inr (if reason = drained_reason then Some (ef, reason) else None)
                 else if er = drained_reason \<or> reason \<noteq> drained_reason then Inr None
                 else Inr (Some (ef, reason)))"

section \<open>Publication state\<close>

datatype publication_mode = ModeAvailable | ModeCapture | ModeClosed
datatype publication_result = ResultSettled | ResultTransient | ResultUnsupported string
datatype 'o job_outcome = Outcome 'o | CompactionOutcome publication_result

record ('r, 'o) retry_wait =
  retry_revision :: "'r option"
  retry_outcome :: "'o job_outcome"
  retry_deadline :: rat
  retry_failures :: nat

datatype ('r, 'o) publication_work =
    PIdle
  | PRunning nat "'r option" nat nat
  | PSettled "'r option" "'o job_outcome"
  | PRetryWait "('r, 'o) retry_wait"
  | PCompacting nat "'r option" nat nat nat "('r, 'o) retry_wait option"
  | PQuiescing nat "'r option" nat nat nat

record ('r, 'o) publication_state =
  pub_mode :: publication_mode
  pub_work :: "('r, 'o) publication_work"
  pub_generation :: nat
  pub_next_token :: nat
  pub_needs_check :: bool

datatype publication_action = ActNone | ActRun | ActArm | ActCheckInput | ActCancelAndJoin | ActCompact

record publication_command =
  pub_action :: publication_action
  command_token :: "nat option"
  command_deadline :: "rat option"
  command_debt :: "nat option"

datatype ('r, 'o) publication_event =
    Wake "'r option" rat
  | InputChanged
  | Finished nat "'r option" 'o publication_result rat "rat list" bool
  | CompactionDue "'r option" nat
  | CompactionFinished nat nat "'r option" publication_result rat "rat list"
  | CompactionProbeFailed "'r option" rat "rat list"
  | TimerFired nat rat rat
  | CaptureBegin
  | CaptureEnd
  | PublicationShutdown
  | Quiesced

datatype publication_error = CaptureTwice | UnsupportedPublicationResult

type_synonym ('r, 'o) publication_outcome =
  "(publication_error, ('r, 'o) publication_state \<times> publication_command) result"

definition initial_publication_state :: "('r, 'o) publication_state" where
  "initial_publication_state =
     \<lparr>pub_mode = ModeAvailable, pub_work = PIdle, pub_generation = 0, pub_next_token = 0, pub_needs_check = False\<rparr>"

definition new_publication_state ::
  "publication_mode \<Rightarrow> ('r, 'o) publication_work \<Rightarrow> nat \<Rightarrow> nat \<Rightarrow> bool \<Rightarrow> ('r, 'o) publication_state" where
  "new_publication_state m w g t n =
     \<lparr>pub_mode = m, pub_work = w, pub_generation = g, pub_next_token = t, pub_needs_check = n\<rparr>"

definition publication_command_of :: "publication_action \<Rightarrow> publication_command" where
  "publication_command_of a = \<lparr>pub_action = a, command_token = None, command_deadline = None, command_debt = None\<rparr>"

definition arm_command :: "rat \<Rightarrow> publication_command" where
  "arm_command d = \<lparr>pub_action = ActArm, command_token = None, command_deadline = Some d, command_debt = None\<rparr>"

definition run_command :: "nat \<Rightarrow> publication_command" where
  "run_command t = \<lparr>pub_action = ActRun, command_token = Some t, command_deadline = None, command_debt = None\<rparr>"

definition compact_command :: "nat \<Rightarrow> nat \<Rightarrow> publication_command" where
  "compact_command t d = \<lparr>pub_action = ActCompact, command_token = Some t, command_deadline = None, command_debt = Some d\<rparr>"

abbreviation no_command :: publication_command where "no_command \<equiv> publication_command_of ActNone"
abbreviation check_input :: publication_command where "check_input \<equiv> publication_command_of ActCheckInput"

fun is_compacting :: "('r, 'o) publication_work \<Rightarrow> bool" where
  "is_compacting (PCompacting _ _ _ _ _ _) = True"
| "is_compacting (PQuiescing _ _ _ _ _) = True"
| "is_compacting _ = False"

fun is_running :: "('r, 'o) publication_work \<Rightarrow> bool" where
  "is_running (PRunning _ _ _ _) = True"
| "is_running _ = False"

section \<open>Transitions\<close>

definition backoff_delay :: "rat list \<Rightarrow> nat \<Rightarrow> rat" where
  "backoff_delay backoff failures =
     (if backoff = [] then 1 else backoff ! min failures (length backoff - 1))"

fun quiescing :: "('r, 'o) publication_work \<Rightarrow> ('r, 'o) publication_work" where
  "quiescing (PCompacting t r g d f retry) = PQuiescing t r g d f"
| "quiescing w = w"

definition lifecycle_shutdown :: "('r, 'o) publication_state \<Rightarrow> ('r, 'o) publication_outcome" where
  "lifecycle_shutdown s =
     Inr (new_publication_state ModeClosed (quiescing (pub_work s))
            (pub_generation s + (if pub_mode s \<noteq> ModeClosed then 1 else 0)) (pub_next_token s) False,
          publication_command_of ActCancelAndJoin)"

definition lifecycle_capture_begin :: "('r, 'o) publication_state \<Rightarrow> ('r, 'o) publication_outcome" where
  "lifecycle_capture_begin s =
     (if pub_mode s \<noteq> ModeAvailable then Inl CaptureTwice
      else Inr (new_publication_state ModeCapture (quiescing (pub_work s)) (pub_generation s + 1) (pub_next_token s) False,
                publication_command_of ActCancelAndJoin))"

definition lifecycle_quiesced :: "('r, 'o) publication_state \<Rightarrow> ('r, 'o) publication_outcome" where
  "lifecycle_quiesced s =
     Inr (new_publication_state (pub_mode s) PIdle (pub_generation s) (pub_next_token s) False, no_command)"

definition lifecycle_capture_end :: "('r, 'o) publication_state \<Rightarrow> ('r, 'o) publication_outcome" where
  "lifecycle_capture_end s =
     (if is_compacting (pub_work s) then Inr (s, no_command)
      else if pub_mode s \<noteq> ModeCapture then Inr (s, no_command)
      else Inr (new_publication_state ModeAvailable PIdle (pub_generation s + 1) (pub_next_token s) True, check_input))"

definition lifecycle_input_changed :: "('r, 'o) publication_state \<Rightarrow> ('r, 'o) publication_outcome" where
  "lifecycle_input_changed s =
     (if is_compacting (pub_work s)
      then Inr (new_publication_state (pub_mode s) (pub_work s) (pub_generation s + 1) (pub_next_token s) True, no_command)
      else let work = (if is_running (pub_work s) then pub_work s else PIdle)
           in Inr (new_publication_state (pub_mode s) work (pub_generation s + 1) (pub_next_token s) True,
                   publication_command_of
                     (if pub_mode s = ModeAvailable \<and> \<not> is_running work then ActCheckInput else ActNone)))"

definition publication_finished ::
  "('r, 'o) publication_state \<Rightarrow> nat \<Rightarrow> 'r option \<Rightarrow> 'o \<Rightarrow> publication_result \<Rightarrow> rat \<Rightarrow> rat list \<Rightarrow> bool
     \<Rightarrow> ('r, 'o) publication_outcome" where
  "publication_finished s token revision outcome res now backoff reprobe =
     (case pub_work s of
        PRunning t r g failures \<Rightarrow>
          if t \<noteq> token then Inr (s, no_command)
          else if pub_mode s \<noteq> ModeAvailable
          then Inr (new_publication_state (pub_mode s) PIdle (pub_generation s) (pub_next_token s) False, no_command)
          else if g \<noteq> pub_generation s \<or> reprobe \<or> (res \<noteq> ResultTransient \<and> revision \<noteq> r)
          then Inr (new_publication_state (pub_mode s) PIdle (pub_generation s) (pub_next_token s) True, check_input)
          else if res = ResultTransient
          then let deadline = now + backoff_delay backoff failures in
            Inr (new_publication_state (pub_mode s)
                   (PRetryWait \<lparr>retry_revision = revision, retry_outcome = Outcome outcome,
                                retry_deadline = deadline, retry_failures = failures + 1\<rparr>)
                   (pub_generation s) (pub_next_token s) False,
                 arm_command deadline)
          else if res = ResultSettled
          then Inr (new_publication_state (pub_mode s) (PSettled revision (Outcome outcome)) (pub_generation s) (pub_next_token s) False,
                    no_command)
          else Inl UnsupportedPublicationResult
      | _ \<Rightarrow> Inr (s, no_command))"

definition compaction_due :: "('r, 'o) publication_state \<Rightarrow> 'r option \<Rightarrow> nat \<Rightarrow> ('r, 'o) publication_outcome" where
  "compaction_due s revision debt_generation =
     (if pub_mode s \<noteq> ModeAvailable \<or> is_running (pub_work s) \<or> is_compacting (pub_work s) then Inr (s, no_command)
      else let token = pub_next_token s + 1;
               retry = (case pub_work s of PRetryWait w \<Rightarrow> Some w | _ \<Rightarrow> None)
           in Inr (new_publication_state (pub_mode s) (PCompacting token revision (pub_generation s) debt_generation 0 retry)
                     (pub_generation s) token (pub_needs_check s),
                   compact_command token debt_generation))"

definition compaction_finished ::
  "('r, 'o) publication_state \<Rightarrow> nat \<Rightarrow> nat \<Rightarrow> 'r option \<Rightarrow> publication_result \<Rightarrow> rat \<Rightarrow> rat list \<Rightarrow> ('r, 'o) publication_outcome" where
  "compaction_finished s token debt revision res now backoff =
     (case pub_work s of
        PCompacting t r g d failures publication_retry \<Rightarrow>
          if t \<noteq> token then Inr (s, no_command)
          else if pub_mode s \<noteq> ModeAvailable then Inr (s, no_command)
          else if d \<noteq> debt \<or> r \<noteq> revision
          then Inr (new_publication_state (pub_mode s) PIdle (pub_generation s) (pub_next_token s) True, check_input)
          else let retry = (if \<not> pub_needs_check s then publication_retry else None) in
            if retry \<noteq> None \<or> res = ResultTransient
            then let w = (case retry of
                            Some w \<Rightarrow> w
                          | None \<Rightarrow> \<lparr>retry_revision = revision, retry_outcome = CompactionOutcome res,
                                     retry_deadline = now + backoff_delay backoff failures, retry_failures = failures + 1\<rparr>)
                 in Inr (new_publication_state (pub_mode s) (PRetryWait w) (pub_generation s) (pub_next_token s) False,
                         arm_command (retry_deadline w))
            else if res = ResultSettled
            then (if g \<noteq> pub_generation s \<or> pub_needs_check s
                  then Inr (new_publication_state (pub_mode s) (PSettled revision (CompactionOutcome res))
                              (pub_generation s) (pub_next_token s) True, check_input)
                  else Inr (new_publication_state (pub_mode s) (PSettled revision (CompactionOutcome res))
                              (pub_generation s) (pub_next_token s) False, no_command))
            else Inl UnsupportedPublicationResult
      | _ \<Rightarrow> Inr (s, no_command))"

definition compaction_probe_failed ::
  "('r, 'o) publication_state \<Rightarrow> 'r option \<Rightarrow> rat \<Rightarrow> rat list \<Rightarrow> ('r, 'o) publication_outcome" where
  "compaction_probe_failed s revision now backoff =
     (if pub_mode s \<noteq> ModeAvailable \<or> \<not> (case pub_work s of PIdle \<Rightarrow> True | PSettled _ _ \<Rightarrow> True | _ \<Rightarrow> False)
      then Inr (s, no_command)
      else let deadline = now + (if backoff = [] then 1 else backoff ! 0) in
        Inr (new_publication_state (pub_mode s)
               (PRetryWait \<lparr>retry_revision = revision, retry_outcome = CompactionOutcome ResultTransient,
                            retry_deadline = deadline, retry_failures = 1\<rparr>)
               (pub_generation s) (pub_next_token s) False,
             arm_command deadline))"

definition publication_timer :: "('r, 'o) publication_state \<Rightarrow> nat \<Rightarrow> rat \<Rightarrow> rat \<Rightarrow> ('r, 'o) publication_outcome" where
  "publication_timer s generation deadline now =
     (case pub_work s of
        PRetryWait w \<Rightarrow>
          if pub_mode s \<noteq> ModeAvailable then Inr (s, no_command)
          else if generation \<noteq> pub_generation s \<or> deadline \<noteq> retry_deadline w then Inr (s, no_command)
          else if now < retry_deadline w then Inr (s, arm_command (retry_deadline w))
          else Inr (new_publication_state (pub_mode s) (pub_work s) (pub_generation s) (pub_next_token s) True, check_input)
      | _ \<Rightarrow> Inr (s, no_command))"

definition wake_unprobed :: "('r, 'o) publication_state \<Rightarrow> rat \<Rightarrow> ('r, 'o) publication_outcome" where
  "wake_unprobed s now =
     (case pub_work s of
        PRunning _ _ _ _ \<Rightarrow> Inr (s, check_input)
      | PRetryWait w \<Rightarrow> if now < retry_deadline w then Inr (s, arm_command (retry_deadline w)) else Inr (s, check_input)
      | _ \<Rightarrow> Inr (s, check_input))"

definition wake_run :: "('r, 'o) publication_state \<Rightarrow> 'r option \<Rightarrow> nat \<Rightarrow> ('r, 'o) publication_outcome" where
  "wake_run s revision failures =
     (let token = pub_next_token s + 1
      in Inr (new_publication_state (pub_mode s) (PRunning token revision (pub_generation s) failures)
                (pub_generation s) token False,
              run_command token))"

definition wake_probed :: "('r, 'o) publication_state \<Rightarrow> 'r option \<Rightarrow> rat \<Rightarrow> ('r, 'o) publication_outcome" where
  "wake_probed s revision now =
     (case pub_work s of
        PRunning t r g f \<Rightarrow>
          if revision \<noteq> r \<and> g = pub_generation s
          then Inr (new_publication_state (pub_mode s) (pub_work s) (pub_generation s + 1) (pub_next_token s) True, no_command)
          else Inr (s, no_command)
      | PSettled r out \<Rightarrow>
          if revision = r
          then (if pub_needs_check s
                then Inr (new_publication_state (pub_mode s) (pub_work s) (pub_generation s) (pub_next_token s) False, no_command)
                else Inr (s, no_command))
          else wake_run s revision 0
      | PRetryWait w \<Rightarrow>
          if revision = retry_revision w \<and> now < retry_deadline w then Inr (s, arm_command (retry_deadline w))
          else wake_run s revision (if revision = retry_revision w then retry_failures w else 0)
      | _ \<Rightarrow> wake_run s revision 0)"

definition publication_wake :: "('r, 'o) publication_state \<Rightarrow> 'r option \<Rightarrow> rat \<Rightarrow> ('r, 'o) publication_outcome" where
  "publication_wake s revision now =
     (if pub_mode s \<noteq> ModeAvailable then Inr (s, no_command)
      else if is_compacting (pub_work s) then Inr (s, no_command)
      else if revision = None then wake_unprobed s now
      else wake_probed s revision now)"

fun publication_transition ::
  "('r, 'o) publication_state \<Rightarrow> ('r, 'o) publication_event \<Rightarrow> ('r, 'o) publication_outcome" where
  "publication_transition s (Wake r now) = publication_wake s r now"
| "publication_transition s (Finished t r x res now b p) = publication_finished s t r x res now b p"
| "publication_transition s (CompactionDue r d) = compaction_due s r d"
| "publication_transition s (CompactionFinished t d r res now b) = compaction_finished s t d r res now b"
| "publication_transition s (CompactionProbeFailed r now b) = compaction_probe_failed s r now b"
| "publication_transition s (TimerFired g d now) = publication_timer s g d now"
| "publication_transition s InputChanged = lifecycle_input_changed s"
| "publication_transition s CaptureBegin = lifecycle_capture_begin s"
| "publication_transition s CaptureEnd = lifecycle_capture_end s"
| "publication_transition s PublicationShutdown = lifecycle_shutdown s"
| "publication_transition s Quiesced = lifecycle_quiesced s"

lemmas publication_handler_defs =
  publication_wake_def wake_unprobed_def wake_probed_def wake_run_def publication_finished_def compaction_due_def
  compaction_finished_def compaction_probe_failed_def publication_timer_def lifecycle_input_changed_def
  lifecycle_capture_begin_def lifecycle_capture_end_def lifecycle_shutdown_def lifecycle_quiesced_def

lemmas publication_record_defs =
  new_publication_state_def publication_command_of_def arm_command_def run_command_def compact_command_def


section \<open>Jobs in flight\<close>

fun job_token :: "('r, 'o) publication_work \<Rightarrow> nat option" where
  "job_token (PRunning t _ _ _) = Some t"
| "job_token (PCompacting t _ _ _ _ _) = Some t"
| "job_token (PQuiescing t _ _ _ _) = Some t"
| "job_token _ = None"

fun ends_job :: "nat \<Rightarrow> ('r, 'o) publication_event \<Rightarrow> bool" where
  "ends_job k (Finished t _ _ _ _ _ _) = (t = k)"
| "ends_job k (CompactionFinished t _ _ _ _ _) = (t = k)"
| "ends_job k Quiesced = True"
| "ends_job k CaptureEnd = True"
| "ends_job k _ = False"

definition starts_job :: "publication_command \<Rightarrow> bool" where
  "starts_job c \<longleftrightarrow> pub_action c \<in> {ActRun, ActCompact}"

lemma job_token_quiescing [simp]: "job_token (quiescing w) = job_token w"
  by (cases w) simp_all

lemma job_token_idle: "\<not> is_running w \<Longrightarrow> \<not> is_compacting w \<Longrightarrow> job_token w = None"
  by (cases w) simp_all

lemma publication_start:
  assumes "publication_transition s e = Inr (t, c)" and "starts_job c"
  shows "pub_mode s = ModeAvailable \<and> job_token (pub_work s) = None
    \<and> pub_next_token t = pub_next_token s + 1 \<and> command_token c = Some (pub_next_token t)
    \<and> job_token (pub_work t) = Some (pub_next_token t)"
  using assms
  by (cases e)
    (auto simp: publication_handler_defs publication_record_defs starts_job_def Let_def job_token_idle
      split: if_splits publication_work.splits option.splits)

lemma publication_token_mono:
  "publication_transition s e = Inr (t, c) \<Longrightarrow> pub_next_token s \<le> pub_next_token t"
  by (cases e)
    (auto simp: publication_handler_defs publication_record_defs Let_def
      split: if_splits publication_work.splits option.splits)

lemma publication_job_kept:
  "publication_transition s e = Inr (t, c) \<Longrightarrow> job_token (pub_work s) = Some k \<Longrightarrow> \<not> ends_job k e \<Longrightarrow>
     job_token (pub_work t) = Some k"
  by (cases e; cases "pub_work s")
    (auto simp: publication_handler_defs publication_record_defs Let_def split: if_splits)


lemma publication_blocked:
  "publication_transition s e = Inr (t, c) \<Longrightarrow> pub_mode s \<noteq> ModeAvailable \<Longrightarrow> e \<noteq> CaptureEnd \<or> pub_mode s = ModeClosed \<Longrightarrow>
     pub_mode t \<noteq> ModeAvailable \<and> (pub_mode s = ModeClosed \<longrightarrow> pub_mode t = ModeClosed)"
  by (cases e)
    (auto simp: publication_handler_defs publication_record_defs Let_def
      split: if_splits publication_work.splits option.splits)

lemma publication_enter_blocked:
  "publication_transition s CaptureBegin = Inr (t, c) \<Longrightarrow> pub_mode t = ModeCapture"
  "publication_transition s PublicationShutdown = Inr (t, c) \<Longrightarrow> pub_mode t = ModeClosed"
  by (auto simp: publication_handler_defs publication_record_defs split: if_splits)

definition only_cancels :: "publication_command \<Rightarrow> bool" where
  "only_cancels c \<longleftrightarrow> pub_action c \<in> {ActNone, ActCancelAndJoin}"

lemma publication_blocked_commands:
  "publication_transition s e = Inr (t, c) \<Longrightarrow> pub_mode s \<noteq> ModeAvailable \<Longrightarrow> e \<noteq> CaptureEnd \<or> pub_mode s = ModeClosed \<Longrightarrow>
     only_cancels c"
  by (cases e)
    (auto simp: publication_handler_defs publication_record_defs only_cancels_def Let_def
      split: if_splits publication_work.splits option.splits)

lemma publication_entry_cancels:
  "publication_transition s e = Inr (t, c) \<Longrightarrow> e = CaptureBegin \<or> e = PublicationShutdown \<Longrightarrow> pub_action c = ActCancelAndJoin"
  by (auto simp: publication_handler_defs publication_record_defs split: if_splits)

section \<open>Properties\<close>

lemma publication_jobs_ordered:
  assumes "run publication_transition s es = Inr (t, cs)" and "i < j" and "j < length cs"
    and "starts_job (cs ! i)" and "starts_job (cs ! j)"
  shows "\<exists>a b. command_token (cs ! i) = Some a \<and> command_token (cs ! j) = Some b \<and> a < b
           \<and> (\<exists>k. i < k \<and> k < j \<and> ends_job a (es ! k))"
proof -
  obtain u u' v v' where u: "publication_transition u (es ! i) = Inr (u', cs ! i)"
    and v: "publication_transition v (es ! j) = Inr (v', cs ! j)"
    and keep: "\<forall>P Q. (\<forall>s e t c. P s \<longrightarrow> Q e \<longrightarrow> publication_transition s e = Inr (t, c) \<longrightarrow> P t) \<longrightarrow> P u' \<longrightarrow>
           (\<forall>k. i < k \<longrightarrow> k < j \<longrightarrow> Q (es ! k)) \<longrightarrow> P v"
    using assms(1-3) by (rule run_between)
  note starti = publication_start [OF u assms(4)] and startj = publication_start [OF v assms(5)]
  have mono: "pub_next_token u' \<le> pub_next_token v"
    by (rule keep [rule_format, of "\<lambda>x. pub_next_token u' \<le> pub_next_token x" "\<lambda>_. True"])
      (auto dest: publication_token_mono)
  have "\<exists>k. i < k \<and> k < j \<and> ends_job (pub_next_token u') (es ! k)"
  proof (rule ccontr)
    assume "\<not> ?thesis"
    then have "job_token (pub_work v) = Some (pub_next_token u')"
      using starti publication_job_kept
      by (intro keep [rule_format, of "\<lambda>x. job_token (pub_work x) = Some (pub_next_token u')"
            "\<lambda>e. \<not> ends_job (pub_next_token u') e"]) blast+
    then show False using startj by simp
  qed
  then show ?thesis using starti startj mono by auto
qed

lemma publication_stays_blocked:
  assumes "run publication_transition s es = Inr (t, cs)" and "i < j" and "j < length cs"
    and "es ! i = CaptureBegin \<and> (\<forall>k. i < k \<longrightarrow> k \<le> j \<longrightarrow> es ! k \<noteq> CaptureEnd) \<or> es ! i = PublicationShutdown"
  shows "only_cancels (cs ! j)"
proof -
  obtain u u' v v' where u: "publication_transition u (es ! i) = Inr (u', cs ! i)"
    and v: "publication_transition v (es ! j) = Inr (v', cs ! j)"
    and keep: "\<forall>P Q. (\<forall>s e t c. P s \<longrightarrow> Q e \<longrightarrow> publication_transition s e = Inr (t, c) \<longrightarrow> P t) \<longrightarrow> P u' \<longrightarrow>
           (\<forall>k. i < k \<longrightarrow> k < j \<longrightarrow> Q (es ! k)) \<longrightarrow> P v"
    using assms(1-3) by (rule run_between)
  from assms(4) have "pub_mode v \<noteq> ModeAvailable \<and> (es ! j \<noteq> CaptureEnd \<or> pub_mode v = ModeClosed)"
  proof
    assume c: "es ! i = CaptureBegin \<and> (\<forall>k. i < k \<longrightarrow> k \<le> j \<longrightarrow> es ! k \<noteq> CaptureEnd)"
    then have "pub_mode v \<noteq> ModeAvailable"
      using u publication_enter_blocked(1) publication_blocked
      by (intro keep [rule_format, of "\<lambda>x. pub_mode x \<noteq> ModeAvailable" "\<lambda>e. e \<noteq> CaptureEnd"]) (blast, fastforce, auto)
    with c assms(2) show ?thesis by blast
  next
    assume "es ! i = PublicationShutdown"
    then have "pub_mode v = ModeClosed"
      using u publication_enter_blocked(2) publication_blocked
      by (intro keep [rule_format, of "\<lambda>x. pub_mode x = ModeClosed" "\<lambda>_. True"]) (fastforce, fastforce, blast)
    then show ?thesis by simp
  qed
  then show ?thesis using publication_blocked_commands [OF v] by blast
qed

text \<open>
  C21: publication and compaction jobs exclude one another, and a capture excludes both.  In any accepted history, of two
  jobs started at positions \<open>i < j\<close> the second has the larger token, and between them there is an event that ended the
  first one: its own completion, a confirmed quiescence, or the end of a capture.  The beginning of a capture and a
  shutdown command to cancel the running work and to join it; from then on, until the end of the capture, after a
  shutdown for good, nothing else is commanded: no job, no timer and no check of the input.
\<close>

theorem publication_jobs_exclusive:
  assumes "run publication_transition s es = Inr (t, cs)" and "i < length cs"
  shows "(\<forall>j. i < j \<and> j < length cs \<and> starts_job (cs ! i) \<and> starts_job (cs ! j) \<longrightarrow>
        (\<exists>a b. command_token (cs ! i) = Some a \<and> command_token (cs ! j) = Some b \<and> a < b
           \<and> (\<exists>k. i < k \<and> k < j \<and> ends_job a (es ! k))))
    \<and> (es ! i = CaptureBegin \<or> es ! i = PublicationShutdown \<longrightarrow> pub_action (cs ! i) = ActCancelAndJoin)
    \<and> (\<forall>j. i < j \<and> j < length cs \<longrightarrow>
        es ! i = CaptureBegin \<and> (\<forall>k. i < k \<longrightarrow> k \<le> j \<longrightarrow> es ! k \<noteq> CaptureEnd) \<or> es ! i = PublicationShutdown \<longrightarrow>
        pub_action (cs ! j) \<in> {ActNone, ActCancelAndJoin})"
proof -
  obtain u u' where "publication_transition u (es ! i) = Inr (u', cs ! i)"
    using run_nth [OF assms] by blast
  then show ?thesis
    using publication_jobs_ordered [OF assms(1)] publication_stays_blocked [OF assms(1)] publication_entry_cancels
    unfolding only_cancels_def by blast
qed

theorem publication_jobs_exclusive_witness:
  "\<exists>t cs. run publication_transition initial_publication_state
       [Wake (Some (1 :: nat)) 0, Finished 1 (Some 1) () ResultSettled 5 [] False, CompactionDue (Some 1) 7] = Inr (t, cs)
     \<and> starts_job (cs ! 0) \<and> starts_job (cs ! 2)
     \<and> (\<exists>k. 0 < k \<and> k < 2 \<and>
          ends_job 1 ([Wake (Some (1 :: nat)) 0, Finished 1 (Some 1) () ResultSettled 5 [] False, CompactionDue (Some 1) 7] ! k))"
proof -
  let ?es = "[Wake (Some (1 :: nat)) 0, Finished 1 (Some 1) () ResultSettled 5 [] False, CompactionDue (Some 1) 7]"
  obtain t where r: "run publication_transition initial_publication_state ?es
      = Inr (t, [run_command 1, no_command, compact_command 2 7])"
    by (simp add: publication_handler_defs initial_publication_state_def new_publication_state_def Let_def numeral_2_eq_2)
  have st: "starts_job (run_command 1)" "starts_job (compact_command 2 7)" "command_token (run_command 1) = Some 1"
    by (simp_all add: starts_job_def run_command_def compact_command_def)
  have "\<exists>k. 0 < k \<and> k < 2 \<and> ends_job 1 (?es ! k)"
    using publication_jobs_exclusive [OF r, of 0] st by auto
  moreover have "starts_job ([run_command 1, no_command, compact_command 2 7] ! 0)"
    "starts_job ([run_command 1, no_command, compact_command 2 7] ! 2)" using st by simp_all
  ultimately show ?thesis using r by blast
qed

section \<open>Input changes during a job\<close>

definition generation_ok :: "('r, 'o) publication_state \<Rightarrow> bool" where
  "generation_ok s \<longleftrightarrow> (\<forall>t r g f. pub_work s = PRunning t r g f \<longrightarrow> g \<le> pub_generation s)"

lemma quiescing_running [simp]: "quiescing w = PRunning t r g f \<longleftrightarrow> w = PRunning t r g f"
  by (cases w) auto

lemma generation_ok_step:
  "generation_ok s \<Longrightarrow> publication_transition s e = Inr (t, c) \<Longrightarrow> generation_ok t"
  by (cases e)
    (auto simp: generation_ok_def publication_handler_defs publication_record_defs Let_def
      split: if_splits publication_work.splits option.splits)

interpretation publication: invariant_machine publication_transition generation_ok
  by unfold_locales (rule generation_ok_step)

definition superseded :: "nat \<Rightarrow> ('r, 'o) publication_state \<Rightarrow> bool" where
  "superseded k s \<longleftrightarrow> (\<exists>r g f. pub_work s = PRunning k r g f \<and> g < pub_generation s)"

lemma superseded_kept:
  "superseded k s \<Longrightarrow> \<not> ends_job k e \<Longrightarrow> publication_transition s e = Inr (t, c) \<Longrightarrow> superseded k t"
  by (cases e)
    (auto simp: superseded_def publication_handler_defs publication_record_defs Let_def split: if_splits)

text \<open>
  A result computed from superseded input is never settled.  If the input changes while a job runs,
  then, whatever happens before that job reports, its completion while publication is available does not
  settle and does not arm a retry: the work becomes idle and a new check of the input is requested.
\<close>

theorem superseded_result_is_rechecked:
  assumes "run publication_transition initial_publication_state es = Inr (s, cs)"
    and "pub_work s = PRunning k r g f"
    and "publication_transition s InputChanged = Inr (s1, c1)"
    and "run publication_transition s1 fs = Inr (s2, ds)" and "\<forall>e \<in> set fs. \<not> ends_job k e"
    and "pub_mode s2 = ModeAvailable"
  shows "\<exists>s3. publication_transition s2 (Finished k rv out res now backoff reprobe) = Inr (s3, check_input)
     \<and> pub_work s3 = PIdle \<and> pub_needs_check s3"
proof -
  have "generation_ok (initial_publication_state :: ('a, 'b) publication_state)"
    by (simp add: generation_ok_def initial_publication_state_def)
  then have "generation_ok s" using assms(1) by (rule publication.run_inv)
  then have "superseded k s1"
    using assms(2,3) by (auto simp: generation_ok_def superseded_def publication_handler_defs new_publication_state_def le_imp_less_Suc)
  then have "superseded k s2"
    using run_keeps [of "superseded k" "\<lambda>e. \<not> ends_job k e" publication_transition s1 fs s2 ds] superseded_kept assms(4,5) by blast
  then show ?thesis
    using assms(6) by (auto simp: superseded_def publication_finished_def new_publication_state_def)
qed

theorem superseded_result_is_rechecked_witness:
  "\<exists>s1 c1 s3. run publication_transition (initial_publication_state :: (nat, unit) publication_state) [Wake (Some 1) 0]
        = Inr (new_publication_state ModeAvailable (PRunning 1 (Some 1) 0 0) 0 1 False, [run_command 1])
     \<and> publication_transition (new_publication_state ModeAvailable (PRunning 1 (Some (1 :: nat)) 0 0) 0 1 False) InputChanged = Inr (s1, c1)
     \<and> publication_transition s1 (Finished 1 (Some 1) () ResultSettled 9 [] False) = Inr (s3, check_input)"
proof -
  let ?s = "new_publication_state ModeAvailable (PRunning 1 (Some (1 :: nat)) 0 0) 0 1 False :: (nat, unit) publication_state"
  let ?t = "new_publication_state ModeAvailable (PRunning 1 (Some (1 :: nat)) 0 0) 1 1 True :: (nat, unit) publication_state"
  have a: "run publication_transition initial_publication_state [Wake (Some 1) 0] = Inr (?s, [run_command 1])"
    by (simp add: publication_handler_defs initial_publication_state_def new_publication_state_def Let_def)
  have b: "pub_work ?s = PRunning 1 (Some 1) 0 0" by (simp add: new_publication_state_def)
  have c: "publication_transition ?s InputChanged = Inr (?t, no_command)"
    by (simp add: publication_handler_defs new_publication_state_def)
  have d: "run publication_transition ?t [] = Inr (?t, [])" by simp
  have m: "pub_mode ?t = ModeAvailable" by (simp add: new_publication_state_def)
  show ?thesis
    using a c superseded_result_is_rechecked [OF a b c d _ m, of "Some 1" "()" ResultSettled 9 "[]" False] by auto
qed

text \<open>
  A failed publication is retried at its deadline and not before, with growing delays.  When the same
  revision is offered again while a retry is waiting, the job runs if and only if the deadline has passed;
  otherwise the timer is armed for that deadline and nothing changes.  The retried job carries the failure
  count, so a further transient failure waits for the next entry of the backoff table and for its last
  entry once the table is exhausted.
\<close>

theorem retry_respects_deadline:
  assumes "pub_mode s = ModeAvailable" and "pub_work s = PRetryWait w" and "retry_revision w = Some r"
  shows "(now < retry_deadline w \<longrightarrow>
        publication_transition s (Wake (Some r) now) = Inr (s, arm_command (retry_deadline w)))
    \<and> (retry_deadline w \<le> now \<longrightarrow>
        (\<exists>t. publication_transition s (Wake (Some r) now) = Inr (t, run_command (pub_next_token s + 1))
           \<and> (\<forall>rv out later backoff. backoff \<noteq> [] \<longrightarrow>
               (\<exists>u w'. publication_transition t (Finished (pub_next_token s + 1) rv out ResultTransient later backoff False)
                   = Inr (u, arm_command (retry_deadline w')) \<and> pub_work u = PRetryWait w'
                 \<and> retry_deadline w' = later + backoff ! min (retry_failures w) (length backoff - 1)
                 \<and> retry_failures w' = retry_failures w + 1))))"
proof (intro conjI impI)
  assume "now < retry_deadline w"
  then show "publication_transition s (Wake (Some r) now) = Inr (s, arm_command (retry_deadline w))"
    using assms by (simp add: publication_handler_defs)
next
  assume late: "retry_deadline w \<le> now"
  let ?t = "new_publication_state ModeAvailable (PRunning (pub_next_token s + 1) (Some r) (pub_generation s) (retry_failures w))
      (pub_generation s) (pub_next_token s + 1) False"
  have "publication_transition s (Wake (Some r) now) = Inr (?t, run_command (pub_next_token s + 1))"
    using assms late by (simp add: publication_handler_defs Let_def)
  then show "\<exists>t. publication_transition s (Wake (Some r) now) = Inr (t, run_command (pub_next_token s + 1))
           \<and> (\<forall>rv out later backoff. backoff \<noteq> [] \<longrightarrow>
               (\<exists>u w'. publication_transition t (Finished (pub_next_token s + 1) rv out ResultTransient later backoff False)
                   = Inr (u, arm_command (retry_deadline w')) \<and> pub_work u = PRetryWait w'
                 \<and> retry_deadline w' = later + backoff ! min (retry_failures w) (length backoff - 1)
                 \<and> retry_failures w' = retry_failures w + 1))"
    by (intro exI [of _ ?t]) (simp add: publication_finished_def new_publication_state_def backoff_delay_def Let_def)
qed

theorem retry_respects_deadline_witness:
  "publication_transition
     (new_publication_state ModeAvailable
        (PRetryWait \<lparr>retry_revision = Some (3 :: nat), retry_outcome = Outcome (), retry_deadline = 10, retry_failures = 1\<rparr>) 0 4 False)
     (Wake (Some 3) 9)
   = Inr (new_publication_state ModeAvailable
        (PRetryWait \<lparr>retry_revision = Some 3, retry_outcome = Outcome (), retry_deadline = 10, retry_failures = 1\<rparr>) 0 4 False,
        arm_command 10)"
proof -
  let ?w = "\<lparr>retry_revision = Some (3 :: nat), retry_outcome = Outcome (), retry_deadline = 10, retry_failures = 1\<rparr>"
  let ?s = "new_publication_state ModeAvailable (PRetryWait ?w) 0 4 False"
  have "pub_mode ?s = ModeAvailable" "pub_work ?s = PRetryWait ?w" "retry_revision ?w = Some 3"
    by (simp_all add: new_publication_state_def)
  from retry_respects_deadline [OF this, of 9] show ?thesis by simp
qed

section \<open>Merging a recovered closure\<close>

text \<open>The recorded closure after the merge: \<open>None\<close> leaves the existing entry in place.\<close>

definition merged_closure :: "closure_entry option \<Rightarrow> closure_entry option \<Rightarrow> closure_entry option" where
  "merged_closure existing update = (case update of None \<Rightarrow> existing | Some x \<Rightarrow> Some x)"

text \<open>
  Merging a recovered closure takes the furthest frontier and keeps a drain.  When the merge of a
  recovered frontier \<open>rf\<close> succeeds, the recorded frontier is the maximum of the existing and the recovered
  one, and the recorded reason is \<open>drained\<close> exactly if the recovery says so or the existing closure was
  drained at a frontier that is not passed.  A drained result is covered by the confirmed cursor, and an
  accepted merge without a frontier changes nothing.
\<close>

theorem recovered_closure_merges:
  assumes "recovered_closure existing frontier reason cursor = Inr update"
  shows "(frontier = None \<longrightarrow> update = None)
    \<and> (\<forall>rf. frontier = Some rf \<longrightarrow>
         (\<exists>f r. merged_closure existing update = Some (f, r)
            \<and> f = (case existing of None \<Rightarrow> rf | Some (ef, er) \<Rightarrow> max ef rf)
            \<and> (r = drained_reason \<longleftrightarrow>
                 reason = drained_reason \<or> (\<exists>ef. existing = Some (ef, drained_reason) \<and> rf \<le> ef))
            \<and> (reason = drained_reason \<longrightarrow> (\<exists>c. cursor = Some c \<and> f \<le> c))))"
  using assms
  by (cases existing; cases frontier; cases cursor)
    (auto simp: recovered_closure_def validate_recovered_closure_def validate_closure_entry_def merged_closure_def
      result_iffs max_def split: if_splits)

theorem recovered_closure_merges_witness:
  "recovered_closure (Some (10, ''absence'')) (Some 4) drained_reason (Some 12) = Inr (Some (10, drained_reason))
   \<and> merged_closure (Some (10, ''absence'')) (Some (10, drained_reason)) = Some (10, drained_reason)"
proof -
  have r: "recovered_closure (Some (10, ''absence'')) (Some 4) drained_reason (Some 12) = Inr (Some (10, drained_reason))"
    by (simp add: recovered_closure_def validate_recovered_closure_def validate_closure_entry_def)
  show ?thesis using r recovered_closure_merges [OF r] by (auto simp: merged_closure_def)
qed

end
