(* ===== verification/Presence_Machine.thy ===== *)
theory Presence_Machine
  imports Prelude Complex_Main "HOL-Library.Sublist"
begin

text \<open>
  The scheduling of attempts from scanner observations (\<open>application/presence_machine.py\<close>) and the
  cadence of the scanner itself (\<open>application/scan_cadence.py\<close>).

  Timestamps and durations are rationals: the code only adds, compares and takes minima, and float
  rounding is outside the model.  A candidate is an opaque object.  The arguments of a waiting state are
  the fields of the class in the order of the source.
\<close>

section \<open>Data\<close>

record presence_policy =
  absence_seconds :: rat
  scan_recheck_seconds :: rat
  drain_cooldown_seconds :: rat
  rapid_backoff :: "rat list"
  arrival_stability_seconds :: rat
  arrival_max_gap_seconds :: rat

record 'c advertisement =
  candidate :: 'c
  observed_at :: rat
  rssi_dbm :: "int option"

datatype 'c waiting_state =
    Searching nat rat "'c advertisement option" "rat option"
  | CoolingDown nat rat rat "'c advertisement option" "rat option"
  | RetryWaiting nat "rat option" rat nat "'c advertisement option" "rat option" "rat option"

datatype 'c attempt_trigger =
    AdvertisementTrigger "'c advertisement"
  | RapidRetryTrigger "'c advertisement"

datatype 'c presence_state =
    PWaiting "'c waiting_state"
  | PAttempting "'c attempt_trigger" "'c waiting_state"
  | PClosed

datatype attempt_outcome =
    CleanDrain
  | NotConnected bool
  | ConnectedInterruption bool
  | CandidateUnavailable

datatype 'c presence_event =
    AdvertisementObserved "'c advertisement" "rat option"
  | ScannerInterrupted rat
  | ResumeInterruptedVisit rat
  | PresenceTimerFired rat rat nat
  | AttemptFinished rat attempt_outcome
  | PresenceShutdown rat

datatype visit_end_reason = EndAbsence | EndRecoveryExhausted

datatype 'c presence_directive =
    Observe
  | StopAndBeginAttempt "'c attempt_trigger"
  | StopObservation
  | NoOperation
  | EndVisit visit_end_reason

datatype presence_error = UnexpectedAttemptOutcome | PresenceIndexError

type_synonym 'c presence_result = "(presence_error, 'c presence_state \<times> 'c presence_directive) result"

section \<open>Projections\<close>

fun timer_epoch :: "'c waiting_state \<Rightarrow> nat" where
  "timer_epoch (Searching e r a f) = e"
| "timer_epoch (CoolingDown e c r a f) = e"
| "timer_epoch (RetryWaiting e t r i a f b) = e"

fun waiting_advertisement :: "'c waiting_state \<Rightarrow> 'c advertisement option" where
  "waiting_advertisement (Searching e r a f) = a"
| "waiting_advertisement (CoolingDown e c r a f) = a"
| "waiting_advertisement (RetryWaiting e t r i a f b) = a"

fun arrival_started_at :: "'c waiting_state \<Rightarrow> rat option" where
  "arrival_started_at (Searching e r a f) = f"
| "arrival_started_at (CoolingDown e c r a f) = f"
| "arrival_started_at (RetryWaiting e t r i a f b) = f"

definition presence_initial_state :: "rat \<Rightarrow> presence_policy \<Rightarrow> 'c waiting_state" where
  "presence_initial_state started_at policy = Searching 0 (started_at + scan_recheck_seconds policy) None None"

definition min_with :: "rat \<Rightarrow> rat option \<Rightarrow> rat" where
  "min_with d x = (case x of None \<Rightarrow> d | Some y \<Rightarrow> min d y)"

fun armed_deadline :: "'c waiting_state \<Rightarrow> rat" where
  "armed_deadline (Searching e r a f) = r"
| "armed_deadline (CoolingDown e c r a f) = max c r"
| "armed_deadline (RetryWaiting e t r i a f b) = min_with (min_with r t) b"

fun drained_cooldown_remaining_seconds :: "'c presence_state \<Rightarrow> rat \<Rightarrow> rat" where
  "drained_cooldown_remaining_seconds (PWaiting (CoolingDown e c r a f)) now = max 0 (c - now)"
| "drained_cooldown_remaining_seconds _ now = 0"

section \<open>Handlers\<close>

definition observe :: "'c waiting_state \<Rightarrow> 'c presence_state \<times> 'c presence_directive" where
  "observe w = (PWaiting w, Observe)"

definition begin_attempt :: "'c waiting_state \<Rightarrow> 'c attempt_trigger \<Rightarrow> 'c presence_state \<times> 'c presence_directive" where
  "begin_attempt w trigger = (PAttempting trigger w, StopAndBeginAttempt trigger)"

definition end_visit ::
  "'c waiting_state \<Rightarrow> rat \<Rightarrow> visit_end_reason \<Rightarrow> presence_policy \<Rightarrow> 'c presence_state \<times> 'c presence_directive" where
  "end_visit w now reason policy =
     (PWaiting (Searching (timer_epoch w + 1) (now + scan_recheck_seconds policy) None None), EndVisit reason)"

fun replace_advertisement :: "'c waiting_state \<Rightarrow> 'c advertisement \<Rightarrow> rat \<Rightarrow> 'c waiting_state" where
  "replace_advertisement (Searching e r a f) adv first_at = Searching e r (Some adv) (Some first_at)"
| "replace_advertisement (CoolingDown e c r a f) adv first_at = CoolingDown e c r (Some adv) (Some first_at)"
| "replace_advertisement (RetryWaiting e t r i a f b) adv first_at = RetryWaiting e t r i (Some adv) (Some first_at) b"

fun clear_arrival :: "'c waiting_state \<Rightarrow> 'c waiting_state" where
  "clear_arrival (Searching e r a f) = Searching e r None None"
| "clear_arrival (CoolingDown e c r a f) = CoolingDown e c r None None"
| "clear_arrival (RetryWaiting e t r i a f b) = RetryWaiting e t r i None None b"

fun refresh_retry_absence :: "'c waiting_state \<Rightarrow> rat \<Rightarrow> presence_policy \<Rightarrow> 'c waiting_state" where
  "refresh_retry_absence (RetryWaiting e t r i a f b) observed policy =
     RetryWaiting e t r i a f
       (Some (let absence_at = observed + absence_seconds policy
              in case b of None \<Rightarrow> absence_at | Some x \<Rightarrow> max absence_at x))"
| "refresh_retry_absence w observed policy = w"

fun is_retry_waiting :: "'c waiting_state \<Rightarrow> bool" where
  "is_retry_waiting (RetryWaiting e t r i a f b) = True"
| "is_retry_waiting _ = False"

text \<open>The start of the encounter that the new advertisement belongs to.\<close>

definition encounter_start :: "'c waiting_state \<Rightarrow> 'c advertisement \<Rightarrow> presence_policy \<Rightarrow> rat" where
  "encounter_start w adv policy =
     (case waiting_advertisement w of
        None \<Rightarrow> observed_at adv
      | Some previous \<Rightarrow>
          if observed_at adv \<le> observed_at previous
             \<or> arrival_max_gap_seconds policy \<le> observed_at adv - observed_at previous
          then observed_at adv
          else case arrival_started_at w of None \<Rightarrow> observed_at adv | Some f \<Rightarrow> f)"

definition admit_advertisement ::
  "'c waiting_state \<Rightarrow> 'c advertisement \<Rightarrow> presence_policy \<Rightarrow> 'c presence_state \<times> 'c presence_directive" where
  "admit_advertisement w adv policy =
     (let first_at = encounter_start w adv policy in
      if arrival_stability_seconds policy \<le> observed_at adv - first_at
      then begin_attempt w (if is_retry_waiting w then RapidRetryTrigger adv else AdvertisementTrigger adv)
      else observe (replace_advertisement w adv first_at))"

text \<open>The rewrite of lines 351 to 355 for a retry whose permit carries an advertisement trigger.\<close>

fun rapid_directive :: "'c presence_state \<times> 'c presence_directive \<Rightarrow> 'c presence_state \<times> 'c presence_directive" where
  "rapid_directive (PAttempting (AdvertisementTrigger adv) w, d) =
     (PAttempting (AdvertisementTrigger adv) w, StopAndBeginAttempt (RapidRetryTrigger adv))"
| "rapid_directive r = r"

definition handle_advertisement ::
  "'c waiting_state \<Rightarrow> 'c advertisement \<Rightarrow> rat option \<Rightarrow> presence_policy \<Rightarrow> 'c presence_state \<times> 'c presence_directive" where
  "handle_advertisement w adv processed policy =
     (let processed_at = (case processed of None \<Rightarrow> observed_at adv | Some p \<Rightarrow> p) in
      if processed_at < observed_at adv \<or> observed_at adv + arrival_max_gap_seconds policy \<le> processed_at
      then observe (clear_arrival w)
      else case refresh_retry_absence w (observed_at adv) policy of
          Searching e r a f \<Rightarrow> admit_advertisement (Searching e r a f) adv policy
        | CoolingDown e c r a f \<Rightarrow>
            if observed_at adv < c then observe (CoolingDown e c r a f)
            else admit_advertisement (CoolingDown e c r a f) adv policy
        | RetryWaiting e t r i a f b \<Rightarrow>
            if (case t of None \<Rightarrow> False | Some x \<Rightarrow> observed_at adv < x) then observe (RetryWaiting e t r i a f b)
            else rapid_directive (admit_advertisement (RetryWaiting e t r i a f b) adv policy))"

definition handle_cooldown_timer ::
  "nat \<Rightarrow> rat \<Rightarrow> rat \<Rightarrow> 'c advertisement option \<Rightarrow> rat option \<Rightarrow> rat \<Rightarrow> presence_policy
     \<Rightarrow> 'c presence_state \<times> 'c presence_directive" where
  "handle_cooldown_timer e c r a f now policy =
     (if now < c then observe (CoolingDown e c r a f)
      else observe (Searching (e + 1) (now + scan_recheck_seconds policy) None None))"

definition handle_retry_timer ::
  "nat \<Rightarrow> rat option \<Rightarrow> rat \<Rightarrow> nat \<Rightarrow> 'c advertisement option \<Rightarrow> rat option \<Rightarrow> rat option \<Rightarrow> rat \<Rightarrow> presence_policy
     \<Rightarrow> 'c presence_state \<times> 'c presence_directive" where
  "handle_retry_timer e t r i a f b now policy =
     (let w = RetryWaiting e t r i a f b;
          recheck = (if r > now then r else now + scan_recheck_seconds policy) in
      if now < armed_deadline w then observe w
      else if (case b of None \<Rightarrow> False | Some x \<Rightarrow> x \<le> now) then end_visit w now EndAbsence policy
      else case t of
          Some x \<Rightarrow>
            if now < x then observe (RetryWaiting (e + 1) t (now + scan_recheck_seconds policy) i a f b)
            else observe (RetryWaiting (e + 1) None recheck i a f b)
        | None \<Rightarrow> observe (RetryWaiting (e + 1) None recheck i a f b))"

definition handle_timer ::
  "'c waiting_state \<Rightarrow> rat \<Rightarrow> rat \<Rightarrow> nat \<Rightarrow> presence_policy \<Rightarrow> 'c presence_state \<times> 'c presence_directive" where
  "handle_timer w now deadline epoch policy =
     (if epoch \<noteq> timer_epoch w \<or> deadline \<noteq> armed_deadline w then (PWaiting w, NoOperation)
      else case w of
          Searching e r a f \<Rightarrow>
            if now < r then observe w else observe (Searching (e + 1) (now + scan_recheck_seconds policy) a f)
        | CoolingDown e c r a f \<Rightarrow> handle_cooldown_timer e c r a f now policy
        | RetryWaiting e t r i a f b \<Rightarrow> handle_retry_timer e t r i a f b now policy)"

fun retry_count :: "'c waiting_state \<Rightarrow> nat" where
  "retry_count (RetryWaiting e t r i a f b) = i"
| "retry_count _ = 0"

definition retry_waiting :: "'c waiting_state \<Rightarrow> rat \<Rightarrow> bool \<Rightarrow> presence_policy \<Rightarrow> 'c presence_result" where
  "retry_waiting w now durable_progress policy =
     (let previous_count = retry_count w;
          retry_index = (if durable_progress then 0 else previous_count + 1);
          delay_index = (if durable_progress then 0 else retry_index - 1) in
      if \<not> durable_progress \<and> length (rapid_backoff policy) \<le> previous_count
      then Inr (end_visit w now EndRecoveryExhausted policy)
      else if rapid_backoff policy = [] then Inl PresenceIndexError
      else Inr (observe (RetryWaiting (timer_epoch w + 1)
                 (Some (now + rapid_backoff policy ! min delay_index (length (rapid_backoff policy) - 1)))
                 (now + scan_recheck_seconds policy) retry_index None None
                 (Some (now + absence_seconds policy)))))"

definition handle_attempting ::
  "'c waiting_state \<Rightarrow> rat \<Rightarrow> attempt_outcome \<Rightarrow> presence_policy \<Rightarrow> 'c presence_result" where
  "handle_attempting w now outcome policy =
     (case outcome of
        CleanDrain \<Rightarrow>
          Inr (observe (CoolingDown (timer_epoch w + 1) (now + drain_cooldown_seconds policy)
                 (now + drain_cooldown_seconds policy) None None))
      | CandidateUnavailable \<Rightarrow>
          Inr (if is_retry_waiting w then observe (clear_arrival w)
               else observe (Searching (timer_epoch w + 1) (now + scan_recheck_seconds policy) None None))
      | ConnectedInterruption durable_progress \<Rightarrow> retry_waiting w now durable_progress policy
      | NotConnected durable_progress \<Rightarrow> retry_waiting w now durable_progress policy)"

fun resume_waiting :: "'c waiting_state \<Rightarrow> rat \<Rightarrow> presence_policy \<Rightarrow> 'c waiting_state" where
  "resume_waiting (Searching e r a f) now policy = RetryWaiting e None r 0 a f (Some (now + absence_seconds policy))"
| "resume_waiting (CoolingDown e c r a f) now policy = RetryWaiting e None r 0 a f (Some (now + absence_seconds policy))"
| "resume_waiting (RetryWaiting e t r i a f b) now policy = RetryWaiting e t r i a f (Some (now + absence_seconds policy))"

fun handle_resume_interrupted_visit ::
  "'c waiting_state \<Rightarrow> rat \<Rightarrow> presence_policy \<Rightarrow> 'c presence_state \<times> 'c presence_directive" where
  "handle_resume_interrupted_visit (CoolingDown e c r a f) now policy = (PWaiting (CoolingDown e c r a f), NoOperation)"
| "handle_resume_interrupted_visit w now policy = observe (resume_waiting w now policy)"

definition handle_scanner_interrupted :: "'c waiting_state \<Rightarrow> 'c presence_state \<times> 'c presence_directive" where
  "handle_scanner_interrupted w = observe (clear_arrival w)"

definition transition_waiting ::
  "'c waiting_state \<Rightarrow> 'c presence_event \<Rightarrow> presence_policy \<Rightarrow> 'c presence_result" where
  "transition_waiting w event policy =
     (case event of
        ResumeInterruptedVisit now \<Rightarrow> Inr (handle_resume_interrupted_visit w now policy)
      | ScannerInterrupted now \<Rightarrow> Inr (handle_scanner_interrupted w)
      | AdvertisementObserved adv processed \<Rightarrow> Inr (handle_advertisement w adv processed policy)
      | PresenceTimerFired now deadline epoch \<Rightarrow> Inr (handle_timer w now deadline epoch policy)
      | PresenceShutdown now \<Rightarrow> Inr (PClosed, StopObservation)
      | AttemptFinished now outcome \<Rightarrow> Inl UnexpectedAttemptOutcome)"

definition transition_attempting ::
  "'c attempt_trigger \<Rightarrow> 'c waiting_state \<Rightarrow> 'c presence_event \<Rightarrow> presence_policy \<Rightarrow> 'c presence_result" where
  "transition_attempting trigger w event policy =
     (case event of
        PresenceShutdown now \<Rightarrow> Inr (PClosed, StopObservation)
      | AttemptFinished now outcome \<Rightarrow> handle_attempting w now outcome policy
      | ResumeInterruptedVisit now \<Rightarrow> Inr (PAttempting trigger (resume_waiting w now policy), NoOperation)
      | _ \<Rightarrow> Inr (PAttempting trigger w, NoOperation))"

definition presence_transition :: "presence_policy \<Rightarrow> 'c presence_state \<Rightarrow> 'c presence_event \<Rightarrow> 'c presence_result" where
  "presence_transition policy s event =
     (case s of
        PClosed \<Rightarrow> Inr (PClosed, NoOperation)
      | PWaiting w \<Rightarrow> transition_waiting w event policy
      | PAttempting trigger w \<Rightarrow> transition_attempting trigger w event policy)"

section \<open>Scanner cadence\<close>

datatype cadence_error = CadenceValueError

record scan_cadence_policy =
  active_seconds :: rat
  pause_seconds :: rat

definition new_scan_cadence_policy :: "rat \<Rightarrow> rat \<Rightarrow> (cadence_error, scan_cadence_policy) result" where
  "new_scan_cadence_policy active pause =
     (if active \<le> 0 \<or> pause \<le> 0 then Inl CadenceValueError
      else Inr \<lparr>active_seconds = active, pause_seconds = pause\<rparr>)"

datatype scan_cadence_state =
    ScanReady
  | ScanStarting nat bool
  | ScanActive nat rat bool
  | ScanPaused rat

fun scan_deadline :: "scan_cadence_state \<Rightarrow> scan_cadence_policy \<Rightarrow> rat option" where
  "scan_deadline (ScanActive g started saw) policy = (if saw then Some (started + active_seconds policy) else None)"
| "scan_deadline _ policy = None"

fun record_radio_activity :: "scan_cadence_state \<Rightarrow> nat \<Rightarrow> scan_cadence_state option" where
  "record_radio_activity (ScanStarting g saw) generation =
     (if g = generation \<and> \<not> saw then Some (ScanStarting generation True) else None)"
| "record_radio_activity (ScanActive g started saw) generation =
     (if g = generation \<and> \<not> saw then Some (ScanActive generation started True) else None)"
| "record_radio_activity _ generation = None"

definition can_pause :: "scan_cadence_state \<Rightarrow> rat \<Rightarrow> bool \<Rightarrow> bool \<Rightarrow> scan_cadence_policy \<Rightarrow> bool" where
  "can_pause state now searching fresh_candidate policy =
     (case scan_deadline state policy of
        None \<Rightarrow> False
      | Some d \<Rightarrow> d \<le> now \<and> searching \<and> \<not> fresh_candidate)"


lemmas presence_handler_defs =
  presence_transition_def transition_waiting_def transition_attempting_def handle_attempting_def retry_waiting_def
  handle_scanner_interrupted_def handle_timer_def handle_retry_timer_def handle_cooldown_timer_def observe_def
  begin_attempt_def end_visit_def

section \<open>Encounters\<close>

text \<open>The advertisements of a history, in the order in which they were reported.\<close>

fun observed_ads :: "'c presence_event list \<Rightarrow> 'c advertisement list" where
  "observed_ads [] = []"
| "observed_ads (AdvertisementObserved adv p # es) = adv # observed_ads es"
| "observed_ads (_ # es) = observed_ads es"

lemma observed_ads_append [simp]: "observed_ads (es @ fs) = observed_ads es @ observed_ads fs"
  by (induction es rule: observed_ads.induct) auto

text \<open>
  An unbroken encounter: advertisements with increasing times and gaps below the allowed maximum, the
  first at time \<open>f\<close> and the last one \<open>a\<close>.
\<close>

definition close_after :: "presence_policy \<Rightarrow> 'c advertisement \<Rightarrow> 'c advertisement \<Rightarrow> bool" where
  "close_after policy x y \<longleftrightarrow>
     observed_at x < observed_at y \<and> observed_at y - observed_at x < arrival_max_gap_seconds policy"

definition encounter :: "presence_policy \<Rightarrow> 'c advertisement list \<Rightarrow> rat \<Rightarrow> 'c advertisement \<Rightarrow> bool" where
  "encounter policy tr f a \<longleftrightarrow>
     (\<exists>ads. subseq ads tr \<and> ads \<noteq> [] \<and> observed_at (hd ads) = f \<and> last ads = a \<and> successively (close_after policy) ads)"

definition arrival_backed :: "presence_policy \<Rightarrow> 'c advertisement list \<Rightarrow> 'c waiting_state \<Rightarrow> bool" where
  "arrival_backed policy tr w \<longleftrightarrow>
     (\<forall>a. waiting_advertisement w = Some a \<longrightarrow> (\<exists>f. arrival_started_at w = Some f \<and> encounter policy tr f a))"

fun presence_backed :: "presence_policy \<Rightarrow> 'c advertisement list \<Rightarrow> 'c presence_state \<Rightarrow> bool" where
  "presence_backed policy tr (PWaiting w) = arrival_backed policy tr w"
| "presence_backed policy tr (PAttempting trigger w) = arrival_backed policy tr w"
| "presence_backed policy tr PClosed = True"

lemma encounter_mono: "encounter policy tr f a \<Longrightarrow> encounter policy (tr @ zs) f a"
  unfolding encounter_def by (metis subseq_rev_drop_many)

lemma encounter_new: "encounter policy (tr @ [a]) (observed_at a) a"
  unfolding encounter_def by (intro exI [of _ "[a]"]) (simp add: subseq_singleton_left)

lemma encounter_extend:
  assumes "encounter policy tr f x" and "close_after policy x a"
  shows "encounter policy (tr @ [a]) f a"
proof -
  obtain ads where "subseq ads tr" "ads \<noteq> []" "observed_at (hd ads) = f" "last ads = x" "successively (close_after policy) ads"
    using assms(1) unfolding encounter_def by blast
  then show ?thesis
    unfolding encounter_def using assms(2)
    by (intro exI [of _ "ads @ [a]"]) (simp add: successively_append_iff list_emb_append_mono)
qed

lemma encounter_start_backed:
  assumes "arrival_backed policy tr w"
  shows "encounter policy (tr @ [adv]) (encounter_start w adv policy) adv"
proof (cases "waiting_advertisement w")
  case None
  then show ?thesis by (simp add: encounter_start_def encounter_new)
next
  case (Some x)
  then obtain f where "arrival_started_at w = Some f" "encounter policy tr f x"
    using assms by (auto simp: arrival_backed_def)
  then show ?thesis
    using Some by (auto simp: encounter_start_def encounter_new close_after_def intro: encounter_extend)
qed

lemma arrival_fields [simp]:
  "waiting_advertisement (clear_arrival w) = None"
  "waiting_advertisement (resume_waiting w t policy) = waiting_advertisement w"
  "arrival_started_at (resume_waiting w t policy) = arrival_started_at w"
  "waiting_advertisement (refresh_retry_absence w t policy) = waiting_advertisement w"
  "arrival_started_at (refresh_retry_absence w t policy) = arrival_started_at w"
  "waiting_advertisement (replace_advertisement w adv f) = Some adv"
  "arrival_started_at (replace_advertisement w adv f) = Some f"
  by (cases w; simp)+

lemma arrival_backed_simps [simp]:
  "arrival_backed policy tr (clear_arrival w)"
  "arrival_backed policy tr (resume_waiting w t policy) = arrival_backed policy tr w"
  "arrival_backed policy tr (refresh_retry_absence w t policy) = arrival_backed policy tr w"
  "arrival_backed policy tr (Searching e r None f)"
  "arrival_backed policy tr (CoolingDown e c r None f)"
  "arrival_backed policy tr (RetryWaiting e t' r i None f b)"
  by (simp_all add: arrival_backed_def)

lemma arrival_backed_fields:
  "waiting_advertisement w = waiting_advertisement w' \<Longrightarrow> arrival_started_at w = arrival_started_at w' \<Longrightarrow>
     arrival_backed policy tr w = arrival_backed policy tr w'"
  by (simp add: arrival_backed_def)

lemma presence_backed_mono: "presence_backed policy tr s \<Longrightarrow> presence_backed policy (tr @ zs) s"
  by (cases s) (auto simp: arrival_backed_def intro: encounter_mono)

lemma admit_advertisement_backed:
  assumes "arrival_backed policy tr w" and "admit_advertisement w adv policy = (s, d)"
  shows "presence_backed policy (tr @ [adv]) s"
  using assms presence_backed_mono [of policy tr "PWaiting w" "[adv]"] encounter_start_backed [OF assms(1)]
  by (auto simp: admit_advertisement_def begin_attempt_def observe_def Let_def arrival_backed_def split: if_splits)

text \<open>How \<open>_handle_advertisement\<close> ends: it observes, or admits the advertisement.\<close>

lemma handle_advertisement_cases:
  obtains (observe) w' where "handle_advertisement w adv p policy = observe w'"
      "w' = clear_arrival w \<or> w' = refresh_retry_absence w (observed_at adv) policy"
  | (admit) "handle_advertisement w adv p policy
        = admit_advertisement (refresh_retry_absence w (observed_at adv) policy) adv policy"
      "observed_at adv \<le> (case p of None \<Rightarrow> observed_at adv | Some t \<Rightarrow> t)"
      "(case p of None \<Rightarrow> observed_at adv | Some t \<Rightarrow> t) < observed_at adv + arrival_max_gap_seconds policy"
proof -
  have rapid: "rapid_directive (admit_advertisement (RetryWaiting e t r i a f b) adv policy)
      = admit_advertisement (RetryWaiting e t r i a f b) adv policy" for e t r i a f b
    by (simp add: admit_advertisement_def begin_attempt_def observe_def Let_def)
  let ?t = "case p of None \<Rightarrow> observed_at adv | Some t \<Rightarrow> t"
  let ?w = "refresh_retry_absence w (observed_at adv) policy"
  show thesis
  proof (cases "?t < observed_at adv \<or> observed_at adv + arrival_max_gap_seconds policy \<le> ?t")
    case True
    then show thesis by (intro that(1) [of "clear_arrival w"]) (simp_all add: handle_advertisement_def)
  next
    case False
    then have "handle_advertisement w adv p policy = observe ?w
        \<or> handle_advertisement w adv p policy = admit_advertisement ?w adv policy"
      by (cases w) (simp_all add: handle_advertisement_def rapid)
    with False that(2) that(1) [of ?w] show thesis by (auto simp: not_less not_le)
  qed
qed


lemma presence_step_backed:
  assumes "presence_backed policy tr s" and "presence_transition policy s e = Inr (t, d)"
  shows "presence_backed policy (tr @ observed_ads [e]) t"
proof (cases s)
  case (PWaiting w)
  show ?thesis
  proof (cases "\<exists>adv p. e = AdvertisementObserved adv p")
    case True
    then obtain adv p where e: "e = AdvertisementObserved adv p" by blast
    have r: "handle_advertisement w adv p policy = (t, d)"
      using assms(2) by (simp add: PWaiting e presence_transition_def transition_waiting_def)
    show ?thesis
    proof (cases rule: handle_advertisement_cases [of w adv p policy])
      case (observe w')
      then show ?thesis
        using r assms(1) presence_backed_mono [of policy tr "PWaiting w" "[adv]"] by (auto simp: PWaiting e observe_def)
    next
      case admit
      have "arrival_backed policy tr (refresh_retry_absence w (observed_at adv) policy)"
        using assms(1) by (simp add: PWaiting)
      from admit_advertisement_backed [OF this, of adv t d] admit(1) r show ?thesis by (simp add: e)
    qed
  next
    case False
    then have "observed_ads [e] = []" by (cases e) auto
    then show ?thesis
      using assms False unfolding PWaiting
      by (cases e; cases w)
        (auto simp: presence_handler_defs arrival_backed_def Let_def split: if_splits option.splits)
  qed
next
  case (PAttempting trigger w)
  have "arrival_backed policy (tr @ observed_ads [e]) w"
    using presence_backed_mono [OF assms(1), of "observed_ads [e]"] by (simp add: PAttempting)
  then show ?thesis
    using assms(2) unfolding PAttempting
    by (cases e) (auto simp: presence_handler_defs Let_def split: if_splits attempt_outcome.splits)
qed (use assms in \<open>simp add: presence_transition_def\<close>)

lemma presence_run_backed:
  "run (presence_transition policy) s es = Inr (t, ds) \<Longrightarrow> presence_backed policy tr s \<Longrightarrow>
     presence_backed policy (tr @ observed_ads es) t"
proof (induction es arbitrary: s ds tr)
  case (Cons e es)
  then obtain u d cs where "presence_transition policy s e = Inr (u, d)" "run (presence_transition policy) u es = Inr (t, cs)"
    by (auto simp: run_Cons_Inr simp del: run.simps(2))
  then have "presence_backed policy ((tr @ observed_ads [e]) @ observed_ads es) t"
    using Cons presence_step_backed by blast
  then show ?case using observed_ads_append [of "[e]" es] by (simp del: observed_ads.simps)
qed simp

lemma presence_permit_step:
  assumes "presence_backed policy tr s" and "presence_transition policy s e = Inr (t, StopAndBeginAttempt trig)"
  shows "\<exists>adv p f. e = AdvertisementObserved adv p \<and> trig \<in> {AdvertisementTrigger adv, RapidRetryTrigger adv}
     \<and> (\<forall>q. p = Some q \<longrightarrow> observed_at adv \<le> q \<and> q < observed_at adv + arrival_max_gap_seconds policy)
     \<and> encounter policy (tr @ [adv]) f adv \<and> arrival_stability_seconds policy \<le> observed_at adv - f
     \<and> (\<exists>w. s = PWaiting w) \<and> (\<exists>w. t = PAttempting trig w)"
proof (cases s)
  case (PWaiting w)
  have "\<exists>adv p. e = AdvertisementObserved adv p"
    using assms(2) unfolding PWaiting
    by (cases e; cases w) (auto simp: presence_handler_defs Let_def split: if_splits option.splits)
  then obtain adv p where e: "e = AdvertisementObserved adv p" by blast
  have r: "handle_advertisement w adv p policy = (t, StopAndBeginAttempt trig)"
    using assms(2) by (simp add: PWaiting e presence_transition_def transition_waiting_def)
  show ?thesis
  proof (cases rule: handle_advertisement_cases [of w adv p policy])
    case (observe w')
    then show ?thesis using r by (simp add: observe_def)
  next
    case admit
    let ?w = "refresh_retry_absence w (observed_at adv) policy"
    have "encounter policy (tr @ [adv]) (encounter_start ?w adv policy) adv"
      using assms(1) by (intro encounter_start_backed) (simp add: PWaiting)
    moreover have "arrival_stability_seconds policy \<le> observed_at adv - encounter_start ?w adv policy"
        "trig \<in> {AdvertisementTrigger adv, RapidRetryTrigger adv}" "t = PAttempting trig ?w"
      using r unfolding admit(1) by (auto simp: admit_advertisement_def begin_attempt_def observe_def Let_def split: if_splits)
    ultimately show ?thesis using admit(2,3) e PWaiting by auto
  qed
qed (use assms(2) in \<open>auto simp: presence_handler_defs Let_def split: presence_event.splits attempt_outcome.splits if_splits\<close>)

lemma permit_shape:
  assumes "presence_transition policy s e = Inr (t, StopAndBeginAttempt trig)"
  shows "(\<exists>w. s = PWaiting w) \<and> (\<exists>w. t = PAttempting trig w)"
proof (cases s)
  case (PWaiting w)
  show ?thesis
  proof (cases "\<exists>adv p. e = AdvertisementObserved adv p")
    case True
    then obtain adv p where "handle_advertisement w adv p policy = (t, StopAndBeginAttempt trig)"
      using assms by (auto simp: PWaiting presence_transition_def transition_waiting_def)
    then show ?thesis
      by (cases rule: handle_advertisement_cases [of w adv p policy])
        (auto simp: PWaiting observe_def admit_advertisement_def begin_attempt_def Let_def split: if_splits)
  next
    case False
    then show ?thesis
      using assms unfolding PWaiting
      by (cases e; cases w) (auto simp: presence_handler_defs Let_def split: if_splits option.splits)
  qed
qed (use assms in \<open>auto simp: presence_handler_defs Let_def split: presence_event.splits attempt_outcome.splits if_splits\<close>)

section \<open>Properties\<close>

text \<open>
  C35: an attempt is permitted only after a stable encounter.  In any accepted history from the initial
  state, a permit answers an advertisement that was processed while it was fresh, its trigger carries that
  advertisement, and the history contains advertisements that end with it, each observed after the one
  before by less than the allowed gap, over at least the stability time.
\<close>

theorem permit_needs_stable_encounter:
  assumes "run (presence_transition policy) (PWaiting (presence_initial_state start policy)) es = Inr (s, ds)"
    and "i < length ds" and "ds ! i = StopAndBeginAttempt trig"
  shows "\<exists>adv p ads. es ! i = AdvertisementObserved adv p \<and> trig \<in> {AdvertisementTrigger adv, RapidRetryTrigger adv}
     \<and> (\<forall>q. p = Some q \<longrightarrow> observed_at adv \<le> q \<and> q < observed_at adv + arrival_max_gap_seconds policy)
     \<and> subseq ads (observed_ads (take (Suc i) es)) \<and> ads \<noteq> [] \<and> last ads = adv
     \<and> successively (close_after policy) ads
     \<and> arrival_stability_seconds policy \<le> observed_at adv - observed_at (hd ads)"
proof -
  obtain u v where u: "run (presence_transition policy) (PWaiting (presence_initial_state start policy)) (take i es) = Inr (u, take i ds)"
    and v: "presence_transition policy u (es ! i) = Inr (v, StopAndBeginAttempt trig)"
    using run_nth [OF assms(1,2)] assms(3) by auto
  have "presence_backed policy ([] @ observed_ads (take i es)) u"
    by (rule presence_run_backed [OF u]) (simp add: presence_initial_state_def)
  from presence_permit_step [OF this v] obtain adv p f where
    e: "es ! i = AdvertisementObserved adv p" and
    rest: "trig \<in> {AdvertisementTrigger adv, RapidRetryTrigger adv}"
      "\<forall>q. p = Some q \<longrightarrow> observed_at adv \<le> q \<and> q < observed_at adv + arrival_max_gap_seconds policy"
      "encounter policy (observed_ads (take i es) @ [adv]) f adv" "arrival_stability_seconds policy \<le> observed_at adv - f"
    by auto
  have "take (Suc i) es = take i es @ [es ! i]"
    using assms(2) run_length [OF assms(1)] by (simp add: take_Suc_conv_app_nth)
  then have "observed_ads (take (Suc i) es) = observed_ads (take i es) @ [adv]" by (simp add: e)
  with e rest show ?thesis unfolding encounter_def by metis
qed


text \<open>A policy and three sightings that make a stable encounter.\<close>

definition sample_policy :: presence_policy where
  "sample_policy = \<lparr>absence_seconds = 300, scan_recheck_seconds = 60, drain_cooldown_seconds = 900,
     rapid_backoff = [5, 10], arrival_stability_seconds = 12, arrival_max_gap_seconds = 10\<rparr>"

definition sighting :: "rat \<Rightarrow> nat advertisement" where
  "sighting t = \<lparr>candidate = 1, observed_at = t, rssi_dbm = None\<rparr>"

lemma sample_encounter:
  "run (presence_transition sample_policy) (PWaiting (presence_initial_state 0 sample_policy))
     [AdvertisementObserved (sighting 1) None, AdvertisementObserved (sighting 8) None, AdvertisementObserved (sighting 14) None]
   = Inr (PAttempting (AdvertisementTrigger (sighting 14)) (Searching 0 60 (Some (sighting 8)) (Some 1)),
       [Observe, Observe, StopAndBeginAttempt (AdvertisementTrigger (sighting 14))])"
  by (simp add: presence_transition_def transition_waiting_def handle_advertisement_def admit_advertisement_def
      encounter_start_def begin_attempt_def observe_def presence_initial_state_def sample_policy_def sighting_def)

theorem permit_needs_stable_encounter_witness:
  "\<exists>ads. subseq ads [sighting 1, sighting 8, sighting 14] \<and> last ads = sighting 14
     \<and> 12 \<le> observed_at (sighting 14) - observed_at (hd ads)"
  using permit_needs_stable_encounter [OF sample_encounter, of 2 "AdvertisementTrigger (sighting 14)"]
  by (auto simp: sample_policy_def)

definition not_waiting :: "'c presence_state \<Rightarrow> bool" where
  "not_waiting s \<longleftrightarrow> (\<forall>w. s \<noteq> PWaiting w)"

lemma not_waiting_kept:
  "not_waiting s \<Longrightarrow> (\<forall>now x. e \<noteq> AttemptFinished now x) \<Longrightarrow> presence_transition policy s e = Inr (t, d) \<Longrightarrow> not_waiting t"
  by (cases s; cases e) (auto simp: not_waiting_def presence_transition_def transition_attempting_def)

interpretation presence_closed: absorbing_machine "presence_transition policy" "\<lambda>s. s = PClosed" for policy
  by unfold_locales (auto simp: presence_transition_def)

lemma shutdown_closes: "presence_transition policy s (PresenceShutdown now) = Inr (t, d) \<Longrightarrow> t = PClosed"
  by (cases s) (auto simp: presence_transition_def transition_attempting_def transition_waiting_def)

text \<open>
  There is never a second permit while an attempt is running.  Between two permits of an accepted
  history the first attempt has finished, and no permit is ever issued after a shutdown.
\<close>

theorem permits_are_exclusive:
  assumes "run (presence_transition policy) s es = Inr (t, ds)" and "i < j" and "j < length ds"
    and "ds ! j = StopAndBeginAttempt trig2"
  shows "(\<forall>trig1. ds ! i = StopAndBeginAttempt trig1 \<longrightarrow>
        (\<exists>k now x. i < k \<and> k < j \<and> es ! k = AttemptFinished now x))
    \<and> (\<forall>now. es ! i \<noteq> PresenceShutdown now)"
proof -
  obtain u u' v v' where u: "presence_transition policy u (es ! i) = Inr (u', ds ! i)"
    and v: "presence_transition policy v (es ! j) = Inr (v', ds ! j)"
    and keep: "\<forall>P Q. (\<forall>s e t c. P s \<longrightarrow> Q e \<longrightarrow> presence_transition policy s e = Inr (t, c) \<longrightarrow> P t) \<longrightarrow> P u' \<longrightarrow>
           (\<forall>k. i < k \<longrightarrow> k < j \<longrightarrow> Q (es ! k)) \<longrightarrow> P v"
    using assms(1-3) by (rule run_between)
  obtain w where w: "v = PWaiting w" using permit_shape v assms(4) by fastforce
  have "\<exists>k now x. i < k \<and> k < j \<and> es ! k = AttemptFinished now x" if "ds ! i = StopAndBeginAttempt trig1" for trig1
  proof (rule ccontr)
    assume none: "\<not> ?thesis"
    have "not_waiting u'" using permit_shape u that by (fastforce simp: not_waiting_def)
    then have "not_waiting v"
      using none not_waiting_kept
      by (intro keep [rule_format, of not_waiting "\<lambda>e. \<forall>now x. e \<noteq> AttemptFinished now x"]) blast+
    then show False by (simp add: w not_waiting_def)
  qed
  moreover have False if "es ! i = PresenceShutdown now" for now
  proof -
    have "u' = PClosed" using shutdown_closes u that by metis
    then have "v = PClosed"
      using presence_closed.final_step by (intro keep [rule_format, of "\<lambda>x. x = PClosed" "\<lambda>_. True"]) blast+
    then show False by (simp add: w)
  qed
  ultimately show ?thesis by blast
qed

theorem permits_are_exclusive_witness:
  "\<exists>k now x. 2 < k \<and> k < 6 \<and>
     [AdvertisementObserved (sighting 1) None, AdvertisementObserved (sighting 8) None, AdvertisementObserved (sighting 14) None,
      AttemptFinished 20 CandidateUnavailable, AdvertisementObserved (sighting 21) None, AdvertisementObserved (sighting 28) None,
      AdvertisementObserved (sighting 34) None] ! k = AttemptFinished now x"
proof -
  let ?es = "[AdvertisementObserved (sighting 1) None, AdvertisementObserved (sighting 8) None, AdvertisementObserved (sighting 14) None,
      AttemptFinished 20 CandidateUnavailable, AdvertisementObserved (sighting 21) None, AdvertisementObserved (sighting 28) None,
      AdvertisementObserved (sighting 34) None]"
  have r: "run (presence_transition sample_policy) (PWaiting (presence_initial_state 0 sample_policy)) ?es
      = Inr (PAttempting (AdvertisementTrigger (sighting 34)) (Searching 1 80 (Some (sighting 28)) (Some 21)),
          [Observe, Observe, StopAndBeginAttempt (AdvertisementTrigger (sighting 14)), Observe, Observe, Observe,
           StopAndBeginAttempt (AdvertisementTrigger (sighting 34))])"
    by (simp add: presence_transition_def transition_waiting_def transition_attempting_def handle_attempting_def
        handle_advertisement_def admit_advertisement_def encounter_start_def begin_attempt_def observe_def
        presence_initial_state_def sample_policy_def sighting_def)
  show ?thesis using permits_are_exclusive [OF r, of 2 6] by simp
qed

section \<open>Bounded retries\<close>

fun presence_retries :: "'c presence_state \<Rightarrow> nat" where
  "presence_retries (PWaiting w) = retry_count w"
| "presence_retries (PAttempting trigger w) = retry_count w"
| "presence_retries PClosed = 0"

definition failed_attempt :: "'c presence_event \<Rightarrow> bool" where
  "failed_attempt e \<longleftrightarrow> (\<exists>now. e = AttemptFinished now (NotConnected False) \<or> e = AttemptFinished now (ConnectedInterruption False))"

definition progress_attempt :: "'c presence_event \<Rightarrow> bool" where
  "progress_attempt e \<longleftrightarrow>
     (\<exists>now x. e = AttemptFinished now x \<and> x \<in> {CleanDrain, NotConnected True, ConnectedInterruption True})"

lemma retry_count_simps [simp]:
  "retry_count (clear_arrival w) = retry_count w"
  "retry_count (refresh_retry_absence w t policy) = retry_count w"
  "retry_count (resume_waiting w t policy) = retry_count w"
  "retry_count (replace_advertisement w adv f) = retry_count w"
  by (cases w; simp)+

lemma retry_count_zero: "\<not> is_retry_waiting w \<Longrightarrow> retry_count w = 0"
  by (cases w) simp_all

lemma advertisement_retries:
  "handle_advertisement w adv p policy = (t, d) \<Longrightarrow> presence_retries t = retry_count w \<and> t \<noteq> PClosed \<and> (\<forall>r. d \<noteq> EndVisit r)"
  by (cases rule: handle_advertisement_cases [of w adv p policy])
    (auto simp: observe_def admit_advertisement_def begin_attempt_def Let_def split: if_splits)

lemma presence_retries_step:
  assumes "presence_transition policy s e = Inr (t, d)" and "t \<noteq> PClosed"
    and "\<not> progress_attempt e" and "\<forall>r. d \<noteq> EndVisit r"
  shows "presence_retries t = presence_retries s + (if failed_attempt e then 1 else 0)"
proof (cases s)
  case (PWaiting w)
  show ?thesis
  proof (cases "\<exists>adv p. e = AdvertisementObserved adv p")
    case True
    then show ?thesis
      using assms advertisement_retries [of w _ _ policy t d]
      by (auto simp: PWaiting presence_transition_def transition_waiting_def failed_attempt_def)
  next
    case False
    then show ?thesis
      using assms unfolding PWaiting
      by (cases e; cases w)
        (auto simp: presence_handler_defs failed_attempt_def Let_def split: if_splits option.splits)
  qed
next
  case (PAttempting trigger w)
  then show ?thesis
    using assms unfolding PAttempting
    by (cases e)
      (auto simp: presence_handler_defs failed_attempt_def progress_attempt_def retry_count_zero Let_def
        split: if_splits attempt_outcome.splits)
qed (use assms in \<open>simp add: presence_transition_def\<close>)

lemma presence_retries_bound:
  assumes "presence_transition policy s e = Inr (t, d)" and "presence_retries s \<le> length (rapid_backoff policy)"
  shows "presence_retries t \<le> length (rapid_backoff policy)"
proof (cases "t = PClosed \<or> progress_attempt e \<or> (\<exists>r. d = EndVisit r)")
  case True
  then show ?thesis
    using assms
    by (cases s; cases e)
      (auto simp: presence_handler_defs progress_attempt_def Let_def dest!: advertisement_retries
        split: if_splits option.splits waiting_state.splits attempt_outcome.splits elim!: handle_resume_interrupted_visit.elims)
next
  case False
  then have "presence_retries t = presence_retries s + (if failed_attempt e then 1 else 0)"
    using presence_retries_step assms(1) by blast
  moreover have "presence_retries s < length (rapid_backoff policy)" if "failed_attempt e"
    using False that assms
    by (cases s) (auto simp: presence_handler_defs failed_attempt_def Let_def split: if_splits)
  ultimately show ?thesis using assms(2) by (auto split: if_splits)
qed

interpretation presence_retry: invariant_machine "presence_transition policy"
    "\<lambda>s. presence_retries s \<le> length (rapid_backoff policy)" for policy
  by unfold_locales (rule presence_retries_bound)

text \<open>A stretch of one visit: no attempt makes progress, and only its last step may end the visit.\<close>

definition ends_visit :: "'c presence_directive \<Rightarrow> bool" where
  "ends_visit d \<longleftrightarrow> (\<exists>r. d = EndVisit r)"

lemma stretch_retries:
  assumes "run (presence_transition policy) s fs = Inr (t, ds)" and "t \<noteq> PClosed"
    and "\<forall>e \<in> set fs. \<not> progress_attempt e" and "\<forall>d \<in> set ds. \<not> ends_visit d"
  shows "presence_retries t = presence_retries s + length (filter failed_attempt fs)"
  using assms(1,3,4)
proof (induction fs arbitrary: s ds)
  case (Cons e fs)
  then obtain u d ds' where u: "presence_transition policy s e = Inr (u, d)" "run (presence_transition policy) u fs = Inr (t, ds')" "ds = d # ds'"
    by (auto simp: run_Cons_Inr simp del: run.simps(2))
  have "u \<noteq> PClosed" using presence_closed.absorbed.run_inv [OF _ u(2)] assms(2) by blast
  then show ?case using presence_retries_step [OF u(1)] Cons.IH [OF u(2)] Cons.prems u(3) by (auto simp: ends_visit_def)
qed simp

lemma stretch_bounded:
  assumes "presence_retries s \<le> length (rapid_backoff policy)"
    and "run (presence_transition policy) s fs = Inr (t, ds)" and "t \<noteq> PClosed"
    and "\<forall>e \<in> set fs. \<not> progress_attempt e" and "\<forall>d \<in> set ds. \<not> ends_visit d"
  shows "length (filter failed_attempt fs) \<le> length (rapid_backoff policy)"
  using stretch_retries [OF assms(2-5)] presence_retry.run_inv [OF assms(1,2)] by simp

text \<open>
  C36: recovery of one visit is bounded.  Take a stretch of an accepted history of the open machine in which no attempt
  makes durable progress or drains and no step but the last ends the visit.  At most as many attempts in it fail as the
  backoff table has delays, and one more only where the last step is the failure that ends the visit.
\<close>

theorem failed_attempts_bounded:
  assumes "run (presence_transition policy) (PWaiting (presence_initial_state start policy)) es = Inr (s, cs)"
    and "run (presence_transition policy) s fs = Inr (t, ds)" and "t \<noteq> PClosed"
    and "\<forall>e \<in> set fs. \<not> progress_attempt e" and "\<forall>d \<in> set (butlast ds). \<not> ends_visit d"
  shows "length (filter failed_attempt fs)
    \<le> length (rapid_backoff policy) + (if fs \<noteq> [] \<and> failed_attempt (last fs) \<and> ends_visit (last ds) then 1 else 0)"
proof -
  have "presence_retries (PWaiting (presence_initial_state start policy)) \<le> length (rapid_backoff policy)"
    by (simp add: presence_initial_state_def)
  then have s: "presence_retries s \<le> length (rapid_backoff policy)" using assms(1) by (rule presence_retry.run_inv)
  show ?thesis
  proof (cases fs rule: rev_cases)
    case (snoc gs e)
    then obtain u cs d where run: "run (presence_transition policy) s gs = Inr (u, cs)" "presence_transition policy u e = Inr (t, d)" "ds = cs @ [d]"
      using assms(2) by (auto simp: run_append_Inr run_Cons_Inr simp del: run.simps(2))
    have "u \<noteq> PClosed" using presence_closed.final_step run(2) assms(3) by blast
    then have "length (filter failed_attempt gs) \<le> length (rapid_backoff policy)"
      using stretch_bounded [OF s run(1)] assms(4,5) snoc run(3) by auto
    moreover have "length (filter failed_attempt fs) \<le> length (rapid_backoff policy)" if "\<not> ends_visit d"
      using stretch_bounded [OF s assms(2-4)] assms(5) run(3) that by auto
    ultimately show ?thesis using snoc run(3) by auto
  qed simp
qed

theorem failed_attempts_bounded_witness:
  "\<exists>(s :: nat presence_state) t ds. run (presence_transition sample_policy) s [AttemptFinished 20 (NotConnected False)] = Inr (t, ds)
     \<and> \<not> ends_visit (last ds)
     \<and> length (filter failed_attempt [AttemptFinished 20 (NotConnected False) :: nat presence_event]) \<le> 2"
proof -
  let ?s = "PAttempting (AdvertisementTrigger (sighting 14)) (Searching 0 60 (Some (sighting 8)) (Some 1))"
  have r: "run (presence_transition sample_policy) ?s [AttemptFinished 20 (NotConnected False)]
      = Inr (PWaiting (RetryWaiting 1 (Some 25) 80 1 None None (Some 320)), [Observe])"
    by (simp add: presence_handler_defs sample_policy_def)
  have "length (filter failed_attempt [AttemptFinished 20 (NotConnected False) :: nat presence_event]) \<le> length (rapid_backoff sample_policy)"
    using failed_attempts_bounded [OF sample_encounter r] by (simp add: progress_attempt_def ends_visit_def)
  then have "length (filter failed_attempt [AttemptFinished 20 (NotConnected False) :: nat presence_event]) \<le> 2"
    by (simp add: sample_policy_def)
  moreover have "\<not> ends_visit (last [Observe])" by (simp add: ends_visit_def)
  ultimately show ?thesis using r by blast
qed

end
