(* ===== verification/Quarantine_Machine.thy ===== *)
theory Quarantine_Machine
  imports Prelude
begin

text \<open>
  The lifecycle of one quarantined evidence directory (\<open>domain/quarantine_machine.py\<close>): a transition
  table from state and event to state and action, as an association list with the rows of the source.  A
  missing row is the exception of the reducer.
\<close>

section \<open>Data\<close>

datatype quarantine_state =
    QuarantineState_RECOVERING
  | QuarantineState_RETRYABLE
  | QuarantineState_INVALID_EVIDENCE
  | QuarantineState_OUTPUT_DURABLE_UNMARKED
  | QuarantineState_UNPROCESSABLE_UNMARKED
  | QuarantineState_PUBLISHED
  | QuarantineState_UNPROCESSABLE
  | QuarantineState_DEFERRED

datatype quarantine_lifecycle_event =
    QuarantineEvent_INSPECT
  | QuarantineEvent_RECOVERED_RETRYABLE
  | QuarantineEvent_RECOVERED_INVALID
  | QuarantineEvent_RECOVERED_OUTPUT_UNMARKED
  | QuarantineEvent_RECOVERED_UNPROCESSABLE
  | QuarantineEvent_RECOVERED_PUBLISHED
  | QuarantineEvent_OUTPUT_COMMITTED
  | QuarantineEvent_CLASSIFIED_UNPROCESSABLE
  | QuarantineEvent_RETRYABLE_FAILURE
  | QuarantineEvent_MARK_COMMITTED
  | QuarantineEvent_MARK_FAILED
  | QuarantineEvent_RETENTION_EXPIRED
  | QuarantineEvent_DEFER
  | QuarantineEvent_CANCEL
  | QuarantineEvent_RESTART

datatype quarantine_lifecycle_action =
    QuarantineAction_SALVAGE
  | QuarantineAction_REAUTHENTICATE
  | QuarantineAction_MARK_PUBLISHED
  | QuarantineAction_MARK_UNPROCESSABLE
  | QuarantineAction_KEEP
  | QuarantineAction_DELETE
  | QuarantineAction_SKIP
  | QuarantineAction_WAIT

datatype quarantine_lifecycle_decision =
  QuarantineDecision (decision_state: quarantine_state) (decision_action: quarantine_lifecycle_action)

datatype quarantine_transition_error = QuarantineTransitionError

section \<open>Transitions\<close>

definition quarantine_transitions ::
  "((quarantine_state \<times> quarantine_lifecycle_event) \<times> quarantine_lifecycle_decision) list" where
  "quarantine_transitions = [
     ((QuarantineState_RECOVERING, QuarantineEvent_RECOVERED_RETRYABLE), QuarantineDecision QuarantineState_RETRYABLE QuarantineAction_SALVAGE),
     ((QuarantineState_RECOVERING, QuarantineEvent_RECOVERED_INVALID), QuarantineDecision QuarantineState_INVALID_EVIDENCE QuarantineAction_REAUTHENTICATE),
     ((QuarantineState_RECOVERING, QuarantineEvent_RECOVERED_OUTPUT_UNMARKED), QuarantineDecision QuarantineState_OUTPUT_DURABLE_UNMARKED QuarantineAction_REAUTHENTICATE),
     ((QuarantineState_RECOVERING, QuarantineEvent_RECOVERED_UNPROCESSABLE), QuarantineDecision QuarantineState_UNPROCESSABLE QuarantineAction_SKIP),
     ((QuarantineState_RECOVERING, QuarantineEvent_RECOVERED_PUBLISHED), QuarantineDecision QuarantineState_PUBLISHED QuarantineAction_SKIP),
     ((QuarantineState_RETRYABLE, QuarantineEvent_INSPECT), QuarantineDecision QuarantineState_RETRYABLE QuarantineAction_SALVAGE),
     ((QuarantineState_INVALID_EVIDENCE, QuarantineEvent_INSPECT), QuarantineDecision QuarantineState_INVALID_EVIDENCE QuarantineAction_REAUTHENTICATE),
     ((QuarantineState_OUTPUT_DURABLE_UNMARKED, QuarantineEvent_INSPECT), QuarantineDecision QuarantineState_OUTPUT_DURABLE_UNMARKED QuarantineAction_REAUTHENTICATE),
     ((QuarantineState_UNPROCESSABLE_UNMARKED, QuarantineEvent_INSPECT), QuarantineDecision QuarantineState_UNPROCESSABLE_UNMARKED QuarantineAction_REAUTHENTICATE),
     ((QuarantineState_PUBLISHED, QuarantineEvent_INSPECT), QuarantineDecision QuarantineState_PUBLISHED QuarantineAction_SKIP),
     ((QuarantineState_UNPROCESSABLE, QuarantineEvent_INSPECT), QuarantineDecision QuarantineState_UNPROCESSABLE QuarantineAction_SKIP),
     ((QuarantineState_RETRYABLE, QuarantineEvent_OUTPUT_COMMITTED), QuarantineDecision QuarantineState_OUTPUT_DURABLE_UNMARKED QuarantineAction_MARK_PUBLISHED),
     ((QuarantineState_INVALID_EVIDENCE, QuarantineEvent_OUTPUT_COMMITTED), QuarantineDecision QuarantineState_OUTPUT_DURABLE_UNMARKED QuarantineAction_MARK_PUBLISHED),
     ((QuarantineState_OUTPUT_DURABLE_UNMARKED, QuarantineEvent_MARK_COMMITTED), QuarantineDecision QuarantineState_PUBLISHED QuarantineAction_KEEP),
     ((QuarantineState_OUTPUT_DURABLE_UNMARKED, QuarantineEvent_MARK_FAILED), QuarantineDecision QuarantineState_OUTPUT_DURABLE_UNMARKED QuarantineAction_KEEP),
     ((QuarantineState_RETRYABLE, QuarantineEvent_CLASSIFIED_UNPROCESSABLE), QuarantineDecision QuarantineState_UNPROCESSABLE_UNMARKED QuarantineAction_MARK_UNPROCESSABLE),
     ((QuarantineState_INVALID_EVIDENCE, QuarantineEvent_CLASSIFIED_UNPROCESSABLE), QuarantineDecision QuarantineState_UNPROCESSABLE_UNMARKED QuarantineAction_MARK_UNPROCESSABLE),
     ((QuarantineState_UNPROCESSABLE_UNMARKED, QuarantineEvent_MARK_COMMITTED), QuarantineDecision QuarantineState_UNPROCESSABLE QuarantineAction_KEEP),
     ((QuarantineState_UNPROCESSABLE_UNMARKED, QuarantineEvent_MARK_FAILED), QuarantineDecision QuarantineState_UNPROCESSABLE_UNMARKED QuarantineAction_KEEP),
     ((QuarantineState_RETRYABLE, QuarantineEvent_RETRYABLE_FAILURE), QuarantineDecision QuarantineState_RETRYABLE QuarantineAction_KEEP),
     ((QuarantineState_INVALID_EVIDENCE, QuarantineEvent_RETRYABLE_FAILURE), QuarantineDecision QuarantineState_INVALID_EVIDENCE QuarantineAction_KEEP),
     ((QuarantineState_OUTPUT_DURABLE_UNMARKED, QuarantineEvent_RETRYABLE_FAILURE), QuarantineDecision QuarantineState_OUTPUT_DURABLE_UNMARKED QuarantineAction_KEEP),
     ((QuarantineState_UNPROCESSABLE_UNMARKED, QuarantineEvent_RETRYABLE_FAILURE), QuarantineDecision QuarantineState_UNPROCESSABLE_UNMARKED QuarantineAction_KEEP),
     ((QuarantineState_PUBLISHED, QuarantineEvent_RETENTION_EXPIRED), QuarantineDecision QuarantineState_PUBLISHED QuarantineAction_DELETE),
     ((QuarantineState_UNPROCESSABLE, QuarantineEvent_RETENTION_EXPIRED), QuarantineDecision QuarantineState_UNPROCESSABLE QuarantineAction_DELETE),
     ((QuarantineState_RETRYABLE, QuarantineEvent_DEFER), QuarantineDecision QuarantineState_DEFERRED QuarantineAction_WAIT),
     ((QuarantineState_INVALID_EVIDENCE, QuarantineEvent_DEFER), QuarantineDecision QuarantineState_DEFERRED QuarantineAction_WAIT),
     ((QuarantineState_OUTPUT_DURABLE_UNMARKED, QuarantineEvent_DEFER), QuarantineDecision QuarantineState_DEFERRED QuarantineAction_WAIT),
     ((QuarantineState_UNPROCESSABLE_UNMARKED, QuarantineEvent_DEFER), QuarantineDecision QuarantineState_DEFERRED QuarantineAction_WAIT),
     ((QuarantineState_RETRYABLE, QuarantineEvent_CANCEL), QuarantineDecision QuarantineState_DEFERRED QuarantineAction_WAIT),
     ((QuarantineState_INVALID_EVIDENCE, QuarantineEvent_CANCEL), QuarantineDecision QuarantineState_DEFERRED QuarantineAction_WAIT),
     ((QuarantineState_OUTPUT_DURABLE_UNMARKED, QuarantineEvent_CANCEL), QuarantineDecision QuarantineState_DEFERRED QuarantineAction_WAIT),
     ((QuarantineState_UNPROCESSABLE_UNMARKED, QuarantineEvent_CANCEL), QuarantineDecision QuarantineState_DEFERRED QuarantineAction_WAIT),
     ((QuarantineState_DEFERRED, QuarantineEvent_RESTART), QuarantineDecision QuarantineState_RECOVERING QuarantineAction_REAUTHENTICATE),
     ((QuarantineState_OUTPUT_DURABLE_UNMARKED, QuarantineEvent_RESTART), QuarantineDecision QuarantineState_RECOVERING QuarantineAction_REAUTHENTICATE),
     ((QuarantineState_UNPROCESSABLE_UNMARKED, QuarantineEvent_RESTART), QuarantineDecision QuarantineState_RECOVERING QuarantineAction_REAUTHENTICATE),
     ((QuarantineState_INVALID_EVIDENCE, QuarantineEvent_RESTART), QuarantineDecision QuarantineState_RECOVERING QuarantineAction_REAUTHENTICATE),
     ((QuarantineState_RETRYABLE, QuarantineEvent_RESTART), QuarantineDecision QuarantineState_RECOVERING QuarantineAction_REAUTHENTICATE),
     ((QuarantineState_PUBLISHED, QuarantineEvent_RESTART), QuarantineDecision QuarantineState_PUBLISHED QuarantineAction_SKIP),
     ((QuarantineState_UNPROCESSABLE, QuarantineEvent_RESTART), QuarantineDecision QuarantineState_UNPROCESSABLE QuarantineAction_SKIP)]"

definition quarantine_transition ::
  "quarantine_state \<Rightarrow> quarantine_lifecycle_event \<Rightarrow> (quarantine_transition_error, quarantine_lifecycle_decision) result" where
  "quarantine_transition s e =
     (case map_of quarantine_transitions (s, e) of None \<Rightarrow> Inl QuarantineTransitionError | Some d \<Rightarrow> Inr d)"

definition quarantine_step ::
  "quarantine_state \<Rightarrow> quarantine_lifecycle_event
     \<Rightarrow> (quarantine_transition_error, quarantine_state \<times> quarantine_lifecycle_action) result" where
  "quarantine_step s e = bind_result (quarantine_transition s e) (\<lambda>d. Inr (decision_state d, decision_action d))"

lemma quarantine_step_row:
  "quarantine_step s e = Inr (t, a) \<Longrightarrow> ((s, e), QuarantineDecision t a) \<in> set quarantine_transitions"
  by (auto simp: quarantine_step_def quarantine_transition_def result_iffs dest: map_of_SomeD split: option.splits)

section \<open>Evidence behind a state\<close>

text \<open>What must have happened for a directory to be in a state whose output or verdict is durable.\<close>

definition output_known :: "quarantine_lifecycle_event set \<Rightarrow> bool" where
  "output_known es \<longleftrightarrow> QuarantineEvent_OUTPUT_COMMITTED \<in> es \<or> QuarantineEvent_RECOVERED_OUTPUT_UNMARKED \<in> es"

fun state_backed :: "quarantine_lifecycle_event set \<Rightarrow> quarantine_state \<Rightarrow> bool" where
  "state_backed es QuarantineState_OUTPUT_DURABLE_UNMARKED = output_known es"
| "state_backed es QuarantineState_PUBLISHED =
     (QuarantineEvent_RECOVERED_PUBLISHED \<in> es \<or> QuarantineEvent_MARK_COMMITTED \<in> es \<and> output_known es)"
| "state_backed es QuarantineState_UNPROCESSABLE_UNMARKED = (QuarantineEvent_CLASSIFIED_UNPROCESSABLE \<in> es)"
| "state_backed es QuarantineState_UNPROCESSABLE =
     (QuarantineEvent_RECOVERED_UNPROCESSABLE \<in> es
      \<or> QuarantineEvent_MARK_COMMITTED \<in> es \<and> QuarantineEvent_CLASSIFIED_UNPROCESSABLE \<in> es)"
| "state_backed es _ = True"

lemma state_backed_step:
  assumes "state_backed es s" and "quarantine_step s e = Inr (t, a)"
  shows "state_backed (insert e es) t"
  using quarantine_step_row [OF assms(2)] assms(1) unfolding quarantine_transitions_def
  by (auto simp: output_known_def)

lemma state_backed_run:
  "run quarantine_step s es = Inr (t, as) \<Longrightarrow> state_backed xs s \<Longrightarrow> state_backed (xs \<union> set es) t"
proof (induction es arbitrary: s as xs)
  case (Cons e es)
  then obtain u a bs where "quarantine_step s e = Inr (u, a)" "run quarantine_step u es = Inr (t, bs)"
    by (auto simp: run_Cons_Inr simp del: run.simps(2))
  with Cons.IH [of u bs "insert e xs"] state_backed_step Cons.prems(2) show ?case by auto
qed simp

definition quarantine_terminal :: "quarantine_state \<Rightarrow> bool" where
  "quarantine_terminal s \<longleftrightarrow> s \<in> {QuarantineState_PUBLISHED, QuarantineState_UNPROCESSABLE}"

definition deletion_licence :: "quarantine_state \<Rightarrow> quarantine_lifecycle_event \<Rightarrow> quarantine_lifecycle_action \<Rightarrow> bool" where
  "deletion_licence s e a \<longleftrightarrow>
     (a = QuarantineAction_DELETE \<longrightarrow> quarantine_terminal s \<and> e = QuarantineEvent_RETENTION_EXPIRED)
   \<and> (a = QuarantineAction_MARK_PUBLISHED \<longrightarrow> e = QuarantineEvent_OUTPUT_COMMITTED)"

lemma quarantine_deletion_licence: "quarantine_step s e = Inr (t, a) \<Longrightarrow> deletion_licence s e a"
  by (drule quarantine_step_row)
    (auto simp: deletion_licence_def quarantine_terminal_def quarantine_transitions_def)

lemma quarantine_terminal_step:
  "quarantine_step s e = Inr (t, a) \<Longrightarrow> quarantine_terminal s \<Longrightarrow> t = s"
  by (drule quarantine_step_row) (auto simp: quarantine_terminal_def quarantine_transitions_def)

interpretation quarantine_final: absorbing_machine quarantine_step "\<lambda>s. s = s0 \<and> quarantine_terminal s0" for s0
  by unfold_locales (auto dest: quarantine_terminal_step)

section \<open>Properties\<close>

text \<open>
  Quarantined evidence is deleted only after its verdict is durable.  In every accepted history from
  the recovering state, evidence is deleted only on expiry of the retention, in a published or
  unprocessable state, and the earlier events contain the marker commit together with a committed output
  or a classification, or the recovery of such a durable marker.  Both verdicts are final.
\<close>

theorem quarantine_deletes_after_verdict:
  assumes "run quarantine_step QuarantineState_RECOVERING es = Inr (s, as)" and "i < length as"
    and "as ! i = QuarantineAction_DELETE"
  shows "es ! i = QuarantineEvent_RETENTION_EXPIRED
    \<and> (let before = set (take i es) in
         QuarantineEvent_RECOVERED_PUBLISHED \<in> before \<or> QuarantineEvent_RECOVERED_UNPROCESSABLE \<in> before
       \<or> QuarantineEvent_MARK_COMMITTED \<in> before \<and>
           (output_known before \<or> QuarantineEvent_CLASSIFIED_UNPROCESSABLE \<in> before))
    \<and> quarantine_terminal s"
proof -
  obtain u v where u: "run quarantine_step QuarantineState_RECOVERING (take i es) = Inr (u, take i as)"
    and v: "quarantine_step u (es ! i) = Inr (v, QuarantineAction_DELETE)"
    and rest: "run quarantine_step v (drop (Suc i) es) = Inr (s, drop (Suc i) as)"
    using run_nth [OF assms(1,2)] assms(3) by auto
  have lic: "quarantine_terminal u" "es ! i = QuarantineEvent_RETENTION_EXPIRED"
    using quarantine_deletion_licence [OF v] by (simp_all add: deletion_licence_def)
  have "state_backed ({} \<union> set (take i es)) u" by (rule state_backed_run [OF u]) simp
  moreover have "v = u" using quarantine_terminal_step [OF v lic(1)] .
  then have "s = u" using quarantine_final.absorbed.run_inv [OF _ rest, of u] lic(1) by simp
  ultimately show ?thesis using lic by (auto simp: quarantine_terminal_def Let_def)
qed

theorem quarantine_deletes_after_verdict_witness:
  "run quarantine_step QuarantineState_RECOVERING
     [QuarantineEvent_RECOVERED_RETRYABLE, QuarantineEvent_OUTPUT_COMMITTED, QuarantineEvent_MARK_COMMITTED, QuarantineEvent_RETENTION_EXPIRED]
   = Inr (QuarantineState_PUBLISHED, [QuarantineAction_SALVAGE, QuarantineAction_MARK_PUBLISHED, QuarantineAction_KEEP, QuarantineAction_DELETE])
   \<and> quarantine_terminal QuarantineState_PUBLISHED"
proof -
  have r: "run quarantine_step QuarantineState_RECOVERING
     [QuarantineEvent_RECOVERED_RETRYABLE, QuarantineEvent_OUTPUT_COMMITTED, QuarantineEvent_MARK_COMMITTED, QuarantineEvent_RETENTION_EXPIRED]
   = Inr (QuarantineState_PUBLISHED, [QuarantineAction_SALVAGE, QuarantineAction_MARK_PUBLISHED, QuarantineAction_KEEP, QuarantineAction_DELETE])"
    by (simp add: quarantine_step_def quarantine_transition_def quarantine_transitions_def)
  show ?thesis using r quarantine_deletes_after_verdict [OF r, of 3] by simp
qed

end
