(* ===== verification/Publication_Recovery.thy ===== *)
theory Publication_Recovery
  imports Prelude
begin

text \<open>
  Two small decision procedures of the domain: the classification of a publication commit whose outcome is
  ambiguous after a crash (\<open>domain/publication_recovery.py\<close>), and the durable operational status
  (\<open>domain/operational_status_machine.py\<close>).

  Entries, frontiers and source facts are opaque objects compared for equality.  \<open>zip(..., strict=True)\<close>
  inside \<open>all(...)\<close> stops at the first false element and raises \<open>ValueError\<close> when one tuple ends first.
\<close>

section \<open>Commit classification\<close>

datatype stage_custody = StageAbsent | StageOwned | StageConflicting

record cohort_fact =
  cohort_phase_name :: string
  cohort_cursor :: int

record member_cursor =
  member_ordinal :: int
  member_position :: int

record proof_fact =
  proof_lifecycle :: string
  proof_stage_id :: string
  proof_owner :: string

record ('e, 'f, 's) commit_evidence =
  evidence_entry :: "'e option"
  evidence_frontier :: 'f
  evidence_cohort :: "cohort_fact option"
  evidence_members :: "member_cursor list"
  evidence_proof :: "proof_fact option"
  evidence_stage :: stage_custody
  evidence_sources :: "'s option list"

record 's source_expectation =
  source_before :: "'s option"
  source_proposed :: "'s option"

record ('e, 'f, 's) commit_expectation =
  expected_entry :: "'e option"
  old_frontier :: 'f
  proposed_frontier :: 'f
  old_cohort_cursor :: int
  expected_complete :: bool
  old_members :: "member_cursor list"
  proposed_members :: "member_cursor list"
  expected_stage_id :: string
  expected_owner :: string
  expected_sources :: "'s source_expectation list"

datatype commit_class = CommitProposed | CommitOld | CommitThird
datatype zip_error = ZipLengthError

fun all_zip_strict :: "('a \<Rightarrow> 'b \<Rightarrow> bool) \<Rightarrow> 'a list \<Rightarrow> 'b list \<Rightarrow> (zip_error, bool) result" where
  "all_zip_strict f [] [] = Inr True"
| "all_zip_strict f (x # xs) (y # ys) = (if f x y then all_zip_strict f xs ys else Inr False)"
| "all_zip_strict f _ _ = Inl ZipLengthError"

definition proposed_cohort :: "('e, 'f, 's) commit_evidence \<Rightarrow> ('e, 'f, 's) commit_expectation \<Rightarrow> bool" where
  "proposed_cohort ev ex =
     (if expected_complete ex then evidence_cohort ev = None
      else evidence_cohort ev = Some \<lparr>cohort_phase_name = ''accepted'', cohort_cursor = old_cohort_cursor ex + 1\<rparr>
           \<and> evidence_members ev = proposed_members ex)"

definition classify_commit ::
  "('e, 'f, 's) commit_evidence \<Rightarrow> ('e, 'f, 's) commit_expectation \<Rightarrow> (zip_error, commit_class) result" where
  "classify_commit ev ex =
     bind_result (all_zip_strict (\<lambda>actual expected. actual = source_proposed expected) (evidence_sources ev) (expected_sources ex))
       (\<lambda>proposed_sources.
     if evidence_entry ev = expected_entry ex
        \<and> evidence_frontier ev = proposed_frontier ex
        \<and> evidence_stage ev = StageAbsent
        \<and> evidence_proof ev = Some \<lparr>proof_lifecycle = ''active'', proof_stage_id = expected_stage_id ex, proof_owner = expected_owner ex\<rparr>
        \<and> proposed_cohort ev ex
        \<and> proposed_sources
     then Inr CommitProposed
     else bind_result (all_zip_strict (\<lambda>actual expected. actual = source_before expected) (evidence_sources ev) (expected_sources ex))
       (\<lambda>old_sources.
     if evidence_entry ev = None
        \<and> evidence_frontier ev = old_frontier ex
        \<and> evidence_cohort ev = Some \<lparr>cohort_phase_name = ''staging'', cohort_cursor = old_cohort_cursor ex\<rparr>
        \<and> evidence_stage ev = StageOwned
        \<and> evidence_proof ev = Some \<lparr>proof_lifecycle = ''staging'', proof_stage_id = expected_stage_id ex, proof_owner = expected_owner ex\<rparr>
        \<and> evidence_members ev = old_members ex
        \<and> old_sources
     then Inr CommitOld
     else Inr CommitThird))"

section \<open>Operational status\<close>

datatype operational_state =
    OperationalState_UNKNOWN
  | OperationalState_CLEAR
  | OperationalState_BLOCKED

datatype operational_signal =
    OperationalSignal_BLOCK
  | OperationalSignal_CLEAR
  | OperationalSignal_CONFIGURED
  | OperationalSignal_UNKNOWN
  | OperationalSignal_UNCHANGED

datatype operational_dimension = DimensionQuality | DimensionPublication | DimensionClock
datatype publication_outcome_kind = OutcomeBlocked | OutcomePublished | OutcomeTransient | OutcomeWaiting
datatype status_error = IncompleteTable | MissingRow

definition status_transitions :: "((operational_state \<times> operational_signal) \<times> operational_state) list" where
  "status_transitions = [
     ((OperationalState_UNKNOWN, OperationalSignal_BLOCK), OperationalState_BLOCKED),
     ((OperationalState_UNKNOWN, OperationalSignal_CLEAR), OperationalState_CLEAR),
     ((OperationalState_UNKNOWN, OperationalSignal_CONFIGURED), OperationalState_CLEAR),
     ((OperationalState_UNKNOWN, OperationalSignal_UNKNOWN), OperationalState_UNKNOWN),
     ((OperationalState_UNKNOWN, OperationalSignal_UNCHANGED), OperationalState_UNKNOWN),
     ((OperationalState_CLEAR, OperationalSignal_BLOCK), OperationalState_BLOCKED),
     ((OperationalState_CLEAR, OperationalSignal_CLEAR), OperationalState_CLEAR),
     ((OperationalState_CLEAR, OperationalSignal_CONFIGURED), OperationalState_CLEAR),
     ((OperationalState_CLEAR, OperationalSignal_UNKNOWN), OperationalState_UNKNOWN),
     ((OperationalState_CLEAR, OperationalSignal_UNCHANGED), OperationalState_CLEAR),
     ((OperationalState_BLOCKED, OperationalSignal_BLOCK), OperationalState_BLOCKED),
     ((OperationalState_BLOCKED, OperationalSignal_CLEAR), OperationalState_CLEAR),
     ((OperationalState_BLOCKED, OperationalSignal_CONFIGURED), OperationalState_BLOCKED),
     ((OperationalState_BLOCKED, OperationalSignal_UNKNOWN), OperationalState_UNKNOWN),
     ((OperationalState_BLOCKED, OperationalSignal_UNCHANGED), OperationalState_BLOCKED)]"

definition all_operational_states :: "operational_state list" where
  "all_operational_states = [OperationalState_UNKNOWN, OperationalState_CLEAR, OperationalState_BLOCKED]"

definition all_operational_signals :: "operational_signal list" where
  "all_operational_signals = [OperationalSignal_BLOCK, OperationalSignal_CLEAR, OperationalSignal_CONFIGURED, OperationalSignal_UNKNOWN, OperationalSignal_UNCHANGED]"

definition check_transition_completeness :: "(status_error, unit) result" where
  "check_transition_completeness =
     require (set (map fst status_transitions) = set (List.product all_operational_states all_operational_signals)) IncompleteTable"

definition status_transition :: "operational_state \<Rightarrow> operational_signal \<Rightarrow> (status_error, operational_state) result" where
  "status_transition state signal =
     bind_result check_transition_completeness (\<lambda>_.
       case map_of status_transitions (state, signal) of None \<Rightarrow> Inl MissingRow | Some s \<Rightarrow> Inr s)"

definition status_step :: "operational_state \<Rightarrow> operational_signal \<Rightarrow> (status_error, operational_state \<times> unit) result" where
  "status_step state signal = bind_result (status_transition state signal) (\<lambda>s. Inr (s, ()))"

section \<open>Properties\<close>

lemma all_zip_strict_same_length:
  "length xs = length ys \<Longrightarrow> all_zip_strict f xs ys = Inr (list_all2 f xs ys)"
  by (induction xs ys rule: list_induct2) simp_all

text \<open>
  The classification of an ambiguous commit is exact.  With one observed fact per expected source, the
  commit is reported as \<open>proposed\<close> if and only if every durable value is the proposed one, as \<open>old\<close> if and
  only if every value is the old one, and as \<open>third\<close> in every other case; the two exact states exclude each
  other, so the order of the tests does not matter.
\<close>

theorem commit_classification_exact:
  assumes "length (evidence_sources ev) = length (expected_sources ex)"
  shows "(classify_commit ev ex = Inr CommitProposed \<longleftrightarrow>
        evidence_entry ev = expected_entry ex \<and> evidence_frontier ev = proposed_frontier ex \<and> evidence_stage ev = StageAbsent
      \<and> evidence_proof ev = Some \<lparr>proof_lifecycle = ''active'', proof_stage_id = expected_stage_id ex, proof_owner = expected_owner ex\<rparr>
      \<and> proposed_cohort ev ex \<and> evidence_sources ev = map source_proposed (expected_sources ex))
    \<and> (classify_commit ev ex = Inr CommitOld \<longleftrightarrow>
        evidence_entry ev = None \<and> evidence_frontier ev = old_frontier ex \<and> evidence_stage ev = StageOwned
      \<and> evidence_cohort ev = Some \<lparr>cohort_phase_name = ''staging'', cohort_cursor = old_cohort_cursor ex\<rparr>
      \<and> evidence_proof ev = Some \<lparr>proof_lifecycle = ''staging'', proof_stage_id = expected_stage_id ex, proof_owner = expected_owner ex\<rparr>
      \<and> evidence_members ev = old_members ex \<and> evidence_sources ev = map source_before (expected_sources ex))
    \<and> (\<exists>c. classify_commit ev ex = Inr c)"
proof -
  have all2: "list_all2 (\<lambda>actual expected. actual = g expected) (evidence_sources ev) (expected_sources ex)
      \<longleftrightarrow> evidence_sources ev = map g (expected_sources ex)" for g
    using assms by (auto simp: list_all2_conv_all_nth list_eq_iff_nth_eq)
  show ?thesis
    unfolding classify_commit_def all_zip_strict_same_length [OF assms] all2 by auto
qed

theorem commit_classification_exact_witness:
  "classify_commit
     \<lparr>evidence_entry = Some (1 :: nat), evidence_frontier = (2 :: nat), evidence_cohort = None, evidence_members = [],
      evidence_proof = Some \<lparr>proof_lifecycle = ''active'', proof_stage_id = ''s'', proof_owner = ''o''\<rparr>,
      evidence_stage = StageAbsent, evidence_sources = [None :: nat option]\<rparr>
     \<lparr>expected_entry = Some 1, old_frontier = 1, proposed_frontier = 2, old_cohort_cursor = 0, expected_complete = True,
      old_members = [], proposed_members = [], expected_stage_id = ''s'', expected_owner = ''o'',
      expected_sources = [\<lparr>source_before = Some 4, source_proposed = None\<rparr>]\<rparr>
   = Inr CommitProposed"
proof -
  let ?ev = "\<lparr>evidence_entry = Some (1 :: nat), evidence_frontier = (2 :: nat), evidence_cohort = None, evidence_members = [],
      evidence_proof = Some \<lparr>proof_lifecycle = ''active'', proof_stage_id = ''s'', proof_owner = ''o''\<rparr>,
      evidence_stage = StageAbsent, evidence_sources = [None :: nat option]\<rparr>"
  let ?ex = "\<lparr>expected_entry = Some 1, old_frontier = 1, proposed_frontier = 2, old_cohort_cursor = 0, expected_complete = True,
      old_members = [], proposed_members = [], expected_stage_id = ''s'', expected_owner = ''o'',
      expected_sources = [\<lparr>source_before = Some (4 :: nat), source_proposed = None\<rparr>]\<rparr>"
  have "length (evidence_sources ?ev) = length (expected_sources ?ex)" by simp
  from commit_classification_exact [OF this] show ?thesis by (simp add: proposed_cohort_def)
qed

lemma status_table_complete: "check_transition_completeness = Inr ()"
  by (simp add: check_transition_completeness_def status_transitions_def all_operational_states_def all_operational_signals_def)

lemma status_step_blocked:
  "sig \<notin> {OperationalSignal_CLEAR, OperationalSignal_UNKNOWN} \<Longrightarrow>
     status_step OperationalState_BLOCKED sig = Inr (OperationalState_BLOCKED, ())"
  by (cases sig) (simp_all add: status_step_def status_transition_def status_table_complete status_transitions_def)

text \<open>
  A blocked status is only lifted explicitly.  The transition table is complete, so every signal gives
  a state; and from the blocked state, any sequence of signals without an explicit \<open>clear\<close> or \<open>unknown\<close>
  leaves it blocked, so a restart that reports \<open>configured\<close> does not hide a block.
\<close>

theorem status_block_is_sticky:
  "(\<exists>t. status_transition state sig = Inr t)
   \<and> (\<forall>sigs. OperationalSignal_CLEAR \<notin> set sigs \<and> OperationalSignal_UNKNOWN \<notin> set sigs \<longrightarrow>
        run status_step OperationalState_BLOCKED sigs = Inr (OperationalState_BLOCKED, replicate (length sigs) ()))"
proof (intro conjI allI impI)
  show "\<exists>t. status_transition state sig = Inr t"
    by (cases state; cases sig) (simp_all add: status_transition_def status_table_complete status_transitions_def)
next
  fix sigs assume "OperationalSignal_CLEAR \<notin> set sigs \<and> OperationalSignal_UNKNOWN \<notin> set sigs"
  then show "run status_step OperationalState_BLOCKED sigs = Inr (OperationalState_BLOCKED, replicate (length sigs) ())"
    by (induction sigs) (auto simp: status_step_blocked)
qed

theorem status_block_is_sticky_witness:
  "run status_step OperationalState_BLOCKED [OperationalSignal_CONFIGURED] = Inr (OperationalState_BLOCKED, [()])"
proof -
  have "OperationalSignal_CLEAR \<notin> set [OperationalSignal_CONFIGURED] \<and> OperationalSignal_UNKNOWN \<notin> set [OperationalSignal_CONFIGURED]"
    by simp
  with status_block_is_sticky show ?thesis by (metis length_Cons list.size(3) replicate_0 replicate_Suc)
qed

end
