(* ===== verification/Stop_Intent.thy ===== *)
theory Stop_Intent
  imports Prelude
begin

text \<open>
  The latch for the first termination signal (\<open>application/stop_intent.py\<close>).  Every method of the class
  holds its lock, so each is one atomic step; the cancellation it schedules on the event loop is the output
  of the step.  Installing the process signal handlers is outside the model.
\<close>

section \<open>Data\<close>

definition SIGTERM :: int where "SIGTERM = 15"

record ('l, 't) stop_intent =
  stop_signal :: "int option"
  stop_loop :: "'l option"
  stop_root :: "'t option"
  cancel_scheduled :: bool

datatype stop_error = StopRequestedError | RootTaskError

datatype ('l, 't) stop_call = RequestStop int | AttachRoot 'l 't | DetachRoot 't

type_synonym ('l, 't) stop_effect = "('l \<times> 't) option"

definition new_stop_intent :: "('l, 't) stop_intent" where
  "new_stop_intent = \<lparr>stop_signal = None, stop_loop = None, stop_root = None, cancel_scheduled = False\<rparr>"

section \<open>Operations\<close>

definition stop_requested :: "('l, 't) stop_intent \<Rightarrow> bool" where
  "stop_requested s \<longleftrightarrow> stop_signal s \<noteq> None"

text \<open>Python's \<open>signal_number or SIGTERM\<close>: a missing or zero number gives \<open>SIGTERM\<close>.\<close>

definition stop_exit_code :: "('l, 't) stop_intent \<Rightarrow> int" where
  "stop_exit_code s =
     128 + (case stop_signal s of None \<Rightarrow> SIGTERM | Some n \<Rightarrow> if n = 0 then SIGTERM else n)"

definition stop_check :: "('l, 't) stop_intent \<Rightarrow> (stop_error, unit) result" where
  "stop_check s = (if stop_requested s then Inl StopRequestedError else Inr ())"

definition schedule_cancel :: "('l, 't) stop_intent \<Rightarrow> ('l, 't) stop_intent \<times> ('l, 't) stop_effect" where
  "schedule_cancel s =
     (case (stop_signal s, stop_loop s, stop_root s) of
        (Some n, Some l, Some t) \<Rightarrow>
          if cancel_scheduled s then (s, None) else (s\<lparr>cancel_scheduled := True\<rparr>, Some (l, t))
      | _ \<Rightarrow> (s, None))"

definition stop_request :: "('l, 't) stop_intent \<Rightarrow> int \<Rightarrow> ('l, 't) stop_intent \<times> ('l, 't) stop_effect" where
  "stop_request s signum =
     (if stop_signal s \<noteq> None then (s, None) else schedule_cancel (s\<lparr>stop_signal := Some signum\<rparr>))"

definition stop_attach ::
  "('l, 't) stop_intent \<Rightarrow> 'l \<Rightarrow> 't \<Rightarrow> (stop_error, ('l, 't) stop_intent \<times> ('l, 't) stop_effect) result" where
  "stop_attach s loop task =
     (if stop_root s \<noteq> None then Inl RootTaskError
      else Inr (schedule_cancel (s\<lparr>stop_loop := Some loop, stop_root := Some task\<rparr>)))"

definition stop_detach :: "('l, 't) stop_intent \<Rightarrow> 't \<Rightarrow> ('l, 't) stop_intent" where
  "stop_detach s task = (if stop_root s = Some task then s\<lparr>stop_root := None, stop_loop := None\<rparr> else s)"

fun stop_step ::
  "('l, 't) stop_intent \<Rightarrow> ('l, 't) stop_call \<Rightarrow> (stop_error, ('l, 't) stop_intent \<times> ('l, 't) stop_effect) result" where
  "stop_step s (RequestStop n) = Inr (stop_request s n)"
| "stop_step s (AttachRoot l t) = stop_attach s l t"
| "stop_step s (DetachRoot t) = Inr (stop_detach s t, None)"

section \<open>Histories\<close>

fun first_signal :: "('l, 't) stop_call list \<Rightarrow> int option" where
  "first_signal [] = None"
| "first_signal (RequestStop n # cs) = Some n"
| "first_signal (_ # cs) = first_signal cs"

definition cancels :: "('l, 't) stop_effect list \<Rightarrow> nat" where
  "cancels fs = length (filter (\<lambda>f. f \<noteq> None) fs)"

definition stop_inv :: "('l, 't) stop_intent \<Rightarrow> bool" where
  "stop_inv s \<longleftrightarrow>
     (stop_loop s = None \<longleftrightarrow> stop_root s = None)
   \<and> (stop_signal s \<noteq> None \<and> stop_root s \<noteq> None \<longrightarrow> cancel_scheduled s)
   \<and> (cancel_scheduled s \<longrightarrow> stop_signal s \<noteq> None)"

lemma stop_step_effect:
  assumes "stop_step s c = Inr (t, f)" and "stop_inv s"
  shows "stop_inv t
    \<and> stop_signal t = (case stop_signal s of None \<Rightarrow> first_signal [c] | Some n \<Rightarrow> Some n)
    \<and> (f \<noteq> None \<longrightarrow> \<not> cancel_scheduled s) \<and> (cancel_scheduled t \<longleftrightarrow> cancel_scheduled s \<or> f \<noteq> None)
    \<and> (\<forall>l k. f = Some (l, k) \<longrightarrow> stop_loop t = Some l \<and> stop_root t = Some k)"
  using assms
  by (cases c)
    (auto simp: stop_inv_def stop_request_def stop_attach_def stop_detach_def schedule_cancel_def
      split: option.splits if_splits)

lemma stop_run_effect:
  assumes "run stop_step s cs = Inr (t, fs)" and "stop_inv s"
  shows "stop_inv t
    \<and> stop_signal t = (case stop_signal s of None \<Rightarrow> first_signal cs | Some n \<Rightarrow> Some n)
    \<and> cancels fs + (if cancel_scheduled s then 1 else 0) = (if cancel_scheduled t then 1 else 0)"
  using assms
proof (induction cs arbitrary: s fs)
  case Nil
  then show ?case by (auto simp: cancels_def split: option.split)
next
  case (Cons c cs)
  then obtain u f gs where u: "stop_step s c = Inr (u, f)" "run stop_step u cs = Inr (t, gs)" "fs = f # gs"
    by (auto simp: run_Cons_Inr simp del: run.simps(2))
  note st = stop_step_effect [OF u(1) Cons.prems(2)]
  have "first_signal (c # cs) = (case first_signal [c] of None \<Rightarrow> first_signal cs | Some n \<Rightarrow> Some n)"
    by (cases c) simp_all
  then show ?case
    using st Cons.IH [OF u(2)] u(3) by (auto simp: cancels_def split: option.splits if_splits)
qed

section \<open>Properties\<close>

text \<open>
  The first signal wins and the root task is cancelled at most once, and exactly when needed.  For any
  interleaving of signals, attachments and detachments, the recorded signal is the first one requested; a
  cancellation is scheduled at most once; whenever a signal has been recorded while a root task is attached,
  one has been scheduled; and none is scheduled before a signal.
\<close>

theorem stop_intent_cancels_once:
  assumes "run stop_step new_stop_intent cs = Inr (s, fs)"
  shows "stop_signal s = first_signal cs
    \<and> cancels fs \<le> 1
    \<and> (stop_requested s \<and> stop_root s \<noteq> None \<longrightarrow> cancels fs = 1)
    \<and> (\<not> stop_requested s \<longrightarrow> cancels fs = 0)
    \<and> (stop_check s = Inl StopRequestedError \<longleftrightarrow> first_signal cs \<noteq> None)"
proof -
  have "stop_inv (new_stop_intent :: ('a, 'b) stop_intent)" by (simp add: stop_inv_def new_stop_intent_def)
  from stop_run_effect [OF assms this] show ?thesis
    by (auto simp: new_stop_intent_def stop_inv_def stop_requested_def stop_check_def split: if_splits)
qed

theorem stop_intent_cancels_once_witness:
  "\<exists>s fs. run stop_step new_stop_intent [RequestStop 2, AttachRoot (0 :: nat) (7 :: nat), RequestStop 15] = Inr (s, fs)
     \<and> cancels fs = 1 \<and> stop_signal s = Some 2"
proof -
  obtain s where r: "run stop_step new_stop_intent [RequestStop 2, AttachRoot (0 :: nat) (7 :: nat), RequestStop 15]
      = Inr (s, [None, Some (0, 7), None])" and "stop_root s = Some 7" "stop_requested s"
    by (simp add: stop_request_def stop_attach_def schedule_cancel_def new_stop_intent_def stop_requested_def)
  then show ?thesis using stop_intent_cancels_once [OF r] by auto
qed

end
