(* ===== verification/Python_Values.thy ===== *)
theory Python_Values
  imports Prelude Complex_Main
begin

text \<open>
  Python objects as they come out of a decoded JSON document, for the code that checks the shape of its
  input at run time.  A float is a rational or one of the non-finite values; a \<open>bool\<close> is an \<open>int\<close> for
  \<open>isinstance\<close> but not for \<open>type(x) is int\<close>.  A dict is an association list with distinct string keys.
\<close>

datatype py_float = Fin rat | PosInf | NegInf | NaN

datatype py_value =
    PyNone
  | PyBool bool
  | PyInt int
  | PyFloat py_float
  | PyStr string
  | PyList "py_value list"
  | PyDict "(string \<times> py_value) list"

text \<open>\<open>type(x) is int\<close>\<close>

fun exact_int :: "py_value \<Rightarrow> int option" where
  "exact_int (PyInt i) = Some i"
| "exact_int _ = None"

text \<open>\<open>isinstance(x, int)\<close>\<close>

fun is_int_instance :: "py_value \<Rightarrow> bool" where
  "is_int_instance (PyInt i) = True"
| "is_int_instance (PyBool b) = True"
| "is_int_instance _ = False"

text \<open>\<open>isinstance(x, (int, float))\<close>\<close>

fun is_number_instance :: "py_value \<Rightarrow> bool" where
  "is_number_instance (PyFloat f) = True"
| "is_number_instance v = is_int_instance v"

text \<open>The value of a finite number that is not a \<open>bool\<close>.\<close>

fun finite_number :: "py_value \<Rightarrow> rat option" where
  "finite_number (PyInt i) = Some (of_int i)"
| "finite_number (PyFloat (Fin q)) = Some q"
| "finite_number _ = None"

fun str_value :: "py_value \<Rightarrow> string option" where
  "str_value (PyStr s) = Some s"
| "str_value _ = None"

lemma finite_number_of_float [simp]: "finite_number (PyFloat f) = (case f of Fin q \<Rightarrow> Some q | _ \<Rightarrow> None)"
  by (cases f) simp_all

text \<open>\<open>required <= value.keys()\<close> and no key outside \<open>required\<close> and \<open>optional\<close>.\<close>

definition keys_ok :: "string list \<Rightarrow> string list \<Rightarrow> (string \<times> py_value) list \<Rightarrow> bool" where
  "keys_ok required optional d \<longleftrightarrow>
     list_all (\<lambda>k. k \<in> set (map fst d)) required
   \<and> list_all (\<lambda>k. k \<in> set required \<or> k \<in> set optional) (map fst d)"

text \<open>\<open>d[key]\<close> where the key is present; \<open>None\<close> stands for a missing key.\<close>

definition dict_get :: "(string \<times> py_value) list \<Rightarrow> string \<Rightarrow> py_value" where
  "dict_get d key = (case map_of d key of None \<Rightarrow> PyNone | Some v \<Rightarrow> v)"

end
