(* ===== verification/Clock_State.thy ===== *)
theory Clock_State
  imports Python_Values Ring_Protocol "HOL-Library.Product_Lexorder"
begin

text \<open>
  The durable clock evidence (\<open>domain/clock_state.py\<close>): ranges of record sequences with the clock offset
  that normalizes them, the pending clock write, the last trusted anchor, and the intervals whose ordering
  stays uncertain.

  Validation of fields in the constructors is an operation that can fail.  Numbers are exact rationals;
  the rounding of float sums is outside the model, and so is the overflow of an integer too large for a
  double.  \<open>dataclasses.replace\<close> validates again; where the code replaces the bounds of a valid range by
  other proper bounds, that cannot fail (lemma \<open>range_valid_bounds\<close>), so it is a plain update here.
\<close>

section \<open>Data\<close>

datatype clock_error =
    RangeInvalid | IntentInvalid | AnchorInvalid | RangesOverlap | CausalInvalid | PayloadInvalid | SchemaUnsupported
  | WritePending | IntentTransitionInvalid | BoundaryUnresolved | BoundaryIncomplete | BoundaryKnown | FieldsInvalid

record clock_range =
  range_start :: int
  range_next :: int
  range_offset :: "rat option"
  range_uncertainty :: "rat option"
  range_confidence :: string
  range_source :: string

record clock_intent =
  operation_id :: string
  intent_phase :: string
  observed_epoch :: int
  target_epoch :: int
  host_midpoint :: rat
  write_sequence_before :: int
  write_sequence_after :: "int option"

record clock_anchor =
  sequence_frontier :: int
  anchor_offset :: rat
  anchor_uncertainty :: rat
  anchor_confidence :: string
  anchor_source :: string

record clock_state =
  clock_ranges :: "clock_range list"
  clock_intent_of :: "clock_intent option"
  clock_anchor_of :: "clock_anchor option"
  causal_uncertainty :: "(int \<times> int) list"

section \<open>Validated construction\<close>

definition range_valid :: "clock_range \<Rightarrow> bool" where
  "range_valid r \<longleftrightarrow>
     0 \<le> range_start r \<and> range_start r < range_next r
   \<and> range_confidence r \<in> {''confirmed'', ''approximate'', ''unknown''}
   \<and> range_source r \<noteq> []
   \<and> (\<forall>u. range_uncertainty r = Some u \<longrightarrow> 0 \<le> u)
   \<and> (range_offset r = None) = (range_confidence r = ''unknown'')
   \<and> (range_offset r = None) = (range_uncertainty r = None)"

definition new_clock_range ::
  "int \<Rightarrow> int \<Rightarrow> rat option \<Rightarrow> rat option \<Rightarrow> string \<Rightarrow> string \<Rightarrow> (clock_error, clock_range) result" where
  "new_clock_range start nxt offset uncertainty confidence source =
     (let r = \<lparr>range_start = start, range_next = nxt, range_offset = offset, range_uncertainty = uncertainty,
               range_confidence = confidence, range_source = source\<rparr>
      in if range_valid r then Inr r else Inl RangeInvalid)"

definition intent_valid :: "clock_intent \<Rightarrow> bool" where
  "intent_valid i \<longleftrightarrow>
     operation_id i \<noteq> [] \<and> intent_phase i \<in> {''prepared'', ''uncertain''}
   \<and> 0 \<le> observed_epoch i \<and> observed_epoch i \<le> 2 ^ 32 - 1
   \<and> 0 \<le> target_epoch i \<and> target_epoch i \<le> 2 ^ 32 - 1
   \<and> 0 \<le> write_sequence_before i
   \<and> (\<forall>a. write_sequence_after i = Some a \<longrightarrow> write_sequence_before i \<le> a)"

definition validated_intent :: "clock_intent \<Rightarrow> (clock_error, clock_intent) result" where
  "validated_intent i = (if intent_valid i then Inr i else Inl IntentInvalid)"

definition anchor_valid :: "clock_anchor \<Rightarrow> bool" where
  "anchor_valid a \<longleftrightarrow>
     0 \<le> sequence_frontier a \<and> 0 \<le> anchor_uncertainty a
   \<and> anchor_confidence a \<in> {''confirmed'', ''approximate''} \<and> anchor_source a \<noteq> []"

definition validated_anchor :: "clock_anchor \<Rightarrow> (clock_error, clock_anchor) result" where
  "validated_anchor a = (if anchor_valid a then Inr a else Inl AnchorInvalid)"

text \<open>The check of neighbouring ranges, \<open>zip(ranges, ranges[1:])\<close>.\<close>

fun ranges_ordered :: "clock_range list \<Rightarrow> bool" where
  "ranges_ordered (left # right # rs) = (range_next left \<le> range_start right \<and> ranges_ordered (right # rs))"
| "ranges_ordered _ = True"

definition causal_interval_valid :: "int \<times> int \<Rightarrow> bool" where
  "causal_interval_valid iv = (0 \<le> fst iv \<and> fst iv \<le> snd iv)"

definition new_clock_state ::
  "clock_range list \<Rightarrow> clock_intent option \<Rightarrow> clock_anchor option \<Rightarrow> (int \<times> int) list \<Rightarrow> (clock_error, clock_state) result" where
  "new_clock_state ranges intent anchor causal =
     (if \<not> ranges_ordered ranges then Inl RangesOverlap
      else if \<not> list_all causal_interval_valid causal then Inl CausalInvalid
      else Inr \<lparr>clock_ranges = ranges, clock_intent_of = intent, clock_anchor_of = anchor, causal_uncertainty = causal\<rparr>)"

section \<open>Adding evidence\<close>

definition cut_interval :: "clock_range \<Rightarrow> int \<times> int \<Rightarrow> (int \<times> int) list" where
  "cut_interval existing iv =
     (let start = fst iv; fin = snd iv in
      if range_next existing \<le> start \<or> fin \<le> range_start existing then [(start, fin)]
      else (if start < range_start existing then [(start, range_start existing)] else [])
         @ (if range_next existing < fin then [(range_next existing, fin)] else []))"

definition uncovered_parts :: "clock_range list \<Rightarrow> (int \<times> int) list \<Rightarrow> (int \<times> int) list" where
  "uncovered_parts ranges uncovered =
     foldl (\<lambda>u existing. concat (map (cut_interval existing) u)) uncovered ranges"

definition same_evidence :: "clock_range \<Rightarrow> clock_range \<Rightarrow> bool" where
  "same_evidence a b \<longleftrightarrow> a\<lparr>range_start := range_start b, range_next := range_next b\<rparr> = b"

definition merge_step :: "clock_range list \<Rightarrow> clock_range \<Rightarrow> clock_range list" where
  "merge_step merged item =
     (if merged \<noteq> [] \<and> range_next (last merged) = range_start item \<and> same_evidence (last merged) item
      then butlast merged @ [(last merged)\<lparr>range_next := range_next item\<rparr>]
      else merged @ [item])"

definition merge_ranges :: "clock_range list \<Rightarrow> clock_range list" where
  "merge_ranges rs = foldl merge_step [] rs"

definition new_parts :: "clock_range \<Rightarrow> (int \<times> int) list \<Rightarrow> clock_range list" where
  "new_parts incoming uncovered =
     map (\<lambda>iv. incoming\<lparr>range_start := fst iv, range_next := snd iv\<rparr>) (filter (\<lambda>iv. fst iv < snd iv) uncovered)"

definition add_range :: "clock_state \<Rightarrow> clock_range \<Rightarrow> (clock_error, clock_state) result" where
  "add_range s incoming =
     (let uncovered = uncovered_parts (clock_ranges s) [(range_start incoming, range_next incoming)];
          ranges = sort_key range_start (clock_ranges s @ new_parts incoming uncovered)
      in new_clock_state (merge_ranges ranges) (clock_intent_of s) (clock_anchor_of s) (causal_uncertainty s))"

definition observe_anchor ::
  "clock_state \<Rightarrow> ring_info \<Rightarrow> rat \<Rightarrow> rat \<Rightarrow> string \<Rightarrow> rat \<Rightarrow> clock_state \<Rightarrow> (clock_error, clock_state) result" where
  "observe_anchor s info offset uncertainty source tolerance state =
     bind_result (validated_anchor \<lparr>sequence_frontier = write_sequence info, anchor_offset = offset,
                    anchor_uncertainty = uncertainty, anchor_confidence = ''approximate'', anchor_source = source\<rparr>) (\<lambda>next_anchor.
       if clock_anchor_of s \<noteq> Some next_anchor
          \<and> (case clock_anchor_of s of
               None \<Rightarrow> True
             | Some a \<Rightarrow> write_sequence info \<noteq> sequence_frontier a \<or> tolerance < \<bar>offset - anchor_offset a\<bar>)
       then Inr (state\<lparr>clock_anchor_of := Some next_anchor\<rparr>)
       else Inr state)"

definition observe_range :: "clock_state \<Rightarrow> ring_info \<Rightarrow> rat \<Rightarrow> string \<Rightarrow> rat \<Rightarrow> (clock_error, clock_state) result" where
  "observe_range s info offset source tolerance =
     (case clock_anchor_of s of
        None \<Rightarrow>
          if read_sequence info < write_sequence info
          then bind_result (new_clock_range (read_sequence info) (write_sequence info) None None ''unknown'' source) (add_range s)
          else Inr s
      | Some a \<Rightarrow>
          if sequence_frontier a < write_sequence info
          then let continuous = (clock_intent_of s = None \<and> \<bar>offset - anchor_offset a\<bar> \<le> tolerance) in
            bind_result
              (new_clock_range (sequence_frontier a) (write_sequence info)
                 (if continuous then Some (anchor_offset a) else None)
                 (if continuous then Some (anchor_uncertainty a + \<bar>offset - anchor_offset a\<bar>) else None)
                 (if continuous then ''approximate'' else ''unknown'')
                 (anchor_source a))
              (add_range s)
          else Inr s)"

definition clock_observe ::
  "clock_state \<Rightarrow> ring_info \<Rightarrow> rat \<Rightarrow> rat \<Rightarrow> string \<Rightarrow> rat \<Rightarrow> (clock_error, clock_state) result" where
  "clock_observe s info offset uncertainty source tolerance =
     bind_result (observe_range s info offset source tolerance)
       (observe_anchor s info offset uncertainty source tolerance)"

section \<open>The pending clock write\<close>

definition begin_intent :: "clock_state \<Rightarrow> clock_intent \<Rightarrow> (clock_error, clock_state) result" where
  "begin_intent s intent =
     (if clock_intent_of s \<noteq> None then Inl WritePending else Inr (s\<lparr>clock_intent_of := Some intent\<rparr>))"

definition with_anchor :: "clock_state \<Rightarrow> clock_anchor \<Rightarrow> clock_state" where
  "with_anchor s anchor = s\<lparr>clock_anchor_of := Some anchor\<rparr>"

definition mark_uncertain :: "clock_state \<Rightarrow> string \<Rightarrow> int option \<Rightarrow> (clock_error, clock_state) result" where
  "mark_uncertain s op after =
     (case clock_intent_of s of
        None \<Rightarrow> Inl IntentTransitionInvalid
      | Some i \<Rightarrow>
          if operation_id i \<noteq> op then Inl IntentTransitionInvalid
          else if intent_phase i = ''uncertain'' then
            (if write_sequence_after i = None
             then bind_result (validated_intent (i\<lparr>write_sequence_after := after\<rparr>)) (\<lambda>j. Inr (s\<lparr>clock_intent_of := Some j\<rparr>))
             else if write_sequence_after i = after then Inr s
             else Inl IntentTransitionInvalid)
          else if intent_phase i \<noteq> ''prepared'' then Inl IntentTransitionInvalid
          else bind_result (validated_intent (i\<lparr>intent_phase := ''uncertain'', write_sequence_after := after\<rparr>))
                 (\<lambda>j. Inr (s\<lparr>clock_intent_of := Some j\<rparr>)))"

definition cancel_prepared_intent :: "clock_state \<Rightarrow> string \<Rightarrow> (clock_error, clock_state) result" where
  "cancel_prepared_intent s op =
     (case clock_intent_of s of
        None \<Rightarrow> Inl IntentTransitionInvalid
      | Some i \<Rightarrow>
          if operation_id i \<noteq> op \<or> intent_phase i \<noteq> ''prepared'' then Inl IntentTransitionInvalid
          else Inr (s\<lparr>clock_intent_of := None\<rparr>))"

fun unknown_coverage_loop :: "int \<Rightarrow> int \<Rightarrow> clock_range list \<Rightarrow> (clock_error, unit) result" where
  "unknown_coverage_loop cursor fin [] = Inl BoundaryIncomplete"
| "unknown_coverage_loop cursor fin (item # items) =
     (if range_next item \<le> cursor then unknown_coverage_loop cursor fin items
      else if cursor < range_start item then Inl BoundaryIncomplete
      else if range_offset item \<noteq> None then Inl BoundaryKnown
      else let cursor' = min fin (range_next item) in
        if cursor' = fin then Inr () else unknown_coverage_loop cursor' fin items)"

definition require_unknown_coverage :: "int \<Rightarrow> int \<Rightarrow> clock_range list \<Rightarrow> (clock_error, unit) result" where
  "require_unknown_coverage start fin ranges = unknown_coverage_loop start fin (sort_key range_start ranges)"

definition finish_intent :: "clock_state \<Rightarrow> string \<Rightarrow> clock_range list \<Rightarrow> (clock_error, clock_state) result" where
  "finish_intent s op ranges =
     (case clock_intent_of s of
        None \<Rightarrow> Inl IntentTransitionInvalid
      | Some i \<Rightarrow>
          if operation_id i \<noteq> op \<or> intent_phase i \<noteq> ''uncertain'' then Inl IntentTransitionInvalid
          else case write_sequence_after i of
              None \<Rightarrow> Inl BoundaryUnresolved
            | Some boundary \<Rightarrow>
                let start = write_sequence_before i in
                bind_result (if start < boundary then require_unknown_coverage start boundary ranges else Inr ()) (\<lambda>_.
                bind_result (fold_result add_range s ranges) (\<lambda>completed.
                bind_result (if start < boundary then require_unknown_coverage start boundary (clock_ranges completed) else Inr ()) (\<lambda>_.
                Inr (completed\<lparr>clock_intent_of := None,
                       causal_uncertainty := sort (remdups (causal_uncertainty completed @ [(start, boundary)]))\<rparr>)))))"

section \<open>Payloads\<close>

definition opt_number :: "rat option \<Rightarrow> py_value" where
  "opt_number x = (case x of None \<Rightarrow> PyNone | Some q \<Rightarrow> PyFloat (Fin q))"

definition range_payload :: "clock_range \<Rightarrow> (string \<times> py_value) list" where
  "range_payload r =
     [(''start_sequence'', PyInt (range_start r)), (''next_sequence'', PyInt (range_next r)),
      (''offset_seconds'', opt_number (range_offset r)), (''uncertainty_seconds'', opt_number (range_uncertainty r)),
      (''confidence'', PyStr (range_confidence r)), (''source_id'', PyStr (range_source r))]"

definition intent_payload :: "clock_intent \<Rightarrow> (string \<times> py_value) list" where
  "intent_payload i =
     [(''operation_id'', PyStr (operation_id i)), (''phase'', PyStr (intent_phase i)),
      (''observed_epoch'', PyInt (observed_epoch i)), (''target_epoch'', PyInt (target_epoch i)),
      (''host_midpoint'', PyFloat (Fin (host_midpoint i))), (''write_sequence_before'', PyInt (write_sequence_before i)),
      (''write_sequence_after'', case write_sequence_after i of None \<Rightarrow> PyNone | Some a \<Rightarrow> PyInt a)]"

definition anchor_payload :: "clock_anchor \<Rightarrow> (string \<times> py_value) list" where
  "anchor_payload a =
     [(''sequence_frontier'', PyInt (sequence_frontier a)), (''offset_seconds'', PyFloat (Fin (anchor_offset a))),
      (''uncertainty_seconds'', PyFloat (Fin (anchor_uncertainty a))), (''confidence'', PyStr (anchor_confidence a)),
      (''source_id'', PyStr (anchor_source a))]"

definition to_payload :: "clock_state \<Rightarrow> (string \<times> py_value) list" where
  "to_payload s =
     [(''schema_version'', PyInt 1),
      (''ranges'', PyList (map (\<lambda>r. PyDict (range_payload r)) (clock_ranges s))),
      (''intent'', case clock_intent_of s of None \<Rightarrow> PyNone | Some i \<Rightarrow> PyDict (intent_payload i)),
      (''anchor'', case clock_anchor_of s of None \<Rightarrow> PyNone | Some a \<Rightarrow> PyDict (anchor_payload a))]
     @ (if causal_uncertainty s = [] then []
        else [(''causal_uncertainty'', PyList (map (\<lambda>iv. PyList [PyInt (fst iv), PyInt (snd iv)]) (causal_uncertainty s)))])"

definition require_fields :: "(string \<times> py_value) list \<Rightarrow> string list \<Rightarrow> string list \<Rightarrow> (clock_error, unit) result" where
  "require_fields d required optional = require (keys_ok required optional d) FieldsInvalid"

definition int_field :: "py_value \<Rightarrow> (clock_error, py_value) result" where
  "int_field v = (if is_int_instance v then Inr v else Inl FieldsInvalid)"

definition number_field :: "py_value \<Rightarrow> (clock_error, py_value) result" where
  "number_field v = (if is_number_instance v then Inr v else Inl FieldsInvalid)"

definition text_field :: "py_value \<Rightarrow> (clock_error, string) result" where
  "text_field v = (case str_value v of None \<Rightarrow> Inl FieldsInvalid | Some s \<Rightarrow> Inr s)"

text \<open>\<open>type(x) is int\<close> and \<open>_finite_number(x)\<close> as the constructors test them, for a value that is required.\<close>

definition exact_int_or :: "clock_error \<Rightarrow> py_value \<Rightarrow> (clock_error, int) result" where
  "exact_int_or e v = (case exact_int v of None \<Rightarrow> Inl e | Some i \<Rightarrow> Inr i)"

definition finite_or :: "clock_error \<Rightarrow> py_value \<Rightarrow> (clock_error, rat) result" where
  "finite_or e v = (case finite_number v of None \<Rightarrow> Inl e | Some q \<Rightarrow> Inr q)"

definition opt_field :: "(py_value \<Rightarrow> (clock_error, 'a) result) \<Rightarrow> py_value \<Rightarrow> (clock_error, 'a option) result" where
  "opt_field f v = (case v of PyNone \<Rightarrow> Inr None | _ \<Rightarrow> bind_result (f v) (\<lambda>x. Inr (Some x)))"

definition parse_range :: "(string \<times> py_value) list \<Rightarrow> (clock_error, clock_range) result" where
  "parse_range d =
     bind_result (require_fields d [''start_sequence'', ''next_sequence'', ''offset_seconds'', ''uncertainty_seconds'', ''confidence'', ''source_id''] []) (\<lambda>_.
     bind_result (int_field (dict_get d ''start_sequence'')) (\<lambda>start.
     bind_result (int_field (dict_get d ''next_sequence'')) (\<lambda>nxt.
     bind_result (opt_field number_field (dict_get d ''offset_seconds'')) (\<lambda>offset.
     bind_result (opt_field number_field (dict_get d ''uncertainty_seconds'')) (\<lambda>uncertainty.
     bind_result (text_field (dict_get d ''confidence'')) (\<lambda>confidence.
     bind_result (text_field (dict_get d ''source_id'')) (\<lambda>source.
     bind_result (exact_int_or RangeInvalid start) (\<lambda>s.
     bind_result (exact_int_or RangeInvalid nxt) (\<lambda>n.
     bind_result (case offset of None \<Rightarrow> Inr None | Some v \<Rightarrow> bind_result (finite_or RangeInvalid v) (\<lambda>q. Inr (Some q))) (\<lambda>off.
     bind_result (case uncertainty of None \<Rightarrow> Inr None | Some v \<Rightarrow> bind_result (finite_or RangeInvalid v) (\<lambda>q. Inr (Some q))) (\<lambda>unc.
     new_clock_range s n off unc confidence source)))))))))))"

definition parse_intent :: "(string \<times> py_value) list \<Rightarrow> (clock_error, clock_intent) result" where
  "parse_intent d =
     bind_result (require_fields d [''operation_id'', ''phase'', ''observed_epoch'', ''target_epoch'', ''host_midpoint'', ''write_sequence_before'']
        [''write_sequence_after'']) (\<lambda>_.
     bind_result (text_field (dict_get d ''operation_id'')) (\<lambda>op.
     bind_result (text_field (dict_get d ''phase'')) (\<lambda>phase.
     bind_result (int_field (dict_get d ''observed_epoch'')) (\<lambda>observed.
     bind_result (int_field (dict_get d ''target_epoch'')) (\<lambda>target.
     bind_result (number_field (dict_get d ''host_midpoint'')) (\<lambda>midpoint.
     bind_result (int_field (dict_get d ''write_sequence_before'')) (\<lambda>before.
     bind_result (opt_field int_field (dict_get d ''write_sequence_after'')) (\<lambda>after.
     bind_result (exact_int_or IntentInvalid observed) (\<lambda>ob.
     bind_result (exact_int_or IntentInvalid target) (\<lambda>tg.
     bind_result (finite_or IntentInvalid midpoint) (\<lambda>mid.
     bind_result (exact_int_or IntentInvalid before) (\<lambda>bf.
     bind_result (case after of None \<Rightarrow> Inr None | Some v \<Rightarrow> bind_result (exact_int_or IntentInvalid v) (\<lambda>i. Inr (Some i))) (\<lambda>af.
     validated_intent \<lparr>operation_id = op, intent_phase = phase, observed_epoch = ob, target_epoch = tg, host_midpoint = mid,
       write_sequence_before = bf, write_sequence_after = af\<rparr>)))))))))))))"

definition parse_anchor :: "(string \<times> py_value) list \<Rightarrow> (clock_error, clock_anchor) result" where
  "parse_anchor d =
     bind_result (require_fields d [''sequence_frontier'', ''offset_seconds'', ''uncertainty_seconds'', ''confidence'', ''source_id''] []) (\<lambda>_.
     bind_result (int_field (dict_get d ''sequence_frontier'')) (\<lambda>frontier.
     bind_result (number_field (dict_get d ''offset_seconds'')) (\<lambda>offset.
     bind_result (number_field (dict_get d ''uncertainty_seconds'')) (\<lambda>uncertainty.
     bind_result (text_field (dict_get d ''confidence'')) (\<lambda>confidence.
     bind_result (text_field (dict_get d ''source_id'')) (\<lambda>source.
     bind_result (exact_int_or AnchorInvalid frontier) (\<lambda>fr.
     bind_result (finite_or AnchorInvalid offset) (\<lambda>off.
     bind_result (finite_or AnchorInvalid uncertainty) (\<lambda>unc.
     validated_anchor \<lparr>sequence_frontier = fr, anchor_offset = off, anchor_uncertainty = unc,
       anchor_confidence = confidence, anchor_source = source\<rparr>)))))))))"

fun parse_ranges :: "py_value list \<Rightarrow> (clock_error, clock_range list) result" where
  "parse_ranges [] = Inr []"
| "parse_ranges (PyDict d # vs) = bind_result (parse_range d) (\<lambda>r. bind_result (parse_ranges vs) (\<lambda>rs. Inr (r # rs)))"
| "parse_ranges (_ # vs) = parse_ranges vs"

fun parse_interval :: "py_value \<Rightarrow> (clock_error, int \<times> int) result" where
  "parse_interval (PyList [PyInt a, PyInt b]) = Inr (a, b)"
| "parse_interval _ = Inl CausalInvalid"

fun parse_intervals :: "py_value list \<Rightarrow> (clock_error, (int \<times> int) list) result" where
  "parse_intervals [] = Inr []"
| "parse_intervals (v # vs) = bind_result (parse_interval v) (\<lambda>iv. bind_result (parse_intervals vs) (\<lambda>ivs. Inr (iv # ivs)))"

definition opt_dict :: "((string \<times> py_value) list \<Rightarrow> (clock_error, 'a) result) \<Rightarrow> py_value \<Rightarrow> (clock_error, 'a option) result" where
  "opt_dict f v =
     (case v of
        PyNone \<Rightarrow> Inr None
      | PyDict d \<Rightarrow> bind_result (f d) (\<lambda>x. Inr (Some x))
      | _ \<Rightarrow> Inl PayloadInvalid)"

text \<open>Every exception inside the \<open>try\<close> block is reported as the same \<open>ClockStateError\<close>.\<close>

definition as_payload_error :: "(clock_error, 'a) result \<Rightarrow> (clock_error, 'a) result" where
  "as_payload_error r = (case r of Inl e \<Rightarrow> Inl PayloadInvalid | Inr x \<Rightarrow> Inr x)"

definition from_payload :: "py_value \<Rightarrow> (clock_error, clock_state) result" where
  "from_payload payload =
     (case payload of
        PyDict d \<Rightarrow>
          if \<not> keys_ok [''schema_version'', ''ranges'', ''intent'', ''anchor''] [''causal_uncertainty''] d then Inl PayloadInvalid
          else if exact_int (dict_get d ''schema_version'') \<noteq> Some 1 then Inl SchemaUnsupported
          else (case (dict_get d ''ranges'', dict_get d ''causal_uncertainty'') of
              (PyList values, uncertainty) \<Rightarrow>
                as_payload_error
                  (bind_result (parse_ranges values) (\<lambda>ranges.
                   if length ranges \<noteq> length values then Inl PayloadInvalid
                   else
                   bind_result (opt_dict parse_intent (dict_get d ''intent'')) (\<lambda>intent.
                   bind_result (opt_dict parse_anchor (dict_get d ''anchor'')) (\<lambda>anchor.
                   bind_result
                     (case (map_of d ''causal_uncertainty'', uncertainty) of
                        (None, _) \<Rightarrow> Inr []
                      | (Some _, PyList items) \<Rightarrow> parse_intervals items
                      | _ \<Rightarrow> Inl CausalInvalid) (\<lambda>causal.
                   new_clock_state ranges intent anchor causal)))))
            | _ \<Rightarrow> Inl PayloadInvalid)
      | _ \<Rightarrow> Inl PayloadInvalid)"

section \<open>What the ranges say of a sequence\<close>

text \<open>
  The contract of the range table: a partial function from record sequences to clock evidence.  The
  neighbour check of the constructor makes valid ranges pairwise disjoint, so the first hit is the only one.
\<close>

type_synonym evidence = "rat option \<times> rat option \<times> string \<times> string"

definition evidence_of :: "clock_range \<Rightarrow> evidence" where
  "evidence_of r = (range_offset r, range_uncertainty r, range_confidence r, range_source r)"

definition in_range :: "int \<Rightarrow> clock_range \<Rightarrow> bool" where
  "in_range q r \<longleftrightarrow> range_start r \<le> q \<and> q < range_next r"

definition evidence_at :: "clock_range list \<Rightarrow> int \<Rightarrow> evidence option" where
  "evidence_at rs q = map_option evidence_of (find (in_range q) rs)"

definition clock_valid :: "clock_state \<Rightarrow> bool" where
  "clock_valid s \<longleftrightarrow>
     list_all range_valid (clock_ranges s) \<and> ranges_ordered (clock_ranges s)
   \<and> pred_option intent_valid (clock_intent_of s) \<and> pred_option anchor_valid (clock_anchor_of s)
   \<and> list_all causal_interval_valid (causal_uncertainty s)"

definition before :: "clock_range \<Rightarrow> clock_range \<Rightarrow> bool" where
  "before l r \<longleftrightarrow> range_next l \<le> range_start r"

definition apart :: "clock_range \<Rightarrow> clock_range \<Rightarrow> bool" where
  "apart l r \<longleftrightarrow> before l r \<or> before r l"

definition covers :: "clock_range list \<Rightarrow> int \<Rightarrow> evidence \<Rightarrow> bool" where
  "covers rs q e \<longleftrightarrow> (\<exists>r \<in> set rs. in_range q r \<and> evidence_of r = e)"

lemma range_valid_bounds:
  assumes "range_valid r" "0 \<le> a" "a < b"
  shows "range_valid (r\<lparr>range_start := a, range_next := b\<rparr>)"
  using assms by (auto simp: range_valid_def)

lemma range_valid_nonempty: "range_valid r \<Longrightarrow> range_start r < range_next r"
  by (simp add: range_valid_def)

lemma ordered_iff_before:
  assumes "list_all range_valid rs"
  shows "ranges_ordered rs = sorted_wrt before rs"
  using assms
proof (induction rs rule: ranges_ordered.induct)
  case (1 l r rs)
  then have IH: "ranges_ordered (r # rs) = sorted_wrt before (r # rs)" by simp
  have "range_start r < range_next r" using 1 by (simp add: range_valid_nonempty)
  then have "\<forall>x \<in> set rs. before r x \<longrightarrow> before l r \<longrightarrow> before l x" by (auto simp: before_def)
  moreover have "ranges_ordered (l # r # rs) = (before l r \<and> ranges_ordered (r # rs))" by (simp add: before_def)
  ultimately show ?case using IH by auto
qed simp_all

lemma evidence_at_covers:
  assumes "sorted_wrt apart rs"
  shows "evidence_at rs q = Some e \<longleftrightarrow> covers rs q e"
  using assms
proof (induction rs)
  case Nil
  show ?case by (simp add: evidence_at_def covers_def)
next
  case (Cons r rs)
  have "\<not> in_range q x" if "x \<in> set rs" "in_range q r" for x
    using Cons.prems that by (auto simp: apart_def before_def in_range_def)
  then show ?case using Cons by (auto simp: evidence_at_def covers_def)
qed

lemma apart_sym: "apart l r = apart r l"
  by (auto simp: apart_def)

lemma sorted_apart_insort:
  "sorted_wrt apart (insort_key f x xs) \<longleftrightarrow> (\<forall>y \<in> set xs. apart x y) \<and> sorted_wrt apart xs"
  by (induction xs) (auto simp: set_insort_key apart_sym)

lemma sorted_apart_sort: "sorted_wrt apart (sort_key f xs) = sorted_wrt apart xs"
  by (induction xs) (simp_all add: sorted_apart_insort)

lemma sorted_wrt_both:
  assumes "sorted_wrt P xs" "sorted_wrt Q xs"
  shows "sorted_wrt (\<lambda>x y. P x y \<and> Q x y) xs"
  using assms by (simp add: sorted_wrt_iff_nth_less)

lemma sorted_starts_before:
  assumes "list_all range_valid rs" "sorted_wrt apart rs"
  shows "sorted_wrt before (sort_key range_start rs)"
proof -
  let ?xs = "sort_key range_start rs"
  have "sorted_wrt (\<lambda>x y. range_start x \<le> range_start y) ?xs"
    using sorted_sort_key [of range_start rs] by (simp add: sorted_wrt_map)
  moreover have "sorted_wrt apart ?xs" using assms(2) by (simp add: sorted_apart_sort)
  ultimately have "sorted_wrt (\<lambda>x y. range_start x \<le> range_start y \<and> apart x y) ?xs" by (rule sorted_wrt_both)
  then show ?thesis
  proof (rule sorted_wrt_mono_rel [rotated])
    fix x y
    assume "x \<in> set ?xs" "y \<in> set ?xs" "range_start x \<le> range_start y \<and> apart x y"
    then have "range_start y < range_next y" "range_start x \<le> range_start y" "apart x y"
      using assms(1) by (auto simp: list_all_iff range_valid_nonempty)
    then show "before x y" by (auto simp: apart_def before_def)
  qed
qed

subsection \<open>Cutting the incoming range\<close>

definition inside :: "int \<Rightarrow> int \<times> int \<Rightarrow> bool" where
  "inside q iv \<longleftrightarrow> fst iv \<le> q \<and> q < snd iv"

definition clear_of :: "int \<times> int \<Rightarrow> int \<times> int \<Rightarrow> bool" where
  "clear_of a b \<longleftrightarrow> snd a \<le> fst b \<or> snd b \<le> fst a"

lemma cut_interval_inside:
  assumes "fst iv < snd iv" "range_valid r"
  shows "(\<exists>p \<in> set (cut_interval r iv). inside q p) \<longleftrightarrow> inside q iv \<and> \<not> in_range q r"
  using assms by (auto simp: cut_interval_def Let_def inside_def in_range_def range_valid_def)

text \<open>Pieces of one interval: nonempty, within it, clear of the cutting range and of one another.\<close>

definition pieces_ok :: "(int \<times> int) list \<Rightarrow> bool" where
  "pieces_ok u \<longleftrightarrow> list_all (\<lambda>iv. fst iv < snd iv) u \<and> sorted_wrt clear_of u"

lemma cut_interval_ok:
  assumes "fst iv < snd iv" "range_valid r"
  shows "pieces_ok (cut_interval r iv)"
    and "p \<in> set (cut_interval r iv) \<Longrightarrow> fst iv \<le> fst p \<and> snd p \<le> snd iv"
    and "p \<in> set (cut_interval r iv) \<Longrightarrow> snd p \<le> range_start r \<or> range_next r \<le> fst p"
  using assms by (auto simp: cut_interval_def Let_def pieces_ok_def clear_of_def range_valid_def split: if_splits)

lemma cut_pieces_ok:
  assumes "pieces_ok u" "range_valid r"
  shows "pieces_ok (concat (map (cut_interval r) u))"
  using assms(1)
proof (induction u)
  case Nil
  show ?case by (simp add: pieces_ok_def)
next
  case (Cons iv u)
  have iv: "fst iv < snd iv" and u: "pieces_ok u" and clear: "\<And>x. x \<in> set u \<Longrightarrow> clear_of iv x"
    and pos: "\<And>x. x \<in> set u \<Longrightarrow> fst x < snd x"
    using Cons.prems by (auto simp: pieces_ok_def list_all_iff)
  have "clear_of p p'" if "p \<in> set (cut_interval r iv)" "x \<in> set u" "p' \<in> set (cut_interval r x)" for p p' x
    using cut_interval_ok(2) [OF iv assms(2) that(1)] cut_interval_ok(2) [OF pos assms(2), OF that(2,3)] clear [OF that(2)]
    by (auto simp: clear_of_def)
  then show ?case
    using cut_interval_ok(1) [OF iv assms(2)] Cons.IH [OF u]
    by (auto simp: pieces_ok_def sorted_wrt_append list_all_iff)
qed

lemma uncovered_parts_simps [simp]:
  "uncovered_parts [] u = u"
  "uncovered_parts (r # rs) u = uncovered_parts rs (concat (map (cut_interval r) u))"
  by (simp_all add: uncovered_parts_def)

lemma uncovered_parts_ok:
  assumes "pieces_ok u" "list_all range_valid rs"
  shows "pieces_ok (uncovered_parts rs u)"
  using assms by (induction rs arbitrary: u) (simp_all add: cut_pieces_ok)

lemma uncovered_parts_inside:
  assumes "pieces_ok u" "list_all range_valid rs"
  shows "(\<exists>p \<in> set (uncovered_parts rs u). inside q p) \<longleftrightarrow> (\<exists>p \<in> set u. inside q p) \<and> \<not> (\<exists>r \<in> set rs. in_range q r)"
  using assms
proof (induction rs arbitrary: u)
  case (Cons r rs)
  then have "\<And>iv. iv \<in> set u \<Longrightarrow> fst iv < snd iv" "range_valid r" by (auto simp: pieces_ok_def list_all_iff)
  then have "(\<exists>p \<in> set (concat (map (cut_interval r) u)). inside q p) \<longleftrightarrow> (\<exists>p \<in> set u. inside q p) \<and> \<not> in_range q r"
    using cut_interval_inside [of _ r q] by auto
  then show ?case using Cons.IH [of "concat (map (cut_interval r) u)"] Cons.prems by (auto simp: cut_pieces_ok)
qed simp

lemma uncovered_parts_apart:
  assumes "pieces_ok u" "list_all range_valid rs" "p \<in> set (uncovered_parts rs u)"
  shows "(\<exists>iv \<in> set u. fst iv \<le> fst p \<and> snd p \<le> snd iv)
       \<and> (\<forall>r \<in> set rs. snd p \<le> range_start r \<or> range_next r \<le> fst p)"
  using assms
proof (induction rs arbitrary: u)
  case (Cons r rs)
  let ?u = "concat (map (cut_interval r) u)"
  have v: "range_valid r" and pos: "\<And>iv. iv \<in> set u \<Longrightarrow> fst iv < snd iv"
    using Cons.prems by (auto simp: pieces_ok_def list_all_iff)
  obtain c iv where c: "iv \<in> set u" "c \<in> set (cut_interval r iv)" "fst c \<le> fst p" "snd p \<le> snd c"
    and rest: "\<forall>r \<in> set rs. snd p \<le> range_start r \<or> range_next r \<le> fst p"
    using Cons.IH [of ?u] Cons.prems by (auto simp: cut_pieces_ok)
  have "fst iv \<le> fst p" "snd p \<le> snd iv" "snd p \<le> range_start r \<or> range_next r \<le> fst p"
    using c cut_interval_ok(2) [OF pos v c(2), OF c(1)] cut_interval_ok(3) [OF pos v c(2), OF c(1)] by auto
  then show ?case using c(1) rest by auto
qed auto

subsection \<open>Merging neighbours\<close>

lemma same_evidence_iff: "same_evidence a b \<longleftrightarrow> evidence_of a = evidence_of b"
  by (cases a; cases b) (auto simp: same_evidence_def evidence_of_def)

lemma covers_append: "covers (xs @ ys) q e \<longleftrightarrow> covers xs q e \<or> covers ys q e"
  by (auto simp: covers_def)

lemma covers_Cons: "covers (x # ys) q e \<longleftrightarrow> (in_range q x \<and> evidence_of x = e) \<or> covers ys q e"
  by (auto simp: covers_def)

lemma covers_Nil [simp]: "\<not> covers [] q e"
  by (simp add: covers_def)

text \<open>One merge step, on the ranges \<open>ms\<close> merged so far, the next one and those still to come.\<close>

lemma merge_step_ok:
  assumes "list_all range_valid (ms @ x # xs)" "sorted_wrt before (ms @ x # xs)"
  shows "list_all range_valid (merge_step ms x @ xs)"
    and "sorted_wrt before (merge_step ms x @ xs)"
    and "covers (merge_step ms x @ xs) q e \<longleftrightarrow> covers (ms @ x # xs) q e"
proof -
  consider (plain) "merge_step ms x = ms @ [x]"
    | (join) ns m where "ms = ns @ [m]" "range_next m = range_start x" "evidence_of m = evidence_of x"
        "merge_step ms x = ns @ [m\<lparr>range_next := range_next x\<rparr>]"
    by (cases ms rule: rev_cases; cases "range_next (last ms) = range_start x \<and> evidence_of (last ms) = evidence_of x")
       (auto simp: merge_step_def same_evidence_iff)
  note cs = this
  show "list_all range_valid (merge_step ms x @ xs)"
    using cs
  proof cases
    case join
    then have "range_valid (m\<lparr>range_start := range_start m, range_next := range_next x\<rparr>)"
      using assms(1) by (intro range_valid_bounds) (auto simp: range_valid_def)
    then show ?thesis using join assms(1) by simp
  qed (use assms in simp)
  show "sorted_wrt before (merge_step ms x @ xs)"
    using cs
  proof cases
    case join
    then show ?thesis using assms(2) by (auto simp: sorted_wrt_append before_def)
  qed (use assms in simp)
  show "covers (merge_step ms x @ xs) q e \<longleftrightarrow> covers (ms @ x # xs) q e"
    using cs
  proof cases
    case join
    have "range_start m < range_next m" "range_start x < range_next x"
      using assms(1) join(1) by (simp_all add: range_valid_nonempty)
    then have "in_range q (m\<lparr>range_next := range_next x\<rparr>) \<longleftrightarrow> in_range q m \<or> in_range q x"
      using join(2) by (auto simp: in_range_def)
    moreover have "evidence_of (m\<lparr>range_next := range_next x\<rparr>) = evidence_of m" by (simp add: evidence_of_def)
    ultimately show ?thesis using join by (auto simp: covers_append covers_Cons)
  qed (simp add: covers_append covers_Cons)
qed

lemma foldl_merge_ok:
  assumes "list_all range_valid (ms @ xs)" "sorted_wrt before (ms @ xs)"
  shows "list_all range_valid (foldl merge_step ms xs) \<and> sorted_wrt before (foldl merge_step ms xs)
       \<and> (\<forall>q e. covers (foldl merge_step ms xs) q e \<longleftrightarrow> covers (ms @ xs) q e)"
  using assms
proof (induction xs arbitrary: ms)
  case (Cons x xs)
  note step = merge_step_ok [OF Cons.prems]
  show ?case using Cons.IH [OF step(1,2)] step(3) by simp
qed simp

lemmas merge_ranges_ok = foldl_merge_ok [where ms = "[]", simplified, folded merge_ranges_def]

subsection \<open>Adding a range\<close>

lemma new_parts_pieces:
  assumes "pieces_ok u"
  shows "new_parts x u = map (\<lambda>iv. x\<lparr>range_start := fst iv, range_next := snd iv\<rparr>) u"
  using assms by (simp add: new_parts_def pieces_ok_def list_all_iff filter_id_conv [THEN iffD2])

lemma sorted_apart_parts:
  "sorted_wrt apart (map (\<lambda>iv. x\<lparr>range_start := fst iv, range_next := snd iv\<rparr>) u) = sorted_wrt clear_of u"
  by (induction u) (auto simp: apart_def before_def clear_of_def)

lemma covers_parts:
  "covers (map (\<lambda>iv. x\<lparr>range_start := fst iv, range_next := snd iv\<rparr>) u) q e
     \<longleftrightarrow> (\<exists>p \<in> set u. inside q p) \<and> e = evidence_of x"
  by (auto simp: covers_def in_range_def inside_def evidence_of_def)

lemma before_apart: "sorted_wrt before rs \<Longrightarrow> sorted_wrt apart rs"
  by (rule sorted_wrt_mono_rel [of _ before]) (simp_all add: apart_def)

text \<open>The table before sorting: the old ranges and the new parts are valid, disjoint and cover the right points.\<close>

lemma extended_ranges_ok:
  assumes "list_all range_valid rs" "ranges_ordered rs" "range_valid x"
  defines "ext \<equiv> rs @ new_parts x (uncovered_parts rs [(range_start x, range_next x)])"
  shows "list_all range_valid ext" "sorted_wrt apart ext"
    and "covers ext q e \<longleftrightarrow> covers rs q e \<or> (in_range q x \<and> e = evidence_of x \<and> \<not> (\<exists>r \<in> set rs. in_range q r))"
proof -
  let ?u = "uncovered_parts rs [(range_start x, range_next x)]"
  let ?part = "\<lambda>iv. x\<lparr>range_start := fst iv, range_next := snd iv\<rparr>"
  have init: "pieces_ok [(range_start x, range_next x)]" using assms(3) by (simp add: pieces_ok_def range_valid_nonempty)
  note u = uncovered_parts_ok [OF init assms(1)]
  have ext: "ext = rs @ map ?part ?u" by (simp add: ext_def new_parts_pieces [OF u])
  have within: "range_start x \<le> fst p" "\<And>r. r \<in> set rs \<Longrightarrow> snd p \<le> range_start r \<or> range_next r \<le> fst p"
    if "p \<in> set ?u" for p using uncovered_parts_apart [OF init assms(1) that] by auto
  have "range_valid (?part p)" if "p \<in> set ?u" for p
    using range_valid_bounds [OF assms(3), of "fst p" "snd p"] within(1) [OF that] u that assms(3)
    by (auto simp: pieces_ok_def list_all_iff range_valid_def [of x])
  then show "list_all range_valid ext" using assms(1) by (auto simp: ext list_all_iff)
  have "sorted_wrt apart rs" using assms(1,2) by (simp add: ordered_iff_before before_apart)
  moreover have "sorted_wrt apart (map ?part ?u)" using u by (simp add: sorted_apart_parts pieces_ok_def)
  ultimately show "sorted_wrt apart ext"
    using within(2) by (auto simp: ext sorted_wrt_append apart_def before_def)
  show "covers ext q e \<longleftrightarrow> covers rs q e \<or> (in_range q x \<and> e = evidence_of x \<and> \<not> (\<exists>r \<in> set rs. in_range q r))"
    using uncovered_parts_inside [OF init assms(1), of q]
    by (auto simp: ext covers_append covers_parts inside_def in_range_def)
qed

lemma covers_set: "set xs = set ys \<Longrightarrow> covers xs q e = covers ys q e"
  by (simp add: covers_def)

lemma clock_valid_apart: "clock_valid s \<Longrightarrow> sorted_wrt apart (clock_ranges s)"
  using before_apart [of "clock_ranges s"] ordered_iff_before [of "clock_ranges s"] by (simp add: clock_valid_def)

lemma evidence_at_None: "evidence_at rs q = None \<longleftrightarrow> \<not> (\<exists>r \<in> set rs. in_range q r)"
  by (auto simp: evidence_at_def find_None_iff)

lemma add_range_ok:
  assumes "clock_valid s" "range_valid x"
  obtains t where "add_range s x = Inr t" "clock_valid t"
    "clock_intent_of t = clock_intent_of s" "clock_anchor_of t = clock_anchor_of s"
    "causal_uncertainty t = causal_uncertainty s"
    "evidence_at (clock_ranges t) = evidence_at [x] ++ evidence_at (clock_ranges s)"
proof -
  let ?rs = "clock_ranges s"
  let ?ext = "?rs @ new_parts x (uncovered_parts ?rs [(range_start x, range_next x)])"
  let ?srt = "sort_key range_start ?ext"
  have rs: "list_all range_valid ?rs" "ranges_ordered ?rs" using assms(1) by (auto simp: clock_valid_def)
  note ext = extended_ranges_ok [OF rs assms(2)]
  have srt: "list_all range_valid ?srt" "sorted_wrt before ?srt"
    using ext(1) sorted_starts_before [OF ext(1,2)] by (simp_all add: list_all_iff)
  note m = merge_ranges_ok [OF srt]
  let ?t = "s\<lparr>clock_ranges := merge_ranges ?srt\<rparr>"
  have t: "add_range s x = Inr ?t"
    using m assms(1) by (cases s) (simp add: add_range_def Let_def new_clock_state_def ordered_iff_before clock_valid_def)
  have tv: "clock_valid ?t" using m assms(1) by (simp add: clock_valid_def ordered_iff_before)
  have cov: "covers (merge_ranges ?srt) q e \<longleftrightarrow> covers ?rs q e \<or> (in_range q x \<and> e = evidence_of x \<and> evidence_at ?rs q = None)"
    for q e
  proof -
    have "covers (merge_ranges ?srt) q e \<longleftrightarrow> covers ?ext q e" using m covers_set [of ?srt ?ext q e] by (cases e) simp
    then show ?thesis using ext(3) [of q e] by (simp add: evidence_at_None)
  qed
  have "evidence_at (merge_ranges ?srt) q = Some e \<longleftrightarrow> (evidence_at [x] ++ evidence_at ?rs) q = Some e" for q e
    using cov [of q e] evidence_at_covers [OF clock_valid_apart [OF tv], of q e]
      evidence_at_covers [OF clock_valid_apart [OF assms(1)], of q e]
    by (auto simp: map_add_Some_iff evidence_at_def [of "[x]"])
  then have "evidence_at (merge_ranges ?srt) = evidence_at [x] ++ evidence_at ?rs"
    by (intro HOL.ext) (metis option.exhaust)
  then show thesis using that [OF t tv] by simp
qed

section \<open>The range table as an interface\<close>

text \<open>
  What the operations on intents and observations rely on: an addition succeeds on a well formed table, fills
  only what the table leaves open and keeps the rest of the state.
\<close>

locale evidence_table =
  fixes add :: "'s \<Rightarrow> 'x \<Rightarrow> ('err, 's) result"
    and ok :: "'s \<Rightarrow> bool"
    and ok_item :: "'x \<Rightarrow> bool"
    and look :: "'s \<Rightarrow> 'k \<rightharpoonup> 'v"
    and item :: "'x \<Rightarrow> 'k \<rightharpoonup> 'v"
    and frame :: "'s \<Rightarrow> 'f"
  assumes add_fills: "ok s \<Longrightarrow> ok_item x \<Longrightarrow>
    \<exists>t. add s x = Inr t \<and> ok t \<and> look t = item x ++ look s \<and> frame t = frame s"
begin

lemma add_keeps:
  assumes "ok s" "ok_item x" "add s x = Inr t"
  shows "ok t" "look s \<subseteq>\<^sub>m look t" "frame t = frame s"
  using add_fills [OF assms(1,2)] assms(3) by auto

lemma add_all:
  assumes "ok s" "list_all ok_item xs"
  shows "\<exists>t. fold_result add s xs = Inr t \<and> ok t \<and> look s \<subseteq>\<^sub>m look t \<and> frame t = frame s
           \<and> dom (look t) = dom (look s) \<union> (\<Union>x \<in> set xs. dom (item x))"
  using assms
proof (induction xs arbitrary: s)
  case (Cons x xs)
  obtain u where u: "add s x = Inr u" "ok u" "look u = item x ++ look s" "frame u = frame s"
    using add_fills [of s x] Cons.prems by auto
  then obtain t where t: "fold_result add u xs = Inr t" "ok t" "look u \<subseteq>\<^sub>m look t" "frame t = frame u"
    "dom (look t) = dom (look u) \<union> (\<Union>x \<in> set xs. dom (item x))"
    using Cons.IH [of u] Cons.prems by auto
  moreover have "look s \<subseteq>\<^sub>m look u" by (simp add: u(3))
  ultimately have "look s \<subseteq>\<^sub>m look t" by (blast intro: map_le_trans)
  with t u show ?case by auto
qed simp

end

definition clock_frame :: "clock_state \<Rightarrow> clock_intent option \<times> clock_anchor option \<times> (int \<times> int) list" where
  "clock_frame s = (clock_intent_of s, clock_anchor_of s, causal_uncertainty s)"

interpretation clock: evidence_table add_range clock_valid range_valid "\<lambda>s. evidence_at (clock_ranges s)"
  "\<lambda>x. evidence_at [x]" clock_frame
proof unfold_locales
  fix s x
  assume "clock_valid s" "range_valid x"
  then show "\<exists>t. add_range s x = Inr t \<and> clock_valid t
      \<and> evidence_at (clock_ranges t) = evidence_at [x] ++ evidence_at (clock_ranges s) \<and> clock_frame t = clock_frame s"
    by (rule add_range_ok) (auto simp: clock_frame_def)
qed

section \<open>Coverage of the write boundary\<close>

lemma unknown_coverage_loop_exact:
  assumes "sorted_wrt before rs" "list_all range_valid rs" "cursor < fin"
  shows "unknown_coverage_loop cursor fin rs = Inr () \<longleftrightarrow>
    (\<forall>q. cursor \<le> q \<and> q < fin \<longrightarrow> (\<exists>r \<in> set rs. in_range q r \<and> range_offset r = None))"
  using assms
proof (induction rs arbitrary: cursor)
  case (Cons r rs)
  have later: "range_next r \<le> range_start x" if "x \<in> set rs" for x using Cons.prems(1) that by (auto simp: before_def)
  have ne: "range_start r < range_next r" using Cons.prems(2) by (simp add: range_valid_nonempty)
  consider (skip) "range_next r \<le> cursor" | (gap) "cursor < range_start r"
    | (hit) "range_start r \<le> cursor" "cursor < range_next r" by linarith
  then show ?case
  proof cases
    case skip
    then show ?thesis using Cons by (auto simp: in_range_def)
  next
    case gap
    then have "\<not> (\<exists>x \<in> set (r # rs). in_range cursor x)" using later ne by (force simp: in_range_def)
    then show ?thesis using gap ne Cons.prems(3) by auto
  next
    case hit
    show ?thesis
    proof (cases "range_offset r = None")
      case False
      have "\<not> in_range cursor x" if "x \<in> set rs" for x using later [OF that] hit by (simp add: in_range_def)
      then show ?thesis using False hit Cons.prems(3) by auto
    next
      case True
      show ?thesis
      proof (cases "fin \<le> range_next r")
        case True
        then show ?thesis using hit \<open>range_offset r = None\<close> by (auto simp: min_def in_range_def)
      next
        case False
        then have "unknown_coverage_loop (range_next r) fin rs = Inr () \<longleftrightarrow>
            (\<forall>q. range_next r \<le> q \<and> q < fin \<longrightarrow> (\<exists>r \<in> set rs. in_range q r \<and> range_offset r = None))"
          using Cons.IH [of "range_next r"] Cons.prems by simp
        moreover have "(\<forall>q. cursor \<le> q \<and> q < fin \<longrightarrow> in_range q r \<or> P q) \<longleftrightarrow> (\<forall>q. range_next r \<le> q \<and> q < fin \<longrightarrow> P q)" for P
          using hit by (metis in_range_def less_le_not_le linorder_not_less order_trans)
        moreover have "(\<exists>x \<in> set (r # rs). in_range q x \<and> range_offset x = None) \<longleftrightarrow>
            in_range q r \<or> (\<exists>x \<in> set rs. in_range q x \<and> range_offset x = None)" for q
          using \<open>range_offset r = None\<close> by auto
        ultimately show ?thesis using hit False \<open>range_offset r = None\<close> by (simp add: min_def)
      qed
    qed
  qed
qed auto


lemma evidence_at_in: "evidence_at rs q = Some e \<Longrightarrow> \<exists>r \<in> set rs. in_range q r \<and> evidence_of r = e"
  by (auto simp: evidence_at_def find_Some_iff)

lemma sort_key_before:
  assumes "sorted_wrt before rs" "list_all range_valid rs"
  shows "sort_key range_start rs = rs"
proof -
  have "sorted_wrt (\<lambda>x y. range_start x \<le> range_start y) rs"
    by (rule sorted_wrt_mono_rel [OF _ assms(1)])
       (use assms(2) in \<open>force simp: before_def list_all_iff dest!: range_valid_nonempty\<close>)
  then show ?thesis by (simp add: sort_key_id_if_sorted sorted_wrt_map)
qed

text \<open>On a well formed table the check decides whether every sequence of the boundary has evidence without an offset.\<close>

lemma require_unknown_coverage_exact:
  assumes "clock_valid s" "start < fin"
  shows "require_unknown_coverage start fin (clock_ranges s) = Inr () \<longleftrightarrow>
    (\<forall>q. start \<le> q \<and> q < fin \<longrightarrow> (\<exists>e. evidence_at (clock_ranges s) q = Some (None, e)))"
proof -
  let ?rs = "clock_ranges s"
  have rs: "sorted_wrt before ?rs" "list_all range_valid ?rs"
    using assms(1) ordered_iff_before [of ?rs] by (auto simp: clock_valid_def)
  have "(\<exists>r \<in> set ?rs. in_range q r \<and> range_offset r = None) \<longleftrightarrow> (\<exists>e. evidence_at ?rs q = Some (None, e))" for q
    unfolding evidence_at_covers [OF clock_valid_apart [OF assms(1)]] by (auto simp: covers_def evidence_of_def)
  then show ?thesis
    using unknown_coverage_loop_exact [OF rs assms(2)] sort_key_before [OF rs] by (simp add: require_unknown_coverage_def)
qed

section \<open>Properties\<close>

text \<open>
  C39: evidence is only ever added to uncovered sequences.  On every well formed state, adding a valid range
  succeeds, leaves the ranges ordered and disjoint, and gives each sequence the evidence it had, else that of
  the incoming range if it lies in it, else none; intent, anchor and causal intervals are untouched.
\<close>

theorem add_range_fills_uncovered:
  assumes "clock_valid s" "range_valid incoming"
  shows "\<exists>t. add_range s incoming = Inr t \<and> clock_valid t
    \<and> (\<forall>q. evidence_at (clock_ranges t) q =
         (case evidence_at (clock_ranges s) q of
            Some e \<Rightarrow> Some e
          | None \<Rightarrow> if range_start incoming \<le> q \<and> q < range_next incoming then Some (evidence_of incoming) else None))
    \<and> clock_intent_of t = clock_intent_of s \<and> clock_anchor_of t = clock_anchor_of s
    \<and> causal_uncertainty t = causal_uncertainty s"
proof -
  obtain t where t: "add_range s incoming = Inr t" "clock_valid t"
    "evidence_at (clock_ranges t) = evidence_at [incoming] ++ evidence_at (clock_ranges s)" "clock_frame t = clock_frame s"
    using clock.add_fills [OF assms] by auto
  then show ?thesis by (auto simp: clock_frame_def map_add_def evidence_at_def [of "[incoming]"] in_range_def split: option.splits)
qed

definition sample_range :: "int \<Rightarrow> int \<Rightarrow> rat option \<Rightarrow> clock_range" where
  "sample_range a b off =
     \<lparr>range_start = a, range_next = b, range_offset = off, range_uncertainty = map_option (\<lambda>_. 1) off,
      range_confidence = (if off = None then ''unknown'' else ''approximate''), range_source = ''host''\<rparr>"

definition sample_clock :: "clock_state" where
  "sample_clock = \<lparr>clock_ranges = [sample_range 10 20 (Some 5)], 
     clock_intent_of = Some \<lparr>operation_id = ''op'', intent_phase = ''uncertain'', observed_epoch = 100, target_epoch = 200,
        host_midpoint = 3 / 2, write_sequence_before = 20, write_sequence_after = Some 25\<rparr>,
     clock_anchor_of = Some \<lparr>sequence_frontier = 20, anchor_offset = 5, anchor_uncertainty = 1,
        anchor_confidence = ''approximate'', anchor_source = ''host''\<rparr>,
     causal_uncertainty = [(3, 4)]\<rparr>"

lemmas sample_clock_simps = sample_clock_def sample_range_def clock_valid_def range_valid_def intent_valid_def anchor_valid_def
  causal_interval_valid_def

theorem add_range_fills_uncovered_witness:
  "clock_valid sample_clock \<and> range_valid (sample_range 5 30 None)
   \<and> (\<exists>t. add_range sample_clock (sample_range 5 30 None) = Inr t
        \<and> evidence_at (clock_ranges t) 7 = Some (evidence_of (sample_range 5 30 None))
        \<and> evidence_at (clock_ranges t) 12 = Some (evidence_of (sample_range 10 20 (Some 5)))
        \<and> evidence_at (clock_ranges t) 30 = None)"
proof -
  have v: "clock_valid sample_clock" "range_valid (sample_range 5 30 None)" by (auto simp: sample_clock_simps)
  have old: "evidence_at (clock_ranges sample_clock) 7 = None" "evidence_at (clock_ranges sample_clock) 30 = None"
    "evidence_at (clock_ranges sample_clock) 12 = Some (evidence_of (sample_range 10 20 (Some 5)))"
    and new: "range_start (sample_range 5 30 None) = 5" "range_next (sample_range 5 30 None) = 30"
    by (simp_all add: sample_clock_def sample_range_def evidence_at_def in_range_def)
  obtain t where "add_range sample_clock (sample_range 5 30 None) = Inr t"
    "\<And>q. evidence_at (clock_ranges t) q = (case evidence_at (clock_ranges sample_clock) q of
       Some e \<Rightarrow> Some e
     | None \<Rightarrow> if range_start (sample_range 5 30 None) \<le> q \<and> q < range_next (sample_range 5 30 None)
         then Some (evidence_of (sample_range 5 30 None)) else None)"
    using add_range_fills_uncovered [OF v] by auto
  then show ?thesis using v by (simp add: old new)
qed

lemma finish_intent_boundary:
  assumes "clock_valid s" "list_all range_valid ranges" "finish_intent s op ranges = Inr t"
  shows "\<exists>i b. clock_intent_of s = Some i \<and> operation_id i = op \<and> intent_phase i = ''uncertain'' \<and> write_sequence_after i = Some b
    \<and> clock_intent_of t = None \<and> clock_anchor_of t = clock_anchor_of s
    \<and> set (causal_uncertainty t) = insert (write_sequence_before i, b) (set (causal_uncertainty s))
    \<and> (\<forall>q. write_sequence_before i \<le> q \<and> q < b \<longrightarrow> (\<exists>e. evidence_at (clock_ranges t) q = Some (None, e)))
    \<and> evidence_at (clock_ranges s) \<subseteq>\<^sub>m evidence_at (clock_ranges t)
    \<and> clock_valid t"
proof -
  obtain i b where i: "clock_intent_of s = Some i" "operation_id i = op" "intent_phase i = ''uncertain''" "write_sequence_after i = Some b"
    using assms(3) by (auto simp: finish_intent_def split: option.splits if_splits)
  obtain u where u: "fold_result add_range s ranges = Inr u" "clock_valid u"
    "evidence_at (clock_ranges s) \<subseteq>\<^sub>m evidence_at (clock_ranges u)" "clock_frame u = clock_frame s"
    using clock.add_all [OF assms(1,2)] by auto
  have t: "t = u\<lparr>clock_intent_of := None,
      causal_uncertainty := sort (remdups (causal_uncertainty u @ [(write_sequence_before i, b)]))\<rparr>"
    and chk: "write_sequence_before i < b \<Longrightarrow> require_unknown_coverage (write_sequence_before i) b (clock_ranges u) = Inr ()"
    using assms(3) i u(1) by (auto simp: finish_intent_def Let_def bind_result_Inr_iff split: if_splits)
  have "\<exists>e. evidence_at (clock_ranges u) q = Some (None, e)" if "write_sequence_before i \<le> q" "q < b" for q
    using that chk require_unknown_coverage_exact [OF u(2), of "write_sequence_before i" b] by simp
  moreover have "causal_interval_valid (write_sequence_before i, b)"
    using assms(1) i by (simp add: clock_valid_def intent_valid_def causal_interval_valid_def)
  ultimately show ?thesis using i u by (auto simp: t clock_frame_def clock_valid_def list_all_iff)
qed

text \<open>
  A clock write is closed only over a boundary that stays unknown.  When finishing an intent succeeds, the
  intent was the named uncertain one with a resolved boundary, it is gone afterwards, its interval is among the
  causally uncertain ones, every sequence of the boundary has evidence without a clock offset, and all evidence
  recorded before is unchanged; the state is well formed again.
\<close>

theorem finish_intent_keeps_boundary_unknown:
  assumes "clock_valid s" "list_all range_valid ranges" "finish_intent s op ranges = Inr t"
  shows "\<exists>i b. clock_intent_of s = Some i \<and> operation_id i = op \<and> intent_phase i = ''uncertain'' \<and> write_sequence_after i = Some b
    \<and> clock_intent_of t = None \<and> clock_anchor_of t = clock_anchor_of s
    \<and> set (causal_uncertainty t) = insert (write_sequence_before i, b) (set (causal_uncertainty s))
    \<and> (\<forall>q. write_sequence_before i \<le> q \<and> q < b \<longrightarrow> (\<exists>e. evidence_at (clock_ranges t) q = Some (None, e)))
    \<and> evidence_at (clock_ranges s) \<subseteq>\<^sub>m evidence_at (clock_ranges t)
    \<and> clock_valid t"
  using assms by (rule finish_intent_boundary)

theorem finish_intent_keeps_boundary_unknown_witness:
  "clock_valid sample_clock \<and> (\<exists>t. finish_intent sample_clock ''op'' [sample_range 20 25 None] = Inr t
     \<and> clock_intent_of t = None \<and> (20, 25) \<in> set (causal_uncertainty t)
     \<and> (\<exists>e. evidence_at (clock_ranges t) 22 = Some (None, e)))"
proof -
  have v: "clock_valid sample_clock" "list_all range_valid [sample_range 20 25 None]" by (auto simp: sample_clock_simps)
  obtain t where t: "finish_intent sample_clock ''op'' [sample_range 20 25 None] = Inr t"
    by (simp add: finish_intent_def require_unknown_coverage_def add_range_def uncovered_parts_def cut_interval_def
        new_parts_def merge_ranges_def merge_step_def same_evidence_def new_clock_state_def sample_clock_simps)
  show ?thesis using v(1) t finish_intent_keeps_boundary_unknown [OF v t] by (auto simp: sample_clock_def)
qed

section \<open>Round trip of the payload\<close>

lemma range_payload_roundtrip: "range_valid r \<Longrightarrow> parse_range (range_payload r) = Inr r"
  by (cases r; cases "range_offset r"; cases "range_uncertainty r")
     (simp_all add: parse_range_def range_payload_def require_fields_def keys_ok_def dict_get_def int_field_def number_field_def
       text_field_def exact_int_or_def finite_or_def opt_field_def opt_number_def new_clock_range_def)

lemma intent_payload_roundtrip: "intent_valid i \<Longrightarrow> parse_intent (intent_payload i) = Inr i"
  by (cases i; cases "write_sequence_after i")
     (simp_all add: parse_intent_def intent_payload_def require_fields_def keys_ok_def dict_get_def int_field_def number_field_def
       text_field_def exact_int_or_def finite_or_def opt_field_def validated_intent_def)

lemma anchor_payload_roundtrip: "anchor_valid a \<Longrightarrow> parse_anchor (anchor_payload a) = Inr a"
  by (cases a)
     (simp add: parse_anchor_def anchor_payload_def require_fields_def keys_ok_def dict_get_def int_field_def number_field_def
       text_field_def exact_int_or_def finite_or_def validated_anchor_def)

lemma ranges_payload_roundtrip:
  "list_all range_valid rs \<Longrightarrow> parse_ranges (map (\<lambda>r. PyDict (range_payload r)) rs) = Inr rs"
  by (induction rs) (simp_all add: range_payload_roundtrip)

lemma intervals_roundtrip: "parse_intervals (map (\<lambda>iv. PyList [PyInt (fst iv), PyInt (snd iv)]) ivs) = Inr ivs"
  by (induction ivs) simp_all

lemma opt_dict_roundtrip:
  "\<lbrakk>pred_option P x; \<And>y. P y \<Longrightarrow> f (g y) = Inr y\<rbrakk> \<Longrightarrow> opt_dict f (case x of None \<Rightarrow> PyNone | Some y \<Rightarrow> PyDict (g y)) = Inr x"
  by (cases x) (simp_all add: opt_dict_def)

lemma payload_reads_back:
  assumes "clock_valid s"
  shows "from_payload (PyDict (to_payload s)) = Inr s"
proof -
  have v: "list_all range_valid (clock_ranges s)" "ranges_ordered (clock_ranges s)"
    "pred_option intent_valid (clock_intent_of s)" "pred_option anchor_valid (clock_anchor_of s)"
    "list_all causal_interval_valid (causal_uncertainty s)" using assms by (auto simp: clock_valid_def)
  note parts = ranges_payload_roundtrip [OF v(1)] intervals_roundtrip
    opt_dict_roundtrip [OF v(3) intent_payload_roundtrip] opt_dict_roundtrip [OF v(4) anchor_payload_roundtrip]
  have "new_clock_state (clock_ranges s) (clock_intent_of s) (clock_anchor_of s) (causal_uncertainty s) = Inr s"
    using v by (simp add: new_clock_state_def)
  then show ?thesis
    by (cases "causal_uncertainty s = []")
       (simp_all add: from_payload_def to_payload_def keys_ok_def dict_get_def parts as_payload_error_def)
qed

text \<open>
  The durable snapshot reads back: parsing the payload of a well formed clock state returns that state,
  whether or not it has a pending intent, an anchor or causally uncertain intervals.
\<close>

theorem clock_payload_roundtrip:
  assumes "clock_valid s"
  shows "from_payload (PyDict (to_payload s)) = Inr s"
  using assms by (rule payload_reads_back)

theorem clock_payload_roundtrip_witness:
  "clock_valid sample_clock \<and> from_payload (PyDict (to_payload sample_clock)) = Inr sample_clock"
proof -
  have "clock_valid sample_clock" by (auto simp: sample_clock_simps)
  then show ?thesis using clock_payload_roundtrip [of sample_clock] by simp
qed

section \<open>Observations\<close>

lemma new_clock_range_ok:
  assumes "range_valid \<lparr>range_start = a, range_next = b, range_offset = off, range_uncertainty = unc,
    range_confidence = c, range_source = src\<rparr>"
  shows "new_clock_range a b off unc c src = Inr \<lparr>range_start = a, range_next = b, range_offset = off,
    range_uncertainty = unc, range_confidence = c, range_source = src\<rparr>"
  using assms by (simp add: new_clock_range_def)

lemma observe_anchor_ok:
  assumes "clock_valid u" "0 \<le> write_sequence info" "0 \<le> uncertainty" "source \<noteq> []"
  shows "\<exists>t. observe_anchor s info offset uncertainty source tolerance u = Inr t \<and> clock_valid t
    \<and> clock_ranges t = clock_ranges u \<and> clock_intent_of t = clock_intent_of u"
  using assms by (auto simp: observe_anchor_def validated_anchor_def anchor_valid_def clock_valid_def)

definition observed_span :: "clock_state \<Rightarrow> ring_info \<Rightarrow> rat \<Rightarrow> string \<Rightarrow> rat \<Rightarrow> int \<rightharpoonup> evidence" where
  "observed_span s info offset source tolerance q =
     (case clock_anchor_of s of
        None \<Rightarrow> if read_sequence info \<le> q \<and> q < write_sequence info then Some (None, None, ''unknown'', source) else None
      | Some a \<Rightarrow>
          if sequence_frontier a \<le> q \<and> q < write_sequence info
          then Some (if clock_intent_of s = None \<and> \<bar>offset - anchor_offset a\<bar> \<le> tolerance
            then (Some (anchor_offset a), Some (anchor_uncertainty a + \<bar>offset - anchor_offset a\<bar>), ''approximate'', anchor_source a)
            else (None, None, ''unknown'', anchor_source a))
          else None)"

lemma observe_step:
  assumes "clock_valid s" "range_valid r" "\<And>q. evidence_at [r] q = f q" "clock_intent_of s = i"
  shows "\<exists>u. add_range s r = Inr u \<and> clock_valid u
    \<and> evidence_at (clock_ranges u) = f ++ evidence_at (clock_ranges s) \<and> clock_intent_of u = i"
proof -
  have "evidence_at [r] = f" using assms(3) by (intro HOL.ext)
  then show ?thesis using clock.add_fills [OF assms(1,2)] assms(4) by (auto simp: clock_frame_def)
qed

lemma observe_range_ok:
  assumes "clock_valid s" "0 \<le> read_sequence info" "source \<noteq> []"
  shows "\<exists>u. observe_range s info offset source tolerance = Inr u \<and> clock_valid u
    \<and> evidence_at (clock_ranges u) = observed_span s info offset source tolerance ++ evidence_at (clock_ranges s)
    \<and> clock_intent_of u = clock_intent_of s"
proof -
  note defs = range_valid_def evidence_at_def in_range_def evidence_of_def observed_span_def
  let ?f = "observed_span s info offset source tolerance"
  define nothing where "nothing = (case clock_anchor_of s of
      None \<Rightarrow> write_sequence info \<le> read_sequence info | Some a \<Rightarrow> write_sequence info \<le> sequence_frontier a)"
  show ?thesis
  proof (cases nothing)
    case True
    then have "?f = Map.empty" by (auto simp: observed_span_def nothing_def fun_eq_iff split: option.splits)
    then show ?thesis using True assms(1) by (auto simp: observe_range_def nothing_def split: option.splits)
  next
    case False
    show ?thesis
    proof (cases "clock_anchor_of s")
      case None
      then show ?thesis using False assms
        by (auto simp: observe_range_def nothing_def new_clock_range_ok defs intro!: observe_step)
    next
      case (Some a)
      then have "anchor_valid a" using assms(1) by (simp add: clock_valid_def)
      then show ?thesis using False Some assms
        by (cases "clock_intent_of s = None \<and> \<bar>offset - anchor_offset a\<bar> \<le> tolerance")
           (auto simp: observe_range_def nothing_def defs anchor_valid_def Let_def new_clock_range_ok intro!: observe_step)
    qed
  qed
qed

text \<open>
  An observation extends the timeline without rewriting it.  On a well formed state, an observation with a
  nonnegative uncertainty and a named source succeeds; every sequence keeps its evidence, and the uncovered
  ones between the last trusted frontier and the ring's write sequence get the anchor's offset, with the
  drift added to its uncertainty, exactly when no clock write is pending and the drift is within tolerance,
  and are marked unknown otherwise.
\<close>

theorem observe_extends_timeline:
  assumes "clock_valid s" "0 \<le> read_sequence info" "0 \<le> write_sequence info" "0 \<le> uncertainty" "source \<noteq> []"
  shows "\<exists>t. clock_observe s info offset uncertainty source tolerance = Inr t \<and> clock_valid t
    \<and> clock_intent_of t = clock_intent_of s
    \<and> evidence_at (clock_ranges t) = observed_span s info offset source tolerance ++ evidence_at (clock_ranges s)"
proof -
  obtain u where u: "observe_range s info offset source tolerance = Inr u" "clock_valid u"
    "evidence_at (clock_ranges u) = observed_span s info offset source tolerance ++ evidence_at (clock_ranges s)"
    "clock_intent_of u = clock_intent_of s" using observe_range_ok [OF assms(1,2,5)] by blast
  show ?thesis using observe_anchor_ok [OF u(2) assms(3-5), of s offset tolerance] u
    by (auto simp: clock_observe_def)
qed

theorem observe_extends_timeline_witness:
  "clock_valid sample_clock \<and> (let info = \<lparr>read_sequence = 8, write_sequence = 40, capacity_packets = 100, dropped_packets = 0, packet_size = 80\<rparr>
     in \<exists>t. clock_observe sample_clock info 6 1 ''host'' 2 = Inr t
        \<and> evidence_at (clock_ranges t) 15 = Some (Some 5, Some 1, ''approximate'', ''host'')
        \<and> evidence_at (clock_ranges t) 39 = Some (None, None, ''unknown'', ''host''))"
proof -
  let ?info = "\<lparr>read_sequence = 8, write_sequence = 40, capacity_packets = 100, dropped_packets = 0, packet_size = 80\<rparr>"
  have v: "clock_valid sample_clock" by (auto simp: sample_clock_simps)
  obtain t where t: "clock_observe sample_clock ?info 6 1 ''host'' 2 = Inr t"
    "evidence_at (clock_ranges t) = observed_span sample_clock ?info 6 ''host'' 2 ++ evidence_at (clock_ranges sample_clock)"
    using observe_extends_timeline [OF v, of ?info 1 "''host''" 6 2] by auto
  have "evidence_at (clock_ranges t) 15 = Some (Some 5, Some 1, ''approximate'', ''host'')"
    "evidence_at (clock_ranges t) 39 = Some (None, None, ''unknown'', ''host'')"
    unfolding t(2) by (simp_all add: map_add_def observed_span_def sample_clock_def sample_range_def evidence_at_def in_range_def evidence_of_def)
  then show ?thesis using v t(1) by (simp add: Let_def)
qed

end
