(* ===== verification/Ogg_Crc.thy ===== *)
theory Ogg_Crc
  imports Prelude
begin

text \<open>
  The page checksum of \<open>adapters/ogg_opus.py\<close>.  Ogg wants the CRC-32 that shifts left; the code computes it
  with \<open>binascii.crc32\<close>, which shifts right, on bytes with their bits reversed.  \<open>crc32\<close> is the function of
  Python's library, bit by bit; the result is that the detour computes Ogg's checksum.
\<close>

unbundle bit_operations_syntax

section \<open>Operations\<close>

definition bitrev :: "'a::len word \<Rightarrow> 'a word" where
  "bitrev w = horner_sum of_bool 2 (map (bit w) (rev [0..<LENGTH('a)]))"

text \<open>\<open>int(f"{value:08b}"[::-1], 2)\<close> of each byte.\<close>

definition REVERSED_BYTES :: "byte \<Rightarrow> byte" where
  "REVERSED_BYTES value = bitrev value"

text \<open>\<open>binascii.crc32(data, value)\<close>\<close>

definition crc32_bit :: "32 word \<Rightarrow> 32 word" where
  "crc32_bit w = (if bit w 0 then drop_bit 1 w XOR 0xEDB88320 else drop_bit 1 w)"

definition crc32_byte :: "32 word \<Rightarrow> byte \<Rightarrow> 32 word" where
  "crc32_byte w b = (crc32_bit ^^ 8) (w XOR ucast b)"

definition crc32 :: "bytes \<Rightarrow> 32 word \<Rightarrow> 32 word" where
  "crc32 data value = NOT (foldl crc32_byte (NOT value) data)"

definition ogg_crc :: "bytes \<Rightarrow> int" where
  "ogg_crc data =
     (let reflected = crc32 (map REVERSED_BYTES data) 0xFFFFFFFF XOR 0xFFFFFFFF;
          reversed_bytes = map REVERSED_BYTES (to_bytes_little 4 (uint reflected))
      in from_bytes_big reversed_bytes)"

section \<open>The reference checksum\<close>

text \<open>Polynomial 0x04C11DB7, most significant bit first, start value and final mask zero.\<close>

definition crc_left_bit :: "32 word \<Rightarrow> 32 word" where
  "crc_left_bit w = (if bit w 31 then push_bit 1 w XOR 0x04C11DB7 else push_bit 1 w)"

definition crc_left_byte :: "32 word \<Rightarrow> byte \<Rightarrow> 32 word" where
  "crc_left_byte w b = (crc_left_bit ^^ 8) (w XOR push_bit 24 (ucast b))"

definition crc_left :: "bytes \<Rightarrow> 32 word" where
  "crc_left data = foldl crc_left_byte 0 data"

section \<open>Reversal of bits\<close>

lemma bit_bitrev: "bit (bitrev (w :: 'a::len word)) n \<longleftrightarrow> n < LENGTH('a) \<and> bit w (LENGTH('a) - Suc n)"
  by (auto simp: bitrev_def bit_horner_sum_bit_word_iff rev_nth nth_append)

lemma bitrev_bitrev [simp]: "bitrev (bitrev w) = w"
  by (rule bit_word_eqI) (simp add: bit_bitrev)

lemma bitrev_xor: "bitrev (a XOR b) = bitrev a XOR bitrev b"
  by (rule bit_word_eqI) (auto simp: bit_bitrev bit_xor_iff)

lemma bitrev_shift: "bitrev (drop_bit 1 w) = push_bit 1 (bitrev (w :: 32 word))"
proof (rule bit_word_eqI)
  fix n assume "n < LENGTH(32)"
  then have "n \<noteq> 0 \<Longrightarrow> Suc (31 - n) = 32 - n" by simp
  then show "bit (bitrev (drop_bit 1 w)) n = bit (push_bit 1 (bitrev w)) n"
    unfolding bit_push_bit_iff bit_bitrev bit_drop_bit_eq using \<open>n < LENGTH(32)\<close> by (cases n) (auto dest: bit_imp_le_length)
qed

lemma bitrev_byte: "bitrev (ucast (bitrev b) :: 32 word) = push_bit 24 (ucast (b :: byte))"
proof (rule bit_word_eqI)
  fix n assume "n < LENGTH(32)"
  then show "bit (bitrev (ucast (bitrev b) :: 32 word)) n = bit (push_bit 24 (ucast b) :: 32 word) n"
    by (auto simp: bit_bitrev bit_ucast_iff bit_push_bit_iff)
qed

lemma bitrev_polynomial: "bitrev (0xEDB88320 :: 32 word) = 0x04C11DB7"
  by code_simp

lemma bitrev_zero [simp]: "bitrev 0 = 0"
  by (rule bit_word_eqI) (simp add: bit_bitrev)

lemma crc_bit_reflected: "bitrev (crc32_bit w) = crc_left_bit (bitrev w)"
  unfolding crc32_bit_def crc_left_bit_def if_distrib [of bitrev] bitrev_xor bitrev_shift bitrev_polynomial bit_bitrev by simp

lemma crc_bits_reflected: "bitrev ((crc32_bit ^^ n) w) = (crc_left_bit ^^ n) (bitrev w)"
  by (induction n) (simp_all add: crc_bit_reflected)

lemma crc_byte_reflected: "bitrev (crc32_byte w (REVERSED_BYTES b)) = crc_left_byte (bitrev w) b"
  by (simp add: crc32_byte_def crc_left_byte_def crc_bits_reflected bitrev_xor REVERSED_BYTES_def bitrev_byte)

lemma crc_fold_reflected:
  "bitrev (foldl crc32_byte w (map REVERSED_BYTES data)) = foldl crc_left_byte (bitrev w) data"
  by (induction data arbitrary: w) (simp_all add: crc_byte_reflected)

section \<open>Bits of byte strings\<close>

lemma from_bytes_big_concat: "from_bytes_big (bs @ [b]) = concat_bit 8 (uint b) (from_bytes_big bs)"
  by (simp add: concat_bit_eq push_bit_eq_mult take_bit_int_eq_self)

lemma bit_from_bytes_big:
  "bit (from_bytes_big bs) n \<longleftrightarrow> n < 8 * length bs \<and> bit (bs ! (length bs - Suc (n div 8))) (n mod 8)"
proof (induction bs arbitrary: n rule: rev_induct)
  case Nil
  show ?case by simp
next
  case (snoc b bs)
  show ?case
  proof (cases "n < 8")
    case True
    then show ?thesis by (simp add: from_bytes_big_concat bit_concat_bit_iff bit_uint_iff nth_append del: from_bytes_big_snoc)
  next
    case False
    then have "n div 8 = Suc ((n - 8) div 8)" "n mod 8 = (n - 8) mod 8" by (simp_all add: le_div_geq le_mod_geq)
    then show ?thesis using False snoc.IH [of "n - 8"]
      by (auto simp: from_bytes_big_concat bit_concat_bit_iff nth_append Suc_diff_Suc simp del: from_bytes_big_snoc) linarith
  qed
qed

lemma nth_to_bytes_little: "i < n \<Longrightarrow> to_bytes_little n v ! i = word_of_int (v div 256 ^ i)"
proof (induction n arbitrary: v i)
  case (Suc n)
  show ?case
  proof (cases i)
    case 0
    then show ?thesis by (simp add: to_bytes_little_def)
  next
    case (Suc j)
    then show ?thesis using Suc.IH [of j "v div 256"] Suc.prems
      by (simp add: to_bytes_little_def zdiv_zmult2_eq)
  qed
qed simp

lemma bit_to_bytes_little: "i < n \<Longrightarrow> bit (to_bytes_little n v ! i) j \<longleftrightarrow> j < 8 \<and> bit v (8 * i + j)"
proof -
  assume "i < n"
  moreover have "v div 256 ^ i = drop_bit (8 * i) v" by (simp add: drop_bit_eq_div power_mult)
  ultimately show ?thesis by (auto simp: nth_to_bytes_little bit_word_of_int_iff bit_drop_bit_eq add.commute)
qed

lemma reversed_bytes_word:
  "from_bytes_big (map REVERSED_BYTES (to_bytes_little 4 (uint w))) = uint (bitrev (w :: 32 word))"
proof (rule bit_eqI)
  fix n
  let ?bs = "map REVERSED_BYTES (to_bytes_little 4 (uint w))"
  show "bit (from_bytes_big ?bs) n = bit (uint (bitrev w)) n"
  proof (cases "n < 32")
    case True
    have "n = 8 * (n div 8) + n mod 8" "n mod 8 < 8" by simp_all
    define i j where "i = 3 - n div 8" and "j = 7 - n mod 8"
    have ij: "i < 4" "j < 8" "8 * i + j = 31 - n" "n mod 8 < 8" "n div 8 \<le> 3"
      using True \<open>n = 8 * (n div 8) + n mod 8\<close> \<open>n mod 8 < 8\<close> unfolding i_def j_def by linarith+
    have "bit (?bs ! i) (n mod 8) = bit (to_bytes_little 4 (uint w) ! i) j"
      using ij by (simp add: REVERSED_BYTES_def bit_bitrev j_def)
    then have "bit (?bs ! (3 - n div 8)) (n mod 8) = bit (uint w) (31 - n)"
      using ij bit_to_bytes_little [OF ij(1), of "uint w" j] by (simp add: i_def)
    moreover have "31 - n < 32" by simp
    ultimately show ?thesis using True by (simp add: bit_from_bytes_big bit_uint_iff bit_bitrev)
  next
    case False
    then show ?thesis by (simp add: bit_from_bytes_big bit_uint_iff bit_bitrev)
  qed
qed

section \<open>Properties\<close>

text \<open>
  C25: the checksum computed through the reflected library routine and bit reversals is Ogg's own: the CRC-32
  with polynomial 0x04C11DB7 that shifts left, with start value zero and no final mask, for every byte string.
\<close>

theorem ogg_crc_reference: "ogg_crc data = uint (crc_left data)"
proof -
  have full: "NOT (0xFFFFFFFF :: 32 word) = 0" "\<And>x :: 32 word. x XOR 0xFFFFFFFF = NOT x"
  proof -
    have m: "(0xFFFFFFFF :: 32 word) = - 1" by simp
    show "NOT (0xFFFFFFFF :: 32 word) = 0" "\<And>x :: 32 word. x XOR 0xFFFFFFFF = NOT x" unfolding m by simp_all
  qed
  show ?thesis
    unfolding ogg_crc_def Let_def reversed_bytes_word
    unfolding crc32_def full bit.double_compl crc_fold_reflected crc_left_def by simp
qed

end
