(* ===== verification/Ogg_Opus.thy ===== *)
theory Ogg_Opus
  imports Ogg_Crc
begin

text \<open>
  The Ogg Opus writer (\<open>adapters/ogg_opus.py\<close>): headers, segmentation of packets into lacing values, batching
  of segments into pages, and the stream of one file.

  Arguments have the types the code checks for, so its \<open>TypeError\<close>s do not arise; every range check is kept.
  A writer is the bytes it has handed to the file and to the digest, which are the same; what a file holds
  after an exception is not described.  \<open>sha256\<close> is a parameter.
\<close>

unbundle bit_operations_syntax

section \<open>Configuration\<close>

datatype ogg_error = OggValueError string | EmptyPacket nat | OggMuxError string | StructError

record ogg_opus_config =
  packets_per_flush :: int
  packet_samples :: int
  channels :: int
  pre_skip :: int
  input_sample_rate :: int
  output_gain :: int
  mapping_family :: int
  vendor :: bytes
  comments :: "bytes list"

definition positive_int :: "int \<Rightarrow> string \<Rightarrow> (ogg_error, unit) result" where
  "positive_int value name = require (0 < value) (OggValueError (name @ '' must be a positive integer''))"

definition unsigned_byte :: "int \<Rightarrow> string \<Rightarrow> (ogg_error, unit) result" where
  "unsigned_byte value name = require (0 \<le> value \<and> value \<le> 0xFF) (OggValueError (name @ '' must be an unsigned 8-bit integer''))"

definition positive_byte :: "int \<Rightarrow> string \<Rightarrow> (ogg_error, unit) result" where
  "positive_byte value name = require (1 \<le> value \<and> value \<le> 0xFF) (OggValueError (name @ '' must be a positive unsigned 8-bit integer''))"

definition unsigned_short :: "int \<Rightarrow> string \<Rightarrow> (ogg_error, unit) result" where
  "unsigned_short value name = require (0 \<le> value \<and> value \<le> 0xFFFF) (OggValueError (name @ '' must be an unsigned 16-bit integer''))"

definition validate_config :: "ogg_opus_config \<Rightarrow> (ogg_error, unit) result" where
  "validate_config c =
     bind_result (positive_int (packets_per_flush c) ''packets_per_flush'') (\<lambda>_.
     bind_result (positive_int (packet_samples c) ''packet_samples'') (\<lambda>_.
     bind_result (positive_byte (channels c) ''channels'') (\<lambda>_.
     bind_result (unsigned_short (pre_skip c) ''pre_skip'') (\<lambda>_.
     bind_result (positive_int (input_sample_rate c) ''input_sample_rate'') (\<lambda>_.
     bind_result (require (-32768 \<le> output_gain c \<and> output_gain c \<le> 32767) (OggValueError ''output_gain must be a signed 16-bit integer'')) (\<lambda>_.
     unsigned_byte (mapping_family c) ''mapping_family''))))))"

definition DEFAULT_CONFIG :: ogg_opus_config where
  "DEFAULT_CONFIG = \<lparr>packets_per_flush = 50, packet_samples = 960, channels = 1, pre_skip = 0, input_sample_rate = 16000,
     output_gain = 0, mapping_family = 0, vendor = [], comments = []\<rparr>"

section \<open>Headers\<close>

definition ascii :: "string \<Rightarrow> bytes" where
  "ascii s = map (\<lambda>c. word_of_nat (of_char c)) s"

text \<open>One unsigned little-endian field of \<open>struct.pack\<close>, and the signed 16-bit one.\<close>

definition pack_uint :: "nat \<Rightarrow> int \<Rightarrow> (ogg_error, bytes) result" where
  "pack_uint n v = (if 0 \<le> v \<and> v < 256 ^ n then Inr (to_bytes_little n v) else Inl StructError)"

definition pack_short :: "int \<Rightarrow> (ogg_error, bytes) result" where
  "pack_short v = (if -32768 \<le> v \<and> v \<le> 32767 then Inr (to_bytes_little 2 (v mod 65536)) else Inl StructError)"

definition opus_head :: "ogg_opus_config \<Rightarrow> (ogg_error, bytes) result" where
  "opus_head c =
     bind_result (pack_uint 1 (channels c)) (\<lambda>ch.
     bind_result (pack_uint 2 (pre_skip c)) (\<lambda>skip.
     bind_result (pack_uint 4 (input_sample_rate c)) (\<lambda>rate.
     bind_result (pack_short (output_gain c)) (\<lambda>gain.
     bind_result (pack_uint 1 (mapping_family c)) (\<lambda>family.
     Inr (ascii ''OpusHead'' @ [1] @ ch @ skip @ rate @ gain @ family))))))"

fun opus_comments :: "bytes list \<Rightarrow> (ogg_error, bytes) result" where
  "opus_comments [] = Inr []"
| "opus_comments (comment # cs) =
     bind_result (pack_uint 4 (int (length comment))) (\<lambda>n. bind_result (opus_comments cs) (\<lambda>rest. Inr (n @ comment @ rest)))"

definition opus_tags :: "ogg_opus_config \<Rightarrow> (ogg_error, bytes) result" where
  "opus_tags c =
     bind_result (pack_uint 4 (int (length (vendor c)))) (\<lambda>vlen.
     bind_result (pack_uint 4 (int (length (comments c)))) (\<lambda>clen.
     bind_result (opus_comments (comments c)) (\<lambda>cs.
     Inr (ascii ''OpusTags'' @ vlen @ vendor c @ clen @ cs))))"

section \<open>Pages\<close>

definition lacing_values :: "nat \<Rightarrow> nat list" where
  "lacing_values payload_size = replicate (payload_size div 255) 255 @ [payload_size mod 255]"

definition encode_page :: "nat \<Rightarrow> int \<Rightarrow> int \<Rightarrow> int \<Rightarrow> nat list \<Rightarrow> bytes \<Rightarrow> (ogg_error, bytes) result" where
  "encode_page flags granule_position serial sequence lacing body =
     (if lacing = [] \<or> 255 < length lacing \<or> sum_list lacing \<noteq> length body
      then Inl (OggMuxError ''invalid Ogg page segmentation'')
      else
        bind_result (pack_uint 1 (int flags)) (\<lambda>f.
        bind_result (pack_uint 8 (granule_position AND 0xFFFFFFFFFFFFFFFF)) (\<lambda>g.
        bind_result (pack_uint 4 serial) (\<lambda>s.
        bind_result (pack_uint 4 sequence) (\<lambda>q.
        bind_result (pack_uint 1 (int (length lacing))) (\<lambda>n.
        if list_ex (\<lambda>v. 255 < v) lacing then Inl (OggValueError ''byte must be in range(0, 256)'')
        else let encoded = ascii ''OggS'' @ [0] @ f @ g @ s @ q @ [0, 0, 0, 0] @ n @ map word_of_nat lacing @ body in
          bind_result (pack_uint 4 (ogg_crc encoded)) (\<lambda>crc.
          Inr (take 22 encoded @ crc @ drop 26 encoded))))))))"

record packet =
  payload :: bytes
  granule_position :: int

record mux_state =
  mux_pages :: "bytes list"
  mux_lacing :: "nat list"
  mux_body :: bytes
  continued_at_start :: bool
  page_granule :: int
  first_page :: bool
  mux_sequence :: int

text \<open>The arguments of \<open>_encode_pages\<close> that the inner function reads.\<close>

record mux_context =
  mux_serial :: int
  beginning_of_stream :: bool
  end_of_stream :: bool

definition emit :: "mux_context \<Rightarrow> mux_state \<Rightarrow> bool \<Rightarrow> (ogg_error, mux_state) result" where
  "emit ctx st final_packet_completed =
     (let flags0 = (if continued_at_start st then 1 else 0);
          flags1 = (if beginning_of_stream ctx \<and> first_page st then flags0 OR 2 else flags0);
          flags = (if end_of_stream ctx \<and> final_packet_completed then flags1 OR 4 else flags1)
      in bind_result (encode_page flags (page_granule st) (mux_serial ctx) (mux_sequence st) (mux_lacing st) (mux_body st)) (\<lambda>page.
         Inr (st\<lparr>mux_pages := mux_pages st @ [page], mux_sequence := mux_sequence st + 1, first_page := False,
                 mux_lacing := [], mux_body := [], page_granule := -1\<rparr>)))"

definition mux_value ::
  "mux_context \<Rightarrow> packet \<Rightarrow> bool \<Rightarrow> nat \<Rightarrow> nat \<Rightarrow> nat \<Rightarrow> mux_state \<Rightarrow> (ogg_error, mux_state) result" where
  "mux_value ctx p is_final_packet value_index payload_offset value st0 =
     bind_result
       (if length (mux_lacing st0) = 255
        then bind_result (emit ctx st0 False) (\<lambda>st. Inr (st\<lparr>continued_at_start := 0 < value_index\<rparr>))
        else Inr st0) (\<lambda>st1.
     let packet_completed = value < 255;
         st2 = st1\<lparr>mux_lacing := mux_lacing st1 @ [value],
                   mux_body := mux_body st1 @ slice_of payload_offset (payload_offset + value) (payload p),
                   page_granule := (if packet_completed then granule_position p else page_granule st1)\<rparr>
     in if length (mux_lacing st2) = 255 \<or> 4096 < length (mux_body st2)
        then bind_result (emit ctx st2 (is_final_packet \<and> packet_completed)) (\<lambda>st.
               Inr (st\<lparr>continued_at_start := \<not> packet_completed\<rparr>))
        else Inr st2)"

fun mux_values ::
  "mux_context \<Rightarrow> packet \<Rightarrow> bool \<Rightarrow> nat \<Rightarrow> nat \<Rightarrow> nat list \<Rightarrow> mux_state \<Rightarrow> (ogg_error, nat \<times> mux_state) result" where
  "mux_values ctx p is_final value_index payload_offset [] st = Inr (payload_offset, st)"
| "mux_values ctx p is_final value_index payload_offset (value # values) st =
     bind_result (mux_value ctx p is_final value_index payload_offset value st)
       (mux_values ctx p is_final (value_index + 1) (payload_offset + value) values)"

fun mux_packets :: "mux_context \<Rightarrow> packet list \<Rightarrow> mux_state \<Rightarrow> (ogg_error, mux_state) result" where
  "mux_packets ctx [] st = Inr st"
| "mux_packets ctx (p # ps) st =
     bind_result (mux_values ctx p (ps = []) 0 0 (lacing_values (length (payload p))) st) (\<lambda>(payload_offset, st').
       if payload_offset \<noteq> length (payload p) then Inl (OggMuxError ''Ogg packet segmentation lost payload bytes'')
       else mux_packets ctx ps st')"

definition encode_pages :: "mux_context \<Rightarrow> packet list \<Rightarrow> int \<Rightarrow> (ogg_error, bytes list \<times> int) result" where
  "encode_pages ctx packets sequence =
     bind_result (mux_packets ctx packets
        \<lparr>mux_pages = [], mux_lacing = [], mux_body = [], continued_at_start = False, page_granule = -1,
         first_page = True, mux_sequence = sequence\<rparr>) (\<lambda>st.
     bind_result (if mux_lacing st \<noteq> [] then emit ctx st True else Inr st) (\<lambda>st'.
     Inr (mux_pages st', mux_sequence st')))"

section \<open>Streams\<close>

text \<open>What the writer has produced: bytes, pages and the count of bytes it reports.\<close>

record ogg_output =
  written :: bytes
  page_count :: nat
  byte_count :: nat

fun write_pages :: "bytes list \<Rightarrow> ogg_output \<Rightarrow> ogg_output" where
  "write_pages [] out = out"
| "write_pages (encoded # pages) out =
     write_pages pages \<lparr>written = written out @ encoded, page_count = page_count out + 1, byte_count = byte_count out + length encoded\<rparr>"

text \<open>The next packets of the validating iterator; \<open>index\<close> counts those already taken.\<close>

fun check_packets :: "nat \<Rightarrow> bytes list \<Rightarrow> (ogg_error, unit) result" where
  "check_packets index [] = Inr ()"
| "check_packets index (p # ps) =
     (if p = [] then Inl (EmptyPacket index) else check_packets (index + 1) ps)"

definition batch_packets :: "ogg_opus_config \<Rightarrow> nat \<Rightarrow> bytes list \<Rightarrow> packet list" where
  "batch_packets c packet_index payloads =
     map (\<lambda>(i, p). \<lparr>payload = p, granule_position = (int packet_index + int i + 1) * packet_samples c\<rparr>) (enumerate 0 payloads)"

function stream_loop ::
  "ogg_opus_config \<Rightarrow> int \<Rightarrow> int \<Rightarrow> nat \<Rightarrow> bytes list \<Rightarrow> bytes list \<Rightarrow> ogg_output \<Rightarrow> (ogg_error, ogg_output) result" where
  "stream_loop c serial sequence packet_index payloads rest out =
     (if payloads = [] then Inr out
      else let n = nat (packets_per_flush c); next_payloads = take n rest in
        bind_result (check_packets (packet_index + length payloads) next_payloads) (\<lambda>_.
        bind_result (encode_pages \<lparr>mux_serial = serial, beginning_of_stream = False, end_of_stream = (next_payloads = [])\<rparr>
                       (batch_packets c packet_index payloads) sequence) (\<lambda>(pages, sequence').
        stream_loop c serial sequence' (packet_index + length payloads) next_payloads (drop n rest) (write_pages pages out))))"
  by pat_completeness auto
termination
  by (relation "measure (\<lambda>(_, _, _, _, payloads, rest, _). length payloads + length rest)")
     (auto simp: min_def neq_Nil_conv)

declare stream_loop.simps [simp del]

definition write_stream :: "ogg_opus_config \<Rightarrow> bytes list \<Rightarrow> int \<Rightarrow> ogg_output \<Rightarrow> (ogg_error, ogg_output) result" where
  "write_stream c packets serial out =
     bind_result (opus_head c) (\<lambda>head.
     bind_result (encode_pages \<lparr>mux_serial = serial, beginning_of_stream = True, end_of_stream = False\<rparr>
                    [\<lparr>payload = head, granule_position = 0\<rparr>] 0) (\<lambda>(header, sequence).
     bind_result (opus_tags c) (\<lambda>tags.
     bind_result (encode_pages \<lparr>mux_serial = serial, beginning_of_stream = False, end_of_stream = False\<rparr>
                    [\<lparr>payload = tags, granule_position = 0\<rparr>] sequence) (\<lambda>(tag_pages, sequence').
     let n = nat (packets_per_flush c); payloads = take n packets in
     bind_result (check_packets 0 payloads) (\<lambda>_.
     if payloads = [] then Inl (OggValueError ''packets must not be empty'')
     else stream_loop c serial sequence' 0 payloads (drop n packets) (write_pages tag_pages (write_pages header out)))))))"

definition validate_serial :: "int \<Rightarrow> (ogg_error, unit) result" where
  "validate_serial serial = require (0 \<le> serial \<and> serial \<le> 0xFFFFFFFF) (OggValueError ''serial must be an unsigned 32-bit integer'')"

definition validated_single_stream :: "bytes list \<Rightarrow> int \<Rightarrow> (ogg_error, bytes list) result" where
  "validated_single_stream packets serial =
     (if packets = [] then Inl (OggValueError ''packets must not be empty'')
      else bind_result (check_packets 0 (take 1 packets)) (\<lambda>_. bind_result (validate_serial serial) (\<lambda>_. Inr packets)))"

record ogg_write_result =
  result_pages :: nat
  result_bytes :: nat
  result_sha256 :: string

definition no_output :: ogg_output where
  "no_output = \<lparr>written = [], page_count = 0, byte_count = 0\<rparr>"

fun write_streams :: "ogg_opus_config \<Rightarrow> (bytes list \<times> int) list \<Rightarrow> ogg_output \<Rightarrow> (ogg_error, ogg_output) result" where
  "write_streams c [] out = Inr out"
| "write_streams c ((stream, serial) # streams) out = bind_result (write_stream c stream serial out) (write_streams c streams)"

text \<open>The result of \<open>_write_file\<close> with the contents of the file.\<close>

definition write_file ::
  "(bytes \<Rightarrow> string) \<Rightarrow> (bytes list \<times> int) list \<Rightarrow> ogg_opus_config \<Rightarrow> (ogg_error, bytes \<times> ogg_write_result) result" where
  "write_file sha256 streams c =
     bind_result (write_streams c streams no_output) (\<lambda>out.
       Inr (written out, \<lparr>result_pages = page_count out, result_bytes = byte_count out, result_sha256 = sha256 (written out)\<rparr>))"

definition write_ogg_opus ::
  "(bytes \<Rightarrow> string) \<Rightarrow> bytes list \<Rightarrow> int \<Rightarrow> ogg_opus_config \<Rightarrow> (ogg_error, bytes \<times> ogg_write_result) result" where
  "write_ogg_opus sha256 packets serial c =
     bind_result (validated_single_stream packets serial) (\<lambda>stream. write_file sha256 [(stream, serial)] c)"

definition hash_ogg_opus ::
  "(bytes \<Rightarrow> string) \<Rightarrow> bytes list \<Rightarrow> int \<Rightarrow> ogg_opus_config \<Rightarrow> (ogg_error, ogg_write_result) result" where
  "hash_ogg_opus sha256 packets serial c =
     bind_result (validated_single_stream packets serial) (\<lambda>stream.
     bind_result (write_stream c stream serial no_output) (\<lambda>out.
       Inr \<lparr>result_pages = page_count out, result_bytes = byte_count out, result_sha256 = sha256 (written out)\<rparr>))"

end
