(* ===== verification/Ogg_Stream.thy ===== *)
theory Ogg_Stream
  imports Ogg_Opus
begin

text \<open>
  What the writer of \<open>Ogg_Opus\<close> produces, as a reader of RFC 3533 sees it.  The reader below is written from
  the format and shares only the checksum's reference definition with the writer: it parses pages, checks
  their checksums, and reassembles packets from lacing values.
\<close>

unbundle bit_operations_syntax

section \<open>The reader\<close>

record ogg_page =
  page_flags :: nat
  page_position :: int
  page_serial :: int
  page_number :: int
  page_lacing :: "nat list"
  page_body :: bytes

text \<open>The bytes of a page with a given checksum field.\<close>

definition page_layout :: "ogg_page \<Rightarrow> bytes \<Rightarrow> bytes" where
  "page_layout pg crc =
     ascii ''OggS'' @ [0, word_of_nat (page_flags pg)] @ to_bytes_little 8 (page_position pg) @ to_bytes_little 4 (page_serial pg)
     @ to_bytes_little 4 (page_number pg) @ crc @ [word_of_nat (length (page_lacing pg))]
     @ map word_of_nat (page_lacing pg) @ page_body pg"

definition page_bytes :: "ogg_page \<Rightarrow> bytes" where
  "page_bytes pg = page_layout pg (to_bytes_little 4 (uint (crc_left (page_layout pg [0, 0, 0, 0]))))"

definition page_fits :: "ogg_page \<Rightarrow> bool" where
  "page_fits pg \<longleftrightarrow>
     page_flags pg < 256 \<and> 0 \<le> page_position pg \<and> page_position pg < 2 ^ 64 \<and> 0 \<le> page_serial pg \<and> page_serial pg < 2 ^ 32
   \<and> 0 \<le> page_number pg \<and> page_number pg < 2 ^ 32 \<and> length (page_lacing pg) \<le> 255 \<and> (\<forall>v \<in> set (page_lacing pg). v \<le> 255)
   \<and> sum_list (page_lacing pg) = length (page_body pg)"

definition parse_page :: "bytes \<Rightarrow> (ogg_page \<times> bytes) option" where
  "parse_page bs =
     (if length bs < 27 \<or> take 4 bs \<noteq> ascii ''OggS'' \<or> bs ! 4 \<noteq> 0 then None
      else let n = unat (bs ! 26); lacing = map unat (take n (drop 27 bs)); size = sum_list lacing in
        if length bs < 27 + n + size then None
        else if slice_of 22 26 bs \<noteq> to_bytes_little 4 (uint (crc_left (take 22 bs @ [0, 0, 0, 0] @ slice_of 26 (27 + n + size) bs))) then None
        else Some (\<lparr>page_flags = unat (bs ! 5), page_position = from_bytes_little (slice_of 6 14 bs),
                    page_serial = from_bytes_little (slice_of 14 18 bs), page_number = from_bytes_little (slice_of 18 22 bs),
                    page_lacing = lacing, page_body = slice_of (27 + n) (27 + n + size) bs\<rparr>, drop (27 + n + size) bs))"

function parse_pages :: "bytes \<Rightarrow> ogg_page list option" where
  "parse_pages bs =
     (if bs = [] then Some []
      else case parse_page bs of
          None \<Rightarrow> None
        | Some (pg, rest) \<Rightarrow> if length rest < length bs then map_option ((#) pg) (parse_pages rest) else None)"
  by pat_completeness auto
termination by (relation "measure length") auto

declare parse_pages.simps [simp del]

text \<open>Packets from lacing values: a value below 255 ends one.  Also what remains of an unfinished packet.\<close>

fun demux :: "nat list \<Rightarrow> bytes \<Rightarrow> bytes \<Rightarrow> bytes list \<times> bytes" where
  "demux [] body acc = ([], acc)"
| "demux (v # vs) body acc =
     (if v < 255 then (let (ps, rest) = demux vs (drop v body) [] in ((acc @ take v body) # ps, rest))
      else demux vs (drop v body) (acc @ take v body))"

section \<open>One page\<close>

lemma of_byte [simp]: "n \<le> 255 \<Longrightarrow> unat (word_of_nat n :: byte) = n"
  by (simp add: unsigned_of_nat take_bit_nat_eq_self_iff)

lemma parse_page_bytes:
  assumes "page_fits pg"
  shows "parse_page (page_bytes pg @ rest) = Some (pg, rest)"
proof -
  let ?n = "length (page_lacing pg)" and ?s = "length (page_body pg)"
  define h where "h = ascii ''OggS'' @ [0, word_of_nat (page_flags pg)]"
  define a where "a = to_bytes_little 8 (page_position pg)"
  define b where "b = to_bytes_little 4 (page_serial pg)"
  define c where "c = to_bytes_little 4 (page_number pg)"
  define crc where "crc = to_bytes_little 4 (uint (crc_left (page_layout pg [0, 0, 0, 0])))"
  define l where "l = map (word_of_nat :: nat \<Rightarrow> byte) (page_lacing pg)"
  define d where "d = page_body pg"
  define n where "n = (word_of_nat ?n :: byte)"
  have len: "length h = 6" "length a = 8" "length b = 4" "length c = 4" "length crc = 4" "length l = ?n" "length d = ?s"
    by (simp_all add: h_def a_def b_def c_def crc_def l_def d_def ascii_def)
  have lay: "page_layout pg x = h @ a @ b @ c @ x @ [n] @ l @ d" for x
    by (simp add: page_layout_def h_def a_def b_def c_def n_def l_def d_def)
  define bs where "bs = h @ a @ b @ c @ crc @ [n] @ l @ d @ rest"
  have bs: "page_bytes pg @ rest = bs" by (simp add: bs_def page_bytes_def lay crc_def)
  have fits: "page_flags pg \<le> 255" "?n \<le> 255" "sum_list (page_lacing pg) = ?s" "\<And>v. v \<in> set (page_lacing pg) \<Longrightarrow> v \<le> 255"
    using assms by (auto simp: page_fits_def)
  have n: "unat n = ?n" using fits(2) by (simp add: n_def)
  have l: "map unat l = page_lacing pg" using fits(4) by (simp add: l_def comp_def map_idI)
  have parts: "take 4 bs = ascii ''OggS''" "bs ! 4 = 0" "unat (bs ! 5) = page_flags pg" "bs ! 26 = n"
    "slice_of 6 14 bs = a" "slice_of 14 18 bs = b" "slice_of 18 22 bs = c" "slice_of 22 26 bs = crc" "take 22 bs = h @ a @ b @ c"
    "take ?n (drop 27 bs) = l"
    "slice_of 26 (27 + ?n + ?s) bs = [n] @ l @ d" "length bs = 27 + ?n + ?s + length rest"
    using len fits(1) by (simp_all add: bs_def slice_of_def nth_append h_def ascii_def)
  have tail: "slice_of (27 + ?n) (27 + ?n + ?s) bs = d" "drop (27 + ?n + ?s) bs = rest"
  proof -
    define q where "q = h @ a @ b @ c @ crc @ [n] @ l"
    have q: "bs = q @ d @ rest" "length q = 27 + ?n" using len by (simp_all add: q_def bs_def)
    then show "slice_of (27 + ?n) (27 + ?n + ?s) bs = d" "drop (27 + ?n + ?s) bs = rest" using len(7) by (simp_all add: slice_of_def)
  qed
  have nums: "from_bytes_little a = page_position pg" "from_bytes_little b = page_serial pg" "from_bytes_little c = page_number pg"
    using assms by (simp_all add: a_def b_def c_def page_fits_def from_to_bytes_little)
  have crc: "crc = to_bytes_little 4 (uint (crc_left ((h @ a @ b @ c) @ [0, 0, 0, 0] @ [n] @ l @ d)))"
    by (simp add: crc_def lay)
  show ?thesis unfolding bs parse_page_def Let_def parts tail n l fits(3) nums crc [symmetric]
    by (simp add: parts d_def)
qed

lemma parse_pages_bytes:
  assumes "list_all page_fits pgs"
  shows "parse_pages (concat (map page_bytes pgs)) = Some pgs"
  using assms
proof (induction pgs)
  case Nil
  show ?case by (simp add: parse_pages.simps)
next
  case (Cons pg pgs)
  have "page_bytes pg \<noteq> []" by (simp add: page_bytes_def page_layout_def)
  then show ?case using Cons parse_page_bytes [of pg] by (subst parse_pages.simps) simp
qed

lemma encode_page_bytes:
  assumes "page_fits pg" "page_lacing pg \<noteq> []" "page_position pg = take_bit 64 g"
  shows "encode_page (page_flags pg) g (page_serial pg) (page_number pg) (page_lacing pg) (page_body pg) = Inr (page_bytes pg)"
proof -
  have mask: "g AND 0xFFFFFFFFFFFFFFFF = page_position pg"
    using take_bit_eq_mask [of 64 g] by (simp add: assms(3) mask_eq_exp_minus_1)
  let ?e = "ascii ''OggS'' @ [0] @ to_bytes_little 1 (int (page_flags pg)) @ to_bytes_little 8 (page_position pg) @
      to_bytes_little 4 (page_serial pg) @ to_bytes_little 4 (page_number pg) @ [0, 0, 0, 0] @
      to_bytes_little 1 (int (length (page_lacing pg))) @ map word_of_nat (page_lacing pg) @ page_body pg"
  have one: "to_bytes_little 1 (int k) = [word_of_nat k]" for k by (simp add: to_bytes_little_def)
  have e: "?e = page_layout pg [0, 0, 0, 0]" by (simp add: page_layout_def one [unfolded One_nat_def])
  have crc: "0 \<le> ogg_crc x" "ogg_crc x < 256 ^ 4" for x
    using uint_lt2p [of "crc_left x"] by (simp_all add: ogg_crc_reference)
  have "take 22 ?e @ to_bytes_little 4 (ogg_crc ?e) @ drop 26 ?e = page_bytes pg"
    unfolding e ogg_crc_reference page_bytes_def by (simp add: page_layout_def ascii_def)
  moreover have "\<not> list_ex (\<lambda>v. 255 < v) (page_lacing pg)" using assms(1) by (auto simp: page_fits_def list_ex_iff)
  ultimately show ?thesis
    using assms(1,2) crc unfolding encode_page_def mask by (simp add: page_fits_def pack_uint_def Let_def)
qed

section \<open>Pages of one batch\<close>

text \<open>The packets that end on a page.\<close>

definition completed :: "nat list \<Rightarrow> nat" where
  "completed lacing = length (filter (\<lambda>v. v < 255) lacing)"

lemma completed_simps [simp]:
  "completed [] = 0" "completed (v # vs) = (if v < 255 then Suc (completed vs) else completed vs)"
  "completed (xs @ ys) = completed xs + completed ys"
  by (simp_all add: completed_def)

text \<open>
  A run of pages as the format wants it: consecutive numbers, at least one and at most 255 lacing values, the
  continuation flag exactly after an unfinished packet, the first and last flags where asked, and the granule
  position of the last packet that ends on the page, or all ones.
\<close>

fun pages_ok :: "int \<Rightarrow> int \<Rightarrow> bool \<Rightarrow> bool \<Rightarrow> bool \<Rightarrow> int list \<Rightarrow> ogg_page list \<Rightarrow> bool" where
  "pages_ok serial seq cont bos eos gs [] = True"
| "pages_ok serial seq cont bos eos gs (pg # pgs) \<longleftrightarrow>
     page_serial pg = serial \<and> page_number pg = seq \<and> page_lacing pg \<noteq> []
   \<and> page_flags pg = of_bool cont + 2 * of_bool bos + 4 * of_bool (eos \<and> pgs = [])
   \<and> page_position pg = take_bit 64 (let k = completed (page_lacing pg) in if k = 0 then -1 else gs ! (k - 1))
   \<and> pages_ok serial (seq + 1) (last (page_lacing pg) = 255) False eos (drop (completed (page_lacing pg)) gs) pgs"

definition all_lacing :: "ogg_page list \<Rightarrow> nat list" where
  "all_lacing pgs = concat (map page_lacing pgs)"

definition all_bytes :: "ogg_page list \<Rightarrow> bytes" where
  "all_bytes pgs = concat (map page_body pgs)"

definition unfinished :: "bool \<Rightarrow> ogg_page list \<Rightarrow> bool" where
  "unfinished cont pgs = (if pgs = [] then cont else last (page_lacing (last pgs)) = 255)"

lemma pages_simps [simp]:
  "all_lacing [] = []" "all_lacing (p # ps) = page_lacing p @ all_lacing ps" "all_lacing (ps @ qs) = all_lacing ps @ all_lacing qs"
  "all_bytes [] = []" "all_bytes (p # ps) = page_body p @ all_bytes ps" "all_bytes (ps @ qs) = all_bytes ps @ all_bytes qs"
  "unfinished cont [] = cont" "unfinished cont (ps @ [p]) = (last (page_lacing p) = 255)"
  "unfinished cont (p # ps) = unfinished (last (page_lacing p) = 255) ps"
  by (simp_all add: all_lacing_def all_bytes_def unfinished_def)

lemma pages_ok_append:
  "qs \<noteq> [] \<Longrightarrow> pages_ok serial seq cont bos eos gs (ps @ qs) \<longleftrightarrow>
     pages_ok serial seq cont bos False gs ps
   \<and> pages_ok serial (seq + int (length ps)) (unfinished cont ps) (bos \<and> ps = []) eos (drop (completed (all_lacing ps)) gs) qs"
  by (induction ps arbitrary: seq cont bos gs) (auto simp: add.commute add.left_commute)

lemma pages_length: "pages_ok serial seq cont bos eos gs ps \<Longrightarrow> length ps \<le> length (all_lacing ps)"
proof (induction ps arbitrary: seq cont bos gs)
  case (Cons p ps)
  then have "length ps \<le> length (all_lacing ps)" "page_lacing p \<noteq> []" by auto
  then show ?case by (cases "page_lacing p") auto
qed simp

definition mux_ok :: "mux_context \<Rightarrow> int \<Rightarrow> int list \<Rightarrow> ogg_page list \<Rightarrow> mux_state \<Rightarrow> bool" where
  "mux_ok ctx seq gs pgs st \<longleftrightarrow>
     mux_pages st = map page_bytes pgs \<and> list_all page_fits pgs
   \<and> pages_ok (mux_serial ctx) seq False (beginning_of_stream ctx) False gs pgs
   \<and> mux_sequence st = seq + int (length pgs) \<and> first_page st = (pgs = [])
   \<and> continued_at_start st = unfinished False pgs
   \<and> sum_list (mux_lacing st) = length (mux_body st) \<and> length (mux_lacing st) \<le> 255 \<and> (\<forall>v \<in> set (mux_lacing st). v \<le> 255)
   \<and> completed (all_lacing pgs @ mux_lacing st) \<le> length gs
   \<and> page_granule st = (if completed (mux_lacing st) = 0 then -1
        else gs ! (completed (all_lacing pgs @ mux_lacing st) - 1))"

text \<open>Emitting the collected segments appends one page that satisfies the format.\<close>

lemma emit_ok:
  assumes ok: "mux_ok ctx seq gs pgs st" and ne: "mux_lacing st \<noteq> []"
    and rng: "0 \<le> mux_serial ctx" "mux_serial ctx < 2 ^ 32" "0 \<le> seq" "seq + int (length pgs) < 2 ^ 32"
  obtains pg where
    "emit ctx st fin = Inr (st\<lparr>mux_pages := map page_bytes (pgs @ [pg]), mux_sequence := seq + int (length (pgs @ [pg])), first_page := False,
        mux_lacing := [], mux_body := [], page_granule := -1\<rparr>)"
    "page_fits pg" "page_lacing pg = mux_lacing st" "page_body pg = mux_body st"
    "pages_ok (mux_serial ctx) seq False (beginning_of_stream ctx) (end_of_stream ctx \<and> fin) gs (pgs @ [pg])"
proof -
  define flags where "flags = of_bool (continued_at_start st) + 2 * of_bool (beginning_of_stream ctx \<and> first_page st)
    + 4 * of_bool (end_of_stream ctx \<and> fin :: bool) + (0 :: nat)"
  define pg where "pg = \<lparr>page_flags = flags, page_position = take_bit 64 (page_granule st), page_serial = mux_serial ctx,
    page_number = seq + int (length pgs), page_lacing = mux_lacing st, page_body = mux_body st\<rparr>"
  note d = ok [unfolded mux_ok_def]
  have "flags < 256" by (auto simp: flags_def)
  moreover have "take_bit 64 (page_granule st) < 2 ^ 64" by (rule take_bit_int_less_exp)
  ultimately have fits: "page_fits pg" using d rng by (simp add: page_fits_def pg_def)
  have fl: "(let flags0 = (if continued_at_start st then 1 else 0);
          flags1 = (if beginning_of_stream ctx \<and> first_page st then flags0 OR 2 else flags0)
      in if end_of_stream ctx \<and> fin then flags1 OR 4 else flags1) = flags"
    by (auto simp: flags_def)
  have enc: "encode_page flags (page_granule st) (mux_serial ctx) (mux_sequence st) (mux_lacing st) (mux_body st) = Inr (page_bytes pg)"
    using encode_page_bytes [OF fits, of "page_granule st"] ne d by (simp add: pg_def)
  have em: "emit ctx st fin = Inr (st\<lparr>mux_pages := map page_bytes (pgs @ [pg]), mux_sequence := seq + int (length (pgs @ [pg])), first_page := False,
        mux_lacing := [], mux_body := [], page_granule := -1\<rparr>)"
    using fl enc d by (simp add: emit_def Let_def)
  have gran: "page_granule st = (if completed (mux_lacing st) = 0 then -1
      else drop (completed (all_lacing pgs)) gs ! (completed (mux_lacing st) - 1))"
    using d by (cases "completed (mux_lacing st)") auto
  have "pages_ok (mux_serial ctx) seq False (beginning_of_stream ctx) (end_of_stream ctx \<and> fin) gs (pgs @ [pg])"
    using d ne gran by (simp add: pages_ok_append pg_def flags_def Let_def)
  then show thesis using that [OF em fits] by (simp add: pg_def)
qed

definition mux_done :: "mux_context \<Rightarrow> int \<Rightarrow> int list \<Rightarrow> ogg_page list \<Rightarrow> mux_state \<Rightarrow> bool" where
  "mux_done ctx seq gs pgs st \<longleftrightarrow>
     mux_lacing st = [] \<and> mux_body st = [] \<and> mux_pages st = map page_bytes pgs \<and> list_all page_fits pgs
   \<and> pages_ok (mux_serial ctx) seq False (beginning_of_stream ctx) (end_of_stream ctx) gs pgs
   \<and> mux_sequence st = seq + int (length pgs)"

text \<open>The state after some segments: in progress, or done when the last packet was just emitted.\<close>

definition mux_result :: "mux_context \<Rightarrow> int \<Rightarrow> int list \<Rightarrow> bool \<Rightarrow> nat list \<Rightarrow> bytes \<Rightarrow> mux_state \<Rightarrow> bool" where
  "mux_result ctx seq gs fin lacing data st \<longleftrightarrow>
     (\<exists>pgs. all_lacing pgs @ mux_lacing st = lacing \<and> all_bytes pgs @ mux_body st = data \<and> length (mux_lacing st) < 255
        \<and> (if fin then mux_lacing st \<noteq> [] \<and> mux_ok ctx seq gs pgs st \<or> mux_done ctx seq gs pgs st
           else mux_ok ctx seq gs pgs st))"

definition numbers_fit :: "mux_context \<Rightarrow> int \<Rightarrow> nat \<Rightarrow> bool" where
  "numbers_fit ctx seq n \<longleftrightarrow> 0 \<le> mux_serial ctx \<and> mux_serial ctx < 2 ^ 32 \<and> 0 \<le> seq \<and> seq + int n \<le> 2 ^ 32"

lemma mux_ok_length: "mux_ok ctx seq gs pgs st \<Longrightarrow> length pgs \<le> length (all_lacing pgs)"
  by (auto simp: mux_ok_def dest: pages_length)

lemma emit_next:
  assumes ok: "mux_ok ctx seq gs pgs st" and ne: "mux_lacing st \<noteq> []"
    and rng: "numbers_fit ctx seq (length (all_lacing pgs @ mux_lacing st))"
  shows "\<exists>st'. emit ctx st fin = Inr st' \<and> mux_lacing st' = [] \<and> mux_body st' = [] \<and>
    (\<exists>pgs'. all_lacing pgs' = all_lacing pgs @ mux_lacing st \<and> all_bytes pgs' = all_bytes pgs @ mux_body st
       \<and> (fin \<longrightarrow> mux_done ctx seq gs pgs' st')
       \<and> (\<not> fin \<longrightarrow> mux_ok ctx seq gs pgs' (st'\<lparr>continued_at_start := last (mux_lacing st) = 255\<rparr>)))"
proof -
  have "length pgs < length (all_lacing pgs @ mux_lacing st)"
    using mux_ok_length [OF ok] ne by (cases "mux_lacing st") auto
  then have "seq + int (length pgs) < 2 ^ 32" using rng by (simp add: numbers_fit_def)
  then obtain pg where pg: "emit ctx st fin = Inr (st\<lparr>mux_pages := map page_bytes (pgs @ [pg]), mux_sequence := seq + int (length (pgs @ [pg])),
        first_page := False, mux_lacing := [], mux_body := [], page_granule := -1\<rparr>)"
    "page_fits pg" "page_lacing pg = mux_lacing st" "page_body pg = mux_body st"
    "pages_ok (mux_serial ctx) seq False (beginning_of_stream ctx) (end_of_stream ctx \<and> fin) gs (pgs @ [pg])"
    using emit_ok [OF ok ne, of fin] rng by (auto simp: numbers_fit_def)
  show ?thesis
  proof (intro exI conjI)
    show "emit ctx st fin = Inr (st\<lparr>mux_pages := map page_bytes (pgs @ [pg]), mux_sequence := seq + int (length (pgs @ [pg])),
        first_page := False, mux_lacing := [], mux_body := [], page_granule := -1\<rparr>)" by (rule pg(1))
    show "all_lacing (pgs @ [pg]) = all_lacing pgs @ mux_lacing st" "all_bytes (pgs @ [pg]) = all_bytes pgs @ mux_body st"
      by (simp_all add: pg)
  qed (use ok pg in \<open>auto simp: mux_ok_def mux_done_def\<close>)
qed

lemma mux_value_ok:
  assumes ok: "mux_ok ctx seq gs pgs st" and strict: "length (mux_lacing st) < 255"
    and v: "v \<le> 255" "off + v \<le> length (payload p)"
    and g: "v < 255 \<Longrightarrow> completed (all_lacing pgs @ mux_lacing st) < length gs
       \<and> gs ! completed (all_lacing pgs @ mux_lacing st) = granule_position p"
    and rng: "numbers_fit ctx seq (length (all_lacing pgs @ mux_lacing st @ [v]))"
  shows "\<exists>st'. mux_value ctx p fin idx off v st = Inr st'
    \<and> mux_result ctx seq gs (fin \<and> v < 255) (all_lacing pgs @ mux_lacing st @ [v])
        (all_bytes pgs @ mux_body st @ slice_of off (off + v) (payload p)) st'"
proof -
  define st2 where "st2 = st\<lparr>mux_lacing := mux_lacing st @ [v], mux_body := mux_body st @ slice_of off (off + v) (payload p),
    page_granule := (if v < 255 then granule_position p else page_granule st)\<rparr>"
  have ok2: "mux_ok ctx seq gs pgs st2" and ne: "mux_lacing st2 \<noteq> []"
    using ok strict v g by (auto simp: mux_ok_def st2_def)
  have val: "mux_value ctx p fin idx off v st =
    (if length (mux_lacing st2) = 255 \<or> 4096 < length (mux_body st2)
     then bind_result (emit ctx st2 (fin \<and> v < 255)) (\<lambda>st. Inr (st\<lparr>continued_at_start := \<not> v < 255\<rparr>))
     else Inr st2)"
    using strict by (simp add: mux_value_def st2_def Let_def)
  show ?thesis
  proof (cases "length (mux_lacing st2) = 255 \<or> 4096 < length (mux_body st2)")
    case False
    then have "mux_result ctx seq gs (fin \<and> v < 255) (all_lacing pgs @ mux_lacing st @ [v])
        (all_bytes pgs @ mux_body st @ slice_of off (off + v) (payload p)) st2"
      unfolding mux_result_def using ok2 strict by (intro exI [of _ pgs]) (auto simp: st2_def)
    then show ?thesis using False val by auto
  next
    case True
    have rng2: "numbers_fit ctx seq (length (all_lacing pgs @ mux_lacing st2))" using rng by (simp add: st2_def)
    obtain st' pgs' where em: "emit ctx st2 (fin \<and> v < 255) = Inr st'" "mux_lacing st' = []" "mux_body st' = []"
      "all_lacing pgs' = all_lacing pgs @ mux_lacing st2" "all_bytes pgs' = all_bytes pgs @ mux_body st2"
      "fin \<and> v < 255 \<longrightarrow> mux_done ctx seq gs pgs' st'"
      "\<not> (fin \<and> v < 255) \<longrightarrow> mux_ok ctx seq gs pgs' (st'\<lparr>continued_at_start := last (mux_lacing st2) = 255\<rparr>)"
      using emit_next [OF ok2 ne rng2, of "fin \<and> v < 255"] by blast
    have c: "(last (mux_lacing st2) = 255) = (\<not> v < 255)" using v(1) by (simp add: st2_def)
    have "mux_result ctx seq gs (fin \<and> v < 255) (all_lacing pgs @ mux_lacing st @ [v])
        (all_bytes pgs @ mux_body st @ slice_of off (off + v) (payload p)) (st'\<lparr>continued_at_start := \<not> v < 255\<rparr>)"
      unfolding mux_result_def using em(2-6) em(7) [unfolded c]
      by (intro exI [of _ pgs']) (auto simp: st2_def mux_done_def)
    then show ?thesis using val True em(1) by simp
  qed
qed

lemma mux_result_open:
  "mux_result ctx seq gs False lacing data st \<longleftrightarrow>
     (\<exists>pgs. all_lacing pgs @ mux_lacing st = lacing \<and> all_bytes pgs @ mux_body st = data \<and> length (mux_lacing st) < 255
        \<and> mux_ok ctx seq gs pgs st)"
  by (simp add: mux_result_def)

lemma mux_value_result:
  assumes "mux_result ctx seq gs False lacing data st" and "v \<le> 255" "off + v \<le> length (payload p)"
    and "v < 255 \<Longrightarrow> completed lacing < length gs \<and> gs ! completed lacing = granule_position p"
    and "numbers_fit ctx seq (length (lacing @ [v]))"
  shows "\<exists>st'. mux_value ctx p fin idx off v st = Inr st'
    \<and> mux_result ctx seq gs (fin \<and> v < 255) (lacing @ [v]) (data @ slice_of off (off + v) (payload p)) st'"
  using assms mux_value_ok [of ctx seq gs _ st v off p fin idx] unfolding mux_result_open by fastforce

lemma numbers_fit_mono: "numbers_fit ctx seq n \<Longrightarrow> m \<le> n \<Longrightarrow> numbers_fit ctx seq m"
  by (auto simp: numbers_fit_def)

lemma mux_full_values:
  assumes "mux_result ctx seq gs False lacing data st" and "off + 255 * k \<le> length (payload p)"
    and "numbers_fit ctx seq (length lacing + k)"
  shows "\<exists>st'. mux_values ctx p fin idx off (replicate k 255 @ vs) st = mux_values ctx p fin (idx + k) (off + 255 * k) vs st'
    \<and> mux_result ctx seq gs False (lacing @ replicate k 255) (data @ slice_of off (off + 255 * k) (payload p)) st'"
  using assms
proof (induction k arbitrary: idx off lacing data st)
  case 0
  then show ?case by (auto simp: slice_of_def)
next
  case (Suc k)
  obtain st1 where st1: "mux_value ctx p fin idx off 255 st = Inr st1"
    "mux_result ctx seq gs False (lacing @ [255]) (data @ slice_of off (off + 255) (payload p)) st1"
    using mux_value_result [OF Suc.prems(1), of 255 off p fin idx] Suc.prems numbers_fit_mono by fastforce
  have "off + 255 + 255 * k \<le> length (payload p)" "numbers_fit ctx seq (length (lacing @ [255]) + k)"
    using Suc.prems by simp_all
  from Suc.IH [OF st1(2) this, of "idx + 1"] obtain st' where
    "mux_values ctx p fin (idx + 1) (off + 255) (replicate k 255 @ vs) st1 = mux_values ctx p fin (idx + 1 + k) (off + 255 + 255 * k) vs st'"
    and res: "mux_result ctx seq gs False ((lacing @ [255]) @ replicate k 255)
       ((data @ slice_of off (off + 255) (payload p)) @ slice_of (off + 255) (off + 255 + 255 * k) (payload p)) st'" by blast
  moreover have "slice_of off (off + 255) (payload p) @ slice_of (off + 255) (off + 255 + 255 * k) (payload p) = slice_of off (off + 255 * Suc k) (payload p)"
    using slice_of_join [of off "off + 255" "off + 255 * Suc k" "payload p"] by (simp add: add.assoc)
  ultimately show ?case using st1(1) by (intro exI [of _ st']) (simp add: add.assoc)
qed

lemma mux_packet_values:
  assumes "mux_result ctx seq gs False lacing data st"
    and g: "completed lacing < length gs" "gs ! completed lacing = granule_position p"
    and rng: "numbers_fit ctx seq (length lacing + length (lacing_values (length (payload p))))"
  shows "\<exists>st'. mux_values ctx p fin 0 0 (lacing_values (length (payload p))) st = Inr (length (payload p), st')
    \<and> mux_result ctx seq gs fin (lacing @ lacing_values (length (payload p))) (data @ payload p) st'"
proof -
  let ?n = "length (payload p)"
  have n: "255 * (?n div 255) + ?n mod 255 = ?n" "?n mod 255 < 255" by simp_all
  have rng1: "numbers_fit ctx seq (length lacing + ?n div 255)" "numbers_fit ctx seq (length ((lacing @ replicate (?n div 255) 255) @ [?n mod 255]))"
    using rng by (auto simp: lacing_values_def elim!: numbers_fit_mono)
  obtain st1 where st1: "mux_values ctx p fin 0 0 (lacing_values ?n) st = mux_values ctx p fin (?n div 255) (255 * (?n div 255)) [?n mod 255] st1"
    "mux_result ctx seq gs False (lacing @ replicate (?n div 255) 255) (data @ slice_of 0 (255 * (?n div 255)) (payload p)) st1"
    using mux_full_values [OF assms(1) _ rng1(1), of 0 p fin 0 "[?n mod 255]"] n by (auto simp: lacing_values_def)
  have "completed (lacing @ replicate (?n div 255) 255) = completed lacing" by (simp add: completed_def)
  then obtain st2 where "mux_value ctx p fin (?n div 255) (255 * (?n div 255)) (?n mod 255) st1 = Inr st2"
    "mux_result ctx seq gs fin ((lacing @ replicate (?n div 255) 255) @ [?n mod 255])
       ((data @ slice_of 0 (255 * (?n div 255)) (payload p)) @ slice_of (255 * (?n div 255)) ?n (payload p)) st2"
    using mux_value_result [OF st1(2), of "?n mod 255" "255 * (?n div 255)" p fin "?n div 255"] g n rng1(2) by auto
  moreover have "slice_of 0 (255 * (?n div 255)) (payload p) @ slice_of (255 * (?n div 255)) ?n (payload p) = payload p"
    using slice_of_join [of 0 "255 * (?n div 255)" ?n "payload p"] by (simp add: slice_of_whole)
  ultimately show ?thesis using st1(1) n by (intro exI [of _ st2]) (simp add: lacing_values_def)
qed

definition packet_lacing :: "packet list \<Rightarrow> nat list" where
  "packet_lacing ps = concat (map (\<lambda>p. lacing_values (length (payload p))) ps)"

lemma completed_lacing_values [simp]: "completed (lacing_values n) = 1"
  by (simp add: lacing_values_def completed_def)

lemma drop_ConsD: "drop k xs = y # ys \<Longrightarrow> k < length xs \<and> xs ! k = y \<and> drop (Suc k) xs = ys"
proof -
  assume h: "drop k xs = y # ys"
  have "k < length xs" by (rule ccontr) (use h in simp)
  with h show ?thesis using Cons_nth_drop_Suc [of k xs] by simp
qed

lemma mux_packets_ok:
  assumes "ps \<noteq> []" "mux_result ctx seq gs False lacing data st" "drop (completed lacing) gs = map granule_position ps"
    and "numbers_fit ctx seq (length lacing + length (packet_lacing ps))"
  shows "\<exists>st'. mux_packets ctx ps st = Inr st' \<and> mux_result ctx seq gs True (lacing @ packet_lacing ps) (data @ concat (map payload ps)) st'"
  using assms
proof (induction ps arbitrary: lacing data st)
  case (Cons p ps)
  have g: "completed lacing < length gs" "gs ! completed lacing = granule_position p"
    and next_g: "drop (Suc (completed lacing)) gs = map granule_position ps"
    using drop_ConsD [of "completed lacing" gs] Cons.prems(3) by simp_all
  have "numbers_fit ctx seq (length lacing + length (lacing_values (length (payload p))))"
    using Cons.prems(4) by (auto simp: packet_lacing_def elim!: numbers_fit_mono)
  from mux_packet_values [OF Cons.prems(2) g this, of "ps = []"] obtain st1 where
    st1: "mux_values ctx p (ps = []) 0 0 (lacing_values (length (payload p))) st = Inr (length (payload p), st1)"
    "mux_result ctx seq gs (ps = []) (lacing @ lacing_values (length (payload p))) (data @ payload p) st1" by blast
  show ?case
  proof (cases "ps = []")
    case True
    then show ?thesis using st1 by (simp add: packet_lacing_def)
  next
    case False
    have "drop (completed (lacing @ lacing_values (length (payload p)))) gs = map granule_position ps"
      using next_g by simp
    with Cons.IH [OF False, of "lacing @ lacing_values (length (payload p))" "data @ payload p" st1]
    show ?thesis using st1 False Cons.prems(4) by (auto simp: packet_lacing_def add.assoc)
  qed
qed simp

definition muxed :: "mux_context \<Rightarrow> int \<Rightarrow> int list \<Rightarrow> nat list \<Rightarrow> bytes \<Rightarrow> ogg_page list \<Rightarrow> bool" where
  "muxed ctx seq gs lacing data pgs \<longleftrightarrow>
     pgs \<noteq> [] \<and> list_all page_fits pgs \<and> all_lacing pgs = lacing \<and> all_bytes pgs = data
   \<and> pages_ok (mux_serial ctx) seq False (beginning_of_stream ctx) (end_of_stream ctx) gs pgs"

lemma packet_lacing_nonempty: "ps \<noteq> [] \<Longrightarrow> packet_lacing ps \<noteq> []"
  by (cases ps) (auto simp: packet_lacing_def lacing_values_def)

lemma encode_pages_ok:
  assumes "ps \<noteq> []" "numbers_fit ctx seq (length (packet_lacing ps))"
  shows "\<exists>pgs. encode_pages ctx ps seq = Inr (map page_bytes pgs, seq + int (length pgs))
    \<and> muxed ctx seq (map granule_position ps) (packet_lacing ps) (concat (map payload ps)) pgs"
proof -
  let ?gs = "map granule_position ps"
  define st0 where "st0 = \<lparr>mux_pages = [], mux_lacing = [], mux_body = [], continued_at_start = False, page_granule = -1,
         first_page = True, mux_sequence = seq\<rparr>"
  have "mux_result ctx seq ?gs False [] [] st0"
    unfolding mux_result_open by (intro exI [of _ "[]"]) (simp add: st0_def mux_ok_def)
  from mux_packets_ok [OF assms(1) this] assms(2) obtain st where st: "mux_packets ctx ps st0 = Inr st"
    "mux_result ctx seq ?gs True (packet_lacing ps) (concat (map payload ps)) st" by auto
  then obtain pgs where pgs: "all_lacing pgs @ mux_lacing st = packet_lacing ps" "all_bytes pgs @ mux_body st = concat (map payload ps)"
    "mux_lacing st \<noteq> [] \<and> mux_ok ctx seq ?gs pgs st \<or> mux_done ctx seq ?gs pgs st" by (auto simp: mux_result_def)
  show ?thesis
  proof (cases "mux_lacing st = []")
    case True
    then have dn: "mux_done ctx seq ?gs pgs st" using pgs(3) by blast
    then have "encode_pages ctx ps seq = Inr (map page_bytes pgs, seq + int (length pgs))"
      using st(1) True by (simp add: encode_pages_def st0_def mux_done_def)
    moreover have "pgs \<noteq> []" using pgs(1) True packet_lacing_nonempty [OF assms(1)] by auto
    ultimately show ?thesis using pgs(1,2) dn True by (auto simp: muxed_def mux_done_def)
  next
    case False
    then have "mux_ok ctx seq ?gs pgs st" using pgs(3) by (auto simp: mux_done_def)
    from emit_next [OF this False, of True] obtain st' pgs' where em: "emit ctx st True = Inr st'" "mux_done ctx seq ?gs pgs' st'"
      "all_lacing pgs' = packet_lacing ps" "all_bytes pgs' = concat (map payload ps)" using pgs(1,2) assms(2) by auto
    then have "encode_pages ctx ps seq = Inr (map page_bytes pgs', seq + int (length pgs'))"
      using st(1) False by (simp add: encode_pages_def st0_def mux_done_def)
    moreover have "pgs' \<noteq> []" using em(3) packet_lacing_nonempty [OF assms(1)] by auto
    ultimately show ?thesis using em by (auto simp: muxed_def mux_done_def)
  qed
qed

section \<open>Whole streams\<close>

definition payload_lacing :: "bytes list \<Rightarrow> nat list" where
  "payload_lacing xs = concat (map (\<lambda>x. lacing_values (length x)) xs)"

definition granules :: "ogg_opus_config \<Rightarrow> nat \<Rightarrow> nat \<Rightarrow> int list" where
  "granules c index n = map (\<lambda>i. (int index + int i + 1) * packet_samples c) [0..<n]"

lemma payload_lacing_append [simp]: "payload_lacing (xs @ ys) = payload_lacing xs @ payload_lacing ys"
  by (simp add: payload_lacing_def)

lemma completed_payload_lacing [simp]: "completed (payload_lacing xs) = length xs"
  by (induction xs) (simp_all add: payload_lacing_def)

lemma last_payload_lacing: "xs \<noteq> [] \<Longrightarrow> payload_lacing xs \<noteq> [] \<and> last (payload_lacing xs) < 255"
  by (cases xs rule: rev_cases) (simp_all add: payload_lacing_def lacing_values_def)

lemma granules_append: "granules c index (m + n) = granules c index m @ granules c (index + m) n"
proof -
  have "map f [m..<m + n] = map (\<lambda>i. f (m + i)) [0..<n]" for f :: "nat \<Rightarrow> int"
  proof -
    have "[m..<m + n] = map (\<lambda>i. i + m) [0..<n]" using map_add_upt [of m n] by (simp add: add.commute)
    then show ?thesis by (simp add: comp_def add.commute)
  qed
  then show ?thesis by (simp add: granules_def upt_add_eq_append [of 0 m n, simplified] add.assoc)
qed

lemma batch_packets_simps:
  "map granule_position (batch_packets c index xs) = granules c index (length xs)"
  "packet_lacing (batch_packets c index xs) = payload_lacing xs" "map payload (batch_packets c index xs) = xs"
proof -
  show "map payload (batch_packets c index xs) = xs"
    by (simp add: batch_packets_def comp_def case_prod_unfold)
  then have "map (\<lambda>p. lacing_values (length (payload p))) (batch_packets c index xs) = map (\<lambda>x. lacing_values (length x)) xs"
    by (metis (no_types, lifting) map_map comp_apply map_cong)
  then show "packet_lacing (batch_packets c index xs) = payload_lacing xs" by (simp add: packet_lacing_def payload_lacing_def)
  have "map granule_position (batch_packets c index xs) = map ((\<lambda>i. (int index + int i + 1) * packet_samples c) \<circ> fst) (enumerate 0 xs)"
    by (simp add: batch_packets_def comp_def case_prod_unfold)
  also have "\<dots> = map (\<lambda>i. (int index + int i + 1) * packet_samples c) (map fst (enumerate 0 xs))" by (simp only: map_map)
  also have "\<dots> = granules c index (length xs)" by (simp only: granules_def map_fst_enumerate add_0)
  finally show "map granule_position (batch_packets c index xs) = granules c index (length xs)" .
qed

lemma pages_ok_more_granules:
  "completed (all_lacing pgs) \<le> length gs \<Longrightarrow> pages_ok serial seq cont bos eos (gs @ hs) pgs = pages_ok serial seq cont bos eos gs pgs"
  by (induction pgs arbitrary: seq cont bos gs) (auto simp: nth_append Let_def)

text \<open>Two runs of pages of complete packets form one.\<close>

lemma muxed_append:
  assumes "muxed ctx seq gs (payload_lacing xs) d ps" "end_of_stream ctx = False" "xs \<noteq> []" "length gs = length xs"
    and "muxed ctx' (seq + int (length ps)) hs l' d' qs" "mux_serial ctx' = mux_serial ctx" "\<not> beginning_of_stream ctx'"
  shows "muxed (ctx\<lparr>end_of_stream := end_of_stream ctx'\<rparr>) seq (gs @ hs) (payload_lacing xs @ l') (d @ d') (ps @ qs)"
proof -
  have "ps \<noteq> []" "all_lacing ps = payload_lacing xs" and ok: "pages_ok (mux_serial ctx) seq False (beginning_of_stream ctx) False gs ps"
    using assms(1,2) by (auto simp: muxed_def)
  moreover have "last (page_lacing (last ps)) = last (all_lacing ps)"
  proof -
    obtain rs r where "ps = rs @ [r]" using \<open>ps \<noteq> []\<close> by (cases ps rule: rev_cases) auto
    moreover from this ok have "page_lacing r \<noteq> []" by (simp add: pages_ok_append)
    ultimately show ?thesis by simp
  qed
  ultimately have "unfinished False ps = False" using last_payload_lacing [OF assms(3)] by (simp add: unfinished_def)
  then show ?thesis using assms \<open>ps \<noteq> []\<close> ok \<open>all_lacing ps = payload_lacing xs\<close>
    by (auto simp: muxed_def pages_ok_append pages_ok_more_granules)
qed

lemma write_pages_simps:
  "write_pages ps out = \<lparr>written = written out @ concat ps, page_count = page_count out + length ps, byte_count = byte_count out + length (concat ps)\<rparr>"
  by (induction ps arbitrary: out) simp_all

lemma check_packets_ok: "[] \<notin> set ps \<Longrightarrow> check_packets i ps = Inr ()"
  by (induction ps arbitrary: i) auto

lemma muxed_length: "muxed ctx seq gs lacing d ps \<Longrightarrow> length ps \<le> length lacing"
  by (auto simp: muxed_def dest: pages_length)

definition stream_context :: "int \<Rightarrow> bool \<Rightarrow> mux_context" where
  "stream_context serial bos = \<lparr>mux_serial = serial, beginning_of_stream = bos, end_of_stream = True\<rparr>"

lemma stream_loop_ok:
  assumes "payloads \<noteq> []" "[] \<notin> set (payloads @ rest)" "0 < packets_per_flush c"
    and "numbers_fit (stream_context serial False) seq (length (payload_lacing (payloads @ rest)))"
  shows "\<exists>pgs. stream_loop c serial seq index payloads rest out = Inr (write_pages (map page_bytes pgs) out)
    \<and> muxed (stream_context serial False) seq (granules c index (length (payloads @ rest))) (payload_lacing (payloads @ rest))
        (concat (payloads @ rest)) pgs"
  using assms
proof (induction c serial seq index payloads rest out rule: stream_loop.induct)
  case (1 c serial seq index payloads rest out)
  let ?n = "nat (packets_per_flush c)"
  let ?nxt = "take ?n rest"
  let ?ctx = "\<lparr>mux_serial = serial, beginning_of_stream = False, end_of_stream = (?nxt = [])\<rparr>"
  have nxt: "check_packets (index + length payloads) ?nxt = Inr ()"
    using 1(3) by (intro check_packets_ok) (auto dest: in_set_takeD)
  have ps: "batch_packets c index payloads \<noteq> []" using 1(2) batch_packets_simps(3) [of c index payloads] by auto
  have "numbers_fit ?ctx seq (length (payload_lacing payloads))" using 1(5) by (auto simp: numbers_fit_def stream_context_def)
  then obtain pgs where pgs: "encode_pages ?ctx (batch_packets c index payloads) seq = Inr (map page_bytes pgs, seq + int (length pgs))"
    "muxed ?ctx seq (granules c index (length payloads)) (payload_lacing payloads) (concat payloads) pgs"
    using encode_pages_ok [OF ps, of ?ctx seq] by (auto simp: batch_packets_simps)
  have step: "stream_loop c serial seq index payloads rest out
      = stream_loop c serial (seq + int (length pgs)) (index + length payloads) ?nxt (drop ?n rest) (write_pages (map page_bytes pgs) out)"
    using 1(2) nxt pgs(1) by (subst stream_loop.simps) (simp add: Let_def)
  show ?case
  proof (cases "rest = []")
    case True
    then show ?thesis using step pgs(2) by (subst (asm) stream_loop.simps) (auto simp: stream_context_def)
  next
    case False
    then have ne: "?nxt \<noteq> []" using 1(4) by simp
    have len: "length pgs \<le> length (payload_lacing payloads)" using muxed_length [OF pgs(2)] .
    have nn: "[] \<notin> set (?nxt @ drop ?n rest)"
      and ih: "numbers_fit (stream_context serial False) (seq + int (length pgs)) (length (payload_lacing (?nxt @ drop ?n rest)))"
      using 1(3,5) len by (simp_all add: numbers_fit_def stream_context_def)
    from 1(1) [OF 1(2) refl refl ne nn 1(4) ih, of "map page_bytes pgs"]
    obtain qs where qs: "stream_loop c serial (seq + int (length pgs)) (index + length payloads) ?nxt (drop ?n rest) (write_pages (map page_bytes pgs) out)
        = Inr (write_pages (map page_bytes qs) (write_pages (map page_bytes pgs) out))"
      "muxed (stream_context serial False) (seq + int (length pgs)) (granules c (index + length payloads) (length rest)) (payload_lacing rest) (concat rest) qs"
      unfolding append_take_drop_id by blast
    have "muxed (?ctx\<lparr>end_of_stream := True\<rparr>) seq (granules c index (length payloads) @ granules c (index + length payloads) (length rest))
        (payload_lacing payloads @ payload_lacing rest) (concat payloads @ concat rest) (pgs @ qs)"
      using muxed_append [OF pgs(2) _ 1(2) _ qs(2)] ne by (simp add: stream_context_def granules_def)
    then show ?thesis using qs(1) step by (intro exI [of _ "pgs @ qs"]) (simp add: write_pages_simps stream_context_def granules_append)
  qed
qed

lemma demux_segments:
  "length x = 255 * k + m \<Longrightarrow> m < 255 \<Longrightarrow>
     demux (replicate k 255 @ m # vs) (x @ r) acc = (let (ps, rest) = demux vs r [] in ((acc @ x) # ps, rest))"
proof (induction k arbitrary: x acc)
  case (Suc k)
  then have "length (drop 255 x) = 255 * k + m" "255 \<le> length x" by simp_all
  then show ?case using Suc.IH [of "drop 255 x" "acc @ take 255 x"] Suc.prems(2) by simp
qed simp

lemma demux_payloads: "demux (payload_lacing xs) (concat xs) [] = (xs, [])"
proof (induction xs)
  case (Cons x xs)
  have "demux (payload_lacing (x # xs)) (concat (x # xs)) [] = (let (ps, rest) = demux (payload_lacing xs) (concat xs) [] in (x # ps, rest))"
    using demux_segments [of x "length x div 255" "length x mod 255" "payload_lacing xs" "concat xs" "[]"]
    by (simp add: payload_lacing_def lacing_values_def)
  then show ?case by (simp add: Cons.IH)
qed (simp add: payload_lacing_def)

lemma single_packet [simp]: "packet_lacing [\<lparr>payload = x, granule_position = g\<rparr>] = payload_lacing [x]"
  by (simp add: packet_lacing_def payload_lacing_def)

lemma write_stream_ok:
  assumes head: "opus_head c = Inr head" and tags: "opus_tags c = Inr tags" and flush: "0 < packets_per_flush c"
    and ps: "packets \<noteq> []" "[] \<notin> set packets" and serial: "0 \<le> serial" "serial < 2 ^ 32"
    and size: "length (payload_lacing (head # tags # packets)) \<le> 2 ^ 32"
  shows "\<exists>pgs. write_stream c packets serial out = Inr (write_pages (map page_bytes pgs) out)
    \<and> muxed (stream_context serial True) 0 (0 # 0 # granules c 0 (length packets)) (payload_lacing (head # tags # packets))
        (concat (head # tags # packets)) pgs"
proof -
  let ?hc = "\<lparr>mux_serial = serial, beginning_of_stream = True, end_of_stream = False\<rparr>"
  let ?tc = "\<lparr>mux_serial = serial, beginning_of_stream = False, end_of_stream = False\<rparr>"
  let ?n = "nat (packets_per_flush c)"
  have lac: "payload_lacing (head # tags # packets) = payload_lacing [head] @ payload_lacing [tags] @ payload_lacing packets"
    by (simp add: payload_lacing_def)
  have "numbers_fit ?hc 0 (length (payload_lacing [head]))" using size serial unfolding lac by (simp add: numbers_fit_def)
  then obtain hs where hs: "encode_pages ?hc [\<lparr>payload = head, granule_position = 0\<rparr>] 0 = Inr (map page_bytes hs, 0 + int (length hs))"
    "muxed ?hc 0 [0] (payload_lacing [head]) head hs"
    using encode_pages_ok [of "[\<lparr>payload = head, granule_position = 0\<rparr>]" ?hc 0] by auto
  have "numbers_fit ?tc (int (length hs)) (length (payload_lacing [tags]))"
    using size serial muxed_length [OF hs(2)] unfolding lac by (simp add: numbers_fit_def)
  then obtain ts where ts: "encode_pages ?tc [\<lparr>payload = tags, granule_position = 0\<rparr>] (int (length hs))
      = Inr (map page_bytes ts, int (length hs) + int (length ts))"
    "muxed ?tc (int (length hs)) [0] (payload_lacing [tags]) tags ts"
    using encode_pages_ok [of "[\<lparr>payload = tags, granule_position = 0\<rparr>]" ?tc "int (length hs)"] by auto
  have "numbers_fit (stream_context serial False) (int (length hs) + int (length ts)) (length (payload_lacing (take ?n packets @ drop ?n packets)))"
    using size serial muxed_length [OF hs(2)] muxed_length [OF ts(2)] unfolding lac append_take_drop_id
    by (simp add: numbers_fit_def stream_context_def)
  moreover have ne: "take ?n packets \<noteq> []" "[] \<notin> set (take ?n packets @ drop ?n packets)" using ps flush by simp_all
  ultimately obtain qs where
    qs: "stream_loop c serial (int (length hs) + int (length ts)) 0 (take ?n packets) (drop ?n packets) (write_pages (map page_bytes ts) (write_pages (map page_bytes hs) out))
      = Inr (write_pages (map page_bytes qs) (write_pages (map page_bytes ts) (write_pages (map page_bytes hs) out)))"
    "muxed (stream_context serial False) (int (length hs) + int (length ts)) (granules c 0 (length packets)) (payload_lacing packets) (concat packets) qs"
    using stream_loop_ok [of "take ?n packets" "drop ?n packets" c serial] flush unfolding append_take_drop_id by blast
  have "check_packets 0 (take ?n packets) = Inr ()" using ps(2) by (intro check_packets_ok) (auto dest: in_set_takeD)
  then have w: "write_stream c packets serial out = Inr (write_pages (map page_bytes (hs @ ts @ qs)) out)"
    using head tags hs(1) ts(1) qs(1) ne(1) by (simp add: write_stream_def Let_def write_pages_simps)
  have all: "muxed (?tc\<lparr>end_of_stream := True\<rparr>) (0 + int (length hs)) ([0] @ granules c 0 (length packets)) (payload_lacing [tags] @ payload_lacing packets) (tags @ concat packets) (ts @ qs)"
    using muxed_append [OF ts(2) _ _ _ qs(2)] by (simp add: stream_context_def)
  have "muxed (?hc\<lparr>end_of_stream := True\<rparr>) 0 ([0] @ [0] @ granules c 0 (length packets))
      (payload_lacing [head] @ payload_lacing [tags] @ payload_lacing packets) (head @ tags @ concat packets) (hs @ ts @ qs)"
    using muxed_append [OF hs(2) _ _ _ all] by simp
  then show ?thesis using w lac by (intro exI [of _ "hs @ ts @ qs"]) (simp add: stream_context_def)
qed

section \<open>Properties\<close>

text \<open>
  C24: a written stream plays back.  For every list of nonempty packets and every serial, when the two headers
  can be packed and the stream needs at most 2^32 segments, writing succeeds, and so does hashing with the same
  result; the counts and the digest are those of the file; and a reader that parses the file page by page,
  checking every checksum, recovers exactly the identification header, the comment header and the packets in
  order.  The pages are numbered from zero, carry the serial, flag continuations exactly, flag the first page
  and only the last as begin and end, and give the granule position of the last packet that ends on them.
\<close>

theorem ogg_file_reads_back:
  assumes "opus_head c = Inr head" "opus_tags c = Inr tags" "0 < packets_per_flush c"
    and "packets \<noteq> []" "[] \<notin> set packets" "0 \<le> serial" "serial < 2 ^ 32"
    and "length (payload_lacing (head # tags # packets)) \<le> 2 ^ 32"
  shows "\<exists>file pgs. let res = \<lparr>result_pages = length pgs, result_bytes = length file, result_sha256 = sha file\<rparr> in
      write_ogg_opus sha packets serial c = Inr (file, res) \<and> hash_ogg_opus sha packets serial c = Inr res
    \<and> parse_pages file = Some pgs
    \<and> demux (all_lacing pgs) (all_bytes pgs) [] = (head # tags # packets, [])
    \<and> pages_ok serial 0 False True True (0 # 0 # granules c 0 (length packets)) pgs"
proof -
  obtain pgs where w: "write_stream c packets serial no_output = Inr (write_pages (map page_bytes pgs) no_output)"
    and m: "muxed (stream_context serial True) 0 (0 # 0 # granules c 0 (length packets)) (payload_lacing (head # tags # packets))
        (concat (head # tags # packets)) pgs"
    using write_stream_ok [OF assms] by blast
  have v: "validated_single_stream packets serial = Inr packets"
    using assms(4-7) by (cases packets) (auto simp: validated_single_stream_def validate_serial_def)
  have "parse_pages (concat (map page_bytes pgs)) = Some pgs" using m parse_pages_bytes by (simp add: muxed_def)
  moreover have "demux (all_lacing pgs) (all_bytes pgs) [] = (head # tags # packets, [])"
    using m demux_payloads [of "head # tags # packets"] by (simp add: muxed_def)
  ultimately show ?thesis
    using w v m by (intro exI [of _ "concat (map page_bytes pgs)"] exI [of _ pgs])
      (simp add: Let_def write_ogg_opus_def hash_ogg_opus_def write_file_def write_pages_simps no_output_def muxed_def stream_context_def)
qed

theorem ogg_file_reads_back_witness:
  "\<exists>head tags file pgs. opus_head DEFAULT_CONFIG = Inr head \<and> opus_tags DEFAULT_CONFIG = Inr tags
     \<and> write_ogg_opus (\<lambda>_. '''') [[1, 2, 3]] 7 DEFAULT_CONFIG = Inr (file, \<lparr>result_pages = length pgs, result_bytes = length file, result_sha256 = ''''\<rparr>)
     \<and> parse_pages file = Some pgs \<and> demux (all_lacing pgs) (all_bytes pgs) [] = ([head, tags, [1, 2, 3]], [])"
proof -
  obtain head where h: "opus_head DEFAULT_CONFIG = Inr head" "length head = 19"
    by (simp add: opus_head_def DEFAULT_CONFIG_def pack_uint_def pack_short_def ascii_def)
  obtain tags where t: "opus_tags DEFAULT_CONFIG = Inr tags" "length tags = 16"
    by (simp add: opus_tags_def DEFAULT_CONFIG_def pack_uint_def ascii_def)
  have "length (payload_lacing [head, tags, [1, 2, 3]]) \<le> 2 ^ 32" by (simp add: payload_lacing_def lacing_values_def h t)
  then show ?thesis
    using ogg_file_reads_back [OF h(1) t(1), of "[[1, 2, 3]]" 7 "\<lambda>_. ''''"] h t
    by (auto simp: DEFAULT_CONFIG_def Let_def)
qed

end
