(* ===== verification/Clock_Segments.thy ===== *)
theory Clock_Segments
  imports Clock_State
begin

text \<open>
  UTC estimates for sequence ranges (\<open>adapters/clock_segments.py\<close>) and the observations of the retired JSON
  ledgers they are estimated from (\<open>adapters/legacy_clock_import.py\<close>): segments, maps of segments, the projection
  of the clock state, and the overlay of approximate estimates below confirmed segments.

  Numbers are exact rationals, as in \<open>Clock_State\<close>.
\<close>

section \<open>Observations of the old ledger\<close>

datatype segment_error = ClockSegmentError string | ObservationError string | LegacyClockImportError string

record clock_observation =
  obs_version :: int
  obs_id :: string
  causal_order :: int
  evidence_kind :: string
  obs_session :: string
  host_boot_id :: string
  realtime_start :: rat
  realtime_end :: rat
  monotonic_start :: rat
  monotonic_end :: rat
  device_epoch :: int
  info_sequence_min :: int
  info_sequence_max :: int
  obs_operation :: "string option"
  effective_boundary :: "int option"
  obs_role :: string
  parent_id :: "string option"
  raw_timestamp :: "int option"
  raw_timestamp_hash :: "string option"

definition identity_text :: "string \<Rightarrow> bool" where
  "identity_text t \<longleftrightarrow> t \<noteq> [] \<and> length t \<le> 256"

definition validate_identity :: "clock_observation \<Rightarrow> (segment_error, unit) result" where
  "validate_identity row =
     bind_result (require (obs_version row = 1 \<and> evidence_kind row \<in> {''native_trusted'', ''anchored_monotonic''})
       (ObservationError ''clock observation schema is invalid'')) (\<lambda>_.
     bind_result (require (identity_text (obs_id row) \<and> identity_text (obs_session row) \<and> identity_text (host_boot_id row))
       (ObservationError ''clock observation identity is invalid'')) (\<lambda>_.
     require (0 \<le> causal_order row) (ObservationError ''clock observation order is invalid'')))"

definition validate_intervals :: "clock_observation \<Rightarrow> (segment_error, unit) result" where
  "validate_intervals row =
     require (realtime_start row \<le> realtime_end row \<and> monotonic_start row \<le> monotonic_end row)
       (ObservationError ''clock observation interval is reversed'')"

definition validate_sequences :: "clock_observation \<Rightarrow> (segment_error, unit) result" where
  "validate_sequences row =
     bind_result (require (list_all (\<lambda>v. 0 \<le> v \<and> v \<le> 2 ^ 64 - 1) [device_epoch row, info_sequence_min row, info_sequence_max row])
       (ObservationError ''clock observation sequence is invalid'')) (\<lambda>_.
     require (info_sequence_min row \<le> info_sequence_max row) (ObservationError ''clock observation sequence bounds are invalid''))"

definition validate_references :: "clock_observation \<Rightarrow> (segment_error, unit) result" where
  "validate_references row =
     bind_result (require (obs_operation row \<noteq> Some []) (ObservationError ''clock observation operation reference is invalid'')) (\<lambda>_.
     bind_result (require (obs_role row \<in> {''standalone'', ''initial'', ''later''}) (ObservationError ''clock observation role is invalid'')) (\<lambda>_.
     require (parent_id row \<noteq> Some []) (ObservationError ''clock observation parent reference is invalid'')))"

definition validate_raw_evidence :: "clock_observation \<Rightarrow> (segment_error, unit) result" where
  "validate_raw_evidence row =
     bind_result (require (pred_option (\<lambda>v. 0 \<le> v \<and> v \<le> 2 ^ 32 - 1) (raw_timestamp row))
       (ObservationError ''clock observation raw timestamp is invalid'')) (\<lambda>_.
     bind_result (require (pred_option (\<lambda>h. length h = 64 \<and> list_all (\<lambda>c. c \<in> set ''0123456789abcdef'') h) (raw_timestamp_hash row))
       (ObservationError ''clock observation raw timestamp hash is invalid'')) (\<lambda>_.
     require ((raw_timestamp row = None) = (raw_timestamp_hash row = None))
       (ObservationError ''clock observation raw timestamp evidence is incomplete'')))"

definition validate_effective_boundary :: "clock_observation \<Rightarrow> (segment_error, unit) result" where
  "validate_effective_boundary row =
     require (pred_option (\<lambda>b. 0 \<le> b \<and> b \<le> info_sequence_max row) (effective_boundary row))
       (ObservationError ''clock observation effective boundary is invalid'')"

definition validate_observation :: "clock_observation \<Rightarrow> (segment_error, unit) result" where
  "validate_observation row =
     bind_result (validate_identity row) (\<lambda>_.
     bind_result (validate_intervals row) (\<lambda>_.
     bind_result (validate_sequences row) (\<lambda>_.
     bind_result (validate_references row) (\<lambda>_.
     bind_result (validate_raw_evidence row) (\<lambda>_.
     validate_effective_boundary row)))))"

section \<open>Segments\<close>

record clock_segment =
  seg_observation :: string
  seg_start :: int
  seg_next :: int
  seg_offset :: rat
  seg_uncertainty :: rat
  seg_confidence :: string

definition segment_valid :: "clock_segment \<Rightarrow> bool" where
  "segment_valid g \<longleftrightarrow>
     seg_observation g \<noteq> [] \<and> 0 \<le> seg_start g \<and> seg_start g < seg_next g \<and> 0 \<le> seg_uncertainty g
   \<and> seg_confidence g \<in> {''confirmed'', ''approximate''}"

definition new_segment :: "string \<Rightarrow> int \<Rightarrow> int \<Rightarrow> rat \<Rightarrow> rat \<Rightarrow> string \<Rightarrow> (segment_error, clock_segment) result" where
  "new_segment observation start nxt offset uncertainty confidence =
     (let g = \<lparr>seg_observation = observation, seg_start = start, seg_next = nxt, seg_offset = offset,
               seg_uncertainty = uncertainty, seg_confidence = confidence\<rparr>
      in if segment_valid g then Inr g else Inl (ClockSegmentError ''clock segment is invalid''))"

record epoch_membership =
  member_observation :: string
  member_start :: int
  member_next :: int

definition new_epoch_membership :: "string \<Rightarrow> int \<Rightarrow> int \<Rightarrow> (segment_error, epoch_membership) result" where
  "new_epoch_membership observation start nxt =
     (if observation = [] \<or> start < 0 \<or> nxt \<le> start then Inl (ClockSegmentError ''clock epoch membership is invalid'')
      else Inr \<lparr>member_observation = observation, member_start = start, member_next = nxt\<rparr>)"

definition from_confirmed_membership :: "clock_observation \<Rightarrow> epoch_membership \<Rightarrow> (segment_error, clock_segment) result" where
  "from_confirmed_membership observation membership =
     (let midpoint = (realtime_start observation + realtime_end observation) / 2 in
      if evidence_kind observation \<noteq> ''native_trusted'' \<or> member_observation membership \<noteq> obs_id observation
      then Inl (ClockSegmentError ''clock membership does not have a native RTC anchor'')
      else new_segment (obs_id observation) (member_start membership) (member_next membership)
        (midpoint - of_int (device_epoch observation)) ((realtime_end observation - realtime_start observation) / 2 + 1) ''confirmed'')"

definition from_approximate_observation :: "clock_observation \<Rightarrow> int \<Rightarrow> int \<Rightarrow> (segment_error, clock_segment) result" where
  "from_approximate_observation observation start nxt =
     (if evidence_kind observation \<noteq> ''native_trusted'' then Inl (ClockSegmentError ''approximate clock range has no native RTC anchor'')
      else new_segment (obs_id observation) start nxt
        ((realtime_start observation + realtime_end observation) / 2 - of_int (device_epoch observation))
        ((realtime_end observation - realtime_start observation) / 2 + 1) ''approximate'')"

definition segment_utc_for :: "clock_segment \<Rightarrow> int \<Rightarrow> int \<Rightarrow> rat option" where
  "segment_utc_for g sequence timestamp =
     (if \<not> (seg_start g \<le> sequence \<and> sequence < seg_next g) then None else Some (of_int timestamp + seg_offset g))"

section \<open>Maps\<close>

fun pairwise_disjoint :: "clock_segment list \<Rightarrow> bool" where
  "pairwise_disjoint (l # r # gs) = (seg_next l \<le> seg_start r \<and> pairwise_disjoint (r # gs))"
| "pairwise_disjoint _ = True"

text \<open>A \<open>ClockSegmentMap\<close> is its tuple of segments.\<close>

definition new_segment_map :: "clock_segment list \<Rightarrow> (segment_error, clock_segment list) result" where
  "new_segment_map segments =
     (let ordered = sort_key seg_start segments in
      if ordered \<noteq> segments \<or> \<not> pairwise_disjoint ordered then Inl (ClockSegmentError ''clock segments overlap or are unordered'')
      else Inr segments)"

fun map_utc_for :: "clock_segment list \<Rightarrow> int \<Rightarrow> int \<Rightarrow> rat option" where
  "map_utc_for [] sequence timestamp = None"
| "map_utc_for (g # gs) sequence timestamp =
     (case segment_utc_for g sequence timestamp of Some utc \<Rightarrow> Some utc | None \<Rightarrow> map_utc_for gs sequence timestamp)"

definition slice_segment :: "clock_segment \<Rightarrow> int \<Rightarrow> int \<Rightarrow> (segment_error, clock_segment) result" where
  "slice_segment g start fin = new_segment (seg_observation g) start fin (seg_offset g) (seg_uncertainty g) (seg_confidence g)"

definition range_segment :: "clock_range \<Rightarrow> (segment_error, clock_segment) result" where
  "range_segment item =
     (case (range_offset item, range_uncertainty item) of
        (Some offset, Some uncertainty) \<Rightarrow>
          new_segment (range_source item) (range_start item) (range_next item) offset uncertainty
            (if range_confidence item = ''approximate'' then ''approximate'' else ''confirmed'')
      | _ \<Rightarrow> Inl (ClockSegmentError ''unknown range cannot be projected''))"

definition when_result :: "bool \<Rightarrow> (segment_error, clock_segment) result \<Rightarrow> (segment_error, clock_segment list) result" where
  "when_result b r = (if b then bind_result r (\<lambda>g. Inr [g]) else Inr [])"

definition project_range :: "clock_range \<Rightarrow> clock_state \<Rightarrow> (segment_error, clock_segment list) result" where
  "project_range item state =
     bind_result (range_segment item) (\<lambda>segment.
     case clock_intent_of state of
       None \<Rightarrow> Inr [segment]
     | Some intent \<Rightarrow>
         if intent_phase intent \<noteq> ''uncertain'' then Inr [segment]
         else let start = write_sequence_before intent; fin = write_sequence_after intent in
           if range_next item \<le> start \<or> (case fin of None \<Rightarrow> False | Some e \<Rightarrow> e \<le> range_start item) then Inr [segment]
           else
             bind_result (when_result (range_start item < start) (slice_segment segment (range_start item) start)) (\<lambda>l.
             bind_result (case fin of None \<Rightarrow> Inr [] | Some e \<Rightarrow> when_result (e < range_next item) (slice_segment segment e (range_next item))) (\<lambda>r.
             Inr (l @ r))))"

definition segments_from_state :: "clock_state \<Rightarrow> (segment_error, clock_segment list) result" where
  "segments_from_state state =
     bind_result (map_result (\<lambda>item. project_range item state) (filter (\<lambda>item. range_offset item \<noteq> None) (clock_ranges state)))
       (\<lambda>segments. new_segment_map (concat segments))"

section \<open>Estimates below confirmed segments\<close>

definition overlay_item :: "clock_segment \<Rightarrow> clock_segment \<Rightarrow> (segment_error, clock_segment list) result" where
  "overlay_item incoming item =
     (if seg_next item \<le> seg_start incoming \<or> seg_next incoming \<le> seg_start item then Inr [item]
      else
        bind_result (when_result (seg_start item < seg_start incoming) (slice_segment item (seg_start item) (seg_start incoming))) (\<lambda>l.
        bind_result (when_result (seg_next incoming < seg_next item) (slice_segment item (seg_next incoming) (seg_next item))) (\<lambda>r.
        Inr (l @ r))))"

definition overlay :: "clock_segment list \<Rightarrow> clock_segment \<Rightarrow> (segment_error, clock_segment list) result" where
  "overlay segments incoming =
     bind_result (map_result (overlay_item incoming) segments) (\<lambda>parts. Inr (concat parts @ [incoming]))"

text \<open>\<open>{item.observation_id: item for item in observations}\<close>: a later row replaces an earlier one.\<close>

definition by_id :: "clock_observation list \<Rightarrow> string \<rightharpoonup> clock_observation" where
  "by_id observations = map_of (rev (map (\<lambda>o'. (obs_id o', o')) observations))"

definition verified_boundary :: "(string \<rightharpoonup> clock_observation) \<Rightarrow> string set \<Rightarrow> clock_observation \<Rightarrow> (int \<times> int) option" where
  "verified_boundary ids verified_operations item =
     (case (obs_operation item, parent_id item, effective_boundary item) of
        (Some op, Some parent, Some boundary) \<Rightarrow>
          if op \<in> verified_operations \<and> obs_role item = ''later''
             \<and> (case ids parent of None \<Rightarrow> False | Some p \<Rightarrow> obs_role p = ''initial'')
          then Some (causal_order item, boundary) else None
      | _ \<Rightarrow> None)"

definition verified_boundaries :: "clock_observation list \<Rightarrow> string set \<Rightarrow> (int \<times> int) list" where
  "verified_boundaries observations verified_operations =
     List.map_filter (verified_boundary (by_id observations) verified_operations) observations"

definition initial_end :: "clock_observation list \<Rightarrow> clock_observation \<Rightarrow> int" where
  "initial_end observations observation =
     (case find (\<lambda>item. obs_operation item = obs_operation observation \<and> obs_role item = ''later''
        \<and> parent_id item = Some (obs_id observation) \<and> effective_boundary item \<noteq> None) observations of
        None \<Rightarrow> info_sequence_max observation
      | Some later \<Rightarrow>
          (case effective_boundary later of None \<Rightarrow> info_sequence_max observation
           | Some boundary \<Rightarrow> min (info_sequence_max observation) boundary))"

definition later_start :: "clock_observation list \<Rightarrow> clock_observation \<Rightarrow> int" where
  "later_start observations observation =
     (case parent_id observation of
        None \<Rightarrow> info_sequence_min observation
      | Some parent \<Rightarrow>
          if parent = [] then info_sequence_min observation
          else (case by_id observations parent of
             None \<Rightarrow> info_sequence_min observation
           | Some p \<Rightarrow>
               (case effective_boundary observation of
                  Some boundary \<Rightarrow> boundary
                | None \<Rightarrow> max (info_sequence_min observation) (info_sequence_max p))))"

fun cut_boundaries :: "int \<Rightarrow> int \<Rightarrow> int \<Rightarrow> (int \<times> int) list \<Rightarrow> (int \<times> int) option" where
  "cut_boundaries order start fin [] = (if start < fin then Some (start, fin) else None)"
| "cut_boundaries order start fin ((boundary_order, boundary) # bs) =
     (if boundary_order < order \<and> start < boundary
      then if fin \<le> boundary then None else cut_boundaries order (max start boundary) fin bs
      else cut_boundaries order start fin bs)"

definition approximate_bounds :: "clock_observation list \<Rightarrow> (int \<times> int) list \<Rightarrow> clock_observation \<Rightarrow> (int \<times> int) option" where
  "approximate_bounds observations boundaries observation =
     (let fin = (if obs_role observation = ''initial'' then initial_end observations observation else info_sequence_max observation);
          start = (if obs_role observation = ''later'' then later_start observations observation else info_sequence_min observation)
      in cut_boundaries (causal_order observation) start fin boundaries)"

definition approximate_segments ::
  "clock_observation list \<Rightarrow> (int \<times> int) list \<Rightarrow> (segment_error, (int \<times> clock_segment) list) result" where
  "approximate_segments observations boundaries =
     map_result (\<lambda>(observation, start, fin).
         bind_result (from_approximate_observation observation start fin) (\<lambda>g. Inr (causal_order observation, g)))
       (List.map_filter (\<lambda>observation.
          if evidence_kind observation \<noteq> ''native_trusted'' then None
          else map_option (\<lambda>(start, fin). (observation, start, fin)) (approximate_bounds observations boundaries observation)) observations)"

definition segments_with_estimates ::
  "clock_observation list \<Rightarrow> clock_segment list \<Rightarrow> string set \<Rightarrow> (segment_error, clock_segment list) result" where
  "segments_with_estimates observations confirmed verified_operations =
     bind_result (approximate_segments observations (verified_boundaries observations verified_operations)) (\<lambda>estimates.
     if estimates = [] then Inr confirmed
     else
       bind_result (fold_result overlay [] (map snd (sort_key fst estimates))) (\<lambda>segments.
       bind_result (fold_result overlay segments confirmed) (\<lambda>merged.
       new_segment_map (sort_key seg_start merged))))"

section \<open>What a list of segments says of a sequence\<close>

definition seg_covers :: "int \<Rightarrow> clock_segment \<Rightarrow> bool" where
  "seg_covers q g \<longleftrightarrow> seg_start g \<le> q \<and> q < seg_next g"

definition seg_apart :: "clock_segment \<Rightarrow> clock_segment \<Rightarrow> bool" where
  "seg_apart l r \<longleftrightarrow> seg_next l \<le> seg_start r \<or> seg_next r \<le> seg_start l"

definition segments_ok :: "clock_segment list \<Rightarrow> bool" where
  "segments_ok gs \<longleftrightarrow> list_all segment_valid gs \<and> sorted_wrt seg_apart gs"

text \<open>Some segment gives the sequence this offset.\<close>

definition offset_holds :: "clock_segment list \<Rightarrow> int \<Rightarrow> rat \<Rightarrow> bool" where
  "offset_holds gs q v \<longleftrightarrow> (\<exists>g \<in> set gs. seg_covers q g \<and> seg_offset g = v)"

lemma map_utc_for_find: "map_utc_for gs q t = map_option (\<lambda>g. of_int t + seg_offset g) (find (seg_covers q) gs)"
  by (induction gs) (simp_all add: segment_utc_for_def seg_covers_def)

lemma offset_holds_find:
  assumes "sorted_wrt seg_apart gs"
  shows "map_option seg_offset (find (seg_covers q) gs) = Some v \<longleftrightarrow> offset_holds gs q v"
  using assms
proof (induction gs)
  case (Cons g gs)
  have "\<not> seg_covers q x" if "x \<in> set gs" "seg_covers q g" for x
    using Cons.prems that by (auto simp: seg_apart_def seg_covers_def)
  then show ?case using Cons by (auto simp: offset_holds_def)
qed (simp add: offset_holds_def)

lemma map_utc_for_holds:
  assumes "sorted_wrt seg_apart gs"
  shows "map_utc_for gs q t = Some u \<longleftrightarrow> offset_holds gs q (u - of_int t)"
proof -
  have "map_utc_for gs q t = map_option (\<lambda>v. of_int t + v) (map_option seg_offset (find (seg_covers q) gs))"
    by (simp add: map_utc_for_find option.map_comp comp_def)
  then show ?thesis using offset_holds_find [OF assms, of q "u - of_int t"] by (auto simp: algebra_simps)
qed

lemma slice_segment_valid:
  "segment_valid g \<Longrightarrow> 0 \<le> a \<Longrightarrow> a < b \<Longrightarrow> slice_segment g a b = Inr (g\<lparr>seg_start := a, seg_next := b\<rparr>)"
  by (cases g) (simp add: slice_segment_def new_segment_def segment_valid_def)

section \<open>A sorted list of disjoint segments is a map\<close>

lemma seg_apart_sym: "seg_apart l r = seg_apart r l"
  by (auto simp: seg_apart_def)

lemma sorted_wrt_apart_insort:
  "sorted_wrt seg_apart (insort_key f x xs) \<longleftrightarrow> (\<forall>y \<in> set xs. seg_apart x y) \<and> sorted_wrt seg_apart xs"
  by (induction xs) (auto simp: set_insort_key seg_apart_sym)

lemma sorted_wrt_apart_sort: "sorted_wrt seg_apart (sort_key f xs) = sorted_wrt seg_apart xs"
  by (induction xs) (simp_all add: sorted_wrt_apart_insort)

lemma pairwise_disjoint_sorted:
  "list_all segment_valid gs \<Longrightarrow> sorted (map seg_start gs) \<Longrightarrow> sorted_wrt seg_apart gs \<Longrightarrow> pairwise_disjoint gs"
  by (induction gs rule: pairwise_disjoint.induct) (auto simp: seg_apart_def segment_valid_def)

lemma pairwise_disjoint_apart:
  "list_all segment_valid gs \<Longrightarrow> pairwise_disjoint gs \<Longrightarrow> sorted_wrt (\<lambda>l r. seg_next l \<le> seg_start r) gs"
proof (induction gs rule: pairwise_disjoint.induct)
  case (1 l r gs)
  then have "sorted_wrt (\<lambda>l r. seg_next l \<le> seg_start r) (r # gs)" "seg_next l \<le> seg_start r" "seg_start r < seg_next r"
    by (simp_all add: segment_valid_def)
  then show ?case by fastforce
qed simp_all

lemma new_segment_map_ok:
  assumes "list_all segment_valid gs" and "new_segment_map gs = Inr gs'"
  shows "gs' = gs \<and> segments_ok gs"
proof -
  have "gs' = gs" "pairwise_disjoint gs" using assms(2) by (auto simp: new_segment_map_def Let_def split: if_splits)
  then show ?thesis using pairwise_disjoint_apart [OF assms(1)] assms(1)
    by (auto simp: segments_ok_def seg_apart_def elim: sorted_wrt_mono_rel [rotated])
qed

lemma new_segment_map_sorted:
  assumes "segments_ok gs" and "sorted (map seg_start gs)"
  shows "new_segment_map gs = Inr gs"
  using assms pairwise_disjoint_sorted [of gs] by (simp add: new_segment_map_def Let_def segments_ok_def sort_key_id_if_sorted)

lemma segments_ok_sort: "segments_ok (sort_key f gs) = segments_ok gs"
  by (simp add: segments_ok_def sorted_wrt_apart_sort list_all_iff)

lemma offset_holds_sort [simp]: "offset_holds (sort_key f gs) q v = offset_holds gs q v"
  by (simp add: offset_holds_def)

section \<open>Overlay\<close>

text \<open>The parts that survive under an incoming segment.\<close>

definition parts_of :: "clock_segment \<Rightarrow> clock_segment \<Rightarrow> clock_segment list" where
  "parts_of incoming item =
     (if seg_apart item incoming then [item]
      else (if seg_start item < seg_start incoming then [item\<lparr>seg_next := seg_start incoming\<rparr>] else [])
         @ (if seg_next incoming < seg_next item then [item\<lparr>seg_start := seg_next incoming\<rparr>] else []))"

lemma overlay_parts:
  assumes "segment_valid incoming" and "segment_valid item"
  shows "overlay_item incoming item = Inr (parts_of incoming item)"
  using assms slice_segment_valid [OF assms(2), of "seg_start item" "seg_start incoming"]
    slice_segment_valid [OF assms(2), of "seg_next incoming" "seg_next item"]
  by (auto simp: overlay_item_def parts_of_def seg_apart_def when_result_def segment_valid_def)

lemma parts_of_ok:
  assumes "segment_valid incoming" and "segment_valid item"
  shows "list_all segment_valid (parts_of incoming item)" and "sorted_wrt seg_apart (parts_of incoming item)"
    and "p \<in> set (parts_of incoming item) \<Longrightarrow> seg_apart p incoming \<and> seg_offset p = seg_offset item \<and> seg_start item \<le> seg_start p \<and> seg_next p \<le> seg_next item"
    and "(\<exists>p \<in> set (parts_of incoming item). seg_covers q p) \<longleftrightarrow> seg_covers q item \<and> \<not> seg_covers q incoming"
  using assms by (auto simp: parts_of_def seg_apart_def segment_valid_def seg_covers_def split: if_splits)

lemma overlay_valid:
  assumes "segments_ok gs" and "segment_valid incoming"
  shows "overlay gs incoming = Inr (concat (map (parts_of incoming) gs) @ [incoming])"
proof -
  have "map_result (overlay_item incoming) gs = Inr (map (parts_of incoming) gs)"
    using assms by (intro map_result_total) (simp add: overlay_parts segments_ok_def list_all_iff)
  then show ?thesis by (simp add: overlay_def)
qed

lemma apart_within:
  "seg_apart l r \<Longrightarrow> seg_start l \<le> seg_start p \<Longrightarrow> seg_next p \<le> seg_next l \<Longrightarrow> seg_start r \<le> seg_start p' \<Longrightarrow> seg_next p' \<le> seg_next r \<Longrightarrow> seg_apart p p'"
  by (auto simp: seg_apart_def)

lemma parts_apart:
  assumes "segments_ok gs" and "segment_valid incoming"
  shows "sorted_wrt seg_apart (concat (map (parts_of incoming) gs))"
  using assms(1)
proof (induction gs)
  case (Cons g gs)
  have g: "segment_valid g" and rest: "segments_ok gs" "\<forall>x \<in> set gs. seg_apart g x \<and> segment_valid x"
    using Cons.prems by (auto simp: segments_ok_def list_all_iff)
  have "seg_apart p p'" if "p \<in> set (parts_of incoming g)" "x \<in> set gs" "p' \<in> set (parts_of incoming x)" for p p' x
    using that rest(2) parts_of_ok(3) [OF assms(2) g, of p] parts_of_ok(3) [OF assms(2), of x p'] by (meson apart_within)
  then show ?case using Cons.IH [OF rest(1)] parts_of_ok(2) [OF assms(2) g] by (auto simp: sorted_wrt_append)
qed simp

lemma overlay_ok:
  assumes "segments_ok gs" and "segment_valid incoming" and "overlay gs incoming = Inr out"
  shows "segments_ok out"
    and "offset_holds out q v \<longleftrightarrow> (if seg_covers q incoming then v = seg_offset incoming else offset_holds gs q v)"
proof -
  have out: "out = concat (map (parts_of incoming) gs) @ [incoming]" using overlay_valid [OF assms(1,2)] assms(3) by simp
  have valid: "\<forall>g \<in> set gs. segment_valid g" using assms(1) by (simp add: segments_ok_def list_all_iff)
  have "list_all segment_valid (concat (map (parts_of incoming) gs))"
    using valid parts_of_ok(1) [OF assms(2)] by (auto simp: list_all_iff)
  moreover have "\<forall>p \<in> set (concat (map (parts_of incoming) gs)). seg_apart p incoming"
    using valid parts_of_ok(3) [OF assms(2)] by auto
  ultimately show "segments_ok out" using parts_apart [OF assms(1,2)] assms(2) by (simp add: out segments_ok_def sorted_wrt_append)
  have "(\<exists>p \<in> set (parts_of incoming g). seg_covers q p \<and> seg_offset p = v) \<longleftrightarrow> seg_covers q g \<and> \<not> seg_covers q incoming \<and> seg_offset g = v"
    if "g \<in> set gs" for g
    using parts_of_ok(3) [OF assms(2), of g] parts_of_ok(4) [OF assms(2), of g q] that valid by metis
  then have "offset_holds (concat (map (parts_of incoming) gs)) q v \<longleftrightarrow> \<not> seg_covers q incoming \<and> offset_holds gs q v"
    unfolding offset_holds_def set_concat set_map by blast
  then show "offset_holds out q v \<longleftrightarrow> (if seg_covers q incoming then v = seg_offset incoming else offset_holds gs q v)"
    by (auto simp: out offset_holds_def)
qed

text \<open>Overlaying a list lets its last covering segment win.\<close>

lemma overlay_all:
  assumes "segments_ok gs" and "list_all segment_valid incoming"
  shows "\<exists>out. fold_result overlay gs incoming = Inr out \<and> segments_ok out
    \<and> (\<forall>q v. offset_holds out q v \<longleftrightarrow> (case find (seg_covers q) (rev incoming) of Some g \<Rightarrow> v = seg_offset g | None \<Rightarrow> offset_holds gs q v))"
  using assms(2)
proof (induction incoming rule: rev_induct)
  case (snoc g incoming)
  then obtain mid where mid: "fold_result overlay gs incoming = Inr mid" "segments_ok mid"
    "\<forall>q v. offset_holds mid q v \<longleftrightarrow> (case find (seg_covers q) (rev incoming) of Some g \<Rightarrow> v = seg_offset g | None \<Rightarrow> offset_holds gs q v)"
    by auto
  have g: "segment_valid g" using snoc.prems by simp
  obtain out where out: "overlay mid g = Inr out" using overlay_valid [OF mid(2) g] by blast
  then show ?case
    using mid overlay_ok [OF mid(2) g out] by (intro exI [of _ out]) (simp add: fold_result_snoc)
qed (use assms(1) in simp)

text \<open>Where the segments of an overlay come from: a piece differs from its segment in the bounds only.\<close>

definition piece_of :: "clock_segment \<Rightarrow> clock_segment \<Rightarrow> bool" where
  "piece_of p g \<longleftrightarrow> p = g\<lparr>seg_start := seg_start p, seg_next := seg_next p\<rparr> \<and> seg_start g \<le> seg_start p \<and> seg_next p \<le> seg_next g"

definition serves :: "clock_segment list \<Rightarrow> int \<Rightarrow> clock_segment \<Rightarrow> bool" where
  "serves gs q g \<longleftrightarrow> (\<exists>p \<in> set gs. seg_covers q p \<and> piece_of p g)"

lemma piece_of_refl [simp]: "piece_of g g"
  by (simp add: piece_of_def)

lemma piece_of_trans: "piece_of p g \<Longrightarrow> piece_of g h \<Longrightarrow> piece_of p h"
  by (cases p; cases g; cases h) (simp add: piece_of_def)

lemma parts_of_pieces: "segment_valid incoming \<Longrightarrow> segment_valid g \<Longrightarrow> p \<in> set (parts_of incoming g) \<Longrightarrow> piece_of p g"
  by (auto simp: parts_of_def piece_of_def seg_apart_def segment_valid_def split: if_splits)

lemma overlay_pieces:
  assumes "segments_ok gs" and "segment_valid incoming" and "overlay gs incoming = Inr out"
  shows "p \<in> set out \<Longrightarrow> p = incoming \<or> (\<exists>g \<in> set gs. piece_of p g)" and "incoming \<in> set out"
    and "serves gs q g \<Longrightarrow> \<not> seg_covers q incoming \<Longrightarrow> serves out q g"
    and "g \<in> set gs \<Longrightarrow> seg_apart g incoming \<Longrightarrow> g \<in> set out"
proof -
  have out: "out = concat (map (parts_of incoming) gs) @ [incoming]" using overlay_valid [OF assms(1,2)] assms(3) by simp
  have valid: "\<forall>g \<in> set gs. segment_valid g" using assms(1) by (simp add: segments_ok_def list_all_iff)
  show "p \<in> set out \<Longrightarrow> p = incoming \<or> (\<exists>g \<in> set gs. piece_of p g)"
    using valid parts_of_pieces [OF assms(2)] by (auto simp: out)
  show "incoming \<in> set out" by (simp add: out)
  show "g \<in> set gs \<Longrightarrow> seg_apart g incoming \<Longrightarrow> g \<in> set out" by (auto simp: out parts_of_def)
  assume s: "serves gs q g" and c: "\<not> seg_covers q incoming"
  obtain l where l: "l \<in> set gs" "seg_covers q l" "piece_of l g" using s by (auto simp: serves_def)
  then obtain p where "p \<in> set (parts_of incoming l)" "seg_covers q p"
    using parts_of_ok(4) [OF assms(2), of l q] valid c by blast
  moreover from this have "piece_of p g" using l valid parts_of_pieces [OF assms(2), of l p] by (blast intro: piece_of_trans)
  ultimately show "serves out q g" using l(1) unfolding serves_def out by auto
qed

lemma overlay_all_pieces:
  assumes "segments_ok gs" and "list_all segment_valid incoming" and "fold_result overlay gs incoming = Inr out"
  shows "(\<forall>p \<in> set out. \<exists>g \<in> set incoming \<union> set gs. piece_of p g)
    \<and> (\<forall>q g. find (seg_covers q) (rev incoming) = Some g \<longrightarrow> serves out q g)
    \<and> (\<forall>q g. find (seg_covers q) (rev incoming) = None \<longrightarrow> serves gs q g \<longrightarrow> serves out q g)
    \<and> (sorted_wrt seg_apart incoming \<longrightarrow> set incoming \<subseteq> set out)"
  using assms(2,3)
proof (induction incoming arbitrary: out rule: rev_induct)
  case (snoc x incoming)
  then obtain mid where mid: "fold_result overlay gs incoming = Inr mid" "overlay mid x = Inr out"
    by (auto simp: fold_result_snoc bind_result_Inr_iff)
  have ok: "segments_ok mid" using overlay_all [OF assms(1), of incoming] snoc.prems(1) mid(1) by auto
  note step = overlay_pieces [OF ok _ mid(2)]
  have x: "segment_valid x" and xs: "list_all segment_valid incoming" using snoc.prems(1) by simp_all
  have covered: "serves out q x" if "seg_covers q x" for q
    using step(2) [OF x] that by (auto simp: serves_def)
  note IH = snoc.IH [OF xs mid(1)]
  have "\<exists>g \<in> set (incoming @ [x]) \<union> set gs. piece_of p g" if p: "p \<in> set out" for p
    using step(1) [OF x p]
  proof
    assume "\<exists>m \<in> set mid. piece_of p m"
    then obtain m where m: "m \<in> set mid" "piece_of p m" by blast
    then obtain g where "g \<in> set incoming \<union> set gs" "piece_of m g" using IH by blast
    then show ?thesis using piece_of_trans [OF m(2)] by auto
  qed auto
  moreover have "set (incoming @ [x]) \<subseteq> set out" if apart: "sorted_wrt seg_apart (incoming @ [x])"
  proof -
    have "set incoming \<subseteq> set mid" and "\<forall>g \<in> set incoming. seg_apart g x"
      using IH apart by (auto simp: sorted_wrt_append)
    then show ?thesis using step(2,4) [OF x] by auto
  qed
  moreover have "serves out q g" if "find (seg_covers q) (rev (incoming @ [x])) = Some g" for q g
  proof (cases "seg_covers q x")
    case False
    then show ?thesis using IH step(3) [OF x, of q g] that by auto
  qed (use that covered in auto)
  moreover have "serves out q g" if "find (seg_covers q) (rev (incoming @ [x])) = None" "serves gs q g" for q g
  proof -
    have "\<not> seg_covers q x" "find (seg_covers q) (rev incoming) = None" using that(1) by (auto split: if_splits)
    then show ?thesis using IH step(3) [OF x, of q g] that(2) by blast
  qed
  ultimately show ?case by blast
next
  case Nil
  then have "out = gs" by simp
  moreover have "\<exists>g \<in> set gs. piece_of p g" if "p \<in> set gs" for p by (rule bexI [OF piece_of_refl that])
  ultimately show ?case by simp
qed

lemma whole_piece:
  assumes "segments_ok out" and "p \<in> set out" and "g \<in> set out" and "piece_of p g"
  shows "p = g"
proof (rule ccontr)
  assume "p \<noteq> g"
  then have "seg_apart p g" using assms(1-3) seg_apart_sym unfolding segments_ok_def
    by (metis in_set_conv_nth less_irrefl linorder_less_linear sorted_wrt_nth_less)
  moreover have "segment_valid p" using assms(1,2) by (simp add: segments_ok_def list_all_iff)
  ultimately show False using assms(4) by (auto simp: seg_apart_def piece_of_def segment_valid_def)
qed

lemma find_in: "find P xs = Some x \<Longrightarrow> x \<in> set xs \<and> P x"
  by (auto simp: find_Some_iff)

lemma find_rev_ok:
  assumes "segments_ok gs"
  shows "find (seg_covers q) (rev gs) = find (seg_covers q) gs"
proof (cases "find (seg_covers q) gs")
  case None
  then have "find (seg_covers q) (rev gs) = None" by (simp add: find_None_iff)
  with None show ?thesis by simp
next
  case (Some g)
  then obtain h where h: "find (seg_covers q) (rev gs) = Some h" by (metis find_None_iff not_None_eq set_rev)
  have "g \<in> set gs" "h \<in> set gs" "seg_covers q g" "seg_covers q h" using find_in [OF Some] find_in [OF h] by auto
  moreover have "seg_apart g h" if "g \<noteq> h" using that calculation(1,2) assms seg_apart_sym unfolding segments_ok_def
    by (metis in_set_conv_nth linorder_less_linear sorted_wrt_nth_less)
  ultimately have "g = h" by (auto simp: seg_apart_def seg_covers_def)
  with Some h show ?thesis by simp
qed

section \<open>The estimates\<close>

lemma observation_valid_fields:
  assumes "validate_observation row = Inr ()"
  shows "obs_id row \<noteq> []" and "realtime_start row \<le> realtime_end row" and "0 \<le> info_sequence_min row" and "0 \<le> info_sequence_max row"
    and "\<And>b. effective_boundary row = Some b \<Longrightarrow> 0 \<le> b"
  using assms
  by (auto simp: validate_observation_def validate_identity_def validate_intervals_def validate_sequences_def validate_references_def
      validate_raw_evidence_def validate_effective_boundary_def identity_text_def split: if_splits)

lemma cut_boundaries_range: "cut_boundaries order start fin bs = Some (a, b) \<Longrightarrow> start \<le> a \<and> a < b \<and> b = fin"
  by (induction order start fin bs rule: cut_boundaries.induct) (auto split: if_splits)

lemma by_id_in: "by_id observations k = Some row \<Longrightarrow> row \<in> set observations \<and> obs_id row = k"
  by (auto simp: by_id_def dest!: map_of_SomeD)

lemma later_start_nonneg:
  assumes "\<forall>row \<in> set observations. validate_observation row = Inr ()" and "row \<in> set observations"
  shows "0 \<le> later_start observations row"
  using assms observation_valid_fields(3-5) [of row]
  by (auto simp: later_start_def le_max_iff_disj split: option.splits)

lemma approximate_bounds_range:
  assumes "\<forall>row \<in> set observations. validate_observation row = Inr ()" and "row \<in> set observations"
    and "approximate_bounds observations boundaries row = Some (a, b)"
  shows "0 \<le> a \<and> a < b"
  using assms(3) later_start_nonneg [OF assms(1,2)] observation_valid_fields(3) [of row] assms(1,2)
  by (auto simp: approximate_bounds_def Let_def dest!: cut_boundaries_range split: if_splits)

lemma approximate_observation_valid:
  assumes "validate_observation row = Inr ()" and "evidence_kind row = ''native_trusted''" and "0 \<le> a" and "a < b"
  shows "\<exists>g. from_approximate_observation row a b = Inr g \<and> segment_valid g"
  using assms(2-) observation_valid_fields(1,2) [OF assms(1)]
  by (auto simp: from_approximate_observation_def new_segment_def segment_valid_def)

lemma option_eqI: "(\<And>u. x = Some u \<longleftrightarrow> y = Some u) \<Longrightarrow> x = y"
  by (cases x; cases y) auto

lemma map_result_exists:
  assumes "\<forall>x \<in> set xs. \<exists>y. f x = Inr y \<and> P y"
  shows "\<exists>ys. map_result f xs = Inr ys \<and> list_all P ys"
  using assms by (induction xs) fastforce+

lemma approximate_segments_valid:
  assumes "\<forall>row \<in> set observations. validate_observation row = Inr ()"
  shows "\<exists>estimates. approximate_segments observations boundaries = Inr estimates \<and> list_all (\<lambda>e. segment_valid (snd e)) estimates"
  unfolding approximate_segments_def
proof (rule map_result_exists, rule ballI)
  fix x assume x: "x \<in> set (List.map_filter (\<lambda>observation.
          if evidence_kind observation \<noteq> ''native_trusted'' then None
          else map_option (\<lambda>(start, fin). (observation, start, fin)) (approximate_bounds observations boundaries observation)) observations)"
  obtain row a b where row: "x = (row, a, b)" "row \<in> set observations" "evidence_kind row = ''native_trusted''"
      "approximate_bounds observations boundaries row = Some (a, b)"
    using x by (auto simp: List.map_filter_def split: if_splits)
  obtain g where "from_approximate_observation row a b = Inr g" "segment_valid g"
    using approximate_observation_valid [of row a b] approximate_bounds_range [OF assms row(2,4)] assms row(2,3) by blast
  then show "\<exists>y. (case x of (observation, start, fin) \<Rightarrow>
      bind_result (from_approximate_observation observation start fin) (\<lambda>g. Inr (causal_order observation, g))) = Inr y \<and> segment_valid (snd y)"
    by (simp add: row(1))
qed

definition owner :: "clock_segment list \<Rightarrow> (int \<times> clock_segment) list \<Rightarrow> int \<Rightarrow> clock_segment option" where
  "owner confirmed estimates q =
     (case find (seg_covers q) confirmed of
        Some g \<Rightarrow> Some g
      | None \<Rightarrow> find (seg_covers q) (rev (map snd (sort_key fst estimates))))"

definition merges :: "clock_segment list \<Rightarrow> (int \<times> clock_segment) list \<Rightarrow> clock_segment list \<Rightarrow> bool" where
  "merges confirmed estimates merged \<longleftrightarrow>
     set confirmed \<subseteq> set merged
   \<and> (\<forall>p \<in> set merged. p \<in> set confirmed \<or> (\<exists>e \<in> set estimates. piece_of p (snd e)))
   \<and> (\<forall>q. case owner confirmed estimates q of
            Some g \<Rightarrow> serves merged q g
          | None \<Rightarrow> \<not> (\<exists>p \<in> set merged. seg_covers q p))
   \<and> sorted_wrt (\<lambda>l r. seg_next l \<le> seg_start r) merged"

lemma overlay_merges:
  assumes conf: "segments_ok confirmed" and es: "list_all (\<lambda>e. segment_valid (snd e)) estimates"
    and low: "fold_result overlay [] (map snd (sort_key fst estimates)) = Inr low"
    and out: "fold_result overlay low confirmed = Inr out"
  shows "merges confirmed estimates (sort_key seg_start out) \<and> segments_ok (sort_key seg_start out)"
proof -
  let ?es = "map snd (sort_key fst estimates)"
  have valid: "list_all segment_valid ?es" "list_all segment_valid confirmed" "segments_ok ([] :: clock_segment list)"
    using es conf by (simp_all add: list_all_iff segments_ok_def)
  obtain low' where low': "fold_result overlay [] ?es = Inr low'" "segments_ok low'"
      "\<And>q v. offset_holds low' q v \<longleftrightarrow> (case find (seg_covers q) (rev ?es) of Some g \<Rightarrow> v = seg_offset g | None \<Rightarrow> offset_holds [] q v)"
    using overlay_all [OF valid(3,1)] by blast
  then have lo: "segments_ok low" using low by simp
  obtain out' where out': "fold_result overlay low confirmed = Inr out'" "segments_ok out'"
      "\<And>q v. offset_holds out' q v \<longleftrightarrow> (case find (seg_covers q) (rev confirmed) of Some g \<Rightarrow> v = seg_offset g | None \<Rightarrow> offset_holds low q v)"
    using overlay_all [OF lo valid(2)] by blast
  note under = overlay_all_pieces [OF valid(3,1) low] and over = overlay_all_pieces [OF lo valid(2) out]
  have ok: "segments_ok (sort_key seg_start out)" using out' out by (simp add: segments_ok_sort)
  have kept: "set confirmed \<subseteq> set out" using over conf by (simp add: segments_ok_def)
  have origin: "p \<in> set confirmed \<or> (\<exists>e \<in> set estimates. piece_of p (snd e))" if p: "p \<in> set out" for p
  proof -
    obtain g where g: "g \<in> set confirmed \<union> set low" "piece_of p g" using over p by blast
    show ?thesis
    proof (cases "g \<in> set confirmed")
      case True
      then show ?thesis using whole_piece [of out p g] out' out p kept g(2) by auto
    next
      case False
      then have "\<exists>e \<in> set ?es \<union> set []. piece_of g e" using g(1) under by blast
      then show ?thesis using piece_of_trans [OF g(2)] by auto
    qed
  qed
  have owned: "case owner confirmed estimates q of Some g \<Rightarrow> serves out q g | None \<Rightarrow> \<not> (\<exists>p \<in> set out. seg_covers q p)" for q
  proof (cases "find (seg_covers q) confirmed")
    case None
    then have rest: "find (seg_covers q) (rev confirmed) = None" using find_rev_ok [OF conf, of q] by simp
    show ?thesis
    proof (cases "find (seg_covers q) (rev ?es)")
      case None
      then have "\<not> offset_holds out q v" for v
        using rest low'(3) [of q] out'(3) [of q] low low'(1) out out'(1) by (simp add: offset_holds_def)
      then have "\<not> (\<exists>p \<in> set out. seg_covers q p)" by (auto simp: offset_holds_def)
      with None \<open>find (seg_covers q) confirmed = None\<close> show ?thesis by (simp add: owner_def)
    next
      case (Some e)
      then have "serves out q e" using under over rest by blast
      with Some \<open>find (seg_covers q) confirmed = None\<close> show ?thesis by (simp add: owner_def)
    qed
  next
    case (Some g)
    then show ?thesis using over find_rev_ok [OF conf, of q] by (simp add: owner_def)
  qed
  have "pairwise_disjoint (sort_key seg_start out)" "list_all segment_valid (sort_key seg_start out)"
    using ok pairwise_disjoint_sorted [of "sort_key seg_start out"] by (simp_all add: segments_ok_def)
  then have "sorted_wrt (\<lambda>l r. seg_next l \<le> seg_start r) (sort_key seg_start out)" by (rule pairwise_disjoint_apart [rotated])
  moreover have "serves (sort_key seg_start out) = serves out" by (simp add: serves_def fun_eq_iff)
  ultimately show ?thesis using kept origin owned ok by (simp only: merges_def set_sort) blast
qed

lemma merges_utc:
  assumes "merges confirmed estimates merged" and "segments_ok merged"
  shows "map_utc_for merged q t = map_option (\<lambda>g. of_int t + seg_offset g) (owner confirmed estimates q)"
proof -
  have "offset_holds merged q v \<longleftrightarrow> map_option seg_offset (owner confirmed estimates q) = Some v" for v
  proof (cases "owner confirmed estimates q")
    case None
    then show ?thesis using assms(1) by (auto simp: merges_def offset_holds_def dest!: spec [of _ q])
  next
    case (Some g)
    then obtain p where p: "p \<in> set merged" "seg_covers q p" "piece_of p g"
      using assms(1) by (auto simp: merges_def serves_def dest!: spec [of _ q])
    have "seg_offset p = seg_offset g" using p(3) unfolding piece_of_def by (metis clock_segment.select_convs(4) clock_segment.surjective clock_segment.update_convs(2,3))
    then have "offset_holds merged q (seg_offset g)" using p by (auto simp: offset_holds_def)
    then show ?thesis
      using Some offset_holds_find [of merged q] assms(2) by (metis option.map(2) option.inject segments_ok_def)
  qed
  then show ?thesis
    using map_utc_for_holds [of merged q t] assms(2) by (intro option_eqI) (auto simp: segments_ok_def algebra_simps)
qed

text \<open>
  C30: over validated observations and a valid confirmed map the merged map always exists.  It holds every confirmed
  segment unchanged; every other segment of it is a piece of an estimate, with the estimate's observation, offset,
  uncertainty and confidence; and each sequence belongs to a piece of the segment that precedence names: the confirmed
  segment that owns it, else the estimate with the latest causal order among those that cover it, else to none.  The
  segments are ordered and disjoint, and a timestamp is mapped by the offset of that owner.
\<close>

theorem estimates_yield_to_confirmed:
  assumes "\<forall>row \<in> set observations. validate_observation row = Inr ()"
    and "list_all segment_valid confirmed" and "new_segment_map confirmed = Inr confirmed"
  shows "\<exists>estimates merged.
      approximate_segments observations (verified_boundaries observations verified) = Inr estimates
    \<and> segments_with_estimates observations confirmed verified = Inr merged
    \<and> merges confirmed estimates merged
    \<and> (\<forall>q t. map_utc_for merged q t = map_option (\<lambda>g. of_int t + seg_offset g) (owner confirmed estimates q))"
proof -
  obtain estimates where e: "approximate_segments observations (verified_boundaries observations verified) = Inr estimates"
      "list_all (\<lambda>e. segment_valid (snd e)) estimates"
    using approximate_segments_valid [OF assms(1)] by blast
  have conf: "segments_ok confirmed" using new_segment_map_ok [OF assms(2,3)] by simp
  have "\<exists>merged. segments_with_estimates observations confirmed verified = Inr merged \<and> merges confirmed estimates merged \<and> segments_ok merged"
  proof (cases "estimates = []")
    case True
    have "pairwise_disjoint confirmed" using assms(3) by (auto simp: new_segment_map_def Let_def split: if_splits)
    then have "merges confirmed estimates confirmed"
      using True pairwise_disjoint_apart [OF assms(2)] find_in [of "seg_covers q" confirmed for q]
      by (auto simp: merges_def owner_def serves_def find_None_iff split: option.split intro: piece_of_refl)
    then show ?thesis using True e(1) conf by (auto simp: segments_with_estimates_def)
  next
    case False
    let ?es = "map snd (sort_key fst estimates)"
    have "list_all segment_valid ?es" using e(2) by (simp add: list_all_iff)
    then obtain low where low: "fold_result overlay [] ?es = Inr low" "segments_ok low"
      using overlay_all [of "[]" ?es] by (auto simp: segments_ok_def)
    obtain out where out: "fold_result overlay low confirmed = Inr out"
      using overlay_all [OF low(2) assms(2)] by blast
    note m = overlay_merges [OF conf e(2) low(1) out]
    then show ?thesis
      using new_segment_map_sorted [of "sort_key seg_start out"] e(1) False low(1) out by (simp add: segments_with_estimates_def)
  qed
  then show ?thesis using e(1) merges_utc by blast
qed

theorem estimates_yield_to_confirmed_witness:
  "\<exists>merged. segments_with_estimates
      [\<lparr>obs_version = 1, obs_id = ''o'', causal_order = 0, evidence_kind = ''native_trusted'', obs_session = ''s'', host_boot_id = ''b'',
        realtime_start = 100, realtime_end = 102, monotonic_start = 0, monotonic_end = 2, device_epoch = 1, info_sequence_min = 0, info_sequence_max = 10,
        obs_operation = None, effective_boundary = None, obs_role = ''standalone'', parent_id = None, raw_timestamp = None, raw_timestamp_hash = None\<rparr>]
      [\<lparr>seg_observation = ''c'', seg_start = 4, seg_next = 6, seg_offset = 7, seg_uncertainty = 1, seg_confidence = ''confirmed''\<rparr>] {} = Inr merged
    \<and> map_utc_for merged 5 20 = Some 27 \<and> map_utc_for merged 3 20 = Some 120 \<and> map_utc_for merged 12 20 = None"
proof -
  let ?o = "\<lparr>obs_version = 1, obs_id = ''o'', causal_order = 0, evidence_kind = ''native_trusted'', obs_session = ''s'', host_boot_id = ''b'',
        realtime_start = 100, realtime_end = 102, monotonic_start = 0, monotonic_end = 2, device_epoch = 1, info_sequence_min = 0, info_sequence_max = 10,
        obs_operation = None, effective_boundary = None, obs_role = ''standalone'', parent_id = None, raw_timestamp = None, raw_timestamp_hash = None\<rparr>"
  let ?c = "\<lparr>seg_observation = ''c'', seg_start = 4, seg_next = 6, seg_offset = 7, seg_uncertainty = 1, seg_confidence = ''confirmed''\<rparr>"
  have o: "\<forall>row \<in> set [?o]. validate_observation row = Inr ()"
    by (simp add: validate_observation_def validate_identity_def identity_text_def validate_intervals_def validate_sequences_def validate_references_def
      validate_raw_evidence_def validate_effective_boundary_def)
  have c: "list_all segment_valid [?c]" "new_segment_map [?c] = Inr [?c]" by (simp_all add: segment_valid_def new_segment_map_def)
  have "approximate_segments [?o] (verified_boundaries [?o] {}) =
      Inr [(0, \<lparr>seg_observation = ''o'', seg_start = 0, seg_next = 10, seg_offset = 100, seg_uncertainty = 2, seg_confidence = ''approximate''\<rparr>)]"
    by (simp add: approximate_segments_def verified_boundaries_def verified_boundary_def List.map_filter_def approximate_bounds_def
      from_approximate_observation_def new_segment_def segment_valid_def)
  then show ?thesis using estimates_yield_to_confirmed [OF o c, of "{}"] by (auto simp: seg_covers_def owner_def)
qed

section \<open>The projection of the clock state\<close>

text \<open>The sequences that a clock write of unknown outcome leaves undecided.\<close>

definition undecided :: "clock_state \<Rightarrow> int \<Rightarrow> bool" where
  "undecided s q \<longleftrightarrow>
     (case clock_intent_of s of
        None \<Rightarrow> False
      | Some i \<Rightarrow> intent_phase i = ''uncertain'' \<and> write_sequence_before i \<le> q
          \<and> (case write_sequence_after i of None \<Rightarrow> True | Some e \<Rightarrow> q < e))"

lemma range_segment_valid:
  assumes "range_valid r" and "range_offset r = Some offset"
  shows "\<exists>g. range_segment r = Inr g \<and> segment_valid g \<and> seg_start g = range_start r \<and> seg_next g = range_next r \<and> seg_offset g = offset"
  using assms by (cases "range_uncertainty r") (auto simp: range_segment_def new_segment_def segment_valid_def range_valid_def)

definition projects :: "clock_state \<Rightarrow> clock_range \<Rightarrow> clock_segment list \<Rightarrow> bool" where
  "projects s r ps \<longleftrightarrow>
     list_all segment_valid ps \<and> sorted_wrt (\<lambda>a b. seg_next a \<le> seg_start b) ps
   \<and> (\<forall>p \<in> set ps. range_start r \<le> seg_start p \<and> seg_next p \<le> range_next r \<and> Some (seg_offset p) = range_offset r)
   \<and> (\<forall>q. (\<exists>p \<in> set ps. seg_covers q p) \<longleftrightarrow> in_range q r \<and> \<not> undecided s q)"

lemma project_range_projects:
  assumes "range_valid r" and "range_offset r = Some offset" and "pred_option intent_valid (clock_intent_of s)"
  shows "\<exists>ps. project_range r s = Inr ps \<and> projects s r ps"
proof -
  obtain g where g: "range_segment r = Inr g" "segment_valid g" "seg_start g = range_start r" "seg_next g = range_next r" "seg_offset g = offset"
    using range_segment_valid [OF assms(1,2)] by blast
  have rv: "0 \<le> range_start r" "range_start r < range_next r" using assms(1) by (simp_all add: range_valid_def)
  have whole: "projects s r [g]" if "\<And>q. in_range q r \<Longrightarrow> \<not> undecided s q"
    using that g assms(2) by (auto simp: projects_def seg_covers_def in_range_def)
  show ?thesis
  proof (cases "clock_intent_of s")
    case None
    then show ?thesis using g(1) whole by (simp add: project_range_def undecided_def)
  next
    case (Some i)
    let ?b = "write_sequence_before i" and ?e = "write_sequence_after i"
    have iv: "0 \<le> ?b" "\<And>e. ?e = Some e \<Longrightarrow> ?b \<le> e" using assms(3) Some by (auto simp: intent_valid_def)
    consider (certain) "intent_phase i \<noteq> ''uncertain''" | (clear) "range_next r \<le> ?b \<or> (\<exists>e. ?e = Some e \<and> e \<le> range_start r)"
      | (cut) "intent_phase i = ''uncertain''" "?b < range_next r" "\<And>e. ?e = Some e \<Longrightarrow> range_start r < e"
      by force
    then show ?thesis
    proof cases
      case certain
      then show ?thesis using g(1) whole Some by (simp add: project_range_def undecided_def)
    next
      case clear
      then have "\<And>q. in_range q r \<Longrightarrow> \<not> undecided s q"
        using Some by (auto simp: undecided_def in_range_def split: option.splits)
      moreover have "project_range r s = Inr [g]" using clear g(1) Some by (auto simp: project_range_def Let_def)
      ultimately show ?thesis using whole by blast
    next
      case cut
      let ?l = "if range_start r < ?b then [g\<lparr>seg_next := ?b\<rparr>] else []"
      let ?r = "case ?e of None \<Rightarrow> [] | Some e \<Rightarrow> if e < range_next r then [g\<lparr>seg_start := e\<rparr>] else []"
      have l: "when_result (range_start r < ?b) (slice_segment g (range_start r) ?b) = Inr ?l"
        using slice_segment_valid [OF g(2), of "range_start r" ?b] rv(1) by (simp add: when_result_def flip: g(3))
      have rr: "(case ?e of None \<Rightarrow> Inr [] | Some e \<Rightarrow> when_result (e < range_next r) (slice_segment g e (range_next r))) = Inr ?r"
      proof (cases ?e)
        case (Some e)
        then have "0 \<le> e" using iv by force
        with Some show ?thesis using slice_segment_valid [OF g(2), of e "range_next r"] by (simp add: when_result_def flip: g(4))
      qed simp
      have "\<not> (range_next r \<le> ?b \<or> (case ?e of None \<Rightarrow> False | Some e \<Rightarrow> e \<le> range_start r))"
        using cut(2,3) by (force split: option.splits)
      then have "project_range r s = Inr (?l @ ?r)" using l rr g(1) Some cut(1) by (simp add: project_range_def Let_def)
      moreover have "projects s r (?l @ ?r)"
        using g cut iv rv assms(2) Some
        by (cases ?e) (auto simp: projects_def segment_valid_def seg_covers_def in_range_def undecided_def)
      ultimately show ?thesis by blast
    qed
  qed
qed

lemma map_result_all2:
  assumes "\<forall>x \<in> set xs. \<exists>y. f x = Inr y \<and> R x y"
  shows "\<exists>ys. map_result f xs = Inr ys \<and> list_all2 R xs ys"
  using assms by (induction xs) fastforce+

lemma offset_holds_append: "offset_holds (xs @ ys) q v \<longleftrightarrow> offset_holds xs q v \<or> offset_holds ys q v"
  by (auto simp: offset_holds_def)

lemma projects_concat:
  assumes "list_all2 (projects s) rs pss" and "sorted_wrt before rs"
  shows "list_all segment_valid (concat pss) \<and> sorted_wrt (\<lambda>a b. seg_next a \<le> seg_start b) (concat pss)
    \<and> (\<forall>p \<in> set (concat pss). \<exists>r \<in> set rs. range_start r \<le> seg_start p \<and> seg_next p \<le> range_next r)
    \<and> (\<forall>q v. offset_holds (concat pss) q v \<longleftrightarrow> (\<exists>r \<in> set rs. in_range q r \<and> \<not> undecided s q \<and> range_offset r = Some v))"
  using assms
proof (induction rule: list_all2_induct)
  case (Cons r rs ps pss)
  have p: "list_all segment_valid ps" "sorted_wrt (\<lambda>a b. seg_next a \<le> seg_start b) ps"
      "\<And>p. p \<in> set ps \<Longrightarrow> range_start r \<le> seg_start p \<and> seg_next p \<le> range_next r \<and> Some (seg_offset p) = range_offset r"
      "\<And>q. (\<exists>p \<in> set ps. seg_covers q p) \<longleftrightarrow> in_range q r \<and> \<not> undecided s q"
    using Cons.hyps(1) by (simp_all add: projects_def)
  have IH: "list_all segment_valid (concat pss)" "sorted_wrt (\<lambda>a b. seg_next a \<le> seg_start b) (concat pss)"
      "\<And>p. p \<in> set (concat pss) \<Longrightarrow> \<exists>r \<in> set rs. range_start r \<le> seg_start p \<and> seg_next p \<le> range_next r"
      "\<And>q v. offset_holds (concat pss) q v \<longleftrightarrow> (\<exists>r \<in> set rs. in_range q r \<and> \<not> undecided s q \<and> range_offset r = Some v)"
    using Cons by (simp_all del: set_concat)
  have "seg_next a \<le> seg_start b" if "a \<in> set ps" "b \<in> set (concat pss)" for a b
    using p(3) [OF that(1)] IH(3) [OF that(2)] Cons.prems by (fastforce simp: before_def)
  moreover have "offset_holds ps q v \<longleftrightarrow> in_range q r \<and> \<not> undecided s q \<and> range_offset r = Some v" for q v
    using p(3) p(4) [of q] unfolding offset_holds_def by (metis option.inject)
  then have "offset_holds (concat (ps # pss)) q v \<longleftrightarrow> (\<exists>r' \<in> set (r # rs). in_range q r' \<and> \<not> undecided s q \<and> range_offset r' = Some v)" for q v
    using IH(4) [of q v] by (simp add: offset_holds_append)
  ultimately show ?case using p(1-3) IH(1-3) by (auto simp: sorted_wrt_append simp del: set_concat)
qed (simp add: offset_holds_def)

lemma segments_from_state_exact:
  assumes "clock_valid s"
  shows "\<exists>m. segments_from_state s = Inr m
    \<and> (\<forall>q t. map_utc_for m q t =
        (if undecided s q then None
         else (case evidence_at (clock_ranges s) q of
            Some (Some offset, _) \<Rightarrow> Some (of_int t + offset)
          | _ \<Rightarrow> None)))"
proof -
  let ?rs = "filter (\<lambda>item. range_offset item \<noteq> None) (clock_ranges s)"
  have valid: "\<forall>r \<in> set (clock_ranges s). range_valid r" and intent: "pred_option intent_valid (clock_intent_of s)"
    and ord: "sorted_wrt before (clock_ranges s)"
    using assms ordered_iff_before by (auto simp: clock_valid_def list_all_iff)
  obtain pss where pss: "map_result (\<lambda>item. project_range item s) ?rs = Inr pss" "list_all2 (projects s) ?rs pss"
    using map_result_all2 [of ?rs "\<lambda>item. project_range item s" "projects s"] project_range_projects [OF _ _ intent] valid by force
  let ?m = "concat pss"
  have m: "list_all segment_valid ?m" "sorted_wrt (\<lambda>a b. seg_next a \<le> seg_start b) ?m"
      "\<And>q v. offset_holds ?m q v \<longleftrightarrow> (\<exists>r \<in> set ?rs. in_range q r \<and> \<not> undecided s q \<and> range_offset r = Some v)"
    using projects_concat [OF pss(2)] sorted_wrt_filter [OF ord] by blast+
  have ok: "segments_ok ?m" using m(1,2) by (auto simp: segments_ok_def seg_apart_def elim: sorted_wrt_mono_rel [rotated])
  have "sorted_wrt (\<lambda>a b. seg_start a \<le> seg_start b) ?m"
    using m(1,2) by (rule_tac sorted_wrt_mono_rel [OF _ m(2)]) (force simp: list_all_iff segment_valid_def)
  then have "sorted (map seg_start ?m)" by (simp add: sorted_wrt_map)
  then have built: "segments_from_state s = Inr ?m"
    using pss(1) new_segment_map_sorted [OF ok] by (simp add: segments_from_state_def)
  have ap: "sorted_wrt apart (clock_ranges s)" using ord by (auto simp: apart_def elim: sorted_wrt_mono_rel [rotated])
  have "map_utc_for ?m q t = (if undecided s q then None
         else (case evidence_at (clock_ranges s) q of Some (Some offset, _) \<Rightarrow> Some (of_int t + offset) | _ \<Rightarrow> None))" for q t
  proof (rule option_eqI)
    fix u
    have "map_utc_for ?m q t = Some u \<longleftrightarrow> \<not> undecided s q \<and> (\<exists>r \<in> set (clock_ranges s). in_range q r \<and> range_offset r = Some (u - of_int t))"
      using map_utc_for_holds [of ?m q t u] ok m(3) [of q "u - of_int t"] by (auto simp: segments_ok_def)
    also have "(\<exists>r \<in> set (clock_ranges s). in_range q r \<and> range_offset r = Some (u - of_int t))
        \<longleftrightarrow> (\<exists>rest. evidence_at (clock_ranges s) q = Some (Some (u - of_int t), rest))"
    proof -
      have "(\<exists>r \<in> set (clock_ranges s). in_range q r \<and> range_offset r = Some (u - of_int t))
          \<longleftrightarrow> (\<exists>e. covers (clock_ranges s) q e \<and> fst e = Some (u - of_int t))"
        by (auto simp: covers_def evidence_of_def)
      then show ?thesis by (simp add: evidence_at_covers [OF ap])
    qed
    finally show "map_utc_for ?m q t = Some u \<longleftrightarrow> (if undecided s q then None
         else (case evidence_at (clock_ranges s) q of Some (Some offset, _) \<Rightarrow> Some (of_int t + offset) | _ \<Rightarrow> None)) = Some u"
      by (auto simp: algebra_simps split: option.splits)
  qed
  then show ?thesis using built by blast
qed

lemma segments_from_valid_state: "clock_valid s \<Longrightarrow> \<exists>m. segments_from_state s = Inr m"
  using segments_from_state_exact by blast

text \<open>
  C31: projecting a valid clock state always gives a segment map, and the map answers exactly from the state's evidence:
  the UTC of a record is its timestamp plus the offset of the range that holds its sequence, and there is no answer
  outside every mapped range or where a clock write of unknown outcome leaves the sequence undecided.
\<close>

theorem state_projection_exact:
  assumes "clock_valid s"
  shows "\<exists>m. segments_from_state s = Inr m
    \<and> (\<forall>q t. map_utc_for m q t =
        (if undecided s q then None
         else (case evidence_at (clock_ranges s) q of
            Some (Some offset, _) \<Rightarrow> Some (of_int t + offset)
          | _ \<Rightarrow> None)))"
  using assms by (rule segments_from_state_exact)

theorem state_projection_exact_witness:
  "\<exists>m. segments_from_state \<lparr>clock_ranges = [\<lparr>range_start = 0, range_next = 10, range_offset = Some 5, range_uncertainty = Some 1, range_confidence = ''confirmed'', range_source = ''a''\<rparr>],
      clock_intent_of = Some \<lparr>operation_id = ''op'', intent_phase = ''uncertain'', observed_epoch = 0, target_epoch = 0, host_midpoint = 0, write_sequence_before = 4, write_sequence_after = Some 6\<rparr>,
      clock_anchor_of = None, causal_uncertainty = []\<rparr> = Inr m
    \<and> map_utc_for m 3 100 = Some 105 \<and> map_utc_for m 5 100 = None \<and> map_utc_for m 6 100 = Some 105 \<and> map_utc_for m 10 100 = None"
proof -
  let ?s = "\<lparr>clock_ranges = [\<lparr>range_start = 0, range_next = 10, range_offset = Some 5, range_uncertainty = Some 1, range_confidence = ''confirmed'', range_source = ''a''\<rparr>],
      clock_intent_of = Some \<lparr>operation_id = ''op'', intent_phase = ''uncertain'', observed_epoch = 0, target_epoch = 0, host_midpoint = 0, write_sequence_before = 4, write_sequence_after = Some 6\<rparr>,
      clock_anchor_of = None, causal_uncertainty = []\<rparr>"
  have "clock_valid ?s" by (simp add: clock_valid_def range_valid_def intent_valid_def)
  then show ?thesis
    using state_projection_exact [of ?s] by (auto simp: undecided_def evidence_at_def in_range_def evidence_of_def)
qed

end
