(* ===== verification/Public_Audio.thy ===== *)
theory Public_Audio
  imports Python_Values "HOL-Library.List_Lexorder" "HOL-Library.Char_ord"
begin

text \<open>
  The public packet timeline and its manifest (\<open>domain/public_audio_v2.py\<close>): the projection of frozen record
  labels to packet coordinates, the validation of a projection before it is serialized, the artifact
  identifier, and the parser of acknowledgements.

  Fields that the code types as integers, strings and booleans have those types here; the uncertainty, which
  it checks at run time, is a Python value.  The digest and the JSON text of a value are parameters.
\<close>

section \<open>Data\<close>

datatype public_error = PublicValueError string

record frozen_public_time =
  time_quality :: string
  time_seconds :: int
  utc_uncertainty :: py_value
  causal_membership :: string
  comparable_to_previous :: bool

record frozen_record_projection =
  record_packets :: int
  record_time :: frozen_public_time
  boundary_before :: "string set"

record timeline_span =
  packet_start :: int
  packet_next :: int
  span_quality :: string
  span_seconds :: int
  span_uncertainty :: py_value

record public_boundary =
  at_packet :: int
  boundary_facts :: "string list"

record public_projection =
  projected_packets :: int
  timeline :: "timeline_span list"
  boundaries :: "public_boundary list"

definition UINT32_MAX :: int where "UINT32_MAX = 0xFFFFFFFF"
definition UINT64_MAX :: int where "UINT64_MAX = 0xFFFFFFFFFFFFFFFF"

definition BOUNDARY_FACTS :: "string set" where
  "BOUNDARY_FACTS = {''source_loss'', ''time_incomparable''}"

definition QUALITIES :: "string set" where
  "QUALITIES = {''known'', ''approximate'', ''unknown''}"

section \<open>Projection\<close>

definition public_uint :: "int \<Rightarrow> int \<Rightarrow> string \<Rightarrow> bool \<Rightarrow> (public_error, unit) result" where
  "public_uint value maximum name positive =
     require (of_bool positive \<le> value \<and> value \<le> maximum) (PublicValueError (name @ '' must be a '' @ (if positive then ''positive '' else []) @ ''unsigned integer''))"

text \<open>A finite number that is neither a bool nor negative.\<close>

definition nonnegative_finite :: "py_value \<Rightarrow> bool" where
  "nonnegative_finite v = (case finite_number v of None \<Rightarrow> False | Some q \<Rightarrow> 0 \<le> q)"

definition validated_record_projection ::
  "frozen_record_projection \<Rightarrow> (public_error, frozen_public_time \<times> string set) result" where
  "validated_record_projection record =
     (let time = record_time record in
      bind_result (public_uint (record_packets record) UINT64_MAX ''record packet_count'' False) (\<lambda>_.
      bind_result (require (time_quality time \<in> QUALITIES) (PublicValueError ''invalid public time quality'')) (\<lambda>_.
      bind_result (public_uint (time_seconds time) UINT32_MAX ''record seconds'' False) (\<lambda>_.
      bind_result (require (causal_membership time \<noteq> []) (PublicValueError ''causal_membership must be nonempty'')) (\<lambda>_.
      bind_result
        (if time_quality time = ''unknown''
         then require (utc_uncertainty time = PyNone) (PublicValueError ''unknown public times cannot have UTC uncertainty'')
         else require (nonnegative_finite (utc_uncertainty time)) (PublicValueError ''public time uncertainty must be finite and nonnegative'')) (\<lambda>_.
      bind_result (require (boundary_before record \<subseteq> BOUNDARY_FACTS) (PublicValueError ''invalid public boundary fact'')) (\<lambda>_.
      Inr (time, boundary_before record \<union> (if comparable_to_previous time then {} else {''time_incomparable''})))))))))"

text \<open>\<open>boundary_facts.setdefault(packet, set()).update(facts)\<close> on a dict in insertion order.\<close>

fun update_facts :: "int \<Rightarrow> string set \<Rightarrow> (int \<times> string set) list \<Rightarrow> (int \<times> string set) list" where
  "update_facts packet facts [] = [(packet, facts)]"
| "update_facts packet facts ((q, g) # d) = (if q = packet then (q, g \<union> facts) # d else (q, g) # update_facts packet facts d)"

text \<open>The label that neighbouring records compare; numbers compare by value.\<close>

type_synonym label_key = "string \<times> int \<times> rat option \<times> string \<times> bool"

definition time_key :: "frozen_public_time \<Rightarrow> label_key" where
  "time_key t = (time_quality t, time_seconds t, finite_number (utc_uncertainty t), causal_membership t, comparable_to_previous t)"

record projection_state =
  spans :: "timeline_span list"
  fact_table :: "(int \<times> string set) list"
  packet_index :: int
  previous_key :: "label_key option"
  pending_boundary :: bool

definition extend_spans :: "projection_state \<Rightarrow> frozen_public_time \<Rightarrow> int \<Rightarrow> timeline_span list" where
  "extend_spans s time next_packet =
     (if spans s \<noteq> [] \<and> Some (time_key time) = previous_key s \<and> \<not> pending_boundary s
      then butlast (spans s) @ [(last (spans s))\<lparr>packet_next := next_packet\<rparr>]
      else spans s @ [\<lparr>packet_start = packet_index s, packet_next = next_packet, span_quality = time_quality time,
                       span_seconds = time_seconds time, span_uncertainty = utc_uncertainty time\<rparr>])"

definition project_record :: "projection_state \<Rightarrow> frozen_record_projection \<Rightarrow> (public_error, projection_state) result" where
  "project_record s0 record =
     bind_result (validated_record_projection record) (\<lambda>(time, facts).
       let s = (if facts \<noteq> {} then s0\<lparr>fact_table := update_facts (packet_index s0) facts (fact_table s0), pending_boundary := True\<rparr> else s0) in
       if record_packets record = 0 then Inr s
       else if UINT64_MAX - packet_index s < record_packets record
         then Inl (PublicValueError ''projected packet_count exceeds unsigned 64-bit range'')
       else let next_packet = packet_index s + record_packets record in
         Inr (s\<lparr>spans := extend_spans s time next_packet, packet_index := next_packet, previous_key := Some (time_key time),
               pending_boundary := False\<rparr>))"

definition project_public_timeline :: "frozen_record_projection list \<Rightarrow> (public_error, public_projection) result" where
  "project_public_timeline records =
     bind_result (fold_result project_record
        \<lparr>spans = [], fact_table = [], packet_index = 0, previous_key = None, pending_boundary = False\<rparr> records) (\<lambda>s.
       if packet_index s = 0 then Inl (PublicValueError ''public projection must contain packets'')
       else Inr \<lparr>projected_packets = packet_index s, timeline = spans s,
                 boundaries = map (\<lambda>(position, facts). \<lparr>at_packet = position, boundary_facts = sorted_list_of_set facts\<rparr>)
                   (sort_key fst (fact_table s))\<rparr>)"

section \<open>Manifest\<close>

definition is_hex_digit :: "char \<Rightarrow> bool" where
  "is_hex_digit c \<longleftrightarrow> c \<in> set ''0123456789abcdef''"

definition is_digest :: "string \<Rightarrow> bool" where
  "is_digest s \<longleftrightarrow> length s = 64 \<and> list_all is_hex_digit s"

definition require_digest :: "string \<Rightarrow> string \<Rightarrow> (public_error, string) result" where
  "require_digest value name = (if is_digest value then Inr value else Inl (PublicValueError (name @ '' must be lowercase SHA-256 hex'')))"

fun manifest_timeline :: "int \<Rightarrow> int \<Rightarrow> timeline_span list \<Rightarrow> (public_error, py_value list) result" where
  "manifest_timeline count expected_start [] =
     (if expected_start \<noteq> count then Inl (PublicValueError ''timeline must exhaustively cover packet_count'') else Inr [])"
| "manifest_timeline count expected_start (sp # rest) =
     bind_result (public_uint (packet_start sp) UINT64_MAX ''packet_start'' False) (\<lambda>_.
     bind_result (public_uint (packet_next sp) UINT64_MAX ''packet_next'' True) (\<lambda>_.
     bind_result (require (packet_start sp = expected_start \<and> packet_start sp < packet_next sp)
        (PublicValueError ''timeline must cover positive contiguous packet ranges'')) (\<lambda>_.
     bind_result (require (span_quality sp \<in> QUALITIES) (PublicValueError ''invalid timeline quality'')) (\<lambda>_.
     bind_result (public_uint (span_seconds sp) UINT32_MAX ''seconds'' False) (\<lambda>_.
     bind_result
       (if span_quality sp = ''unknown''
        then bind_result (require (span_uncertainty sp = PyNone) (PublicValueError ''unknown timeline spans cannot have UTC uncertainty'')) (\<lambda>_.
          Inr (PyDict [(''packets'', PyList [PyInt (packet_start sp), PyInt (packet_next sp)]), (''quality'', PyStr ''unknown''),
                       (''source_seconds'', PyInt (span_seconds sp))]))
        else bind_result (require (nonnegative_finite (span_uncertainty sp)) (PublicValueError ''known timeline uncertainty must be finite and nonnegative'')) (\<lambda>_.
          Inr (PyDict [(''packets'', PyList [PyInt (packet_start sp), PyInt (packet_next sp)]), (''quality'', PyStr (span_quality sp)),
                       (''unix_seconds'', PyInt (span_seconds sp)), (''utc_uncertainty_seconds'', span_uncertainty sp)]))) (\<lambda>entry.
     bind_result (manifest_timeline count (packet_next sp) rest) (\<lambda>entries. Inr (entry # entries))))))))"

fun manifest_boundaries :: "int \<Rightarrow> int \<Rightarrow> public_boundary list \<Rightarrow> (public_error, py_value list) result" where
  "manifest_boundaries count prior_position [] = Inr []"
| "manifest_boundaries count prior_position (b # rest) =
     bind_result (public_uint (at_packet b) count ''at_packet'' False) (\<lambda>_.
     bind_result (require (prior_position < at_packet b) (PublicValueError ''boundary positions must be unique and sorted'')) (\<lambda>_.
     bind_result (require (boundary_facts b \<noteq> [] \<and> distinct (boundary_facts b)) (PublicValueError ''boundary facts must be nonempty and unique'')) (\<lambda>_.
     bind_result (require (sort (boundary_facts b) = boundary_facts b \<and> set (boundary_facts b) \<subseteq> BOUNDARY_FACTS)
        (PublicValueError ''boundary facts must be known and sorted'')) (\<lambda>_.
     bind_result (manifest_boundaries count (at_packet b) rest) (\<lambda>entries.
     Inr (PyDict [(''at_packet'', PyInt (at_packet b)), (''facts'', PyList (map PyStr (boundary_facts b)))] # entries))))))"

definition manifest_value :: "string \<Rightarrow> int \<Rightarrow> string \<Rightarrow> public_projection \<Rightarrow> (public_error, py_value) result" where
  "manifest_value artifact_id order audio_sha256 projection =
     bind_result (require_digest artifact_id ''artifact_id'') (\<lambda>_.
     bind_result (require_digest audio_sha256 ''audio_sha256'') (\<lambda>_.
     bind_result (public_uint order UINT64_MAX ''order'' False) (\<lambda>_.
     bind_result (public_uint (projected_packets projection) UINT64_MAX ''packet_count'' True) (\<lambda>_.
     bind_result (manifest_timeline (projected_packets projection) 0 (timeline projection)) (\<lambda>spans.
     bind_result (manifest_boundaries (projected_packets projection) (-1) (boundaries projection)) (\<lambda>bs.
     Inr (PyDict [(''format'', PyStr ''omi-audio-v2''), (''id'', PyStr artifact_id), (''order'', PyInt order),
        (''audio_sha256'', PyStr audio_sha256), (''packet_count'', PyInt (projected_packets projection)),
        (''timeline'', PyList spans), (''boundaries'', PyList bs)])))))))"

definition canonical_manifest ::
  "(py_value \<Rightarrow> bytes) \<Rightarrow> string \<Rightarrow> int \<Rightarrow> string \<Rightarrow> public_projection \<Rightarrow> (public_error, bytes) result" where
  "canonical_manifest dumps artifact_id order audio_sha256 projection =
     bind_result (manifest_value artifact_id order audio_sha256 projection) (\<lambda>v. Inr (dumps v @ [10]))"

section \<open>Identifiers\<close>

fun hex_value :: "char \<Rightarrow> nat" where
  "hex_value c = (let n = of_char c :: nat in if n < 58 then n - 48 else n - 87)"

fun from_hex :: "string \<Rightarrow> bytes" where
  "from_hex (a # b # cs) = word_of_nat (16 * hex_value a + hex_value b) # from_hex cs"
| "from_hex _ = []"

definition ID_DOMAIN :: bytes where
  "ID_DOMAIN = map (\<lambda>c. word_of_nat (of_char c)) ''omi-audio-v2-id'' @ [0]"

definition artifact_preimage :: "bytes \<Rightarrow> int \<Rightarrow> string \<Rightarrow> string \<Rightarrow> bytes" where
  "artifact_preimage stage_nonce order config_sha256 descriptor_sha256 =
     ID_DOMAIN @ stage_nonce @ to_bytes_big 8 order @ from_hex config_sha256 @ from_hex descriptor_sha256"

definition derive_artifact_id ::
  "(bytes \<Rightarrow> string) \<Rightarrow> bytes \<Rightarrow> int \<Rightarrow> string \<Rightarrow> string \<Rightarrow> (public_error, string) result" where
  "derive_artifact_id sha256_hex stage_nonce order config_sha256 descriptor_sha256 =
     bind_result (require (length stage_nonce = 32) (PublicValueError ''stage_nonce must contain 32 bytes'')) (\<lambda>_.
     bind_result (public_uint order UINT64_MAX ''order'' False) (\<lambda>_.
     bind_result (require_digest config_sha256 ''config_sha256'') (\<lambda>_.
     bind_result (require_digest descriptor_sha256 ''descriptor_sha256'') (\<lambda>_.
     Inr (sha256_hex (artifact_preimage stage_nonce order config_sha256 descriptor_sha256))))))"

section \<open>Acknowledgements\<close>

definition digest_field :: "py_value \<Rightarrow> string \<Rightarrow> (public_error, string) result" where
  "digest_field v name =
     (case v of PyStr s \<Rightarrow> require_digest s name | _ \<Rightarrow> Inl (PublicValueError (name @ '' must be lowercase SHA-256 hex'')))"

fun parse_acknowledgements :: "string set \<Rightarrow> py_value list \<Rightarrow> (public_error, (string \<times> string) list) result" where
  "parse_acknowledgements seen [] = Inr []"
| "parse_acknowledgements seen (entry # entries) =
     (case entry of
        PyDict entry_fields \<Rightarrow>
          if set (map fst entry_fields) \<noteq> {''id'', ''audio_sha256''}
          then Inl (PublicValueError ''acknowledgement entries must contain exactly id and audio_sha256'')
          else
            bind_result (digest_field (dict_get entry_fields ''id'') ''id'') (\<lambda>artifact_id.
            bind_result (digest_field (dict_get entry_fields ''audio_sha256'') ''audio_sha256'') (\<lambda>audio_digest.
            if artifact_id \<in> seen then Inl (PublicValueError ''duplicate acknowledgement id'')
            else bind_result (parse_acknowledgements (insert artifact_id seen) entries) (\<lambda>rest.
              Inr ((artifact_id, audio_digest) # rest))))
      | _ \<Rightarrow> Inl (PublicValueError ''acknowledgement entries must contain exactly id and audio_sha256''))"

definition parse_v2_acknowledged :: "py_value \<Rightarrow> (public_error, (string \<times> string) list) result" where
  "parse_v2_acknowledged value =
     (case value of
        PyDict d \<Rightarrow>
          (case dict_get d ''acknowledged'' of
             PyList entries \<Rightarrow> parse_acknowledgements {} entries
           | _ \<Rightarrow> Inl (PublicValueError ''acknowledged must be a list''))
      | _ \<Rightarrow> Inl (PublicValueError ''checkpoint must be a mapping''))"

section \<open>What a projection says of its records\<close>

text \<open>The label of every single packet, as the records give it and as the spans give it.\<close>

type_synonym packet_label = "string \<times> int \<times> rat option"

definition packet_labels :: "frozen_record_projection list \<Rightarrow> packet_label list" where
  "packet_labels rs = concat (map (\<lambda>r. replicate (nat (record_packets r))
     (time_quality (record_time r), time_seconds (record_time r), finite_number (utc_uncertainty (record_time r)))) rs)"

definition span_labels :: "timeline_span list \<Rightarrow> packet_label list" where
  "span_labels sps = concat (map (\<lambda>sp. replicate (nat (packet_next sp - packet_start sp))
     (span_quality sp, span_seconds sp, finite_number (span_uncertainty sp))) sps)"

text \<open>The boundary facts that the records place before packet \<open>q\<close>.\<close>

definition record_facts :: "frozen_record_projection \<Rightarrow> string set" where
  "record_facts r = boundary_before r \<union> (if comparable_to_previous (record_time r) then {} else {''time_incomparable''})"

fun facts_from :: "int \<Rightarrow> frozen_record_projection list \<Rightarrow> int \<Rightarrow> string set" where
  "facts_from pos [] q = {}"
| "facts_from pos (r # rs) q = (if q = pos then record_facts r else {}) \<union> facts_from (pos + record_packets r) rs q"

text \<open>Spans that follow one another from \<open>a\<close> to \<open>b\<close>, none of them empty.\<close>

fun contiguous :: "int \<Rightarrow> timeline_span list \<Rightarrow> int \<Rightarrow> bool" where
  "contiguous a [] b \<longleftrightarrow> a = b"
| "contiguous a (sp # sps) b \<longleftrightarrow> packet_start sp = a \<and> a < packet_next sp \<and> contiguous (packet_next sp) sps b"

abbreviation packet_sum :: "frozen_record_projection list \<Rightarrow> int" where
  "packet_sum rs \<equiv> sum_list (map record_packets rs)"

section \<open>The loop invariant\<close>

definition table_facts :: "(int \<times> string set) list \<Rightarrow> int \<Rightarrow> string set" where
  "table_facts d q = (case map_of d q of None \<Rightarrow> {} | Some g \<Rightarrow> g)"

definition span_ok :: "timeline_span \<Rightarrow> bool" where
  "span_ok sp \<longleftrightarrow> span_quality sp \<in> QUALITIES \<and> 0 \<le> span_seconds sp \<and> span_seconds sp \<le> UINT32_MAX
     \<and> (if span_quality sp = ''unknown'' then span_uncertainty sp = PyNone else nonnegative_finite (span_uncertainty sp))"

definition table_ok :: "int \<Rightarrow> (int \<times> string set) list \<Rightarrow> bool" where
  "table_ok limit d \<longleftrightarrow> sorted_wrt (<) (map fst d)
     \<and> (\<forall>(q, g) \<in> set d. 0 \<le> q \<and> q \<le> limit \<and> g \<noteq> {} \<and> g \<subseteq> BOUNDARY_FACTS)"

definition label_inv :: "frozen_record_projection list \<Rightarrow> projection_state \<Rightarrow> bool" where
  "label_inv rs s \<longleftrightarrow>
     packet_index s = packet_sum rs \<and> packet_index s \<le> UINT64_MAX
   \<and> contiguous 0 (spans s) (packet_index s)
   \<and> span_labels (spans s) = packet_labels rs
   \<and> list_all span_ok (spans s)
   \<and> (\<forall>k. previous_key s = Some k \<longrightarrow> spans s \<noteq> [] \<longrightarrow>
        (fst k, fst (snd k), fst (snd (snd k)))
          = (span_quality (last (spans s)), span_seconds (last (spans s)), finite_number (span_uncertainty (last (spans s)))))"

definition table_inv :: "frozen_record_projection list \<Rightarrow> projection_state \<Rightarrow> bool" where
  "table_inv rs s \<longleftrightarrow>
     table_ok (packet_index s) (fact_table s)
   \<and> (\<forall>q. table_facts (fact_table s) q = facts_from 0 rs q)
   \<and> (pending_boundary s \<longleftrightarrow> packet_index s \<in> fst ` set (fact_table s))
   \<and> (\<forall>sp \<in> set (spans s). \<forall>q \<in> fst ` set (fact_table s). q \<le> packet_start sp \<or> packet_next sp \<le> q)"

lemma contiguous_snoc: "contiguous a (sps @ [sp]) b \<longleftrightarrow>
    contiguous a sps (packet_start sp) \<and> packet_start sp < packet_next sp \<and> b = packet_next sp"
  by (induction sps arbitrary: a) auto

lemma contiguous_mono: "contiguous a sps b \<Longrightarrow> a \<le> b"
  by (induction sps arbitrary: a) force+

lemma contiguous_in: "contiguous a sps b \<Longrightarrow> sp \<in> set sps \<Longrightarrow> a \<le> packet_start sp \<and> packet_start sp < packet_next sp \<and> packet_next sp \<le> b"
  by (induction sps arbitrary: a) (auto dest: contiguous_mono, fastforce)

lemma facts_from_snoc: "facts_from pos (rs @ [r]) q = facts_from pos rs q \<union> (if q = pos + packet_sum rs then record_facts r else {})"
  by (induction rs arbitrary: pos) (auto simp: add.assoc)

lemma map_of_update_facts: "map_of (update_facts p f d) = (map_of d)(p \<mapsto> table_facts d p \<union> f)"
  by (induction d) (auto simp: fun_eq_iff table_facts_def)

lemma table_facts_update: "table_facts (update_facts p f d) q = table_facts d q \<union> (if q = p then f else {})"
  by (auto simp: table_facts_def map_of_update_facts)

lemma keys_update_facts: "fst ` set (update_facts p f d) = insert p (fst ` set d)"
  by (simp add: dom_map_of_conv_image_fst [symmetric] map_of_update_facts)

lemma update_facts_order:
  "sorted_wrt (<) (map fst d) \<Longrightarrow> \<forall>q \<in> fst ` set d. q \<le> p \<Longrightarrow> sorted_wrt (<) (map fst (update_facts p f d))"
proof (induction d)
  case (Cons x d)
  obtain q g where x: "x = (q, g)" by (cases x)
  have "fst ` set (update_facts p f d) = insert p (fst ` set d)" by (rule keys_update_facts)
  with Cons x show ?case by fastforce
qed simp

lemma update_facts_in:
  "(q, g) \<in> set (update_facts p f d) \<Longrightarrow> (q, g) \<in> set d \<or> (q = p \<and> (g = f \<or> (\<exists>h. (p, h) \<in> set d \<and> g = h \<union> f)))"
proof (induction d)
  case (Cons x d)
  obtain a b where x: "x = (a, b)" by (cases x)
  show ?case
  proof (cases "a = p")
    case True
    with Cons.prems x have "(q, g) = (p, b \<union> f) \<or> (q, g) \<in> set d" by simp
    with True x show ?thesis by fastforce
  next
    case False
    with Cons.prems x have "(q, g) = (a, b) \<or> (q, g) \<in> set (update_facts p f d)" by simp
    with Cons.IH x show ?thesis by fastforce
  qed
qed simp

lemma table_ok_update:
  assumes "table_ok p d" and "0 \<le> p" and "f \<noteq> {}" and "f \<subseteq> BOUNDARY_FACTS"
  shows "table_ok p (update_facts p f d)"
  unfolding table_ok_def
proof (intro conjI)
  have "\<forall>q \<in> fst ` set d. q \<le> p" using assms(1) by (auto simp: table_ok_def)
  then show "sorted_wrt (<) (map fst (update_facts p f d))"
    using assms(1) by (intro update_facts_order) (simp_all add: table_ok_def)
  show "\<forall>(q, g) \<in> set (update_facts p f d). 0 \<le> q \<and> q \<le> p \<and> g \<noteq> {} \<and> g \<subseteq> BOUNDARY_FACTS"
    using assms by (fastforce simp: table_ok_def dest: update_facts_in)
qed

lemma table_ok_weaken: "table_ok p d \<Longrightarrow> p \<le> p' \<Longrightarrow> table_ok p' d"
  by (fastforce simp: table_ok_def)

lemma validated_record:
  assumes "validated_record_projection r = Inr (time, facts)"
  shows "time = record_time r" and "facts = record_facts r" and "0 \<le> record_packets r" and "record_packets r \<le> UINT64_MAX"
    and "facts \<subseteq> BOUNDARY_FACTS"
    and "span_ok \<lparr>packet_start = a, packet_next = b, span_quality = time_quality time, span_seconds = time_seconds time, span_uncertainty = utc_uncertainty time\<rparr>"
  using assms
  by (auto simp: validated_record_projection_def Let_def public_uint_def record_facts_def span_ok_def BOUNDARY_FACTS_def split: if_splits)

lemma span_labels_snoc: "span_labels (sps @ [sp]) = span_labels sps @
    replicate (nat (packet_next sp - packet_start sp)) (span_quality sp, span_seconds sp, finite_number (span_uncertainty sp))"
  by (simp add: span_labels_def)

lemma packet_labels_snoc: "packet_labels (rs @ [r]) = packet_labels rs @
    replicate (nat (record_packets r)) (time_quality (record_time r), time_seconds (record_time r), finite_number (utc_uncertainty (record_time r)))"
  by (simp add: packet_labels_def)

text \<open>A record's facts go to the current position.\<close>

definition noted :: "string set \<Rightarrow> projection_state \<Rightarrow> projection_state" where
  "noted facts s = (if facts \<noteq> {} then s\<lparr>fact_table := update_facts (packet_index s) facts (fact_table s), pending_boundary := True\<rparr> else s)"

lemma noted_simps [simp]:
  "spans (noted facts s) = spans s" "packet_index (noted facts s) = packet_index s" "previous_key (noted facts s) = previous_key s"
  by (simp_all add: noted_def)

lemma label_inv_noted [simp]: "label_inv rs (noted facts s) \<longleftrightarrow> label_inv rs s"
  by (simp add: label_inv_def)

lemma noted_inv:
  assumes "label_inv rs s" and "table_inv rs s" and "record_facts r \<subseteq> BOUNDARY_FACTS"
  shows "table_inv (rs @ [r]) (noted (record_facts r) s)"
  unfolding table_inv_def
proof (intro conjI allI ballI)
  let ?t = "noted (record_facts r) s"
  have idx: "packet_index s = packet_sum rs" "contiguous 0 (spans s) (packet_index s)"
    using assms(1) unfolding label_inv_def by blast+
  note t = assms(2) [unfolded table_inv_def]
  show "table_ok (packet_index ?t) (fact_table ?t)"
    using t contiguous_mono [OF idx(2)] assms(3) by (simp add: noted_def table_ok_update)
  show "table_facts (fact_table ?t) q = facts_from 0 (rs @ [r]) q" for q
    using t idx(1) by (auto simp: noted_def table_facts_update facts_from_snoc)
  show "pending_boundary ?t \<longleftrightarrow> packet_index ?t \<in> fst ` set (fact_table ?t)"
    using t by (simp add: noted_def keys_update_facts)
  show "q \<le> packet_start sp \<or> packet_next sp \<le> q" if "sp \<in> set (spans ?t)" "q \<in> fst ` set (fact_table ?t)" for sp q
    using t contiguous_in [OF idx(2), of sp] that by (auto simp: noted_def keys_update_facts split: if_splits)
qed

text \<open>Its packets extend the last span only when no boundary lies between them.\<close>

definition advanced :: "frozen_public_time \<Rightarrow> int \<Rightarrow> projection_state \<Rightarrow> projection_state" where
  "advanced time next_packet s = s\<lparr>spans := extend_spans s time next_packet, packet_index := next_packet,
     previous_key := Some (time_key time), pending_boundary := False\<rparr>"

lemma advanced_labels:
  assumes "label_inv rs s" and "validated_record_projection r = Inr (time, facts)" and "0 < record_packets r"
    and "record_packets r \<le> UINT64_MAX - packet_index s"
  shows "label_inv (rs @ [r]) (advanced time (packet_index s + record_packets r) s)"
proof -
  note v = validated_record [OF assms(2)]
  let ?new = "\<lparr>packet_start = packet_index s, packet_next = packet_index s + record_packets r, span_quality = time_quality time,
                       span_seconds = time_seconds time, span_uncertainty = utc_uncertainty time\<rparr>"
  have inv: "packet_index s = packet_sum rs" "contiguous 0 (spans s) (packet_index s)" "span_labels (spans s) = packet_labels rs"
      "list_all span_ok (spans s)"
      "\<forall>k. previous_key s = Some k \<longrightarrow> spans s \<noteq> [] \<longrightarrow> (fst k, fst (snd k), fst (snd (snd k)))
          = (span_quality (last (spans s)), span_seconds (last (spans s)), finite_number (span_uncertainty (last (spans s))))"
    using assms(1) unfolding label_inv_def by blast+
  show ?thesis
  proof (cases "spans s \<noteq> [] \<and> Some (time_key time) = previous_key s \<and> \<not> pending_boundary s")
    case True
    define old where "old = butlast (spans s)"
    define l where "l = last (spans s)"
    have sp: "spans s = old @ [l]" using True by (simp add: old_def l_def)
    have l: "contiguous 0 old (packet_start l)" "packet_start l < packet_next l" "packet_next l = packet_index s"
      using inv(2) by (simp_all add: sp contiguous_snoc)
    have key: "(span_quality l, span_seconds l, finite_number (span_uncertainty l)) = (time_quality time, time_seconds time, finite_number (utc_uncertainty time))"
      using inv(5) [rule_format, of "time_key time"] True by (simp add: sp time_key_def)
    have "nat (packet_index s + record_packets r - packet_start l) = nat (packet_index s - packet_start l) + nat (record_packets r)"
      using l assms(3) by simp
    then have "span_labels (old @ [l\<lparr>packet_next := packet_index s + record_packets r\<rparr>]) = packet_labels (rs @ [r])"
      using inv(3) key l(3) v(1) by (simp add: sp span_labels_snoc packet_labels_snoc replicate_add)
    moreover have "extend_spans s time (packet_index s + record_packets r) = old @ [l\<lparr>packet_next := packet_index s + record_packets r\<rparr>]"
      using True unfolding extend_spans_def old_def l_def by simp
    ultimately show ?thesis
      using inv(1,4) key l assms(3,4) by (simp add: advanced_def label_inv_def sp contiguous_snoc span_ok_def time_key_def)
  next
    case False
    then have "extend_spans s time (packet_index s + record_packets r) = spans s @ [?new]"
      unfolding extend_spans_def by (simp only: if_False)
    then show ?thesis
      using inv v(1) v(6) [of "packet_index s" "packet_index s + record_packets r"] assms(3,4)
      by (simp add: advanced_def label_inv_def span_labels_snoc packet_labels_snoc contiguous_snoc time_key_def)
  qed
qed

lemma extend_spans_in:
  assumes "contiguous 0 (spans s) (packet_index s)" and "sp \<in> set (extend_spans s time n)"
  shows "sp \<in> set (spans s) \<or> packet_start sp = packet_index s
    \<or> (\<not> pending_boundary s \<and> (\<exists>l \<in> set (spans s). packet_start sp = packet_start l \<and> packet_next l = packet_index s))"
proof (cases "spans s" rule: rev_cases)
  case (snoc old l)
  then show ?thesis using assms by (auto simp: extend_spans_def contiguous_snoc split: if_splits)
qed (use assms in \<open>simp add: extend_spans_def\<close>)

lemma advanced_table:
  assumes "label_inv rs s" and "table_inv rs' s" and "packet_index s < n"
  shows "table_inv rs' (advanced time n s)"
proof -
  have c: "contiguous 0 (spans s) (packet_index s)" using assms(1) unfolding label_inv_def by blast
  note t = assms(2) [unfolded table_inv_def]
  have below: "q \<le> packet_index s" if "q \<in> fst ` set (fact_table s)" for q
    using t that by (auto simp: table_ok_def)
  have "q \<le> packet_start sp \<or> packet_next sp \<le> q" if "sp \<in> set (extend_spans s time n)" "q \<in> fst ` set (fact_table s)" for sp q
    using extend_spans_in [OF c that(1)] t below [OF that(2)] that(2) by force
  moreover have "n \<notin> fst ` set (fact_table s)" using below assms(3) by force
  ultimately show ?thesis
    using t assms(3) table_ok_weaken [of "packet_index s" "fact_table s" n] by (simp add: advanced_def table_inv_def)
qed

lemma projected_step:
  assumes "label_inv rs s \<and> table_inv rs s" and "project_record s r = Inr s'"
  shows "label_inv (rs @ [r]) s' \<and> table_inv (rs @ [r]) s'"
proof -
  obtain time facts where v: "validated_record_projection r = Inr (time, facts)"
    using assms(2) by (auto simp: project_record_def bind_result_Inr_iff)
  note vr = validated_record [OF v]
  let ?s = "noted (record_facts r) s"
  have t: "table_inv (rs @ [r]) ?s" using assms(1) vr(2,5) by (intro noted_inv) simp_all
  have l: "label_inv rs ?s" using assms(1) by simp
  from assms(2) v vr(2) consider "record_packets r = 0" "s' = ?s"
    | "record_packets r \<noteq> 0" "record_packets r \<le> UINT64_MAX - packet_index s" "s' = advanced time (packet_index s + record_packets r) ?s"
    by (auto simp: project_record_def Let_def advanced_def noted_def split: if_splits)
  then show ?thesis
  proof cases
    case 1
    then have same: "packet_labels (rs @ [r]) = packet_labels rs" "packet_sum (rs @ [r]) = packet_sum rs" by (simp_all add: packet_labels_snoc)
    have "label_inv (rs @ [r]) ?s" using l unfolding label_inv_def same .
    then show ?thesis using t 1(2) by blast
  next
    case 2
    then show ?thesis
      using t advanced_labels [OF l v] advanced_table [OF l t] vr(3) by simp
  qed
qed

lemma projected_records:
  assumes "project_public_timeline records = Inr p"
  obtains s where "label_inv records s" and "table_inv records s" and "0 < packet_index s"
    and "p = \<lparr>projected_packets = packet_index s, timeline = spans s,
       boundaries = map (\<lambda>(position, facts). \<lparr>at_packet = position, boundary_facts = sorted_list_of_set facts\<rparr>) (fact_table s)\<rparr>"
proof -
  let ?init = "\<lparr>spans = [], fact_table = [], packet_index = 0, previous_key = None, pending_boundary = False\<rparr>"
  obtain s where s: "fold_result project_record ?init records = Inr s" "packet_index s \<noteq> 0"
    and p: "p = \<lparr>projected_packets = packet_index s, timeline = spans s,
       boundaries = map (\<lambda>(position, facts). \<lparr>at_packet = position, boundary_facts = sorted_list_of_set facts\<rparr>) (sort_key fst (fact_table s))\<rparr>"
    using assms by (auto simp: project_public_timeline_def bind_result_Inr_iff split: if_splits)
  have inv: "label_inv records s \<and> table_inv records s"
    using s(1)
  proof (rule fold_result_keeps [where P = "\<lambda>rs s. label_inv rs s \<and> table_inv rs s"])
    show "label_inv [] ?init \<and> table_inv [] ?init"
      by (simp add: label_inv_def table_inv_def table_ok_def table_facts_def span_labels_def packet_labels_def UINT64_MAX_def)
  qed (rule projected_step)
  have "sorted (map fst (fact_table s))"
    using inv by (auto simp: table_inv_def table_ok_def dest: strict_sorted_imp_sorted)
  then have "sort_key fst (fact_table s) = fact_table s" by (simp add: sort_key_id_if_sorted)
  moreover have "0 < packet_index s" using inv s(2) contiguous_mono [of 0 "spans s" "packet_index s"] by (auto simp: label_inv_def)
  ultimately show thesis using that inv p by auto
qed

lemma facts_in_table:
  assumes "table_ok n d"
  shows "(\<exists>b \<in> set (map (\<lambda>(position, facts). \<lparr>at_packet = position, boundary_facts = sorted_list_of_set facts\<rparr>) d). at_packet b = q \<and> f \<in> set (boundary_facts b))
    \<longleftrightarrow> f \<in> table_facts d q"
proof -
  have dist: "distinct (map fst d)" using assms by (auto simp: table_ok_def strict_sorted_iff)
  have fin: "finite g" if "(q, g) \<in> set d" for g
    using that assms finite_subset [of g BOUNDARY_FACTS] by (auto simp: table_ok_def BOUNDARY_FACTS_def)
  have "f \<in> table_facts d q \<longleftrightarrow> (\<exists>g. (q, g) \<in> set d \<and> f \<in> g)"
  proof (cases "map_of d q")
    case None
    then show ?thesis by (simp add: table_facts_def) (metis map_of_eq_None_iff image_eqI fst_conv)
  next
    case (Some g)
    then show ?thesis using dist by (simp add: table_facts_def) (metis map_of_is_SomeI option.inject map_of_SomeD)
  qed
  also have "\<dots> \<longleftrightarrow> (\<exists>g. (q, g) \<in> set d \<and> f \<in> set (sorted_list_of_set g))"
    using fin by auto
  finally show ?thesis by force
qed

lemma public_projection_exact_parts:
  assumes "project_public_timeline records = Inr p"
  shows "projected_packets p = sum_list (map record_packets records)"
    and "contiguous 0 (timeline p) (projected_packets p)"
    and "span_labels (timeline p) = packet_labels records"
    and "sorted_wrt (<) (map at_packet (boundaries p))"
    and "\<And>q f. (\<exists>b \<in> set (boundaries p). at_packet b = q \<and> f \<in> set (boundary_facts b)) \<longleftrightarrow> f \<in> facts_from 0 records q"
    and "\<And>sp b. sp \<in> set (timeline p) \<Longrightarrow> b \<in> set (boundaries p) \<Longrightarrow> \<not> (packet_start sp < at_packet b \<and> at_packet b < packet_next sp)"
proof -
  obtain s where l: "label_inv records s" and t: "table_inv records s"
    and p: "p = \<lparr>projected_packets = packet_index s, timeline = spans s,
       boundaries = map (\<lambda>(position, facts). \<lparr>at_packet = position, boundary_facts = sorted_list_of_set facts\<rparr>) (fact_table s)\<rparr>"
    using projected_records [OF assms] by metis
  note l = l [unfolded label_inv_def] and t = t [unfolded table_inv_def]
  show "projected_packets p = sum_list (map record_packets records)" "contiguous 0 (timeline p) (projected_packets p)"
      "span_labels (timeline p) = packet_labels records"
    using l unfolding p public_projection.simps by blast+
  have "map at_packet (boundaries p) = map fst (fact_table s)" by (simp add: p case_prod_beta)
  then show "sorted_wrt (<) (map at_packet (boundaries p))" using t by (simp add: table_ok_def)
  show "(\<exists>b \<in> set (boundaries p). at_packet b = q \<and> f \<in> set (boundary_facts b)) \<longleftrightarrow> f \<in> facts_from 0 records q" for q f
    using facts_in_table [of "packet_index s" "fact_table s" q f] t by (simp add: p)
  show "\<not> (packet_start sp < at_packet b \<and> at_packet b < packet_next sp)" if "sp \<in> set (timeline p)" "b \<in> set (boundaries p)" for sp b
    using t that by (force simp: p)
qed

text \<open>
  C26: a successful projection has one packet for every packet of the records, its spans follow one another
  without gap or overlap from packet 0 to the packet count, and expanding them gives every packet the quality,
  the seconds and the uncertainty of the record it came from.  Boundary positions are strictly increasing and
  carry, at every position, exactly the facts that the records placed there, an incomparable time included; no
  span crosses a boundary.
\<close>

theorem public_projection_exact:
  assumes "project_public_timeline records = Inr p"
  shows "projected_packets p = sum_list (map record_packets records)
    \<and> contiguous 0 (timeline p) (projected_packets p)
    \<and> span_labels (timeline p) = packet_labels records
    \<and> sorted_wrt (<) (map at_packet (boundaries p))
    \<and> (\<forall>q f. (\<exists>b \<in> set (boundaries p). at_packet b = q \<and> f \<in> set (boundary_facts b)) \<longleftrightarrow> f \<in> facts_from 0 records q)
    \<and> (\<forall>sp \<in> set (timeline p). \<forall>b \<in> set (boundaries p). \<not> (packet_start sp < at_packet b \<and> at_packet b < packet_next sp))"
  by (intro conjI allI ballI public_projection_exact_parts [OF assms])

theorem public_projection_exact_witness:
  "\<exists>p. project_public_timeline
     [\<lparr>record_packets = 2, record_time = \<lparr>time_quality = ''known'', time_seconds = 100, utc_uncertainty = PyInt 1, causal_membership = ''a'', comparable_to_previous = True\<rparr>, boundary_before = {}\<rparr>,
      \<lparr>record_packets = 3, record_time = \<lparr>time_quality = ''known'', time_seconds = 100, utc_uncertainty = PyInt 1, causal_membership = ''a'', comparable_to_previous = True\<rparr>, boundary_before = {}\<rparr>,
      \<lparr>record_packets = 1, record_time = \<lparr>time_quality = ''unknown'', time_seconds = 7, utc_uncertainty = PyNone, causal_membership = ''b'', comparable_to_previous = False\<rparr>, boundary_before = {''source_loss''}\<rparr>] = Inr p
   \<and> span_labels (timeline p) = replicate 5 (''known'', 100, Some 1) @ [(''unknown'', 7, None)]
   \<and> contiguous 0 (timeline p) 6"
proof -
  let ?rs = "[\<lparr>record_packets = 2, record_time = \<lparr>time_quality = ''known'', time_seconds = 100, utc_uncertainty = PyInt 1, causal_membership = ''a'', comparable_to_previous = True\<rparr>, boundary_before = {}\<rparr>,
      \<lparr>record_packets = 3, record_time = \<lparr>time_quality = ''known'', time_seconds = 100, utc_uncertainty = PyInt 1, causal_membership = ''a'', comparable_to_previous = True\<rparr>, boundary_before = {}\<rparr>,
      \<lparr>record_packets = 1, record_time = \<lparr>time_quality = ''unknown'', time_seconds = 7, utc_uncertainty = PyNone, causal_membership = ''b'', comparable_to_previous = False\<rparr>, boundary_before = {''source_loss''}\<rparr>]"
  note evaluate = project_public_timeline_def project_record_def validated_record_projection_def public_uint_def UINT32_MAX_def UINT64_MAX_def
      QUALITIES_def BOUNDARY_FACTS_def nonnegative_finite_def extend_spans_def time_key_def
  obtain p where p: "project_public_timeline ?rs = Inr p" by (simp add: evaluate)
  have "projected_packets p = sum_list (map record_packets ?rs)" "contiguous 0 (timeline p) (projected_packets p)"
      "span_labels (timeline p) = packet_labels ?rs"
    using public_projection_exact [OF p] by blast+
  with p show ?thesis by (simp add: packet_labels_def numeral_eq_Suc)
qed

lemma manifest_timeline_accepts:
  "contiguous a sps b \<Longrightarrow> 0 \<le> a \<Longrightarrow> b \<le> UINT64_MAX \<Longrightarrow> list_all span_ok sps \<Longrightarrow> \<exists>entries. manifest_timeline b a sps = Inr entries"
proof (induction sps arbitrary: a)
  case (Cons sp sps)
  then obtain entries where "manifest_timeline b (packet_next sp) sps = Inr entries" by force
  moreover have "packet_next sp \<le> b" using Cons.prems(1) contiguous_mono by auto
  ultimately show ?case using Cons.prems by (auto simp: public_uint_def span_ok_def)
qed simp

lemma manifest_boundaries_accepts:
  "sorted_wrt (<) (map fst d) \<Longrightarrow> \<forall>(q, g) \<in> set d. a < q \<and> 0 \<le> q \<and> q \<le> n \<and> g \<noteq> {} \<and> g \<subseteq> BOUNDARY_FACTS \<Longrightarrow>
    \<exists>entries. manifest_boundaries n a (map (\<lambda>(position, facts). \<lparr>at_packet = position, boundary_facts = sorted_list_of_set facts\<rparr>) d) = Inr entries"
proof (induction d arbitrary: a)
  case (Cons x d)
  obtain q g where x: "x = (q, g)" by (cases x)
  have "\<forall>(r, h) \<in> set d. q < r \<and> 0 \<le> r \<and> r \<le> n \<and> h \<noteq> {} \<and> h \<subseteq> BOUNDARY_FACTS"
    using Cons.prems x by fastforce
  with Cons.IH [of q] Cons.prems(1) obtain entries
    where e: "manifest_boundaries n q (map (\<lambda>(position, facts). \<lparr>at_packet = position, boundary_facts = sorted_list_of_set facts\<rparr>) d) = Inr entries"
    by auto
  have "finite g" using Cons.prems(2) x finite_subset [of g BOUNDARY_FACTS] by (auto simp: BOUNDARY_FACTS_def)
  with Cons.prems(2) x e show ?case by (simp add: public_uint_def sorted_sort_id)
qed simp

text \<open>
  C27: what the projection returns is what the manifest accepts: for well-formed digests and an order of 64 bits the
  serializer raises none of its errors on it.
\<close>

theorem projection_is_publishable:
  assumes "project_public_timeline records = Inr p" and "is_digest artifact_id" and "is_digest audio_sha256"
    and "0 \<le> order" and "order \<le> UINT64_MAX"
  shows "\<exists>body. canonical_manifest dumps artifact_id order audio_sha256 p = Inr body"
proof -
  obtain s where l: "label_inv records s" and t: "table_inv records s" and n: "0 < packet_index s"
    and p: "p = \<lparr>projected_packets = packet_index s, timeline = spans s,
       boundaries = map (\<lambda>(position, facts). \<lparr>at_packet = position, boundary_facts = sorted_list_of_set facts\<rparr>) (fact_table s)\<rparr>"
    using projected_records [OF assms(1)] by metis
  have m: "packet_index s \<le> UINT64_MAX" and c: "contiguous 0 (spans s) (packet_index s)" "list_all span_ok (spans s)"
    using l unfolding label_inv_def by blast+
  obtain es where "manifest_timeline (packet_index s) 0 (spans s) = Inr es"
    using manifest_timeline_accepts [OF c(1) order.refl m c(2)] by blast
  moreover obtain bs where "manifest_boundaries (packet_index s) (-1) (boundaries p) = Inr bs"
    using manifest_boundaries_accepts [of "fact_table s" "-1" "packet_index s"] t by (fastforce simp: p table_inv_def table_ok_def)
  ultimately show ?thesis
    using assms(2-) n m by (simp add: p canonical_manifest_def manifest_value_def require_digest_def public_uint_def)
qed

theorem projection_is_publishable_witness:
  "\<exists>body. bind_result (project_public_timeline
     [\<lparr>record_packets = 2, record_time = \<lparr>time_quality = ''unknown'', time_seconds = 7, utc_uncertainty = PyNone, causal_membership = ''b'', comparable_to_previous = False\<rparr>, boundary_before = {''source_loss''}\<rparr>])
     (canonical_manifest (\<lambda>_. []) (replicate 64 (CHR ''a'')) 3 (replicate 64 (CHR ''0''))) = Inr body"
proof -
  obtain p where p: "project_public_timeline
     [\<lparr>record_packets = 2, record_time = \<lparr>time_quality = ''unknown'', time_seconds = 7, utc_uncertainty = PyNone, causal_membership = ''b'', comparable_to_previous = False\<rparr>, boundary_before = {''source_loss''}\<rparr>] = Inr p"
    by (simp add: project_public_timeline_def project_record_def validated_record_projection_def public_uint_def UINT32_MAX_def UINT64_MAX_def
      QUALITIES_def BOUNDARY_FACTS_def extend_spans_def time_key_def)
  show ?thesis
    using projection_is_publishable [OF p, of "replicate 64 (CHR ''a'')" "replicate 64 (CHR ''0'')" 3 "\<lambda>_. []"]
    by (simp add: p is_digest_def is_hex_digit_def UINT64_MAX_def list_all_iff)
qed

section \<open>Acknowledgements are parsed exactly\<close>

definition acknowledges :: "py_value \<Rightarrow> string \<times> string \<Rightarrow> bool" where
  "acknowledges entry a \<longleftrightarrow> is_digest (fst a) \<and> is_digest (snd a)
     \<and> (\<exists>d. entry = PyDict d \<and> set (map fst d) = {''id'', ''audio_sha256''}
         \<and> dict_get d ''id'' = PyStr (fst a) \<and> dict_get d ''audio_sha256'' = PyStr (snd a))"

lemma digest_field_iff: "digest_field v name = Inr s \<longleftrightarrow> v = PyStr s \<and> is_digest s"
  by (auto simp: digest_field_def require_digest_def split: py_value.splits if_splits)

lemma parse_entry_iff:
  "parse_acknowledgements seen (entry # entries) = Inr as \<longleftrightarrow>
     (\<exists>a rest. as = a # rest \<and> acknowledges entry a \<and> fst a \<notin> seen \<and> parse_acknowledgements (insert (fst a) seen) entries = Inr rest)"
proof (cases entry)
  case (PyDict d)
  then show ?thesis
    by (auto simp: bind_result_Inr_iff digest_field_iff acknowledges_def split: if_splits)
qed (auto simp: acknowledges_def)

lemma parse_acknowledgements_iff:
  "parse_acknowledgements seen entries = Inr as \<longleftrightarrow>
     list_all2 acknowledges entries as \<and> distinct (map fst as) \<and> fst ` set as \<inter> seen = {}"
proof (induction entries arbitrary: seen as)
  case (Cons e es)
  show ?case
    by (cases as) (auto simp: parse_entry_iff Cons.IH simp del: parse_acknowledgements.simps(2))
qed auto

text \<open>
  The acknowledgement parser accepts exactly a mapping whose \<open>acknowledged\<close> field is a list of entries with
  the two keys \<open>id\<close> and \<open>audio_sha256\<close>, both lowercase SHA-256 digests, with no identifier twice, and returns
  those pairs in order; every other value is an error, whatever other fields the consumer keeps at the root.
\<close>

theorem acknowledgements_exact:
  "parse_v2_acknowledged v = Inr as \<longleftrightarrow>
     (\<exists>d entries. v = PyDict d \<and> dict_get d ''acknowledged'' = PyList entries
        \<and> list_all2 acknowledges entries as \<and> distinct (map fst as))"
proof (cases v)
  case (PyDict d)
  then show ?thesis
    by (cases "dict_get d ''acknowledged''") (auto simp: parse_v2_acknowledged_def parse_acknowledgements_iff)
qed (auto simp: parse_v2_acknowledged_def)

section \<open>The identifier preimage\<close>

lemma from_hex_length: "length (from_hex s) = length s div 2"
  by (induction s rule: from_hex.induct) simp_all

lemma hex_value_inj: "is_hex_digit a \<Longrightarrow> is_hex_digit b \<Longrightarrow> hex_value a = hex_value b \<Longrightarrow> a = b"
  by (auto simp: is_hex_digit_def)

lemma hex_value_less: "is_hex_digit a \<Longrightarrow> hex_value a < 16"
  by (auto simp: is_hex_digit_def)

lemma nibbles_inj: "16 * x + y = 16 * x' + y' \<Longrightarrow> y < 16 \<Longrightarrow> y' < 16 \<Longrightarrow> x = x' \<and> y = (y' :: nat)"
proof -
  assume e: "16 * x + y = 16 * x' + y'" and "y < 16" "y' < 16"
  then have "(16 * x + y) div 16 = x" "(16 * x' + y') div 16 = x'" by simp_all
  with e show ?thesis by simp
qed

lemma from_hex_inj:
  "list_all is_hex_digit s \<Longrightarrow> list_all is_hex_digit t \<Longrightarrow> even (length s) \<Longrightarrow> length s = length t \<Longrightarrow> from_hex s = from_hex t \<Longrightarrow> s = t"
proof (induction s arbitrary: t rule: from_hex.induct)
  case (1 a b cs)
  then obtain a' b' ds where t: "t = a' # b' # ds" by (metis length_Suc_conv length_Cons)
  have lt: "hex_value a < 16" "hex_value b < 16" "hex_value a' < 16" "hex_value b' < 16"
    using "1.prems" t hex_value_less by auto
  have "(word_of_nat (16 * hex_value a + hex_value b) :: byte) = word_of_nat (16 * hex_value a' + hex_value b')"
    using "1.prems"(5) t by (simp del: hex_value.simps)
  then have "take_bit LENGTH(8) (16 * hex_value a + hex_value b) = take_bit LENGTH(8) (16 * hex_value a' + hex_value b')"
    by (simp only: word_of_nat_eq_iff)
  then have "16 * hex_value a + hex_value b = 16 * hex_value a' + hex_value b'"
    using lt by (simp add: take_bit_nat_def del: hex_value.simps)
  then have "hex_value a = hex_value a'" "hex_value b = hex_value b'" using nibbles_inj lt(2,4) by blast+
  then have "a = a'" "b = b'" using "1.prems"(1,2) t hex_value_inj by (simp_all del: hex_value.simps)
  moreover have "cs = ds" using "1.IH" [of ds] "1.prems" t by (simp del: hex_value.simps)
  ultimately show ?case using t by simp
qed auto

text \<open>Different publications have different preimages: only a SHA-256 collision can join their identifiers.\<close>

lemma artifact_preimage_inj:
  assumes "length n = 32" and "length n' = 32" and "0 \<le> i" and "i \<le> UINT64_MAX" and "0 \<le> i'" and "i' \<le> UINT64_MAX"
    and "is_digest c" and "is_digest c'" and "is_digest d" and "is_digest d'"
    and "artifact_preimage n i c d = artifact_preimage n' i' c' d'"
  shows "n = n' \<and> i = i' \<and> c = c' \<and> d = d'"
proof -
  have "n = n'" "to_bytes_big 8 i = to_bytes_big 8 i'" "from_hex c = from_hex c'" "from_hex d = from_hex d'"
    using assms by (auto simp: artifact_preimage_def from_hex_length is_digest_def)
  moreover from this have "i = i'" using assms(3-6) by (intro to_bytes_big_inj) (simp_all add: UINT64_MAX_def)
  moreover have "c = c'" "d = d'" using calculation assms by (auto intro!: from_hex_inj simp: is_digest_def)
  ultimately show ?thesis by blast
qed

end
