(* ===== verification/Float64.thy ===== *)
theory Float64
  imports Prelude Complex_Main "HOL-Library.Log_Nat"
begin

text \<open>
  The IEEE 754 double as its 64 bits, for the code whose durable format holds a Python float: the value of a
  finite double, the double nearest to a rational with ties to an even significand, and the sum of two doubles
  as that rounding of the exact sum.  The last section bounds the error of one rounding.
\<close>

type_synonym f64 = "64 word"

definition f64_negative :: "f64 \<Rightarrow> bool" where
  "f64_negative w \<longleftrightarrow> 2 ^ 63 \<le> uint w"

definition f64_exponent :: "f64 \<Rightarrow> int" where
  "f64_exponent w = uint w div 2 ^ 52 mod 2 ^ 11"

definition f64_fraction :: "f64 \<Rightarrow> int" where
  "f64_fraction w = uint w mod 2 ^ 52"

text \<open>\<open>math.isfinite\<close>\<close>

definition f64_finite :: "f64 \<Rightarrow> bool" where
  "f64_finite w \<longleftrightarrow> f64_exponent w \<noteq> 2047"

definition pow2 :: "int \<Rightarrow> rat" where
  "pow2 e = (if 0 \<le> e then 2 ^ nat e else 1 / 2 ^ nat (- e))"

definition f64_value :: "f64 \<Rightarrow> rat" where
  "f64_value w = (if f64_negative w then -1 else 1) *
     (if f64_exponent w = 0 then of_int (f64_fraction w) * pow2 (- 1074)
      else of_int (2 ^ 52 + f64_fraction w) * pow2 (f64_exponent w - 1075))"

section \<open>Rounding\<close>

text \<open>The nearest integer, ties to even.\<close>

definition round_even :: "rat \<Rightarrow> int" where
  "round_even q = (let n = \<lfloor>q\<rfloor>; r = q - of_int n in
     if r < 1 / 2 then n else if 1 / 2 < r then n + 1 else if even n then n else n + 1)"

text \<open>The exponent \<open>e\<close> with \<open>2 ^ e \<le> q < 2 ^ (e + 1)\<close>, for a positive \<open>q\<close>.\<close>

definition exponent_of :: "rat \<Rightarrow> int" where
  "exponent_of q = (if 1 \<le> q then int (floorlog 2 (nat \<lfloor>q\<rfloor>)) - 1 else - int (floorlog 2 (nat (\<lceil>1 / q\<rceil> - 1))))"

definition ulp_of :: "rat \<Rightarrow> rat" where
  "ulp_of q = (if q = 0 then pow2 (- 1074) else pow2 (max (exponent_of \<bar>q\<bar> - 52) (- 1074)))"

text \<open>The value of the nearest double, \<open>None\<close> when it overflows to an infinity.\<close>

definition nearest_f64 :: "rat \<Rightarrow> rat option" where
  "nearest_f64 q = (let u = ulp_of q; v = of_int (round_even (q / u)) * u in
     if \<bar>v\<bar> < pow2 1024 then Some v else None)"

text \<open>\<open>math.floor(n + x + 0.5)\<close> for an integer and a double, both sums rounded; \<open>None\<close> when a sum is infinite.\<close>

definition rounded_sum :: "int \<Rightarrow> rat \<Rightarrow> int option" where
  "rounded_sum n x =
     (case nearest_f64 (of_int n + x) of
        None \<Rightarrow> None
      | Some a \<Rightarrow> (case nearest_f64 (a + 1 / 2) of None \<Rightarrow> None | Some b \<Rightarrow> Some \<lfloor>b\<rfloor>))"

section \<open>The rounding error\<close>

lemma pow2_pos [simp]: "0 < pow2 e"
  by (simp add: pow2_def)

lemma pow2_add: "pow2 (a + b) = pow2 a * pow2 b"
proof -
  have p: "pow2 e = 2 powi e" for e :: int
    by (simp add: pow2_def power_int_def inverse_eq_divide power_divide)
  show ?thesis by (simp add: p power_int_add)
qed

lemma pow2_mono: "a \<le> b \<Longrightarrow> pow2 a \<le> pow2 b"
proof -
  have p: "pow2 e = 2 powi e" for e :: int
    by (simp add: pow2_def power_int_def inverse_eq_divide power_divide)
  show "a \<le> b \<Longrightarrow> pow2 a \<le> pow2 b" by (simp add: p power_int_increasing)
qed

lemma round_even_error: "\<bar>of_int (round_even q) - q\<bar> \<le> 1 / 2"
proof -
  define r where "r = q - of_int \<lfloor>q\<rfloor>"
  have "0 \<le> r" "r < 1" unfolding r_def by linarith+
  moreover have "q = of_int \<lfloor>q\<rfloor> + r" by (simp add: r_def)
  ultimately show ?thesis
    unfolding round_even_def Let_def r_def [symmetric] by (auto simp: abs_le_iff)
qed

lemma exponent_of_le:
  assumes "0 < q"
  shows "pow2 (exponent_of q) \<le> q"
proof (cases "1 \<le> q")
  case True
  define n where "n = nat \<lfloor>q\<rfloor>"
  have n: "0 < n" using True by (simp add: n_def)
  have "2 ^ (floorlog 2 n - 1) \<le> n" using floorlog_bounds [of n 2] n by simp
  then have "(2 :: rat) ^ (floorlog 2 n - 1) \<le> of_nat n"
    by (metis of_nat_le_iff of_nat_numeral of_nat_power)
  also have "of_nat n \<le> q" using True by (simp add: n_def)
  finally have "2 ^ (floorlog 2 n - 1) \<le> q" .
  moreover have "0 < floorlog 2 n" using n by (simp add: floorlog_def)
  then have "nat (int (floorlog 2 n) - 1) = floorlog 2 n - 1" "0 \<le> int (floorlog 2 n) - 1" by simp_all
  ultimately show ?thesis using True by (simp add: exponent_of_def pow2_def flip: n_def)
next
  case False
  define n where "n = nat (\<lceil>1 / q\<rceil> - 1)"
  have one: "1 < 1 / q" using False assms by simp
  then have "1 < \<lceil>1 / q\<rceil>" by linarith
  then have "0 < \<lceil>1 / q\<rceil> - 1" by linarith
  then have n: "0 < n" "int n = \<lceil>1 / q\<rceil> - 1" unfolding n_def by linarith+
  have "n < 2 ^ floorlog 2 n" using floorlog_bounds [of n 2] n(1) by simp
  then have "int n + 1 \<le> 2 ^ floorlog 2 n" by (metis add.commute of_nat_Suc of_nat_le_iff of_nat_numeral of_nat_power Suc_leI)
  then have "\<lceil>1 / q\<rceil> \<le> 2 ^ floorlog 2 n" using n(2) by simp
  then have "1 / q \<le> 2 ^ floorlog 2 n" by (simp add: ceiling_le_iff)
  then have "1 / 2 ^ floorlog 2 n \<le> q" using assms by (simp add: divide_simps mult.commute)
  moreover have "0 < floorlog 2 n" using n(1) by (simp add: floorlog_def)
  ultimately show ?thesis using False by (simp add: exponent_of_def pow2_def flip: n_def)
qed

lemma ulp_of_le: "ulp_of q \<le> \<bar>q\<bar> * pow2 (- 52) + pow2 (- 1074)"
proof (cases "q = 0")
  case False
  then have "pow2 (exponent_of \<bar>q\<bar> + - 52) \<le> \<bar>q\<bar> * pow2 (- 52)"
    by (simp only: pow2_add) (simp add: exponent_of_le mult_right_mono)
  then have "pow2 (exponent_of \<bar>q\<bar> - 52) \<le> \<bar>q\<bar> * pow2 (- 52)" by simp
  moreover have "0 \<le> \<bar>q\<bar> * pow2 (- 52)" using pow2_pos [of "- 52"] by (intro mult_nonneg_nonneg) (auto intro: less_imp_le)
  ultimately show ?thesis using False pow2_pos [of "- 1074"]
    unfolding ulp_of_def max_def by (auto simp: less_imp_le intro: add_increasing2)
qed (simp add: ulp_of_def)

lemma nearest_f64_error:
  assumes "nearest_f64 q = Some v"
  shows "\<bar>v - q\<bar> \<le> \<bar>q\<bar> * pow2 (- 53) + pow2 (- 1074)"
proof -
  define u where "u = ulp_of q"
  have u: "0 < u" by (simp add: u_def ulp_of_def)
  have "v = of_int (round_even (q / u)) * u"
    using assms by (simp add: nearest_f64_def Let_def u_def split: if_splits)
  then have "\<bar>v - q\<bar> = \<bar>of_int (round_even (q / u)) - q / u\<bar> * u"
  proof -
    assume "v = of_int (round_even (q / u)) * u"
    then have "v - q = (of_int (round_even (q / u)) - q / u) * u" using u by (simp add: left_diff_distrib)
    then show ?thesis using u by (simp only: abs_mult abs_of_pos)
  qed
  also have "\<dots> \<le> 1 / 2 * u" using round_even_error [of "q / u"] u by (simp add: mult_right_mono)
  also have "\<dots> \<le> 1 / 2 * (\<bar>q\<bar> * pow2 (- 52) + pow2 (- 1074))"
    using ulp_of_le [of q] by (simp add: u_def)
  also have "\<dots> \<le> \<bar>q\<bar> * pow2 (- 53) + pow2 (- 1074)"
    using pow2_pos [of "- 1074"] by (simp add: pow2_def)
  finally show ?thesis .
qed

end
