(* ===== verification/Public_Time.thy ===== *)
theory Public_Time
  imports Clock_Segments Public_Audio Float64
begin

text \<open>
  The public time of one physical record, frozen from the durable clock evidence
  (\<open>adapters/public_time_facts.py\<close>): the prepared lookup, the label of a sequence, and whether it may be compared
  with its predecessor.  The sum that normalizes a timestamp is the double sum of \<open>Float64\<close>.
\<close>

section \<open>Text of numbers\<close>

definition digit_char :: "nat \<Rightarrow> char" where
  "digit_char d = ''0123456789abcdef'' ! d"

fun str_nat :: "nat \<Rightarrow> string" where
  "str_nat n = (if n < 10 then [digit_char n] else str_nat (n div 10) @ [digit_char (n mod 10)])"

declare str_nat.simps [simp del]

text \<open>\<open>str(n)\<close>\<close>

definition str_int :: "int \<Rightarrow> string" where
  "str_int i = (if i < 0 then CHR ''-'' # str_nat (nat (- i)) else str_nat (nat i))"

fun hex_digits :: "nat \<Rightarrow> nat \<Rightarrow> string" where
  "hex_digits 0 n = []"
| "hex_digits (Suc k) n = hex_digits k (n div 16) @ [digit_char (n mod 16)]"

text \<open>\<open>float(q).hex()\<close>\<close>

definition float_hex :: "rat \<Rightarrow> string" where
  "float_hex q =
     (if q = 0 then ''0x0.0p+0''
      else let e = exponent_of \<bar>q\<bar>; sign = (if q < 0 then ''-'' else []) in
        if e < - 1022 then sign @ ''0x0.'' @ hex_digits 13 (nat \<lfloor>\<bar>q\<bar> * 2 ^ 1074\<rfloor>) @ ''p-1022''
        else sign @ ''0x1.'' @ hex_digits 13 (nat \<lfloor>(\<bar>q\<bar> / pow2 e - 1) * 2 ^ 52\<rfloor>) @ ''p''
          @ (if 0 \<le> e then ''+'' else ''-'') @ str_nat (nat \<bar>e\<bar>))"

section \<open>The prepared lookup\<close>

datatype time_error = TimeValueError string | TimeOverflowError

record frozen_predecessor =
  pred_sequence :: int
  pred_time :: frozen_public_time

record time_projection =
  proj_state :: clock_state
  range_starts :: "int list"
  components :: "(int \<times> int) list"
  component_starts :: "int list"

definition time_uint :: "int \<Rightarrow> int \<Rightarrow> string \<Rightarrow> (time_error, unit) result" where
  "time_uint value maximum name =
     require (0 \<le> value \<and> value \<le> maximum) (TimeValueError (name @ '' must be an unsigned integer''))"

definition new_predecessor :: "int \<Rightarrow> frozen_public_time \<Rightarrow> (time_error, frozen_predecessor) result" where
  "new_predecessor sequence time =
     bind_result (time_uint sequence UINT64_MAX ''predecessor sequence'') (\<lambda>_. Inr \<lparr>pred_sequence = sequence, pred_time = time\<rparr>)"

definition uncertain_intent :: "clock_state \<Rightarrow> clock_intent option" where
  "uncertain_intent state =
     (case clock_intent_of state of Some i \<Rightarrow> if intent_phase i = ''uncertain'' then Some i else None | None \<Rightarrow> None)"

definition causal_boundaries :: "clock_state \<Rightarrow> int set" where
  "causal_boundaries state =
     (case clock_intent_of state of
        Some i \<Rightarrow> if intent_phase i = ''uncertain'' \<and> write_sequence_after i = Some (write_sequence_before i)
                 then {write_sequence_before i} else {}
      | None \<Rightarrow> {})"

definition item_intervals :: "clock_intent option \<Rightarrow> clock_range \<Rightarrow> (int \<times> int) list" where
  "item_intervals uncertain item =
     (case uncertain of
        None \<Rightarrow> [(range_start item, range_next item)]
      | Some i \<Rightarrow>
          if range_next item \<le> write_sequence_before i then [(range_start item, range_next item)]
          else if (case write_sequence_after i of None \<Rightarrow> False | Some e \<Rightarrow> e \<le> range_start item) then [(range_start item, range_next item)]
          else (if range_start item < write_sequence_before i then [(range_start item, write_sequence_before i)] else [])
             @ (case write_sequence_after i of None \<Rightarrow> [] | Some e \<Rightarrow> if e < range_next item then [(e, range_next item)] else []))"

definition mapped_intervals :: "clock_state \<Rightarrow> (int \<times> int) list" where
  "mapped_intervals state =
     concat (map (item_intervals (uncertain_intent state)) (filter (\<lambda>item. range_offset item \<noteq> None) (clock_ranges state)))"

definition join_interval :: "int set \<Rightarrow> (int \<times> int) list \<Rightarrow> int \<times> int \<Rightarrow> (int \<times> int) list" where
  "join_interval bounds cs iv =
     (if cs \<noteq> [] \<and> snd (last cs) = fst iv \<and> fst iv \<notin> bounds
      then butlast cs @ [(fst (last cs), snd iv)] else cs @ [iv])"

definition projection_from_state :: "clock_state \<Rightarrow> time_projection" where
  "projection_from_state state =
     (let cs = foldl (join_interval (causal_boundaries state)) [] (mapped_intervals state) in
      \<lparr>proj_state = state, range_starts = map range_start (clock_ranges state), components = cs, component_starts = map fst cs\<rparr>)"

text \<open>\<open>bisect.bisect_right\<close> on a sorted tuple.\<close>

definition bisect_right :: "int list \<Rightarrow> int \<Rightarrow> nat" where
  "bisect_right xs x = length (takeWhile (\<lambda>y. y \<le> x) xs)"

definition mapped_component :: "time_projection \<Rightarrow> int \<Rightarrow> (time_error, int \<times> int) result" where
  "mapped_component projection sequence =
     (let index = int (bisect_right (component_starts projection) sequence) - 1 in
      if 0 \<le> index \<and> sequence < snd (components projection ! nat index) then Inr (components projection ! nat index)
      else Inl (TimeValueError ''mapped clock range has no effective causal interval''))"

section \<open>The label of a sequence\<close>

definition kind_of :: "string \<Rightarrow> string" where
  "kind_of membership = takeWhile (\<lambda>c. c \<noteq> CHR '':'') membership"

definition same_causal_component ::
  "time_projection \<Rightarrow> int \<Rightarrow> string \<Rightarrow> frozen_predecessor \<Rightarrow> (time_error, bool) result" where
  "same_causal_component projection sequence membership predecessor =
     (if list_ex (\<lambda>(start, fin). start \<le> sequence \<and> sequence \<le> fin) (causal_uncertainty (proj_state projection)) then Inr False
      else let previous = causal_membership (pred_time predecessor) in
        if previous = membership then Inr True
        else if kind_of membership \<noteq> ''mapped'' \<or> kind_of previous \<noteq> kind_of membership then Inr False
        else bind_result (mapped_component projection sequence) (\<lambda>(start, fin).
          Inr (start \<le> pred_sequence predecessor \<and> pred_sequence predecessor < fin)))"

type_synonym public_label = "string \<times> int \<times> py_value \<times> string"

definition intent_label :: "clock_intent \<Rightarrow> int \<Rightarrow> string" where
  "intent_label i sequence =
     ''unknown-intent:'' @ str_int (write_sequence_before i) @ '':''
     @ (case write_sequence_after i of None \<Rightarrow> ''open'' | Some e \<Rightarrow> str_int e) @ '':'' @ operation_id i @ '':'' @ str_int sequence"

text \<open>The range that \<open>bisect_right\<close> finds for the sequence.\<close>

definition clock_range_at :: "time_projection \<Rightarrow> int \<Rightarrow> clock_range option" where
  "clock_range_at projection sequence =
     (let index = int (bisect_right (range_starts projection) sequence) - 1 in
      if 0 \<le> index \<and> sequence < range_next (clock_ranges (proj_state projection) ! nat index)
      then Some (clock_ranges (proj_state projection) ! nat index) else None)"

definition mapped_label :: "time_projection \<Rightarrow> int \<Rightarrow> int \<Rightarrow> clock_range \<Rightarrow> rat \<Rightarrow> (time_error, public_label) result" where
  "mapped_label projection sequence timestamp item offset =
     bind_result (mapped_component projection sequence) (\<lambda>component.
     case rounded_sum timestamp offset of
       None \<Rightarrow> Inl TimeOverflowError
     | Some normalized \<Rightarrow>
         if \<not> (0 \<le> normalized \<and> normalized \<le> UINT32_MAX)
         then Inr (''unknown'', timestamp, PyNone,
           ''mapped-raw:'' @ str_int (range_start item) @ '':'' @ str_int (range_next item) @ '':'' @ float_hex offset)
         else Inr (if range_confidence item = ''approximate'' then ''approximate'' else ''known'', normalized,
           (case range_uncertainty item of None \<Rightarrow> PyNone | Some u \<Rightarrow> PyFloat (Fin u)),
           ''mapped:'' @ str_int (fst component) @ '':'' @ str_int (snd component)))"

definition range_label :: "time_projection \<Rightarrow> int \<Rightarrow> int \<Rightarrow> (time_error, public_label) result" where
  "range_label projection sequence timestamp =
     (case clock_range_at projection sequence of
        None \<Rightarrow> Inr (''unknown'', timestamp, PyNone, ''unknown-uncovered:'' @ str_int sequence)
      | Some item \<Rightarrow>
          (case range_offset item of
             None \<Rightarrow> Inr (''unknown'', timestamp, PyNone,
               ''unknown-range:'' @ str_int (range_start item) @ '':'' @ str_int (range_next item) @ '':'' @ range_source item)
           | Some offset \<Rightarrow> mapped_label projection sequence timestamp item offset))"

definition public_label_of :: "time_projection \<Rightarrow> int \<Rightarrow> int \<Rightarrow> (time_error, public_label) result" where
  "public_label_of projection sequence timestamp =
     (case clock_intent_of (proj_state projection) of
        Some i \<Rightarrow>
          if intent_phase i = ''uncertain'' \<and> write_sequence_before i \<le> sequence
             \<and> (case write_sequence_after i of None \<Rightarrow> True | Some e \<Rightarrow> sequence < e)
          then Inr (''unknown'', timestamp, PyNone, intent_label i sequence)
          else range_label projection sequence timestamp
      | None \<Rightarrow> range_label projection sequence timestamp)"

definition freeze :: "time_projection \<Rightarrow> int \<Rightarrow> int \<Rightarrow> frozen_predecessor option \<Rightarrow> (time_error, frozen_public_time) result" where
  "freeze projection sequence timestamp predecessor =
     bind_result (time_uint sequence UINT64_MAX ''sequence'') (\<lambda>_.
     bind_result (time_uint timestamp UINT32_MAX ''raw_timestamp'') (\<lambda>_.
     bind_result (public_label_of projection sequence timestamp) (\<lambda>(quality, seconds, uncertainty, membership).
     bind_result
       (case predecessor of
          None \<Rightarrow> Inr False
        | Some p \<Rightarrow> if pred_sequence p + 1 = sequence then same_causal_component projection sequence membership p else Inr False) (\<lambda>comparable.
     Inr \<lparr>time_quality = quality, time_seconds = seconds, utc_uncertainty = uncertainty, causal_membership = membership,
          comparable_to_previous = comparable\<rparr>))))"

section \<open>Text determines the number\<close>

definition decimal :: "string \<Rightarrow> nat" where
  "decimal s = foldl (\<lambda>n c. 10 * n + (of_char c - 48)) 0 s"

lemma digit_char_decimal:
  assumes "d < 10"
  shows "(of_char (digit_char d) :: nat) = 48 + d \<and> digit_char d \<noteq> CHR '':'' \<and> digit_char d \<noteq> CHR ''-''"
proof -
  have "d \<in> {0, 1, 2, 3, 4, 5, 6, 7, 8, 9}" using assms by auto
  then show ?thesis by (auto simp: digit_char_def)
qed

lemma decimal_str_nat: "decimal (str_nat n) = n"
proof (induction n rule: str_nat.induct)
  case (1 n)
  show ?case
  proof (cases "n < 10")
    case True
    then show ?thesis using digit_char_decimal [of n] by (simp add: str_nat.simps [of n] decimal_def)
  next
    case False
    have "decimal (str_nat n) = 10 * decimal (str_nat (n div 10)) + n mod 10"
      using False digit_char_decimal [of "n mod 10"] by (simp add: str_nat.simps [of n] decimal_def)
    then show ?thesis using 1 False by simp
  qed
qed

lemma str_nat_chars: "c \<in> set (str_nat n) \<Longrightarrow> c \<noteq> CHR '':'' \<and> c \<noteq> CHR ''-''"
proof (induction n rule: str_nat.induct)
  case (1 n)
  then show ?case
    using digit_char_decimal [of n] digit_char_decimal [of "n mod 10"]
    by (cases "n < 10") (auto simp: str_nat.simps [of n])
qed

lemma str_int_chars: "CHR '':'' \<notin> set (str_int i)"
  using str_nat_chars by (auto simp: str_int_def)

lemma str_int_inj: "str_int i = str_int j \<Longrightarrow> i = j"
proof -
  have minus: "CHR ''-'' # s \<noteq> str_nat n" for s n using str_nat_chars [of "CHR ''-''" n] by (metis list.set_intros(1))
  assume e: "str_int i = str_int j"
  consider "i < 0" "j < 0" | "0 \<le> i" "0 \<le> j" | "i < 0" "0 \<le> j" | "0 \<le> i" "j < 0" by linarith
  then show ?thesis
  proof cases
    case 1
    then have "nat (- i) = nat (- j)" using e decimal_str_nat by (metis list.inject str_int_def)
    then show ?thesis using 1 by simp
  next
    case 2
    then have "nat i = nat j" using e decimal_str_nat by (metis not_less str_int_def)
    then show ?thesis using 2 by simp
  qed (use e minus in \<open>auto simp: str_int_def dest: sym\<close>)
qed

text \<open>The first field of a text with a separator.\<close>

lemma str_field_inj:
  assumes "str_int i @ CHR '':'' # s = str_int j @ CHR '':'' # t"
  shows "i = j \<and> s = t"
proof -
  have split: "takeWhile (\<lambda>c. c \<noteq> CHR '':'') (str_int k @ CHR '':'' # u) = str_int k" for k u
    by (subst takeWhile_append2) (use str_int_chars in auto)
  have "str_int i = str_int j" using split [of i s] split [of j t] assms by simp
  then show ?thesis using str_int_inj assms by simp
qed

section \<open>The bisected lookup finds the covering interval\<close>

definition holds_at :: "('a \<Rightarrow> int) \<Rightarrow> ('a \<Rightarrow> int) \<Rightarrow> int \<Rightarrow> 'a \<Rightarrow> bool" where
  "holds_at lo hi q x \<longleftrightarrow> lo x \<le> q \<and> q < hi x"

definition bisected :: "('a \<Rightarrow> int) \<Rightarrow> ('a \<Rightarrow> int) \<Rightarrow> int \<Rightarrow> 'a list \<Rightarrow> 'a option" where
  "bisected lo hi q xs =
     (let index = int (bisect_right (map lo xs) q) - 1 in if 0 \<le> index \<and> q < hi (xs ! nat index) then Some (xs ! nat index) else None)"

lemma bisected_find:
  assumes "sorted_wrt (\<lambda>a b. hi a \<le> lo b) xs" and "\<forall>x \<in> set xs. lo x < hi x"
  shows "bisected lo hi q xs = find (holds_at lo hi q) xs"
  using assms
proof (induction xs)
  case (Cons a xs)
  have IH: "bisected lo hi q xs = find (holds_at lo hi q) xs" using Cons by simp
  show ?case
  proof (cases "lo a \<le> q")
    case False
    have "\<not> holds_at lo hi q x" if "x \<in> set (a # xs)" for x
      using False that Cons.prems by (auto simp: holds_at_def)
    then have "find (holds_at lo hi q) (a # xs) = None" by (simp add: find_None_iff)
    moreover have "bisected lo hi q (a # xs) = None" using False by (simp add: bisected_def bisect_right_def)
    ultimately show ?thesis by simp
  next
    case True
    define k where "k = bisect_right (map lo xs) q"
    have step: "bisect_right (map lo (a # xs)) q = Suc k" using True by (simp add: k_def bisect_right_def)
    show ?thesis
    proof (cases k)
      case 0
      have "\<not> holds_at lo hi q x" if x: "x \<in> set xs" for x
      proof -
        obtain y ys where ys: "xs = y # ys" using x by (cases xs) auto
        have "\<not> lo y \<le> q" using 0 by (auto simp: k_def bisect_right_def ys)
        then show ?thesis using x ys Cons.prems by (auto simp: holds_at_def)
      qed
      then have "find (holds_at lo hi q) xs = None" by (simp add: find_None_iff)
      then show ?thesis using 0 True step by (simp add: bisected_def holds_at_def [of lo hi q a])
    next
      case (Suc j)
      then obtain y ys where ys: "xs = y # ys" "lo y \<le> q" by (cases xs) (auto simp: k_def bisect_right_def split: if_splits)
      then have "\<not> holds_at lo hi q a" using Cons.prems by (auto simp: holds_at_def)
      moreover have "nat (1 + int j) = Suc j" by simp
      ultimately show ?thesis using IH [symmetric] Suc step by (simp add: bisected_def Let_def flip: k_def)
    qed
  qed
qed (simp add: bisected_def bisect_right_def)

section \<open>The causal components\<close>

abbreviation iv_holds :: "int \<Rightarrow> int \<times> int \<Rightarrow> bool" where
  "iv_holds \<equiv> holds_at fst snd"

text \<open>Disjoint intervals in order, none empty, none with a boundary in its interior.\<close>

definition intervals_ok :: "int set \<Rightarrow> (int \<times> int) list \<Rightarrow> bool" where
  "intervals_ok bounds ivs \<longleftrightarrow> sorted_wrt (\<lambda>a b. snd a \<le> fst b) ivs
     \<and> (\<forall>iv \<in> set ivs. fst iv < snd iv \<and> (\<forall>b \<in> bounds. \<not> (fst iv < b \<and> b < snd iv)))"

lemma intervals_ok_append:
  "intervals_ok bounds (xs @ ys) \<longleftrightarrow> intervals_ok bounds xs \<and> intervals_ok bounds ys \<and> (\<forall>x \<in> set xs. \<forall>y \<in> set ys. snd x \<le> fst y)"
  by (auto simp: intervals_ok_def sorted_wrt_append)

lemma join_interval_ok:
  assumes "intervals_ok bounds cs" and "intervals_ok bounds [iv]" and "\<forall>c \<in> set cs. snd c \<le> fst iv"
  shows "intervals_ok bounds (join_interval bounds cs iv)"
    and "(\<exists>c \<in> set (join_interval bounds cs iv). iv_holds q c) \<longleftrightarrow> (\<exists>c \<in> set cs. iv_holds q c) \<or> iv_holds q iv"
    and "\<forall>c \<in> set (join_interval bounds cs iv). snd c \<le> snd iv"
proof -
  have "intervals_ok bounds (join_interval bounds cs iv)
      \<and> ((\<exists>c \<in> set (join_interval bounds cs iv). iv_holds q c) \<longleftrightarrow> (\<exists>c \<in> set cs. iv_holds q c) \<or> iv_holds q iv)
      \<and> (\<forall>c \<in> set (join_interval bounds cs iv). snd c \<le> snd iv)"
  proof (cases "cs \<noteq> [] \<and> snd (last cs) = fst iv \<and> fst iv \<notin> bounds")
    case True
    define old where "old = butlast cs"
    define l where "l = last cs"
    have cs: "cs = old @ [l]" using True by (simp add: old_def l_def)
    have j: "join_interval bounds cs iv = old @ [(fst l, snd iv)]" using True by (simp add: join_interval_def old_def l_def)
    have l: "snd l = fst iv" "fst iv \<notin> bounds" using True by (simp_all add: cs)
    have ok: "intervals_ok bounds old" "intervals_ok bounds [l]" "\<forall>x \<in> set old. snd x \<le> fst l"
      using assms(1) by (simp_all add: cs intervals_ok_append)
    have "intervals_ok bounds [(fst l, snd iv)]"
      using ok(2) assms(2) l by (fastforce simp: intervals_ok_def)
    moreover have "\<forall>c \<in> set old. snd c \<le> snd iv" using ok(2,3) l assms(2) by (fastforce simp: intervals_ok_def)
    moreover have "iv_holds q (fst l, snd iv) \<longleftrightarrow> iv_holds q l \<or> iv_holds q iv"
      using ok(2) assms(2) l by (auto simp: intervals_ok_def holds_at_def)
    ultimately show ?thesis unfolding j using ok(1,3) by (auto simp: cs intervals_ok_append)
  next
    case False
    have "fst iv < snd iv" using assms(2) by (simp add: intervals_ok_def)
    moreover have "join_interval bounds cs iv = cs @ [iv]" using False unfolding join_interval_def by (simp only: if_False)
    ultimately show ?thesis using assms by (auto simp: intervals_ok_append)
  qed
  then show "intervals_ok bounds (join_interval bounds cs iv)"
    "(\<exists>c \<in> set (join_interval bounds cs iv). iv_holds q c) \<longleftrightarrow> (\<exists>c \<in> set cs. iv_holds q c) \<or> iv_holds q iv"
    "\<forall>c \<in> set (join_interval bounds cs iv). snd c \<le> snd iv" by blast+
qed

lemma join_intervals_ok:
  assumes "intervals_ok bounds ivs"
  shows "intervals_ok bounds (foldl (join_interval bounds) [] ivs)
    \<and> (\<forall>q. (\<exists>c \<in> set (foldl (join_interval bounds) [] ivs). iv_holds q c) \<longleftrightarrow> (\<exists>iv \<in> set ivs. iv_holds q iv))
    \<and> (\<forall>c \<in> set (foldl (join_interval bounds) [] ivs). ivs \<noteq> [] \<and> snd c \<le> snd (last ivs))"
  using assms
proof (induction ivs rule: rev_induct)
  case (snoc iv ivs)
  let ?cs = "foldl (join_interval bounds) [] ivs"
  have ok: "intervals_ok bounds ivs" "intervals_ok bounds [iv]" "\<forall>x \<in> set ivs. snd x \<le> fst iv"
    using snoc.prems by (simp_all add: intervals_ok_append)
  have "\<forall>c \<in> set ?cs. snd c \<le> fst iv" using snoc.IH [OF ok(1)] ok(3) by (meson last_in_set order_trans)
  then show ?case using snoc.IH [OF ok(1)] join_interval_ok [of bounds ?cs iv] ok(2) by auto
qed (simp add: intervals_ok_def)

lemma item_intervals_ok:
  assumes "range_valid r" and "pred_option intent_valid (clock_intent_of s)"
  shows "intervals_ok (causal_boundaries s) (item_intervals (uncertain_intent s) r)"
    and "iv \<in> set (item_intervals (uncertain_intent s) r) \<Longrightarrow> range_start r \<le> fst iv \<and> snd iv \<le> range_next r"
    and "(\<exists>iv \<in> set (item_intervals (uncertain_intent s) r). iv_holds q iv) \<longleftrightarrow> in_range q r \<and> \<not> undecided s q"
proof -
  have rv: "range_start r < range_next r" using assms(1) by (simp add: range_valid_def)
  have iv: "\<And>i e. clock_intent_of s = Some i \<Longrightarrow> write_sequence_after i = Some e \<Longrightarrow> write_sequence_before i \<le> e"
    using assms(2) by (auto simp: intent_valid_def)
  show "intervals_ok (causal_boundaries s) (item_intervals (uncertain_intent s) r)"
    using rv iv by (auto simp: intervals_ok_def item_intervals_def uncertain_intent_def causal_boundaries_def sorted_wrt_append split: option.splits if_splits)
  show "iv \<in> set (item_intervals (uncertain_intent s) r) \<Longrightarrow> range_start r \<le> fst iv \<and> snd iv \<le> range_next r"
    using rv iv by (auto simp: item_intervals_def uncertain_intent_def split: option.splits if_splits)
  show "(\<exists>iv \<in> set (item_intervals (uncertain_intent s) r). iv_holds q iv) \<longleftrightarrow> in_range q r \<and> \<not> undecided s q"
    using rv iv by (auto simp: item_intervals_def uncertain_intent_def holds_at_def in_range_def undecided_def split: option.splits if_splits)
qed

lemma mapped_intervals_ok:
  assumes "clock_valid s"
  shows "intervals_ok (causal_boundaries s) (mapped_intervals s)
    \<and> (\<forall>q. (\<exists>iv \<in> set (mapped_intervals s). iv_holds q iv) \<longleftrightarrow>
        (\<exists>r \<in> set (clock_ranges s). range_offset r \<noteq> None \<and> in_range q r) \<and> \<not> undecided s q)"
proof -
  have intent: "pred_option intent_valid (clock_intent_of s)" using assms by (simp add: clock_valid_def)
  have valid: "\<forall>r \<in> set (clock_ranges s). range_valid r" and ord: "sorted_wrt before (clock_ranges s)"
    using assms ordered_iff_before by (auto simp: clock_valid_def list_all_iff)
  let ?f = "item_intervals (uncertain_intent s)"
  have "intervals_ok (causal_boundaries s) (concat (map ?f rs))" if "\<forall>r \<in> set rs. range_valid r" "sorted_wrt before rs" for rs
    using that
  proof (induction rs)
    case (Cons r rs)
    have "snd x \<le> fst y" if x: "x \<in> set (?f r)" and y: "y \<in> set (concat (map ?f rs))" for x y
    proof -
      obtain r' where r': "r' \<in> set rs" "y \<in> set (?f r')" using y by auto
      have "snd x \<le> range_next r" "range_start r' \<le> fst y" "range_next r \<le> range_start r'"
        using item_intervals_ok(2) [OF _ intent] x r' Cons.prems by (auto simp: before_def)
      then show ?thesis by linarith
    qed
    then show ?case using Cons item_intervals_ok(1) [OF _ intent, of r] by (simp add: intervals_ok_append)
  qed (simp add: intervals_ok_def)
  moreover have "\<forall>r \<in> set (filter (\<lambda>item. range_offset item \<noteq> None) (clock_ranges s)). range_valid r" using valid by simp
  moreover have "sorted_wrt before (filter (\<lambda>item. range_offset item \<noteq> None) (clock_ranges s))" using ord by (rule sorted_wrt_filter)
  ultimately have "intervals_ok (causal_boundaries s) (mapped_intervals s)" by (simp add: mapped_intervals_def)
  moreover have "(\<exists>iv \<in> set (mapped_intervals s). iv_holds q iv) \<longleftrightarrow>
      (\<exists>r \<in> set (clock_ranges s). range_offset r \<noteq> None \<and> in_range q r) \<and> \<not> undecided s q" for q
    using item_intervals_ok(3) [OF _ intent, of _ q] valid unfolding mapped_intervals_def by fastforce
  ultimately show ?thesis by blast
qed

lemma components_ok:
  assumes "clock_valid s"
  shows "intervals_ok (causal_boundaries s) (components (projection_from_state s))"
    and "(\<exists>c \<in> set (components (projection_from_state s)). iv_holds q c) \<longleftrightarrow>
        (\<exists>r \<in> set (clock_ranges s). range_offset r \<noteq> None \<and> in_range q r) \<and> \<not> undecided s q"
  using mapped_intervals_ok [OF assms] join_intervals_ok [of "causal_boundaries s" "mapped_intervals s"]
  by (simp_all add: projection_from_state_def Let_def)

lemma proj_fields [simp]:
  "proj_state (projection_from_state s) = s"
  "range_starts (projection_from_state s) = map range_start (clock_ranges s)"
  "component_starts (projection_from_state s) = map fst (components (projection_from_state s))"
  by (simp_all add: projection_from_state_def Let_def)

lemma mapped_component_find:
  assumes "clock_valid s"
  shows "mapped_component (projection_from_state s) q =
     (case find (iv_holds q) (components (projection_from_state s)) of
        Some c \<Rightarrow> Inr c | None \<Rightarrow> Inl (TimeValueError ''mapped clock range has no effective causal interval''))"
proof -
  have "find (iv_holds q) (components (projection_from_state s)) = bisected fst snd q (components (projection_from_state s))"
    using components_ok(1) [OF assms] by (intro bisected_find [symmetric]) (auto simp: intervals_ok_def)
  then show ?thesis by (simp add: mapped_component_def bisected_def Let_def)
qed

lemma clock_range_at_find:
  assumes "clock_valid s"
  shows "clock_range_at (projection_from_state s) q = find (in_range q) (clock_ranges s)"
proof -
  have "sorted_wrt before (clock_ranges s)" "\<forall>r \<in> set (clock_ranges s). range_start r < range_next r"
    using assms ordered_iff_before by (auto simp: clock_valid_def list_all_iff range_valid_def)
  then have "find (holds_at range_start range_next q) (clock_ranges s) = bisected range_start range_next q (clock_ranges s)"
    by (intro bisected_find [symmetric]) (simp_all add: before_def [abs_def])
  moreover have "holds_at range_start range_next q = in_range q" by (auto simp: holds_at_def in_range_def)
  ultimately show ?thesis by (simp add: clock_range_at_def bisected_def Let_def)
qed

section \<open>The label\<close>

lemma nearest_f64_total:
  assumes "\<bar>q\<bar> \<le> 7 / 4 * pow2 1023"
  shows "\<exists>v. nearest_f64 q = Some v"
proof -
  define u where "u = ulp_of q"
  define v where "v = of_int (round_even (q / u)) * u"
  define B where "B = pow2 1023"
  have B: "pow2 1024 = 2 * B" "16 \<le> B"
  proof -
    show "pow2 1024 = 2 * B" using pow2_add [of 1 1023] by (simp add: B_def pow2_def [of 1])
    have "(16 :: rat) = pow2 4" by (simp add: pow2_def)
    also have "\<dots> \<le> B" unfolding B_def by (rule pow2_mono) simp
    finally show "16 \<le> B" .
  qed
  have u: "0 < u" by (simp add: u_def ulp_of_def)
  have "v - q = (of_int (round_even (q / u)) - q / u) * u" using u by (simp add: v_def left_diff_distrib)
  then have "\<bar>v - q\<bar> = \<bar>of_int (round_even (q / u)) - q / u\<bar> * u" using u by (simp only: abs_mult abs_of_pos)
  also have "\<dots> \<le> 1 / 2 * u" using round_even_error [of "q / u"] u by (simp add: mult_right_mono)
  finally have e: "\<bar>v - q\<bar> \<le> 1 / 2 * u" .
  have "u \<le> \<bar>q\<bar> * pow2 (- 52) + pow2 (- 1074)" unfolding u_def by (rule ulp_of_le)
  also have "\<dots> \<le> \<bar>q\<bar> * (1 / 64) + 1"
    using pow2_mono [of "- 52" "- 6"] pow2_mono [of "- 1074" 0] by (intro add_mono mult_left_mono) (simp_all add: pow2_def [of "- 6"] pow2_def [of 0])
  finally have "\<bar>v\<bar> < 2 * B" using e assms B(2) by (simp add: B_def [symmetric] abs_le_iff abs_if split: if_splits)
  then show ?thesis unfolding nearest_f64_def Let_def u_def [symmetric] v_def [symmetric] B(1) by simp
qed

lemma rounded_sum_total:
  assumes "0 \<le> t" and "t \<le> UINT32_MAX" and "\<bar>x\<bar> \<le> pow2 1023"
  shows "\<exists>n. rounded_sum t x = Some n"
proof -
  define B where "B = pow2 1023"
  have "(2 :: rat) ^ 40 = pow2 40" by (simp add: pow2_def)
  also have "\<dots> \<le> B" unfolding B_def by (rule pow2_mono) simp
  finally have B: "2 ^ 40 \<le> B" .
  let ?q = "of_int t + x"
  have "\<bar>of_int t\<bar> \<le> (2 ^ 32 :: rat)"
  proof -
    have "t \<le> 2 ^ 32" "0 \<le> t" using assms(1,2) by (simp_all add: UINT32_MAX_def)
    then show ?thesis by (metis abs_of_nonneg of_int_0_le_iff of_int_le_iff of_int_numeral of_int_power)
  qed
  then have q: "\<bar>?q\<bar> \<le> 5 / 4 * B" using assms(3) B abs_triangle_ineq [of "of_int t" x] by (simp add: B_def [symmetric])
  then obtain a where a: "nearest_f64 ?q = Some a" using nearest_f64_total [of ?q] B by (auto simp: B_def [symmetric])
  have "\<bar>a - ?q\<bar> \<le> \<bar>?q\<bar> * pow2 (- 53) + pow2 (- 1074)" by (rule nearest_f64_error [OF a])
  also have "\<dots> \<le> \<bar>?q\<bar> * (1 / 64) + 1"
    using pow2_mono [of "- 53" "- 6"] pow2_mono [of "- 1074" 0] by (intro add_mono mult_left_mono) (simp_all add: pow2_def [of "- 6"] pow2_def [of 0])
  finally have "\<bar>a + 1 / 2\<bar> \<le> 7 / 4 * B" using q B by (simp add: abs_if field_simps split: if_splits)
  then obtain b where "nearest_f64 (a + 1 / 2) = Some b" using nearest_f64_total by (auto simp: B_def)
  then show ?thesis using a by (simp add: rounded_sum_def)
qed

text \<open>The public label that the evidence of a sequence calls for.\<close>

definition evidence_label :: "clock_state \<Rightarrow> int \<Rightarrow> int \<Rightarrow> string \<times> int \<times> py_value" where
  "evidence_label s q t =
     (if undecided s q then (''unknown'', t, PyNone)
      else (case evidence_at (clock_ranges s) q of
         Some (Some offset, Some uncertainty, confidence, _) \<Rightarrow>
           (case rounded_sum t offset of
              Some n \<Rightarrow> if 0 \<le> n \<and> n \<le> UINT32_MAX
                then (if confidence = ''approximate'' then ''approximate'' else ''known'', n, PyFloat (Fin uncertainty))
                else (''unknown'', t, PyNone)
            | None \<Rightarrow> (''unknown'', t, PyNone))
       | _ \<Rightarrow> (''unknown'', t, PyNone)))"

text \<open>The membership of a sequence, for a component found for it.\<close>

definition membership_of :: "clock_state \<Rightarrow> int \<Rightarrow> int \<Rightarrow> string" where
  "membership_of s q t =
     (if undecided s q then intent_label (the (clock_intent_of s)) q
      else (case find (in_range q) (clock_ranges s) of
         None \<Rightarrow> ''unknown-uncovered:'' @ str_int q
       | Some r \<Rightarrow>
           (case range_offset r of
              None \<Rightarrow> ''unknown-range:'' @ str_int (range_start r) @ '':'' @ str_int (range_next r) @ '':'' @ range_source r
            | Some offset \<Rightarrow>
                if fst (evidence_label s q t) = ''unknown''
                then ''mapped-raw:'' @ str_int (range_start r) @ '':'' @ str_int (range_next r) @ '':'' @ float_hex offset
                else (let c = the (find (iv_holds q) (components (projection_from_state s))) in
                  ''mapped:'' @ str_int (fst c) @ '':'' @ str_int (snd c)))))"

lemma public_label_of_undecided:
  "public_label_of (projection_from_state s) q t =
     (if undecided s q then Inr (''unknown'', t, PyNone, intent_label (the (clock_intent_of s)) q)
      else range_label (projection_from_state s) q t)"
  by (auto simp: public_label_of_def undecided_def split: option.splits)

lemma component_exists:
  assumes "clock_valid s" and "\<not> undecided s q" and "find (in_range q) (clock_ranges s) = Some r" and "range_offset r \<noteq> None"
  shows "\<exists>c. find (iv_holds q) (components (projection_from_state s)) = Some c"
proof -
  have "r \<in> set (clock_ranges s)" "in_range q r" using find_in [OF assms(3)] by auto
  then have "\<exists>c \<in> set (components (projection_from_state s)). iv_holds q c" using components_ok(2) [OF assms(1)] assms(2,4) by blast
  then show ?thesis by (metis find_None_iff not_None_eq)
qed

lemma public_label_exact:
  assumes "clock_valid s" and "0 \<le> t" and "t \<le> UINT32_MAX"
    and "\<forall>r \<in> set (clock_ranges s). \<forall>x. range_offset r = Some x \<longrightarrow> \<bar>x\<bar> \<le> pow2 1023"
  shows "public_label_of (projection_from_state s) q t =
    Inr (fst (evidence_label s q t), fst (snd (evidence_label s q t)), snd (snd (evidence_label s q t)), membership_of s q t)"
proof (cases "undecided s q")
  case True
  then show ?thesis by (simp add: public_label_of_undecided evidence_label_def membership_of_def)
next
  case False
  show ?thesis
  proof (cases "find (in_range q) (clock_ranges s)")
    case None
    then show ?thesis using False
      by (simp add: public_label_of_undecided range_label_def clock_range_at_find [OF assms(1)] evidence_label_def membership_of_def evidence_at_def)
  next
    case (Some r)
    have r: "r \<in> set (clock_ranges s)" using find_in [OF Some] by simp
    then have rv: "range_valid r" using assms(1) by (simp add: clock_valid_def list_all_iff)
    show ?thesis
    proof (cases "range_offset r")
      case None
      then show ?thesis using False Some
        by (simp add: public_label_of_undecided range_label_def clock_range_at_find [OF assms(1)] evidence_label_def membership_of_def
          evidence_at_def evidence_of_def)
    next
      case (Some x)
      then obtain u where u: "range_uncertainty r = Some u" using rv by (auto simp: range_valid_def)
      obtain n where n: "rounded_sum t x = Some n" using rounded_sum_total [OF assms(2,3)] assms(4) r Some by blast
      obtain c where c: "find (iv_holds q) (components (projection_from_state s)) = Some c"
        using component_exists [OF assms(1) False \<open>find (in_range q) (clock_ranges s) = Some r\<close>] Some by blast
      have label: "evidence_label s q t = (if 0 \<le> n \<and> n \<le> UINT32_MAX
                then (if range_confidence r = ''approximate'' then ''approximate'' else ''known'', n, PyFloat (Fin u)) else (''unknown'', t, PyNone))"
        using False \<open>find (in_range q) (clock_ranges s) = Some r\<close> Some u n
        by (simp add: evidence_label_def evidence_at_def evidence_of_def)
      show ?thesis
        using False \<open>find (in_range q) (clock_ranges s) = Some r\<close> Some u n c
        by (simp add: public_label_of_undecided range_label_def clock_range_at_find [OF assms(1)] mapped_label_def
          mapped_component_find [OF assms(1)] membership_of_def label)
    qed
  qed
qed

lemma membership_nonempty: "membership_of s q t \<noteq> []"
  by (auto simp: membership_of_def intent_label_def Let_def split: option.splits)

lemma evidence_label_valid:
  assumes "clock_valid s" and "0 \<le> t" and "t \<le> UINT32_MAX" and "evidence_label s q t = (quality, seconds, uncertainty)"
  shows "quality \<in> QUALITIES" and "0 \<le> seconds" and "seconds \<le> UINT32_MAX"
    and "if quality = ''unknown'' then uncertainty = PyNone else nonnegative_finite uncertainty"
proof -
  have u: "0 \<le> u" if at_q: "evidence_at (clock_ranges s) q = Some (x, Some u, rest)" for x u rest
  proof -
    obtain r where "find (in_range q) (clock_ranges s) = Some r" "range_uncertainty r = Some u"
      using at_q by (auto simp: evidence_at_def evidence_of_def)
    then show ?thesis using find_in [of "in_range q" "clock_ranges s" r] assms(1) by (auto simp: clock_valid_def list_all_iff range_valid_def)
  qed
  show "quality \<in> QUALITIES" "0 \<le> seconds" "seconds \<le> UINT32_MAX"
    using assms(2-) by (auto simp: evidence_label_def QUALITIES_def split: if_splits option.splits)
  show "if quality = ''unknown'' then uncertainty = PyNone else nonnegative_finite uncertainty"
    using assms(4) u by (auto simp: evidence_label_def nonnegative_finite_def split: if_splits option.splits)
qed

lemma same_component_total:
  assumes "clock_valid s" and "0 \<le> t" and "t \<le> UINT32_MAX"
    and "\<forall>r \<in> set (clock_ranges s). \<forall>x. range_offset r = Some x \<longrightarrow> \<bar>x\<bar> \<le> pow2 1023"
  shows "\<exists>b. same_causal_component (projection_from_state s) q (membership_of s q t) p = Inr b"
proof (cases "kind_of (membership_of s q t) = ''mapped''")
  case True
  have raw: "kind_of (''mapped-raw:'' @ x) \<noteq> ''mapped''" "kind_of (''unknown-range:'' @ x) \<noteq> ''mapped''"
    "kind_of (''unknown-uncovered:'' @ x) \<noteq> ''mapped''" "kind_of (''unknown-intent:'' @ x) \<noteq> ''mapped''" for x
    by (simp_all add: kind_of_def)
  have "\<exists>c. find (iv_holds q) (components (projection_from_state s)) = Some c"
    using True raw component_exists [OF assms(1)] unfolding membership_of_def intent_label_def
    by (auto split: if_splits option.splits)
  then show ?thesis using mapped_component_find [OF assms(1)] by (auto simp: same_causal_component_def Let_def)
qed (auto simp: same_causal_component_def Let_def)

text \<open>A record of a valid clock state is always frozen, and its comparability is that of its causal component.\<close>

lemma freeze_run:
  assumes "clock_valid s" and "0 \<le> q" and "q \<le> UINT64_MAX" and "0 \<le> t" and "t \<le> UINT32_MAX"
    and "\<forall>r \<in> set (clock_ranges s). \<forall>x. range_offset r = Some x \<longrightarrow> \<bar>x\<bar> \<le> pow2 1023"
  shows "\<exists>time. freeze (projection_from_state s) q t predecessor = Inr time
    \<and> (time_quality time, time_seconds time, utc_uncertainty time) = evidence_label s q t"
proof -
  obtain quality seconds uncertainty where e: "evidence_label s q t = (quality, seconds, uncertainty)" by (metis prod_cases3)
  have l: "public_label_of (projection_from_state s) q t = Inr (quality, seconds, uncertainty, membership_of s q t)"
    using public_label_exact [OF assms(1,4,5,6)] e by simp
  have "\<exists>b. (case predecessor of None \<Rightarrow> Inr False | Some p \<Rightarrow>
      if pred_sequence p + 1 = q then same_causal_component (projection_from_state s) q (membership_of s q t) p else Inr False) = Inr b"
    using same_component_total [OF assms(1,4,5,6)] by (auto split: option.splits)
  then show ?thesis using assms(2-5) l e by (auto simp: freeze_def time_uint_def)
qed

section \<open>Comparability\<close>

lemma membership_cases:
  assumes "clock_valid s"
  obtains (intent) i where "undecided s q" and "clock_intent_of s = Some i" and "membership_of s q t = intent_label i q"
  | (uncovered) "\<not> undecided s q" and "find (in_range q) (clock_ranges s) = None" and "membership_of s q t = ''unknown-uncovered:'' @ str_int q"
  | (unmapped) r where "\<not> undecided s q" and "find (in_range q) (clock_ranges s) = Some r" and "fst (evidence_label s q t) = ''unknown''"
      and "membership_of s q t = ''unknown-range:'' @ str_int (range_start r) @ CHR '':'' # str_int (range_next r) @ CHR '':'' # range_source r"
  | (raw) r x where "\<not> undecided s q" and "find (in_range q) (clock_ranges s) = Some r" and "fst (evidence_label s q t) = ''unknown''"
      and "membership_of s q t = ''mapped-raw:'' @ str_int (range_start r) @ CHR '':'' # str_int (range_next r) @ CHR '':'' # float_hex x"
  | (mapped) r c where "\<not> undecided s q" and "find (in_range q) (clock_ranges s) = Some r" and "fst (evidence_label s q t) \<noteq> ''unknown''"
      and "find (iv_holds q) (components (projection_from_state s)) = Some c"
      and "membership_of s q t = ''mapped:'' @ str_int (fst c) @ CHR '':'' # str_int (snd c)"
proof (cases "undecided s q")
  case True
  then obtain i where "clock_intent_of s = Some i" by (auto simp: undecided_def split: option.splits)
  then show thesis using True intent by (simp add: membership_of_def)
next
  case False
  show thesis
  proof (cases "find (in_range q) (clock_ranges s)")
    case None
    then show thesis using False uncovered by (simp add: membership_of_def)
  next
    case (Some r)
    note r = this
    show thesis
    proof (cases "range_offset r")
      case None
      then show thesis using False r unmapped [of r] by (simp add: membership_of_def evidence_label_def evidence_at_def evidence_of_def)
    next
      case (Some x)
      then obtain c where c: "find (iv_holds q) (components (projection_from_state s)) = Some c"
        using component_exists [OF assms False r] by blast
      show thesis
      proof (cases "fst (evidence_label s q t) = ''unknown''")
        case True
        then show thesis using False r Some raw [of r x] by (simp add: membership_of_def)
      next
        case False
        then show thesis using \<open>\<not> undecided s q\<close> r Some c mapped [of r c] by (simp add: membership_of_def Let_def)
      qed
    qed
  qed
qed

lemma str_pair_inj:
  assumes "str_int a @ CHR '':'' # str_int b @ CHR '':'' # x = str_int c @ CHR '':'' # str_int d @ CHR '':'' # y"
  shows "a = c \<and> b = d"
  using str_field_inj [OF assms] str_field_inj by blast

lemma equal_memberships:
  assumes "clock_valid s" and "membership_of s q t = membership_of s q' t'" and "q \<noteq> q'"
  shows "\<not> undecided s q \<and> \<not> undecided s q' \<and>
    ((\<exists>r \<in> set (clock_ranges s). in_range q r \<and> in_range q' r) \<or> (\<exists>c \<in> set (components (projection_from_state s)). iv_holds q c \<and> iv_holds q' c))
    \<and> (if fst (evidence_label s q t) \<noteq> ''unknown'' then \<exists>c \<in> set (components (projection_from_state s)). iv_holds q c \<and> iv_holds q' c
       else \<exists>r \<in> set (clock_ranges s). in_range q r \<and> in_range q' r)"
proof -
  have bounds: "in_range q' r" if "in_range q' r'" "range_start r = range_start r'" "range_next r = range_next r'" for r r'
    using that by (simp add: in_range_def)
  show ?thesis using assms(1)
  proof (cases rule: membership_cases [where s = s and q = q and t = t])
    case (intent i)
    then show ?thesis
      by (cases rule: membership_cases [OF assms(1), where q = q' and t = t']) (use assms(2,3) in \<open>auto simp: intent_label_def dest: str_int_inj\<close>)
  next
    case uncovered
    then show ?thesis
      by (cases rule: membership_cases [OF assms(1), where q = q' and t = t']) (use assms(2,3) in \<open>auto simp: intent_label_def dest: str_int_inj\<close>)
  next
    case (unmapped r)
    note this' = this
    show ?thesis using assms(1)
    proof (cases rule: membership_cases [where s = s and q = q' and t = t'])
      case (unmapped r')
      then have "range_start r = range_start r' \<and> range_next r = range_next r'" using this' assms(2) by (auto dest: str_pair_inj)
      then show ?thesis using unmapped this' find_in bounds by (metis (no_types, lifting))
    qed (use this' assms(2) in \<open>auto simp: intent_label_def\<close>)
  next
    case (raw r x)
    note this' = this
    show ?thesis using assms(1)
    proof (cases rule: membership_cases [where s = s and q = q' and t = t'])
      case (raw r' x')
      then have "range_start r = range_start r' \<and> range_next r = range_next r'" using this' assms(2) by (auto dest: str_pair_inj)
      then show ?thesis using raw this' find_in bounds by (metis (no_types, lifting))
    qed (use this' assms(2) in \<open>auto simp: intent_label_def\<close>)
  next
    case (mapped r c)
    note this' = this
    show ?thesis using assms(1)
    proof (cases rule: membership_cases [where s = s and q = q' and t = t'])
      case (mapped r' c')
      then have "str_int (fst c) @ CHR '':'' # str_int (snd c) = str_int (fst c') @ CHR '':'' # str_int (snd c')" using this' assms(2) by simp
      then have "fst c = fst c' \<and> snd c = snd c'" using str_field_inj str_int_inj by blast
      then have "c = c'" by (simp add: prod_eq_iff)
      then show ?thesis using mapped this' find_in by (metis (no_types, lifting))
    qed (use this' assms(2) in \<open>auto simp: intent_label_def\<close>)
  qed
qed

lemma frozen_label:
  assumes "clock_valid s" and "\<forall>r \<in> set (clock_ranges s). \<forall>x. range_offset r = Some x \<longrightarrow> \<bar>x\<bar> \<le> pow2 1023"
    and "freeze (projection_from_state s) q t predecessor = Inr time"
  shows "causal_membership time = membership_of s q t" and "time_quality time = fst (evidence_label s q t)"
    and "comparable_to_previous time \<longleftrightarrow>
      (\<exists>p. predecessor = Some p \<and> pred_sequence p + 1 = q \<and> same_causal_component (projection_from_state s) q (membership_of s q t) p = Inr True)"
proof -
  have t: "0 \<le> t" "t \<le> UINT32_MAX" using assms(3) by (auto simp: freeze_def time_uint_def split: if_splits)
  note l = public_label_exact [OF assms(1) t assms(2), of q]
  show "causal_membership time = membership_of s q t" "time_quality time = fst (evidence_label s q t)"
    "comparable_to_previous time \<longleftrightarrow>
      (\<exists>p. predecessor = Some p \<and> pred_sequence p + 1 = q \<and> same_causal_component (projection_from_state s) q (membership_of s q t) p = Inr True)"
    using assms(3) by (auto simp: freeze_def time_uint_def l bind_result_Inr_iff split: if_splits option.splits)
qed

lemma kind_mapped:
  assumes "clock_valid s" and "kind_of (membership_of s q t) = ''mapped''"
  shows "\<not> undecided s q \<and> (\<exists>c. find (iv_holds q) (components (projection_from_state s)) = Some c)"
  by (cases rule: membership_cases [OF assms(1), where q = q and t = t])
    (use assms(2) in \<open>auto simp: intent_label_def kind_of_def\<close>)

lemma component_no_boundary:
  assumes "clock_valid s" and "c \<in> set (components (projection_from_state s))" and "iv_holds (q - 1) c" and "iv_holds q c"
  shows "q \<notin> causal_boundaries s"
  using components_ok(1) [OF assms(1)] assms(2-) by (fastforce simp: intervals_ok_def holds_at_def)

lemma comparable_edges_are_decided_parts:
  assumes "clock_valid s" and "\<forall>r \<in> set (clock_ranges s). \<forall>x. range_offset r = Some x \<longrightarrow> \<bar>x\<bar> \<le> pow2 1023"
    and "freeze (projection_from_state s) (q - 1) t' earlier = Inr previous"
    and "freeze (projection_from_state s) q t (Some \<lparr>pred_sequence = q - 1, pred_time = previous\<rparr>) = Inr time"
    and "comparable_to_previous time"
  shows "\<forall>(a, b) \<in> set (causal_uncertainty s). \<not> (a \<le> q \<and> q \<le> b)"
    and "\<not> undecided s (q - 1)" and "\<not> undecided s q"
    and "(\<exists>r \<in> set (clock_ranges s). in_range (q - 1) r \<and> in_range q r)
      \<or> (\<exists>c \<in> set (components (projection_from_state s)). iv_holds (q - 1) c \<and> iv_holds q c)"
    and "time_quality time \<noteq> ''unknown'' \<Longrightarrow> q \<notin> causal_boundaries s"
proof -
  let ?P = "projection_from_state s"
  have prev: "causal_membership previous = membership_of s (q - 1) t'" by (rule frozen_label(1) [OF assms(1-3)])
  have same: "same_causal_component ?P q (membership_of s q t) \<lparr>pred_sequence = q - 1, pred_time = previous\<rparr> = Inr True"
    using frozen_label(3) [OF assms(1,2,4)] assms(5) by auto
  have quality: "time_quality time = fst (evidence_label s q t)" by (rule frozen_label(2) [OF assms(1,2,4)])
  show "\<forall>(a, b) \<in> set (causal_uncertainty s). \<not> (a \<le> q \<and> q \<le> b)"
    using same by (auto simp: same_causal_component_def list_ex_iff split: if_splits)
  consider "membership_of s q t = membership_of s (q - 1) t'"
    | c where "kind_of (membership_of s q t) = ''mapped''" "kind_of (membership_of s (q - 1) t') = ''mapped''"
      "find (iv_holds q) (components ?P) = Some c" "iv_holds (q - 1) c"
    using same prev by (auto simp: same_causal_component_def Let_def mapped_component_find [OF assms(1)] bind_result_Inr_iff holds_at_def
        split: if_splits option.splits)
  then have *: "\<not> undecided s (q - 1) \<and> \<not> undecided s q
    \<and> ((\<exists>r \<in> set (clock_ranges s). in_range (q - 1) r \<and> in_range q r) \<or> (\<exists>c \<in> set (components ?P). iv_holds (q - 1) c \<and> iv_holds q c))
    \<and> (fst (evidence_label s q t) \<noteq> ''unknown'' \<longrightarrow> (\<exists>c \<in> set (components ?P). iv_holds (q - 1) c \<and> iv_holds q c))"
  proof cases
    case 1
    then show ?thesis using equal_memberships [OF assms(1), of q t "q - 1" t'] by auto
  next
    case (2 c)
    then show ?thesis using kind_mapped [OF assms(1)] find_in [OF 2(3)] by blast
  qed
  then show "\<not> undecided s (q - 1)" "\<not> undecided s q"
    "(\<exists>r \<in> set (clock_ranges s). in_range (q - 1) r \<and> in_range q r) \<or> (\<exists>c \<in> set (components ?P). iv_holds (q - 1) c \<and> iv_holds q c)"
    by blast+
  show "time_quality time \<noteq> ''unknown'' \<Longrightarrow> q \<notin> causal_boundaries s"
    using * quality component_no_boundary [OF assms(1)] by auto
qed

text \<open>
  A record is frozen as comparable with its predecessor only across an edge that the clock evidence decides: no
  completed clock write touches the sequence, neither record is undecided, and both lie in one range or in one
  component of mapped ranges.  A record with a known or approximate time is never comparable across the
  boundary of an empty uncertain write.
\<close>

theorem comparable_edges_are_decided:
  assumes "clock_valid s" and "\<forall>r \<in> set (clock_ranges s). \<forall>x. range_offset r = Some x \<longrightarrow> \<bar>x\<bar> \<le> pow2 1023"
    and "freeze (projection_from_state s) (q - 1) t' earlier = Inr previous"
    and "freeze (projection_from_state s) q t (Some \<lparr>pred_sequence = q - 1, pred_time = previous\<rparr>) = Inr time"
    and "comparable_to_previous time"
  shows "(\<forall>(a, b) \<in> set (causal_uncertainty s). \<not> (a \<le> q \<and> q \<le> b))
    \<and> \<not> undecided s (q - 1) \<and> \<not> undecided s q
    \<and> ((\<exists>r \<in> set (clock_ranges s). in_range (q - 1) r \<and> in_range q r)
      \<or> (\<exists>c \<in> set (components (projection_from_state s)). iv_holds (q - 1) c \<and> iv_holds q c))
    \<and> (time_quality time \<noteq> ''unknown'' \<longrightarrow> q \<notin> causal_boundaries s)"
  by (intro conjI impI comparable_edges_are_decided_parts [OF assms])

text \<open>Whether a record has a time, and what it takes to join it to the one before.\<close>

definition has_time :: "clock_state \<Rightarrow> int \<Rightarrow> int \<Rightarrow> bool" where
  "has_time s q t \<longleftrightarrow> fst (evidence_label s q t) \<noteq> ''unknown''"

definition edge_joined :: "clock_state \<Rightarrow> int \<Rightarrow> int \<Rightarrow> int \<Rightarrow> bool" where
  "edge_joined s q t' t \<longleftrightarrow>
     list_all (\<lambda>(a, b). \<not> (a \<le> q \<and> q \<le> b)) (causal_uncertainty s) \<and> \<not> undecided s (q - 1) \<and> \<not> undecided s q
   \<and> has_time s (q - 1) t' = has_time s q t
   \<and> (if has_time s q t then \<exists>c \<in> set (components (projection_from_state s)). iv_holds (q - 1) c \<and> iv_holds q c
      else \<exists>r \<in> set (clock_ranges s). in_range (q - 1) r \<and> in_range q r)"

lemma kind_has_time: "clock_valid s \<Longrightarrow> kind_of (membership_of s q t) = ''mapped'' \<longleftrightarrow> has_time s q t"
  by (cases rule: membership_cases [where s = s and q = q and t = t], assumption)
    (auto simp: kind_of_def intent_label_def has_time_def evidence_label_def evidence_at_def)

lemma find_range:
  assumes "clock_valid s" and "r \<in> set (clock_ranges s)" and "in_range q r"
  shows "find (in_range q) (clock_ranges s) = Some r"
proof -
  have "sorted_wrt apart rs \<Longrightarrow> r \<in> set rs \<Longrightarrow> find (in_range q) rs = Some r" for rs
    using assms(3)
  proof (induction rs)
    case (Cons x rs)
    have "\<not> in_range q x" if "r \<in> set rs" using that Cons.prems by (auto simp: apart_def before_def in_range_def)
    then show ?case using Cons by auto
  qed simp
  then show ?thesis using clock_valid_apart [OF assms(1)] assms(2) .
qed

lemma same_range_membership:
  assumes "clock_valid s" and "r \<in> set (clock_ranges s)" and "in_range q r" and "in_range q' r"
    and "\<not> undecided s q" and "\<not> undecided s q'" and "\<not> has_time s q t" and "\<not> has_time s q' t'"
  shows "membership_of s q t = membership_of s q' t'"
  using assms find_range [OF assms(1,2,3)] find_range [OF assms(1,2,4)] by (auto simp: membership_of_def has_time_def split: option.split)

lemma sorted_wrt_pair: "sorted_wrt R xs \<Longrightarrow> x \<in> set xs \<Longrightarrow> y \<in> set xs \<Longrightarrow> x \<noteq> y \<Longrightarrow> R x y \<or> R y x"
  by (induction xs) auto

lemma component_found:
  assumes "clock_valid s" and "c \<in> set (components (projection_from_state s))" and "iv_holds q c"
    and "find (iv_holds q) (components (projection_from_state s)) = Some d"
  shows "d = c"
proof (rule ccontr)
  assume "d \<noteq> c"
  moreover have "d \<in> set (components (projection_from_state s))" "iv_holds q d" using find_in [OF assms(4)] by auto
  moreover have "sorted_wrt (\<lambda>a b. snd a \<le> fst b) (components (projection_from_state s))"
    using components_ok(1) [OF assms(1)] by (simp add: intervals_ok_def)
  ultimately have "snd d \<le> fst c \<or> snd c \<le> fst d" using sorted_wrt_pair assms(2) by (metis (no_types, lifting))
  then show False using \<open>iv_holds q d\<close> assms(3) by (auto simp: holds_at_def)
qed

lemma edge_joined_iff:
  assumes v: "clock_valid s" and p: "pred_sequence p = q - 1" "causal_membership (pred_time p) = membership_of s (q - 1) t'"
  shows "same_causal_component (projection_from_state s) q (membership_of s q t) p = Inr True \<longleftrightarrow> edge_joined s q t' t"
proof
  let ?P = "projection_from_state s"
  assume "same_causal_component ?P q (membership_of s q t) p = Inr True"
  then have free: "list_all (\<lambda>(a, b). \<not> (a \<le> q \<and> q \<le> b)) (causal_uncertainty s)"
    and "membership_of s q t = membership_of s (q - 1) t'
      \<or> kind_of (membership_of s q t) = ''mapped'' \<and> kind_of (membership_of s (q - 1) t') = ''mapped''
        \<and> (\<exists>c. find (iv_holds q) (components ?P) = Some c \<and> iv_holds (q - 1) c)"
    using p by (auto simp: same_causal_component_def Let_def mapped_component_find [OF v] bind_result_Inr_iff holds_at_def
        list_ex_iff list_all_iff split: if_splits option.splits)
  from this(2) show "edge_joined s q t' t"
  proof
    assume same: "membership_of s q t = membership_of s (q - 1) t'"
    then have "has_time s (q - 1) t' = has_time s q t" using kind_has_time [OF v] by metis
    moreover have ne: "q \<noteq> q - 1" by simp
    note both = equal_memberships [OF v same ne]
    have "\<exists>c \<in> set (components ?P). iv_holds (q - 1) c \<and> iv_holds q c" if "has_time s q t"
      using both that unfolding has_time_def by auto
    moreover have "\<exists>r \<in> set (clock_ranges s). in_range (q - 1) r \<and> in_range q r" if "\<not> has_time s q t"
      using both that unfolding has_time_def by auto
    moreover have "\<not> undecided s q" "\<not> undecided s (q - 1)" using both by blast+
    ultimately show ?thesis using free unfolding edge_joined_def by simp
  next
    assume mapped: "kind_of (membership_of s q t) = ''mapped'' \<and> kind_of (membership_of s (q - 1) t') = ''mapped''
        \<and> (\<exists>c. find (iv_holds q) (components ?P) = Some c \<and> iv_holds (q - 1) c)"
    then obtain c where c: "find (iv_holds q) (components ?P) = Some c" "iv_holds (q - 1) c" by blast
    then have "c \<in> set (components ?P)" "iv_holds q c" using find_in [OF c(1)] by simp_all
    moreover have "has_time s q t" "has_time s (q - 1) t'" using mapped kind_has_time [OF v] by blast+
    moreover have "\<not> undecided s q" "\<not> undecided s (q - 1)" using mapped kind_mapped [OF v] by blast+
    ultimately show ?thesis using free c(2) unfolding edge_joined_def by auto
  qed
next
  let ?P = "projection_from_state s"
  assume e: "edge_joined s q t' t"
  have free: "\<not> list_ex (\<lambda>(a, b). a \<le> q \<and> q \<le> b) (causal_uncertainty s)"
    using e by (auto simp: edge_joined_def list_ex_iff list_all_iff)
  show "same_causal_component ?P q (membership_of s q t) p = Inr True"
  proof (cases "has_time s q t")
    case True
    then obtain c where c: "c \<in> set (components ?P)" "iv_holds (q - 1) c" "iv_holds q c" using e by (auto simp: edge_joined_def)
    obtain d where d: "find (iv_holds q) (components ?P) = Some d" using kind_mapped [OF v] kind_has_time [OF v] True by blast
    have "d = c" by (rule component_found [OF v c(1,3) d])
    have kinds: "kind_of (membership_of s q t) = ''mapped''" "kind_of (membership_of s (q - 1) t') = ''mapped''"
      using True e kind_has_time [OF v] by (auto simp: edge_joined_def)
    have "fst c \<le> q - 1 \<and> q - 1 < snd c" using c(2) by (simp add: holds_at_def)
    then show ?thesis
      using free kinds p d \<open>d = c\<close> by (simp add: same_causal_component_def Let_def mapped_component_find [OF v] case_prod_unfold)
  next
    case False
    then have "membership_of s q t = membership_of s (q - 1) t'"
      using e same_range_membership [OF v] unfolding edge_joined_def by (metis (no_types, lifting))
    then show ?thesis using free p by (simp add: same_causal_component_def)
  qed
qed



text \<open>A range of unknown offset, with the clock write that is pending over it.\<close>

definition unknown_sample :: "clock_intent option \<Rightarrow> clock_state" where
  "unknown_sample intent = \<lparr>clock_ranges = [\<lparr>range_start = 0, range_next = 10, range_offset = None, range_uncertainty = None, range_confidence = ''unknown'', range_source = ''a''\<rparr>],
      clock_intent_of = intent, clock_anchor_of = None, causal_uncertainty = []\<rparr>"

lemma unknown_sample_freeze:
  assumes "0 \<le> q" and "q < 10" and "0 \<le> t" and "t < 100" and "\<not> undecided (unknown_sample intent) q"
  shows "freeze (projection_from_state (unknown_sample intent)) q t p =
      bind_result (case p of None \<Rightarrow> Inr False | Some p \<Rightarrow> if pred_sequence p + 1 = q then same_causal_component (projection_from_state (unknown_sample intent)) q ''unknown-range:0:10:a'' p else Inr False)
       (\<lambda>b. Inr \<lparr>time_quality = ''unknown'', time_seconds = t, utc_uncertainty = PyNone, causal_membership = ''unknown-range:0:10:a'', comparable_to_previous = b\<rparr>)"
proof -
  have "public_label_of (projection_from_state (unknown_sample intent)) q t = Inr (''unknown'', t, PyNone, ''unknown-range:0:10:a'')"
    using assms by (simp add: public_label_of_undecided range_label_def clock_range_at_def bisect_right_def)
      (simp add: unknown_sample_def str_int_def str_nat.simps digit_char_def)
  then show ?thesis using assms by (simp add: freeze_def time_uint_def UINT64_MAX_def UINT32_MAX_def)
qed

lemma unknown_sample_comparable:
  assumes "\<not> undecided (unknown_sample intent) 3" and "\<not> undecided (unknown_sample intent) 4"
  shows "\<exists>previous time. freeze (projection_from_state (unknown_sample intent)) (4 - 1) 7 None = Inr previous
    \<and> freeze (projection_from_state (unknown_sample intent)) 4 8 (Some \<lparr>pred_sequence = 4 - 1, pred_time = previous\<rparr>) = Inr time
    \<and> comparable_to_previous time"
proof -
  have "causal_uncertainty (unknown_sample intent) = []" by (simp add: unknown_sample_def)
  then show ?thesis using assms by (simp add: unknown_sample_freeze same_causal_component_def)
qed

theorem comparable_edges_are_decided_witness:
  "\<exists>previous time. freeze (projection_from_state (unknown_sample None)) (4 - 1) 7 None = Inr previous
    \<and> freeze (projection_from_state (unknown_sample None)) 4 8 (Some \<lparr>pred_sequence = 4 - 1, pred_time = previous\<rparr>) = Inr time
    \<and> comparable_to_previous time \<and> \<not> undecided (unknown_sample None) 4"
proof -
  have v: "clock_valid (unknown_sample None)" "\<forall>r \<in> set (clock_ranges (unknown_sample None)). \<forall>x. range_offset r = Some x \<longrightarrow> \<bar>x\<bar> \<le> pow2 1023"
    by (simp_all add: unknown_sample_def clock_valid_def range_valid_def)
  obtain previous time where "freeze (projection_from_state (unknown_sample None)) (4 - 1) 7 None = Inr previous"
      "freeze (projection_from_state (unknown_sample None)) 4 8 (Some \<lparr>pred_sequence = 4 - 1, pred_time = previous\<rparr>) = Inr time" "comparable_to_previous time"
    using unknown_sample_comparable [of None] by (auto simp: undecided_def unknown_sample_def)
  then show ?thesis using comparable_edges_are_decided [OF v] by blast
qed

text \<open>
  C40: In a valid state with a pending uncertain write that is empty, within one range of unknown offset, the boundary of
  the write is lost: two adjacent records on its two sides are frozen as comparable, although \<open>causal_boundaries\<close> holds
  the sequence and unless a completed write touches it.
\<close>

theorem empty_write_in_unknown_range_is_comparable:
  assumes "clock_valid s" and "\<forall>r \<in> set (clock_ranges s). \<forall>x. range_offset r = Some x \<longrightarrow> \<bar>x\<bar> \<le> pow2 1023"
    and "clock_intent_of s = Some i" and "intent_phase i = ''uncertain''"
    and "write_sequence_before i = k" and "write_sequence_after i = Some k"
    and "r \<in> set (clock_ranges s)" and "range_offset r = None" and "in_range (k - 1) r" and "in_range k r" and "k \<le> UINT64_MAX"
    and "list_all (\<lambda>(a, b). \<not> (a \<le> k \<and> k \<le> b)) (causal_uncertainty s)"
    and "0 \<le> t'" and "t' \<le> UINT32_MAX" and "0 \<le> t" and "t \<le> UINT32_MAX"
  shows "k \<in> causal_boundaries s \<and> (\<exists>previous time. freeze (projection_from_state s) (k - 1) t' earlier = Inr previous
    \<and> freeze (projection_from_state s) k t (Some \<lparr>pred_sequence = k - 1, pred_time = previous\<rparr>) = Inr time
    \<and> comparable_to_previous time)"
proof -
  have "range_valid r" using assms(1,7) by (auto simp: clock_valid_def list_all_iff)
  then have k: "0 \<le> k - 1" using assms(9) by (simp add: range_valid_def in_range_def)
  obtain previous where p: "freeze (projection_from_state s) (k - 1) t' earlier = Inr previous"
    using freeze_run [OF assms(1) k _ assms(13,14,2)] assms(11) by auto
  let ?p = "\<lparr>pred_sequence = k - 1, pred_time = previous\<rparr>"
  obtain time where f: "freeze (projection_from_state s) k t (Some ?p) = Inr time"
    using freeze_run [OF assms(1) _ assms(11,15,16,2)] k by auto
  have decided: "\<not> undecided s q" for q using assms(3-6) by (simp add: undecided_def)
  have "\<not> has_time s q u" if "in_range q r" for q u
    using find_range [OF assms(1,7) that] decided assms(8)
    by (simp add: has_time_def evidence_label_def evidence_at_def evidence_of_def)
  then have "edge_joined s k t' t"
    using assms(7,9,10,12) decided by (auto simp: edge_joined_def)
  then have "comparable_to_previous time"
    using frozen_label(3) [OF assms(1,2) f] edge_joined_iff [OF assms(1), of ?p] frozen_label(1) [OF assms(1,2) p] by simp
  moreover have "k \<in> causal_boundaries s" using assms(3-6) by (simp add: causal_boundaries_def)
  ultimately show ?thesis using p f by blast
qed

theorem empty_write_in_unknown_range_is_comparable_witness:
  "\<exists>s previous time. 4 \<in> causal_boundaries s \<and> freeze (projection_from_state s) (4 - 1) 7 None = Inr previous
    \<and> freeze (projection_from_state s) 4 8 (Some \<lparr>pred_sequence = 4 - 1, pred_time = previous\<rparr>) = Inr time
    \<and> comparable_to_previous time"
proof -
  let ?i = "\<lparr>operation_id = ''w'', intent_phase = ''uncertain'', observed_epoch = 0, target_epoch = 0,
    host_midpoint = 0, write_sequence_before = 4, write_sequence_after = Some 4\<rparr>"
  let ?r = "\<lparr>range_start = 0, range_next = 10, range_offset = None, range_uncertainty = None, range_confidence = ''unknown'', range_source = ''a''\<rparr>"
  let ?s = "unknown_sample (Some ?i)"
  have v: "clock_valid ?s" "\<forall>r \<in> set (clock_ranges ?s). \<forall>x. range_offset r = Some x \<longrightarrow> \<bar>x\<bar> \<le> pow2 1023"
      "clock_intent_of ?s = Some ?i" "?r \<in> set (clock_ranges ?s)" "causal_uncertainty ?s = []"
    by (simp_all add: unknown_sample_def clock_valid_def range_valid_def intent_valid_def)
  have "4 \<in> causal_boundaries ?s \<and> (\<exists>previous time. freeze (projection_from_state ?s) (4 - 1) 7 None = Inr previous
    \<and> freeze (projection_from_state ?s) 4 8 (Some \<lparr>pred_sequence = 4 - 1, pred_time = previous\<rparr>) = Inr time
    \<and> comparable_to_previous time)"
    by (rule empty_write_in_unknown_range_is_comparable [OF v(1,2,3) _ _ _ v(4)])
      (simp_all add: v(5) in_range_def UINT64_MAX_def UINT32_MAX_def)
  then show ?thesis by blast
qed

end
