(* ===== verification/Replay_Proof.thy ===== *)
theory Replay_Proof
  imports Float64
begin

text \<open>
  Normalization runs and page proofs of private replay data (\<open>domain/replay_proof.py\<close>): the two packed tables
  and their readers, the normalization of one record, the proof pages and their validation.  SHA-256 is a
  parameter.  A nr's offset is a double, held by its bits as the \<open>struct\<close> format \<open>>d\<close> packs it.
\<close>

section \<open>Data\<close>

datatype replay_error = ReplayValueError string | ReplayOverflowError | ReplayStructError

datatype normalization_mode = RAW | MAPPED

record normalization_run =
  run_first :: int
  run_next :: int
  offset_seconds :: f64
  run_mode :: normalization_mode
  run_boundary :: int

record proof_page =
  page_first :: int
  page_count :: int
  page_hashes :: bytes
  page_sha256 :: bytes

definition RECORD_BYTES :: nat where "RECORD_BYTES = 444"
definition HASH_BYTES :: nat where "HASH_BYTES = 32"
definition MAX_PAGE_RECORDS :: nat where "MAX_PAGE_RECORDS = 128"
definition BOUNDARY_MASK :: int where "BOUNDARY_MASK = 3"
definition RUN_SIZE :: nat where "RUN_SIZE = 32"
definition PAGE_INDEX_ENTRY_SIZE :: nat where "PAGE_INDEX_ENTRY_SIZE = 42"

definition PAGE_DOMAIN :: bytes where
  "PAGE_DOMAIN = map (\<lambda>c. word_of_nat (of_char c)) ''omi-collector-replay-proof-page-v1'' @ [0]"

section \<open>Validation\<close>

text \<open>The checks of types that the code makes at run time hold by the types of the fields.\<close>

definition run_valid :: "normalization_run \<Rightarrow> bool" where
  "run_valid nr \<longleftrightarrow>
     0 \<le> run_first nr \<and> run_first nr < run_next nr \<and> run_next nr < 2 ^ 64
   \<and> f64_finite (offset_seconds nr)
   \<and> 0 \<le> run_boundary nr \<and> run_boundary nr \<le> BOUNDARY_MASK
   \<and> (run_mode nr = RAW \<longrightarrow> f64_value (offset_seconds nr) = 0 \<and> \<not> f64_negative (offset_seconds nr))"

definition validate_run :: "normalization_run \<Rightarrow> (replay_error, unit) result" where
  "validate_run nr = require (run_valid nr) (ReplayValueError ''normalization run is invalid'')"

definition validate_count :: "int \<Rightarrow> (replay_error, unit) result" where
  "validate_count count = require (0 \<le> count \<and> count < 2 ^ 64) (ReplayValueError ''record count is outside uint64'')"

definition validate_index :: "int \<Rightarrow> (replay_error, unit) result" where
  "validate_index index = require (0 \<le> index \<and> index < 2 ^ 64) (ReplayValueError ''record index is outside uint64'')"

section \<open>Normalization runs\<close>

fun mode_value :: "normalization_mode \<Rightarrow> int" where
  "mode_value RAW = 0"
| "mode_value MAPPED = 1"

definition mode_of :: "int \<Rightarrow> (replay_error, normalization_mode) result" where
  "mode_of v = (if v = 0 then Inr RAW else if v = 1 then Inr MAPPED else Inl (ReplayValueError ''normalization mode is invalid''))"

text \<open>\<open>struct.Struct(">QQdBB6x").pack\<close>\<close>

definition pack_run :: "normalization_run \<Rightarrow> bytes" where
  "pack_run nr = to_bytes_big 8 (run_first nr) @ to_bytes_big 8 (run_next nr) @ to_bytes_big 8 (uint (offset_seconds nr))
     @ to_bytes_big 1 (mode_value (run_mode nr)) @ to_bytes_big 1 (run_boundary nr) @ replicate 6 0"

fun pack_runs_from :: "int \<Rightarrow> int \<Rightarrow> normalization_run list \<Rightarrow> (replay_error, bytes) result" where
  "pack_runs_from record_count next_index [] =
     (if next_index \<noteq> record_count then Inl (ReplayValueError ''normalization runs must cover every record'') else Inr [])"
| "pack_runs_from record_count next_index (nr # runs) =
     bind_result (validate_run nr) (\<lambda>_.
     if run_first nr \<noteq> next_index \<or> record_count < run_next nr
     then Inl (ReplayValueError ''normalization runs must be sorted and exhaustive'')
     else bind_result (pack_runs_from record_count (run_next nr) runs) (\<lambda>rest. Inr (pack_run nr @ rest)))"

definition pack_normalization_runs :: "normalization_run list \<Rightarrow> int \<Rightarrow> (replay_error, bytes) result" where
  "pack_normalization_runs runs record_count =
     bind_result (validate_count record_count) (\<lambda>_. pack_runs_from record_count 0 runs)"

text \<open>The slices of a blob at the offsets \<open>range(0, len(blob), width)\<close>.\<close>

definition strides :: "nat \<Rightarrow> 'a list \<Rightarrow> 'a list list" where
  "strides width blob = map (\<lambda>i. slice_of (i * width) (i * width + width) blob) [0..<(length blob + width - 1) div width]"

fun unpack_runs_from :: "int \<Rightarrow> int \<Rightarrow> bytes list \<Rightarrow> (replay_error, normalization_run list) result" where
  "unpack_runs_from record_count next_index [] =
     (if next_index \<noteq> record_count then Inl (ReplayValueError ''normalization runs must cover every record'') else Inr [])"
| "unpack_runs_from record_count next_index (entry # entries) =
     (let first = from_bytes_big (slice_of 0 8 entry); end_index = from_bytes_big (slice_of 8 16 entry);
          seconds = word_of_int (from_bytes_big (slice_of 16 24 entry));
          value = from_bytes_big (slice_of 24 25 entry); boundary = from_bytes_big (slice_of 25 26 entry) in
      if slice_of 26 32 entry \<noteq> replicate 6 0 then Inl (ReplayValueError ''normalization run reserved bytes must be zero'')
      else bind_result (mode_of value) (\<lambda>mode.
      let nr = \<lparr>run_first = first, run_next = end_index, offset_seconds = seconds, run_mode = mode, run_boundary = boundary\<rparr> in
      bind_result (validate_run nr) (\<lambda>_.
      if first \<noteq> next_index \<or> record_count < end_index
      then Inl (ReplayValueError ''normalization runs must be sorted and exhaustive'')
      else bind_result (unpack_runs_from record_count end_index entries) (\<lambda>runs. Inr (nr # runs)))))"

definition unpack_normalization_runs :: "bytes \<Rightarrow> int \<Rightarrow> (replay_error, normalization_run list) result" where
  "unpack_normalization_runs blob record_count =
     bind_result (validate_count record_count) (\<lambda>_.
     if length blob mod RUN_SIZE \<noteq> 0 then Inl (ReplayValueError ''normalization run blob has invalid length'')
     else unpack_runs_from record_count 0 (strides RUN_SIZE blob))"

text \<open>\<open>math.floor(timestamp + offset + 0.5)\<close> in double arithmetic; \<open>math.floor\<close> of an infinity raises.\<close>

definition rounded_seconds :: "int \<Rightarrow> f64 \<Rightarrow> (replay_error, int) result" where
  "rounded_seconds timestamp seconds =
     (case rounded_sum timestamp (f64_value seconds) of None \<Rightarrow> Inl ReplayOverflowError | Some n \<Rightarrow> Inr n)"

definition normalize_record :: "bytes \<Rightarrow> normalization_run \<Rightarrow> (replay_error, bytes) result" where
  "normalize_record record nr =
     bind_result (validate_run nr) (\<lambda>_.
     if length record \<noteq> RECORD_BYTES then Inl (ReplayValueError ''record must be exactly 444 bytes'')
     else if run_mode nr = RAW then Inr record
     else bind_result (rounded_seconds (from_bytes_big (take 4 record)) (offset_seconds nr)) (\<lambda>normalized.
       if \<not> (0 \<le> normalized \<and> normalized < 2 ^ 32) then Inl (ReplayValueError ''normalized timestamp is outside uint32'')
       else Inr (to_bytes_big 4 normalized @ drop 4 record)))"

section \<open>Proof pages\<close>

definition record_sha256 :: "(bytes \<Rightarrow> bytes) \<Rightarrow> bytes \<Rightarrow> (replay_error, bytes) result" where
  "record_sha256 sha256 normalized_record =
     (if length normalized_record \<noteq> RECORD_BYTES then Inl (ReplayValueError ''record must be exactly 444 bytes'')
      else Inr (sha256 normalized_record))"

text \<open>\<open>struct.pack(">QH", first, count)\<close>\<close>

definition pack_header :: "int \<Rightarrow> int \<Rightarrow> (replay_error, bytes) result" where
  "pack_header first count =
     (if 0 \<le> first \<and> first < 2 ^ 64 \<and> 0 \<le> count \<and> count < 2 ^ 16 then Inr (to_bytes_big 8 first @ to_bytes_big 2 count)
      else Inl ReplayStructError)"

definition make_page :: "(bytes \<Rightarrow> bytes) \<Rightarrow> int \<Rightarrow> int \<Rightarrow> bytes \<Rightarrow> (replay_error, proof_page) result" where
  "make_page sha256 first_index count hashes =
     bind_result (pack_header first_index count) (\<lambda>header.
     Inr \<lparr>page_first = first_index, page_count = count, page_hashes = hashes, page_sha256 = sha256 (PAGE_DOMAIN @ header @ hashes)\<rparr>)"

text \<open>The generator, run to its end.\<close>

fun build_pages_from :: "(bytes \<Rightarrow> bytes) \<Rightarrow> int \<Rightarrow> bytes \<Rightarrow> nat \<Rightarrow> bytes list \<Rightarrow> (replay_error, proof_page list) result" where
  "build_pages_from sha256 first_index hashes count [] =
     (if count \<noteq> 0 then bind_result (make_page sha256 first_index (int count) hashes) (\<lambda>page. Inr [page]) else Inr [])"
| "build_pages_from sha256 first_index hashes count (record # records) =
     bind_result (record_sha256 sha256 record) (\<lambda>digest.
     if Suc count = MAX_PAGE_RECORDS
     then bind_result (make_page sha256 first_index (int (Suc count)) (hashes @ digest)) (\<lambda>page.
          bind_result (build_pages_from sha256 (first_index + int (Suc count)) [] 0 records) (\<lambda>pages. Inr (page # pages)))
     else build_pages_from sha256 first_index (hashes @ digest) (Suc count) records)"

definition build_proof_pages :: "(bytes \<Rightarrow> bytes) \<Rightarrow> bytes list \<Rightarrow> (replay_error, proof_page list) result" where
  "build_proof_pages sha256 records = build_pages_from sha256 0 [] 0 records"

definition validate_proof_page :: "(bytes \<Rightarrow> bytes) \<Rightarrow> proof_page \<Rightarrow> int option \<Rightarrow> (replay_error, bytes list) result" where
  "validate_proof_page sha256 page expected_first =
     bind_result (validate_index (page_first page)) (\<lambda>_.
     bind_result (require (1 \<le> page_count page \<and> page_count page \<le> int MAX_PAGE_RECORDS)
       (ReplayValueError ''proof page record count is invalid'')) (\<lambda>_.
     bind_result (require (page_first page + page_count page < 2 ^ 64) (ReplayValueError ''proof page range is outside uint64'')) (\<lambda>_.
     bind_result (case expected_first of None \<Rightarrow> Inr ()
        | Some expected \<Rightarrow> bind_result (validate_index expected) (\<lambda>_.
            require (page_first page = expected) (ReplayValueError ''proof page index is unexpected''))) (\<lambda>_.
     bind_result (require (int (length (page_hashes page)) = page_count page * int HASH_BYTES)
       (ReplayValueError ''proof page hashes have invalid length'')) (\<lambda>_.
     bind_result (require (length (page_sha256 page) = HASH_BYTES) (ReplayValueError ''proof page hash has invalid length'')) (\<lambda>_.
     bind_result (pack_header (page_first page) (page_count page)) (\<lambda>header.
     bind_result (require (sha256 (PAGE_DOMAIN @ header @ page_hashes page) = page_sha256 page)
       (ReplayValueError ''proof page hash does not match its contents'')) (\<lambda>_.
     Inr (strides HASH_BYTES (page_hashes page))))))))))"

fun pack_index_from :: "(bytes \<Rightarrow> bytes) \<Rightarrow> int \<Rightarrow> int \<Rightarrow> proof_page list \<Rightarrow> (replay_error, bytes) result" where
  "pack_index_from sha256 record_count next_index [] =
     (if next_index \<noteq> record_count then Inl (ReplayValueError ''proof pages must cover every record'') else Inr [])"
| "pack_index_from sha256 record_count next_index (page # pages) =
     bind_result (validate_proof_page sha256 page (Some next_index)) (\<lambda>_.
     if record_count < page_first page + page_count page then Inl (ReplayValueError ''proof pages exceed record count'')
     else bind_result (pack_index_from sha256 record_count (next_index + page_count page) pages) (\<lambda>rest.
       Inr (to_bytes_big 8 (page_first page) @ to_bytes_big 2 (page_count page) @ page_sha256 page @ rest)))"

definition pack_page_index :: "(bytes \<Rightarrow> bytes) \<Rightarrow> proof_page list \<Rightarrow> int \<Rightarrow> (replay_error, bytes) result" where
  "pack_page_index sha256 pages record_count =
     bind_result (validate_count record_count) (\<lambda>_. pack_index_from sha256 record_count 0 pages)"

fun unpack_index_from :: "int \<Rightarrow> int \<Rightarrow> bytes list \<Rightarrow> (replay_error, (int \<times> int \<times> bytes) list) result" where
  "unpack_index_from record_count next_index [] =
     (if next_index \<noteq> record_count then Inl (ReplayValueError ''page index entries must cover every record'') else Inr [])"
| "unpack_index_from record_count next_index (entry # entries) =
     (let first = from_bytes_big (slice_of 0 8 entry); count = from_bytes_big (slice_of 8 10 entry); digest = slice_of 10 42 entry in
      if first \<noteq> next_index \<or> \<not> (1 \<le> count \<and> count \<le> int MAX_PAGE_RECORDS) \<or> record_count < first + count
      then Inl (ReplayValueError ''page index entries must be contiguous and exhaustive'')
      else bind_result (unpack_index_from record_count (next_index + count) entries) (\<lambda>pages. Inr ((first, count, digest) # pages)))"

definition unpack_page_index :: "bytes \<Rightarrow> int \<Rightarrow> (replay_error, (int \<times> int \<times> bytes) list) result" where
  "unpack_page_index blob record_count =
     bind_result (validate_count record_count) (\<lambda>_.
     if length blob mod PAGE_INDEX_ENTRY_SIZE \<noteq> 0 then Inl (ReplayValueError ''page index blob has invalid length'')
     else unpack_index_from record_count 0 (strides PAGE_INDEX_ENTRY_SIZE blob))"

section \<open>Strides\<close>

lemma strides_Nil [simp]: "0 < w \<Longrightarrow> strides w [] = []"
  by (simp add: strides_def)

lemma strides_append:
  assumes "length c = w" and "0 < w"
  shows "strides w (c @ xs) = c # strides w xs"
proof -
  have k: "(length (c @ xs) + w - 1) div w = Suc ((length xs + w - 1) div w)"
  proof -
    have "length (c @ xs) + w - 1 = w + (length xs + w - 1)" using assms by simp
    then show ?thesis using assms(2) by (simp only: div_add_self1)
  qed
  have first: "slice_of 0 w (c @ xs) = c" using assms by (simp add: slice_of_def)
  have "slice_of (Suc i * w) (Suc i * w + w) (c @ xs) = slice_of (i * w) (i * w + w) xs" for i
    using assms by (simp add: slice_of_append_right add.commute)
  then show ?thesis
    unfolding strides_def k using first by (simp add: map_upt_Suc del: upt_Suc)
qed

lemma strides_concat: "0 < w \<Longrightarrow> \<forall>c \<in> set cs. length c = w \<Longrightarrow> strides w (concat cs) = cs"
  by (induction cs) (simp_all add: strides_append)

lemma strides_whole:
  assumes "0 < w" and "length xs mod w = 0"
  shows "concat (strides w xs) = xs \<and> (\<forall>c \<in> set (strides w xs). length c = w)"
  using assms(2)
proof (induction "length xs" arbitrary: xs rule: less_induct)
  case less
  show ?case
  proof (cases "xs = []")
    case False
    with less.prems assms(1) have w: "w \<le> length xs" by (cases "length xs < w") auto
    have s: "strides w xs = take w xs # strides w (drop w xs)"
      using strides_append [of "take w xs" w "drop w xs"] w assms(1) by simp
    have "length (drop w xs) mod w = 0" using less.prems le_mod_geq [OF w] by simp
    moreover have "length (drop w xs) < length xs" using w assms(1) by simp
    ultimately have "concat (strides w (drop w xs)) = drop w xs \<and> (\<forall>c \<in> set (strides w (drop w xs)). length c = w)"
      by (intro less.hyps)
    with s obtain cs where "strides w xs = take w xs # cs" "concat cs = drop w xs" "\<forall>c \<in> set cs. length c = w" by blast
    then show ?thesis using w by simp
  qed (use assms(1) in simp)
qed

section \<open>Runs are packed and read without loss\<close>

lemma length_pack_run: "length (pack_run r) = RUN_SIZE"
  by (simp add: pack_run_def RUN_SIZE_def)

text \<open>The entry that the reader makes of 32 bytes before it looks at its neighbours.\<close>

definition read_run :: "bytes \<Rightarrow> (replay_error, normalization_run) result" where
  "read_run entry =
     (if slice_of 26 32 entry \<noteq> replicate 6 0 then Inl (ReplayValueError ''normalization run reserved bytes must be zero'')
      else bind_result (mode_of (from_bytes_big (slice_of 24 25 entry))) (\<lambda>mode.
      let r = \<lparr>run_first = from_bytes_big (slice_of 0 8 entry), run_next = from_bytes_big (slice_of 8 16 entry),
        offset_seconds = word_of_int (from_bytes_big (slice_of 16 24 entry)), run_mode = mode, run_boundary = from_bytes_big (slice_of 25 26 entry)\<rparr> in
      bind_result (validate_run r) (\<lambda>_. Inr r)))"

lemma unpack_runs_from_Cons:
  "unpack_runs_from record_count next_index (entry # entries) =
     bind_result (read_run entry) (\<lambda>r.
     if run_first r \<noteq> next_index \<or> record_count < run_next r
     then Inl (ReplayValueError ''normalization runs must be sorted and exhaustive'')
     else bind_result (unpack_runs_from record_count (run_next r) entries) (\<lambda>runs. Inr (r # runs)))"
  by (cases "mode_of (from_bytes_big (slice_of 24 25 entry))") (simp_all add: read_run_def Let_def validate_run_def)

lemma read_pack_run:
  assumes "run_valid r"
  shows "read_run (pack_run r) = Inr r"
proof -
  have b: "0 \<le> run_first r" "run_first r < 256 ^ 8" "0 \<le> run_next r" "run_next r < 256 ^ 8" "0 \<le> run_boundary r" "run_boundary r < 256 ^ 1"
    using assms by (simp_all add: run_valid_def BOUNDARY_MASK_def)
  have u: "0 \<le> uint (offset_seconds r)" "uint (offset_seconds r) < 256 ^ 8"
    using uint_range_size [of "offset_seconds r"] by (simp_all add: word_size)
  have m: "0 \<le> mode_value (run_mode r)" "mode_value (run_mode r) < 256 ^ 1" "mode_of (mode_value (run_mode r)) = Inr (run_mode r)"
    by (cases "run_mode r"; simp add: mode_of_def)+
  have f: "slice_of 26 32 (pack_run r) = replicate 6 0" "slice_of 24 25 (pack_run r) = to_bytes_big 1 (mode_value (run_mode r))"
    "slice_of 0 8 (pack_run r) = to_bytes_big 8 (run_first r)" "slice_of 8 16 (pack_run r) = to_bytes_big 8 (run_next r)"
    "slice_of 16 24 (pack_run r) = to_bytes_big 8 (uint (offset_seconds r))" "slice_of 25 26 (pack_run r) = to_bytes_big 1 (run_boundary r)"
    unfolding pack_run_def slice_of_def by (simp_all del: to_bytes_big.simps One_nat_def)
  show ?thesis
    using assms m(3) unfolding read_run_def f from_to_bytes_big [OF b(1,2)] from_to_bytes_big [OF b(3,4)] from_to_bytes_big [OF b(5,6)]
      from_to_bytes_big [OF u] from_to_bytes_big [OF m(1,2)] by (cases r) (simp add: validate_run_def Let_def)
qed

lemma pack_read_run:
  assumes "length entry = RUN_SIZE" and "read_run entry = Inr r"
  shows "pack_run r = entry \<and> run_valid r"
proof -
  obtain mode where z: "slice_of 26 32 entry = replicate 6 0" and mode: "mode_of (from_bytes_big (slice_of 24 25 entry)) = Inr mode"
    and r: "r = \<lparr>run_first = from_bytes_big (slice_of 0 8 entry), run_next = from_bytes_big (slice_of 8 16 entry),
        offset_seconds = word_of_int (from_bytes_big (slice_of 16 24 entry)), run_mode = mode, run_boundary = from_bytes_big (slice_of 25 26 entry)\<rparr>"
    and v: "run_valid r"
    using assms(2) by (auto simp: read_run_def Let_def validate_run_def bind_result_Inr_iff split: if_splits)
  have m: "mode_value mode = from_bytes_big (slice_of 24 25 entry)" using mode by (auto simp: mode_of_def split: if_splits)
  have "uint (word_of_int (from_bytes_big (slice_of 16 24 entry)) :: f64) = from_bytes_big (slice_of 16 24 entry)"
    using be.field_range [of 16 8 entry] assms(1) by (simp add: RUN_SIZE_def uint_word_of_int)
  then have "pack_run r = slice_of 0 8 entry @ slice_of 8 16 entry @ slice_of 16 24 entry @ slice_of 24 25 entry @ slice_of 25 26 entry @ slice_of 26 32 entry"
    using be.field_back [of 0 8 entry] be.field_back [of 8 8 entry] be.field_back [of 16 8 entry] be.field_back [of 24 1 entry] be.field_back [of 25 1 entry] assms(1)
    unfolding pack_run_def r m z by (simp add: m RUN_SIZE_def del: to_bytes_big.simps One_nat_def)
  also have "\<dots> = slice_of 0 32 entry" by (simp add: slice_of_join)
  also have "\<dots> = entry" using assms(1) by (simp add: RUN_SIZE_def slice_of_whole)
  finally show ?thesis using v by simp
qed

lemma unpack_runs_pack:
  "pack_runs_from n i runs = Inr blob \<Longrightarrow> unpack_runs_from n i (map pack_run runs) = Inr runs \<and> blob = concat (map pack_run runs)"
proof (induction runs arbitrary: i blob)
  case (Cons r runs)
  then have v: "run_valid r" by (auto simp: validate_run_def split: if_splits)
  with Cons show ?case
    by (auto simp: unpack_runs_from_Cons read_pack_run validate_run_def bind_result_Inr_iff simp del: unpack_runs_from.simps(2) split: if_splits)
qed (auto split: if_splits)

lemma pack_runs_unpack:
  "unpack_runs_from n i entries = Inr runs \<Longrightarrow> \<forall>e \<in> set entries. length e = RUN_SIZE \<Longrightarrow> pack_runs_from n i runs = Inr (concat entries)"
proof (induction entries arbitrary: i runs)
  case (Cons e entries)
  obtain r rest where r: "read_run e = Inr r" "run_first r = i" "run_next r \<le> n" "unpack_runs_from n (run_next r) entries = Inr rest" "runs = r # rest"
    using Cons.prems(1) by (auto simp: unpack_runs_from_Cons bind_result_Inr_iff simp del: unpack_runs_from.simps(2) split: if_splits)
  then show ?case using Cons pack_read_run [of e r] by (simp add: validate_run_def)
qed (auto split: if_splits)

text \<open>
  C32: the packed table of normalization runs is canonical: a blob unpacks to a list of runs exactly when packing that
  list gives the blob, byte for byte, reserved bytes and the bits of the offsets included.  Every other blob and every
  list with a gap, an overlap, an invalid run or a missing tail is refused by both.
\<close>

theorem normalization_runs_bijective:
  "unpack_normalization_runs blob n = Inr runs \<longleftrightarrow> pack_normalization_runs runs n = Inr blob"
proof
  assume u: "unpack_normalization_runs blob n = Inr runs"
  then have n: "0 \<le> n" "n < 2 ^ 64" and len: "length blob mod RUN_SIZE = 0" and r: "unpack_runs_from n 0 (strides RUN_SIZE blob) = Inr runs"
    by (auto simp: unpack_normalization_runs_def validate_count_def split: if_splits)
  have "0 < RUN_SIZE" by (simp add: RUN_SIZE_def)
  note w = strides_whole [OF this len]
  then have "concat (strides RUN_SIZE blob) = blob" "\<forall>e \<in> set (strides RUN_SIZE blob). length e = RUN_SIZE" by blast+
  then show "pack_normalization_runs runs n = Inr blob"
    using pack_runs_unpack [OF r] n by (simp add: pack_normalization_runs_def validate_count_def)
next
  assume p: "pack_normalization_runs runs n = Inr blob"
  then have c: "0 \<le> n" "n < 2 ^ 64" "pack_runs_from n 0 runs = Inr blob"
    by (auto simp: pack_normalization_runs_def validate_count_def split: if_splits)
  have s: "strides RUN_SIZE (concat (map pack_run runs)) = map pack_run runs"
    by (rule strides_concat) (auto simp: length_pack_run RUN_SIZE_def)
  have "length (concat (map pack_run runs)) = length runs * RUN_SIZE"
    by (induction runs) (simp_all add: length_pack_run)
  then show "unpack_normalization_runs blob n = Inr runs"
    using unpack_runs_pack [OF c(3)] c(1,2) s by (simp add: unpack_normalization_runs_def validate_count_def)
qed

section \<open>Pages prove their records\<close>

text \<open>The page of a list of digests, and the pages that cover a list of digests from an index on.\<close>

definition page_of :: "(bytes \<Rightarrow> bytes) \<Rightarrow> int \<Rightarrow> bytes list \<Rightarrow> proof_page" where
  "page_of sha256 i hs = \<lparr>page_first = i, page_count = int (length hs), page_hashes = concat hs,
     page_sha256 = sha256 (PAGE_DOMAIN @ (to_bytes_big 8 i @ to_bytes_big 2 (int (length hs))) @ concat hs)\<rparr>"

inductive pages_cover :: "(bytes \<Rightarrow> bytes) \<Rightarrow> int \<Rightarrow> proof_page list \<Rightarrow> bytes list \<Rightarrow> bool" for sha256 where
  cover_end: "pages_cover sha256 i [] []"
| cover_page: "1 \<le> length hs \<Longrightarrow> length hs \<le> MAX_PAGE_RECORDS \<Longrightarrow> pages_cover sha256 (i + int (length hs)) pages ds \<Longrightarrow>
    pages_cover sha256 i (page_of sha256 i hs # pages) (hs @ ds)"

lemma make_page_of:
  "0 \<le> i \<Longrightarrow> i < 2 ^ 64 \<Longrightarrow> length hs \<le> MAX_PAGE_RECORDS \<Longrightarrow> make_page sha256 i (int (length hs)) (concat hs) = Inr (page_of sha256 i hs)"
  by (simp add: make_page_def pack_header_def page_of_def MAX_PAGE_RECORDS_def)

lemma build_pages_cover:
  assumes "\<forall>r \<in> set records. length r = RECORD_BYTES" and "length pend < MAX_PAGE_RECORDS"
    and "0 \<le> i" and "i + int (length pend + length records) < 2 ^ 64"
  shows "\<exists>pages. build_pages_from sha256 i (concat pend) (length pend) records = Inr pages
    \<and> pages_cover sha256 i pages (pend @ map sha256 records)"
  using assms
proof (induction records arbitrary: i pend)
  case Nil
  then show ?case
    using make_page_of [of i pend sha256] cover_page [OF _ _ cover_end, of pend sha256 i] cover_end [of sha256 i]
    by (cases pend) auto
next
  case (Cons r rs)
  let ?pend = "pend @ [sha256 r]"
  show ?case
  proof (cases "Suc (length pend) = MAX_PAGE_RECORDS")
    case True
    have "\<exists>pages. build_pages_from sha256 (i + int (length ?pend)) (concat []) (length ([] :: bytes list)) rs = Inr pages
        \<and> pages_cover sha256 (i + int (length ?pend)) pages ([] @ map sha256 rs)"
      using Cons.prems by (intro Cons.IH) (simp_all add: MAX_PAGE_RECORDS_def)
    then obtain pages where p: "build_pages_from sha256 (i + int (length ?pend)) [] 0 rs = Inr pages"
        "pages_cover sha256 (i + int (length ?pend)) pages (map sha256 rs)" by auto
    have "pages_cover sha256 i (page_of sha256 i ?pend # pages) (?pend @ map sha256 rs)"
      using True p(2) by (intro cover_page) simp_all
    moreover have "make_page sha256 i (int (length ?pend)) (concat ?pend) = Inr (page_of sha256 i ?pend)"
      using Cons.prems True by (intro make_page_of) simp_all
    ultimately show ?thesis using Cons.prems(1) True p(1) by (simp add: record_sha256_def add.commute)
  next
    case False
    have "\<exists>pages. build_pages_from sha256 i (concat ?pend) (length ?pend) rs = Inr pages \<and> pages_cover sha256 i pages (?pend @ map sha256 rs)"
      using Cons.prems False by (intro Cons.IH) simp_all
    then show ?thesis using Cons.prems(1) False by (simp add: record_sha256_def)
  qed
qed

lemma pages_cover_range: "pages_cover sha256 i pages ds \<Longrightarrow> 0 \<le> i \<Longrightarrow>
    \<forall>p \<in> set pages. i \<le> page_first p \<and> page_first p + page_count p \<le> i + int (length ds)"
proof (induction rule: pages_cover.induct)
  case (cover_page hs i pages ds)
  then show ?case by (fastforce simp: page_of_def)
qed simp

lemma page_of_validates:
  assumes "\<And>x. length (sha256 x) = HASH_BYTES" and "1 \<le> length hs" and "length hs \<le> MAX_PAGE_RECORDS"
    and "\<forall>h \<in> set hs. length h = HASH_BYTES" and "0 \<le> i" and "i + int (length hs) < 2 ^ 64" and "e = None \<or> e = Some i"
  shows "validate_proof_page sha256 (page_of sha256 i hs) e = Inr hs"
proof -
  have "length (concat hs) = length hs * HASH_BYTES" using assms(4) by (induction hs) simp_all
  then have len: "int (length (concat hs)) = int (length hs) * int HASH_BYTES" by simp
  have "strides HASH_BYTES (concat hs) = hs" using assms(4) by (intro strides_concat) (simp_all add: HASH_BYTES_def)
  then show ?thesis
    using assms len by (auto simp: validate_proof_page_def page_of_def validate_index_def pack_header_def MAX_PAGE_RECORDS_def)
qed

definition index_entry :: "proof_page \<Rightarrow> bytes" where
  "index_entry p = to_bytes_big 8 (page_first p) @ to_bytes_big 2 (page_count p) @ page_sha256 p"

lemma pages_cover_index:
  assumes "pages_cover sha256 i pages ds" and "\<And>x. length (sha256 x) = HASH_BYTES" and "\<forall>h \<in> set ds. length h = HASH_BYTES"
    and "0 \<le> i" and "n = i + int (length ds)" and "n < 2 ^ 64"
  shows "pack_index_from sha256 n i pages = Inr (concat (map index_entry pages))
    \<and> unpack_index_from n i (map index_entry pages) = Inr (map (\<lambda>p. (page_first p, page_count p, page_sha256 p)) pages)
    \<and> (\<exists>hss. list_all2 (\<lambda>p hs. validate_proof_page sha256 p None = Inr hs) pages hss \<and> concat hss = ds)"
  using assms
proof (induction rule: pages_cover.induct)
  case (cover_page hs i pages ds)
  let ?p = "page_of sha256 i hs"
  have v: "validate_proof_page sha256 ?p e = Inr hs" if "e = None \<or> e = Some i" for e
    using cover_page that by (intro page_of_validates) simp_all
  have IH: "pack_index_from sha256 n (i + int (length hs)) pages = Inr (concat (map index_entry pages))"
      "unpack_index_from n (i + int (length hs)) (map index_entry pages) = Inr (map (\<lambda>p. (page_first p, page_count p, page_sha256 p)) pages)"
      "\<exists>hss. list_all2 (\<lambda>p hs. validate_proof_page sha256 p None = Inr hs) pages hss \<and> concat hss = ds"
    using cover_page by simp_all
  have c: "int (length hs) < 256 ^ 2" "i < 256 ^ 8" "length hs \<le> 128" using cover_page by (simp_all add: MAX_PAGE_RECORDS_def)
  have f: "from_bytes_big (slice_of 0 8 (index_entry ?p)) = i" "from_bytes_big (slice_of 8 10 (index_entry ?p)) = int (length hs)"
      "slice_of 10 42 (index_entry ?p) = page_sha256 ?p"
    using be.field_at [of "[]" 0 i 8] be.field_at [of "to_bytes_big 8 i" 8 "int (length hs)" 2 "page_sha256 ?p"] c cover_page.prems(1,3)
    by (simp_all add: index_entry_def page_of_def slice_of_def HASH_BYTES_def)
  obtain hss where "list_all2 (\<lambda>p hs. validate_proof_page sha256 p None = Inr hs) (?p # pages) (hs # hss)" "concat (hs # hss) = hs @ ds"
    using IH(3) v [of None] by auto
  moreover have "pack_index_from sha256 n i (?p # pages) = Inr (concat (map index_entry (?p # pages)))"
    using IH(1) v [of "Some i"] cover_page.prems(4) by (simp add: page_of_def index_entry_def)
  moreover have "unpack_index_from n i (map index_entry (?p # pages)) = Inr (map (\<lambda>p. (page_first p, page_count p, page_sha256 p)) (?p # pages))"
    using IH(2) f c cover_page.hyps(1) cover_page.prems(4) by (simp add: Let_def MAX_PAGE_RECORDS_def page_of_def)
  ultimately show ?case by blast
qed simp

text \<open>
  C33: for fewer than \<open>2 ^ 64\<close> records of the record size and a digest of 32 bytes the page builder succeeds; each page
  passes validation, the digests that validation returns are those of the records, in order and complete; the page
  index packs and reads back as the pages' ranges and hashes.
\<close>

theorem proof_pages_verify:
  assumes "\<And>x. length (sha256 x) = HASH_BYTES" and "\<forall>r \<in> set records. length r = RECORD_BYTES" and "int (length records) < 2 ^ 64"
  shows "\<exists>pages hss blob. build_proof_pages sha256 records = Inr pages
    \<and> list_all2 (\<lambda>p hs. validate_proof_page sha256 p None = Inr hs) pages hss \<and> concat hss = map sha256 records
    \<and> pack_page_index sha256 pages (int (length records)) = Inr blob
    \<and> unpack_page_index blob (int (length records)) = Inr (map (\<lambda>p. (page_first p, page_count p, page_sha256 p)) pages)"
proof -
  obtain pages where p: "build_proof_pages sha256 records = Inr pages" "pages_cover sha256 0 pages (map sha256 records)"
    using build_pages_cover [of records "[]" 0 sha256] assms(2,3) by (auto simp: build_proof_pages_def MAX_PAGE_RECORDS_def)
  have d: "\<forall>h \<in> set (map sha256 records). length h = HASH_BYTES" using assms(1) by simp
  note ix = pages_cover_index [OF p(2) assms(1) d order.refl, of "int (length records)"]
  let ?blob = "concat (map index_entry pages)"
  have e: "\<forall>c \<in> set (map index_entry pages). length c = PAGE_INDEX_ENTRY_SIZE"
  proof -
    have "\<forall>pg \<in> set pages. length (page_sha256 pg) = HASH_BYTES"
      using p(2) assms(1) by (induction rule: pages_cover.induct) (simp_all add: page_of_def)
    then show ?thesis by (simp add: index_entry_def HASH_BYTES_def PAGE_INDEX_ENTRY_SIZE_def)
  qed
  have "length ?blob = length pages * PAGE_INDEX_ENTRY_SIZE" using e by (induction pages) simp_all
  then have l: "length ?blob mod PAGE_INDEX_ENTRY_SIZE = 0" by simp
  have s: "strides PAGE_INDEX_ENTRY_SIZE ?blob = map index_entry pages"
    using e by (intro strides_concat) (simp_all add: PAGE_INDEX_ENTRY_SIZE_def)
  obtain hss where "list_all2 (\<lambda>p hs. validate_proof_page sha256 p None = Inr hs) pages hss" "concat hss = map sha256 records"
    using ix assms(3) by auto
  moreover have "pack_page_index sha256 pages (int (length records)) = Inr ?blob"
    using ix assms(3) by (simp add: pack_page_index_def validate_count_def)
  moreover have "unpack_page_index ?blob (int (length records)) = Inr (map (\<lambda>p. (page_first p, page_count p, page_sha256 p)) pages)"
    using ix assms(3) l unfolding unpack_page_index_def s by (simp add: validate_count_def)
  ultimately show ?thesis using p(1) by blast
qed

theorem proof_pages_verify_witness:
  "\<exists>pages hss blob. build_proof_pages (\<lambda>_. replicate HASH_BYTES 7) (replicate 200 (replicate RECORD_BYTES 1)) = Inr pages
    \<and> list_all2 (\<lambda>p hs. validate_proof_page (\<lambda>_. replicate HASH_BYTES 7) p None = Inr hs) pages hss
    \<and> concat hss = replicate 200 (replicate HASH_BYTES 7)
    \<and> pack_page_index (\<lambda>_. replicate HASH_BYTES 7) pages 200 = Inr blob
    \<and> unpack_page_index blob 200 = Inr (map (\<lambda>p. (page_first p, page_count p, page_sha256 p)) pages)"
proof -
  let ?rs = "replicate 200 (replicate RECORD_BYTES (1 :: byte))"
  have n: "int (length ?rs) = 200" by (simp only: length_replicate of_nat_numeral)
  have r: "\<forall>r \<in> set ?rs. length r = RECORD_BYTES" by (auto simp only: in_set_replicate length_replicate)
  have l: "int (length ?rs) < 2 ^ 64" unfolding n by simp
  show ?thesis
    using proof_pages_verify [of "\<lambda>_. replicate HASH_BYTES 7", OF length_replicate r l] unfolding n map_replicate .
qed

section \<open>The normalized timestamp\<close>

lemma pow2_53: "pow2 (- 53) = 1 / 2 ^ 53" and pow2_1074: "pow2 (- 1074) \<le> 1 / 2 ^ 53"
proof -
  show "pow2 (- 53) = 1 / 2 ^ 53" by (simp add: pow2_def)
  then show "pow2 (- 1074) \<le> 1 / 2 ^ 53" using pow2_mono [of "- 1074" "- 53"] by simp
qed

lemma two_roundings:
  fixes a b q fb :: rat
  assumes "\<bar>a - q\<bar> \<le> \<bar>q\<bar> / 2 ^ 53 + 1 / 2 ^ 53" and "\<bar>b - (a + 1 / 2)\<bar> \<le> \<bar>a + 1 / 2\<bar> / 2 ^ 53 + 1 / 2 ^ 53"
    and "0 \<le> b" and "b < 2 ^ 32" and "fb \<le> b" and "b < fb + 1"
  shows "\<bar>fb - q\<bar> \<le> 1 / 2 + 1 / 2 ^ 19"
proof -
  have "\<bar>a + 1 / 2\<bar> \<le> 2 ^ 32 + 1" using assms(2-4) by (simp add: abs_le_iff abs_if field_simps split: if_splits)
  then have e2: "\<bar>b - (a + 1 / 2)\<bar> \<le> 1 / 2 ^ 20" using assms(2) by simp
  have "\<bar>q\<bar> \<le> 2 ^ 32 + 3" using assms(1) \<open>\<bar>a + 1 / 2\<bar> \<le> 2 ^ 32 + 1\<close> by (simp add: abs_le_iff abs_if split: if_splits)
  then have "\<bar>a - q\<bar> \<le> 1 / 2 ^ 20" using assms(1) by simp
  with e2 assms(5,6) show ?thesis by (auto simp: abs_if field_simps split: if_splits)
qed

lemma normalized_record_bounds_parts:
  assumes "normalize_record record r = Inr out"
  shows "length out = RECORD_BYTES" and "drop 4 out = drop 4 record"
    and "\<bar>of_int (from_bytes_big (take 4 out)) - (of_int (from_bytes_big (take 4 record)) + f64_value (offset_seconds r))\<bar> \<le> 1 / 2 + 1 / 2 ^ 19"
    and "run_mode r = RAW \<Longrightarrow> out = record"
proof -
  have v: "run_valid r" and len: "length record = RECORD_BYTES"
    using assms by (auto simp: normalize_record_def validate_run_def split: if_splits)
  let ?t = "from_bytes_big (take 4 record)"
  let ?q = "of_int ?t + f64_value (offset_seconds r)"
  show "out = record" if "run_mode r = RAW" using that assms v len by (simp add: normalize_record_def validate_run_def)
  show "length out = RECORD_BYTES" "drop 4 out = drop 4 record"
    using assms v len by (auto simp: normalize_record_def validate_run_def bind_result_Inr_iff RECORD_BYTES_def split: if_splits)
  show "\<bar>of_int (from_bytes_big (take 4 out)) - ?q\<bar> \<le> 1 / 2 + 1 / 2 ^ 19"
  proof (cases "run_mode r")
    case RAW
    then have "out = record" "f64_value (offset_seconds r) = 0"
      using assms v len by (simp_all add: normalize_record_def validate_run_def run_valid_def)
    then show ?thesis by simp
  next
    case MAPPED
    obtain a b where ab: "nearest_f64 ?q = Some a" "nearest_f64 (a + 1 / 2) = Some b" "0 \<le> \<lfloor>b\<rfloor>" "\<lfloor>b\<rfloor> < 2 ^ 32"
        and out: "out = to_bytes_big 4 \<lfloor>b\<rfloor> @ drop 4 record"
      using assms v len MAPPED
      by (auto simp: normalize_record_def validate_run_def rounded_seconds_def rounded_sum_def bind_result_Inr_iff split: if_splits option.splits)
    have stamp: "from_bytes_big (take 4 out) = \<lfloor>b\<rfloor>" using ab(3,4) by (simp add: out from_to_bytes_big)
    have e1: "\<bar>a - ?q\<bar> \<le> \<bar>?q\<bar> / 2 ^ 53 + 1 / 2 ^ 53" using nearest_f64_error [OF ab(1)] pow2_1074 by (simp add: pow2_53)
    have e2: "\<bar>b - (a + 1 / 2)\<bar> \<le> \<bar>a + 1 / 2\<bar> / 2 ^ 53 + 1 / 2 ^ 53" using nearest_f64_error [OF ab(2)] pow2_1074 by (simp add: pow2_53)
    have b: "0 \<le> b" "b < 2 ^ 32" using ab(3,4) by (simp_all add: le_floor_iff floor_less_iff)
    have fl: "of_int \<lfloor>b\<rfloor> \<le> b" "b < of_int \<lfloor>b\<rfloor> + 1" by linarith+
    show ?thesis unfolding stamp using two_roundings [OF e1 e2 b fl] by simp
  qed
qed

text \<open>
  A normalized record has the size of a record, keeps every byte after the timestamp, and its new timestamp
  differs from the exact sum of timestamp and offset by at most one half plus the error of two double roundings,
  which for timestamps of 32 bits is below \<open>2 ^ -19\<close>.  A raw run leaves the record as it is.
\<close>

theorem normalized_record_bounds:
  assumes "normalize_record record r = Inr out"
  shows "length out = RECORD_BYTES \<and> drop 4 out = drop 4 record
    \<and> \<bar>of_int (from_bytes_big (take 4 out)) - (of_int (from_bytes_big (take 4 record)) + f64_value (offset_seconds r))\<bar> \<le> 1 / 2 + 1 / 2 ^ 19
    \<and> (run_mode r = RAW \<longrightarrow> out = record)"
  by (intro conjI impI normalized_record_bounds_parts [OF assms])

lemma nearest_small:
  assumes "ulp_of q = u" and "round_even (q / u) = m" and "of_int m * u = q" and "\<bar>q\<bar> \<le> 16"
  shows "nearest_f64 q = Some q"
proof -
  have "(16 :: rat) = pow2 4" by (simp add: pow2_def)
  also have "\<dots> < pow2 5" by (simp add: pow2_def)
  also have "\<dots> \<le> pow2 1024" by (rule pow2_mono) simp
  finally show ?thesis using assms by (simp add: nearest_f64_def Let_def)
qed

lemma sample_rounding: "rounded_seconds 10 0x3FF8000000000000 = Inr 12"
proof -
  have v: "f64_value 0x3FF8000000000000 = 3 / 2"
    by (simp add: f64_value_def f64_negative_def f64_exponent_def f64_fraction_def pow2_def)
  have f: "floorlog 2 11 = 4" "floorlog 2 12 = 4" by (simp_all add: compute_floorlog)
  have fl: "\<lfloor>23 / 2 :: rat\<rfloor> = 11" by (simp add: floor_eq_iff)
  have "nearest_f64 (23 / 2) = Some (23 / 2)"
    by (rule nearest_small [of _ "1 / 2 ^ 49" "23 * 2 ^ 48"]) (simp_all add: ulp_of_def exponent_of_def f fl pow2_def round_even_def)
  moreover have "nearest_f64 12 = Some 12"
    by (rule nearest_small [of _ "1 / 2 ^ 49" "12 * 2 ^ 49"]) (simp_all add: ulp_of_def exponent_of_def f fl pow2_def round_even_def)
  ultimately show ?thesis by (simp add: rounded_seconds_def rounded_sum_def v)
qed

theorem normalized_record_bounds_witness:
  "\<exists>out. normalize_record (to_bytes_big 4 10 @ replicate 440 9)
      \<lparr>run_first = 0, run_next = 1, offset_seconds = 0x3FF8000000000000, run_mode = MAPPED, run_boundary = 0\<rparr> = Inr out
    \<and> length out = RECORD_BYTES \<and> drop 4 out = replicate 440 9"
proof -
  let ?r = "\<lparr>run_first = 0, run_next = 1, offset_seconds = 0x3FF8000000000000, run_mode = MAPPED, run_boundary = 0\<rparr>"
  have "rounded_seconds 10 0x3FF8000000000000 = Inr 12" "run_valid ?r" by (rule sample_rounding, code_simp)
  then obtain out where out: "normalize_record (to_bytes_big 4 10 @ replicate 440 9) ?r = Inr out"
    by (simp add: normalize_record_def validate_run_def RECORD_BYTES_def from_to_bytes_big del: to_bytes_big.simps)
  show ?thesis using out normalized_record_bounds [OF out] by simp
qed

end
