(* ===== verification/Clock_Store.thy ===== *)
theory Clock_Store
  imports Clock_Segments
begin

text \<open>
  The durable clock state (\<open>adapters/clock_state_store.py\<close>): the payload and the migration mark that it keeps in the
  collector's database, the one-time annotation of unknown ranges, and the five transactions.  A transaction whose
  body raises is rolled back, so an error returns no database.

  The store refines \<open>Clock_State\<close>: through the payload, every transaction is the operation on the state it holds.
\<close>

section \<open>The store\<close>

text \<open>The rows \<open>(CLOCK, "current")\<close> and \<open>(MIGRATION, "clock-causal-uncertainty-v1")\<close> of the database.\<close>

record clock_db =
  clock_row :: "(string \<times> py_value) list option"
  migration_row :: "(string \<times> py_value) list option"

definition empty_clock :: clock_state where
  "empty_clock = \<lparr>clock_ranges = [], clock_intent_of = None, clock_anchor_of = None, causal_uncertainty = []\<rparr>"

definition annotate_unknown :: "clock_state \<Rightarrow> clock_state" where
  "annotate_unknown state =
     (let uncertain = map (\<lambda>item. (range_start item, range_next item)) (filter (\<lambda>item. range_offset item = None) (clock_ranges state)) in
      state\<lparr>causal_uncertainty := sort (remdups (causal_uncertainty state @ uncertain))\<rparr>)"

definition row_state :: "(string \<times> py_value) list option \<Rightarrow> (clock_error, clock_state) result" where
  "row_state row = (case row of Some payload \<Rightarrow> from_payload (PyDict payload) | None \<Rightarrow> Inr empty_clock)"

definition store_state :: "clock_db \<Rightarrow> (clock_error, clock_state) result" where
  "store_state db =
     bind_result (row_state (clock_row db)) (\<lambda>state. Inr (if migration_row db \<noteq> None then state else annotate_unknown state))"

definition store_segment_map :: "clock_db \<Rightarrow> (clock_error + segment_error, clock_segment list) result" where
  "store_segment_map db =
     (case store_state db of
        Inl e \<Rightarrow> Inl (Inl e)
      | Inr state \<Rightarrow> (case segments_from_state state of Inl e \<Rightarrow> Inl (Inr e) | Inr m \<Rightarrow> Inr m))"

definition load_current :: "clock_db \<Rightarrow> (clock_error, clock_db \<times> clock_state) result" where
  "load_current db =
     bind_result (row_state (clock_row db)) (\<lambda>state.
     if migration_row db = None
     then let state' = annotate_unknown state;
              db' = (if clock_row db \<noteq> None then db\<lparr>clock_row := Some (to_payload state')\<rparr> else db) in
       Inr (db'\<lparr>migration_row := Some [(''complete'', PyBool True)]\<rparr>, state')
     else Inr (db, state))"

definition store_observe ::
  "clock_db \<Rightarrow> ring_info \<Rightarrow> rat \<Rightarrow> rat \<Rightarrow> string \<Rightarrow> rat \<Rightarrow> (clock_error, clock_db \<times> clock_state) result" where
  "store_observe db info offset uncertainty source tolerance =
     bind_result (load_current db) (\<lambda>(db', state).
     let earlier = to_payload state in
     bind_result (clock_observe state info offset uncertainty source tolerance) (\<lambda>state'.
     Inr (if to_payload state' \<noteq> earlier then db'\<lparr>clock_row := Some (to_payload state')\<rparr> else db', state')))"

definition store_put :: "(clock_state \<Rightarrow> (clock_error, clock_state) result) \<Rightarrow> clock_db \<Rightarrow> (clock_error, clock_db \<times> clock_state) result" where
  "store_put operation db =
     bind_result (load_current db) (\<lambda>(db', state).
     bind_result (operation state) (\<lambda>state'. Inr (db'\<lparr>clock_row := Some (to_payload state')\<rparr>, state')))"

definition store_prepare :: "clock_db \<Rightarrow> clock_intent \<Rightarrow> (clock_error, clock_db \<times> clock_state) result" where
  "store_prepare db intent = store_put (\<lambda>s. begin_intent s intent) db"

definition store_mark_uncertain :: "clock_db \<Rightarrow> string \<Rightarrow> int option \<Rightarrow> (clock_error, clock_db \<times> clock_state) result" where
  "store_mark_uncertain db op after = store_put (\<lambda>s. mark_uncertain s op after) db"

definition store_cancel_prepared :: "clock_db \<Rightarrow> string \<Rightarrow> (clock_error, clock_db \<times> clock_state) result" where
  "store_cancel_prepared db op = store_put (\<lambda>s. cancel_prepared_intent s op) db"

definition store_finish :: "clock_db \<Rightarrow> string \<Rightarrow> clock_range list \<Rightarrow> (clock_error, clock_db \<times> clock_state) result" where
  "store_finish db op ranges = store_put (\<lambda>s. finish_intent s op ranges) db"

section \<open>Requests\<close>

datatype clock_request =
    Observe ring_info rat rat string rat
  | Prepare clock_intent
  | Mark_Uncertain string "int option"
  | Cancel_Prepared string
  | Finish string "clock_range list"

text \<open>What the constructors of the arguments have already checked.\<close>

fun request_valid :: "clock_request \<Rightarrow> bool" where
  "request_valid (Observe info offset uncertainty source tolerance) \<longleftrightarrow>
     0 \<le> read_sequence info \<and> 0 \<le> write_sequence info \<and> 0 \<le> uncertainty \<and> source \<noteq> []"
| "request_valid (Prepare intent) \<longleftrightarrow> intent_valid intent"
| "request_valid (Finish op ranges) \<longleftrightarrow> list_all range_valid ranges"
| "request_valid _ \<longleftrightarrow> True"

fun clock_apply :: "clock_state \<Rightarrow> clock_request \<Rightarrow> (clock_error, clock_state) result" where
  "clock_apply s (Observe info offset uncertainty source tolerance) = clock_observe s info offset uncertainty source tolerance"
| "clock_apply s (Prepare intent) = begin_intent s intent"
| "clock_apply s (Mark_Uncertain op after) = mark_uncertain s op after"
| "clock_apply s (Cancel_Prepared op) = cancel_prepared_intent s op"
| "clock_apply s (Finish op ranges) = finish_intent s op ranges"

fun store_apply :: "clock_db \<Rightarrow> clock_request \<Rightarrow> (clock_error, clock_db \<times> clock_state) result" where
  "store_apply db (Observe info offset uncertainty source tolerance) = store_observe db info offset uncertainty source tolerance"
| "store_apply db (Prepare intent) = store_prepare db intent"
| "store_apply db (Mark_Uncertain op after) = store_mark_uncertain db op after"
| "store_apply db (Cancel_Prepared op) = store_cancel_prepared db op"
| "store_apply db (Finish op ranges) = store_finish db op ranges"

text \<open>A history of requests; one that raises changes nothing.\<close>

definition clock_after :: "clock_state \<Rightarrow> clock_request list \<Rightarrow> clock_state" where
  "clock_after = foldl (\<lambda>s r. case clock_apply s r of Inl _ \<Rightarrow> s | Inr t \<Rightarrow> t)"

definition store_after :: "clock_db \<Rightarrow> clock_request list \<Rightarrow> clock_db" where
  "store_after = foldl (\<lambda>db r. case store_apply db r of Inl _ \<Rightarrow> db | Inr (db', _) \<Rightarrow> db')"

section \<open>The store refines the state\<close>

lemma clock_apply_valid:
  assumes "clock_valid s" and "request_valid r" and "clock_apply s r = Inr t"
  shows "clock_valid t"
proof (cases r)
  case (Observe info offset uncertainty source tolerance)
  then obtain u where "observe_range s info offset source tolerance = Inr u" "clock_valid u"
    using observe_range_ok [OF assms(1)] assms(2) by (metis request_valid.simps(1))
  then show ?thesis using assms(2,3) Observe observe_anchor_ok [of u info uncertainty source s offset tolerance]
    by (auto simp: clock_observe_def)
next
  case (Mark_Uncertain op after)
  then show ?thesis using assms(1,3)
    by (auto simp: mark_uncertain_def validated_intent_def clock_valid_def bind_result_Inr_iff split: option.splits if_splits)
next
  case (Finish op ranges)
  then show ?thesis using finish_intent_boundary [OF assms(1)] assms(2,3) by force
qed (use assms in \<open>auto simp: begin_intent_def cancel_prepared_intent_def clock_valid_def split: if_splits option.splits\<close>)

lemma annotate_valid: "clock_valid s \<Longrightarrow> clock_valid (annotate_unknown s)"
  by (auto simp: clock_valid_def annotate_unknown_def list_all_iff range_valid_def causal_interval_valid_def)

text \<open>What a database holds.\<close>

definition holds :: "clock_db \<Rightarrow> clock_state \<Rightarrow> bool" where
  "holds db s \<longleftrightarrow> store_state db = Inr s \<and> clock_valid s"

lemma annotate_empty: "annotate_unknown empty_clock = empty_clock"
  by (simp add: annotate_unknown_def empty_clock_def)

lemma load_current_holds:
  assumes "holds db s"
  shows "\<exists>db'. load_current db = Inr (db', s) \<and> holds db' s \<and> migration_row db' \<noteq> None
    \<and> (migration_row db \<noteq> None \<longrightarrow> db' = db)"
proof -
  have v: "clock_valid s" using assms by (simp add: holds_def)
  have written: "row_state (Some (to_payload s)) = Inr s" using payload_reads_back [OF v] by (simp add: row_state_def)
  show ?thesis
  proof (cases "migration_row db")
    case None
    then obtain s0 where s0: "row_state (clock_row db) = Inr s0" "s = annotate_unknown s0"
      using assms by (auto simp: holds_def store_state_def bind_result_Inr_iff)
    show ?thesis
    proof (cases "clock_row db")
      case None
      then have "s0 = empty_clock" using s0(1) by (simp add: row_state_def)
      then show ?thesis
        using s0 None \<open>migration_row db = None\<close> v by (simp add: load_current_def holds_def store_state_def row_state_def annotate_empty)
    next
      case (Some payload)
      then show ?thesis
        using s0 \<open>migration_row db = None\<close> v written by (simp add: load_current_def holds_def store_state_def Let_def)
    qed
  next
    case (Some m)
    then show ?thesis using assms by (auto simp: holds_def load_current_def store_state_def bind_result_Inr_iff)
  qed
qed

lemma put_holds: "clock_valid t \<Longrightarrow> migration_row db \<noteq> None \<Longrightarrow> holds (db\<lparr>clock_row := Some (to_payload t)\<rparr>) t"
  using payload_reads_back [of t] by (simp add: holds_def store_state_def row_state_def)

lemma store_put_refines:
  assumes "holds db s" and "\<And>t. operation s = Inr t \<Longrightarrow> clock_valid t"
  shows "(case operation s of Inl e \<Rightarrow> store_put operation db = Inl e | Inr t \<Rightarrow> \<exists>db'. store_put operation db = Inr (db', t) \<and> holds db' t)"
proof -
  obtain db' where "load_current db = Inr (db', s)" "migration_row db' \<noteq> None" using load_current_holds [OF assms(1)] by blast
  then show ?thesis using assms(2) put_holds by (cases "operation s") (auto simp: store_put_def)
qed

lemma store_apply_refines:
  assumes "holds db s" and "request_valid r"
  shows "(case clock_apply s r of Inl e \<Rightarrow> store_apply db r = Inl e | Inr t \<Rightarrow> \<exists>db'. store_apply db r = Inr (db', t) \<and> holds db' t)"
proof -
  have v: "clock_valid s" using assms(1) by (simp add: holds_def)
  note put = store_put_refines [OF assms(1)] and keep = clock_apply_valid [OF v assms(2)]
  have direct: ?thesis if e: "store_apply db r = store_put (\<lambda>s. clock_apply s r) db"
    unfolding e by (rule put) (rule keep)
  show ?thesis
  proof (cases r)
    case (Observe info offset uncertainty source tolerance)
    obtain db' where db': "load_current db = Inr (db', s)" "migration_row db' \<noteq> None" "holds db' s" using load_current_holds [OF assms(1)] by blast
    show ?thesis
    proof (cases "clock_observe s info offset uncertainty source tolerance")
      case (Inr t)
      then have t: "clock_valid t" using keep Observe by simp
      have same: "t = s" if "to_payload t = to_payload s"
        using payload_reads_back [OF t] payload_reads_back [OF v] unfolding that by simp
      have "store_apply db r = Inr (if to_payload t \<noteq> to_payload s then db'\<lparr>clock_row := Some (to_payload t)\<rparr> else db', t)"
        using Inr Observe db'(1) by (simp add: store_observe_def Let_def)
      moreover have "holds (if to_payload t \<noteq> to_payload s then db'\<lparr>clock_row := Some (to_payload t)\<rparr> else db') t"
        using put_holds [OF t db'(2)] db'(3) same by (cases "to_payload t = to_payload s") simp_all
      ultimately show ?thesis using Inr Observe by simp
    qed (use Observe db' in \<open>simp add: store_observe_def Let_def\<close>)
  next
    case (Prepare i)
    show ?thesis by (rule direct) (use Prepare in \<open>simp add: store_prepare_def\<close>)
  next
    case (Mark_Uncertain op after)
    show ?thesis by (rule direct) (use Mark_Uncertain in \<open>simp add: store_mark_uncertain_def\<close>)
  next
    case (Cancel_Prepared op)
    show ?thesis by (rule direct) (use Cancel_Prepared in \<open>simp add: store_cancel_prepared_def\<close>)
  next
    case (Finish op ranges)
    show ?thesis by (rule direct) (use Finish in \<open>simp add: store_finish_def\<close>)
  qed
qed

lemma clock_store_refines_parts:
  assumes "store_state db = Inr s" and "clock_valid s" and "\<forall>r \<in> set requests. request_valid r"
  shows "store_state (store_after db requests) = Inr (clock_after s requests)"
    and "clock_valid (clock_after s requests)"
    and "\<exists>m. store_segment_map (store_after db requests) = Inr m"
proof -
  have "holds (store_after db requests) (clock_after s requests)"
    using assms(3)
  proof (induction requests rule: rev_induct)
    case Nil
    show ?case using assms(1,2) by (simp add: store_after_def clock_after_def holds_def)
  next
    case (snoc r requests)
    then have h: "holds (store_after db requests) (clock_after s requests)" by simp
    have r: "request_valid r" using snoc.prems by simp
    show ?case
      using store_apply_refines [OF h r] h
      by (cases "clock_apply (clock_after s requests) r") (auto simp: store_after_def clock_after_def)
  qed
  then show h: "store_state (store_after db requests) = Inr (clock_after s requests)" and v: "clock_valid (clock_after s requests)"
    by (simp_all add: holds_def)
  show "\<exists>m. store_segment_map (store_after db requests) = Inr m"
    using segments_from_valid_state [OF v] h by (auto simp: store_segment_map_def)
qed

text \<open>
  C29: the store is the clock state behind its payload.  From a database that holds a valid state, every history of
  requests, failed ones included, leaves it holding the state that the same history gives in memory; the state
  stays valid, and its segment map can always be built.
\<close>

theorem clock_store_refines:
  assumes "store_state db = Inr s" and "clock_valid s" and "\<forall>r \<in> set requests. request_valid r"
  shows "store_state (store_after db requests) = Inr (clock_after s requests)
    \<and> clock_valid (clock_after s requests)
    \<and> (\<exists>m. store_segment_map (store_after db requests) = Inr m)"
  by (intro conjI clock_store_refines_parts [OF assms])

theorem clock_store_refines_witness:
  "\<exists>t. store_state (store_after \<lparr>clock_row = None, migration_row = None\<rparr>
      [Prepare \<lparr>operation_id = ''w'', intent_phase = ''prepared'', observed_epoch = 0, target_epoch = 9, host_midpoint = 0, write_sequence_before = 4, write_sequence_after = None\<rparr>,
       Cancel_Prepared ''x'', Mark_Uncertain ''w'' (Some 6)]) = Inr t
    \<and> map_option write_sequence_after (clock_intent_of t) = Some (Some 6)"
proof -
  let ?rs = "[Prepare \<lparr>operation_id = ''w'', intent_phase = ''prepared'', observed_epoch = 0, target_epoch = 9, host_midpoint = 0, write_sequence_before = 4, write_sequence_after = None\<rparr>,
       Cancel_Prepared ''x'', Mark_Uncertain ''w'' (Some 6)]"
  have s: "store_state \<lparr>clock_row = None, migration_row = None\<rparr> = Inr empty_clock" "clock_valid empty_clock" "\<forall>r \<in> set ?rs. request_valid r"
    by (simp_all add: store_state_def row_state_def annotate_empty) (simp_all add: empty_clock_def clock_valid_def intent_valid_def)
  show ?thesis
    using clock_store_refines [OF s]
    by (simp add: clock_after_def begin_intent_def cancel_prepared_intent_def mark_uncertain_def validated_intent_def intent_valid_def empty_clock_def)
qed

end
