(* ===== verification/Effects.thy ===== *)
theory Effects
  imports Prelude
begin

text \<open>
  Sequential driver code around ports.  A program reads and writes its own state, raises exceptions and calls
  ports; an oracle, any function of the calls answered so far, decides what a port answers, so a statement over all
  oracles holds for every behaviour of the device, the store and the writer.  Every call and its answer is appended
  to the history.  The state at the moment of an exception is kept, as in Python.

  \<open>wp\<close> is the weakest precondition of a program; its equations drive the proofs about drivers.
\<close>

section \<open>Programs\<close>

record ('c, 'a, 's) world =
  local_state :: 's
  history :: "('c \<times> 'a) list"

type_synonym ('e, 'c, 'a, 's, 'r) prog = "('c, 'a, 's) world \<Rightarrow> ('e, 'r) result \<times> ('c, 'a, 's) world"

type_synonym ('c, 'a) answers = "('c \<times> 'a) list \<Rightarrow> 'c \<Rightarrow> 'a"

definition ret :: "'r \<Rightarrow> ('e, 'c, 'a, 's, 'r) prog" where
  "ret x = (\<lambda>w. (Inr x, w))"

definition raise :: "'e \<Rightarrow> ('e, 'c, 'a, 's, 'r) prog" where
  "raise e = (\<lambda>w. (Inl e, w))"

definition lift_result :: "('e, 'r) result \<Rightarrow> ('e, 'c, 'a, 's, 'r) prog" where
  "lift_result r = (\<lambda>w. (r, w))"

definition bindp :: "('e, 'c, 'a, 's, 'r) prog \<Rightarrow> ('r \<Rightarrow> ('e, 'c, 'a, 's, 'q) prog) \<Rightarrow> ('e, 'c, 'a, 's, 'q) prog" where
  "bindp m f = (\<lambda>w. case m w of (Inl e, v) \<Rightarrow> (Inl e, v) | (Inr x, v) \<Rightarrow> f x v)"

definition seqp :: "('e, 'c, 'a, 's, 'r) prog \<Rightarrow> ('e, 'c, 'a, 's, 'q) prog \<Rightarrow> ('e, 'c, 'a, 's, 'q) prog" where
  "seqp m n = bindp m (\<lambda>_. n)"

definition get_state :: "('e, 'c, 'a, 's, 's) prog" where
  "get_state = (\<lambda>w. (Inr (local_state w), w))"

definition update_state :: "('s \<Rightarrow> 's) \<Rightarrow> ('e, 'c, 'a, 's, unit) prog" where
  "update_state f = (\<lambda>w. (Inr (), w\<lparr>local_state := f (local_state w)\<rparr>))"

definition call :: "('c, 'a) answers \<Rightarrow> 'c \<Rightarrow> ('e, 'c, 'a, 's, 'a) prog" where
  "call ask c = (\<lambda>w. let a = ask (history w) c in (Inr a, w\<lparr>history := history w @ [(c, a)]\<rparr>))"

text \<open>A call whose answer is read as a value or an exception.\<close>

definition port :: "('c, 'a) answers \<Rightarrow> 'c \<Rightarrow> ('a \<Rightarrow> ('e, 'r) result) \<Rightarrow> ('e, 'c, 'a, 's, 'r) prog" where
  "port ask c f = bindp (call ask c) (\<lambda>a. lift_result (f a))"

text \<open>\<open>try: m except: h\<close>\<close>

definition catchp :: "('e, 'c, 'a, 's, 'r) prog \<Rightarrow> ('e \<Rightarrow> ('e, 'c, 'a, 's, 'r) prog) \<Rightarrow> ('e, 'c, 'a, 's, 'r) prog" where
  "catchp m h = (\<lambda>w. case m w of (Inl e, v) \<Rightarrow> h e v | (Inr x, v) \<Rightarrow> (Inr x, v))"

text \<open>\<open>try: m finally: n\<close>; an exception of \<open>n\<close> replaces the outcome of \<open>m\<close>.\<close>

definition finallyp :: "('e, 'c, 'a, 's, 'r) prog \<Rightarrow> ('e, 'c, 'a, 's, unit) prog \<Rightarrow> ('e, 'c, 'a, 's, 'r) prog" where
  "finallyp m n = (\<lambda>w. case m w of (r, v) \<Rightarrow> (case n v of (Inl e, u) \<Rightarrow> (Inl e, u) | (Inr _, u) \<Rightarrow> (r, u)))"

text \<open>Run a program and return its outcome, an exception included.\<close>

definition capture :: "('e, 'c, 'a, 's, 'r) prog \<Rightarrow> ('e, 'c, 'a, 's, ('e, 'r) result) prog" where
  "capture m = (\<lambda>w. case m w of (r, v) \<Rightarrow> (Inr r, v))"

definition whenp :: "bool \<Rightarrow> ('e, 'c, 'a, 's, unit) prog \<Rightarrow> ('e, 'c, 'a, 's, unit) prog" where
  "whenp b m = (if b then m else ret ())"

definition assertp :: "bool \<Rightarrow> 'e \<Rightarrow> ('e, 'c, 'a, 's, unit) prog" where
  "assertp b e = (if b then ret () else raise e)"

section \<open>Weakest preconditions\<close>

definition wp ::
  "('e, 'c, 'a, 's, 'r) prog \<Rightarrow> ('r \<Rightarrow> ('c, 'a, 's) world \<Rightarrow> bool) \<Rightarrow> ('e \<Rightarrow> ('c, 'a, 's) world \<Rightarrow> bool) \<Rightarrow> ('c, 'a, 's) world \<Rightarrow> bool" where
  "wp m Q E w = (case m w of (Inl e, v) \<Rightarrow> E e v | (Inr x, v) \<Rightarrow> Q x v)"

named_theorems wp_simps "weakest preconditions of the program constructors"

lemma wp_ret [wp_simps]: "wp (ret x) Q E w = Q x w"
  by (simp add: wp_def ret_def)

lemma wp_raise [wp_simps]: "wp (raise e) Q E w = E e w"
  by (simp add: wp_def raise_def)

lemma wp_lift_result [wp_simps]: "wp (lift_result r) Q E w = (case r of Inl e \<Rightarrow> E e w | Inr x \<Rightarrow> Q x w)"
  by (cases r) (simp_all add: wp_def lift_result_def)

lemma wp_bindp [wp_simps]: "wp (bindp m f) Q E w = wp m (\<lambda>x. wp (f x) Q E) E w"
  by (cases "m w") (auto simp: wp_def bindp_def split: sum.splits)

lemma wp_seqp [wp_simps]: "wp (seqp m n) Q E w = wp m (\<lambda>_. wp n Q E) E w"
  by (simp add: seqp_def wp_bindp)

lemma wp_get_state [wp_simps]: "wp get_state Q E w = Q (local_state w) w"
  by (simp add: wp_def get_state_def)

lemma wp_update_state [wp_simps]: "wp (update_state f) Q E w = Q () (w\<lparr>local_state := f (local_state w)\<rparr>)"
  by (simp add: wp_def update_state_def)

lemma wp_call [wp_simps]:
  "wp (call ask c) Q E w = Q (ask (history w) c) (w\<lparr>history := history w @ [(c, ask (history w) c)]\<rparr>)"
  by (simp add: wp_def call_def Let_def)

lemma wp_port [wp_simps]:
  "wp (port ask c f) Q E w =
     (case f (ask (history w) c) of
        Inl e \<Rightarrow> E e (w\<lparr>history := history w @ [(c, ask (history w) c)]\<rparr>)
      | Inr x \<Rightarrow> Q x (w\<lparr>history := history w @ [(c, ask (history w) c)]\<rparr>))"
  by (simp add: port_def wp_bindp wp_call wp_lift_result)

lemma wp_catchp [wp_simps]: "wp (catchp m h) Q E w = wp m Q (\<lambda>e. wp (h e) Q E) w"
  by (cases "m w") (auto simp: wp_def catchp_def split: sum.splits)

lemma wp_finallyp [wp_simps]:
  "wp (finallyp m n) Q E w = wp m (\<lambda>x. wp n (\<lambda>_. Q x) E) (\<lambda>e. wp n (\<lambda>_. E e) E) w"
  by (cases "m w") (auto simp: wp_def finallyp_def split: sum.splits prod.splits)

lemma wp_capture [wp_simps]: "wp (capture m) Q E w = wp m (\<lambda>x. Q (Inr x)) (\<lambda>e. Q (Inl e)) w"
  by (cases "m w") (auto simp: wp_def capture_def split: sum.splits prod.splits)

lemma wp_if [wp_simps]: "wp (if b then m else n) Q E w = (if b then wp m Q E w else wp n Q E w)"
  by simp

lemma wp_whenp [wp_simps]: "wp (whenp b m) Q E w = (if b then wp m Q E w else Q () w)"
  by (simp add: whenp_def wp_ret)

lemma wp_assertp [wp_simps]: "wp (assertp b e) Q E w = (if b then Q () w else E e w)"
  by (simp add: assertp_def wp_ret wp_raise)

lemma wp_option [wp_simps]:
  "wp (case x of None \<Rightarrow> m | Some y \<Rightarrow> n y) Q E w = (case x of None \<Rightarrow> wp m Q E w | Some y \<Rightarrow> wp (n y) Q E w)"
  by (cases x) simp_all

lemma wp_mono: "wp m Q E w \<Longrightarrow> (\<And>x v. Q x v \<Longrightarrow> Q' x v) \<Longrightarrow> (\<And>e v. E e v \<Longrightarrow> E' e v) \<Longrightarrow> wp m Q' E' w"
  by (auto simp: wp_def split: prod.splits sum.splits)

lemma catchp_raise [simp]: "catchp m raise = m"
  by (auto simp: catchp_def raise_def fun_eq_iff split: prod.splits sum.splits)

lemma seqp_assertp_False [simp]: "seqp (assertp False e) n = raise e"
  by (simp add: assertp_def seqp_def bindp_def raise_def)

lemma seqp_bindp: "seqp (bindp m f) n = bindp m (\<lambda>x. seqp (f x) n)"
  by (auto simp: seqp_def bindp_def fun_eq_iff split: prod.splits sum.splits)

lemma seqp_assoc: "seqp (seqp m n) k = seqp m (seqp n k)"
  by (auto simp: seqp_def bindp_def fun_eq_iff split: prod.splits sum.splits)

lemma wp_conj: "wp m Q E w \<Longrightarrow> wp m Q' E' w \<Longrightarrow> wp m (\<lambda>x v. Q x v \<and> Q' x v) (\<lambda>e v. E e v \<and> E' e v) w"
  by (auto simp: wp_def split: prod.splits sum.splits)

lemma wp_all: "(\<And>i. wp m (Q i) (E i) w) \<Longrightarrow> wp m (\<lambda>x v. \<forall>i. Q i x v) (\<lambda>e v. \<forall>i. E i e v) w"
  by (auto simp: wp_def split: prod.splits sum.splits)

text \<open>A step whose result and state do not matter for what follows.\<close>

lemma wp_bindp_any: "(\<And>e v. E e v) \<Longrightarrow> (\<And>x v. wp (f x) Q E v) \<Longrightarrow> wp (bindp m f) Q E w"
  unfolding wp_bindp by (simp add: wp_def [of m] split: prod.split sum.split)

lemma wp_seqp_any: "(\<And>e v. E e v) \<Longrightarrow> (\<And>v. wp n Q E v) \<Longrightarrow> wp (seqp m n) Q E w"
  unfolding seqp_def by (rule wp_bindp_any)

lemma wp_result: "wp m Q E w \<Longrightarrow> m w = (Inr x, v) \<Longrightarrow> Q x v"
  by (simp add: wp_def)

lemma wp_state: "wp m (\<lambda>_. I) (\<lambda>_. I) w \<Longrightarrow> I (snd (m w))"
  by (auto simp: wp_def split: prod.splits sum.splits)

section \<open>Invariants of programs\<close>

text \<open>A program that keeps a property of the world, whether it returns or raises.\<close>

definition maintains :: "(('c, 'a, 's) world \<Rightarrow> bool) \<Rightarrow> ('e, 'c, 'a, 's, 'r) prog \<Rightarrow> bool" where
  "maintains I m \<longleftrightarrow> (\<forall>w. I w \<longrightarrow> wp m (\<lambda>_. I) (\<lambda>_. I) w)"

named_theorems maintains_intros "programs that maintain a property of the world"

lemma maintainsD: "maintains I m \<Longrightarrow> I w \<Longrightarrow> wp m (\<lambda>_. I) (\<lambda>_. I) w"
  by (simp add: maintains_def)

lemma maintains_conj: "maintains I m \<Longrightarrow> maintains J m \<Longrightarrow> maintains (\<lambda>w. I w \<and> J w) m"
  by (simp add: maintains_def wp_conj)

lemma maintains_disj: "maintains I m \<Longrightarrow> maintains J m \<Longrightarrow> maintains (\<lambda>w. I w \<or> J w) m"
  unfolding maintains_def by (auto elim: wp_mono)

lemma maintains_ret [maintains_intros]: "maintains I (ret x)"
  by (simp add: maintains_def wp_simps)

lemma maintains_raise [maintains_intros]: "maintains I (raise x)"
  by (simp add: maintains_def wp_simps)

lemma maintains_lift [maintains_intros]: "maintains I (lift_result r)"
  by (cases r) (simp_all add: maintains_def wp_simps)

lemma maintains_bindp [maintains_intros]: "maintains I m \<Longrightarrow> (\<And>x. maintains I (f x)) \<Longrightarrow> maintains I (bindp m f)"
  unfolding maintains_def wp_bindp by (blast intro: wp_mono)

lemma maintains_seqp [maintains_intros]: "maintains I m \<Longrightarrow> maintains I n \<Longrightarrow> maintains I (seqp m n)"
  unfolding seqp_def by (rule maintains_bindp)

lemma maintains_catchp [maintains_intros]: "maintains I m \<Longrightarrow> (\<And>x. maintains I (h x)) \<Longrightarrow> maintains I (catchp m h)"
  unfolding maintains_def wp_catchp by (blast intro: wp_mono)

lemma maintains_capture [maintains_intros]: "maintains I m \<Longrightarrow> maintains I (capture m)"
  unfolding maintains_def wp_capture .

lemma maintains_finallyp [maintains_intros]: "maintains I m \<Longrightarrow> maintains I n \<Longrightarrow> maintains I (finallyp m n)"
  unfolding maintains_def wp_finallyp by (blast intro: wp_mono)

lemma maintains_if [maintains_intros]: "(b \<Longrightarrow> maintains I m) \<Longrightarrow> (\<not> b \<Longrightarrow> maintains I n) \<Longrightarrow> maintains I (if b then m else n)"
  by simp

lemma maintains_whenp [maintains_intros]: "maintains I m \<Longrightarrow> maintains I (whenp b m)"
  by (simp add: whenp_def maintains_ret)

lemma maintains_assertp [maintains_intros]: "maintains I (assertp b x)"
  by (simp add: assertp_def maintains_ret maintains_raise)

lemma maintains_option [maintains_intros]:
  "(x = None \<Longrightarrow> maintains I m) \<Longrightarrow> (\<And>y. x = Some y \<Longrightarrow> maintains I (n y)) \<Longrightarrow>
   maintains I (case x of None \<Rightarrow> m | Some y \<Rightarrow> n y)"
  by (cases x) simp_all

lemma maintains_sum [maintains_intros]:
  "(\<And>a. x = Inl a \<Longrightarrow> maintains I (m a)) \<Longrightarrow> (\<And>b. x = Inr b \<Longrightarrow> maintains I (n b)) \<Longrightarrow>
   maintains I (case x of Inl a \<Rightarrow> m a | Inr b \<Rightarrow> n b)"
  by (cases x) simp_all

lemma maintains_pair [maintains_intros]:
  "(\<And>a b. x = (a, b) \<Longrightarrow> maintains I (f a b)) \<Longrightarrow> maintains I (case x of (a, b) \<Rightarrow> f a b)"
  by (cases x) simp

lemma maintains_let [maintains_intros]: "(\<And>y. y = x \<Longrightarrow> maintains I (f y)) \<Longrightarrow> maintains I (let y = x in f y)"
  by simp

lemma maintains_get_state [maintains_intros]: "maintains I get_state"
  by (simp add: maintains_def wp_simps)

lemma maintains_update_state: "(\<And>w. I w \<Longrightarrow> I (w\<lparr>local_state := f (local_state w)\<rparr>)) \<Longrightarrow> maintains I (update_state f)"
  by (simp add: maintains_def wp_simps)

lemma maintains_port: "(\<And>w a. I w \<Longrightarrow> I (w\<lparr>history := history w @ [(c, a)]\<rparr>)) \<Longrightarrow> maintains I (port ask c f)"
  by (simp add: maintains_def wp_port split: sum.split)

lemma maintains_call: "(\<And>w a. I w \<Longrightarrow> I (w\<lparr>history := history w @ [(c, a)]\<rparr>)) \<Longrightarrow> maintains I (call ask c)"
  by (simp add: maintains_def wp_simps)

text \<open>A program after which \<open>Q\<close> holds, whether it returns or raises, where \<open>P\<close> held before it.\<close>

definition leads :: "(('c, 'a, 's) world \<Rightarrow> bool) \<Rightarrow> ('e, 'c, 'a, 's, 'r) prog \<Rightarrow> (('c, 'a, 's) world \<Rightarrow> bool) \<Rightarrow> bool" where
  "leads P m Q \<longleftrightarrow> (\<forall>w. P w \<longrightarrow> wp m (\<lambda>_. Q) (\<lambda>_. Q) w)"

lemma leadsD: "leads P m Q \<Longrightarrow> P w \<Longrightarrow> wp m (\<lambda>_. Q) (\<lambda>_. Q) w"
  by (simp add: leads_def)

lemma leads_then: "leads P m Q \<Longrightarrow> (\<And>x. maintains Q (f x)) \<Longrightarrow> leads P (bindp m f) Q"
  unfolding leads_def maintains_def wp_bindp by (blast intro: wp_mono)

lemma leads_then_seqp: "leads P m Q \<Longrightarrow> maintains Q n \<Longrightarrow> leads P (seqp m n) Q"
  unfolding seqp_def by (rule leads_then)

lemma leads_catchp: "leads P m Q \<Longrightarrow> (\<And>e. maintains Q (h e)) \<Longrightarrow> leads P (catchp m h) Q"
  unfolding leads_def maintains_def wp_catchp by (blast intro: wp_mono)

lemma leads_get_state: "(\<And>s. leads (\<lambda>w. P w \<and> local_state w = s) (f s) Q) \<Longrightarrow> leads P (bindp get_state f) Q"
  by (simp add: leads_def wp_simps)

lemma leads_lift: "r = Inr x \<Longrightarrow> leads P (f x) Q \<Longrightarrow> leads P (bindp (lift_result r) f) Q"
  by (simp add: leads_def wp_simps)

lemma leads_update: "(\<And>w. P w \<Longrightarrow> P' (w\<lparr>local_state := f (local_state w)\<rparr>)) \<Longrightarrow> leads P' n Q \<Longrightarrow> leads P (seqp (update_state f) n) Q"
  by (simp add: leads_def wp_simps)

lemma leads_pre: "leads P m Q \<Longrightarrow> (\<And>w. P' w \<Longrightarrow> P w) \<Longrightarrow> leads P' m Q"
  by (simp add: leads_def)

lemma leads_post: "leads P m Q \<Longrightarrow> (\<And>w. Q w \<Longrightarrow> Q' w) \<Longrightarrow> leads P m Q'"
  unfolding leads_def by (blast intro: wp_mono)

lemma leads_pure: "(\<And>w. P w \<Longrightarrow> F) \<Longrightarrow> (F \<Longrightarrow> leads P m Q) \<Longrightarrow> leads P m Q"
  by (auto simp: leads_def)

lemma leads_if: "(b \<Longrightarrow> leads P m Q) \<Longrightarrow> (\<not> b \<Longrightarrow> leads P n Q) \<Longrightarrow> leads P (if b then m else n) Q"
  by simp

lemma leads_maintains: "maintains P m \<Longrightarrow> (\<And>w. P w \<Longrightarrow> Q w) \<Longrightarrow> leads P m Q"
  unfolding leads_def maintains_def by (blast intro: wp_mono)

lemma leads_step: "maintains P m \<Longrightarrow> (\<And>w. P w \<Longrightarrow> Q w) \<Longrightarrow> (\<And>x. leads P (f x) Q) \<Longrightarrow> leads P (bindp m f) Q"
  unfolding leads_def maintains_def wp_bindp by (blast intro: wp_mono)

lemma leads_step_seqp: "maintains P m \<Longrightarrow> (\<And>w. P w \<Longrightarrow> Q w) \<Longrightarrow> leads P n Q \<Longrightarrow> leads P (seqp m n) Q"
  unfolding seqp_def by (rule leads_step)

lemma leads_after: "wp m (\<lambda>x. P x) (\<lambda>_. Q) w \<Longrightarrow> (\<And>x. leads (P x) (f x) Q) \<Longrightarrow> wp (bindp m f) (\<lambda>_. Q) (\<lambda>_. Q) w"
  unfolding leads_def wp_bindp by (blast intro: wp_mono)

text \<open>What a program has established when it returns.\<close>

definition delivers :: "(('c, 'a, 's) world \<Rightarrow> bool) \<Rightarrow> ('e, 'c, 'a, 's, 'r) prog \<Rightarrow> ('r \<Rightarrow> ('c, 'a, 's) world \<Rightarrow> bool) \<Rightarrow> bool" where
  "delivers P m Q \<longleftrightarrow> (\<forall>w. P w \<longrightarrow> wp m Q (\<lambda>_ _. True) w)"

named_theorems delivers_intros "what programs establish when they return"

lemma deliversD: "delivers P m Q \<Longrightarrow> P w \<Longrightarrow> m w = (Inr x, v) \<Longrightarrow> Q x v"
  by (auto simp: delivers_def wp_def split: prod.splits sum.splits)

lemma delivers_ret [delivers_intros]: "delivers (Q x) (ret x) Q"
  by (simp add: delivers_def wp_simps)

lemma delivers_raise [delivers_intros]: "delivers P (raise x) Q"
  by (simp add: delivers_def wp_simps)

lemma delivers_bindp: "delivers P m R \<Longrightarrow> (\<And>x. delivers (R x) (f x) Q) \<Longrightarrow> delivers P (bindp m f) Q"
  unfolding delivers_def wp_bindp by (blast intro: wp_mono)

lemma delivers_seqp: "delivers P m (\<lambda>_. R) \<Longrightarrow> delivers R n Q \<Longrightarrow> delivers P (seqp m n) Q"
  unfolding seqp_def by (rule delivers_bindp)

lemma delivers_weaken: "delivers P m Q \<Longrightarrow> (\<And>w. P' w \<Longrightarrow> P w) \<Longrightarrow> (\<And>x w. Q x w \<Longrightarrow> Q' x w) \<Longrightarrow> delivers P' m Q'"
  unfolding delivers_def by (blast intro: wp_mono)

lemma delivers_post: "delivers P m Q \<Longrightarrow> (\<And>x w. Q x w \<Longrightarrow> Q' x w) \<Longrightarrow> delivers P m Q'"
  by (rule delivers_weaken)

lemma delivers_pre: "delivers P m Q \<Longrightarrow> (\<And>w. P' w \<Longrightarrow> P w) \<Longrightarrow> delivers P' m Q"
  by (rule delivers_weaken)

text \<open>A fact that does not depend on the world may be taken out of the precondition.\<close>

lemma delivers_pure: "(\<And>w. P w \<Longrightarrow> F) \<Longrightarrow> (F \<Longrightarrow> delivers P m Q) \<Longrightarrow> delivers P m Q"
  by (auto simp: delivers_def)

lemma delivers_if: "(b \<Longrightarrow> delivers P m Q) \<Longrightarrow> (\<not> b \<Longrightarrow> delivers P n Q) \<Longrightarrow> delivers P (if b then m else n) Q"
  by simp

lemma delivers_maintains: "maintains I m \<Longrightarrow> delivers I m (\<lambda>_. I)"
  unfolding maintains_def delivers_def by (blast intro: wp_mono)

lemma delivers_get_state: "delivers P get_state (\<lambda>s w. P w \<and> local_state w = s)"
  by (simp add: delivers_def wp_simps)

lemma delivers_lift: "delivers P (lift_result r) (\<lambda>x w. P w \<and> r = Inr x)"
  by (cases r) (simp_all add: delivers_def wp_simps)

lemma delivers_require: "delivers P (lift_result r) (\<lambda>_ w. P w \<and> r = Inr ())"
  by (rule delivers_post [OF delivers_lift]) simp

lemma delivers_assertp: "delivers P (assertp b e) (\<lambda>_ w. P w \<and> b)"
  by (simp add: delivers_def wp_simps)

lemma delivers_catchp: "delivers P m Q \<Longrightarrow> (\<And>e. delivers (\<lambda>_. True) (h e) (\<lambda>_ _. False)) \<Longrightarrow> delivers P (catchp m h) Q"
  unfolding delivers_def wp_catchp by (blast intro: wp_mono)

lemma wp_True [simp]: "wp m (\<lambda>_ _. True) (\<lambda>_ _. True) w"
  by (simp add: wp_def split: prod.split sum.split)

lemma delivers_finallyp: "delivers P m Q \<Longrightarrow> (\<And>x. delivers (Q x) n (\<lambda>_. Q x)) \<Longrightarrow> delivers P (finallyp m n) Q"
  unfolding delivers_def wp_finallyp by (auto intro: wp_mono)

lemma delivers_update_state: "(\<And>w. P w \<Longrightarrow> Q () (w\<lparr>local_state := f (local_state w)\<rparr>)) \<Longrightarrow> delivers P (update_state f) Q"
  by (simp add: delivers_def wp_simps)

lemma delivers_port:
  "(\<And>w a x. P w \<Longrightarrow> f a = Inr x \<Longrightarrow> Q x (w\<lparr>history := history w @ [(c, a)]\<rparr>)) \<Longrightarrow> delivers P (port ask c f) Q"
  by (simp add: delivers_def wp_simps split: sum.split)

text \<open>A program that never returns: it always raises.\<close>

definition diverts :: "('e, 'c, 'a, 's, 'r) prog \<Rightarrow> bool" where
  "diverts m \<longleftrightarrow> (\<forall>w. wp m (\<lambda>_ _. False) (\<lambda>_ _. True) w)"

named_theorems diverts_intros "programs that always raise"

lemma diverts_raise [diverts_intros]: "diverts (raise e)"
  by (simp add: diverts_def wp_simps)

lemma diverts_bindp [diverts_intros]: "(\<And>x. diverts (f x)) \<Longrightarrow> diverts (bindp m f)"
  unfolding diverts_def wp_bindp by (auto intro: wp_mono [OF wp_True])

lemma diverts_seqp [diverts_intros]: "diverts n \<Longrightarrow> diverts (seqp m n)"
  unfolding seqp_def by (rule diverts_bindp)

lemma diverts_if [diverts_intros]: "(b \<Longrightarrow> diverts m) \<Longrightarrow> (\<not> b \<Longrightarrow> diverts n) \<Longrightarrow> diverts (if b then m else n)"
  by simp

lemma delivers_diverts: "diverts m \<Longrightarrow> delivers P m Q"
  unfolding diverts_def delivers_def by (auto intro: wp_mono)

lemma delivers_try: "delivers P m Q \<Longrightarrow> (\<And>e. diverts (h e)) \<Longrightarrow> delivers P (catchp m h) Q"
  by (rule delivers_catchp) (auto intro: delivers_diverts)

section \<open>Invariants with a class of exceptions\<close>

text \<open>\<open>keeps I C m\<close>: the program keeps \<open>I\<close>, and every exception it raises is in \<open>C\<close>.\<close>

definition keeps :: "(('c, 'a, 's) world \<Rightarrow> bool) \<Rightarrow> ('e \<Rightarrow> bool) \<Rightarrow> ('e, 'c, 'a, 's, 'r) prog \<Rightarrow> bool" where
  "keeps I C m \<longleftrightarrow> (\<forall>w. I w \<longrightarrow> wp m (\<lambda>_. I) (\<lambda>e v. C e \<and> I v) w)"

named_theorems keeps_intros "programs that keep a property and raise only exceptions of a class"

lemma keepsD: "keeps I C m \<Longrightarrow> I w \<Longrightarrow> wp m (\<lambda>_. I) (\<lambda>e v. C e \<and> I v) w"
  by (simp add: keeps_def)

lemma keeps_ret [keeps_intros]: "keeps I C (ret x)"
  by (simp add: keeps_def wp_simps)

lemma keeps_raise [keeps_intros]: "C e \<Longrightarrow> keeps I C (raise e)"
  by (simp add: keeps_def wp_simps)

lemma keeps_lift [keeps_intros]: "(\<And>e. r = Inl e \<Longrightarrow> C e) \<Longrightarrow> keeps I C (lift_result r)"
  by (cases r) (simp_all add: keeps_def wp_simps)

lemma keeps_bindp [keeps_intros]: "keeps I C m \<Longrightarrow> (\<And>x. keeps I C (f x)) \<Longrightarrow> keeps I C (bindp m f)"
  unfolding keeps_def wp_bindp by (blast intro: wp_mono)

lemma keeps_seqp [keeps_intros]: "keeps I C m \<Longrightarrow> keeps I C n \<Longrightarrow> keeps I C (seqp m n)"
  unfolding seqp_def by (rule keeps_bindp)

lemma keeps_catchp [keeps_intros]: "keeps I C m \<Longrightarrow> (\<And>e. C e \<Longrightarrow> keeps I C (h e)) \<Longrightarrow> keeps I C (catchp m h)"
  unfolding keeps_def wp_catchp by (blast intro: wp_mono)

lemma keeps_captured:
  assumes m: "keeps I C m" and v: "\<And>x. keeps I C (f (Inr x))" and e: "\<And>e. C e \<Longrightarrow> keeps I C (f (Inl e))"
  shows "keeps I C (bindp (capture m) f)"
  using m v e unfolding keeps_def wp_bindp wp_capture by (blast intro: wp_mono)

lemma keeps_finallyp [keeps_intros]: "keeps I C m \<Longrightarrow> keeps I C n \<Longrightarrow> keeps I C (finallyp m n)"
  unfolding keeps_def wp_finallyp by (blast intro: wp_mono)

lemma keeps_if [keeps_intros]: "(b \<Longrightarrow> keeps I C m) \<Longrightarrow> (\<not> b \<Longrightarrow> keeps I C n) \<Longrightarrow> keeps I C (if b then m else n)"
  by simp

lemma keeps_whenp [keeps_intros]: "(b \<Longrightarrow> keeps I C m) \<Longrightarrow> keeps I C (whenp b m)"
  by (simp add: whenp_def keeps_ret)

lemma keeps_assertp [keeps_intros]: "(\<not> b \<Longrightarrow> C e) \<Longrightarrow> keeps I C (assertp b e)"
  by (simp add: assertp_def keeps_ret keeps_raise)

lemma keeps_option [keeps_intros]:
  "(x = None \<Longrightarrow> keeps I C m) \<Longrightarrow> (\<And>y. x = Some y \<Longrightarrow> keeps I C (n y)) \<Longrightarrow>
   keeps I C (case x of None \<Rightarrow> m | Some y \<Rightarrow> n y)"
  by (cases x) simp_all

lemma keeps_pair [keeps_intros]: "(\<And>a b. x = (a, b) \<Longrightarrow> keeps I C (f a b)) \<Longrightarrow> keeps I C (case x of (a, b) \<Rightarrow> f a b)"
  by (cases x) simp

lemma keeps_let [keeps_intros]: "(\<And>y. y = x \<Longrightarrow> keeps I C (f y)) \<Longrightarrow> keeps I C (let y = x in f y)"
  by simp

lemma keeps_get_state [keeps_intros]: "keeps I C get_state"
  by (simp add: keeps_def wp_simps)

lemma keeps_update_state: "(\<And>w. I w \<Longrightarrow> I (w\<lparr>local_state := f (local_state w)\<rparr>)) \<Longrightarrow> keeps I C (update_state f)"
  by (simp add: keeps_def wp_simps)

lemma keeps_conj: "keeps I C m \<Longrightarrow> keeps J D m \<Longrightarrow> keeps (\<lambda>w. I w \<and> J w) C m"
  unfolding keeps_def by (blast intro: wp_mono [OF wp_conj])

lemma keeps_port:
  "(\<And>w. I w \<Longrightarrow> I (w\<lparr>history := history w @ [(c, ask (history w) c)]\<rparr>)) \<Longrightarrow> (\<And>h e. f (ask h c) = Inl e \<Longrightarrow> C e) \<Longrightarrow>
   keeps I C (port ask c f)"
  by (auto simp: keeps_def wp_port split: sum.split)

lemma keeps_call:
  "(\<And>w. I w \<Longrightarrow> I (w\<lparr>history := history w @ [(c, ask (history w) c)]\<rparr>)) \<Longrightarrow>
   (\<And>h. keeps I C (f (ask h c))) \<Longrightarrow> keeps I C (bindp (call ask c) f)"
  by (simp add: keeps_def wp_simps)

section \<open>Triples with an exceptional postcondition\<close>

definition hoare ::
  "(('c, 'a, 's) world \<Rightarrow> bool) \<Rightarrow> ('e, 'c, 'a, 's, 'r) prog \<Rightarrow> ('r \<Rightarrow> ('c, 'a, 's) world \<Rightarrow> bool) \<Rightarrow>
   ('e \<Rightarrow> ('c, 'a, 's) world \<Rightarrow> bool) \<Rightarrow> bool" where
  "hoare P m Q E \<longleftrightarrow> (\<forall>w. P w \<longrightarrow> wp m Q E w)"

lemma hoareD: "hoare P m Q E \<Longrightarrow> P w \<Longrightarrow> wp m Q E w"
  by (simp add: hoare_def)

lemma hoare_weaken:
  "hoare P m Q E \<Longrightarrow> (\<And>w. P' w \<Longrightarrow> P w) \<Longrightarrow> (\<And>x w. Q x w \<Longrightarrow> Q' x w) \<Longrightarrow> (\<And>e w. E e w \<Longrightarrow> E' e w) \<Longrightarrow> hoare P' m Q' E'"
  unfolding hoare_def by (blast intro: wp_mono)

lemma hoare_post: "hoare P m Q E \<Longrightarrow> (\<And>x w. Q x w \<Longrightarrow> Q' x w) \<Longrightarrow> (\<And>e w. E e w \<Longrightarrow> E' e w) \<Longrightarrow> hoare P m Q' E'"
  by (rule hoare_weaken)

lemma hoare_pre: "hoare P m Q E \<Longrightarrow> (\<And>w. P' w \<Longrightarrow> P w) \<Longrightarrow> hoare P' m Q E"
  by (rule hoare_weaken)

lemma hoare_keeps: "keeps I C m \<Longrightarrow> hoare I m (\<lambda>_. I) (\<lambda>e w. C e \<and> I w)"
  by (simp add: hoare_def keeps_def)

lemma hoare_bindp: "hoare P m R E \<Longrightarrow> (\<And>x. hoare (R x) (f x) Q E) \<Longrightarrow> hoare P (bindp m f) Q E"
  unfolding hoare_def wp_bindp by (blast intro: wp_mono)

lemma hoare_seqp: "hoare P m (\<lambda>_. R) E \<Longrightarrow> hoare R n Q E \<Longrightarrow> hoare P (seqp m n) Q E"
  unfolding seqp_def by (rule hoare_bindp)

lemma hoare_catchp: "hoare P m Q F \<Longrightarrow> (\<And>e. hoare (F e) (h e) Q E) \<Longrightarrow> hoare P (catchp m h) Q E"
  unfolding hoare_def wp_catchp by (blast intro: wp_mono)

lemma hoare_captured:
  "hoare P m R F \<Longrightarrow> (\<And>x. hoare (R x) (f (Inr x)) Q E) \<Longrightarrow> (\<And>e. hoare (F e) (f (Inl e)) Q E) \<Longrightarrow> hoare P (bindp (capture m) f) Q E"
  unfolding hoare_def wp_bindp wp_capture by (blast intro: wp_mono)

lemma hoare_ret: "(\<And>w. P w \<Longrightarrow> Q x w) \<Longrightarrow> hoare P (ret x) Q E"
  by (simp add: hoare_def wp_simps)

lemma hoare_raise: "(\<And>w. P w \<Longrightarrow> E e w) \<Longrightarrow> hoare P (raise e) Q E"
  by (simp add: hoare_def wp_simps)

lemma hoare_update: "(\<And>w. P w \<Longrightarrow> Q () (w\<lparr>local_state := f (local_state w)\<rparr>)) \<Longrightarrow> hoare P (update_state f) Q E"
  by (simp add: hoare_def wp_simps)

lemma hoare_get_state: "(\<And>s. hoare (\<lambda>w. P w \<and> local_state w = s) (f s) Q E) \<Longrightarrow> hoare P (bindp get_state f) Q E"
  by (simp add: hoare_def wp_simps)

lemma hoare_if: "(b \<Longrightarrow> hoare P m Q E) \<Longrightarrow> (\<not> b \<Longrightarrow> hoare P n Q E) \<Longrightarrow> hoare P (if b then m else n) Q E"
  by simp

lemma hoare_pure: "(\<And>w. P w \<Longrightarrow> F) \<Longrightarrow> (F \<Longrightarrow> hoare P m Q E) \<Longrightarrow> hoare P m Q E"
  by (auto simp: hoare_def)

lemma hoare_disj: "hoare P m Q E \<Longrightarrow> hoare P' m Q E \<Longrightarrow> hoare (\<lambda>w. P w \<or> P' w) m Q E"
  by (auto simp: hoare_def)

lemma hoare_pair: "(\<And>a b. x = (a, b) \<Longrightarrow> hoare P (f a b) Q E) \<Longrightarrow> hoare P (case x of (a, b) \<Rightarrow> f a b) Q E"
  by (cases x) simp

lemma hoare_sum:
  "(\<And>a. x = Inl a \<Longrightarrow> hoare P (m a) Q E) \<Longrightarrow> (\<And>b. x = Inr b \<Longrightarrow> hoare P (n b) Q E) \<Longrightarrow>
   hoare P (case x of Inl a \<Rightarrow> m a | Inr b \<Rightarrow> n b) Q E"
  by (cases x) simp_all

lemma hoare_option:
  "(x = None \<Longrightarrow> hoare P m Q E) \<Longrightarrow> (\<And>y. x = Some y \<Longrightarrow> hoare P (n y) Q E) \<Longrightarrow> hoare P (case x of None \<Rightarrow> m | Some y \<Rightarrow> n y) Q E"
  by (cases x) simp_all

lemma hoare_whenp: "(b \<Longrightarrow> hoare P m (\<lambda>_. Q) E) \<Longrightarrow> (\<And>w. \<not> b \<Longrightarrow> P w \<Longrightarrow> Q w) \<Longrightarrow> hoare P (whenp b m) (\<lambda>_. Q) E"
  by (simp add: whenp_def hoare_ret)

lemma hoare_lift_Inr: "r = Inr x \<Longrightarrow> hoare P (f x) Q E \<Longrightarrow> hoare P (bindp (lift_result r) f) Q E"
  by (simp add: hoare_def wp_simps)

lemma hoare_lift_unit: "r = Inr () \<Longrightarrow> hoare P n Q E \<Longrightarrow> hoare P (seqp (lift_result r) n) Q E"
  unfolding seqp_def by (rule hoare_lift_Inr)

lemma hoare_port:
  "(\<And>w a. P w \<Longrightarrow> a = ask (history w) c \<Longrightarrow>
      case f a of Inl e \<Rightarrow> E e (w\<lparr>history := history w @ [(c, a)]\<rparr>) | Inr x \<Rightarrow> Q x (w\<lparr>history := history w @ [(c, a)]\<rparr>)) \<Longrightarrow>
   hoare P (port ask c f) Q E"
  by (simp add: hoare_def wp_port)

lemma hoare_conj: "hoare P m Q E \<Longrightarrow> hoare P m Q' E' \<Longrightarrow> hoare P m (\<lambda>x w. Q x w \<and> Q' x w) (\<lambda>e w. E e w \<and> E' e w)"
  unfolding hoare_def by (blast intro: wp_conj)

lemma hoare_any: "hoare P m (\<lambda>_ _. True) (\<lambda>_ _. True)"
  by (simp add: hoare_def)

lemma hoare_ex: "(\<And>x. hoare (P x) m Q E) \<Longrightarrow> hoare (\<lambda>w. \<exists>x. P x w) m Q E"
  by (auto simp: hoare_def)

section \<open>Programs that return\<close>

text \<open>\<open>completes P m Q\<close>: from \<open>P\<close> the program returns, and then \<open>Q\<close> holds.  \<open>yields\<close> also names the value.\<close>

definition completes :: "(('c, 'a, 's) world \<Rightarrow> bool) \<Rightarrow> ('e, 'c, 'a, 's, 'r) prog \<Rightarrow> ('r \<Rightarrow> ('c, 'a, 's) world \<Rightarrow> bool) \<Rightarrow> bool" where
  "completes P m Q \<longleftrightarrow> (\<forall>w. P w \<longrightarrow> wp m Q (\<lambda>_ _. False) w)"

definition yields :: "(('c, 'a, 's) world \<Rightarrow> bool) \<Rightarrow> ('e, 'c, 'a, 's, 'r) prog \<Rightarrow> 'r \<Rightarrow> (('c, 'a, 's) world \<Rightarrow> bool) \<Rightarrow> bool" where
  "yields P m x Q \<longleftrightarrow> completes P m (\<lambda>y w. y = x \<and> Q w)"

lemma completesD: "completes P m Q \<Longrightarrow> P w \<Longrightarrow> \<exists>x v. m w = (Inr x, v) \<and> Q x v"
  by (cases "m w"; cases "fst (m w)") (force simp: completes_def wp_def)+

lemma completes_bindp: "completes P m R \<Longrightarrow> (\<And>x. completes (R x) (f x) Q) \<Longrightarrow> completes P (bindp m f) Q"
  unfolding completes_def wp_bindp by (blast intro: wp_mono)

lemma completes_ret: "completes (Q x) (ret x) Q"
  by (simp add: completes_def wp_simps)

lemma completes_yields: "yields P m x R \<Longrightarrow> completes R (f x) Q \<Longrightarrow> completes P (bindp m f) Q"
  unfolding yields_def completes_def wp_bindp by (blast intro: wp_mono)

lemma completes_seqp: "yields P m x R \<Longrightarrow> completes R n Q \<Longrightarrow> completes P (seqp m n) Q"
  unfolding seqp_def by (rule completes_yields)

lemma yields_bindp: "yields P m x R \<Longrightarrow> yields R (f x) y Q \<Longrightarrow> yields P (bindp m f) y Q"
  unfolding yields_def [of P "bindp m f"] yields_def [of R] by (rule completes_yields)

lemma yields_bindp_any: "completes P m (\<lambda>_. R) \<Longrightarrow> (\<And>x. yields R (f x) y Q) \<Longrightarrow> yields P (bindp m f) y Q"
  unfolding yields_def by (rule completes_bindp)

lemma yields_seqp: "yields P m x R \<Longrightarrow> yields R n y Q \<Longrightarrow> yields P (seqp m n) y Q"
  unfolding seqp_def by (rule yields_bindp)

lemma yields_post: "yields P m x Q \<Longrightarrow> (\<And>w. Q w \<Longrightarrow> Q' w) \<Longrightarrow> yields P m x Q'"
  unfolding yields_def completes_def by (blast intro: wp_mono)

lemma yields_cases: "(\<And>i. R i \<Longrightarrow> yields (P i) m x Q) \<Longrightarrow> yields (\<lambda>w. \<exists>i. R i \<and> P i w) m x Q"
  by (auto simp: yields_def completes_def)

lemma completes_cases: "(\<And>i. R i \<Longrightarrow> completes (P i) m Q) \<Longrightarrow> completes (\<lambda>w. \<exists>i. R i \<and> P i w) m Q"
  by (auto simp: completes_def)

lemma yields_ret: "yields P (ret x) x P"
  by (simp add: yields_def completes_def wp_simps)

lemma yields_lift: "r = Inr x \<Longrightarrow> yields P (lift_result r) x P"
  by (simp add: yields_def completes_def wp_simps)

lemma yields_assertp: "b \<Longrightarrow> yields P (assertp b e) () P"
  by (simp add: yields_def completes_def wp_simps)

lemma yields_whenp: "(b \<Longrightarrow> yields P m () Q) \<Longrightarrow> (\<not> b \<Longrightarrow> P = Q) \<Longrightarrow> yields P (whenp b m) () Q"
  by (simp add: whenp_def yields_ret)

lemma yields_catchp: "yields P m x Q \<Longrightarrow> yields P (catchp m h) x Q"
  unfolding yields_def completes_def wp_catchp by (blast intro: wp_mono)

lemma yields_capture: "yields P m x Q \<Longrightarrow> yields P (capture m) (Inr x) Q"
  unfolding yields_def completes_def wp_capture by (simp add: wp_def split: prod.splits sum.splits)

lemma yields_finallyp: "yields P m x R \<Longrightarrow> yields R n () Q \<Longrightarrow> yields P (finallyp m n) x Q"
  unfolding yields_def completes_def wp_finallyp by (auto intro: wp_mono)

section \<open>Drivers\<close>

text \<open>A sequence of operations of one object; one that raises is followed by the next.\<close>

definition run_ops :: "('o \<Rightarrow> ('e, 'c, 'a, 's, unit) prog) \<Rightarrow> ('c, 'a, 's) world \<Rightarrow> 'o list \<Rightarrow> ('c, 'a, 's) world" where
  "run_ops op = foldl (\<lambda>w x. snd (op x w))"

text \<open>The contract of a driver: every operation keeps the invariant, whether it returns or raises.\<close>

locale driver =
  fixes op :: "'o \<Rightarrow> ('e, 'c, 'a, 's, unit) prog"
    and inv :: "('c, 'a, 's) world \<Rightarrow> bool"
  assumes keeps: "maintains inv (op x)"
begin

lemma run_ops_inv: "inv w \<Longrightarrow> inv (run_ops op w xs)"
  by (induction xs arbitrary: w) (simp_all add: run_ops_def wp_state [OF maintainsD [OF keeps]])

end

section \<open>Guarded histories\<close>

text \<open>
  A guard says of a call which histories it may follow; a history is guarded when every call in it was allowed where
  it was made.
\<close>

definition guarded :: "(('c \<times> 'a) list \<Rightarrow> 'c \<Rightarrow> bool) \<Rightarrow> ('c \<times> 'a) list \<Rightarrow> bool" where
  "guarded allowed h \<longleftrightarrow> (\<forall>pre c a post. h = pre @ (c, a) # post \<longrightarrow> allowed pre c)"

lemma guarded_Nil [simp]: "guarded allowed []"
  by (simp add: guarded_def)

lemma guarded_snoc [simp]: "guarded allowed (h @ [(c, a)]) \<longleftrightarrow> guarded allowed h \<and> allowed h c"
proof
  assume g: "guarded allowed (h @ [(c, a)])"
  have "allowed pre d" if "h = pre @ (d, b) # post" for pre d b post
    using g that unfolding guarded_def by (metis append_Cons append_assoc)
  then have "guarded allowed h" unfolding guarded_def by blast
  moreover have "allowed h c" using g unfolding guarded_def by blast
  ultimately show "guarded allowed h \<and> allowed h c" by blast
next
  assume g: "guarded allowed h \<and> allowed h c"
  show "guarded allowed (h @ [(c, a)])"
    unfolding guarded_def
  proof (intro allI impI)
    fix pre d b post assume e: "h @ [(c, a)] = pre @ (d, b) # post"
    show "allowed pre d"
    proof (cases post rule: rev_cases)
      case Nil
      then show ?thesis using e g by simp
    next
      case (snoc post' x)
      then have "h = pre @ (d, b) # post'" using e by simp
      then show ?thesis using g unfolding guarded_def by blast
    qed
  qed
qed

end
