(* ===== verification/Batch_Reconciliation.thy ===== *)
theory Batch_Reconciliation
  imports Effects Batch_Machine Transfer_Arena Ring_Protocol
begin

text \<open>
  The driver of one active batch (\<open>application/batch_reconciliation.py\<close>): admission, READ, checkpoint, seal,
  cursor reconciliation, ADVANCE with its confirmation, closing a visit and finalization.  It calls the device, the
  writer, the store and the observers through ports and consults \<open>Batch_Machine\<close> before each step that matters.

  A writer is named by the number of writers made before it.  Observers that cannot influence the capture (progress
  mailbox, quality metrics, debug events) are left out; an activity callback is a port, since its exception
  propagates.  A READ with its progress pump is one port call.  The recursion of \<open>_run_connected_step\<close> follows a
  batch that was retired without ADVANCE; the device can ask for it any number of times, so it has fuel.
\<close>

section \<open>Data\<close>

datatype exn =
    Cursor_Consistency string | Cursor_Regression string | Batch_Unavailable string | Concurrent_Advance string
  | Advance_Uncertain | Collector_Timeout | Transfer_Interrupted
  | Writer_Error string | Writer_Failed string | Staging_Error string
  | Fatal_Storage string | Transient_Storage string | OS_Error string
  | Runtime_Error string | Batch_Value_Error batch_error | Arena_Value_Error arena_error
  | Assertion_Error | Type_Error | Other_Exception string
  | Cancelled | Stop_Requested | Out_Of_Fuel

fun is_exception :: "exn \<Rightarrow> bool" where
  "is_exception Cancelled = False"
| "is_exception Stop_Requested = False"
| "is_exception _ = True"

fun is_writer_failed :: "exn \<Rightarrow> bool" where
  "is_writer_failed (Writer_Failed _) = True"
| "is_writer_failed _ = False"

fun is_writer_error :: "exn \<Rightarrow> bool" where
  "is_writer_error (Writer_Error _) = True"
| "is_writer_error (Writer_Failed _) = True"
| "is_writer_error _ = False"

fun is_staging_error :: "exn \<Rightarrow> bool" where
  "is_staging_error (Staging_Error _) = True"
| "is_staging_error _ = False"

fun is_os_error :: "exn \<Rightarrow> bool" where
  "is_os_error (OS_Error _) = True"
| "is_os_error Collector_Timeout = True"
| "is_os_error _ = False"

fun is_storage_fault :: "exn \<Rightarrow> bool" where
  "is_storage_fault (Fatal_Storage _) = True"
| "is_storage_fault (Transient_Storage _) = True"
| "is_storage_fault _ = False"

record durable_prefix =
  prefix_next :: int
  prefix_records :: int

datatype seal = Bundle_Seal string | Durable_Seal

record attempt_descriptor =
  descriptor_start :: int
  descriptor_count :: int
  descriptor_attempt :: string

datatype collect_result =
    No_Data_Result ring_info
  | Collection_Result ring_info int seal int bool

record active_batch =
  batch_info :: "ring_info option"
  batch_start :: int
  batch_end :: int
  batch_writer :: nat
  batch_durable :: "durable_prefix option"
  batch_seal :: "seal option"

definition batch_count :: "active_batch \<Rightarrow> int" where
  "batch_count b = batch_end b - batch_start b"

datatype reconciliation = Prefix_Published "seal option" | Reconcile_Restart | Reconciled

record reconciler_state =
  active :: "active_batch option"
  last_result :: "collect_result option"
  completed_batches :: nat
  pending_descriptor :: "attempt_descriptor option"
  pending_durable_next :: "int option"
  visit_frontier :: "int option"
  session_phase :: string
  writers_made :: nat

record sync_options =
  batch_records :: int
  arena_max_bytes :: int
  advance_enabled :: bool
  has_public_drain :: bool

record finalization_result =
  checkpoint_error :: "exn option"
  close_error :: "exn option"
  preserved_path :: "string option"
  preserved_source_id :: "string option"
  preserved_kind :: "string option"

section \<open>Ports\<close>

datatype port_call =
    Call_Stop | Call_Info | Call_Activity string | Call_Host_Time
  | Call_Quarantine string
  | Call_Make_Writer nat int int int | Call_Start nat | Call_Initial_Prefix nat | Call_Close nat
  | Call_Checkpoint nat | Call_Seal nat int | Call_Publish_Prefix nat | Call_Await_Seal nat
  | Call_Failure nat | Call_Settled nat | Call_Submitted nat | Call_Attempt_Id nat | Call_Alive nat
  | Call_Read nat int int | Call_Capture_Space int | Call_Advance int
  | Call_Arm_Pending string int | Call_Record_Loss string int int | Call_Loss_Event int
  | Call_Close_Pending string bool "int option" bool | Call_Close_Orphaned string "int option" bool
  | Call_Append_Closure int string bool | Call_Finalization_Error string

datatype port_answer =
    Raised exn | Done | Info_Answer ring_info | Prefix_Answer durable_prefix | Maybe_Prefix "durable_prefix option"
  | Seal_Answer seal | Maybe_Seal "seal option" | Failure_Answer "exn option" | Flag bool | Text_Answer string

type_synonym 'r step = "(exn, port_call, port_answer, reconciler_state, 'r) prog"
type_synonym ports = "(port_call, port_answer) answers"

fun as_done :: "port_answer \<Rightarrow> (exn, unit) result" where
  "as_done (Raised e) = Inl e" | "as_done Done = Inr ()" | "as_done _ = Inl Type_Error"

fun as_info :: "port_answer \<Rightarrow> (exn, ring_info) result" where
  "as_info (Raised e) = Inl e" | "as_info (Info_Answer i) = Inr i" | "as_info _ = Inl Type_Error"

fun as_prefix :: "port_answer \<Rightarrow> (exn, durable_prefix) result" where
  "as_prefix (Raised e) = Inl e" | "as_prefix (Prefix_Answer p) = Inr p" | "as_prefix _ = Inl Type_Error"

fun as_maybe_prefix :: "port_answer \<Rightarrow> (exn, durable_prefix option) result" where
  "as_maybe_prefix (Raised e) = Inl e" | "as_maybe_prefix (Maybe_Prefix p) = Inr p" | "as_maybe_prefix _ = Inl Type_Error"

fun as_seal :: "port_answer \<Rightarrow> (exn, seal) result" where
  "as_seal (Raised e) = Inl e" | "as_seal (Seal_Answer s) = Inr s" | "as_seal _ = Inl Type_Error"

fun as_maybe_seal :: "port_answer \<Rightarrow> (exn, seal option) result" where
  "as_maybe_seal (Raised e) = Inl e" | "as_maybe_seal (Maybe_Seal s) = Inr s" | "as_maybe_seal _ = Inl Type_Error"

fun as_failure :: "port_answer \<Rightarrow> (exn, exn option) result" where
  "as_failure (Raised e) = Inl e" | "as_failure (Failure_Answer f) = Inr f" | "as_failure _ = Inl Type_Error"

fun as_flag :: "port_answer \<Rightarrow> (exn, bool) result" where
  "as_flag (Raised e) = Inl e" | "as_flag (Flag b) = Inr b" | "as_flag _ = Inl Type_Error"

fun as_text :: "port_answer \<Rightarrow> (exn, string) result" where
  "as_text (Raised e) = Inl e" | "as_text (Text_Answer t) = Inr t" | "as_text _ = Inl Type_Error"

definition update_batch :: "(active_batch \<Rightarrow> active_batch) \<Rightarrow> unit step" where
  "update_batch f = update_state (\<lambda>s. s\<lparr>active := map_option f (active s)\<rparr>)"

definition set_phase :: "string \<Rightarrow> unit step" where
  "set_phase v = update_state (\<lambda>s. s\<lparr>session_phase := v\<rparr>)"

text \<open>The three fields that a retired batch clears.\<close>

definition retire_batch :: "reconciler_state \<Rightarrow> reconciler_state" where
  "retire_batch s = s\<lparr>active := None, pending_descriptor := None, pending_durable_next := None\<rparr>"

text \<open>\<open>max(frontier or value, value)\<close>\<close>

definition frontier_max :: "int option \<Rightarrow> int \<Rightarrow> int" where
  "frontier_max frontier v = max (case frontier of None \<Rightarrow> v | Some f \<Rightarrow> if f = 0 then v else f) v"

definition retain_durable_frontier :: "durable_prefix \<Rightarrow> unit step" where
  "retain_durable_frontier prefix =
     whenp (prefix_records prefix \<noteq> 0) (update_state (\<lambda>s. s\<lparr>visit_frontier := Some (frontier_max (visit_frontier s) (prefix_next prefix))\<rparr>))"

definition check_stop_intent :: "ports \<Rightarrow> unit step" where
  "check_stop_intent ask = port ask Call_Stop as_done"

definition report_activity :: "ports \<Rightarrow> string \<Rightarrow> unit step" where
  "report_activity ask v = port ask (Call_Activity v) as_done"

definition raise_writer_cause :: "ports \<Rightarrow> nat \<Rightarrow> exn \<Rightarrow> 'r step" where
  "raise_writer_cause ask w error =
     bindp (port ask (Call_Failure w) as_failure) (\<lambda>failure. case failure of Some f \<Rightarrow> raise f | None \<Rightarrow> raise error)"

definition batch_milestone :: "active_batch option \<Rightarrow> (exn, milestone) result" where
  "batch_milestone b =
     (case b of
        None \<Rightarrow> Inr Milestone_RETIRED
      | Some b \<Rightarrow>
          (case derive_milestone (Some (batch_start b)) (Some (batch_end b)) (map_option prefix_next (batch_durable b)) (batch_seal b \<noteq> None) of
             Inl e \<Rightarrow> Inl (Batch_Value_Error e) | Inr m \<Rightarrow> Inr m))"

definition machine_transition :: "milestone \<Rightarrow> batch_event \<Rightarrow> cursor_action option \<Rightarrow> transition step" where
  "machine_transition m event action =
     lift_result (case batch_transition m event action of Inl e \<Rightarrow> Inl (Batch_Value_Error e) | Inr t \<Rightarrow> Inr t)"

section \<open>Pure decisions\<close>

definition cursor_ahead :: "ring_info \<Rightarrow> int \<Rightarrow> int option \<Rightarrow> bool" where
  "cursor_ahead current fin durable_next \<longleftrightarrow>
     (case durable_next of
        None \<Rightarrow> False
      | Some d \<Rightarrow> d < read_sequence current \<and> read_sequence current \<le> write_sequence current \<and> fin \<le> write_sequence current)"

definition pending_incompatible :: "ring_info \<Rightarrow> attempt_descriptor \<Rightarrow> int option \<Rightarrow> bool" where
  "pending_incompatible current pending durable_next \<longleftrightarrow>
     (let fin = descriptor_start pending + descriptor_count pending; ahead = cursor_ahead current fin durable_next in
      read_sequence current < descriptor_start pending
      \<or> (fin < read_sequence current \<and> \<not> ahead)
      \<or> write_sequence current < fin
      \<or> (unread_packets current = 0 \<and> read_sequence current \<noteq> fin \<and> \<not> ahead))"

definition batch_bounds :: "sync_options \<Rightarrow> ring_info \<Rightarrow> attempt_descriptor option \<Rightarrow> int option \<Rightarrow> (exn, int \<times> int) result" where
  "batch_bounds opts current pending durable_next =
     (case pending of
        None \<Rightarrow> Inr (read_sequence current, min (write_sequence current) (read_sequence current + batch_records opts))
      | Some p \<Rightarrow>
          let start = descriptor_start p; fin = start + descriptor_count p; ahead = cursor_ahead current fin durable_next in
          if read_sequence current < start then Inl (Cursor_Regression ''device cursor regressed before batch start'')
          else if fin < read_sequence current \<and> \<not> ahead then Inl (Concurrent_Advance ''device cursor passed batch end'')
          else if write_sequence current < fin then Inl (Batch_Unavailable ''device write sequence fell below the bounded batch end'')
          else if unread_packets current = 0 \<and> read_sequence current \<noteq> fin \<and> \<not> ahead
          then Inl (Cursor_Consistency ''pending batch is not at its complete device end'')
          else Inr (start, fin))"

definition advance_action :: "ring_info \<Rightarrow> active_batch \<Rightarrow> (exn, cursor_action) result" where
  "advance_action current b =
     (if write_sequence current < read_sequence current then Inl (Concurrent_Advance ''device cursor passed its write sequence'')
      else if write_sequence current < batch_end b then Inr CursorAction_EXPIRED
      else if read_sequence current < batch_start b then Inr CursorAction_REGRESSED
      else if read_sequence current = batch_end b then Inr CursorAction_CONFIRMED
      else if batch_end b < read_sequence current then Inr CursorAction_AHEAD
      else Inr CursorAction_REPEAT)"

definition durable_progress :: "reconciler_state \<Rightarrow> int" where
  "durable_progress s =
     Max (set ([case visit_frontier s of None \<Rightarrow> 0 | Some f \<Rightarrow> f]
       @ (case (pending_descriptor s, pending_durable_next s) of
            (Some p, Some d) \<Rightarrow> if descriptor_start p < d then [d] else []
          | _ \<Rightarrow> [])
       @ (case active s of
            None \<Rightarrow> []
          | Some b \<Rightarrow> (case batch_durable b of None \<Rightarrow> [] | Some p \<Rightarrow> if prefix_records p \<noteq> 0 then [prefix_next p] else []))))"

definition set_startup_state :: "attempt_descriptor option \<Rightarrow> int option \<Rightarrow> unit step" where
  "set_startup_state pending durable_next =
     update_state (\<lambda>s. let t = s\<lparr>pending_descriptor := pending, pending_durable_next := durable_next\<rparr> in
       case (pending, durable_next) of
         (Some p, Some d) \<Rightarrow> if descriptor_start p < d then t\<lparr>visit_frontier := Some (frontier_max (visit_frontier t) d)\<rparr> else t
       | _ \<Rightarrow> t)"

section \<open>Writer steps\<close>

definition checkpoint_batch :: "ports \<Rightarrow> nat \<Rightarrow> durable_prefix step" where
  "checkpoint_batch ask w =
     bindp (port ask (Call_Checkpoint w) as_prefix) (\<lambda>durable.
     seqp (update_batch (\<lambda>b. b\<lparr>batch_durable := Some durable\<rparr>)) (ret durable))"

definition adopt_settled_prefix :: "ports \<Rightarrow> nat \<Rightarrow> durable_prefix option step" where
  "adopt_settled_prefix ask w =
     bindp (port ask (Call_Failure w) as_failure) (\<lambda>failure.
     case failure of
       Some f \<Rightarrow> raise f
     | None \<Rightarrow>
         bindp (port ask (Call_Settled w) as_maybe_prefix) (\<lambda>settled.
         case settled of
           None \<Rightarrow> ret None
         | Some durable \<Rightarrow> seqp (update_batch (\<lambda>b. b\<lparr>batch_durable := Some durable\<rparr>)) (ret (Some durable))))"

definition adopt_seal_result :: "ports \<Rightarrow> nat \<Rightarrow> bool step" where
  "adopt_seal_result ask w =
     bindp (port ask (Call_Await_Seal w) as_maybe_seal) (\<lambda>sealed.
     case sealed of
       None \<Rightarrow> ret False
     | Some s \<Rightarrow> seqp (update_batch (\<lambda>b. b\<lparr>batch_seal := Some s\<rparr>)) (ret True))"

text \<open>\<open>state.pending_durable_next = prefix.next_sequence\<close> and the frontier behind it.\<close>

definition note_prefix :: "durable_prefix \<Rightarrow> unit step" where
  "note_prefix durable =
     seqp (update_state (\<lambda>s. s\<lparr>pending_durable_next := Some (prefix_next durable)\<rparr>)) (retain_durable_frontier durable)"

definition adopt_completed_session_result :: "ports \<Rightarrow> nat \<Rightarrow> bool step" where
  "adopt_completed_session_result ask w =
     bindp (adopt_seal_result ask w) (\<lambda>sealed.
     if sealed then ret True
     else bindp (adopt_settled_prefix ask w) (\<lambda>settled.
       case settled of None \<Rightarrow> ret False | Some durable \<Rightarrow> seqp (note_prefix durable) (ret True)))"

definition publish_closing_prefix :: "ports \<Rightarrow> nat \<Rightarrow> unit step" where
  "publish_closing_prefix ask w =
     bindp (adopt_settled_prefix ask w) (\<lambda>settled.
     bindp (case settled of
         Some durable \<Rightarrow> ret (Some durable)
       | None \<Rightarrow>
           bindp (port ask (Call_Submitted w) as_flag) (\<lambda>submitted.
           if submitted then bindp (checkpoint_batch ask w) (\<lambda>durable. ret (Some durable)) else ret None)) (\<lambda>durable.
     case durable of
       None \<Rightarrow> ret ()
     | Some d \<Rightarrow>
         seqp (note_prefix d)
           (whenp (prefix_records d \<noteq> 0) (bindp (port ask (Call_Publish_Prefix w) as_maybe_seal) (\<lambda>_. ret ())))))"

definition checkpoint_after_session :: "ports \<Rightarrow> unit step" where
  "checkpoint_after_session ask =
     bindp get_state (\<lambda>s.
     case active s of
       None \<Rightarrow> ret ()
     | Some b \<Rightarrow>
         if batch_seal b \<noteq> None then ret ()
         else bindp (adopt_completed_session_result ask (batch_writer b)) (\<lambda>adopted.
           if adopted then ret ()
           else bindp (port ask (Call_Submitted (batch_writer b)) as_flag) (\<lambda>submitted.
             if \<not> submitted then ret ()
             else bindp (catchp (checkpoint_batch ask (batch_writer b)) (\<lambda>error.
                 if is_writer_failed error then raise_writer_cause ask (batch_writer b) error else raise error)) note_prefix)))"

section \<open>Admission\<close>

text \<open>A close that may fail with an error of the writer, which the caller is already reporting.\<close>

definition close_quietly :: "ports \<Rightarrow> nat \<Rightarrow> unit step" where
  "close_quietly ask w =
     catchp (port ask (Call_Close w) as_done) (\<lambda>error. if is_writer_error error then ret () else raise error)"

definition arena_start_of :: "ring_info \<Rightarrow> int \<Rightarrow> int option \<Rightarrow> int" where
  "arena_start_of current fin durable_next =
     (case durable_next of
        Some d \<Rightarrow> if read_sequence current \<le> d then d else if fin < read_sequence current then fin else read_sequence current
      | None \<Rightarrow> if fin < read_sequence current then fin else read_sequence current)"

definition admit_batch :: "ports \<Rightarrow> sync_options \<Rightarrow> ring_info \<Rightarrow> int \<Rightarrow> int \<Rightarrow> int option \<Rightarrow> active_batch step" where
  "admit_batch ask opts current start fin durable_next =
     (let arena_start = arena_start_of current fin durable_next in
      if fin - arena_start < 0 then raise (Cursor_Regression ''device cursor is outside the pending batch'')
      else
        seqp (lift_result (case new_arena arena_start (fin - arena_start) (arena_max_bytes opts) RECORD_SIZE of
                Inl e \<Rightarrow> Inl (Arena_Value_Error e) | Inr _ \<Rightarrow> Inr ()))
       (seqp (check_stop_intent ask)
       (bindp get_state (\<lambda>s.
        let w = writers_made s in
        seqp (update_state (\<lambda>s. s\<lparr>writers_made := Suc w\<rparr>))
       (seqp (port ask (Call_Make_Writer w start (fin - start) arena_start) as_done)
       (bindp
         (catchp
           (seqp (check_stop_intent ask)
           (seqp (port ask (Call_Start w) as_done)
           (bindp (port ask (Call_Initial_Prefix w) as_prefix) (\<lambda>prefix.
            if (case durable_next of None \<Rightarrow> False | Some d \<Rightarrow> prefix_next prefix \<noteq> d)
            then raise (Cursor_Consistency ''prepared durable prefix changed before recovery'')
            else ret prefix))))
           (\<lambda>error. seqp (close_quietly ask w)
              (if is_writer_failed error then raise_writer_cause ask w error else raise error))) (\<lambda>prefix.
        ret \<lparr>batch_info = Some current, batch_start = start, batch_end = fin, batch_writer = w,
             batch_durable = Some prefix, batch_seal = None\<rparr>)))))))"

definition ensure_batch :: "ports \<Rightarrow> sync_options \<Rightarrow> ring_info \<Rightarrow> active_batch option step" where
  "ensure_batch ask opts current =
     bindp get_state (\<lambda>s.
     case active s of
       Some b \<Rightarrow> ret (Some b)
     | None \<Rightarrow>
         seqp (check_stop_intent ask)
        (bindp
          (case pending_descriptor s of
             None \<Rightarrow> ret None
           | Some p \<Rightarrow>
               if pending_incompatible current p (pending_durable_next s)
               then seqp (port ask (Call_Quarantine (descriptor_attempt p)) as_done)
                   (seqp (update_state (\<lambda>s. s\<lparr>pending_durable_next := None, pending_descriptor := None\<rparr>)) (ret None))
               else ret (Some p)) (\<lambda>pending.
         bindp get_state (\<lambda>s.
         if unread_packets current = 0 \<and> pending = None
         then seqp (whenp (last_result s = None) (update_state (\<lambda>s. s\<lparr>last_result := Some (No_Data_Result current)\<rparr>))) (ret None)
         else
           bindp (lift_result (batch_bounds opts current pending (pending_durable_next s))) (\<lambda>(start, fin).
           bindp (admit_batch ask opts current start fin (pending_durable_next s)) (\<lambda>b.
           seqp (update_state (\<lambda>s. s\<lparr>active := Some b, pending_descriptor := pending\<rparr>)) (ret (Some b))))))))"

section \<open>READ and seal\<close>

definition quarantine_discontinuous_attempt :: "ports \<Rightarrow> nat \<Rightarrow> unit step" where
  "quarantine_discontinuous_attempt ask w =
     bindp (port ask (Call_Attempt_Id w) as_text) (\<lambda>attempt.
     seqp (port ask (Call_Close w) as_done) (port ask (Call_Quarantine attempt) as_done))"

text \<open>An observer of the loss may fail; only a cancellation propagates.\<close>

definition report_loss_detected :: "ports \<Rightarrow> int \<Rightarrow> unit step" where
  "report_loss_detected ask missing =
     catchp (port ask (Call_Loss_Event missing) as_done) (\<lambda>error. if is_exception error then ret () else raise error)"

definition publish_cursor_ahead :: "ports \<Rightarrow> sync_options \<Rightarrow> ring_info \<Rightarrow> active_batch \<Rightarrow> int \<Rightarrow> reconciliation step" where
  "publish_cursor_ahead ask opts current b durable_next =
     (let cursor = read_sequence current in
      if \<not> (durable_next < cursor \<and> cursor \<le> write_sequence current) \<or> write_sequence current < batch_end b
      then raise (Cursor_Consistency ''device cursor passed durable prefix'')
      else
        seqp (port ask Call_Host_Time as_done)
       (bindp (port ask (Call_Attempt_Id (batch_writer b)) as_text) (\<lambda>attempt.
        seqp (port ask (Call_Record_Loss attempt durable_next cursor) as_done)
       (seqp (if (case batch_durable b of None \<Rightarrow> False | Some p \<Rightarrow> 0 < prefix_records p) \<and> has_public_drain opts
              then bindp (port ask (Call_Attempt_Id (batch_writer b)) as_text) (\<lambda>attempt.
                port ask (Call_Arm_Pending attempt durable_next) as_done)
              else ret ())
       (bindp (port ask (Call_Publish_Prefix (batch_writer b)) as_maybe_seal) (\<lambda>published.
        seqp (report_loss_detected ask (cursor - durable_next)) (ret (Prefix_Published published))))))))"

definition read_leg_with_progress :: "ports \<Rightarrow> active_batch \<Rightarrow> int \<Rightarrow> unit step" where
  "read_leg_with_progress ask b read_start =
     catchp (port ask (Call_Read (batch_writer b) read_start (batch_end b - read_start)) as_done) (\<lambda>error.
       if is_exception error
       then bindp (port ask (Call_Failure (batch_writer b)) as_failure) (\<lambda>failure.
         case failure of Some f \<Rightarrow> if is_storage_fault f then raise f else raise error | None \<Rightarrow> raise error)
       else raise error)"

definition read_or_reconcile :: "ports \<Rightarrow> sync_options \<Rightarrow> ring_info \<Rightarrow> active_batch \<Rightarrow> reconciliation step" where
  "read_or_reconcile ask opts current b =
     (case batch_durable b of
        None \<Rightarrow> raise (Cursor_Consistency ''batch has no prepared durable prefix'')
      | Some prefix \<Rightarrow>
          let cursor = read_sequence current in
          if write_sequence current < cursor then raise (Cursor_Consistency ''device cursor passed write sequence'')
          else if cursor < batch_start b \<or> write_sequence current < batch_end b
          then seqp (quarantine_discontinuous_attempt ask (batch_writer b)) (ret Reconcile_Restart)
          else if prefix_next prefix < cursor then publish_cursor_ahead ask opts current b (prefix_next prefix)
          else if cursor = batch_end b \<or> prefix_next prefix = batch_end b then ret Reconciled
          else
            let read_start = max cursor (prefix_next prefix) in
            seqp (report_activity ask ''reading'')
           (seqp (port ask (Call_Capture_Space (batch_end b - read_start)) as_done)
           (seqp (read_leg_with_progress ask b read_start)
           (bindp (checkpoint_batch ask (batch_writer b)) (\<lambda>checkpoint.
            if prefix_next checkpoint < cursor then raise (Cursor_Consistency ''device cursor passed the writer checkpoint'')
            else ret Reconciled)))))"

definition continue_after_prefix :: "ports \<Rightarrow> active_batch \<Rightarrow> seal option \<Rightarrow> unit step" where
  "continue_after_prefix ask b published =
     (case batch_durable b of
        None \<Rightarrow> raise (Cursor_Consistency ''cursor-ahead state has no writer checkpoint'')
      | Some prefix \<Rightarrow>
          (case batch_info b of
             None \<Rightarrow> raise Assertion_Error
           | Some info \<Rightarrow>
               seqp (report_activity ask (if published \<noteq> None then ''prefix_published'' else ''prefix_retired''))
              (seqp (case published of
                  None \<Rightarrow> ret ()
                | Some s \<Rightarrow> update_state (\<lambda>st. st\<lparr>last_result := Some (Collection_Result info (prefix_records prefix) s (prefix_next prefix) False)\<rparr>))
              (seqp (retain_durable_frontier prefix)
              (seqp (port ask (Call_Close (batch_writer b)) as_done) (update_state retire_batch))))))"

text \<open>\<open>state.batch\<close> where the code still holds the batch.\<close>

definition current_batch :: "active_batch step" where
  "current_batch = bindp get_state (\<lambda>s. case active s of None \<Rightarrow> raise Assertion_Error | Some b \<Rightarrow> ret b)"

definition seal_batch :: "ports \<Rightarrow> active_batch \<Rightarrow> unit step" where
  "seal_batch ask b =
     bindp (lift_result (batch_milestone (Some b))) (\<lambda>precondition.
     seqp (machine_transition precondition Event_SEAL_REQUEST None)
    (seqp (report_activity ask ''sealing'')
    (bindp (catchp (port ask (Call_Seal (batch_writer b) (batch_end b)) as_seal) (\<lambda>error.
        if is_writer_failed error then raise_writer_cause ask (batch_writer b) error else raise error)) (\<lambda>sealed.
     seqp (machine_transition precondition Event_SEAL None)
       (update_batch (\<lambda>b. b\<lparr>batch_seal := Some sealed\<rparr>))))))"

definition read_and_seal :: "ports \<Rightarrow> sync_options \<Rightarrow> ring_info \<Rightarrow> active_batch \<Rightarrow> bool option step" where
  "read_and_seal ask opts current b0 =
     bindp (read_or_reconcile ask opts current b0) (\<lambda>outcome.
     bindp current_batch (\<lambda>b.
     case outcome of
       Prefix_Published published \<Rightarrow> seqp (continue_after_prefix ask b published) (ret None)
     | Reconcile_Restart \<Rightarrow> seqp (update_state retire_batch) (ret None)
     | Reconciled \<Rightarrow>
         (case batch_durable b of
            None \<Rightarrow> raise (Cursor_Consistency ''writer checkpoint did not return a durable prefix'')
          | Some prefix \<Rightarrow>
              if prefix_next prefix \<noteq> batch_end b then raise (Cursor_Consistency ''READ did not produce the bounded batch prefix'')
              else
                seqp (if has_public_drain opts
                      then bindp (port ask (Call_Attempt_Id (batch_writer b)) as_text) (\<lambda>attempt.
                        port ask (Call_Arm_Pending attempt (batch_end b)) as_done)
                      else ret ())
               (seqp (seal_batch ask b) (ret (Some (read_sequence current = batch_end b)))))))"

section \<open>ADVANCE\<close>

definition complete_batch :: "ports \<Rightarrow> active_batch \<Rightarrow> bool \<Rightarrow> unit step" where
  "complete_batch ask b advance_confirmed =
     (case (batch_seal b, batch_info b) of
        (Some s, Some info) \<Rightarrow>
          seqp (port ask (Call_Close (batch_writer b)) as_done)
         (bindp (lift_result (batch_milestone (Some b))) (\<lambda>m.
          seqp (machine_transition m Event_WRITER_CLOSED None)
            (update_state (\<lambda>st. (retire_batch st)\<lparr>
               last_result := Some (Collection_Result info (batch_count b) s (batch_end b) advance_confirmed),
               visit_frontier := (if batch_count b \<noteq> 0 then Some (frontier_max (visit_frontier st) (batch_end b)) else visit_frontier st),
               completed_batches := Suc (completed_batches st)\<rparr>))))
      | _ \<Rightarrow> raise Assertion_Error)"

definition sealed_cursor_rejection :: "string \<Rightarrow> exn" where
  "sealed_cursor_rejection observation = Cursor_Consistency (observation @ '' classified sealed batch; preserving sealed evidence'')"

definition cursor_decision :: "ring_info \<Rightarrow> active_batch \<Rightarrow> batch_event \<Rightarrow> (cursor_action \<times> command) step" where
  "cursor_decision current b event =
     bindp (lift_result (advance_action current b)) (\<lambda>action.
     bindp (lift_result (batch_milestone (Some b))) (\<lambda>m.
     bindp (machine_transition m event (Some action)) (\<lambda>decision. ret (action, transition_command decision))))"

definition read_info :: "ports \<Rightarrow> ring_info step" where
  "read_info ask = port ask Call_Info as_info"

text \<open>What follows the decision about a fresh INFO, and the one about the INFO after the acknowledgment.\<close>

definition confirm_advance :: "ports \<Rightarrow> active_batch \<Rightarrow> (string option \<times> ring_info option) step" where
  "confirm_advance ask b =
     seqp (check_stop_intent ask)
    (bindp (read_info ask) (\<lambda>confirmed.
     bindp (cursor_decision confirmed b Event_ADVANCE_ACK_INFO) (\<lambda>(action, command).
     if command = Command_REJECT then raise (sealed_cursor_rejection ''INFO after ADVANCE acknowledgment'')
     else if command = Command_CLOSE
     then seqp (complete_batch ask b (action = CursorAction_CONFIRMED)) (ret (None, Some confirmed))
     else seqp (assertp (command = Command_KEEP) Assertion_Error) (ret (None, Some confirmed)))))"

definition advance_decided :: "ports \<Rightarrow> active_batch \<Rightarrow> ring_info \<Rightarrow> cursor_action \<Rightarrow> command \<Rightarrow> (string option \<times> ring_info option) step" where
  "advance_decided ask b current action command =
     (if command = Command_REJECT then raise (sealed_cursor_rejection ''fresh INFO before ADVANCE'')
      else if command = Command_CLOSE
      then seqp (complete_batch ask b (action = CursorAction_CONFIRMED)) (ret (None, Some current))
      else
        seqp (assertp (command = Command_ADVANCE) Assertion_Error)
       (seqp (catchp (port ask (Call_Advance (batch_end b)) as_done) (\<lambda>error.
           if error = Advance_Uncertain \<or> error = Collector_Timeout
           then bindp (lift_result (batch_milestone (Some b))) (\<lambda>m.
             seqp (machine_transition m Event_ADVANCE_UNCERTAIN None) (raise error))
           else raise error))
         (confirm_advance ask b)))"

definition advance_batch :: "ports \<Rightarrow> active_batch \<Rightarrow> (string option \<times> ring_info option) step" where
  "advance_batch ask b =
     seqp (assertp (batch_seal b \<noteq> None) Assertion_Error)
    (seqp (check_stop_intent ask)
    (bindp (read_info ask) (\<lambda>current.
     seqp (report_activity ask ''advancing'')
    (bindp (cursor_decision current b Event_FRESH_INFO) (\<lambda>(action, command).
     advance_decided ask b current action command)))))"

text \<open>What follows once the batch is sealed.\<close>

definition after_seal :: "ports \<Rightarrow> sync_options \<Rightarrow> ring_info \<Rightarrow> (string option \<times> ring_info option) step" where
  "after_seal ask opts current =
     bindp current_batch (\<lambda>b.
     if \<not> advance_enabled opts then seqp (complete_batch ask b False) (ret (Some ''collected'', Some current))
     else seqp (set_phase ''advance'') (advance_batch ask b))"

fun run_connected_step :: "ports \<Rightarrow> sync_options \<Rightarrow> nat \<Rightarrow> ring_info \<Rightarrow> (string option \<times> ring_info option) step" where
  "run_connected_step ask opts 0 current = raise Out_Of_Fuel"
| "run_connected_step ask opts (Suc n) current =
     seqp (set_phase ''read/reconcile'')
    (bindp (ensure_batch ask opts current) (\<lambda>found.
     case found of
       None \<Rightarrow> ret (Some ''drained'', Some current)
     | Some b0 \<Rightarrow>
         seqp (whenp (batch_info b0 = None) (update_batch (\<lambda>b. b\<lparr>batch_info := Some current\<rparr>)))
        (bindp current_batch (\<lambda>b.
         if batch_seal b = None
         then bindp (read_and_seal ask opts current b) (\<lambda>reconciled.
           if reconciled = None
           then seqp (set_phase ''info'') (seqp (check_stop_intent ask)
             (bindp (read_info ask) (\<lambda>fresh. run_connected_step ask opts n fresh)))
           else after_seal ask opts current)
         else after_seal ask opts current))))"

definition connected_step :: "ports \<Rightarrow> sync_options \<Rightarrow> nat \<Rightarrow> ring_info option \<Rightarrow> (string option \<times> ring_info option) step" where
  "connected_step ask opts fuel current =
     bindp (case current of
         Some i \<Rightarrow> ret i
       | None \<Rightarrow> seqp (set_phase ''info'') (seqp (check_stop_intent ask) (read_info ask))) (run_connected_step ask opts fuel)"

section \<open>Closing and finalization\<close>

definition completed_at :: "ports \<Rightarrow> bool \<Rightarrow> unit step" where
  "completed_at ask verified = whenp verified (port ask Call_Host_Time as_done)"

definition reconciler_close_visit :: "ports \<Rightarrow> string \<Rightarrow> int option \<Rightarrow> bool \<Rightarrow> unit step" where
  "reconciler_close_visit ask reason drain_cursor verified =
     seqp (if reason = ''drained''
           then assertp (case drain_cursor of None \<Rightarrow> False | Some c \<Rightarrow> 0 \<le> c) (Runtime_Error ''drained visit lacks its confirmed cursor'')
           else assertp (drain_cursor = None) (Runtime_Error ''nondrained visit carries a confirmed cursor''))
    (bindp get_state (\<lambda>s.
     case active s of
       None \<Rightarrow>
         seqp (completed_at ask verified)
        (seqp (port ask (Call_Close_Pending reason (reason \<noteq> ''restart_interrupted'') drain_cursor verified) as_done)
        (seqp (completed_at ask verified)
        (seqp (port ask (Call_Close_Orphaned reason drain_cursor verified) as_done)
          (update_state (\<lambda>s. s\<lparr>pending_descriptor := None, pending_durable_next := None, visit_frontier := None\<rparr>)))))
     | Some b \<Rightarrow>
         seqp (if batch_seal b = None then publish_closing_prefix ask (batch_writer b)
               else whenp (batch_count b \<noteq> 0)
                 (update_state (\<lambda>s. s\<lparr>visit_frontier := Some (frontier_max (visit_frontier s) (batch_end b))\<rparr>)))
        (seqp (port ask (Call_Close (batch_writer b)) as_done)
        (seqp (update_state retire_batch)
        (bindp get_state (\<lambda>s.
         case visit_frontier s of
           None \<Rightarrow> ret ()
         | Some frontier \<Rightarrow>
             if reason = ''drained'' \<and> (case drain_cursor of None \<Rightarrow> False | Some c \<Rightarrow> c < frontier)
             then raise (Runtime_Error ''confirmed drain cursor does not cover the live batch frontier'')
             else
               seqp (completed_at ask verified)
              (seqp (port ask (Call_Append_Closure frontier reason verified) as_done)
                (update_state (\<lambda>s. s\<lparr>visit_frontier := None\<rparr>)))))))))"

text \<open>An error that teardown reports instead of raising.\<close>

definition teardown_error :: "ports \<Rightarrow> string \<Rightarrow> exn \<Rightarrow> exn option step" where
  "teardown_error ask operation error =
     (if is_os_error error \<or> (is_exception error \<and> (is_staging_error error \<or> is_writer_error error))
      then seqp (port ask (Call_Finalization_Error operation) as_done) (ret (Some error))
      else raise error)"

definition close_finalizing_batch :: "ports \<Rightarrow> nat \<Rightarrow> (exn option \<times> bool) step" where
  "close_finalizing_batch ask w =
     bindp (port ask (Call_Alive w) as_flag) (\<lambda>alive.
     if \<not> alive then ret (None, False)
     else catchp (seqp (port ask (Call_Close w) as_done) (ret (None, True)))
       (\<lambda>error. bindp (teardown_error ask ''close'' error) (\<lambda>e. ret (e, False))))"

definition final_checkpoint :: "ports \<Rightarrow> nat \<Rightarrow> exn option step" where
  "final_checkpoint ask w =
     catchp
       (bindp (adopt_seal_result ask w) (\<lambda>sealed.
        bindp (adopt_settled_prefix ask w) (\<lambda>settled.
        if \<not> sealed \<and> settled = None
        then bindp (port ask (Call_Submitted w) as_flag) (\<lambda>submitted.
          if submitted then seqp (checkpoint_batch ask w) (ret None) else ret None)
        else ret None)))
       (teardown_error ask ''checkpoint'')"

definition adopt_seal_after_close :: "ports \<Rightarrow> nat \<Rightarrow> exn option \<Rightarrow> exn option step" where
  "adopt_seal_after_close ask w earlier =
     catchp (bindp (adopt_seal_result ask w) (\<lambda>adopted. ret (if adopted then None else earlier)))
       (\<lambda>error.
          if is_os_error error \<or> (is_exception error \<and> (is_staging_error error \<or> is_writer_error error))
          then (case earlier of
             Some e \<Rightarrow> ret (Some e)
           | None \<Rightarrow> seqp (port ask (Call_Finalization_Error ''checkpoint'') as_done) (ret (Some error)))
          else raise error)"

definition finalize_batch :: "ports \<Rightarrow> active_batch \<Rightarrow> (exn option \<times> exn option) step" where
  "finalize_batch ask b =
     bindp (capture (if batch_seal b = None then final_checkpoint ask (batch_writer b) else ret None)) (\<lambda>outcome.
     bindp (close_finalizing_batch ask (batch_writer b)) (\<lambda>(close_error, closed).
     bindp (lift_result outcome) (\<lambda>checkpoint_error.
     bindp current_batch (\<lambda>b.
     if closed \<and> batch_seal b = None
     then bindp (adopt_seal_after_close ask (batch_writer b) checkpoint_error) (\<lambda>e. ret (e, close_error))
     else ret (checkpoint_error, close_error)))))"

definition finalize_active :: "ports \<Rightarrow> finalization_result step" where
  "finalize_active ask =
     bindp get_state (\<lambda>s.
     case active s of
       None \<Rightarrow> ret \<lparr>checkpoint_error = None, close_error = None, preserved_path = None, preserved_source_id = None, preserved_kind = None\<rparr>
     | Some b \<Rightarrow>
         bindp (port ask (Call_Attempt_Id (batch_writer b)) as_text) (\<lambda>attempt.
         bindp (finallyp (finalize_batch ask b)
           (bindp (port ask (Call_Failure (batch_writer b)) as_failure) (\<lambda>failure.
            case failure of Some f \<Rightarrow> if is_storage_fault f then raise f else ret () | None \<Rightarrow> ret ()))) (\<lambda>(ck, cl).
         bindp current_batch (\<lambda>b.
         let path = (case batch_seal b of Some (Bundle_Seal p) \<Rightarrow> Some p | _ \<Rightarrow> None) in
         ret \<lparr>checkpoint_error = ck, close_error = cl, preserved_path = path,
              preserved_source_id = (if path \<noteq> None then None else Some attempt),
              preserved_kind = Some (if path \<noteq> None then ''sealed bundle'' else ''internal audio source'')\<rparr>))))"

definition drained_result :: "collect_result step" where
  "drained_result =
     bindp get_state (\<lambda>s. case last_result s of None \<Rightarrow> raise (Runtime_Error ''drained collection has no INFO result'') | Some r \<Rightarrow> ret r)"

end
