(* ===== verification/Batch_Custody.thy ===== *)
theory Batch_Custody
  imports Batch_Reconciliation
begin

text \<open>
  What the reconciler's calls can rely on, for every behaviour of its ports and every order of its operations: a guard
  on histories for the three calls that move data or the device cursor, an invariant that ties the fields of the
  active batch to acknowledgements in the history, and the proof that every operation keeps it.
\<close>

section \<open>Guards\<close>

type_synonym port_history = "(port_call \<times> port_answer) list"

text \<open>The writer reported this durable prefix.\<close>

definition prefix_acked :: "nat \<Rightarrow> durable_prefix \<Rightarrow> port_history \<Rightarrow> bool" where
  "prefix_acked w p h \<longleftrightarrow>
     (Call_Initial_Prefix w, Prefix_Answer p) \<in> set h \<or> (Call_Checkpoint w, Prefix_Answer p) \<in> set h
   \<or> (Call_Settled w, Maybe_Prefix (Some p)) \<in> set h"

text \<open>The writer acknowledged its seal, at this end or by a result awaited later.\<close>

definition seal_acked :: "nat \<Rightarrow> int \<Rightarrow> port_history \<Rightarrow> bool" where
  "seal_acked w e h \<longleftrightarrow>
     (\<exists>s. (Call_Seal w e, Seal_Answer s) \<in> set h) \<or> (\<exists>s. (Call_Await_Seal w, Maybe_Seal (Some s)) \<in> set h)"

text \<open>
  ADVANCE to \<open>e\<close>: the last call before it but the report of the activity was an INFO that shows the cursor below
  \<open>e\<close> and \<open>e\<close> within the ring, and before that INFO one writer had reported a prefix that ends at \<open>e\<close> and its seal.
\<close>

definition advance_allowed :: "port_history \<Rightarrow> int \<Rightarrow> bool" where
  "advance_allowed h e \<longleftrightarrow>
     (\<exists>old i a w p. h = old @ [(Call_Info, Info_Answer i), (Call_Activity ''advancing'', a)]
        \<and> read_sequence i < e \<and> e \<le> write_sequence i
        \<and> prefix_acked w p old \<and> prefix_next p = e \<and> seal_acked w e old)"

fun call_allowed :: "port_history \<Rightarrow> port_call \<Rightarrow> bool" where
  "call_allowed h (Call_Advance e) = advance_allowed h e"
| "call_allowed h (Call_Seal w e) = (\<exists>p. prefix_acked w p h \<and> prefix_next p = e)"
| "call_allowed h (Call_Read w a n) = (\<exists>p. prefix_acked w p h \<and> prefix_next p = a)"
| "call_allowed h _ = True"

section \<open>The invariant\<close>

definition batch_ok :: "port_history \<Rightarrow> active_batch \<Rightarrow> bool" where
  "batch_ok h b \<longleftrightarrow>
     (\<forall>p. batch_durable b = Some p \<longrightarrow> prefix_acked (batch_writer b) p h)
   \<and> (batch_seal b \<noteq> None \<longrightarrow> seal_acked (batch_writer b) (batch_end b) h)"

text \<open>
  The invariant while writer \<open>w\<close> is the active one and its batch ends at \<open>e\<close>, with the batches \<open>B\<close> that a program
  still holds.
\<close>

definition custody :: "nat \<Rightarrow> int \<Rightarrow> active_batch set \<Rightarrow> (port_call, port_answer, reconciler_state) world \<Rightarrow> bool" where
  "custody w e B v \<longleftrightarrow>
     guarded call_allowed (history v)
   \<and> (\<forall>b \<in> B \<union> set_option (active (local_state v)). batch_ok (history v) b \<and> batch_writer b = w \<and> batch_end b = e)"

definition reconciler_inv :: "(port_call, port_answer, reconciler_state) world \<Rightarrow> bool" where
  "reconciler_inv v \<longleftrightarrow> (\<exists>w e. custody w e {} v)"

text \<open>A program that keeps this invariant.\<close>

abbreviation keeps :: "nat \<Rightarrow> int \<Rightarrow> active_batch set \<Rightarrow> 'r step \<Rightarrow> bool" where
  "keeps w e B \<equiv> maintains (custody w e B)"

lemma prefix_acked_append: "prefix_acked w p h \<Longrightarrow> prefix_acked w p (h @ g)"
  by (auto simp: prefix_acked_def)

lemma seal_acked_append: "seal_acked w e h \<Longrightarrow> seal_acked w e (h @ g)"
  by (auto simp: seal_acked_def)

lemma batch_ok_append: "batch_ok h b \<Longrightarrow> batch_ok (h @ g) b"
  by (auto simp: batch_ok_def prefix_acked_append seal_acked_append)

lemma custody_call:
  "custody w e B v \<Longrightarrow> call_allowed (history v) c \<Longrightarrow> custody w e B (v\<lparr>history := history v @ [(c, a)]\<rparr>)"
  by (auto simp: custody_def batch_ok_append)

lemma custody_held: "custody w e B v \<Longrightarrow> b \<in> B \<Longrightarrow> batch_ok (history v) b \<and> batch_writer b = w \<and> batch_end b = e"
  by (simp add: custody_def)

lemma custody_subset: "custody w e B v \<Longrightarrow> C \<subseteq> B \<Longrightarrow> custody w e C v"
  unfolding custody_def by blast

lemma custody_active: "custody w e B v \<Longrightarrow> active (local_state v) = Some b \<Longrightarrow> custody w e (insert b B) v"
  by (auto simp: custody_def)

lemma custody_inv: "custody w e B v \<Longrightarrow> reconciler_inv v"
  unfolding reconciler_inv_def by (blast intro: custody_subset)

text \<open>A change of the active batch that keeps its writer and end and what the history acknowledges.\<close>

lemma custody_update_batch:
  assumes "custody w e B v"
    and "\<And>b. batch_ok (history v) b \<Longrightarrow> batch_writer b = w \<Longrightarrow> batch_end b = e \<Longrightarrow>
           batch_ok (history v) (f b) \<and> batch_writer (f b) = w \<and> batch_end (f b) = e"
  shows "custody w e B (v\<lparr>local_state := (local_state v)\<lparr>active := map_option f (active (local_state v))\<rparr>\<rparr>)"
  using assms unfolding custody_def by (cases "active (local_state v)") auto

lemma custody_keeps_update [maintains_intros]:
  assumes "\<And>s. active (f s) = active s \<or> active (f s) = None"
  shows "keeps w e B (update_state f)"
proof (rule maintains_update_state)
  fix v :: "(port_call, port_answer, reconciler_state) world"
  assume "custody w e B v"
  then show "custody w e B (v\<lparr>local_state := f (local_state v)\<rparr>)"
    using assms [of "local_state v"] by (auto simp: custody_def)
qed

text \<open>Calls without a guard.\<close>

definition quiet :: "port_call \<Rightarrow> bool" where
  "quiet c \<longleftrightarrow> (\<forall>h. call_allowed h c)"

lemma keeps_allowed_port:
  "(\<And>v. custody w e B v \<Longrightarrow> call_allowed (history v) c) \<Longrightarrow> keeps w e B (port ask c f)"
  unfolding maintains_def wp_port by (auto simp: custody_call split: sum.splits)

lemma custody_keeps_port [maintains_intros]: "quiet c \<Longrightarrow> keeps w e B (port ask c f)"
  by (rule keeps_allowed_port) (simp add: quiet_def)

lemma quiet_calls [simp]:
  "quiet Call_Stop" "quiet Call_Info" "quiet (Call_Activity x)" "quiet Call_Host_Time" "quiet (Call_Quarantine x)"
  "quiet (Call_Make_Writer n i j k)" "quiet (Call_Start n)" "quiet (Call_Initial_Prefix n)" "quiet (Call_Close n)"
  "quiet (Call_Checkpoint n)" "quiet (Call_Publish_Prefix n)" "quiet (Call_Await_Seal n)" "quiet (Call_Failure n)"
  "quiet (Call_Settled n)" "quiet (Call_Submitted n)" "quiet (Call_Attempt_Id n)" "quiet (Call_Alive n)"
  "quiet (Call_Capture_Space i)" "quiet (Call_Arm_Pending x i)" "quiet (Call_Record_Loss x i j)" "quiet (Call_Loss_Event i)"
  "quiet (Call_Close_Pending x b d c)" "quiet (Call_Close_Orphaned x d c)" "quiet (Call_Append_Closure i x c)"
  "quiet (Call_Finalization_Error x)"
  by (simp_all add: quiet_def)

section \<open>Writer steps\<close>

text \<open>A continuation may use that the answer it was given is in the history.\<close>

lemma keeps_answer_or:
  assumes "\<And>v. custody w e B v \<Longrightarrow> call_allowed (history v) c"
    and "\<And>v x. custody w e B v \<Longrightarrow> wp (h x) (\<lambda>_ _. False) (\<lambda>_. custody w e B) v"
    and "\<And>v a x. custody w e B v \<Longrightarrow> (c, a) \<in> set (history v) \<Longrightarrow> f a = Inr x \<Longrightarrow>
           wp (k x) (\<lambda>_. custody w e B) (\<lambda>_. custody w e B) v"
  shows "keeps w e B (bindp (catchp (port ask c f) h) k)"
  unfolding maintains_def
proof (intro allI impI)
  fix v assume "custody w e B v"
  then have c: "custody w e B (v\<lparr>history := history v @ [(c, ask (history v) c)]\<rparr>)"
    by (simp add: custody_call assms(1))
  show "wp (bindp (catchp (port ask c f) h) k) (\<lambda>_. custody w e B) (\<lambda>_. custody w e B) v"
    using c by (auto simp: wp_simps intro: assms(3) wp_mono [OF assms(2) [OF c]] split: sum.splits)
qed

lemma keeps_answer:
  assumes "quiet c"
    and "\<And>v a x. custody w e B v \<Longrightarrow> (c, a) \<in> set (history v) \<Longrightarrow> f a = Inr x \<Longrightarrow>
           wp (k x) (\<lambda>_. custody w e B) (\<lambda>_. custody w e B) v"
  shows "keeps w e B (bindp (port ask c f) k)"
proof -
  have "keeps w e B (bindp (catchp (port ask c f) raise) k)"
    using assms by (intro keeps_answer_or) (auto simp: quiet_def wp_raise)
  then show ?thesis by simp
qed

lemma wp_update_durable:
  "custody w e B v \<Longrightarrow> prefix_acked w p (history v) \<Longrightarrow> (\<And>u. custody w e B u \<Longrightarrow> Q () u) \<Longrightarrow>
   wp (update_batch (\<lambda>b. b\<lparr>batch_durable := Some p\<rparr>)) Q E v"
  unfolding update_batch_def wp_update_state
  by (drule custody_update_batch [where f = "\<lambda>b. b\<lparr>batch_durable := Some p\<rparr>"]) (simp_all add: batch_ok_def)

lemma wp_update_seal:
  "custody w e B v \<Longrightarrow> seal_acked w e (history v) \<Longrightarrow> (\<And>u. custody w e B u \<Longrightarrow> Q () u) \<Longrightarrow>
   wp (update_batch (\<lambda>b. b\<lparr>batch_seal := Some s\<rparr>)) Q E v"
  unfolding update_batch_def wp_update_state
  by (drule custody_update_batch [where f = "\<lambda>b. b\<lparr>batch_seal := Some s\<rparr>"]) (simp_all add: batch_ok_def)

lemma answer_simps:
  "as_prefix a = Inr p \<longleftrightarrow> a = Prefix_Answer p" "as_maybe_prefix a = Inr q \<longleftrightarrow> a = Maybe_Prefix q"
  "as_seal a = Inr s \<longleftrightarrow> a = Seal_Answer s" "as_maybe_seal a = Inr t \<longleftrightarrow> a = Maybe_Seal t"
  "as_info a = Inr i \<longleftrightarrow> a = Info_Answer i" "as_done a = Inr u \<longleftrightarrow> a = Done"
  by (cases a; auto)+

lemma keeps_checkpoint_batch [maintains_intros]: "keeps w e B (checkpoint_batch ask w)"
  unfolding checkpoint_batch_def
  by (rule keeps_answer) (auto simp: answer_simps prefix_acked_def wp_seqp wp_ret intro!: wp_update_durable)

lemma keeps_adopt_settled_prefix [maintains_intros]: "keeps w e B (adopt_settled_prefix ask w)"
  unfolding adopt_settled_prefix_def
  by (rule maintains_bindp, rule custody_keeps_port, simp, rule maintains_option, rule keeps_answer)
    (auto simp: maintains_raise answer_simps prefix_acked_def wp_seqp wp_ret intro!: wp_update_durable split: option.split)

lemma keeps_adopt_seal_result [maintains_intros]: "keeps w e B (adopt_seal_result ask w)"
  unfolding adopt_seal_result_def
  by (rule keeps_answer) (auto simp: answer_simps seal_acked_def wp_seqp wp_ret intro!: wp_update_seal split: option.split)

lemma keeps_note_prefix [maintains_intros]: "keeps w e B (note_prefix p)"
  unfolding note_prefix_def retain_durable_frontier_def by (intro maintains_intros) simp_all

lemma keeps_adopt_completed [maintains_intros]: "keeps w e B (adopt_completed_session_result ask w)"
  unfolding adopt_completed_session_result_def by (intro maintains_intros)

lemma keeps_publish_closing [maintains_intros]: "keeps w e B (publish_closing_prefix ask w)"
  unfolding publish_closing_prefix_def by (intro maintains_intros) simp_all

lemma keeps_raise_cause [maintains_intros]: "keeps w e B (raise_writer_cause ask n x)"
  unfolding raise_writer_cause_def by (intro maintains_intros) simp

lemma keeps_checks [maintains_intros]:
  "keeps w e B (check_stop_intent ask)" "keeps w e B (report_activity ask x)" "keeps w e B (read_info ask)"
  "keeps w e B (set_phase y)" "keeps w e B (completed_at ask d)" "keeps w e B (report_loss_detected ask i)"
  "keeps w e B (machine_transition m g a)" "keeps w e B (close_quietly ask n)" "keeps w e B (retain_durable_frontier p)"
  "keeps w e B (update_state retire_batch)"
  unfolding check_stop_intent_def report_activity_def read_info_def set_phase_def completed_at_def
    report_loss_detected_def machine_transition_def close_quietly_def retain_durable_frontier_def
  by (intro maintains_intros; simp add: retire_batch_def)+

section \<open>READ and seal\<close>

lemma keeps_lift_bindp:
  "(\<And>x. r = Inr x \<Longrightarrow> keeps w e B (f x)) \<Longrightarrow> keeps w e B (bindp (lift_result r) f)"
  by (cases r) (simp_all add: maintains_def wp_simps)

lemma keeps_transition_seqp:
  "(\<And>t. batch_transition m g a = Inr t \<Longrightarrow> keeps w e B n) \<Longrightarrow> keeps w e B (seqp (machine_transition m g a) n)"
  unfolding machine_transition_def seqp_def by (rule keeps_lift_bindp) (auto split: sum.splits)

lemma seal_request_milestone: "batch_transition m Event_SEAL_REQUEST None = Inr t \<Longrightarrow> m = Milestone_FULL_DURABLE"
  by (cases m) (simp_all add: batch_transition_def batch_transitions_def)

lemma full_durable_batch:
  "batch_milestone (Some b) = Inr Milestone_FULL_DURABLE \<Longrightarrow> \<exists>p. batch_durable b = Some p \<and> prefix_next p = batch_end b"
  by (auto simp: batch_milestone_def derive_milestone_def split: option.splits if_splits sum.splits)

lemma sealed_batch:
  "batch_milestone (Some b) = Inr Milestone_SEALED \<Longrightarrow> \<exists>p. batch_durable b = Some p \<and> prefix_next p = batch_end b"
  by (auto simp: batch_milestone_def derive_milestone_def split: option.splits if_splits sum.splits)

lemma custody_durable:
  "custody w e B v \<Longrightarrow> b \<in> B \<Longrightarrow> batch_durable b = Some p \<Longrightarrow> prefix_acked w p (history v)"
  by (auto simp: custody_def batch_ok_def)

lemma keeps_read_leg [maintains_intros]:
  assumes "b \<in> B" "batch_durable b = Some p"
  shows "keeps (batch_writer b) (batch_end b) B (read_leg_with_progress ask b (prefix_next p))"
  unfolding read_leg_with_progress_def
  using assms by (intro maintains_intros keeps_allowed_port) (auto dest: custody_durable)

lemma keeps_publish_cursor_ahead [maintains_intros]:
  "keeps w e B (publish_cursor_ahead ask opts current b d)"
  unfolding publish_cursor_ahead_def by (intro maintains_intros) simp_all

lemma keeps_quarantine [maintains_intros]: "keeps w e B (quarantine_discontinuous_attempt ask n)"
  unfolding quarantine_discontinuous_attempt_def by (intro maintains_intros) simp_all

lemma keeps_read_or_reconcile [maintains_intros]:
  assumes "b \<in> B"
  shows "keeps (batch_writer b) (batch_end b) B (read_or_reconcile ask opts current b)"
proof (cases "batch_durable b")
  case None
  then show ?thesis by (simp add: read_or_reconcile_def maintains_raise)
next
  case (Some p)
  then show ?thesis
    unfolding read_or_reconcile_def Some option.case Let_def
    by (intro maintains_intros) (simp_all add: max_absorb2 keeps_read_leg [OF assms Some])
qed

lemma keeps_continue_after_prefix [maintains_intros]: "keeps w e B (continue_after_prefix ask b s)"
  unfolding continue_after_prefix_def by (intro maintains_intros) simp_all

lemma keeps_seal_batch [maintains_intros]:
  assumes b: "b \<in> B"
  shows "keeps (batch_writer b) (batch_end b) B (seal_batch ask b)"
proof -
  have "keeps (batch_writer b) (batch_end b) B
      (bindp (catchp (port ask (Call_Seal (batch_writer b) (batch_end b)) as_seal) (\<lambda>error.
          if is_writer_failed error then raise_writer_cause ask (batch_writer b) error else raise error)) (\<lambda>sealed.
       seqp (machine_transition m Event_SEAL None) (update_batch (\<lambda>b. b\<lparr>batch_seal := Some sealed\<rparr>))))"
    if m: "batch_milestone (Some b) = Inr Milestone_FULL_DURABLE" for m
  proof (rule keeps_answer_or)
    fix v assume c: "custody (batch_writer b) (batch_end b) B v"
    obtain p where "batch_durable b = Some p" "prefix_next p = batch_end b" using full_durable_batch [OF m] by blast
    then show "call_allowed (history v) (Call_Seal (batch_writer b) (batch_end b))"
      using custody_durable [OF c b] by auto
  next
    fix v x assume c: "custody (batch_writer b) (batch_end b) B v"
    show "wp (if is_writer_failed x then raise_writer_cause ask (batch_writer b) x else raise x)
        (\<lambda>_ _. False) (\<lambda>_. custody (batch_writer b) (batch_end b) B) v"
      using c by (simp add: raise_writer_cause_def wp_simps custody_call split: sum.split option.split)
  next
    fix v a x
    assume c: "custody (batch_writer b) (batch_end b) B v"
      and h: "(Call_Seal (batch_writer b) (batch_end b), a) \<in> set (history v)" "as_seal a = Inr x"
    have s: "seal_acked (batch_writer b) (batch_end b) (history v)" using h by (auto simp: seal_acked_def answer_simps)
    show "wp (seqp (machine_transition m Event_SEAL None) (update_batch (\<lambda>b. b\<lparr>batch_seal := Some x\<rparr>)))
        (\<lambda>_. custody (batch_writer b) (batch_end b) B) (\<lambda>_. custody (batch_writer b) (batch_end b) B) v"
      using c by (auto simp: machine_transition_def wp_simps intro: wp_update_seal [OF c s] split: sum.split)
  qed
  then show ?thesis
    unfolding seal_batch_def
    by (intro keeps_lift_bindp keeps_transition_seqp maintains_seqp [OF keeps_checks(2)])
      (auto dest: seal_request_milestone)
qed

lemma keeps_complete_batch [maintains_intros]: "keeps w e B (complete_batch ask b c)"
  unfolding complete_batch_def
  by (cases "batch_seal b"; cases "batch_info b"; simp) (intro maintains_intros; simp add: retire_batch_def)+

section \<open>ADVANCE\<close>

lemma keeps_cursor_decision [maintains_intros]: "keeps w e B (cursor_decision current b g)"
  unfolding cursor_decision_def by (intro maintains_intros)

lemma fresh_advance:
  "batch_transition m Event_FRESH_INFO (Some a) = Inr t \<Longrightarrow> transition_command t = Command_ADVANCE \<Longrightarrow>
   m = Milestone_SEALED \<and> a = CursorAction_REPEAT"
  by (cases a) (auto simp: batch_transition_def cursor_commands_def split: if_splits)

lemma advance_repeat:
  "advance_action current b = Inr CursorAction_REPEAT \<Longrightarrow>
   read_sequence current < batch_end b \<and> batch_end b \<le> write_sequence current"
  by (auto simp: advance_action_def split: if_splits)

text \<open>An ADVANCE command of the machine, with what it says about the batch and the INFO.\<close>

lemma wp_cursor_decision:
  assumes "\<And>x. E x v"
    and "\<And>a c. (c = Command_ADVANCE \<Longrightarrow> g = Event_FRESH_INFO \<Longrightarrow>
            read_sequence current < batch_end b \<and> batch_end b \<le> write_sequence current
          \<and> (\<exists>p. batch_durable b = Some p \<and> prefix_next p = batch_end b)) \<Longrightarrow> Q (a, c) v"
  shows "wp (cursor_decision current b g) Q E v"
proof (cases "advance_action current b")
  case (Inl x)
  then show ?thesis by (simp add: cursor_decision_def wp_simps assms(1))
next
  case a: (Inr a)
  show ?thesis
  proof (cases "batch_milestone (Some b)")
    case (Inl x)
    then show ?thesis by (simp add: cursor_decision_def wp_simps a assms(1))
  next
    case m: (Inr m)
    show ?thesis
    proof (cases "batch_transition m g (Some a)")
      case (Inl x)
      then show ?thesis by (simp add: cursor_decision_def machine_transition_def wp_simps a m assms(1))
    next
      case t: (Inr t)
      have "Q (a, transition_command t) v"
        using t a m by (intro assms(2)) (auto dest!: fresh_advance advance_repeat intro: sealed_batch)
      then show ?thesis by (simp add: cursor_decision_def machine_transition_def wp_simps a m t)
    qed
  qed
qed

lemma advance_call_allowed:
  assumes c: "custody (batch_writer b) (batch_end b) B v" "b \<in> B" and s: "batch_seal b \<noteq> None"
    and d: "read_sequence i < batch_end b \<and> batch_end b \<le> write_sequence i \<and> (\<exists>p. batch_durable b = Some p \<and> prefix_next p = batch_end b)"
  shows "advance_allowed (history v @ [(Call_Info, Info_Answer i), (Call_Activity ''advancing'', a)]) (batch_end b)"
proof -
  obtain p where p: "batch_durable b = Some p" "prefix_next p = batch_end b" using d by blast
  have "prefix_acked (batch_writer b) p (history v)" "seal_acked (batch_writer b) (batch_end b) (history v)"
    using custody_held [OF c] p(1) s unfolding batch_ok_def by simp_all
  then show ?thesis
    unfolding advance_allowed_def using d p
    by (intro exI [of _ "history v"] exI [of _ i] exI [of _ a] exI [of _ "batch_writer b"] exI [of _ p]) simp
qed

lemma keeps_confirm_advance [maintains_intros]: "keeps w e B (confirm_advance ask b)"
  unfolding confirm_advance_def by (intro maintains_intros)

lemma wp_advance_decided:
  assumes c: "custody w e B v" and a: "command = Command_ADVANCE \<Longrightarrow> call_allowed (history v) (Call_Advance (batch_end b))"
  shows "wp (advance_decided ask b current action command) (\<lambda>_. custody w e B) (\<lambda>_. custody w e B) v"
proof (cases "command = Command_ADVANCE")
  case True
  let ?v = "v\<lparr>history := history v @ [(Call_Advance (batch_end b), ask (history v) (Call_Advance (batch_end b)))]\<rparr>"
  have d: "custody w e B ?v" using custody_call [OF c a] True by blast
  have "keeps w e B (if x = Advance_Uncertain \<or> x = Collector_Timeout
      then bindp (lift_result (batch_milestone (Some b))) (\<lambda>m. seqp (machine_transition m Event_ADVANCE_UNCERTAIN None) (raise x))
      else raise x :: unit step)" for x
    by (intro maintains_intros)
  then have h: "wp (if x = Advance_Uncertain \<or> x = Collector_Timeout
      then bindp (lift_result (batch_milestone (Some b))) (\<lambda>m. seqp (machine_transition m Event_ADVANCE_UNCERTAIN None) (raise x))
      else raise x :: unit step) (\<lambda>_. wp (confirm_advance ask b) (\<lambda>_. custody w e B) (\<lambda>_. custody w e B)) (\<lambda>_. custody w e B) ?v" for x
    by (rule wp_mono [OF maintainsD [where I = "custody w e B", OF _ d]]) (simp_all add: maintainsD keeps_confirm_advance)
  have r: "wp (confirm_advance ask b) (\<lambda>_. custody w e B) (\<lambda>_. custody w e B) ?v"
    by (rule maintainsD [OF keeps_confirm_advance d])
  show ?thesis
    unfolding advance_decided_def wp_seqp wp_catchp wp_port using True
    by (cases "as_done (ask (history v) (Call_Advance (batch_end b)))")
      (simp_all only: simp_thms command.distinct if_False wp_seqp wp_assertp wp_catchp wp_port if_True sum.case h r)
next
  case False
  then have "keeps w e B (advance_decided ask b current action command)"
    unfolding advance_decided_def by (simp add: maintains_intros)
  then show ?thesis by (rule maintainsD [where I = "custody w e B", OF _ c])
qed

lemma keeps_advance_batch [maintains_intros]:
  assumes b: "b \<in> B"
  shows "keeps (batch_writer b) (batch_end b) B (advance_batch ask b)"
proof (cases "batch_seal b = None")
  case True
  then have "advance_batch ask b = raise Assertion_Error"
    by (simp add: advance_batch_def assertp_def seqp_def bindp_def raise_def)
  then show ?thesis by (simp add: maintains_raise)
next
  case sealed: False
  let ?C = "custody (batch_writer b) (batch_end b) B"
  have tail: "wp (bindp (cursor_decision i b Event_FRESH_INFO) (\<lambda>(action, command). advance_decided ask b i action command))
      (\<lambda>_. ?C) (\<lambda>_. ?C) (u\<lparr>history := history u @ [(Call_Info, Info_Answer i), (Call_Activity ''advancing'', a)]\<rparr>)"
    if u: "?C u" "?C (u\<lparr>history := history u @ [(Call_Info, Info_Answer i), (Call_Activity ''advancing'', a)]\<rparr>)" for u i a
    unfolding wp_bindp
    using u by (intro wp_cursor_decision) (auto intro!: wp_advance_decided advance_call_allowed [OF u(1) b sealed])
  have "wp (bindp (read_info ask) (\<lambda>current. seqp (report_activity ask ''advancing'')
      (bindp (cursor_decision current b Event_FRESH_INFO) (\<lambda>(action, command). advance_decided ask b current action command))))
      (\<lambda>_. ?C) (\<lambda>_. ?C) u" if u: "?C u" for u
  proof -
    let ?u = "u\<lparr>history := history u @ [(Call_Info, ask (history u) Call_Info)]\<rparr>"
    have u1: "?C ?u" using u by (simp add: custody_call)
    have u2: "?C (?u\<lparr>history := history ?u @ [(Call_Activity ''advancing'', x)]\<rparr>)" for x
      using u1 by (rule custody_call) simp
    show ?thesis
      using u1 u2 tail [OF u]
      by (cases "ask (history u) Call_Info")
        (simp_all add: read_info_def report_activity_def wp_bindp [of "port ask Call_Info as_info"] wp_seqp wp_port split: sum.split)
  qed
  then show ?thesis
    using sealed unfolding advance_batch_def
    by (intro maintains_seqp maintains_assertp keeps_checks) (simp add: maintains_def)
qed

section \<open>Operations\<close>

text \<open>A program that keeps the invariant of the reconciler, whichever writer is active.\<close>

abbreviation safe :: "'r step \<Rightarrow> bool" where
  "safe \<equiv> maintains reconciler_inv"

lemma keeps_safe: "(\<And>w e. keeps w e {} m) \<Longrightarrow> safe m"
  unfolding maintains_def reconciler_inv_def by (blast intro: wp_mono)

text \<open>What a program does with the active batch it has just read.\<close>

lemma wp_active:
  assumes "reconciler_inv v" "active (local_state v) = Some b" "\<And>B. b \<in> B \<Longrightarrow> keeps (batch_writer b) (batch_end b) B m"
  shows "wp m (\<lambda>_. reconciler_inv) (\<lambda>_. reconciler_inv) v"
proof -
  obtain w e where c: "custody w e {} v" using assms(1) by (auto simp: reconciler_inv_def)
  have "custody w e {b} v" using custody_active [OF c assms(2)] .
  moreover have "w = batch_writer b" "e = batch_end b" using custody_held [OF calculation] by simp_all
  ultimately show ?thesis
    using maintainsD [OF assms(3)] by (blast intro: wp_mono custody_inv)
qed

lemma wp_current_batch:
  "wp (bindp current_batch f) Q E v =
     (case active (local_state v) of None \<Rightarrow> E Assertion_Error v | Some b \<Rightarrow> wp (f b) Q E v)"
  by (simp add: current_batch_def wp_simps split: option.split)

lemma safe_current:
  "(\<And>v b. reconciler_inv v \<Longrightarrow> active (local_state v) = Some b \<Longrightarrow>
      wp (f b) (\<lambda>_. reconciler_inv) (\<lambda>_. reconciler_inv) v) \<Longrightarrow> safe (bindp current_batch f)"
  unfolding maintains_def wp_current_batch by (simp split: option.split)

lemma safe_current_batch:
  assumes "\<And>b B. b \<in> B \<Longrightarrow> keeps (batch_writer b) (batch_end b) B (f b)"
  shows "safe (bindp current_batch f)"
  by (rule safe_current, rule wp_active, assumption, assumption, rule assms)


text \<open>Without an active batch the invariant holds for every writer.\<close>

definition idle :: "(port_call, port_answer, reconciler_state) world \<Rightarrow> bool" where
  "idle v \<longleftrightarrow> (\<forall>w e. custody w e {} v)"

lemma idle_inv: "idle v \<Longrightarrow> reconciler_inv v"
  by (auto simp: idle_def intro: custody_inv)

lemma inactive_idle: "reconciler_inv v \<Longrightarrow> active (local_state v) = None \<Longrightarrow> idle v"
  by (auto simp: idle_def reconciler_inv_def custody_def)

lemma keeps_idle: "(\<And>w e. keeps w e {} m) \<Longrightarrow> idle v \<Longrightarrow> wp m (\<lambda>_. idle) (\<lambda>_. idle) v"
  unfolding idle_def maintains_def by (intro wp_all) blast

lemma keeps_admit_batch [maintains_intros]: "keeps w e B (admit_batch ask opts current start fin durable_next)"
  unfolding admit_batch_def by (intro maintains_intros) simp_all

lemma admitted_prefix: "wp (admit_batch ask opts current start fin durable_next) (\<lambda>b u. batch_ok (history u) b) (\<lambda>_ _. True) v"
proof -
  let ?b = "\<lambda>w p. \<lparr>batch_info = Some current, batch_start = start, batch_end = fin, batch_writer = w, batch_durable = Some p, batch_seal = None\<rparr>"
  have failed: "wp (seqp (close_quietly ask w) (if is_writer_failed x then raise_writer_cause ask w x else raise x)) Q (\<lambda>_ _. True) u"
    for w x u and Q :: "durable_prefix \<Rightarrow> (port_call, port_answer, reconciler_state) world \<Rightarrow> bool"
    by (intro wp_seqp_any) (auto simp: raise_writer_cause_def wp_simps split: sum.split option.split)
  have prefix: "wp (bindp (port ask (Call_Initial_Prefix w) as_prefix) (\<lambda>prefix. if c prefix then raise x else ret prefix))
      (\<lambda>p. wp (ret (?b w p)) (\<lambda>b u. batch_ok (history u) b) (\<lambda>_ _. True))
      (\<lambda>e. wp (seqp (close_quietly ask w) (if is_writer_failed e then raise_writer_cause ask w e else raise e))
         (\<lambda>p. wp (ret (?b w p)) (\<lambda>b u. batch_ok (history u) b) (\<lambda>_ _. True)) (\<lambda>_ _. True)) u" for w u c x
  proof (cases "as_prefix (ask (history u) (Call_Initial_Prefix w))")
    case (Inl y)
    then show ?thesis unfolding wp_bindp wp_port by (simp only: sum.case failed)
  next
    case (Inr p)
    then have "c p \<or> wp (ret (?b w p)) (\<lambda>b u. batch_ok (history u) b) (\<lambda>_ _. True)
        (u\<lparr>history := history u @ [(Call_Initial_Prefix w, ask (history u) (Call_Initial_Prefix w))]\<rparr>)"
      by (simp add: wp_ret batch_ok_def prefix_acked_def answer_simps)
    then show ?thesis
      unfolding wp_bindp wp_port Inr sum.case wp_if wp_raise by (cases "c p") (simp_all only: wp_ret failed simp_thms if_True if_False)
  qed
  show ?thesis
  proof (cases "fin - arena_start_of current fin durable_next < 0")
    case True
    then show ?thesis by (simp add: admit_batch_def wp_raise)
  next
    case False
    show ?thesis
      unfolding admit_batch_def Let_def if_not_P [OF False]
      by (rule wp_seqp_any, rule TrueI, rule wp_seqp_any, rule TrueI, rule wp_bindp_any, rule TrueI,
          rule wp_seqp_any, rule TrueI, rule wp_seqp_any, rule TrueI, unfold wp_bindp [of "catchp _ _"] wp_catchp,
          rule wp_seqp_any, rule failed, rule wp_seqp_any, rule failed, rule prefix)
  qed
qed

lemma adopt_admitted:
  assumes "idle u" "batch_ok (history u) b" "active (f (local_state u)) = Some b"
  shows "reconciler_inv (u\<lparr>local_state := f (local_state u)\<rparr>)"
proof -
  have "custody (batch_writer b) (batch_end b) {} (u\<lparr>local_state := f (local_state u)\<rparr>)"
    using assms by (auto simp: idle_def custody_def)
  then show ?thesis by (rule custody_inv)
qed

lemma idle_bindp:
  "(\<And>w e. keeps w e {} m) \<Longrightarrow> (\<And>x v. idle v \<Longrightarrow> wp (f x) (\<lambda>_. reconciler_inv) (\<lambda>_. reconciler_inv) v) \<Longrightarrow>
   idle v \<Longrightarrow> wp (bindp m f) (\<lambda>_. reconciler_inv) (\<lambda>_. reconciler_inv) v"
  unfolding wp_bindp by (rule wp_mono [OF keeps_idle]) (auto intro: idle_inv)

lemma idle_keeps: "(\<And>w e. keeps w e {} m) \<Longrightarrow> idle v \<Longrightarrow> wp m (\<lambda>_. reconciler_inv) (\<lambda>_. reconciler_inv) v"
  by (rule wp_mono [OF keeps_idle]) (auto intro: idle_inv)

lemma idle_admit:
  assumes "idle v"
  shows "wp (bindp (admit_batch ask opts current start fin d) (\<lambda>b.
      seqp (update_state (\<lambda>s. s\<lparr>active := Some b, pending_descriptor := p\<rparr>)) (ret (Some b))))
      (\<lambda>_. reconciler_inv) (\<lambda>_. reconciler_inv) v"
  unfolding wp_bindp
  by (rule wp_mono [OF wp_conj [OF keeps_idle [OF keeps_admit_batch assms] admitted_prefix]])
    (auto simp: wp_simps intro: idle_inv adopt_admitted)

lemma keeps_pending [maintains_intros]:
  "keeps w e B (case p of
       None \<Rightarrow> ret None
     | Some p \<Rightarrow>
         if pending_incompatible current p d
         then seqp (port ask (Call_Quarantine (descriptor_attempt p)) as_done)
             (seqp (update_state (\<lambda>s. s\<lparr>pending_durable_next := None, pending_descriptor := None\<rparr>)) (ret None))
         else ret (Some p))"
  by (intro maintains_intros) simp_all

lemma safe_get_active:
  assumes "\<And>s v. active s = None \<Longrightarrow> idle v \<Longrightarrow> wp (f s) (\<lambda>_. reconciler_inv) (\<lambda>_. reconciler_inv) v"
    and "\<And>s b B. active s = Some b \<Longrightarrow> b \<in> B \<Longrightarrow> keeps (batch_writer b) (batch_end b) B (f s)"
  shows "safe (bindp get_state f)"
  unfolding maintains_def wp_bindp wp_get_state
  using assms inactive_idle by (metis not_None_eq wp_active)

lemma safe_ensure_batch: "safe (ensure_batch ask opts current)"
  unfolding ensure_batch_def
proof (rule safe_get_active, goal_cases)
  case (1 s v)
  have "wp (if unread_packets current = 0 \<and> pending = None
       then seqp (whenp (last_result t = None) (update_state (\<lambda>s. s\<lparr>last_result := Some (No_Data_Result current)\<rparr>))) (ret None)
       else
         bindp (lift_result (batch_bounds opts current pending (pending_durable_next t))) (\<lambda>(start, fin).
         bindp (admit_batch ask opts current start fin (pending_durable_next t)) (\<lambda>b.
         seqp (update_state (\<lambda>s. s\<lparr>active := Some b, pending_descriptor := pending\<rparr>)) (ret (Some b)))))
     (\<lambda>_. reconciler_inv) (\<lambda>_. reconciler_inv) u" if u: "idle u" for pending t u
  proof (cases "unread_packets current = 0 \<and> pending = None")
    case True
    then show ?thesis using u unfolding if_P [OF True] by (intro idle_keeps maintains_intros) simp_all
  next
    case False
    show ?thesis
      unfolding if_not_P [OF False] using u
      by (intro idle_bindp maintains_lift) (auto intro: idle_admit)
  qed
  then show ?case
    using 1 unfolding 1 option.case seqp_def [of "check_stop_intent ask"]
    by (intro idle_bindp keeps_checks keeps_pending maintains_get_state)
next
  case (2 s b B)
  then show ?case by (simp add: maintains_ret)
qed

lemma keeps_read_and_seal_tail [maintains_intros]:
  assumes "b \<in> B"
  shows "keeps (batch_writer b) (batch_end b) B
    (case outcome of
       Prefix_Published published \<Rightarrow> seqp (continue_after_prefix ask b published) (ret None)
     | Reconcile_Restart \<Rightarrow> seqp (update_state retire_batch) (ret None)
     | Reconciled \<Rightarrow>
         (case batch_durable b of
            None \<Rightarrow> raise (Cursor_Consistency ''writer checkpoint did not return a durable prefix'')
          | Some prefix \<Rightarrow>
              if prefix_next prefix \<noteq> batch_end b then raise (Cursor_Consistency ''READ did not produce the bounded batch prefix'')
              else
                seqp (if has_public_drain opts
                      then bindp (port ask (Call_Attempt_Id (batch_writer b)) as_text) (\<lambda>attempt.
                        port ask (Call_Arm_Pending attempt (batch_end b)) as_done)
                      else ret ())
               (seqp (seal_batch ask b) (ret (Some (read_sequence current = batch_end b))))))"
  using assms by (cases outcome) (auto intro!: maintains_intros)

text \<open>\<open>read_and_seal\<close> reads the active batch again after the READ.\<close>

lemma wp_read_and_seal:
  assumes v: "reconciler_inv v" "active (local_state v) = Some b"
  shows "wp (read_and_seal ask opts current b) (\<lambda>_. reconciler_inv) (\<lambda>_. reconciler_inv) v"
  unfolding read_and_seal_def wp_bindp [of "read_or_reconcile _ _ _ _"]
  by (rule wp_mono [OF wp_active [OF v keeps_read_or_reconcile]])
    (auto intro!: maintainsD [OF safe_current_batch] keeps_read_and_seal_tail)

lemma safe_after_seal: "safe (after_seal ask opts current)"
  unfolding after_seal_def by (intro safe_current_batch) (auto intro!: maintains_intros)


lemma keeps_update_info [maintains_intros]: "keeps w e B (update_batch (\<lambda>b. b\<lparr>batch_info := Some i\<rparr>))"
  unfolding maintains_def update_batch_def wp_update_state
  by (auto simp: batch_ok_def intro!: custody_update_batch)

lemma safe_checks: "safe (check_stop_intent ask)" "safe (read_info ask)" "safe (set_phase y)"
  by (auto intro: keeps_safe keeps_checks)

lemma safe_connected_body:
  assumes rest: "\<And>fresh. safe (run_connected_step ask opts n fresh)"
  shows "safe (bindp current_batch (\<lambda>b.
     if batch_seal b = None
     then bindp (read_and_seal ask opts current b) (\<lambda>reconciled.
       if reconciled = None
       then seqp (set_phase ''info'') (seqp (check_stop_intent ask)
         (bindp (read_info ask) (\<lambda>fresh. run_connected_step ask opts n fresh)))
       else after_seal ask opts current)
     else after_seal ask opts current))"
proof -
  let ?I = "\<lambda>_. reconciler_inv"
  have again: "safe (if reconciled = None
       then seqp (set_phase ''info'') (seqp (check_stop_intent ask)
         (bindp (read_info ask) (\<lambda>fresh. run_connected_step ask opts n fresh)))
       else after_seal ask opts current)" for reconciled :: "bool option"
    by (cases "reconciled = None") (simp_all add: safe_after_seal maintains_seqp maintains_bindp rest safe_checks)
  have "wp (if batch_seal b = None
     then bindp (read_and_seal ask opts current b) (\<lambda>reconciled.
       if reconciled = None
       then seqp (set_phase ''info'') (seqp (check_stop_intent ask)
         (bindp (read_info ask) (\<lambda>fresh. run_connected_step ask opts n fresh)))
       else after_seal ask opts current)
     else after_seal ask opts current) ?I ?I v" if v: "reconciler_inv v" "active (local_state v) = Some b" for v b
    unfolding if_split [of "\<lambda>m. wp m ?I ?I v"] wp_bindp [of "read_and_seal _ _ _ _"]
    by (intro conjI impI maintainsD [OF safe_after_seal] v wp_mono [OF wp_read_and_seal [OF v] maintainsD [OF again]])
  then show ?thesis
    by (rule safe_current)
qed

lemma safe_run_connected_step: "safe (run_connected_step ask opts n current)"
proof (induction n arbitrary: current)
  case 0
  show ?case by (auto intro!: keeps_safe maintains_intros)
next
  case (Suc n)
  show ?case
    unfolding run_connected_step.simps
    by (intro maintains_seqp maintains_bindp maintains_option safe_ensure_batch safe_connected_body Suc)
      (auto intro!: keeps_safe maintains_intros)
qed

lemma safe_connected_step: "safe (connected_step ask opts n current)"
  unfolding connected_step_def
  by (intro maintains_bindp safe_run_connected_step) (auto intro!: keeps_safe maintains_intros)

lemma safe_checkpoint_after_session: "safe (checkpoint_after_session ask)"
  unfolding checkpoint_after_session_def
  by (rule safe_get_active) (auto intro!: idle_keeps maintains_intros)

lemma safe_close_visit: "safe (reconciler_close_visit ask reason drain verified)"
  unfolding reconciler_close_visit_def
  by (intro maintains_seqp safe_get_active keeps_safe) (auto intro!: idle_keeps maintains_intros)

lemma keeps_teardown_error [maintains_intros]: "keeps w e B (teardown_error ask operation x)"
  unfolding teardown_error_def by (intro maintains_intros) simp

lemma keeps_close_finalizing [maintains_intros]: "keeps w e B (close_finalizing_batch ask n)"
  unfolding close_finalizing_batch_def by (intro maintains_intros) simp_all

lemma keeps_final_checkpoint [maintains_intros]: "keeps w e B (final_checkpoint ask w)"
  unfolding final_checkpoint_def by (intro maintains_intros) simp_all

lemma keeps_adopt_after_close [maintains_intros]: "keeps w e B (adopt_seal_after_close ask w x)"
  unfolding adopt_seal_after_close_def by (intro maintains_intros) simp_all

lemma keeps_current_batch:
  assumes "\<And>b. batch_writer b = w \<Longrightarrow> keeps w e B (f b)"
  shows "keeps w e B (bindp current_batch f)"
  unfolding maintains_def
proof (intro allI impI)
  fix v assume c: "custody w e B v"
  have "wp (f b) (\<lambda>_. custody w e B) (\<lambda>_. custody w e B) v" if "active (local_state v) = Some b" for b
    using c that by (intro maintainsD [OF assms c]) (simp add: custody_def)
  then show "wp (bindp current_batch f) (\<lambda>_. custody w e B) (\<lambda>_. custody w e B) v"
    using c by (simp add: wp_current_batch split: option.split)
qed

lemma keeps_finalize_batch [maintains_intros]: "batch_writer b = w \<Longrightarrow> keeps w e B (finalize_batch ask b)"
  unfolding finalize_batch_def
  by (rule maintains_bindp, (intro maintains_intros; simp add: keeps_final_checkpoint), rule maintains_bindp, rule keeps_close_finalizing, rule maintains_pair,
      rule maintains_bindp, rule maintains_lift, rule keeps_current_batch) (intro maintains_intros; simp add: keeps_adopt_after_close)

lemma safe_finalize_active: "safe (finalize_active ask)"
  unfolding finalize_active_def
proof (rule safe_get_active, goal_cases)
  case (1 s v)
  then show ?case by (auto intro!: idle_keeps maintains_intros)
next
  case (2 s b B)
  show ?case
    unfolding 2 option.case
    by (rule maintains_bindp, rule custody_keeps_port, simp, rule maintains_bindp, rule maintains_finallyp, rule keeps_finalize_batch, rule refl,
        (intro maintains_intros; simp), rule maintains_pair, rule keeps_current_batch) (intro maintains_intros)
qed

lemma safe_set_startup_state: "safe (set_startup_state pending d)"
  unfolding set_startup_state_def
  by (intro keeps_safe custody_keeps_update) (auto simp: Let_def split: option.split prod.split)

text \<open>The operations of a \<open>BatchReconciler\<close>.\<close>

datatype reconciler_op =
    Op_Startup "attempt_descriptor option" "int option"
  | Op_Connected "ring_info option"
  | Op_Checkpoint
  | Op_Close_Visit string "int option" bool
  | Op_Finalize

fun reconciler_run :: "ports \<Rightarrow> sync_options \<Rightarrow> nat \<Rightarrow> reconciler_op \<Rightarrow> unit step" where
  "reconciler_run ask opts fuel (Op_Startup pending d) = set_startup_state pending d"
| "reconciler_run ask opts fuel (Op_Connected current) = bindp (connected_step ask opts fuel current) (\<lambda>_. ret ())"
| "reconciler_run ask opts fuel Op_Checkpoint = checkpoint_after_session ask"
| "reconciler_run ask opts fuel (Op_Close_Visit reason drain verified) = reconciler_close_visit ask reason drain verified"
| "reconciler_run ask opts fuel Op_Finalize = bindp (finalize_active ask) (\<lambda>_. ret ())"

lemma safe_reconciler_run: "safe (reconciler_run ask opts fuel x)"
  by (cases x) (simp_all add: safe_set_startup_state safe_connected_step safe_checkpoint_after_session safe_close_visit
      safe_finalize_active maintains_bindp keeps_safe [OF maintains_ret])

interpretation reconciler: driver "reconciler_run ask opts fuel" reconciler_inv for ask opts fuel
  by unfold_locales (rule safe_reconciler_run)

definition initial_reconciler :: "(port_call, port_answer, reconciler_state) world" where
  "initial_reconciler = \<lparr>local_state = \<lparr>active = None, last_result = None, completed_batches = 0, pending_descriptor = None,
     pending_durable_next = None, visit_frontier = None, session_phase = ''connect'', writers_made = 0\<rparr>, history = []\<rparr>"

lemma initial_reconciler_inv: "reconciler_inv initial_reconciler"
  by (simp add: initial_reconciler_def reconciler_inv_def custody_def)

section \<open>A cooperative visit\<close>

text \<open>
  Ports that answer: the writer starts at the device cursor and its checkpoint reaches the end of the batch, the
  device shows \<open>shown\<close> until ADVANCE is acknowledged and \<open>moved\<close> afterwards.
\<close>

fun cooperative :: "int \<Rightarrow> int \<Rightarrow> ring_info \<Rightarrow> ring_info \<Rightarrow> seal \<Rightarrow> ports" where
  "cooperative start fin shown moved s h Call_Info =
     Info_Answer (if (Call_Advance fin, Done) \<in> set h then moved else shown)"
| "cooperative start fin shown moved s h (Call_Initial_Prefix w) = Prefix_Answer \<lparr>prefix_next = start, prefix_records = 0\<rparr>"
| "cooperative start fin shown moved s h (Call_Checkpoint w) =
     Prefix_Answer \<lparr>prefix_next = fin, prefix_records = fin - start\<rparr>"
| "cooperative start fin shown moved s h (Call_Attempt_Id w) = Text_Answer ''attempt''"
| "cooperative start fin shown moved s h (Call_Seal w n) = Seal_Answer s"
| "cooperative start fin shown moved s h _ = Done"

lemmas prog_simps = ret_def raise_def lift_result_def bindp_def seqp_def get_state_def update_state_def call_def catchp_def
  whenp_def assertp_def port_def Let_def

definition new_batch :: "ring_info \<Rightarrow> int \<Rightarrow> nat \<Rightarrow> active_batch" where
  "new_batch current fin w = \<lparr>batch_info = Some current, batch_start = read_sequence current, batch_end = fin, batch_writer = w,
     batch_durable = Some \<lparr>prefix_next = read_sequence current, prefix_records = 0\<rparr>, batch_seal = None\<rparr>"

definition admission_calls :: "ring_info \<Rightarrow> int \<Rightarrow> nat \<Rightarrow> port_history" where
  "admission_calls current fin w =
     [(Call_Stop, Done), (Call_Stop, Done), (Call_Make_Writer w (read_sequence current) (fin - read_sequence current) (read_sequence current), Done),
      (Call_Stop, Done), (Call_Start w, Done),
      (Call_Initial_Prefix w, Prefix_Answer \<lparr>prefix_next = read_sequence current, prefix_records = 0\<rparr>)]"

lemma ensure_new_batch:
  assumes "active st = None" "pending_descriptor st = None" "pending_durable_next st = None"
    and "read_sequence current < write_sequence current" "0 \<le> batch_records opts"
    and fin: "min (write_sequence current) (read_sequence current + batch_records opts) = fin"
    and room: "new_arena (read_sequence current) (fin - read_sequence current) (arena_max_bytes opts) RECORD_SIZE = Inr arena"
  shows "ensure_batch (cooperative (read_sequence current) fin shown moved s) opts current \<lparr>local_state = st, history = h\<rparr> =
    (Inr (Some (new_batch current fin (writers_made st))),
     \<lparr>local_state = st\<lparr>active := Some (new_batch current fin (writers_made st)), writers_made := Suc (writers_made st)\<rparr>,
      history = h @ admission_calls current fin (writers_made st)\<rparr>)"
proof -
  have le: "\<not> fin < read_sequence current" using assms(4,5) fin by linarith
  have st: "st\<lparr>pending_descriptor := None\<rparr> = st" if "pending_descriptor st = None" for st :: reconciler_state
    using that by (cases st) simp
  show ?thesis
    using assms le
    by (simp add: ensure_batch_def admit_batch_def arena_start_of_def batch_bounds_def check_stop_intent_def
        unread_packets_def new_batch_def admission_calls_def prog_simps st)
qed

definition sealed_new_batch :: "ring_info \<Rightarrow> int \<Rightarrow> nat \<Rightarrow> seal \<Rightarrow> active_batch" where
  "sealed_new_batch current fin w s = (new_batch current fin w)\<lparr>
     batch_durable := Some \<lparr>prefix_next = fin, prefix_records = fin - read_sequence current\<rparr>, batch_seal := Some s\<rparr>"

definition read_calls :: "sync_options \<Rightarrow> ring_info \<Rightarrow> int \<Rightarrow> nat \<Rightarrow> seal \<Rightarrow> port_history" where
  "read_calls opts current fin w s =
     [(Call_Activity ''reading'', Done), (Call_Capture_Space (fin - read_sequence current), Done),
      (Call_Read w (read_sequence current) (fin - read_sequence current), Done),
      (Call_Checkpoint w, Prefix_Answer \<lparr>prefix_next = fin, prefix_records = fin - read_sequence current\<rparr>)]
   @ (if has_public_drain opts then [(Call_Attempt_Id w, Text_Answer ''attempt''), (Call_Arm_Pending ''attempt'' fin, Done)] else [])
   @ [(Call_Activity ''sealing'', Done), (Call_Seal w fin, Seal_Answer s)]"

lemma seal_full_batch:
  assumes "batch_durable b = Some p" "prefix_next p = batch_end b" "batch_seal b = None" "batch_start b \<le> batch_end b" "active st = Some b"
    and "\<And>h x. ask h (Call_Activity x) = Done" "\<And>h w n. ask h (Call_Seal w n) = Seal_Answer s"
  shows "seal_batch ask b \<lparr>local_state = st, history = h\<rparr> =
    (Inr (), \<lparr>local_state = st\<lparr>active := Some (b\<lparr>batch_seal := Some s\<rparr>)\<rparr>,
       history = h @ [(Call_Activity ''sealing'', Done), (Call_Seal (batch_writer b) (batch_end b), Seal_Answer s)]\<rparr>)"
  using assms
  by (simp add: seal_batch_def batch_milestone_def derive_milestone_def machine_transition_def batch_transition_def batch_transitions_def
      report_activity_def update_batch_def prog_simps)

lemma read_new_batch:
  assumes "active st = Some (new_batch current fin w)" "read_sequence current < fin" "fin \<le> write_sequence current"
  shows "read_and_seal (cooperative (read_sequence current) fin shown moved s) opts current (new_batch current fin w)
      \<lparr>local_state = st, history = h\<rparr> =
    (Inr (Some False), \<lparr>local_state = st\<lparr>active := Some (sealed_new_batch current fin w s)\<rparr>, history = h @ read_calls opts current fin w s\<rparr>)"
proof -
  let ?ask = "cooperative (read_sequence current) fin shown moved s"
  let ?p = "\<lparr>prefix_next = fin, prefix_records = fin - read_sequence current\<rparr>"
  let ?b = "(new_batch current fin w)\<lparr>batch_durable := Some ?p\<rparr>"
  let ?h = "h @ take 4 (read_calls opts current fin w s)"
  have "read_or_reconcile ?ask opts current (new_batch current fin w) \<lparr>local_state = st, history = h\<rparr> =
      (Inr Reconciled, \<lparr>local_state = st\<lparr>active := Some ?b\<rparr>, history = ?h\<rparr>)"
    using assms
    by (simp add: read_or_reconcile_def new_batch_def read_leg_with_progress_def checkpoint_batch_def report_activity_def
        update_batch_def prog_simps read_calls_def)
  moreover have "seal_batch ?ask ?b \<lparr>local_state = st\<lparr>active := Some ?b\<rparr>, history = g\<rparr> =
      (Inr (), \<lparr>local_state = st\<lparr>active := Some (?b\<lparr>batch_seal := Some s\<rparr>)\<rparr>,
        history = g @ [(Call_Activity ''sealing'', Done), (Call_Seal w fin, Seal_Answer s)]\<rparr>)" for g
    using assms seal_full_batch [of ?b ?p "st\<lparr>active := Some ?b\<rparr>" ?ask s g] by (simp add: new_batch_def)
  ultimately show ?thesis
    using assms
    by (simp add: read_and_seal_def current_batch_def prog_simps sealed_new_batch_def new_batch_def read_calls_def)
qed

definition advance_calls :: "int \<Rightarrow> nat \<Rightarrow> ring_info \<Rightarrow> ring_info \<Rightarrow> port_history" where
  "advance_calls fin w shown moved =
     [(Call_Stop, Done), (Call_Info, Info_Answer shown), (Call_Activity ''advancing'', Done), (Call_Advance fin, Done),
      (Call_Stop, Done), (Call_Info, Info_Answer moved), (Call_Close w, Done)]"

definition completed_state :: "ring_info \<Rightarrow> int \<Rightarrow> seal \<Rightarrow> reconciler_state \<Rightarrow> reconciler_state" where
  "completed_state current fin s st = (retire_batch st)\<lparr>
     last_result := Some (Collection_Result current (fin - read_sequence current) s fin True),
     visit_frontier := Some (frontier_max (visit_frontier st) fin),
     completed_batches := Suc (completed_batches st)\<rparr>"

lemma complete_sealed_batch:
  assumes "read_sequence current < fin" "\<And>h w. ask h (Call_Close w) = Done"
  shows "complete_batch ask (sealed_new_batch current fin w s) True \<lparr>local_state = st, history = h\<rparr> =
    (Inr (), \<lparr>local_state = completed_state current fin s st, history = h @ [(Call_Close w, Done)]\<rparr>)"
  using assms
  by (simp add: complete_batch_def sealed_new_batch_def new_batch_def batch_milestone_def derive_milestone_def machine_transition_def
      batch_transition_def batch_transitions_def completed_state_def retire_batch_def batch_count_def prog_simps)

lemma cursor_decision_of:
  assumes "advance_action i (sealed_new_batch current fin w s) = Inr a" "read_sequence current \<le> fin"
    and "g \<in> {Event_FRESH_INFO, Event_ADVANCE_ACK_INFO}" "cursor_commands g a = Some c"
  shows "cursor_decision i (sealed_new_batch current fin w s) g v = (Inr (a, c), v)"
  using assms
  by (auto simp: cursor_decision_def sealed_new_batch_def new_batch_def batch_milestone_def derive_milestone_def
      machine_transition_def batch_transition_def prog_simps)


lemma advance_new_batch:
  assumes ask: "ask = cooperative start fin shown moved s"
    and h: "(Call_Advance fin, Done) \<notin> set h"
    and shown: "read_sequence current \<le> read_sequence shown" "read_sequence shown < fin" "fin \<le> write_sequence shown"
    and moved: "read_sequence moved = fin" "fin \<le> write_sequence moved"
  shows "advance_batch ask (sealed_new_batch current fin w s) \<lparr>local_state = st, history = h\<rparr> =
    (Inr (None, Some moved), \<lparr>local_state = completed_state current fin s st, history = h @ advance_calls fin w shown moved\<rparr>)"
proof -
  let ?b = "sealed_new_batch current fin w s"
  have a: "advance_action shown ?b = Inr CursorAction_REPEAT" "advance_action moved ?b = Inr CursorAction_CONFIRMED"
    using shown moved by (auto simp: advance_action_def sealed_new_batch_def new_batch_def)
  have d: "cursor_decision shown ?b Event_FRESH_INFO v = (Inr (CursorAction_REPEAT, Command_ADVANCE), v)"
    "cursor_decision moved ?b Event_ADVANCE_ACK_INFO v = (Inr (CursorAction_CONFIRMED, Command_CLOSE), v)" for v
    using shown cursor_decision_of [OF a(1)] cursor_decision_of [OF a(2)] by (simp_all add: cursor_commands_def)
  have c: "complete_batch ask ?b True \<lparr>local_state = st, history = g\<rparr> =
    (Inr (), \<lparr>local_state = completed_state current fin s st, history = g @ [(Call_Close w, Done)]\<rparr>)" for g
    by (rule complete_sealed_batch) (use shown in \<open>simp_all add: ask\<close>)
  have "confirm_advance ask ?b \<lparr>local_state = st, history = h @ take 4 (advance_calls fin w shown moved)\<rparr> =
    (Inr (None, Some moved), \<lparr>local_state = completed_state current fin s st, history = h @ advance_calls fin w shown moved\<rparr>)"
    using c by (simp add: confirm_advance_def check_stop_intent_def read_info_def prog_simps advance_calls_def d ask)
  moreover have "batch_seal ?b = Some s" "batch_end ?b = fin" by (simp_all add: sealed_new_batch_def new_batch_def)
  ultimately show ?thesis
    using h by (simp add: advance_batch_def advance_decided_def check_stop_intent_def read_info_def report_activity_def
        prog_simps advance_calls_def d ask)
qed

section \<open>A pending attempt\<close>

text \<open>Only calls that quarantine nothing since \<open>h\<close>, and still the pending attempt \<open>p\<close>.\<close>

definition pending_kept :: "port_history \<Rightarrow> attempt_descriptor option \<Rightarrow> (port_call, port_answer, reconciler_state) world \<Rightarrow> bool" where
  "pending_kept h p v \<longleftrightarrow> pending_descriptor (local_state v) = p
     \<and> (\<exists>rest. history v = h @ rest \<and> (\<forall>a x. (Call_Quarantine a, x) \<notin> set rest))"

lemma pending_kept_port:
  assumes "\<And>a. c \<noteq> Call_Quarantine a"
  shows "maintains (pending_kept h p) (port ask c f)"
proof (rule maintains_port)
  fix v :: "(port_call, port_answer, reconciler_state) world" and a
  assume "pending_kept h p v"
  then obtain rest where "pending_descriptor (local_state v) = p" "history v = h @ rest" "\<forall>a x. (Call_Quarantine a, x) \<notin> set rest"
    by (auto simp: pending_kept_def)
  then show "pending_kept h p (v\<lparr>history := history v @ [(c, a)]\<rparr>)"
    using assms by (auto simp: pending_kept_def intro!: exI [of _ "rest @ [(c, a)]"])
qed

lemma pending_kept_update: "(\<And>s. pending_descriptor (f s) = pending_descriptor s) \<Longrightarrow> maintains (pending_kept h p) (update_state f)"
  by (rule maintains_update_state) (simp add: pending_kept_def)

lemma pending_kept_admit: "maintains (pending_kept h p) (admit_batch ask opts current start fin d)"
  unfolding admit_batch_def check_stop_intent_def close_quietly_def raise_writer_cause_def
  by (intro maintains_intros pending_kept_port pending_kept_update) simp_all

lemma admitted_range:
  "wp (admit_batch ask opts current start fin d) (\<lambda>b _. batch_start b = start \<and> batch_end b = fin) (\<lambda>_ _. True) v"
proof -
  have last: "wp (bindp m (\<lambda>x. ret (g x))) Q (\<lambda>_ _. True) u" if "\<And>x u. Q (g x) u"
    for m :: "'x step" and g :: "'x \<Rightarrow> active_batch" and Q u
    using that by (intro wp_bindp_any) (simp_all add: wp_ret)
  show ?thesis
    unfolding admit_batch_def Let_def wp_if wp_raise
    by (auto intro!: wp_seqp_any wp_bindp_any last simp: wp_ret)
qed

lemma admit_tail:
  assumes "pending_kept h p u"
  shows "wp (bindp (admit_batch ask opts current start fin d) (\<lambda>b.
      seqp (update_state (\<lambda>s. s\<lparr>active := Some b, pending_descriptor := p\<rparr>)) (ret (Some b))))
      (\<lambda>r v. (\<exists>b. r = Some b \<and> batch_start b = start \<and> batch_end b = fin) \<and> pending_kept h p v) (\<lambda>_. pending_kept h p) u"
  unfolding wp_bindp
  by (rule wp_mono [OF wp_conj [OF maintainsD [OF pending_kept_admit assms] admitted_range]])
    (auto simp: wp_simps pending_kept_def)

lemma admit_tail_start:
  "pending_kept h p u \<Longrightarrow> wp (bindp (admit_batch ask opts current start fin d) (\<lambda>b.
      seqp (update_state (\<lambda>s. s\<lparr>active := Some b, pending_descriptor := p\<rparr>)) (ret (Some b))))
      (\<lambda>r v. (\<forall>b. r = Some b \<longrightarrow> batch_start b = start) \<and> pending_kept h p v) (\<lambda>_. pending_kept h p) u"
  by (rule wp_mono [OF admit_tail]) auto

text \<open>The compatibility test and the errors of the bounds agree.\<close>

lemma unusable_bounds: "pending_incompatible current p d \<longleftrightarrow> (\<exists>e. batch_bounds opts current (Some p) d = Inl e)"
  by (auto simp: pending_incompatible_def batch_bounds_def Let_def)

section \<open>Properties\<close>

text \<open>
  C1: for every behaviour of the device, the writer, the store and the observers, and every sequence of operations of
  the reconciler from its initial state, each READ starts at a prefix that the writer reported, each seal is asked for at
  a prefix that the writer reported, and each ADVANCE follows an INFO that shows the cursor below the target and the
  target within the ring, with a durable prefix that ends at the target and a seal acknowledged before that INFO.
\<close>

theorem every_call_is_licensed:
  "guarded call_allowed (history (run_ops (reconciler_run ask opts fuel) initial_reconciler ops))"
proof -
  have "reconciler_inv (run_ops (reconciler_run ask opts fuel) initial_reconciler ops)"
    by (rule reconciler.run_ops_inv [OF initial_reconciler_inv])
  then show ?thesis by (auto simp: reconciler_inv_def custody_def)
qed

text \<open>
  C10: with ports that answer, a connected step on a ring with unread records admits a batch, reads it, checkpoints it,
  seals it, advances the device and confirms the new cursor: it returns, the batch is retired and counted, the result
  carries the confirmed advance, and the calls are exactly these in this order.
\<close>

theorem cooperative_step_completes:
  assumes st: "active st = None" "pending_descriptor st = None" "pending_durable_next st = None"
    and opts: "advance_enabled opts" "0 < batch_records opts"
    and current: "read_sequence current < write_sequence current"
      "fin = min (write_sequence current) (read_sequence current + batch_records opts)"
      "\<exists>arena. new_arena (read_sequence current) (fin - read_sequence current) (arena_max_bytes opts) RECORD_SIZE = Inr arena"
    and shown: "read_sequence current \<le> read_sequence shown" "read_sequence shown < fin" "fin \<le> write_sequence shown"
    and moved: "read_sequence moved = fin" "fin \<le> write_sequence moved"
    and h: "(Call_Advance fin, Done) \<notin> set h"
  shows "connected_step (cooperative (read_sequence current) fin shown moved s) opts (Suc n) (Some current) \<lparr>local_state = st, history = h\<rparr> =
    (Inr (None, Some moved),
     \<lparr>local_state = completed_state current fin s (st\<lparr>session_phase := ''advance'', writers_made := Suc (writers_made st)\<rparr>),
      history = h @ admission_calls current fin (writers_made st) @ read_calls opts current fin (writers_made st) s
        @ advance_calls fin (writers_made st) shown moved\<rparr>)"
proof -
  let ?ask = "cooperative (read_sequence current) fin shown moved s" and ?w = "writers_made st"
  let ?st = "st\<lparr>session_phase := ''read/reconcile''\<rparr>"
  let ?h1 = "h @ admission_calls current fin ?w" and ?b = "new_batch current fin ?w"
  let ?h2 = "?h1 @ read_calls opts current fin ?w s" and ?c = "sealed_new_batch current fin ?w s"
  let ?st1 = "?st\<lparr>active := Some ?b, writers_made := Suc ?w\<rparr>"
  have e: "ensure_batch ?ask opts current \<lparr>local_state = ?st, history = h\<rparr> =
      (Inr (Some ?b), \<lparr>local_state = ?st1, history = ?h1\<rparr>)"
    using ensure_new_batch [of ?st current opts fin _ shown moved s h] st opts current by auto
  have r: "read_and_seal ?ask opts current ?b \<lparr>local_state = ?st1, history = ?h1\<rparr> =
      (Inr (Some False), \<lparr>local_state = ?st1\<lparr>active := Some ?c\<rparr>, history = ?h2\<rparr>)"
    using current opts by (intro read_new_batch) auto
  have "(Call_Advance fin, Done) \<notin> set ?h2" using h by (simp add: admission_calls_def read_calls_def)
  then have a: "advance_batch ?ask ?c \<lparr>local_state = t, history = ?h2\<rparr> =
      (Inr (None, Some moved), \<lparr>local_state = completed_state current fin s t, history = ?h2 @ advance_calls fin ?w shown moved\<rparr>)" for t
    using shown moved by (intro advance_new_batch [OF refl])
  have b: "batch_info ?b = Some current" "batch_seal ?b = None" by (simp_all add: new_batch_def)
  show ?thesis
    using opts
    by (simp add: connected_step_def set_phase_def after_seal_def current_batch_def prog_simps e r a [simplified] b)
      (simp add: completed_state_def retire_batch_def)
qed

definition idle_state :: reconciler_state where
  "idle_state = local_state initial_reconciler"

definition ring_at :: "int \<Rightarrow> int \<Rightarrow> ring_info" where
  "ring_at r w = \<lparr>read_sequence = r, write_sequence = w, capacity_packets = 100, dropped_packets = 0, packet_size = 444\<rparr>"

theorem cooperative_step_completes_witness:
  "let opts = \<lparr>batch_records = 2, arena_max_bytes = 2000, advance_enabled = True, has_public_drain = True\<rparr>;
     (result, w) = connected_step (cooperative 10 12 (ring_at 10 13) (ring_at 12 13) Durable_Seal) opts 1 (Some (ring_at 10 13))
       \<lparr>local_state = idle_state, history = []\<rparr>
   in result = Inr (None, Some (ring_at 12 13)) \<and> completed_batches (local_state w) = 1 \<and> active (local_state w) = None
     \<and> (Call_Advance 12, Done) \<in> set (history w)"
proof -
  have "\<exists>arena. new_arena 10 2 2000 RECORD_SIZE = Inr arena"
    by (simp add: new_arena_def new_snapshot_def require_arena_uint_def RECORD_SIZE_def total_bytes_def)
  then show ?thesis
    using cooperative_step_completes [of idle_state
        "\<lparr>batch_records = 2, arena_max_bytes = 2000, advance_enabled = True, has_public_drain = True\<rparr>" "ring_at 10 13" 12
        "ring_at 10 13" "ring_at 12 13" "[]" Durable_Seal 0]
    by (simp add: idle_state_def initial_reconciler_def ring_at_def completed_state_def retire_batch_def advance_calls_def)
qed

text \<open>
  C34: when no batch is active, an attempt is pending and no stop is intended, then \<open>_ensure_batch\<close> quarantines the
  attempt exactly when its bounds cannot be used with the cursor the device reports.  If they cannot, the quarantine is
  the first call after the stop check and the only one; if it fails, its error is the outcome and the attempt stays
  pending, otherwise nothing is pending any more and an admitted batch starts at the reported cursor.  If the bounds
  can be used, nothing is quarantined, the attempt stays pending and an admitted batch has its bounds.
\<close>

theorem unusable_attempt_is_quarantined:
  assumes "active (local_state w) = None" and "pending_descriptor (local_state w) = Some p"
    and "as_done (ask (history w) Call_Stop) = Inr ()"
    and "ensure_batch ask opts current w = (r, v)"
  shows "\<exists>rest. (\<forall>a x. (Call_Quarantine a, x) \<notin> set rest) \<and>
    (case batch_bounds opts current (Some p) (pending_durable_next (local_state w)) of
       Inl e \<Rightarrow> \<exists>q. history v = history w @ [(Call_Stop, ask (history w) Call_Stop), (Call_Quarantine (descriptor_attempt p), q)] @ rest
         \<and> (case as_done q of
              Inl x \<Rightarrow> r = Inl x \<and> rest = [] \<and> pending_descriptor (local_state v) = Some p
            | Inr _ \<Rightarrow> pending_descriptor (local_state v) = None \<and> (\<forall>b. r = Inr (Some b) \<longrightarrow> batch_start b = read_sequence current))
     | Inr (start, fin) \<Rightarrow> history v = history w @ (Call_Stop, ask (history w) Call_Stop) # rest
         \<and> pending_descriptor (local_state v) = Some p \<and> r \<noteq> Inr None
         \<and> (\<forall>b. r = Inr (Some b) \<longrightarrow> batch_start b = start \<and> batch_end b = fin))"
proof -
  let ?d = "pending_durable_next (local_state w)" and ?stop = "(Call_Stop, ask (history w) Call_Stop)"
  let ?q = "ask (history w @ [?stop]) (Call_Quarantine (descriptor_attempt p))"
  let ?u = "w\<lparr>history := history w @ [?stop]\<rparr>"
  show ?thesis
  proof (cases "batch_bounds opts current (Some p) ?d")
    case (Inr b)
    have "wp (ensure_batch ask opts current)
        (\<lambda>x v. (\<exists>b'. x = Some b' \<and> batch_start b' = fst b \<and> batch_end b' = snd b) \<and> pending_kept (history ?u) (Some p) v)
        (\<lambda>_. pending_kept (history ?u) (Some p)) w"
      using assms(1-3) Inr unusable_bounds [of current p ?d opts] admit_tail [of "history ?u" "Some p" ?u ask opts current]
      by (auto simp: ensure_batch_def check_stop_intent_def pending_kept_def wp_simps split: prod.split)
    then show ?thesis
      using assms(4) Inr by (cases r; cases b) (auto simp: wp_def pending_kept_def)
  next
    case (Inl e)
    then have bad: "pending_incompatible current p ?d" using unusable_bounds by blast
    show ?thesis
    proof (cases "as_done ?q")
      case (Inl x)
      then show ?thesis
        using assms bad \<open>batch_bounds opts current (Some p) ?d = Inl e\<close>
        by (simp add: ensure_batch_def check_stop_intent_def prog_simps) (auto intro!: exI [of _ "[]"] exI [of _ ?q])
    next
      case (Inr y)
      let ?h = "history w @ [?stop, (Call_Quarantine (descriptor_attempt p), ?q)]"
      let ?s = "(local_state w)\<lparr>pending_durable_next := None, pending_descriptor := None\<rparr>"
      have "wp (ensure_batch ask opts current)
          (\<lambda>x v. (\<forall>b. x = Some b \<longrightarrow> batch_start b = read_sequence current) \<and> pending_kept ?h None v) (\<lambda>_. pending_kept ?h None) w"
        using assms(1-3) bad Inr admit_tail_start [of ?h None "w\<lparr>history := ?h, local_state := ?s\<rparr>" ask opts current]
        by (auto simp: ensure_batch_def check_stop_intent_def pending_kept_def wp_simps batch_bounds_def)
      then show ?thesis
        using assms(4) Inr \<open>batch_bounds opts current (Some p) ?d = Inl e\<close>
        by (cases r) (auto simp: wp_def pending_kept_def)
    qed
  qed
qed

definition stale_attempt :: attempt_descriptor where
  "stale_attempt = \<lparr>descriptor_start = 5, descriptor_count = 2, descriptor_attempt = ''stale''\<rparr>"

theorem unusable_attempt_is_quarantined_witness:
  "\<exists>q. (Call_Quarantine ''stale'', q) \<in> set (history (snd
     (ensure_batch (cooperative 3 4 (ring_at 3 4) (ring_at 4 4) Durable_Seal)
       \<lparr>batch_records = 2, arena_max_bytes = 2000, advance_enabled = True, has_public_drain = True\<rparr> (ring_at 3 4)
       \<lparr>local_state = idle_state\<lparr>pending_descriptor := Some stale_attempt\<rparr>, history = []\<rparr>)))"
proof -
  let ?w = "\<lparr>local_state = idle_state\<lparr>pending_descriptor := Some stale_attempt\<rparr>, history = []\<rparr>"
  let ?ask = "cooperative 3 4 (ring_at 3 4) (ring_at 4 4) Durable_Seal"
  let ?opts = "\<lparr>batch_records = 2, arena_max_bytes = 2000, advance_enabled = True, has_public_drain = True\<rparr>"
  obtain r v where run: "ensure_batch ?ask ?opts (ring_at 3 4) ?w = (r, v)" by (cases "ensure_batch ?ask ?opts (ring_at 3 4) ?w")
  have idle: "active (local_state ?w) = None" "pending_descriptor (local_state ?w) = Some stale_attempt"
    "pending_durable_next (local_state ?w) = None"
    by (simp_all add: idle_state_def initial_reconciler_def)
  have stale: "batch_bounds ?opts (ring_at 3 4) (Some stale_attempt) None = Inl (Cursor_Regression ''device cursor regressed before batch start'')"
    by (simp add: batch_bounds_def ring_at_def stale_attempt_def)
  obtain q rest where "history v = history ?w @ [(Call_Stop, Done), (Call_Quarantine (descriptor_attempt stale_attempt), q)] @ rest"
    using unusable_attempt_is_quarantined [OF idle(1,2) _ run] unfolding idle(3) stale by auto
  moreover have "descriptor_attempt stale_attempt = ''stale''" by (simp add: stale_attempt_def)
  ultimately show ?thesis unfolding run by auto
qed

end
