(* ===== verification/Read_Leg.thy ===== *)
theory Read_Leg
  imports Complex_Main Effects Batch_Machine Transfer_Arena Ring_Protocol
begin

text \<open>
  The BLE half of a transfer (\<open>application/collector.py\<close>): one INFO exchange, one READ leg into the arena, one
  ADVANCE.  The session, the writer and the stop flag are ports.  A port may raise anything at any call; the race
  between a notification and a writer failure is one answer of \<open>Leg_Next\<close>, and a cancellation that arrives while owned
  work is joined is the answer of \<open>Leg_Join\<close>.  The loops over notifications have fuel, and \<open>Still_Running\<close> is not an
  exception of the program: no handler sees it.  Clock readings of progress events are left out.
\<close>

section \<open>Data\<close>

record transfer_counters =
  counted_received :: int
  counted_submitted :: int
  counted_written :: int

definition counter_records :: "int \<Rightarrow> int" where
  "counter_records n = n div int RECORD_SIZE"

datatype collect_error =
    Writer_Ingest "collect_error option"
  | Timeout_Error | Collector_Timeout_Error string
  | Ring_Acknowledgement_Error int string | Ring_Transfer_Error string
  | Advance_Rejected_Error string | Advance_Uncertain_Error string
  | Transfer_Interrupted_Error string transfer_counters "collect_error option"
  | Ring_Protocol_Error ring_protocol_error | Arena_Error arena_error
  | Ring_Transport_Error string | Ring_Transport_Disconnected | Connection_Error string
  | Value_Error string | Memory_Error | OS_Failure string | Runtime_Failure string | Assertion_Failure
  | Cancelled_Error | Stop_Requested_Error | Other_Error string | Still_Running

text \<open>\<open>isinstance(error, TimeoutError)\<close>, \<open>asyncio.CancelledError\<close>, and the last handler of \<open>read_leg\<close>.\<close>

fun is_timeout :: "collect_error \<Rightarrow> bool" where
  "is_timeout Timeout_Error = True" | "is_timeout (Collector_Timeout_Error _) = True" | "is_timeout _ = False"

fun is_cancelled :: "collect_error \<Rightarrow> bool" where
  "is_cancelled Cancelled_Error = True" | "is_cancelled Stop_Requested_Error = True" | "is_cancelled _ = False"

fun is_ingest_failure :: "collect_error \<Rightarrow> bool" where
  "is_ingest_failure (Ring_Protocol_Error _) = True"
| "is_ingest_failure (Ring_Transfer_Error _) = True"
| "is_ingest_failure (Transfer_Interrupted_Error _ _ _) = True"
| "is_ingest_failure (Ring_Transport_Error _) = True"
| "is_ingest_failure Ring_Transport_Disconnected = True"
| "is_ingest_failure (Connection_Error _) = True"
| "is_ingest_failure (Arena_Error _) = True"
| "is_ingest_failure (Value_Error _) = True"
| "is_ingest_failure Memory_Error = True"
| "is_ingest_failure (OS_Failure _) = True"
| "is_ingest_failure _ = False"

text \<open>\<open>except Exception\<close>\<close>

definition is_plain_exception :: "collect_error \<Rightarrow> bool" where
  "is_plain_exception e \<longleftrightarrow> \<not> is_cancelled e \<and> e \<noteq> Still_Running"

fun is_writer_ingest :: "collect_error \<Rightarrow> bool" where
  "is_writer_ingest (Writer_Ingest _) = True" | "is_writer_ingest _ = False"

text \<open>\<open>except (OSError, RuntimeError)\<close>: a collector error is a \<open>RuntimeError\<close>, an arena error is not.\<close>

fun is_os_or_runtime :: "collect_error \<Rightarrow> bool" where
  "is_os_or_runtime (Ring_Protocol_Error _) = False"
| "is_os_or_runtime (Arena_Error _) = False"
| "is_os_or_runtime (Value_Error _) = False"
| "is_os_or_runtime Memory_Error = False"
| "is_os_or_runtime Assertion_Failure = False"
| "is_os_or_runtime Cancelled_Error = False"
| "is_os_or_runtime Stop_Requested_Error = False"
| "is_os_or_runtime (Other_Error _) = False"
| "is_os_or_runtime Still_Running = False"
| "is_os_or_runtime _ = True"

record progress_event =
  records_completed :: nat
  records_total :: nat
  bytes_completed :: nat

record progress_snapshot =
  snapshot_event :: "progress_event option"
  snapshot_revision :: nat
  snapshot_terminal :: bool

definition empty_mailbox :: progress_snapshot where
  "empty_mailbox = \<lparr>snapshot_event = None, snapshot_revision = 0, snapshot_terminal = False\<rparr>"

definition mailbox_publish :: "progress_snapshot \<Rightarrow> progress_event \<Rightarrow> bool \<Rightarrow> progress_snapshot" where
  "mailbox_publish m event terminal =
     (if snapshot_terminal m then m
      else \<lparr>snapshot_event = Some event, snapshot_revision = Suc (snapshot_revision m), snapshot_terminal = terminal\<rparr>)"

definition mailbox_finish :: "progress_snapshot \<Rightarrow> progress_snapshot" where
  "mailbox_finish m =
     (if snapshot_terminal m then m else m\<lparr>snapshot_revision := Suc (snapshot_revision m), snapshot_terminal := True\<rparr>)"

record ingest_state =
  ingest_arena :: transfer_arena
  ingest_phase :: read_phase
  read_begun :: bool
  latest_progress :: "progress_event option"
  failure_message :: string
  failure_cause :: "collect_error option"
  mailbox :: progress_snapshot

record read_leg_result =
  leg_start_sequence :: int
  leg_next_sequence :: int
  leg_packet_count :: int
  leg_counters_of :: transfer_counters
  leg_progress :: "progress_event option"

section \<open>Ports\<close>

datatype leg_call =
    Leg_Stop_Check | Leg_Start | Leg_Prepare int int | Leg_Control bytes | Leg_Next
  | Leg_Failure | Leg_Submitted | Leg_Written
  | Leg_Submit_Begin read_begin_notification | Leg_Publish nat bytes
  | Leg_Await_Begin | Leg_Barrier | Leg_Interrupt | Leg_Join

datatype leg_answer =
    Leg_Raised collect_error | Leg_Ok | Leg_Payload bytes | Leg_Failed "collect_error option" | Leg_Count int

type_synonym leg_ports = "(leg_call, leg_answer) answers"
type_synonym 'r leg = "(collect_error, leg_call, leg_answer, ingest_state, 'r) prog"
type_synonym leg_history = "(leg_call \<times> leg_answer) list"

fun leg_ok :: "leg_answer \<Rightarrow> (collect_error, unit) result" where
  "leg_ok (Leg_Raised e) = Inl e" | "leg_ok _ = Inr ()"

fun leg_payload :: "leg_answer \<Rightarrow> (collect_error, bytes) result" where
  "leg_payload (Leg_Raised e) = Inl e" | "leg_payload (Leg_Payload p) = Inr p" | "leg_payload _ = Inl Assertion_Failure"

fun leg_failed :: "leg_answer \<Rightarrow> (collect_error, collect_error option) result" where
  "leg_failed (Leg_Failed f) = Inr f" | "leg_failed _ = Inr None"

fun leg_count :: "leg_answer \<Rightarrow> (collect_error, int) result" where
  "leg_count (Leg_Count n) = Inr n" | "leg_count _ = Inr 0"

fun leg_joined :: "leg_answer \<Rightarrow> (collect_error, collect_error option) result" where
  "leg_joined (Leg_Raised e) = Inr (if is_cancelled e then Some e else None)" | "leg_joined _ = Inr None"

definition check_stop :: "leg_ports \<Rightarrow> unit leg" where
  "check_stop ask = port ask Leg_Stop_Check leg_ok"

definition write_control :: "leg_ports \<Rightarrow> bytes \<Rightarrow> unit leg" where
  "write_control ask frame = port ask (Leg_Control frame) leg_ok"

definition writer_failure :: "leg_ports \<Rightarrow> collect_error option leg" where
  "writer_failure ask = port ask Leg_Failure leg_failed"

definition writer_high_water :: "leg_ports \<Rightarrow> int leg" where
  "writer_high_water ask = port ask Leg_Submitted leg_count"

definition writer_written :: "leg_ports \<Rightarrow> int leg" where
  "writer_written ask = port ask Leg_Written leg_count"

text \<open>\<open>join_owned\<close>: the work is finished first; its own error outranks a cancellation that arrived meanwhile.\<close>

definition join_owned :: "leg_ports \<Rightarrow> 'r leg \<Rightarrow> 'r leg" where
  "join_owned ask m =
     bindp (capture m) (\<lambda>outcome.
     bindp (port ask Leg_Join leg_joined) (\<lambda>cancellation.
     case outcome of
       Inl e \<Rightarrow> raise e
     | Inr x \<Rightarrow> (case cancellation of None \<Rightarrow> ret x | Some c \<Rightarrow> raise c)))"

section \<open>Validation\<close>

definition require_timeout :: "rat \<Rightarrow> (collect_error, unit) result" where
  "require_timeout t = require (0 < t) (Value_Error ''timeout must be positive'')"

definition require_positive :: "int \<Rightarrow> string \<Rightarrow> (collect_error, unit) result" where
  "require_positive v label = require (0 < v) (Value_Error (label @ '' must be positive''))"

definition opcode_of :: "bytes \<Rightarrow> (collect_error, byte) result" where
  "opcode_of payload =
     (case payload of [] \<Rightarrow> Inl (Ring_Transfer_Error ''received an empty ring notification'') | b # _ \<Rightarrow> Inr b)"

definition require_ok_ack :: "ack_notification \<Rightarrow> string \<Rightarrow> (collect_error, unit) result" where
  "require_ok_ack ack label = require (ack_is_ok ack) (Ring_Acknowledgement_Error (ack_status ack) label)"

definition validate_info :: "ring_info \<Rightarrow> (collect_error, unit) result" where
  "validate_info i =
     (if write_sequence i < read_sequence i then Inl (Ring_Transfer_Error ''INFO write sequence precedes read sequence'')
      else if packet_size i \<noteq> int RECORD_SIZE then Inl (Ring_Transfer_Error ''INFO packet size is not the required ring record size'')
      else Inr ())"

definition validate_done :: "done_notification \<Rightarrow> transfer_arena \<Rightarrow> int \<Rightarrow> int \<Rightarrow> (collect_error, unit) result" where
  "validate_done d a start count =
     (if \<not> done_is_ok d then Inl (Ring_Transfer_Error ''DONE reported nonzero status'')
      else if done_next_sequence d \<noteq> start + count then Inl (Ring_Transfer_Error ''DONE next sequence does not match requested range'')
      else if int (leg_bytes a) \<noteq> count * int RECORD_SIZE \<or> int (leg_complete_records a) \<noteq> count
      then Inl (Ring_Transfer_Error ''DONE arrived before all requested records'')
      else Inr ())"

definition read_event_for_opcode :: "byte \<Rightarrow> (collect_error, read_event) result" where
  "read_event_for_opcode opcode =
     (if opcode = NOTIFY_ACK then Inr ReadEvent_ACK
      else if opcode = NOTIFY_READ_BEGIN then Inr ReadEvent_BEGIN
      else if opcode = NOTIFY_DATA then Inr ReadEvent_DATA
      else if opcode = NOTIFY_DONE then Inr ReadEvent_DONE
      else Inl (Ring_Transfer_Error ''unexpected notification during READ''))"

definition protocol :: "(ring_protocol_error, 'r) result \<Rightarrow> 'r leg" where
  "protocol r = lift_result (case r of Inl e \<Rightarrow> Inl (Ring_Protocol_Error e) | Inr x \<Rightarrow> Inr x)"

definition arena_step_of :: "(arena_error, 'r) result \<Rightarrow> 'r leg" where
  "arena_step_of r = lift_result (case r of Inl e \<Rightarrow> Inl (Arena_Error e) | Inr x \<Rightarrow> Inr x)"

section \<open>Counters and progress\<close>

definition capture_leg_baselines :: "leg_ports \<Rightarrow> transfer_counters leg" where
  "capture_leg_baselines ask =
     bindp get_state (\<lambda>s.
     bindp (writer_high_water ask) (\<lambda>submitted.
     bindp (writer_written ask) (\<lambda>written.
     ret \<lparr>counted_received = int (received_bytes (ingest_arena s)), counted_submitted = submitted, counted_written = written\<rparr>)))"

definition leg_counters :: "leg_ports \<Rightarrow> transfer_counters \<Rightarrow> transfer_counters leg" where
  "leg_counters ask baselines =
     bindp (capture_leg_baselines ask) (\<lambda>now.
     ret \<lparr>counted_received = counted_received now - counted_received baselines,
          counted_submitted = counted_submitted now - counted_submitted baselines,
          counted_written = counted_written now - counted_written baselines\<rparr>)"

definition publish_progress :: "bool \<Rightarrow> unit leg" where
  "publish_progress terminal =
     update_state (\<lambda>s.
       let records = complete_records (ingest_arena s);
           event = \<lparr>records_completed = records, records_total = total_records (arena_snapshot (ingest_arena s)),
                    bytes_completed = records * RECORD_SIZE\<rparr>
       in s\<lparr>latest_progress := Some event, mailbox := mailbox_publish (mailbox s) event terminal\<rparr>)"

definition finish_mailbox :: "unit leg" where
  "finish_mailbox = update_state (\<lambda>s. s\<lparr>mailbox := mailbox_finish (mailbox s)\<rparr>)"

section \<open>Notifications\<close>

definition consume_read_begin :: "leg_ports \<Rightarrow> int \<Rightarrow> int \<Rightarrow> bytes \<Rightarrow> unit leg" where
  "consume_read_begin ask start count payload =
     bindp (protocol (parse_read_begin_notification payload)) (\<lambda>notice.
     seqp (assertp (transfer_start_sequence notice = start \<and> begin_packet_count notice = count)
            (Ring_Transfer_Error ''READ_BEGIN does not match requested range''))
    (seqp (port ask (Leg_Submit_Begin notice) leg_ok) (update_state (\<lambda>s. s\<lparr>read_begun := True\<rparr>))))"

definition consume_data :: "leg_ports \<Rightarrow> bytes \<Rightarrow> unit leg" where
  "consume_data ask payload =
     bindp get_state (\<lambda>s0.
     bindp (protocol (parse_data_notification payload)) (\<lambda>fragment.
     bindp (arena_step_of (append_fragment (ingest_arena s0) fragment)) (\<lambda>arena.
     seqp (update_state (\<lambda>s. s\<lparr>ingest_arena := arena\<rparr>))
    (bindp (writer_high_water ask) (\<lambda>high_water.
     let complete_bytes = complete_records arena * RECORD_SIZE; tail = partial_tail arena in
     seqp (whenp (high_water < int complete_bytes \<or> tail \<noteq> [])
       (bindp (arena_step_of (submit_prefix arena None)) (\<lambda>(submitted, _).
        seqp (update_state (\<lambda>s. s\<lparr>ingest_arena := submitted\<rparr>))
          (port ask (Leg_Publish complete_bytes tail) leg_ok))))
       (whenp (complete_records (ingest_arena s0) < complete_records arena
          \<and> complete_records arena < total_records (arena_snapshot arena)) (publish_progress False)))))))"

definition consume_notification :: "leg_ports \<Rightarrow> int \<Rightarrow> int \<Rightarrow> bytes \<Rightarrow> read_event \<Rightarrow> bool leg" where
  "consume_notification ask start count payload event =
     bindp get_state (\<lambda>s.
     bindp (lift_result (case read_transition (ingest_phase s) event of Inl _ \<Rightarrow> Inl Assertion_Failure | Inr d \<Rightarrow> Inr d)) (\<lambda>decision.
     seqp (assertp (decision_action decision \<noteq> ReadAction_REJECT) (Ring_Transfer_Error (decision_reason decision)))
    (seqp (case event of
         ReadEvent_ACK \<Rightarrow> bindp (protocol (parse_ack_notification payload)) (\<lambda>ack. lift_result (require_ok_ack ack ''READ''))
       | ReadEvent_BEGIN \<Rightarrow> consume_read_begin ask start count payload
       | ReadEvent_DATA \<Rightarrow> consume_data ask payload
       | ReadEvent_DONE \<Rightarrow>
           bindp (protocol (parse_done_notification payload)) (\<lambda>d.
           seqp (lift_result (validate_done d (ingest_arena s) start count)) (publish_progress True))
       | _ \<Rightarrow> raise Assertion_Failure)
    (seqp (update_state (\<lambda>s. s\<lparr>ingest_phase := decision_phase decision\<rparr>))
      (ret (decision_action decision = ReadAction_BARRIER))))))"

text \<open>\<open>assert writer.failure is not None; raise _WriterIngestError(writer.failure)\<close>\<close>

definition raise_writer_ingest :: "leg_ports \<Rightarrow> 'r leg" where
  "raise_writer_ingest ask =
     bindp (writer_failure ask) (\<lambda>checked.
     seqp (assertp (checked \<noteq> None) Assertion_Failure) (bindp (writer_failure ask) (\<lambda>failure. raise (Writer_Ingest failure))))"

definition check_writer :: "leg_ports \<Rightarrow> read_event list \<Rightarrow> unit leg" where
  "check_writer ask events =
     bindp (writer_failure ask) (\<lambda>failure.
     if decide_read_event events (failure \<noteq> None) = Some ReadEvent_WRITER_FAILED then raise_writer_ingest ask else ret ())"

definition ingest_one :: "leg_ports \<Rightarrow> int \<Rightarrow> int \<Rightarrow> bool leg" where
  "ingest_one ask start count =
     bindp (port ask Leg_Next leg_payload) (\<lambda>payload.
     seqp (check_writer ask [])
    (bindp (lift_result (bind_result (opcode_of payload) read_event_for_opcode)) (\<lambda>event.
     seqp (check_writer ask [event])
       (catchp
         (bindp (consume_notification ask start count payload event) (\<lambda>terminal.
          if terminal then seqp (check_writer ask [event]) (ret True) else ret False))
         (\<lambda>error.
            if is_plain_exception error
            then bindp (writer_failure ask) (\<lambda>failure.
              if failure \<noteq> None \<and> \<not> is_writer_ingest error
              then bindp (writer_failure ask) (\<lambda>again. raise (Writer_Ingest again))
              else raise error)
            else raise error)))))"

fun ingest_loop :: "leg_ports \<Rightarrow> nat \<Rightarrow> int \<Rightarrow> int \<Rightarrow> unit leg" where
  "ingest_loop ask 0 start count = raise Still_Running"
| "ingest_loop ask (Suc n) start count =
     bindp (ingest_one ask start count) (\<lambda>terminal. if terminal then ret () else ingest_loop ask n start count)"

text \<open>The watch for a writer failure is cancelled and joined, however the loop ends.\<close>

definition ingest_notifications :: "leg_ports \<Rightarrow> nat \<Rightarrow> int \<Rightarrow> int \<Rightarrow> unit leg" where
  "ingest_notifications ask fuel start count = finallyp (ingest_loop ask fuel start count) (join_owned ask (ret ()))"

section \<open>Interruption\<close>

definition move_read :: "read_event \<Rightarrow> read_action \<Rightarrow> unit leg" where
  "move_read event expected =
     bindp get_state (\<lambda>s.
     bindp (lift_result (case read_transition (ingest_phase s) event of Inl _ \<Rightarrow> Inl Assertion_Failure | Inr d \<Rightarrow> Inr d)) (\<lambda>decision.
     seqp (assertp (decision_action decision = expected) (Runtime_Failure ''READ transition expected''))
       (update_state (\<lambda>s. s\<lparr>ingest_phase := decision_phase decision\<rparr>))))"

definition stop_best_effort :: "leg_ports \<Rightarrow> rat option \<Rightarrow> unit leg" where
  "stop_best_effort ask timeout =
     catchp
       (seqp (case timeout of None \<Rightarrow> ret () | Some t \<Rightarrow> lift_result (require_timeout t))
         (write_control ask encode_stop_command))
       (\<lambda>error. if is_plain_exception error then ret () else raise error)"

text \<open>Join work and latch a cancellation that arrives meanwhile.\<close>

definition latch_cancellation :: "leg_ports \<Rightarrow> unit leg \<Rightarrow> collect_error option leg" where
  "latch_cancellation ask m =
     catchp (seqp (join_owned ask m) (ret None))
       (\<lambda>error. if is_cancelled error
          then seqp (move_read ReadEvent_CANCELLED ReadAction_LATCH_CANCELLATION) (ret (Some error))
          else raise error)"

definition persist_interrupted_writer :: "leg_ports \<Rightarrow> unit leg" where
  "persist_interrupted_writer ask =
     bindp get_state (\<lambda>s.
     if \<not> read_begun s then ret ()
     else seqp (join_owned ask (port ask Leg_Await_Begin leg_ok)) (port ask Leg_Interrupt leg_ok))"

definition set_cause :: "collect_error option \<Rightarrow> unit leg" where
  "set_cause cause = update_state (\<lambda>s. s\<lparr>failure_cause := cause\<rparr>)"

definition interrupt_failed_writer :: "leg_ports \<Rightarrow> transfer_counters \<Rightarrow> rat option \<Rightarrow> collect_error leg" where
  "interrupt_failed_writer ask baselines cleanup =
     bindp get_state (\<lambda>s.
     bindp (lift_result (case read_transition (ingest_phase s) ReadEvent_WRITER_FAILED of Inl _ \<Rightarrow> Inl Assertion_Failure | Inr d \<Rightarrow> Inr d)) (\<lambda>decision.
     seqp (update_state (\<lambda>s. s\<lparr>ingest_phase := decision_phase decision\<rparr>))
    (seqp (if decision_action decision = ReadAction_STOP
           then bindp (latch_cancellation ask (stop_best_effort ask cleanup)) (\<lambda>_. ret ())
           else assertp (decision_action decision = ReadAction_PROPAGATE) (Runtime_Failure ''writer failure has no READ exit decision''))
    (seqp (whenp (read_begun s)
             (catchp (join_owned ask (port ask Leg_Await_Begin leg_ok)) (\<lambda>error. if error = Still_Running then raise error else ret ())))
    (bindp get_state (\<lambda>s.
     seqp (whenp (ingest_phase s = ReadPhase_STOPPING) (move_read ReadEvent_STOP_SETTLED ReadAction_PROPAGATE))
    (bindp get_state (\<lambda>s.
     seqp (assertp (failure_cause s \<noteq> None) Assertion_Failure)
    (bindp (leg_counters ask baselines) (\<lambda>counters.
     ret (Transfer_Interrupted_Error ''writer failed during READ'' counters (failure_cause s))))))))))))"

definition settle_writer :: "leg_ports \<Rightarrow> collect_error option \<Rightarrow> collect_error option leg" where
  "settle_writer ask cancellation =
     bindp (writer_failure ask) (\<lambda>failure.
     if failure \<noteq> None then ret cancellation
     else catchp (seqp (join_owned ask (persist_interrupted_writer ask)) (ret cancellation))
       (\<lambda>error.
          if is_cancelled error then seqp (move_read ReadEvent_CANCELLED ReadAction_LATCH_CANCELLATION) (ret (Some error))
          else if error = Still_Running then raise error
          else bindp (writer_failure ask) (\<lambda>failure. if failure = None then raise error else ret cancellation)))"

definition settle_interruption :: "leg_ports \<Rightarrow> transfer_counters \<Rightarrow> rat option \<Rightarrow> collect_error leg" where
  "settle_interruption ask baselines cleanup =
     bindp (latch_cancellation ask (stop_best_effort ask cleanup)) (\<lambda>stop_cancelled.
     bindp (settle_writer ask stop_cancelled) (\<lambda>cancellation.
     bindp (writer_failure ask) (\<lambda>failure.
     seqp (whenp (failure \<noteq> None)
             (seqp (move_read ReadEvent_WRITER_FAILED ReadAction_LATCH_FAILURE) (bindp (writer_failure ask) set_cause)))
    (seqp (move_read ReadEvent_STOP_SETTLED ReadAction_PROPAGATE)
    (seqp (case cancellation of
         None \<Rightarrow> ret ()
       | Some c \<Rightarrow> bindp (writer_failure ask) (\<lambda>failure. if failure = None then raise c else ret ()))
    (bindp get_state (\<lambda>s.
     bindp (leg_counters ask baselines) (\<lambda>counters.
     ret (Transfer_Interrupted_Error (failure_message s) counters (failure_cause s))))))))))"

definition interrupt_leg :: "leg_ports \<Rightarrow> transfer_counters \<Rightarrow> rat option \<Rightarrow> collect_error leg" where
  "interrupt_leg ask baselines cleanup =
     bindp get_state (\<lambda>s.
     if ingest_phase s = ReadPhase_STOPPING then settle_interruption ask baselines cleanup
     else bindp (writer_failure ask) (\<lambda>failure.
       if decide_read_event [ReadEvent_READ_FAILED] (failure \<noteq> None) = Some ReadEvent_WRITER_FAILED
       then seqp (bindp (writer_failure ask) set_cause) (interrupt_failed_writer ask baselines cleanup)
       else seqp (move_read ReadEvent_READ_FAILED ReadAction_STOP) (settle_interruption ask baselines cleanup)))"

section \<open>After DONE\<close>

definition terminal_failure :: "leg_ports \<Rightarrow> transfer_counters \<Rightarrow> collect_error option \<Rightarrow> 'r leg" where
  "terminal_failure ask baselines cause =
     bindp (leg_counters ask baselines) (\<lambda>counters.
     raise (Transfer_Interrupted_Error ''writer failed after READ terminal'' counters cause))"

definition move_decided :: "read_event option \<Rightarrow> unit leg" where
  "move_decided event = (case event of None \<Rightarrow> raise Assertion_Failure | Some e \<Rightarrow> move_read e ReadAction_PROPAGATE)"

definition await_barrier :: "leg_ports \<Rightarrow> unit leg" where
  "await_barrier ask =
     bindp get_state (\<lambda>s.
     seqp (whenp (read_begun s) (join_owned ask (port ask Leg_Await_Begin leg_ok))) (port ask Leg_Barrier leg_ok))"

definition finish_read :: "leg_ports \<Rightarrow> transfer_counters \<Rightarrow> bool \<Rightarrow> unit leg" where
  "finish_read ask baselines cancelled =
     seqp (catchp (await_barrier ask) (\<lambda>error.
        if is_cancelled error
        then bindp (writer_failure ask) (\<lambda>failure.
          seqp (move_decided (decide_read_event [ReadEvent_CANCELLED] (failure \<noteq> None)))
         (bindp (writer_failure ask) (\<lambda>failure.
          if failure \<noteq> None then bindp (writer_failure ask) (terminal_failure ask baselines) else raise error)))
        else if is_os_or_runtime error
        then bindp (writer_failure ask) (\<lambda>failure.
          seqp (move_decided (decide_read_event [ReadEvent_BARRIER_FAILED] (failure \<noteq> None)))
         (bindp (writer_failure ask) (\<lambda>failure.
          terminal_failure ask baselines (if failure \<noteq> None then failure else Some error))))
        else raise error))
    (bindp (writer_failure ask) (\<lambda>failure.
     if failure \<noteq> None
     then seqp (move_read ReadEvent_WRITER_FAILED ReadAction_PROPAGATE) (bindp (writer_failure ask) (terminal_failure ask baselines))
     else if cancelled then move_read ReadEvent_CANCELLED ReadAction_PROPAGATE
     else move_read ReadEvent_BARRIER_OK ReadAction_COMPLETE))"

definition handle_read_cancelled :: "leg_ports \<Rightarrow> transfer_counters \<Rightarrow> rat option \<Rightarrow> unit leg" where
  "handle_read_cancelled ask baselines cleanup =
     bindp (writer_failure ask) (\<lambda>failure.
     if decide_read_event [ReadEvent_CANCELLED] (failure \<noteq> None) = Some ReadEvent_WRITER_FAILED
     then bindp (writer_failure ask) (\<lambda>failure.
       seqp (assertp (failure \<noteq> None) Assertion_Failure)
      (seqp (set_cause failure) (bindp (interrupt_failed_writer ask baselines cleanup) raise)))
     else bindp get_state (\<lambda>s.
       if ingest_phase s = ReadPhase_DONE then join_owned ask (finish_read ask baselines True)
       else
         seqp (move_read ReadEvent_CANCELLED ReadAction_STOP)
        (bindp (interrupt_leg ask baselines cleanup) (\<lambda>interrupted.
         bindp (writer_failure ask) (\<lambda>failure. if failure \<noteq> None then raise interrupted else ret ())))))"

section \<open>The leg\<close>

definition note_failure :: "string \<Rightarrow> collect_error \<Rightarrow> unit leg" where
  "note_failure message cause =
     seqp (update_state (\<lambda>s. s\<lparr>failure_message := message, failure_cause := Some cause\<rparr>)) finish_mailbox"

text \<open>The handlers of \<open>read_leg\<close> in their order; each ends by raising.  \<open>text\<close> is \<open>str(error)\<close>.\<close>

definition leg_handler :: "leg_ports \<Rightarrow> transfer_counters \<Rightarrow> rat option \<Rightarrow> (collect_error \<Rightarrow> string) \<Rightarrow> collect_error \<Rightarrow> unit leg" where
  "leg_handler ask baselines cleanup str error =
     (if is_timeout error
      then seqp (note_failure ''timed out during READ'' error) (bindp (interrupt_leg ask baselines cleanup) raise)
      else case error of
        Writer_Ingest failure \<Rightarrow>
          seqp finish_mailbox (seqp (set_cause failure) (bindp (interrupt_failed_writer ask baselines cleanup) raise))
      | _ \<Rightarrow>
          if is_cancelled error then seqp finish_mailbox (seqp (handle_read_cancelled ask baselines cleanup) (raise error))
          else if is_ingest_failure error
          then seqp (note_failure (str error) error) (bindp (interrupt_leg ask baselines cleanup) raise)
          else raise error)"

definition begin_arena_leg :: "int \<Rightarrow> int \<Rightarrow> unit leg" where
  "begin_arena_leg start count =
     bindp get_state (\<lambda>s.
     bindp (arena_step_of (begin_leg (ingest_arena s) start count)) (\<lambda>arena.
     update_state (\<lambda>s. s\<lparr>ingest_arena := arena\<rparr>)))"

text \<open>A new \<open>_IngestState\<close> over the same arena.\<close>

definition fresh_ingest :: "ingest_state \<Rightarrow> ingest_state" where
  "fresh_ingest s = \<lparr>ingest_arena = ingest_arena s, ingest_phase = ReadPhase_AWAIT_BEGIN, read_begun = False,
     latest_progress = None, failure_message = ''READ interrupted'', failure_cause = None, mailbox = mailbox s\<rparr>"

definition issue_read :: "leg_ports \<Rightarrow> nat \<Rightarrow> int \<Rightarrow> int \<Rightarrow> unit leg" where
  "issue_read ask fuel start count =
     seqp (check_stop ask)
    (bindp (protocol (encode_read_command start (Some count))) (\<lambda>frame.
     seqp (write_control ask frame) (ingest_notifications ask fuel start count)))"

definition read_leg :: "leg_ports \<Rightarrow> nat \<Rightarrow> (collect_error \<Rightarrow> string) \<Rightarrow> int \<Rightarrow> int \<Rightarrow> rat \<Rightarrow> rat option \<Rightarrow> read_leg_result leg" where
  "read_leg ask fuel str start count timeout cleanup =
     seqp (lift_result (require_positive count ''count''))
    (seqp (lift_result (require_timeout timeout))
    (bindp (capture_leg_baselines ask) (\<lambda>baselines.
     seqp (begin_arena_leg start count)
    (seqp (check_stop ask)
    (seqp (port ask Leg_Start leg_ok)
    (seqp (check_stop ask)
    (seqp (port ask (Leg_Prepare start count) leg_ok)
    (seqp (update_state fresh_ingest)
    (seqp (catchp (issue_read ask fuel start count) (leg_handler ask baselines cleanup str))
    (bindp get_state (\<lambda>s.
     seqp (assertp (ingest_phase s = ReadPhase_DONE) (Ring_Transfer_Error ''READ ended without terminal DONE''))
    (seqp (finish_read ask baselines False)
    (bindp (leg_counters ask baselines) (\<lambda>counters.
     bindp get_state (\<lambda>s.
     ret \<lparr>leg_start_sequence = start, leg_next_sequence = start + count, leg_packet_count = count,
          leg_counters_of = counters, leg_progress = latest_progress s\<rparr>)))))))))))))))"

section \<open>INFO and ADVANCE\<close>

fun await_info :: "leg_ports \<Rightarrow> nat \<Rightarrow> ring_info leg" where
  "await_info ask 0 = raise Still_Running"
| "await_info ask (Suc n) =
     bindp (port ask Leg_Next leg_payload) (\<lambda>payload.
     bindp (lift_result (opcode_of payload)) (\<lambda>opcode.
     if opcode = NOTIFY_ACK
     then bindp (protocol (parse_ack_notification payload)) (\<lambda>ack.
       seqp (lift_result (require_ok_ack ack ''INFO'')) (await_info ask n))
     else if opcode = NOTIFY_INFO
     then bindp (protocol (parse_info_notification payload)) (\<lambda>info. seqp (lift_result (validate_info info)) (ret info))
     else raise (Ring_Transfer_Error ''unexpected notification while waiting for INFO'')))"

fun is_protocol_error :: "collect_error \<Rightarrow> bool" where
  "is_protocol_error (Ring_Protocol_Error _) = True" | "is_protocol_error _ = False"

definition ring_info_leg :: "leg_ports \<Rightarrow> nat \<Rightarrow> rat \<Rightarrow> ring_info leg" where
  "ring_info_leg ask fuel timeout =
     seqp (lift_result (require_timeout timeout))
    (seqp (check_stop ask)
    (seqp (write_control ask encode_info_command)
      (catchp (await_info ask fuel) (\<lambda>error.
        if is_timeout error then raise (Collector_Timeout_Error ''timed out waiting for INFO notification'')
        else if is_protocol_error error then raise (Ring_Transfer_Error ''received a malformed INFO notification'')
        else raise error))))"

fun is_lost_connection :: "collect_error \<Rightarrow> bool" where
  "is_lost_connection Ring_Transport_Disconnected = True" | "is_lost_connection (Connection_Error _) = True" | "is_lost_connection _ = False"

definition advance_handler :: "collect_error \<Rightarrow> collect_error" where
  "advance_handler error =
     (if is_timeout error \<or> is_lost_connection error then Advance_Uncertain_Error ''ADVANCE outcome is unknown''
      else case error of
        Ring_Acknowledgement_Error status _ \<Rightarrow>
          if status = STATUS_STORAGE_NOT_READY then Advance_Uncertain_Error ''ADVANCE is temporarily unavailable''
          else Advance_Rejected_Error ''ADVANCE was rejected''
      | Ring_Protocol_Error _ \<Rightarrow> Advance_Rejected_Error ''ADVANCE was rejected''
      | _ \<Rightarrow> error)"

definition advance_leg :: "leg_ports \<Rightarrow> int \<Rightarrow> rat \<Rightarrow> unit leg" where
  "advance_leg ask target timeout =
     seqp (lift_result (require_timeout timeout))
      (catchp
        (seqp (check_stop ask)
        (bindp (protocol (encode_advance_command target)) (\<lambda>frame.
         seqp (write_control ask frame)
        (bindp (port ask Leg_Next leg_payload) (\<lambda>payload.
         bindp (lift_result (opcode_of payload)) (\<lambda>opcode.
         seqp (assertp (opcode = NOTIFY_ACK) (Advance_Rejected_Error ''unexpected notification while waiting for ADVANCE acknowledgement''))
           (bindp (protocol (parse_ack_notification payload)) (\<lambda>ack. lift_result (require_ok_ack ack ''ADVANCE'')))))))))
        (\<lambda>error. raise (advance_handler error)))"

end
