(* ===== verification/Leg_Delivery.thy ===== *)
theory Leg_Delivery
  imports Read_Leg
begin

text \<open>
  What a READ leg has established when it returns, and when it sends STOP, for every behaviour of the device, the
  writer and the event loop.
\<close>

section \<open>The bytes of a leg\<close>

definition leg_offset :: "transfer_arena \<Rightarrow> nat" where
  "leg_offset a = (leg_start a - start_sequence (arena_snapshot a)) * RECORD_SIZE"

definition leg_span :: "transfer_arena \<Rightarrow> bytes" where
  "leg_span a = slice_of (leg_offset a) (leg_offset a + leg_bytes a) (arena_buffer a)"

text \<open>The payload bytes of the DATA notifications in a history.\<close>

fun data_of :: "leg_call \<times> leg_answer \<Rightarrow> bytes" where
  "data_of (Leg_Next, Leg_Payload (b # f)) = (if b = NOTIFY_DATA then f else [])"
| "data_of _ = []"

definition leg_data :: "leg_history \<Rightarrow> bytes" where
  "leg_data h = concat (map data_of h)"

lemma leg_data_append [simp]: "leg_data (g @ h) = leg_data g @ leg_data h"
  by (simp add: leg_data_def)

lemma leg_data_Nil [simp]: "leg_data [] = []"
  by (simp add: leg_data_def)

lemma data_of_quiet: "c \<noteq> Leg_Next \<Longrightarrow> data_of (c, a) = []"
  by (cases c) simp_all

lemma leg_position: "arena_inv a \<Longrightarrow> absolute_start a = leg_offset a + leg_bytes a \<and> absolute_start a \<le> received_bytes a"
  by (auto simp: arena_inv_def absolute_start_def leg_offset_def)

lemma leg_span_received:
  assumes "arena_inv a"
  shows "leg_span a = slice_of (leg_offset a) (leg_offset a + leg_bytes a) (received_prefix a)"
proof -
  have "leg_offset a + leg_bytes a \<le> received_bytes a"
    using leg_position [OF assms] by simp
  then show ?thesis by (simp add: leg_span_def slice_of_def received_prefix_def drop_take min_def)
qed

lemma length_leg_span:
  assumes "arena_inv a"
  shows "length (leg_span a) = leg_bytes a"
proof -
  have "leg_offset a + leg_bytes a \<le> received_bytes a" using leg_position [OF assms] by simp
  moreover have "received_bytes a \<le> length (arena_buffer a)" using assms by (simp add: arena_inv_def)
  ultimately show ?thesis by (simp add: leg_span_def slice_of_def)
qed

lemma append_fragment_span:
  assumes inv: "arena_inv a" and ok: "append_fragment a f = Inr b"
  shows "leg_span b = leg_span a @ f"
proof -
  let ?o = "leg_offset a" and ?s = "absolute_start a" and ?r = "received_bytes a"
  have s: "?s = ?o + leg_bytes a" and sr: "?s \<le> ?r"
    using leg_position [OF inv] by simp_all
  have agree: "take (?r - ?s) f = take (length f) (drop ?s (received_prefix a))"
    and b: "leg_bytes b = leg_bytes a + length f" "leg_offset b = ?o"
    using ok by (auto simp: append_fragment_exact [OF inv] leg_offset_def)
  have rp: "received_prefix b = received_prefix a @ drop (?r - ?s) f" by (rule append_fragment_received [OF inv ok])
  have len: "length (received_prefix a) = ?r" by (rule length_received_prefix [OF inv])
  have "take (length f) (drop ?s (received_prefix b)) = f"
  proof -
    have "drop ?s (received_prefix b) = drop ?s (received_prefix a) @ drop (?r - ?s) f"
      using sr len by (simp add: rp)
    moreover have "take (length f) (drop ?s (received_prefix a)) = take (?r - ?s) f" using agree by simp
    moreover have "take (length f - (?r - ?s)) (drop (?r - ?s) f) = drop (?r - ?s) f" by simp
    ultimately show ?thesis using len by simp
  qed
  moreover have "take (leg_bytes a) (drop ?o (received_prefix b)) = take (leg_bytes a) (drop ?o (received_prefix a))"
    using s sr len by (simp add: rp)
  ultimately show ?thesis
    using leg_span_received [OF inv] leg_span_received [OF append_fragment_inv [OF inv ok]] s b
    by (simp add: slice_of_def take_add [of "leg_bytes a"] add.commute [of _ "leg_offset a"])
qed

lemma submit_prefix_span: "submit_prefix a n = Inr (b, w) \<Longrightarrow> leg_span b = leg_span a \<and> leg_start b = leg_start a \<and> leg_bytes b = leg_bytes a"
  by (auto simp: submit_prefix_Inr leg_span_def leg_offset_def)

lemma begin_leg_span:
  "begin_leg a s n = Inr b \<Longrightarrow> leg_span b = [] \<and> leg_bytes b = 0 \<and> leg_start b = nat s \<and> arena_snapshot b = arena_snapshot a"
  by (auto simp: begin_leg_def result_iffs require_arena_uint_def leg_span_def slice_of_def split: if_splits)

section \<open>The invariant of the loop\<close>

text \<open>A valid DONE notification after which no notification was taken.\<close>

definition done_last :: "int \<Rightarrow> int \<Rightarrow> leg_history \<Rightarrow> bool" where
  "done_last start count g \<longleftrightarrow>
     (\<exists>g1 f g2. g = g1 @ (Leg_Next, Leg_Payload f) # g2 \<and> Leg_Next \<notin> fst ` set g2
       \<and> parse_done_notification f = Inr \<lparr>done_status = 0, done_next_sequence = start + count\<rparr>)"

definition no_stop :: "leg_history \<Rightarrow> bool" where
  "no_stop g \<longleftrightarrow> Leg_Control encode_stop_command \<notin> fst ` set g"

text \<open>
  The leg since history \<open>h\<close>: its bytes in the arena, with the fragment \<open>pend\<close> of a notification that is being consumed,
  are the DATA bytes taken so far; no STOP was written; and once DONE was accepted the leg is complete.
\<close>

definition leg_inv :: "leg_history \<Rightarrow> int \<Rightarrow> int \<Rightarrow> bytes \<Rightarrow> (leg_call, leg_answer, ingest_state) world \<Rightarrow> bool" where
  "leg_inv h start count pend v \<longleftrightarrow>
     (\<exists>g. history v = h @ g \<and> arena_inv (ingest_arena (local_state v)) \<and> leg_start (ingest_arena (local_state v)) = nat start
        \<and> leg_span (ingest_arena (local_state v)) @ pend = leg_data g \<and> no_stop g
        \<and> (ingest_phase (local_state v) = ReadPhase_DONE \<longrightarrow>
             int (leg_bytes (ingest_arena (local_state v))) = count * int RECORD_SIZE \<and> done_last start count g))"

definition leg_quiet :: "leg_call \<Rightarrow> bool" where
  "leg_quiet c \<longleftrightarrow> c \<noteq> Leg_Next \<and> c \<noteq> Leg_Control encode_stop_command"

lemma leg_quiet_calls [simp]:
  "leg_quiet Leg_Stop_Check" "leg_quiet Leg_Start" "leg_quiet (Leg_Prepare s n)" "leg_quiet Leg_Failure" "leg_quiet Leg_Submitted"
  "leg_quiet Leg_Written" "leg_quiet (Leg_Submit_Begin b)" "leg_quiet (Leg_Publish k t)" "leg_quiet Leg_Await_Begin"
  "leg_quiet Leg_Barrier" "leg_quiet Leg_Interrupt" "leg_quiet Leg_Join"
  by (simp_all add: leg_quiet_def)

lemma done_last_quiet: "done_last start count g \<Longrightarrow> c \<noteq> Leg_Next \<Longrightarrow> done_last start count (g @ [(c, a)])"
  unfolding done_last_def by (metis (no_types, lifting) Un_iff append_Cons append_assoc empty_iff fst_conv image_Un image_empty image_insert insert_iff list.set(1) list.simps(15) set_append)

lemma leg_inv_quiet: "leg_inv h start count pend v \<Longrightarrow> leg_quiet c \<Longrightarrow> leg_inv h start count pend (v\<lparr>history := history v @ [(c, a)]\<rparr>)"
  unfolding leg_inv_def leg_quiet_def
  by (elim exE, rule exI, rule conjI, simp) (auto simp: data_of_quiet leg_data_def no_stop_def intro: done_last_quiet)

lemma maintains_leg_port [maintains_intros]: "leg_quiet c \<Longrightarrow> maintains (leg_inv h start count pend) (port ask c f)"
  by (rule maintains_port) (rule leg_inv_quiet)

lemma maintains_leg_update [maintains_intros]:
  "(\<And>s. ingest_arena (f s) = ingest_arena s \<and> ingest_phase (f s) = ingest_phase s) \<Longrightarrow>
   maintains (leg_inv h start count pend) (update_state f)"
  by (rule maintains_update_state) (simp add: leg_inv_def)

section \<open>One notification\<close>

text \<open>
  Notification \<open>f\<close> is the last one taken, the read is not over, and \<open>pend\<close> is what the arena still lacks of it.
\<close>

definition taken :: "leg_history \<Rightarrow> int \<Rightarrow> int \<Rightarrow> bytes \<Rightarrow> bytes \<Rightarrow> (leg_call, leg_answer, ingest_state) world \<Rightarrow> bool" where
  "taken h start count f pend v \<longleftrightarrow>
     leg_inv h start count pend v \<and> ingest_phase (local_state v) \<noteq> ReadPhase_DONE
     \<and> (\<exists>g1 g2. history v = h @ g1 @ (Leg_Next, Leg_Payload f) # g2 \<and> Leg_Next \<notin> fst ` set g2)"

lemma maintains_taken_port [maintains_intros]:
  "leg_quiet c \<Longrightarrow> maintains (taken h start count f pend) (port ask c r)"
proof (rule maintains_port)
  fix w a assume q: "leg_quiet c" and t: "taken h start count f pend w"
  obtain g1 g2 where "history w = h @ g1 @ (Leg_Next, Leg_Payload f) # g2" "Leg_Next \<notin> fst ` set g2"
    using t by (auto simp: taken_def)
  then have "history w @ [(c, a)] = h @ g1 @ (Leg_Next, Leg_Payload f) # (g2 @ [(c, a)]) \<and> Leg_Next \<notin> fst ` set (g2 @ [(c, a)])"
    using q by (auto simp: leg_quiet_def)
  then have "\<exists>g1 g2. history w @ [(c, a)] = h @ g1 @ (Leg_Next, Leg_Payload f) # g2 \<and> Leg_Next \<notin> fst ` set g2"
    by blast
  moreover have "leg_inv h start count pend (w\<lparr>history := history w @ [(c, a)]\<rparr>)"
    using t by (intro leg_inv_quiet [OF _ q]) (simp add: taken_def)
  ultimately show "taken h start count f pend (w\<lparr>history := history w @ [(c, a)]\<rparr>)"
    using t by (simp add: taken_def)
qed

lemma maintains_taken_update [maintains_intros]:
  "(\<And>s. ingest_arena (u s) = ingest_arena s \<and> ingest_phase (u s) = ingest_phase s) \<Longrightarrow>
   maintains (taken h start count f pend) (update_state u)"
  by (rule maintains_update_state) (auto simp: taken_def leg_inv_def)

lemma next_is_taken:
  "delivers (\<lambda>v. leg_inv h start count [] v \<and> ingest_phase (local_state v) \<noteq> ReadPhase_DONE)
     (port ask Leg_Next leg_payload) (\<lambda>f. taken h start count f (data_of (Leg_Next, Leg_Payload f)))"
proof (rule delivers_port, elim conjE)
  fix w a f
  assume i: "leg_inv h start count [] w" and p: "ingest_phase (local_state w) \<noteq> ReadPhase_DONE" and f: "leg_payload a = Inr f"
  have a: "a = Leg_Payload f" using f by (cases a) simp_all
  obtain g where g: "history w = h @ g" "leg_span (ingest_arena (local_state w)) = leg_data g" "no_stop g"
    "arena_inv (ingest_arena (local_state w))" "leg_start (ingest_arena (local_state w)) = nat start"
    using i by (auto simp: leg_inv_def)
  have "leg_inv h start count (data_of (Leg_Next, Leg_Payload f)) (w\<lparr>history := history w @ [(Leg_Next, a)]\<rparr>)"
    unfolding leg_inv_def using g p by (intro exI [of _ "g @ [(Leg_Next, a)]"]) (simp add: a leg_data_def no_stop_def)
  moreover have "\<exists>g1 g2. history w @ [(Leg_Next, a)] = h @ g1 @ (Leg_Next, Leg_Payload f) # g2 \<and> Leg_Next \<notin> fst ` set g2"
    using g(1) a by (intro exI [of _ g] exI [of _ "[]"]) simp
  ultimately show "taken h start count f (data_of (Leg_Next, Leg_Payload f)) (w\<lparr>history := history w @ [(Leg_Next, a)]\<rparr>)"
    using p by (simp add: taken_def)
qed

lemmas quiet_defs = writer_failure_def writer_high_water_def writer_written_def check_stop_def publish_progress_def
  finish_mailbox_def protocol_def arena_step_of_def check_writer_def raise_writer_ingest_def

lemma maintains_taken_check [maintains_intros]: "maintains (taken h start count f pend) (check_writer ask es)"
  unfolding quiet_defs by (intro maintains_intros) simp_all

lemma consume_read_begin_taken:
  "maintains (taken h start count f pend) (consume_read_begin ask s n p)"
  unfolding consume_read_begin_def quiet_defs by (intro maintains_intros) simp_all

lemma taken_arena:
  assumes "taken h start count f pend w" and "arena_inv b" and "leg_start b = leg_start (ingest_arena (local_state w))"
    and "leg_span b @ pend' = leg_span (ingest_arena (local_state w)) @ pend"
  shows "taken h start count f pend' (w\<lparr>local_state := local_state w\<lparr>ingest_arena := b\<rparr>\<rparr>)"
  using assms by (auto simp: taken_def leg_inv_def)

lemma taken_append:
  assumes t: "taken h start count f pend w" and ap: "append_fragment (ingest_arena (local_state w)) pend = Inr b"
  shows "taken h start count f [] (w\<lparr>local_state := local_state w\<lparr>ingest_arena := b\<rparr>\<rparr>)"
proof (rule taken_arena [OF t])
  have inv: "arena_inv (ingest_arena (local_state w))" using t by (auto simp: taken_def leg_inv_def)
  show "arena_inv b" by (rule append_fragment_inv [OF inv ap])
  show "leg_start b = leg_start (ingest_arena (local_state w))" using ap by (auto simp: append_fragment_exact [OF inv])
  show "leg_span b @ [] = leg_span (ingest_arena (local_state w)) @ pend" by (simp add: append_fragment_span [OF inv ap])
qed

lemma taken_submit:
  assumes t: "taken h start count f pend w" and sub: "submit_prefix (ingest_arena (local_state w)) n = Inr (b, view)"
  shows "taken h start count f pend (w\<lparr>local_state := local_state w\<lparr>ingest_arena := b\<rparr>\<rparr>)"
proof (rule taken_arena [OF t])
  have "arena_inv (ingest_arena (local_state w))" using t by (auto simp: taken_def leg_inv_def)
  then show "arena_inv b" by (rule submit_prefix_inv [OF _ sub])
qed (simp_all add: submit_prefix_span [OF sub])

lemma submit_taken:
  "delivers (\<lambda>v. taken h start count f [] v \<and> ingest_arena (local_state v) = b)
     (bindp (arena_step_of (submit_prefix b None)) (\<lambda>(submitted, _).
        seqp (update_state (\<lambda>s. s\<lparr>ingest_arena := submitted\<rparr>)) (port ask (Leg_Publish n t) leg_ok)))
     (\<lambda>_. taken h start count f [])"
proof (rule delivers_bindp)
  show "delivers (\<lambda>v. taken h start count f [] v \<and> ingest_arena (local_state v) = b) (arena_step_of (submit_prefix b None))
     (\<lambda>(c, _) v. taken h start count f [] (v\<lparr>local_state := local_state v\<lparr>ingest_arena := c\<rparr>\<rparr>))"
    unfolding arena_step_of_def
    by (rule delivers_post [OF delivers_lift]) (auto simp: result_iffs intro: taken_submit split: sum.splits)
next
  fix x :: "transfer_arena \<times> bytes"
  show "delivers (case x of (c, _) \<Rightarrow> \<lambda>v. taken h start count f [] (v\<lparr>local_state := local_state v\<lparr>ingest_arena := c\<rparr>\<rparr>))
      (case x of (submitted, _) \<Rightarrow> seqp (update_state (\<lambda>s. s\<lparr>ingest_arena := submitted\<rparr>)) (port ask (Leg_Publish n t) leg_ok))
      (\<lambda>_. taken h start count f [])"
    by (cases x, simp, rule delivers_seqp [OF delivers_update_state delivers_maintains [OF maintains_taken_port]]) simp_all
qed

lemma consume_data_taken:
  assumes f: "f = NOTIFY_DATA # pend"
  shows "delivers (taken h start count f pend) (consume_data ask f) (\<lambda>_. taken h start count f [])"
  unfolding consume_data_def
proof (rule delivers_bindp [OF delivers_get_state], rule delivers_bindp)
  fix s0
  show "delivers (\<lambda>w. taken h start count f pend w \<and> local_state w = s0) (protocol (parse_data_notification f))
     (\<lambda>x w. taken h start count f pend w \<and> local_state w = s0 \<and> x = pend)"
    unfolding protocol_def by (rule delivers_post [OF delivers_lift]) (auto simp: f parse_data_notification_def require_opcode_def)
next
  fix s0 x
  show "delivers (\<lambda>w. taken h start count f pend w \<and> local_state w = s0 \<and> x = pend)
     (bindp (arena_step_of (append_fragment (ingest_arena s0) x)) (\<lambda>arena.
       seqp (update_state (\<lambda>s. s\<lparr>ingest_arena := arena\<rparr>))
      (bindp (writer_high_water ask) (\<lambda>high_water.
       let complete_bytes = complete_records arena * RECORD_SIZE; tail = partial_tail arena in
       seqp (whenp (high_water < int complete_bytes \<or> tail \<noteq> [])
         (bindp (arena_step_of (submit_prefix arena None)) (\<lambda>(submitted, _).
          seqp (update_state (\<lambda>s. s\<lparr>ingest_arena := submitted\<rparr>)) (port ask (Leg_Publish complete_bytes tail) leg_ok))))
       (whenp (complete_records (ingest_arena s0) < complete_records arena
          \<and> complete_records arena < total_records (arena_snapshot arena)) (publish_progress False))))))
     (\<lambda>_. taken h start count f [])"
  proof (rule delivers_bindp)
    show "delivers (\<lambda>w. taken h start count f pend w \<and> local_state w = s0 \<and> x = pend)
       (arena_step_of (append_fragment (ingest_arena s0) x))
       (\<lambda>b v. taken h start count f [] (v\<lparr>local_state := local_state v\<lparr>ingest_arena := b\<rparr>\<rparr>))"
      unfolding arena_step_of_def
      by (rule delivers_post [OF delivers_lift]) (auto simp: result_iffs intro: taken_append split: sum.splits)
  next
    fix b
    let ?P = "\<lambda>v. taken h start count f [] v \<and> ingest_arena (local_state v) = b"
    have hw: "delivers ?P (writer_high_water ask) (\<lambda>_. ?P)"
      unfolding writer_high_water_def
      by (rule delivers_maintains, rule maintains_conj [OF maintains_taken_port]) (simp_all add: maintains_port)
    have pub: "maintains (taken h start count f []) (publish_progress False)"
      unfolding publish_progress_def Let_def by (rule maintains_taken_update) simp
    have keep: "delivers ?P (whenp c m) (\<lambda>_. taken h start count f [])" if "delivers ?P m (\<lambda>_. taken h start count f [])" for c m
      unfolding whenp_def by (intro delivers_if that delivers_weaken [OF delivers_ret]) auto
    show "delivers (\<lambda>v. taken h start count f [] (v\<lparr>local_state := local_state v\<lparr>ingest_arena := b\<rparr>\<rparr>))
       (seqp (update_state (\<lambda>s. s\<lparr>ingest_arena := b\<rparr>))
        (bindp (writer_high_water ask) (\<lambda>high_water.
         let complete_bytes = complete_records b * RECORD_SIZE; tail = partial_tail b in
         seqp (whenp (high_water < int complete_bytes \<or> tail \<noteq> [])
           (bindp (arena_step_of (submit_prefix b None)) (\<lambda>(submitted, _).
            seqp (update_state (\<lambda>s. s\<lparr>ingest_arena := submitted\<rparr>)) (port ask (Leg_Publish complete_bytes tail) leg_ok))))
         (whenp (complete_records (ingest_arena s0) < complete_records b
            \<and> complete_records b < total_records (arena_snapshot b)) (publish_progress False)))))
       (\<lambda>_. taken h start count f [])"
      unfolding Let_def
      by (rule delivers_seqp [of _ _ ?P], rule delivers_update_state, simp,
          rule delivers_bindp [OF hw], rule delivers_seqp [OF keep [OF submit_taken]],
          rule delivers_maintains, rule maintains_whenp, rule pub)
  qed
qed

section \<open>The loop\<close>

text \<open>The leg is complete: all its bytes are in the arena, and DONE was the last notification.\<close>

definition leg_complete :: "leg_history \<Rightarrow> int \<Rightarrow> int \<Rightarrow> (leg_call, leg_answer, ingest_state) world \<Rightarrow> bool" where
  "leg_complete h start count v \<longleftrightarrow>
     int (leg_bytes (ingest_arena (local_state v))) = count * int RECORD_SIZE
     \<and> (\<exists>g. history v = h @ g \<and> done_last start count g)"

text \<open>The next phase, and the end of the loop.\<close>

lemma accepted_phase:
  assumes "read_transition p e = Inr d" and "decision_action d \<noteq> ReadAction_REJECT" and "p \<noteq> ReadPhase_DONE"
    and "e \<in> {ReadEvent_ACK, ReadEvent_BEGIN, ReadEvent_DATA, ReadEvent_DONE}"
  shows "(decision_phase d = ReadPhase_DONE \<longleftrightarrow> decision_action d = ReadAction_BARRIER) \<and>
    (decision_action d = ReadAction_BARRIER \<longrightarrow> e = ReadEvent_DONE)"
  using assms by (cases p; cases e) (auto simp: read_transition_def read_decision_def)

lemma notification_event:
  assumes "bind_result (opcode_of f) read_event_for_opcode = Inr e"
  shows "e \<in> {ReadEvent_ACK, ReadEvent_BEGIN, ReadEvent_DATA, ReadEvent_DONE} \<and>
    (if e = ReadEvent_DATA then f = NOTIFY_DATA # data_of (Leg_Next, Leg_Payload f) else data_of (Leg_Next, Leg_Payload f) = [])"
  using assms by (auto simp: opcode_of_def read_event_for_opcode_def result_iffs opcode_defs split: list.splits if_splits)

lemma validated_done_completes:
  assumes t: "taken h start count f [] w" and d: "parse_done_notification f = Inr d"
    and v: "validate_done d (ingest_arena (local_state w)) start count = Inr u"
  shows "leg_complete h start count w"
proof -
  have eq: "d = \<lparr>done_status = 0, done_next_sequence = start + count\<rparr>"
    and n: "int (leg_bytes (ingest_arena (local_state w))) = count * int RECORD_SIZE"
    using v by (auto simp: validate_done_def done_is_ok_def split: if_splits)
  obtain g1 g2 where "history w = h @ g1 @ (Leg_Next, Leg_Payload f) # g2" "Leg_Next \<notin> fst ` set g2"
    using t by (auto simp: taken_def)
  then have "history w = h @ g1 @ (Leg_Next, Leg_Payload f) # g2 \<and> done_last start count (g1 @ (Leg_Next, Leg_Payload f) # g2)"
    using d eq unfolding done_last_def by blast
  then show ?thesis using n unfolding leg_complete_def by blast
qed

lemma complete_update:
  "(\<And>s. ingest_arena (u s) = ingest_arena s) \<Longrightarrow> maintains (leg_complete h start count) (update_state u)"
  by (rule maintains_update_state) (simp add: leg_complete_def)

text \<open>What the event of a notification does to the leg, before the phase is set.\<close>

lemma done_taken:
  "delivers (\<lambda>w. taken h start count f [] w \<and> local_state w = s)
     (bindp (protocol (parse_done_notification f)) (\<lambda>d.
        seqp (lift_result (validate_done d (ingest_arena s) start count)) (publish_progress True)))
     (\<lambda>_ w. taken h start count f [] w \<and> leg_complete h start count w)"
proof (rule delivers_bindp)
  show "delivers (\<lambda>w. taken h start count f [] w \<and> local_state w = s) (protocol (parse_done_notification f))
     (\<lambda>d w. taken h start count f [] w \<and> local_state w = s \<and> parse_done_notification f = Inr d)"
    unfolding protocol_def by (rule delivers_post [OF delivers_lift]) (auto split: sum.splits)
next
  fix d
  have "delivers (\<lambda>w. taken h start count f [] w \<and> local_state w = s \<and> parse_done_notification f = Inr d)
      (lift_result (validate_done d (ingest_arena s) start count))
      (\<lambda>_ w. taken h start count f [] w \<and> leg_complete h start count w)"
    by (rule delivers_post [OF delivers_lift]) (auto intro: validated_done_completes)
  moreover have "maintains (\<lambda>w. taken h start count f [] w \<and> leg_complete h start count w) (publish_progress True)"
    unfolding publish_progress_def Let_def by (intro maintains_conj maintains_taken_update complete_update) simp_all
  ultimately show "delivers (\<lambda>w. taken h start count f [] w \<and> local_state w = s \<and> parse_done_notification f = Inr d)
     (seqp (lift_result (validate_done d (ingest_arena s) start count)) (publish_progress True))
     (\<lambda>_ w. taken h start count f [] w \<and> leg_complete h start count w)"
    by (rule delivers_seqp [OF _ delivers_maintains])
qed

lemma set_phase_delivers:
  assumes "p = ReadPhase_DONE \<Longrightarrow> fin"
  shows "delivers (\<lambda>w. taken h start count f [] w \<and> (fin \<longrightarrow> leg_complete h start count w))
     (update_state (\<lambda>s. s\<lparr>ingest_phase := p\<rparr>)) (\<lambda>_ w. leg_inv h start count [] w \<and> ingest_phase (local_state w) = p)"
  by (rule delivers_update_state) (use assms in \<open>auto simp: taken_def leg_inv_def leg_complete_def\<close>)

definition open_leg :: "leg_history \<Rightarrow> int \<Rightarrow> int \<Rightarrow> bool \<Rightarrow> (leg_call, leg_answer, ingest_state) world \<Rightarrow> bool" where
  "open_leg h start count over w \<longleftrightarrow> leg_inv h start count [] w \<and> (ingest_phase (local_state w) = ReadPhase_DONE \<longleftrightarrow> over)"


lemma event_delivers:
  assumes e: "bind_result (opcode_of f) read_event_for_opcode = Inr e"
  shows "delivers (\<lambda>w. taken h start count f (data_of (Leg_Next, Leg_Payload f)) w \<and> local_state w = s)
     (case e of
         ReadEvent_ACK \<Rightarrow> bindp (protocol (parse_ack_notification f)) (\<lambda>ack. lift_result (require_ok_ack ack ''READ''))
       | ReadEvent_BEGIN \<Rightarrow> consume_read_begin ask start count f
       | ReadEvent_DATA \<Rightarrow> consume_data ask f
       | ReadEvent_DONE \<Rightarrow>
           bindp (protocol (parse_done_notification f)) (\<lambda>d.
           seqp (lift_result (validate_done d (ingest_arena s) start count)) (publish_progress True))
       | _ \<Rightarrow> raise Assertion_Failure)
     (\<lambda>_ w. taken h start count f [] w \<and> (e = ReadEvent_DONE \<longrightarrow> leg_complete h start count w))"
proof -
  note ev = notification_event [OF e]
  have empty: "delivers (\<lambda>w. taken h start count f [] w \<and> local_state w = s) m (\<lambda>_. taken h start count f [])"
    if "maintains (taken h start count f []) m" for m :: "unit leg"
    by (rule delivers_pre [OF delivers_maintains [OF that]]) simp
  have ack: "maintains (taken h start count f []) (bindp (protocol (parse_ack_notification f)) (\<lambda>ack. lift_result (require_ok_ack ack ''READ'')))"
    unfolding protocol_def by (intro maintains_intros)
  consider "e = ReadEvent_ACK" "data_of (Leg_Next, Leg_Payload f) = []" | "e = ReadEvent_BEGIN" "data_of (Leg_Next, Leg_Payload f) = []"
    | "e = ReadEvent_DONE" "data_of (Leg_Next, Leg_Payload f) = []"
    | "e = ReadEvent_DATA" "f = NOTIFY_DATA # data_of (Leg_Next, Leg_Payload f)" using ev by (auto split: if_splits)
  then show ?thesis
  proof cases
    case 1 then show ?thesis using empty [OF ack] by simp
  next
    case 2 then show ?thesis using empty [OF consume_read_begin_taken] by simp
  next
    case 3 then show ?thesis using done_taken by simp
  next
    case 4
    then have "delivers (taken h start count f (data_of (Leg_Next, Leg_Payload f))) (consume_data ask f) (\<lambda>_. taken h start count f [])"
      by (intro consume_data_taken)
    then have "delivers (\<lambda>w. taken h start count f (data_of (Leg_Next, Leg_Payload f)) w \<and> local_state w = s) (consume_data ask f) (\<lambda>_. taken h start count f [])"
      by (rule delivers_pre) (rule conjunct1)
    then show ?thesis by (simp add: 4(1))
  qed
qed

lemma consume_notification_delivers:
  assumes e: "bind_result (opcode_of f) read_event_for_opcode = Inr e"
  shows "delivers (taken h start count f (data_of (Leg_Next, Leg_Payload f))) (consume_notification ask start count f e)
     (open_leg h start count)"
  unfolding consume_notification_def
proof (rule delivers_bindp [OF delivers_get_state], rule delivers_bindp, rule delivers_lift, rule delivers_seqp, rule delivers_assertp)
  fix s d
  let ?P = "\<lambda>w. taken h start count f (data_of (Leg_Next, Leg_Payload f)) w \<and> local_state w = s"
  let ?D = "(case read_transition (ingest_phase s) e of Inl _ \<Rightarrow> Inl Assertion_Failure | Inr d \<Rightarrow> Inr d) = Inr d"
  let ?M = "\<lambda>w. taken h start count f [] w \<and> (e = ReadEvent_DONE \<longrightarrow> leg_complete h start count w)"
  let ?go = "\<lambda>m. seqp m (seqp (update_state (\<lambda>s. s\<lparr>ingest_phase := decision_phase d\<rparr>)) (ret (decision_action d = ReadAction_BARRIER)))"
  have "delivers (\<lambda>w. (?P w \<and> ?D) \<and> decision_action d \<noteq> ReadAction_REJECT) (?go m) (open_leg h start count)"
    if m: "delivers ?P m (\<lambda>_. ?M)" for m :: "unit leg"
  proof (rule delivers_pure)
    fix w assume "(?P w \<and> ?D) \<and> decision_action d \<noteq> ReadAction_REJECT"
    then show "(decision_phase d = ReadPhase_DONE \<longleftrightarrow> decision_action d = ReadAction_BARRIER) \<and>
        (decision_action d = ReadAction_BARRIER \<longrightarrow> e = ReadEvent_DONE)"
      using notification_event [OF e] by (intro accepted_phase [of "ingest_phase s"]) (auto simp: taken_def split: sum.splits)
  next
    assume ph: "(decision_phase d = ReadPhase_DONE \<longleftrightarrow> decision_action d = ReadAction_BARRIER) \<and>
        (decision_action d = ReadAction_BARRIER \<longrightarrow> e = ReadEvent_DONE)"
    have fin: "delivers ?M (seqp (update_state (\<lambda>s. s\<lparr>ingest_phase := decision_phase d\<rparr>)) (ret (decision_action d = ReadAction_BARRIER)))
       (open_leg h start count)"
      by (rule delivers_seqp [OF set_phase_delivers]) (use ph in \<open>auto simp: open_leg_def delivers_def wp_simps\<close>)
    show "delivers (\<lambda>w. (?P w \<and> ?D) \<and> decision_action d \<noteq> ReadAction_REJECT) (?go m) (open_leg h start count)"
      by (rule delivers_seqp, rule delivers_pre [OF m], blast, rule fin)
  qed
  from this [OF event_delivers [OF e]]
  show "delivers (\<lambda>w. (?P w \<and> ?D) \<and> decision_action d \<noteq> ReadAction_REJECT)
    (?go (case e of
         ReadEvent_ACK \<Rightarrow> bindp (protocol (parse_ack_notification f)) (\<lambda>ack. lift_result (require_ok_ack ack ''READ''))
       | ReadEvent_BEGIN \<Rightarrow> consume_read_begin ask start count f
       | ReadEvent_DATA \<Rightarrow> consume_data ask f
       | ReadEvent_DONE \<Rightarrow>
           bindp (protocol (parse_done_notification f)) (\<lambda>d.
           seqp (lift_result (validate_done d (ingest_arena s) start count)) (publish_progress True))
       | _ \<Rightarrow> raise Assertion_Failure)) (open_leg h start count)" .
qed

lemma maintains_open_port [maintains_intros]: "leg_quiet c \<Longrightarrow> maintains (open_leg h start count b) (port ask c r)"
  by (rule maintains_port) (simp add: open_leg_def leg_inv_quiet)

lemma maintains_open_check [maintains_intros]: "maintains (open_leg h start count b) (check_writer ask es)"
  unfolding quiet_defs by (intro maintains_intros) simp_all

lemma ingest_one_delivers: "delivers (open_leg h start count False) (ingest_one ask start count) (open_leg h start count)"
  unfolding ingest_one_def
proof (rule delivers_bindp)
  show "delivers (open_leg h start count False) (port ask Leg_Next leg_payload)
     (\<lambda>f. taken h start count f (data_of (Leg_Next, Leg_Payload f)))"
    by (rule delivers_pre [OF next_is_taken]) (simp add: open_leg_def)
next
  fix f
  let ?T = "taken h start count f (data_of (Leg_Next, Leg_Payload f))"
  have check: "delivers ?T (check_writer ask es) (\<lambda>_. ?T)" for es
    by (rule delivers_maintains [OF maintains_taken_check])
  have exit: "delivers (open_leg h start count t) (if t then seqp (check_writer ask [e]) (ret True) else ret False) (open_leg h start count)" for t e
  proof -
    have "delivers (open_leg h start count True) (seqp (check_writer ask [e]) (ret True)) (open_leg h start count)"
      by (rule delivers_seqp [OF delivers_maintains [OF maintains_open_check] delivers_ret])
    moreover have "delivers (open_leg h start count False) (ret False) (open_leg h start count)" by (rule delivers_ret)
    ultimately show ?thesis by (cases t) simp_all
  qed
  show "delivers ?T
     (seqp (check_writer ask [])
       (bindp (lift_result (bind_result (opcode_of f) read_event_for_opcode)) (\<lambda>event.
        seqp (check_writer ask [event])
          (catchp
            (bindp (consume_notification ask start count f event) (\<lambda>terminal.
             if terminal then seqp (check_writer ask [event]) (ret True) else ret False))
            (\<lambda>error.
               if is_plain_exception error
               then bindp (writer_failure ask) (\<lambda>failure.
                 if failure \<noteq> None \<and> \<not> is_writer_ingest error
                 then bindp (writer_failure ask) (\<lambda>again. raise (Writer_Ingest again))
                 else raise error)
               else raise error)))))
     (open_leg h start count)"
  proof (rule delivers_seqp [OF check], rule delivers_bindp [OF delivers_lift], rule delivers_pure, erule conjunct2)
    fix e assume e: "bind_result (opcode_of f) read_event_for_opcode = Inr e"
    note go = delivers_bindp [OF consume_notification_delivers [OF e] exit]
    show "delivers (\<lambda>w. ?T w \<and> bind_result (opcode_of f) read_event_for_opcode = Inr e)
      (seqp (check_writer ask [e])
          (catchp
            (bindp (consume_notification ask start count f e) (\<lambda>terminal.
             if terminal then seqp (check_writer ask [e]) (ret True) else ret False))
            (\<lambda>error.
               if is_plain_exception error
               then bindp (writer_failure ask) (\<lambda>failure.
                 if failure \<noteq> None \<and> \<not> is_writer_ingest error
                 then bindp (writer_failure ask) (\<lambda>again. raise (Writer_Ingest again))
                 else raise error)
               else raise error)))
      (open_leg h start count)"
      by (rule delivers_seqp, rule delivers_pre [OF check], erule conjunct1, rule delivers_try [OF go]) (intro diverts_intros)
  qed
qed

lemma ingest_loop_delivers: "delivers (open_leg h start count False) (ingest_loop ask fuel start count) (\<lambda>_. open_leg h start count True)"
proof (induction fuel)
  case 0
  show ?case by (simp add: delivers_raise)
next
  case (Suc n)
  have "delivers (open_leg h start count t) (if t then ret () else ingest_loop ask n start count) (\<lambda>_. open_leg h start count True)" for t
    using Suc by (cases t) (simp_all add: delivers_def wp_simps)
  then show ?case by (simp add: delivers_bindp [OF ingest_one_delivers])
qed

lemma maintains_join_owned [maintains_intros]:
  assumes "maintains I m" and "maintains I (port ask Leg_Join leg_joined :: collect_error option leg)"
  shows "maintains I (join_owned ask m)"
  unfolding join_owned_def by (intro maintains_intros assms)

lemma read_frame_quiet: "encode_read_command start n = Inr frame \<Longrightarrow> leg_quiet (Leg_Control frame)"
  by (auto simp: encode_read_command_def encode_stop_command_def leg_quiet_def result_iffs CMD_READ_def CMD_STOP_def
      split: option.splits if_splits)

lemma issue_read_delivers: "delivers (open_leg h start count False) (issue_read ask fuel start count) (\<lambda>_. open_leg h start count True)"
proof -
  have loop: "delivers (open_leg h start count False) (ingest_notifications ask fuel start count) (\<lambda>_. open_leg h start count True)"
    unfolding ingest_notifications_def
    by (rule delivers_finallyp [OF ingest_loop_delivers], rule delivers_maintains) (intro maintains_intros, simp)
  show ?thesis
    unfolding issue_read_def quiet_defs write_control_def
  proof (rule delivers_seqp, rule delivers_maintains, rule maintains_open_port, simp, rule delivers_bindp [OF delivers_lift], rule delivers_pure, erule conjunct2)
    fix frame
    let ?enc = "(case encode_read_command start (Some count) of Inl e \<Rightarrow> Inl (Ring_Protocol_Error e) | Inr x \<Rightarrow> Inr x) = Inr frame"
    assume ?enc
    then have "leg_quiet (Leg_Control frame)" by (intro read_frame_quiet) (auto split: sum.splits)
    then have "delivers (open_leg h start count False) (port ask (Leg_Control frame) leg_ok) (\<lambda>_. open_leg h start count False)"
      by (intro delivers_maintains maintains_open_port)
    then have "delivers (open_leg h start count False)
      (seqp (port ask (Leg_Control frame) leg_ok) (ingest_notifications ask fuel start count)) (\<lambda>_. open_leg h start count True)"
      by (rule delivers_seqp [OF _ loop])
    then show "delivers (\<lambda>w. open_leg h start count False w \<and> ?enc)
      (seqp (port ask (Leg_Control frame) leg_ok) (ingest_notifications ask fuel start count)) (\<lambda>_. open_leg h start count True)"
      by (rule delivers_pre) (rule conjunct1)
  qed
qed

section \<open>The end of the leg\<close>

lemma leg_handler_diverts: "diverts (leg_handler ask baselines cleanup str e)"
  unfolding leg_handler_def by (intro diverts_intros, simp split: collect_error.split, intro conjI allI impI diverts_intros)

lemma finish_read_diverts:
  "diverts (if is_cancelled error
        then bindp (writer_failure ask) (\<lambda>failure.
          seqp (move_decided (decide_read_event [ReadEvent_CANCELLED] (failure \<noteq> None)))
         (bindp (writer_failure ask) (\<lambda>failure.
          if failure \<noteq> None then bindp (writer_failure ask) (terminal_failure ask baselines) else raise error)))
        else if is_os_or_runtime error
        then bindp (writer_failure ask) (\<lambda>failure.
          seqp (move_decided (decide_read_event [ReadEvent_BARRIER_FAILED] (failure \<noteq> None)))
         (bindp (writer_failure ask) (\<lambda>failure.
          terminal_failure ask baselines (if failure \<noteq> None then failure else Some error))))
        else raise error :: unit leg)"
  unfolding terminal_failure_def by (intro diverts_intros)

text \<open>
  A completed leg: all of it is in the arena, DONE was the last notification, and with \<open>settled\<close> the writer's barrier
  was acknowledged after that.
\<close>

definition leg_settled :: "int \<Rightarrow> int \<Rightarrow> bool \<Rightarrow> transfer_arena \<Rightarrow> leg_history \<Rightarrow> bool" where
  "leg_settled start count settled a g \<longleftrightarrow>
     arena_inv a \<and> leg_start a = nat start \<and> int (leg_bytes a) = count * int RECORD_SIZE
     \<and> leg_span a = leg_data g \<and> no_stop g
     \<and> (\<exists>g1 f g2. g = g1 @ (Leg_Next, Leg_Payload f) # g2 \<and> Leg_Next \<notin> fst ` set g2
          \<and> parse_done_notification f = Inr \<lparr>done_status = 0, done_next_sequence = start + count\<rparr>
          \<and> (settled \<longrightarrow> (\<exists>a. (Leg_Barrier, a) \<in> set g2 \<and> leg_ok a = Inr ())))"

definition leg_over :: "leg_history \<Rightarrow> int \<Rightarrow> int \<Rightarrow> bool \<Rightarrow> (leg_call, leg_answer, ingest_state) world \<Rightarrow> bool" where
  "leg_over h start count settled v \<longleftrightarrow> (\<exists>g. history v = h @ g \<and> leg_settled start count settled (ingest_arena (local_state v)) g)"

lemma open_leg_over: "open_leg h start count True v \<Longrightarrow> leg_over h start count False v"
  unfolding open_leg_def leg_inv_def leg_over_def leg_settled_def done_last_def by auto

lemma leg_settled_snoc:
  assumes s: "leg_settled start count b a g" and q: "leg_quiet c" and b': "b' \<Longrightarrow> b \<or> (c = Leg_Barrier \<and> leg_ok r = Inr ())"
  shows "leg_settled start count b' a (g @ [(c, r)])"
proof -
  obtain g1 f g2 where g: "g = g1 @ (Leg_Next, Leg_Payload f) # g2" "Leg_Next \<notin> fst ` set g2"
      "parse_done_notification f = Inr \<lparr>done_status = 0, done_next_sequence = start + count\<rparr>"
      "b \<longrightarrow> (\<exists>a. (Leg_Barrier, a) \<in> set g2 \<and> leg_ok a = Inr ())"
    using s by (auto simp: leg_settled_def)
  have "\<exists>g1 f g2'. g @ [(c, r)] = g1 @ (Leg_Next, Leg_Payload f) # g2' \<and> Leg_Next \<notin> fst ` set g2'
      \<and> parse_done_notification f = Inr \<lparr>done_status = 0, done_next_sequence = start + count\<rparr>
      \<and> (b' \<longrightarrow> (\<exists>a. (Leg_Barrier, a) \<in> set g2' \<and> leg_ok a = Inr ()))"
    by (intro exI [of _ g1] exI [of _ f] exI [of _ "g2 @ [(c, r)]"]) (use g q b' in \<open>auto simp: leg_quiet_def\<close>)
  moreover have "leg_data (g @ [(c, r)]) = leg_data g" "no_stop (g @ [(c, r)]) \<longleftrightarrow> no_stop g"
    using q by (auto simp: leg_quiet_def no_stop_def leg_data_def data_of_quiet)
  ultimately show ?thesis using s by (simp add: leg_settled_def)
qed

lemma maintains_over_port [maintains_intros]: "leg_quiet c \<Longrightarrow> maintains (leg_over h start count b) (port ask c r)"
  by (rule maintains_port) (auto simp: leg_over_def intro: leg_settled_snoc)

lemma maintains_over_update [maintains_intros]:
  "(\<And>s. ingest_arena (u s) = ingest_arena s) \<Longrightarrow> maintains (leg_over h start count b) (update_state u)"
  by (rule maintains_update_state) (simp add: leg_over_def)

lemma await_barrier_delivers: "delivers (leg_over h start count False) (await_barrier ask) (\<lambda>_. leg_over h start count True)"
proof -
  have wait: "maintains (leg_over h start count False) (whenp b (join_owned ask (port ask Leg_Await_Begin leg_ok)))" for b
    by (intro maintains_intros) simp_all
  have barrier: "delivers (leg_over h start count False) (port ask Leg_Barrier leg_ok) (\<lambda>_. leg_over h start count True)"
    by (rule delivers_port) (auto simp: leg_over_def intro!: leg_settled_snoc [where b = False])
  show ?thesis
    unfolding await_barrier_def
    by (rule delivers_bindp [OF delivers_get_state], rule delivers_seqp, rule delivers_pre [OF delivers_maintains [OF wait]], erule conjunct1, rule barrier)
qed

lemma maintains_over_move [maintains_intros]: "maintains (leg_over h start count b) (move_read e x)"
  unfolding move_read_def by (intro maintains_intros) simp

lemma maintains_over_counters [maintains_intros]: "maintains (leg_over h start count b) (leg_counters ask baselines)"
  unfolding leg_counters_def capture_leg_baselines_def writer_high_water_def writer_written_def
  by (intro maintains_intros) simp_all

lemma maintains_over_failure [maintains_intros]: "maintains (leg_over h start count b) (writer_failure ask)"
  unfolding writer_failure_def by (intro maintains_intros) simp

lemma maintains_over_terminal [maintains_intros]: "maintains (leg_over h start count b) (terminal_failure ask baselines c)"
  unfolding terminal_failure_def by (intro maintains_intros)

lemma finish_read_delivers: "delivers (leg_over h start count False) (finish_read ask baselines c) (\<lambda>_. leg_over h start count True)"
  unfolding finish_read_def
  by (rule delivers_seqp [OF delivers_try [OF await_barrier_delivers finish_read_diverts]], rule delivers_maintains)
    (intro maintains_intros)

section \<open>Before READ\<close>

text \<open>Only quiet calls were made, and with \<open>opened\<close> the arena was set to the leg.\<close>

definition leg_idle :: "leg_history \<Rightarrow> int \<Rightarrow> bool \<Rightarrow> (leg_call, leg_answer, ingest_state) world \<Rightarrow> bool" where
  "leg_idle h start opened v \<longleftrightarrow>
     arena_inv (ingest_arena (local_state v)) \<and> (\<exists>g. history v = h @ g \<and> leg_data g = [] \<and> no_stop g)
     \<and> (opened \<longrightarrow> leg_start (ingest_arena (local_state v)) = nat start \<and> leg_span (ingest_arena (local_state v)) = [])"

lemma maintains_idle_port [maintains_intros]: "leg_quiet c \<Longrightarrow> maintains (leg_idle h start b) (port ask c r)"
  by (rule maintains_port) (auto simp: leg_idle_def leg_quiet_def no_stop_def leg_data_def data_of_quiet)

lemma begin_arena_leg_delivers: "delivers (leg_idle h start False) (begin_arena_leg start count) (\<lambda>_. leg_idle h start True)"
proof -
  have step: "leg_idle h start True (w\<lparr>local_state := local_state w\<lparr>ingest_arena := b\<rparr>\<rparr>)"
    if "leg_idle h start False w" "begin_leg (ingest_arena (local_state w)) start count = Inr b" for w b
    using that begin_leg_inv [OF _ that(2)] begin_leg_span [OF that(2)] by (auto simp: leg_idle_def)
  show ?thesis
    unfolding begin_arena_leg_def arena_step_of_def
    by (auto simp: delivers_def wp_simps step split: sum.splits)
qed

lemma fresh_ingest_delivers: "delivers (leg_idle h start True) (update_state fresh_ingest) (\<lambda>_. open_leg h start count False)"
  by (rule delivers_update_state) (auto simp: leg_idle_def open_leg_def leg_inv_def fresh_ingest_def)

text \<open>The result of the leg once DONE was accepted.\<close>

lemma leg_result_delivers:
  "delivers (leg_over h start count False)
     (seqp (finish_read ask baselines False) (bindp (leg_counters ask baselines) (\<lambda>counters. bindp get_state (\<lambda>s.
       ret \<lparr>leg_start_sequence = start, leg_next_sequence = start + count, leg_packet_count = count,
            leg_counters_of = counters, leg_progress = latest_progress s\<rparr>))))
     (\<lambda>r v. leg_over h start count True v \<and> leg_start_sequence r = start \<and> leg_next_sequence r = start + count \<and> leg_packet_count r = count)"
  by (rule delivers_seqp [OF finish_read_delivers], rule delivers_bindp [OF delivers_maintains [OF maintains_over_counters]])
    (simp add: delivers_def wp_simps)

lemma baselines_idle: "maintains (leg_idle h start b) (capture_leg_baselines ask)"
  unfolding capture_leg_baselines_def writer_high_water_def writer_written_def by (intro maintains_intros) simp_all

lemma read_leg_outcome:
  "delivers (leg_idle h start False) (read_leg ask fuel str start count timeout cleanup)
     (\<lambda>r v. leg_over h start count True v
        \<and> leg_start_sequence r = start \<and> leg_next_sequence r = start + count \<and> leg_packet_count r = count)"
proof -
  have idle: "delivers (leg_idle h start b) (port ask c leg_ok) (\<lambda>_. leg_idle h start b)" if "leg_quiet c" for c b
    by (rule delivers_maintains [OF maintains_idle_port [OF that]])
  have guard: "delivers (leg_idle h start False) (lift_result r) (\<lambda>_. leg_idle h start False)" for r :: "(collect_error, unit) result"
    by (rule delivers_maintains [OF maintains_lift])
  have base: "delivers (leg_idle h start False) (capture_leg_baselines ask) (\<lambda>_. leg_idle h start False)"
    by (rule delivers_maintains [OF baselines_idle])
  have over: "delivers (open_leg h start count True)
      (bindp get_state (\<lambda>s. seqp (assertp (ingest_phase s = ReadPhase_DONE) (Ring_Transfer_Error ''READ ended without terminal DONE'')) m)) Q"
    if "delivers (leg_over h start count False) m Q" for m :: "read_leg_result leg" and Q
    by (rule delivers_bindp [OF delivers_get_state], rule delivers_seqp [OF delivers_assertp], rule delivers_pre [OF that])
      (blast intro: open_leg_over)
  show ?thesis
    unfolding read_leg_def check_stop_def
    by (rule delivers_seqp [OF guard], rule delivers_seqp [OF guard], rule delivers_bindp [OF base], rule delivers_seqp [OF begin_arena_leg_delivers],
        rule delivers_seqp [OF idle], simp, rule delivers_seqp [OF idle], simp, rule delivers_seqp [OF idle], simp, rule delivers_seqp [OF idle], simp,
        rule delivers_seqp [OF fresh_ingest_delivers], rule delivers_seqp [OF delivers_try [OF issue_read_delivers leg_handler_diverts]],
        rule over, rule leg_result_delivers)
qed

end
