(* ===== verification/Leg_Progress.thy ===== *)
theory Leg_Progress
  imports Leg_Delivery
begin

text \<open>
  A READ leg against a cooperative device and a healthy writer: the leg returns, however the device cuts the stream
  into notifications, with one unit of fuel per notification.
\<close>

section \<open>A cooperative world\<close>

definition takes :: "leg_history \<Rightarrow> nat" where
  "takes g = length (filter (\<lambda>x. fst x = Leg_Next) g)"

lemma takes_append [simp]: "takes (g @ g') = takes g + takes g'"
  by (simp add: takes_def)

lemma takes_one [simp]: "takes [] = 0" "takes [(c, a)] = (if c = Leg_Next then 1 else 0)"
  by (simp_all add: takes_def)

text \<open>After history \<open>h\<close> the notifications are \<open>frames\<close> in order, no call raises and the writer does not fail.\<close>

definition obliges :: "leg_ports \<Rightarrow> leg_history \<Rightarrow> bytes list \<Rightarrow> bool" where
  "obliges ask h frames \<longleftrightarrow>
     (\<forall>g. takes g < length frames \<longrightarrow> ask (h @ g) Leg_Next = Leg_Payload (frames ! takes g)) \<and>
     (\<forall>g c. c \<noteq> Leg_Next \<longrightarrow> (\<forall>e. ask (h @ g) c \<noteq> Leg_Raised e)) \<and>
     (\<forall>g. ask (h @ g) Leg_Failure = Leg_Failed None)"

text \<open>The next notification is number \<open>n\<close> and the state is \<open>s\<close>.\<close>

definition at_step :: "leg_history \<Rightarrow> nat \<Rightarrow> ingest_state \<Rightarrow> (leg_call, leg_answer, ingest_state) world \<Rightarrow> bool" where
  "at_step h n s w \<longleftrightarrow> local_state w = s \<and> (\<exists>g. history w = h @ g \<and> takes g = n)"

lemma at_step_quiet: "at_step h n s w \<Longrightarrow> c \<noteq> Leg_Next \<Longrightarrow> at_step h n s (w\<lparr>history := history w @ [(c, a)]\<rparr>)"
  by (auto simp: at_step_def)

lemma yields_get_state: "yields (at_step h n s) get_state s (at_step h n s)"
  by (simp add: yields_def completes_def wp_simps at_step_def)

lemma yields_update_state: "yields (at_step h n s) (update_state f) () (at_step h n (f s))"
  by (simp add: yields_def completes_def wp_simps at_step_def)

lemma yields_next:
  assumes "obliges ask h frames" and "n < length frames"
  shows "yields (at_step h n s) (port ask Leg_Next leg_payload) (frames ! n) (at_step h (Suc n) s)"
proof -
  have "wp (port ask Leg_Next leg_payload) (\<lambda>y w. y = frames ! n \<and> at_step h (Suc n) s w) (\<lambda>_ _. False) w" if w: "at_step h n s w" for w
  proof -
    obtain g where g: "history w = h @ g" "takes g = n" using w by (auto simp: at_step_def)
    then have "ask (history w) Leg_Next = Leg_Payload (frames ! n)" using assms by (auto simp: obliges_def)
    then show ?thesis using w g by (auto simp: wp_simps at_step_def)
  qed
  then show ?thesis by (simp add: yields_def completes_def)
qed

lemma yields_port:
  assumes "obliges ask h frames" and "c \<noteq> Leg_Next"
  shows "yields (at_step h n s) (port ask c leg_ok) () (at_step h n s)"
proof -
  have "leg_ok (ask (history w) c) = Inr ()" if "at_step h n s w" for w
    using assms that by (cases "ask (history w) c") (auto simp: obliges_def at_step_def)
  then show ?thesis using assms(2) by (simp add: yields_def completes_def wp_simps at_step_quiet)
qed

lemma yields_healthy:
  assumes "obliges ask h frames"
  shows "yields (at_step h n s) (writer_failure ask) None (at_step h n s)"
proof -
  have "ask (history w) Leg_Failure = Leg_Failed None" if "at_step h n s w" for w
    using assms that by (auto simp: obliges_def at_step_def)
  then show ?thesis by (simp add: writer_failure_def yields_def completes_def wp_simps at_step_quiet)
qed

lemma counts_complete:
  "completes (at_step h n s) (writer_high_water ask) (\<lambda>_. at_step h n s)"
  "completes (at_step h n s) (writer_written ask) (\<lambda>_. at_step h n s)"
proof -
  have "\<exists>k. leg_count a = Inr k" for a by (cases a) simp_all
  then show "completes (at_step h n s) (writer_high_water ask) (\<lambda>_. at_step h n s)"
    and "completes (at_step h n s) (writer_written ask) (\<lambda>_. at_step h n s)"
    by (auto simp: writer_high_water_def writer_written_def completes_def wp_simps at_step_quiet split: sum.split) (metis Inl_Inr_False)+
qed

lemma yields_join:
  assumes ob: "obliges ask h frames" and m: "yields P m x (at_step h n s)"
  shows "yields P (join_owned ask m) x (at_step h n s)"
proof -
  have "leg_joined (ask (history w) Leg_Join) = Inr None" if "at_step h n s w" for w
    using ob that by (cases "ask (history w) Leg_Join") (auto simp: obliges_def at_step_def)
  then have "yields (at_step h n s) (port ask Leg_Join leg_joined) None (at_step h n s)"
    by (simp add: yields_def completes_def wp_simps at_step_quiet)
  then show ?thesis
    unfolding join_owned_def by (rule yields_bindp [OF yields_capture [OF m] yields_bindp]) (simp add: yields_ret)
qed

lemma yields_check:
  assumes "obliges ask h frames" and "ReadEvent_WRITER_FAILED \<notin> set es"
  shows "yields (at_step h n s) (check_writer ask es) () (at_step h n s)"
proof -
  have "decide_read_event es False \<noteq> Some ReadEvent_WRITER_FAILED"
    using assms(2) by (auto simp: decide_read_event_def find_Some_iff)
  then show ?thesis
    unfolding check_writer_def by (rule_tac yields_bindp [OF yields_healthy [OF assms(1)]]) (simp add: yields_ret)
qed


section \<open>One notification\<close>

text \<open>Some state with property \<open>R\<close>.\<close>

abbreviation some_step :: "leg_history \<Rightarrow> nat \<Rightarrow> (ingest_state \<Rightarrow> bool) \<Rightarrow> (leg_call, leg_answer, ingest_state) world \<Rightarrow> bool" where
  "some_step h n R \<equiv> \<lambda>w. \<exists>s. R s \<and> at_step h n s w"

lemma some_step_update: "(\<And>s. R s \<Longrightarrow> R' (f s)) \<Longrightarrow> yields (some_step h n R) (update_state f) () (some_step h n R')"
  by (rule yields_cases, rule yields_post [OF yields_update_state]) blast

lemma yields_some_step: "R' (f s) \<Longrightarrow> yields (at_step h n s) (update_state f) () (some_step h n R')"
  by (rule yields_post [OF yields_update_state]) blast

lemma submit_prefix_accepted:
  assumes "arena_inv a"
  shows "submit_prefix a None = Inr (a\<lparr>submitted_bytes := complete_records a * RECORD_SIZE\<rparr>, submitted_prefix (a\<lparr>submitted_bytes := complete_records a * RECORD_SIZE\<rparr>))"
proof -
  have rs: "record_size (arena_snapshot a) = RECORD_SIZE" using assms by (simp add: arena_inv_def)
  obtain k where k: "submitted_bytes a = RECORD_SIZE * k" and le: "RECORD_SIZE * k \<le> received_bytes a"
    using assms by (auto simp: arena_inv_def)
  have "k \<le> received_bytes a div RECORD_SIZE" using div_le_mono [OF le, of RECORD_SIZE] by simp
  then have "submitted_bytes a \<le> complete_records a * RECORD_SIZE"
    by (simp add: k rs complete_records_def mult.commute)
  then show ?thesis by (simp add: submit_prefix_Inr rs)
qed

lemma consume_data_yields:
  assumes ob: "obliges ask h frames" and inv: "arena_inv (ingest_arena s)"
    and f: "p = NOTIFY_DATA # f" and ap: "append_fragment (ingest_arena s) f = Inr b"
  shows "yields (at_step h n s) (consume_data ask p) ()
    (some_step h n (\<lambda>t. ingest_phase t = ingest_phase s \<and> (\<exists>k. ingest_arena t = b\<lparr>submitted_bytes := k\<rparr>) \<and> arena_inv (ingest_arena t)))"
proof -
  let ?R = "\<lambda>t. ingest_phase t = ingest_phase s \<and> (\<exists>k. ingest_arena t = b\<lparr>submitted_bytes := k\<rparr>) \<and> arena_inv (ingest_arena t)"
  let ?c = "b\<lparr>submitted_bytes := complete_records b * RECORD_SIZE\<rparr>"
  have pd: "parse_data_notification p = Inr f" by (simp add: f parse_data_exact)
  have invb: "arena_inv b" by (rule append_fragment_inv [OF inv ap])
  have Rb: "?R (s\<lparr>ingest_arena := b\<rparr>)" using invb by (auto intro: exI [of _ "submitted_bytes b"])
  have Rc: "?R (s\<lparr>ingest_arena := ?c\<rparr>)" using submit_prefix_inv [OF invb submit_prefix_accepted [OF invb]] by auto
  have keep: "yields (some_step h n ?R) (whenp c (publish_progress False)) () (some_step h n ?R)" for c
    unfolding publish_progress_def Let_def
    by (rule yields_whenp, rule some_step_update) simp_all
  have submit: "yields (at_step h n (s\<lparr>ingest_arena := b\<rparr>))
      (whenp c (bindp (arena_step_of (submit_prefix b None)) (\<lambda>(submitted, _).
        seqp (update_state (\<lambda>s. s\<lparr>ingest_arena := submitted\<rparr>)) (port ask (Leg_Publish k t) leg_ok)))) () (some_step h n ?R)" for c k t
  proof (cases c)
    case True
    have "yields (at_step h n (s\<lparr>ingest_arena := b\<rparr>))
      (seqp (update_state (\<lambda>s. s\<lparr>ingest_arena := ?c\<rparr>)) (port ask (Leg_Publish k t) leg_ok)) () (at_step h n (s\<lparr>ingest_arena := ?c\<rparr>))"
      by (rule yields_seqp [OF yields_update_state]) (simp add: yields_port [OF ob])
    then have "yields (at_step h n (s\<lparr>ingest_arena := b\<rparr>))
      (seqp (update_state (\<lambda>s. s\<lparr>ingest_arena := ?c\<rparr>)) (port ask (Leg_Publish k t) leg_ok)) () (some_step h n ?R)"
      by (rule yields_post) (use Rc in blast)
    then have "yields (at_step h n (s\<lparr>ingest_arena := b\<rparr>))
      (bindp (arena_step_of (submit_prefix b None)) (\<lambda>(submitted, _).
        seqp (update_state (\<lambda>s. s\<lparr>ingest_arena := submitted\<rparr>)) (port ask (Leg_Publish k t) leg_ok))) () (some_step h n ?R)"
      unfolding arena_step_of_def
      by (rule_tac yields_bindp [OF yields_lift [where x = "(?c, submitted_prefix ?c)"]]) (simp_all add: submit_prefix_accepted [OF invb])
    then show ?thesis by (simp add: True whenp_def)
  next
    case False
    then show ?thesis unfolding whenp_def by simp (rule yields_post [OF yields_ret], use Rb in blast)
  qed
  show ?thesis
    unfolding consume_data_def protocol_def arena_step_of_def [of "append_fragment _ _"] Let_def
    by (rule yields_bindp [OF yields_get_state], rule yields_bindp [OF yields_lift [where x = f]],
        simp add: pd, rule yields_bindp [OF yields_lift [where x = b]], simp add: ap,
        rule yields_seqp [OF yields_update_state], rule yields_bindp_any [OF counts_complete(1)],
        rule yields_seqp [OF submit keep])
qed

lemma ingest_one_yields:
  assumes ob: "obliges ask h frames" and n: "n < length frames"
    and e: "bind_result (opcode_of (frames ! n)) read_event_for_opcode = Inr e"
    and c: "yields (at_step h (Suc n) s) (consume_notification ask start count (frames ! n) e) terminal (some_step h (Suc n) R)"
  shows "yields (at_step h n s) (ingest_one ask start count) terminal (some_step h (Suc n) R)"
proof -
  have e': "ReadEvent_WRITER_FAILED \<notin> set [e]" using notification_event [OF e] by auto
  have leave: "yields (some_step h (Suc n) R) (if terminal then seqp (check_writer ask [e]) (ret True) else ret False) terminal (some_step h (Suc n) R)"
    by (rule yields_cases)
      (cases terminal, auto intro!: yields_post [OF yields_seqp [OF yields_check [OF ob e'] yields_ret]] yields_post [OF yields_ret])
  show ?thesis
    unfolding ingest_one_def
    by (rule yields_bindp [OF yields_next [OF ob n]], rule yields_seqp [OF yields_check [OF ob]], simp,
        rule yields_bindp [OF yields_lift [OF e]], rule yields_seqp [OF yields_check [OF ob e']],
        rule yields_catchp, rule yields_bindp [OF c], rule leave)
qed


text \<open>What the events of the read table decide on the good path.\<close>

lemma good_decisions:
  "read_step ReadPhase_AWAIT_BEGIN ReadEvent_BEGIN = Inr (ReadPhase_RECEIVING, ReadAction_CONSUME)"
  "read_step ReadPhase_RECEIVING ReadEvent_DATA = Inr (ReadPhase_RECEIVING, ReadAction_CONSUME)"
  "read_step ReadPhase_RECEIVING ReadEvent_DONE = Inr (ReadPhase_DONE, ReadAction_BARRIER)"
  "read_step ReadPhase_DONE ReadEvent_BARRIER_OK = Inr (ReadPhase_EXITED, ReadAction_COMPLETE)"
  by (simp_all add: read_step_defs)

lemma read_step_decision: "read_step p e = Inr (q, a) \<Longrightarrow> \<exists>d. read_transition p e = Inr d \<and> decision_phase d = q \<and> decision_action d = a"
  by (auto simp: read_step_def result_iffs)

lemma consume_notification_yields:
  assumes d: "read_step (ingest_phase s) e = Inr (q, a)" and a: "a \<noteq> ReadAction_REJECT"
    and m: "yields (at_step h n s)
      (case e of
         ReadEvent_ACK \<Rightarrow> bindp (protocol (parse_ack_notification f)) (\<lambda>ack. lift_result (require_ok_ack ack ''READ''))
       | ReadEvent_BEGIN \<Rightarrow> consume_read_begin ask start count f
       | ReadEvent_DATA \<Rightarrow> consume_data ask f
       | ReadEvent_DONE \<Rightarrow>
           bindp (protocol (parse_done_notification f)) (\<lambda>d.
           seqp (lift_result (validate_done d (ingest_arena s) start count)) (publish_progress True))
       | _ \<Rightarrow> raise Assertion_Failure) () (some_step h n R)"
    and R: "\<And>t. R t \<Longrightarrow> R' (t\<lparr>ingest_phase := q\<rparr>)"
  shows "yields (at_step h n s) (consume_notification ask start count f e) (a = ReadAction_BARRIER) (some_step h n R')"
proof -
  obtain d' where d': "read_transition (ingest_phase s) e = Inr d'" "decision_phase d' = q" "decision_action d' = a"
    using read_step_decision [OF d] by blast
  have fin: "yields (some_step h n R) (seqp (update_state (\<lambda>s. s\<lparr>ingest_phase := q\<rparr>)) (ret (a = ReadAction_BARRIER)))
      (a = ReadAction_BARRIER) (some_step h n R')"
    by (rule yields_seqp [OF some_step_update yields_ret]) (rule R)
  show ?thesis
    unfolding consume_notification_def
    by (rule yields_bindp [OF yields_get_state], rule yields_bindp [OF yields_lift [where x = d']], simp add: d'(1),
        unfold d'(2,3), rule yields_seqp [OF yields_assertp [OF a]], rule yields_seqp [OF m fin])
qed

section \<open>The whole leg\<close>

text \<open>The leg is open in the arena, which holds a prefix of the stream \<open>dev\<close>, and \<open>rest\<close> bytes are missing.\<close>

definition receiving :: "bytes \<Rightarrow> int \<Rightarrow> int \<Rightarrow> nat \<Rightarrow> ingest_state \<Rightarrow> bool" where
  "receiving dev start count rest s \<longleftrightarrow>
     holds_prefix_of dev (ingest_arena s) \<and> leg_start (ingest_arena s) = nat start
     \<and> leg_total_bytes (ingest_arena s) = nat count * RECORD_SIZE
     \<and> leg_bytes (ingest_arena s) + rest = leg_total_bytes (ingest_arena s)"

text \<open>The stream from \<open>pos\<close> on, cut into DATA notifications of the given lengths.\<close>

fun data_frames :: "bytes \<Rightarrow> nat \<Rightarrow> nat list \<Rightarrow> bytes list" where
  "data_frames dev pos [] = []"
| "data_frames dev pos (n # ns) = (NOTIFY_DATA # slice_of pos (pos + n) dev) # data_frames dev (pos + n) ns"

lemma length_data_frames [simp]: "length (data_frames dev pos ns) = length ns"
  by (induction ns arbitrary: pos) simp_all

lemma frame_events:
  "bind_result (opcode_of (read_begin_frame b)) read_event_for_opcode = Inr ReadEvent_BEGIN"
  "bind_result (opcode_of (NOTIFY_DATA # f)) read_event_for_opcode = Inr ReadEvent_DATA"
  "bind_result (opcode_of (done_frame d)) read_event_for_opcode = Inr ReadEvent_DONE"
  by (simp_all add: opcode_of_def read_event_for_opcode_def read_begin_frame_def done_frame_def opcode_defs)

lemma drop_Cons_nth: "drop n xs = y # ys \<Longrightarrow> n < length xs \<and> xs ! n = y \<and> drop (Suc n) xs = ys"
  by (metis drop_Suc drop_all linorder_not_less list.distinct(1) list.sel(3) nth_via_drop tl_drop)

lemma data_step_yields:
  assumes ob: "obliges ask h frames" and fr: "drop n frames = (NOTIFY_DATA # slice_of (absolute_start (ingest_arena s)) (absolute_start (ingest_arena s) + k) dev) # rest"
    and rc: "receiving dev start count (k + m) s" and ph: "ingest_phase s = ReadPhase_RECEIVING"
  shows "yields (at_step h n s) (ingest_one ask start count) False
    (some_step h (Suc n) (\<lambda>t. receiving dev start count m t \<and> ingest_phase t = ReadPhase_RECEIVING
      \<and> absolute_start (ingest_arena t) = absolute_start (ingest_arena s) + k))"
proof -
  let ?a = "ingest_arena s"
  let ?f = "slice_of (absolute_start ?a) (absolute_start ?a + k) dev"
  have hold: "holds_prefix_of dev ?a" and fit: "leg_bytes ?a + k \<le> leg_total_bytes ?a" using rc by (auto simp: receiving_def)
  then have inv: "arena_inv ?a" by (simp add: holds_prefix_of_def)
  obtain b where ap: "append_fragment ?a ?f = Inr b" and b: "leg_bytes b = leg_bytes ?a + k" "holds_prefix_of dev b"
    using device_notify_accepted [OF hold fit] by (auto simp: result_iffs)
  have frame: "leg_start b = leg_start ?a" "leg_total_bytes b = leg_total_bytes ?a" "arena_snapshot b = arena_snapshot ?a"
    using ap by (auto simp: append_fragment_exact [OF inv])
  have post: "receiving dev start count m (t\<lparr>ingest_phase := ReadPhase_RECEIVING\<rparr>) \<and> absolute_start (ingest_arena t) = absolute_start ?a + k"
    if "(\<exists>k. ingest_arena t = b\<lparr>submitted_bytes := k\<rparr>) \<and> arena_inv (ingest_arena t)" for t
    using that rc b frame by (auto simp: receiving_def holds_prefix_of_def received_prefix_def absolute_start_def)
  note at = drop_Cons_nth [OF fr]
  have "yields (at_step h (Suc n) s) (consume_notification ask start count (frames ! n) ReadEvent_DATA) (ReadAction_CONSUME = ReadAction_BARRIER)
     (some_step h (Suc n) (\<lambda>t. receiving dev start count m t \<and> ingest_phase t = ReadPhase_RECEIVING
      \<and> absolute_start (ingest_arena t) = absolute_start ?a + k))"
    by (rule consume_notification_yields [where q = ReadPhase_RECEIVING and a = ReadAction_CONSUME], simp add: ph good_decisions, simp, simp,
        rule consume_data_yields [OF ob inv _ ap], simp add: at) (use post in \<open>auto simp: receiving_def\<close>)
  then show ?thesis
    by (intro ingest_one_yields [OF ob]) (simp_all add: at frame_events)
qed

lemma done_step_yields:
  assumes ob: "obliges ask h frames" and fr: "drop n frames = done_frame \<lparr>done_status = 0, done_next_sequence = start + count\<rparr> # rest"
    and rc: "receiving dev start count 0 s" and ph: "ingest_phase s = ReadPhase_RECEIVING"
    and fits: "fits 8 (start + count)" "0 < count"
  shows "yields (at_step h n s) (ingest_one ask start count) True
    (some_step h (Suc n) (\<lambda>t. receiving dev start count 0 t \<and> ingest_phase t = ReadPhase_DONE))"
proof -
  let ?d = "\<lparr>done_status = 0, done_next_sequence = start + count\<rparr>"
  have pd: "parse_done_notification (done_frame ?d) = Inr ?d" using fits by (simp add: parse_done_exact fits_def)
  have vd: "validate_done ?d (ingest_arena s) start count = Inr ()"
    using rc fits by (auto simp: receiving_def validate_done_def done_is_ok_def leg_complete_records_def holds_prefix_of_def arena_inv_def)
  have "yields (at_step h (Suc n) s) (bindp (protocol (parse_done_notification (done_frame ?d))) (\<lambda>d.
           seqp (lift_result (validate_done d (ingest_arena s) start count)) (publish_progress True))) ()
     (some_step h (Suc n) (receiving dev start count 0))"
    unfolding protocol_def publish_progress_def
    by (rule yields_bindp [OF yields_lift [where x = ?d]], simp add: pd, rule yields_seqp [OF yields_lift [OF vd]],
        rule yields_some_step) (use rc in \<open>simp add: receiving_def Let_def\<close>)
  then have "yields (at_step h (Suc n) s) (consume_notification ask start count (done_frame ?d) ReadEvent_DONE) (ReadAction_BARRIER = ReadAction_BARRIER)
     (some_step h (Suc n) (\<lambda>t. receiving dev start count 0 t \<and> ingest_phase t = ReadPhase_DONE))"
    by (rule_tac consume_notification_yields [where q = ReadPhase_DONE and a = ReadAction_BARRIER and R = "receiving dev start count 0"])
      (simp_all add: ph good_decisions receiving_def)
  then show ?thesis using drop_Cons_nth [OF fr] by (intro ingest_one_yields [OF ob]) (simp_all add: frame_events)
qed

lemma ingest_loop_yields:
  assumes ob: "obliges ask h frames" and fits: "fits 8 (start + count)" "0 < count"
  shows "drop n frames = data_frames dev (absolute_start (ingest_arena s)) ns @ [done_frame \<lparr>done_status = 0, done_next_sequence = start + count\<rparr>] \<Longrightarrow>
    receiving dev start count (sum_list ns) s \<Longrightarrow> ingest_phase s = ReadPhase_RECEIVING \<Longrightarrow> length ns < fuel \<Longrightarrow>
    yields (at_step h n s) (ingest_loop ask fuel start count) ()
      (some_step h (Suc (n + length ns)) (\<lambda>t. receiving dev start count 0 t \<and> ingest_phase t = ReadPhase_DONE))"
proof (induction ns arbitrary: n s fuel)
  case Nil
  let ?F = "\<lambda>t. receiving dev start count 0 t \<and> ingest_phase t = ReadPhase_DONE"
  obtain k where k: "fuel = Suc k" using Nil.prems by (cases fuel) auto
  show ?case unfolding k ingest_loop.simps
    by (rule yields_bindp [where R = "some_step h (Suc n) ?F"], rule done_step_yields [OF ob _ _ _ fits])
      (use Nil.prems in simp_all, rule yields_ret)
next
  case (Cons m ns)
  then obtain k where k: "fuel = Suc k" by (cases fuel) auto
  let ?R = "\<lambda>t. receiving dev start count (sum_list ns) t \<and> ingest_phase t = ReadPhase_RECEIVING \<and> absolute_start (ingest_arena t) = absolute_start (ingest_arena s) + m"
  have rest: "drop (Suc n) frames = data_frames dev (absolute_start (ingest_arena s) + m) ns @ [done_frame \<lparr>done_status = 0, done_next_sequence = start + count\<rparr>]"
    using drop_Cons_nth [of n frames] Cons.prems(1) by simp
  have "yields (some_step h (Suc n) ?R) (ingest_loop ask k start count) ()
      (some_step h (Suc (Suc n + length ns)) (\<lambda>t. receiving dev start count 0 t \<and> ingest_phase t = ReadPhase_DONE))"
    by (rule yields_cases, rule Cons.IH) (use rest Cons.prems(4) k in auto)
  then show ?case unfolding k ingest_loop.simps
    by (rule_tac yields_bindp [OF data_step_yields [OF ob, where k = m and m = "sum_list ns"]]) (use Cons.prems in simp_all)
qed


definition leg_frames :: "bytes \<Rightarrow> nat \<Rightarrow> int \<Rightarrow> int \<Rightarrow> nat list \<Rightarrow> bytes list" where
  "leg_frames dev pos start count ns =
     read_begin_frame \<lparr>transfer_start_sequence = start, begin_packet_count = count\<rparr> # data_frames dev pos ns
     @ [done_frame \<lparr>done_status = 0, done_next_sequence = start + count\<rparr>]"

lemma begin_step_yields:
  assumes ob: "obliges ask h frames" and fr: "drop n frames = read_begin_frame \<lparr>transfer_start_sequence = start, begin_packet_count = count\<rparr> # rest"
    and ph: "ingest_phase s = ReadPhase_AWAIT_BEGIN" and fits: "fits 8 start" "fits 4 count"
  shows "yields (at_step h n s) (ingest_one ask start count) False
    (some_step h (Suc n) (\<lambda>t. t = s\<lparr>read_begun := True, ingest_phase := ReadPhase_RECEIVING\<rparr>))"
proof -
  let ?b = "\<lparr>transfer_start_sequence = start, begin_packet_count = count\<rparr>"
  have pb: "parse_read_begin_notification (read_begin_frame ?b) = Inr ?b" using fits by (simp add: parse_read_begin_exact)
  have "yields (at_step h (Suc n) s) (consume_read_begin ask start count (read_begin_frame ?b)) ()
     (some_step h (Suc n) (\<lambda>t. t = s\<lparr>read_begun := True\<rparr>))"
    unfolding consume_read_begin_def protocol_def
    by (rule yields_bindp [OF yields_lift [where x = ?b]], simp add: pb, rule yields_seqp [OF yields_assertp], simp,
        rule yields_seqp [OF yields_port [OF ob]], simp, rule yields_some_step, rule refl)
  then have "yields (at_step h (Suc n) s) (consume_notification ask start count (read_begin_frame ?b) ReadEvent_BEGIN) (ReadAction_CONSUME = ReadAction_BARRIER)
     (some_step h (Suc n) (\<lambda>t. t = s\<lparr>read_begun := True, ingest_phase := ReadPhase_RECEIVING\<rparr>))"
    by (rule_tac consume_notification_yields [where q = ReadPhase_RECEIVING and a = ReadAction_CONSUME and R = "\<lambda>t. t = s\<lparr>read_begun := True\<rparr>"])
      (simp_all add: ph good_decisions)
  then show ?thesis using drop_Cons_nth [OF fr] by (intro ingest_one_yields [OF ob]) (simp_all add: frame_events)
qed

lemma issue_read_yields:
  assumes ob: "obliges ask h (leg_frames dev (absolute_start (ingest_arena s)) start count ns)"
    and rc: "receiving dev start count (sum_list ns) s" and ph: "ingest_phase s = ReadPhase_AWAIT_BEGIN"
    and fits: "fits 8 start" "fits 8 (start + count)" "fits 4 count" "0 < count" and fuel: "length ns + 2 \<le> fuel"
  shows "yields (at_step h 0 s) (issue_read ask fuel start count) ()
    (some_step h (Suc (Suc (length ns))) (\<lambda>t. receiving dev start count 0 t \<and> ingest_phase t = ReadPhase_DONE))"
proof -
  let ?s = "s\<lparr>read_begun := True, ingest_phase := ReadPhase_RECEIVING\<rparr>" and ?fr = "leg_frames dev (absolute_start (ingest_arena s)) start count ns"
  let ?F = "some_step h (Suc (Suc (length ns))) (\<lambda>t. receiving dev start count 0 t \<and> ingest_phase t = ReadPhase_DONE)"
  obtain k where k: "fuel = Suc k" "length ns < k" using fuel by (cases fuel) auto
  obtain frame where frame: "encode_read_command start (Some count) = Inr frame"
    using fits by (auto simp: encode_read_command_def require_uint_def fits_def)
  have "yields (at_step h 1 ?s) (ingest_loop ask k start count) () ?F"
    using ingest_loop_yields [OF ob fits(2,4), of 1 dev ?s ns k] rc k by (simp add: leg_frames_def receiving_def)
  then have "yields (some_step h 1 (\<lambda>t. t = ?s)) (ingest_loop ask k start count) () ?F" by simp
  then have loop: "yields (at_step h 0 s) (ingest_loop ask fuel start count) () ?F"
    unfolding k(1) ingest_loop.simps
    by (rule_tac yields_bindp [OF begin_step_yields [OF ob _ ph fits(1,3), of 0]]) (simp_all add: leg_frames_def)
  have join: "yields ?F (join_owned ask (ret ())) () ?F"
    by (rule yields_cases, rule yields_post [OF yields_join [OF ob yields_ret]]) blast
  show ?thesis
    unfolding issue_read_def check_stop_def write_control_def ingest_notifications_def protocol_def
    by (rule yields_seqp [OF yields_port [OF ob]], simp, rule yields_bindp [OF yields_lift [where x = frame]], simp add: frame,
        rule yields_seqp [OF yields_port [OF ob]], simp, rule yields_finallyp [OF loop join])
qed

lemma move_read_yields:
  assumes "read_step (ingest_phase s) e = Inr (q, a)"
  shows "yields (at_step h n s) (move_read e a) () (at_step h n (s\<lparr>ingest_phase := q\<rparr>))"
proof -
  obtain d where d: "read_transition (ingest_phase s) e = Inr d" "decision_phase d = q" "decision_action d = a"
    using read_step_decision [OF assms] by blast
  show ?thesis
    unfolding move_read_def
    by (rule yields_bindp [OF yields_get_state], rule yields_bindp [OF yields_lift [where x = d]], simp add: d(1),
        unfold d(2,3), rule yields_seqp [OF yields_assertp [OF refl] yields_update_state])
qed

lemma finish_read_yields:
  assumes ob: "obliges ask h frames" and ph: "ingest_phase s = ReadPhase_DONE"
  shows "yields (at_step h n s) (finish_read ask baselines False) () (at_step h n (s\<lparr>ingest_phase := ReadPhase_EXITED\<rparr>))"
proof -
  have wait: "yields (at_step h n s) (whenp b (join_owned ask (port ask Leg_Await_Begin leg_ok))) () (at_step h n s)" for b
    by (rule yields_whenp, rule yields_join [OF ob yields_port [OF ob]]) simp_all
  have barrier: "yields (at_step h n s) (await_barrier ask) () (at_step h n s)"
    unfolding await_barrier_def
    by (rule yields_bindp [OF yields_get_state yields_seqp [OF wait yields_port [OF ob]]]) simp
  show ?thesis
    unfolding finish_read_def
    by (rule yields_seqp [OF yields_catchp [OF barrier]], rule yields_bindp [OF yields_healthy [OF ob]])
      (simp add: move_read_yields ph good_decisions)
qed

lemma baselines_complete: "completes (at_step h n s) (capture_leg_baselines ask) (\<lambda>_. at_step h n s)"
  unfolding capture_leg_baselines_def
  by (rule completes_yields [OF yields_get_state], rule completes_bindp [OF counts_complete(1)], rule completes_bindp [OF counts_complete(2)],
      rule completes_ret)

lemma leg_result_completes:
  assumes ob: "obliges ask h frames"
  shows "completes (some_step h n (\<lambda>t. receiving dev start count 0 t \<and> ingest_phase t = ReadPhase_DONE))
     (bindp get_state (\<lambda>s.
     seqp (assertp (ingest_phase s = ReadPhase_DONE) (Ring_Transfer_Error ''READ ended without terminal DONE''))
    (seqp (finish_read ask baselines False)
    (bindp (leg_counters ask baselines) (\<lambda>counters.
     bindp get_state (\<lambda>s.
     ret \<lparr>leg_start_sequence = start, leg_next_sequence = start + count, leg_packet_count = count,
          leg_counters_of = counters, leg_progress = latest_progress s\<rparr>))))))
     (\<lambda>r v. leg_next_sequence r = start + count \<and> receiving dev start count 0 (local_state v))"
proof (rule completes_cases, elim conjE)
  fix t assume rc: "receiving dev start count 0 t" and ph: "ingest_phase t = ReadPhase_DONE"
  let ?t = "t\<lparr>ingest_phase := ReadPhase_EXITED\<rparr>"
  have counters: "completes (at_step h n ?t) (leg_counters ask baselines) (\<lambda>_. at_step h n ?t)"
    unfolding leg_counters_def by (rule completes_bindp [OF baselines_complete], rule completes_ret)
  show "completes (at_step h n t) (bindp get_state (\<lambda>s.
     seqp (assertp (ingest_phase s = ReadPhase_DONE) (Ring_Transfer_Error ''READ ended without terminal DONE''))
    (seqp (finish_read ask baselines False)
    (bindp (leg_counters ask baselines) (\<lambda>counters.
     bindp get_state (\<lambda>s.
     ret \<lparr>leg_start_sequence = start, leg_next_sequence = start + count, leg_packet_count = count,
          leg_counters_of = counters, leg_progress = latest_progress s\<rparr>))))))
     (\<lambda>r v. leg_next_sequence r = start + count \<and> receiving dev start count 0 (local_state v))"
    by (rule completes_yields [OF yields_get_state], rule completes_seqp [OF yields_assertp [OF ph]],
        rule completes_seqp [OF finish_read_yields [OF ob ph]], rule completes_bindp [OF counters],
        rule completes_yields [OF yields_get_state])
      (use rc in \<open>simp add: completes_def wp_simps at_step_def receiving_def\<close>)
qed

lemma read_leg_completes:
  assumes hold: "holds_prefix_of dev (ingest_arena s)" and leg: "begin_leg (ingest_arena s) start count = Inr a"
    and fits: "fits 8 (start + count)" "fits 4 count" "0 < timeout" and ns: "sum_list ns = nat count * RECORD_SIZE"
    and ob: "obliges ask h (leg_frames dev (absolute_start a) start count ns)" and fuel: "length ns + 2 \<le> fuel"
  shows "completes (at_step h 0 s) (read_leg ask fuel str start count timeout cleanup)
    (\<lambda>r v. leg_next_sequence r = start + count \<and> receiving dev start count 0 (local_state v))"
proof -
  have pos: "0 \<le> start" "0 < count" using leg by (auto simp: begin_leg_def result_iffs require_arena_uint_def split: if_splits)
  have rs: "record_size (arena_snapshot (ingest_arena s)) = RECORD_SIZE" using hold by (simp add: holds_prefix_of_def arena_inv_def)
  have holda: "holds_prefix_of dev a" using device_step_holds [OF hold, of "SelectLeg start count" a None] leg by simp
  have a: "leg_start a = nat start" "leg_bytes a = 0" "leg_total_bytes a = nat count * RECORD_SIZE"
    using leg rs by (auto simp: begin_leg_def result_iffs require_arena_uint_def split: if_splits)
  let ?s = "fresh_ingest (s\<lparr>ingest_arena := a\<rparr>)"
  have s: "ingest_arena ?s = a" "ingest_phase ?s = ReadPhase_AWAIT_BEGIN" by (simp_all add: fresh_ingest_def)
  have rc: "receiving dev start count (sum_list ns) ?s" using holda a ns by (simp add: receiving_def s)
  have f8: "fits 8 start" using fits(1) pos by (simp add: fits_def)
  have leg': "yields (at_step h 0 s) (begin_arena_leg start count) () (at_step h 0 (s\<lparr>ingest_arena := a\<rparr>))"
    unfolding begin_arena_leg_def arena_step_of_def
    by (rule yields_bindp [OF yields_get_state], rule yields_bindp [OF yields_lift [where x = a] yields_update_state]) (simp add: leg)
  have issue: "yields (at_step h 0 ?s) (issue_read ask fuel start count) ()
    (some_step h (Suc (Suc (length ns))) (\<lambda>t. receiving dev start count 0 t \<and> ingest_phase t = ReadPhase_DONE))"
    by (rule issue_read_yields [OF _ rc s(2) f8 fits(1,2) pos(2) fuel]) (simp add: s ob)
  show ?thesis
    unfolding read_leg_def check_stop_def
    by (rule completes_seqp [OF yields_lift], simp add: require_positive_def pos, rule completes_seqp [OF yields_lift], simp add: require_timeout_def fits,
        rule completes_bindp [OF baselines_complete], rule completes_seqp [OF leg'],
        rule completes_seqp [OF yields_port [OF ob]], simp, rule completes_seqp [OF yields_port [OF ob]], simp,
        rule completes_seqp [OF yields_port [OF ob]], simp, rule completes_seqp [OF yields_port [OF ob]], simp,
        rule completes_seqp [OF yields_update_state], rule completes_seqp [OF yields_catchp [OF issue]], rule leg_result_completes [OF ob])
qed


section \<open>Results\<close>

text \<open>A world that plays the given notifications and never fails.\<close>

definition scripted_ports :: "bytes list \<Rightarrow> leg_ports" where
  "scripted_ports frames h c =
     (case c of
        Leg_Next \<Rightarrow> if takes h < length frames then Leg_Payload (frames ! takes h) else Leg_Raised Timeout_Error
      | Leg_Failure \<Rightarrow> Leg_Failed None
      | _ \<Rightarrow> Leg_Ok)"

lemma scripted_obliges: "obliges (scripted_ports frames) [] frames"
  by (auto simp: obliges_def scripted_ports_def split: leg_call.split)

definition one_record_world :: "(leg_call, leg_answer, ingest_state) world" where
  "one_record_world =
     \<lparr>local_state = \<lparr>ingest_arena = \<lparr>arena_buffer = replicate 444 0,
          arena_snapshot = \<lparr>start_sequence = 7, total_records = 1, record_size = 444\<rparr>, received_bytes = 0, submitted_bytes = 0,
          leg_start = 7, leg_bytes = 0, leg_total_bytes = 444\<rparr>,
        ingest_phase = ReadPhase_EXITED, read_begun = False, latest_progress = None, failure_message = [], failure_cause = None,
        mailbox = empty_mailbox\<rparr>,
      history = []\<rparr>"

lemma one_record_begin: "begin_leg (ingest_arena (local_state one_record_world)) 7 1 = Inr (ingest_arena (local_state one_record_world))"
  by (simp add: one_record_world_def begin_leg_def require_arena_uint_def end_sequence_def next_sequence_def complete_records_def)

lemma one_record_holds: "holds_prefix_of (replicate 444 5) (ingest_arena (local_state one_record_world))"
  by (simp add: one_record_world_def holds_prefix_of_def arena_inv_def RECORD_SIZE_def total_bytes_def absolute_start_def received_prefix_def)

text \<open>
  A leg of one record against a cooperative device that sends it in two notifications.
\<close>

definition one_record_ports :: leg_ports where
  "one_record_ports = scripted_ports (leg_frames (replicate 444 5) (absolute_start (ingest_arena (local_state one_record_world))) 7 1 [200, 244])"

lemma one_record_obliges:
  "obliges one_record_ports (history one_record_world)
     (leg_frames (replicate 444 5) (absolute_start (ingest_arena (local_state one_record_world))) 7 1 [200, 244])"
  unfolding one_record_ports_def by (simp add: one_record_world_def scripted_obliges)

lemma one_record_returns: "\<exists>r v. read_leg one_record_ports 4 (\<lambda>_. []) 7 1 20 None one_record_world = (Inr r, v)"
proof -
  have "completes (at_step (history one_record_world) 0 (local_state one_record_world)) (read_leg one_record_ports 4 (\<lambda>_. []) 7 1 20 None)
      (\<lambda>r v. leg_next_sequence r = 7 + 1 \<and> receiving (replicate 444 5) 7 1 0 (local_state v))"
    by (rule read_leg_completes [OF one_record_holds one_record_begin _ _ _ _ one_record_obliges]) (simp_all add: fits_def RECORD_SIZE_def)
  moreover have "at_step (history one_record_world) 0 (local_state one_record_world) one_record_world" by (simp add: at_step_def takes_def)
  ultimately show ?thesis using completesD by blast
qed

text \<open>
  C13: A READ leg against a cooperative device completes.  Let the arena hold a prefix of the stream \<open>dev\<close> of the snapshot
  and let \<open>read_leg\<close> be called for a range that the arena accepts.  If the device answers with READ_BEGIN, the bytes of
  the range cut into notifications of any lengths \<open>ns\<close>, and DONE, no port raises and the writer does not fail, then
  with fuel for these notifications \<open>read_leg\<close> returns the end of the range, the arena still holds a prefix of the
  stream, and this prefix covers the range.
\<close>

theorem cooperative_leg_completes:
  assumes "holds_prefix_of dev (ingest_arena (local_state w))"
    and "begin_leg (ingest_arena (local_state w)) start count = Inr a"
    and "fits 8 (start + count)" and "fits 4 count" and "0 < timeout"
    and "sum_list ns = nat count * RECORD_SIZE"
    and "obliges ask (history w) (leg_frames dev (absolute_start a) start count ns)"
    and "length ns + 2 \<le> fuel"
  shows "\<exists>r v. read_leg ask fuel str start count timeout cleanup w = (Inr r, v) \<and> leg_next_sequence r = start + count
    \<and> received_prefix (ingest_arena (local_state v)) = take (received_bytes (ingest_arena (local_state v))) dev
    \<and> leg_offset (ingest_arena (local_state v)) + nat count * RECORD_SIZE \<le> received_bytes (ingest_arena (local_state v))"
proof -
  have "at_step (history w) 0 (local_state w) w" by (simp add: at_step_def takes_def)
  from completesD [OF read_leg_completes [OF assms] this]
  obtain r v where rv: "read_leg ask fuel str start count timeout cleanup w = (Inr r, v)" "leg_next_sequence r = start + count"
    and rc: "receiving dev start count 0 (local_state v)" by blast
  have "leg_offset (ingest_arena (local_state v)) + nat count * RECORD_SIZE \<le> received_bytes (ingest_arena (local_state v))"
    using rc leg_position [of "ingest_arena (local_state v)"] by (auto simp: receiving_def holds_prefix_of_def)
  then show ?thesis using rv rc by (auto simp: receiving_def holds_prefix_of_def)
qed

theorem cooperative_leg_completes_witness:
  "\<exists>r v. read_leg one_record_ports 4 (\<lambda>_. []) 7 1 20 None one_record_world = (Inr r, v) \<and> leg_next_sequence r = 8
    \<and> received_prefix (ingest_arena (local_state v)) = take (received_bytes (ingest_arena (local_state v))) (replicate 444 5)"
  using cooperative_leg_completes [OF one_record_holds one_record_begin _ _ _ _ one_record_obliges, of 20 4 "\<lambda>_. []" None]
  by (auto simp: fits_def RECORD_SIZE_def)

text \<open>
  C11: When \<open>read_leg\<close> returns, whatever the device, the writer and the event loop did, it names the requested range; the
  arena holds for that range exactly the bytes of the DATA notifications taken meanwhile, and these are \<open>count\<close> whole
  records; the last notification taken was a DONE with status 0 for the end of the range; the writer's barrier was
  acknowledged after it; and STOP was not sent.
\<close>

theorem read_leg_delivers:
  assumes "arena_inv (ingest_arena (local_state w))"
    and "read_leg ask fuel str start count timeout cleanup w = (Inr r, v)"
  shows "leg_start_sequence r = start \<and> leg_next_sequence r = start + count \<and> leg_packet_count r = count
    \<and> (\<exists>g. history v = history w @ g \<and> leg_settled start count True (ingest_arena (local_state v)) g
         \<and> length (leg_data g) = nat (count * int RECORD_SIZE))"
proof -
  have "leg_idle (history w) start False w" using assms(1) by (simp add: leg_idle_def no_stop_def)
  from deliversD [OF read_leg_outcome this assms(2)] show ?thesis
    using length_leg_span by (fastforce simp: leg_over_def leg_settled_def)
qed

theorem read_leg_delivers_witness:
  "\<exists>r v g. read_leg one_record_ports 4 (\<lambda>_. []) 7 1 20 None one_record_world = (Inr r, v) \<and> leg_packet_count r = 1
     \<and> history v = g \<and> leg_span (ingest_arena (local_state v)) = leg_data g \<and> no_stop g"
proof -
  obtain r v where run: "read_leg one_record_ports 4 (\<lambda>_. []) 7 1 20 None one_record_world = (Inr r, v)"
    using one_record_returns by blast
  have inv: "arena_inv (ingest_arena (local_state one_record_world))" using one_record_holds by (simp add: holds_prefix_of_def)
  from read_leg_delivers [OF inv run]
  have "leg_packet_count r = 1 \<and> leg_settled 7 1 True (ingest_arena (local_state v)) (history v)" by (auto simp: one_record_world_def)
  with run show ?thesis by (auto simp: leg_settled_def)
qed

end
