(* ===== verification/Leg_Stop.thy ===== *)
theory Leg_Stop
  imports Leg_Progress
begin

text \<open>When a READ leg sends STOP: at most once, never if it returns, and exactly once when the stream fails under it.\<close>

section \<open>Counting STOP\<close>

definition stops :: "leg_history \<Rightarrow> nat" where
  "stops g = length (filter (\<lambda>x. fst x = Leg_Control encode_stop_command) g)"

lemma stops_append [simp]: "stops (g @ g') = stops g + stops g'"
  by (simp add: stops_def)

lemma stops_one [simp]: "stops [] = 0" "stops [(c, a)] = (if c = Leg_Control encode_stop_command then 1 else 0)"
  by (simp_all add: stops_def)

text \<open>An error of the stream that the leg answers with STOP, and a history that has met one.\<close>

definition interrupts :: "collect_error \<Rightarrow> bool" where
  "interrupts e \<longleftrightarrow> is_timeout e \<or> is_writer_ingest e \<or> is_cancelled e \<or> is_ingest_failure e"

fun failed_notification :: "leg_call \<times> leg_answer \<Rightarrow> bool" where
  "failed_notification (Leg_Next, Leg_Raised e) = interrupts e"
| "failed_notification _ = False"

definition stream_failed :: "leg_history \<Rightarrow> bool" where
  "stream_failed g \<longleftrightarrow> list_ex failed_notification g"

lemma failed_notification_iff: "failed_notification x \<longleftrightarrow> (\<exists>e. x = (Leg_Next, Leg_Raised e) \<and> interrupts e)"
  by (cases x rule: failed_notification.cases) simp_all

lemma stream_failed_iff: "stream_failed g \<longleftrightarrow> (\<exists>e. (Leg_Next, Leg_Raised e) \<in> set g \<and> interrupts e)"
  by (auto simp: stream_failed_def list_ex_iff failed_notification_iff)

text \<open>Since \<open>h\<close>: \<open>k\<close> STOP commands, and a failed stream only if \<open>b\<close>.\<close>

definition tally :: "leg_history \<Rightarrow> nat \<Rightarrow> bool \<Rightarrow> (leg_call, leg_answer, 's) world \<Rightarrow> bool" where
  "tally h k b v \<longleftrightarrow> (\<exists>g. history v = h @ g \<and> stops g = k \<and> (stream_failed g \<longrightarrow> b))"

lemma tally_port [maintains_intros]:
  "leg_quiet c \<Longrightarrow> maintains (tally h k b) (port ask c r)"
  by (rule maintains_port) (fastforce simp: tally_def stream_failed_iff leg_quiet_def)

lemma tally_update [maintains_intros]: "maintains (tally h k b) (update_state f)"
  by (rule maintains_update_state) (simp add: tally_def)

lemma tally_writer [maintains_intros]:
  "maintains (tally h k b) (writer_failure ask)" "maintains (tally h k b) (writer_high_water ask)" "maintains (tally h k b) (writer_written ask)"
  "maintains (tally h k b) (check_stop ask)"
  by (simp_all add: writer_failure_def writer_high_water_def writer_written_def check_stop_def tally_port)

lemma tally_moves [maintains_intros]:
  "maintains (tally h k b) (set_cause c)" "maintains (tally h k b) finish_mailbox"
  "maintains (tally h k b) (publish_progress t)" "maintains (tally h k b) (move_read e x)"
  unfolding set_cause_def finish_mailbox_def publish_progress_def move_read_def
  by (intro maintains_intros)+

lemma tally_counters [maintains_intros]: "maintains (tally h k b) (leg_counters ask baselines)"
  unfolding leg_counters_def capture_leg_baselines_def by (intro maintains_intros)

lemma tally_terminal [maintains_intros]: "maintains (tally h k b) (terminal_failure ask baselines c)"
  unfolding terminal_failure_def by (intro maintains_intros)

lemma tally_decided [maintains_intros]: "maintains (tally h k b) (move_decided e)"
  unfolding move_decided_def by (intro maintains_intros)

lemma tally_check [maintains_intros]: "maintains (tally h k b) (check_writer ask es)"
  unfolding check_writer_def raise_writer_ingest_def by (intro maintains_intros)

lemma tally_persist [maintains_intros]: "maintains (tally h k b) (persist_interrupted_writer ask)"
  unfolding persist_interrupted_writer_def by (intro maintains_intros) simp_all

lemma tally_settle [maintains_intros]: "maintains (tally h k b) (settle_writer ask c)"
  unfolding settle_writer_def by (intro maintains_intros) simp_all

lemma tally_finish [maintains_intros]: "maintains (tally h k b) (finish_read ask baselines c)"
  unfolding finish_read_def await_barrier_def by (intro maintains_intros) simp_all

section \<open>Interruption\<close>

text \<open>The cleanup timeout of \<open>ReadLegOptions\<close> is absent or positive.\<close>

definition valid_cleanup :: "rat option \<Rightarrow> bool" where
  "valid_cleanup cleanup \<longleftrightarrow> (\<forall>t. cleanup = Some t \<longrightarrow> 0 < t)"

text \<open>The stored failure of a writer does not disappear.\<close>

definition sticky :: "leg_ports \<Rightarrow> bool" where
  "sticky ask \<longleftrightarrow> (\<forall>h g e. ask h Leg_Failure = Leg_Failed (Some e) \<longrightarrow> (\<exists>e'. ask (h @ g) Leg_Failure = Leg_Failed (Some e')))"

lemma tally_stop: "tally h k b w \<Longrightarrow> tally h (Suc k) b (w\<lparr>history := history w @ [(Leg_Control encode_stop_command, a)]\<rparr>)"
  by (force simp: tally_def stream_failed_iff)

lemma stop_sends: "valid_cleanup cleanup \<Longrightarrow> leads (tally h k b) (stop_best_effort ask cleanup) (tally h (Suc k) b)"
  unfolding leads_def stop_best_effort_def write_control_def valid_cleanup_def
  by (auto simp: wp_simps require_timeout_def tally_stop split: sum.split option.split)

lemma latch_sends:
  assumes "valid_cleanup cleanup"
  shows "leads (tally h k b) (latch_cancellation ask (stop_best_effort ask cleanup)) (tally h (Suc k) b)"
proof -
  have "leads (tally h k b) (capture (stop_best_effort ask cleanup)) (tally h (Suc k) b)"
    using stop_sends [OF assms] by (simp add: leads_def wp_simps)
  then have "leads (tally h k b) (join_owned ask (stop_best_effort ask cleanup)) (tally h (Suc k) b)"
    unfolding join_owned_def by (rule leads_then) (intro maintains_intros, simp)
  then show ?thesis
    unfolding latch_cancellation_def
    by (rule leads_catchp [OF leads_then_seqp]) (intro maintains_intros)+
qed

lemma settle_sends:
  "valid_cleanup cleanup \<Longrightarrow> leads (tally h k b) (settle_interruption ask baselines cleanup) (tally h (Suc k) b)"
  unfolding settle_interruption_def by (rule leads_then [OF latch_sends], assumption) (intro maintains_intros)

text \<open>No STOP yet, and the read is open.\<close>

definition failing :: "leg_history \<Rightarrow> bool \<Rightarrow> (leg_call, leg_answer, ingest_state) world \<Rightarrow> bool" where
  "failing h b w \<longleftrightarrow> tally h 0 b w \<and> ingest_phase (local_state w) \<in> {ReadPhase_AWAIT_BEGIN, ReadPhase_RECEIVING}"

lemma open_phase_stops:
  assumes "p \<in> {ReadPhase_AWAIT_BEGIN, ReadPhase_RECEIVING}"
    and "e \<in> {ReadEvent_WRITER_FAILED, ReadEvent_CANCELLED, ReadEvent_READ_FAILED}"
  shows "\<exists>d. read_transition p e = Inr d \<and> decision_action d = ReadAction_STOP \<and> decision_phase d = ReadPhase_STOPPING"
  using assms by (auto simp: read_transition_def read_decision_def)

text \<open>The rest of \<open>interrupt_failed_writer\<close> after its STOP.\<close>

lemma interrupt_failed_sends:
  assumes "valid_cleanup cleanup"
  shows "leads (failing h b) (interrupt_failed_writer ask baselines cleanup) (tally h (Suc 0) b)"
proof -
  have stop: "leads (tally h 0 b) (bindp (latch_cancellation ask (stop_best_effort ask cleanup)) (\<lambda>_. ret ())) (tally h (Suc 0) b)"
    by (rule leads_then [OF latch_sends [OF assms]]) (rule maintains_ret)
  show ?thesis
    unfolding interrupt_failed_writer_def
  proof (rule leads_get_state)
    fix s
    show "leads (\<lambda>w. failing h b w \<and> local_state w = s)
      (bindp (lift_result (case read_transition (ingest_phase s) ReadEvent_WRITER_FAILED of Inl _ \<Rightarrow> Inl Assertion_Failure | Inr d \<Rightarrow> Inr d)) (\<lambda>decision.
       seqp (update_state (\<lambda>s. s\<lparr>ingest_phase := decision_phase decision\<rparr>))
      (seqp (if decision_action decision = ReadAction_STOP
           then bindp (latch_cancellation ask (stop_best_effort ask cleanup)) (\<lambda>_. ret ())
           else assertp (decision_action decision = ReadAction_PROPAGATE) (Runtime_Failure ''writer failure has no READ exit decision''))
      (seqp (whenp (read_begun s)
             (catchp (join_owned ask (port ask Leg_Await_Begin leg_ok)) (\<lambda>error. if error = Still_Running then raise error else ret ())))
      (bindp get_state (\<lambda>s.
       seqp (whenp (ingest_phase s = ReadPhase_STOPPING) (move_read ReadEvent_STOP_SETTLED ReadAction_PROPAGATE))
      (bindp get_state (\<lambda>s.
       seqp (assertp (failure_cause s \<noteq> None) Assertion_Failure)
      (bindp (leg_counters ask baselines) (\<lambda>counters.
       ret (Transfer_Interrupted_Error ''writer failed during READ'' counters (failure_cause s)))))))))))) (tally h (Suc 0) b)"
    proof (rule leads_pure [where F = "ingest_phase s \<in> {ReadPhase_AWAIT_BEGIN, ReadPhase_RECEIVING}"])
      assume "ingest_phase s \<in> {ReadPhase_AWAIT_BEGIN, ReadPhase_RECEIVING}"
      then obtain d where d: "read_transition (ingest_phase s) ReadEvent_WRITER_FAILED = Inr d" "decision_action d = ReadAction_STOP"
        using open_phase_stops by blast
      show ?thesis
        by (rule leads_lift [where x = d], simp add: d, rule leads_update [where P' = "tally h 0 b"], simp add: failing_def tally_def,
            unfold d(2) if_P [OF refl], rule leads_then_seqp [OF stop]) (intro maintains_intros, simp_all)
    qed (auto simp: failing_def)
  qed
qed

lemma wp_move_open:
  assumes "ingest_phase (local_state w) \<in> {ReadPhase_AWAIT_BEGIN, ReadPhase_RECEIVING}" and "e \<in> {ReadEvent_CANCELLED, ReadEvent_READ_FAILED}"
  shows "wp (move_read e ReadAction_STOP) Q E w = Q () (w\<lparr>local_state := local_state w\<lparr>ingest_phase := ReadPhase_STOPPING\<rparr>\<rparr>)"
proof -
  obtain d where "read_transition (ingest_phase (local_state w)) e = Inr d" "decision_action d = ReadAction_STOP" "decision_phase d = ReadPhase_STOPPING"
    using open_phase_stops [OF assms(1), of e] assms(2) by blast
  then show ?thesis by (simp add: move_read_def wp_simps)
qed

lemma failing_quiet: "failing h b w \<Longrightarrow> leg_quiet c \<Longrightarrow> failing h b (w\<lparr>history := history w @ [(c, a)]\<rparr>)"
  using maintainsD [OF tally_port [of c h 0 b "\<lambda>_ _. a" "\<lambda>_. Inr ()"], of w] by (simp add: failing_def wp_simps)

lemma stopping_sends:
  assumes "valid_cleanup cleanup" and "tally h 0 b w" and "ingest_phase (local_state w) = ReadPhase_STOPPING"
  shows "wp (interrupt_leg ask baselines cleanup) (\<lambda>_. tally h (Suc 0) b) (\<lambda>_. tally h (Suc 0) b) w"
  using leadsD [OF settle_sends [OF assms(1), of h 0 b ask baselines] assms(2)] assms(3)
  by (simp add: interrupt_leg_def wp_simps)

lemma leg_failed_total: "\<exists>f. leg_failed a = Inr f"
  by (cases a) simp_all

lemma writer_failure_leads: "(\<And>x. leads (failing h b) (f x) Q) \<Longrightarrow> leads (failing h b) (bindp (writer_failure ask) f) Q"
  unfolding leads_def
proof (intro allI impI)
  fix w assume f: "\<And>x. \<forall>w. failing h b w \<longrightarrow> wp (f x) (\<lambda>_. Q) (\<lambda>_. Q) w" and w: "failing h b w"
  obtain x where "leg_failed (ask (history w) Leg_Failure) = Inr x" using leg_failed_total by blast
  then show "wp (bindp (writer_failure ask) f) (\<lambda>_. Q) (\<lambda>_. Q) w"
    using f failing_quiet [OF w, of Leg_Failure] by (simp add: wp_simps writer_failure_def)
qed

lemma state_leads: "(\<And>s. ingest_phase (u s) = ingest_phase s) \<Longrightarrow> leads (failing h b) n Q \<Longrightarrow> leads (failing h b) (seqp (update_state u) n) Q"
  by (rule leads_update) (simp_all add: failing_def tally_def)

lemma interrupt_sends:
  assumes v: "valid_cleanup cleanup"
  shows "leads (failing h b) (interrupt_leg ask baselines cleanup) (tally h (Suc 0) b)"
proof -
  have failed: "leads (failing h b) (seqp (bindp (writer_failure ask) set_cause) (interrupt_failed_writer ask baselines cleanup)) (tally h (Suc 0) b)"
    unfolding set_cause_def seqp_bindp by (intro writer_failure_leads state_leads interrupt_failed_sends v) simp
  have stop: "leads (failing h b) (seqp (move_read ReadEvent_READ_FAILED ReadAction_STOP) (settle_interruption ask baselines cleanup)) (tally h (Suc 0) b)"
    using settle_sends [OF v, of h 0 b] by (auto simp: leads_def wp_seqp wp_move_open failing_def tally_def)
  have "leads (failing h b) (bindp (writer_failure ask) (\<lambda>failure.
       if decide_read_event [ReadEvent_READ_FAILED] (failure \<noteq> None) = Some ReadEvent_WRITER_FAILED
       then seqp (bindp (writer_failure ask) set_cause) (interrupt_failed_writer ask baselines cleanup)
       else seqp (move_read ReadEvent_READ_FAILED ReadAction_STOP) (settle_interruption ask baselines cleanup))) (tally h (Suc 0) b)"
    by (rule writer_failure_leads) (simp add: failed stop)
  then show ?thesis
    by (auto simp: interrupt_leg_def leads_def wp_simps failing_def)
qed

text \<open>The cancellation handler; a failure seen once is still there at the second look.\<close>

lemma cancelled_sends:
  assumes v: "valid_cleanup cleanup" and st: "sticky ask"
  shows "leads (failing h b) (handle_read_cancelled ask baselines cleanup) (tally h (Suc 0) b)"
  unfolding leads_def
proof (intro allI impI)
  fix w assume w: "failing h b w"
  let ?a = "ask (history w) Leg_Failure"
  let ?w = "w\<lparr>history := history w @ [(Leg_Failure, ?a)]\<rparr>"
  have fw: "failing h b ?w" by (rule failing_quiet [OF w]) simp
  show "wp (handle_read_cancelled ask baselines cleanup) (\<lambda>_. tally h (Suc 0) b) (\<lambda>_. tally h (Suc 0) b) w"
  proof (cases "leg_failed ?a = Inr None")
    case True
    let ?v = "?w\<lparr>local_state := local_state ?w\<lparr>ingest_phase := ReadPhase_STOPPING\<rparr>\<rparr>"
    have "leads (\<lambda>u. u = ?v) (interrupt_leg ask baselines cleanup) (tally h (Suc 0) b)"
    proof -
      have "tally h 0 b ?v" using fw by (simp add: failing_def tally_def)
      then show ?thesis by (auto simp: leads_def intro: stopping_sends [OF v])
    qed
    then have "leads (\<lambda>u. u = ?v) (bindp (interrupt_leg ask baselines cleanup) (\<lambda>interrupted.
        bindp (writer_failure ask) (\<lambda>failure. if failure \<noteq> None then raise interrupted else ret ()))) (tally h (Suc 0) b)"
      by (rule leads_then) (intro maintains_intros)
    then show ?thesis
      using fw True by (auto simp: handle_read_cancelled_def writer_failure_def wp_simps decide_read_event_def read_event_priority_def
          wp_move_open failing_def leads_def)
  next
    case False
    then obtain e where a: "?a = Leg_Failed (Some e)" by (cases ?a rule: leg_failed.cases) auto
    then obtain e' where "ask (history w @ [(Leg_Failure, ?a)]) Leg_Failure = Leg_Failed (Some e')" using st by (fastforce simp: sticky_def)
    moreover have "leads (failing h b) (seqp (set_cause c) (bindp (interrupt_failed_writer ask baselines cleanup) raise)) (tally h (Suc 0) b)" for c
      unfolding set_cause_def by (intro state_leads leads_then [OF interrupt_failed_sends [OF v]] maintains_raise) simp
    ultimately show ?thesis
      using a failing_quiet [OF fw, of Leg_Failure "Leg_Failed (Some e')"]
      by (auto simp: handle_read_cancelled_def writer_failure_def wp_simps decide_read_event_def leads_def)
  qed
qed

lemma handler_sends:
  assumes v: "valid_cleanup cleanup" and st: "sticky ask" and e: "interrupts e"
  shows "leads (failing h b) (leg_handler ask baselines cleanup str e) (tally h (Suc 0) b)"
proof -
  have note_then: "leads (failing h b) (seqp (note_failure msg e) (bindp (interrupt_leg ask baselines cleanup) raise)) (tally h (Suc 0) b)" for msg
    unfolding note_failure_def finish_mailbox_def seqp_assoc
    by (intro state_leads leads_then [OF interrupt_sends [OF v]] maintains_raise) simp_all
  have writer: "leads (failing h b) (seqp finish_mailbox (seqp (set_cause c) (bindp (interrupt_failed_writer ask baselines cleanup) raise))) (tally h (Suc 0) b)" for c
    unfolding finish_mailbox_def set_cause_def
    by (intro state_leads leads_then [OF interrupt_failed_sends [OF v]] maintains_raise) simp_all
  have cancel: "leads (failing h b) (seqp finish_mailbox (seqp (handle_read_cancelled ask baselines cleanup) (raise e))) (tally h (Suc 0) b)"
    unfolding finish_mailbox_def by (intro state_leads leads_then_seqp [OF cancelled_sends [OF v st]] maintains_raise) simp
  show ?thesis
    using e unfolding leg_handler_def interrupts_def
    using note_then writer cancel by (cases e) simp_all
qed

section \<open>At most one STOP\<close>

definition few :: "leg_history \<Rightarrow> bool \<Rightarrow> (leg_call, leg_answer, 's) world \<Rightarrow> bool" where
  "few h b w \<longleftrightarrow> tally h 0 b w \<or> tally h (Suc 0) b w"

lemma few_keeps: "(\<And>k. maintains (tally h k b) m) \<Longrightarrow> maintains (few h b) m"
  unfolding few_def by (rule maintains_disj)

lemma few_intro: "tally h 0 b w \<Longrightarrow> few h b w" "tally h (Suc 0) b w \<Longrightarrow> few h b w"
  by (simp_all add: few_def)

lemma latch_few: "valid_cleanup cleanup \<Longrightarrow> leads (tally h 0 b) (latch_cancellation ask (stop_best_effort ask cleanup)) (few h b)"
  by (rule leads_post [OF latch_sends]) (simp_all add: few_intro)

lemma settle_few: "valid_cleanup cleanup \<Longrightarrow> leads (tally h 0 b) (settle_interruption ask baselines cleanup) (few h b)"
  by (rule leads_post [OF settle_sends]) (simp_all add: few_intro)

lemma interrupt_failed_few:
  assumes v: "valid_cleanup cleanup"
  shows "leads (tally h 0 b) (interrupt_failed_writer ask baselines cleanup) (few h b)"
proof -
  have stop: "leads (tally h 0 b) (if c then bindp (latch_cancellation ask (stop_best_effort ask cleanup)) (\<lambda>_. ret ()) else assertp c' e) (few h b)" for c c' e
    by (intro leads_if leads_then [OF latch_few [OF v]] leads_maintains few_keeps maintains_intros) (rule few_intro)
  show ?thesis
    unfolding interrupt_failed_writer_def
    by (intro leads_step leads_step_seqp leads_then_seqp [OF stop] few_keeps maintains_intros; (rule few_intro | simp)?)
qed

lemma interrupt_few: "valid_cleanup cleanup \<Longrightarrow> leads (tally h 0 b) (interrupt_leg ask baselines cleanup) (few h b)"
  unfolding interrupt_leg_def
  by (intro leads_step leads_step_seqp leads_if settle_few interrupt_failed_few maintains_intros; (rule few_intro | assumption)?)

lemma cancelled_few:
  assumes v: "valid_cleanup cleanup"
  shows "leads (tally h 0 b) (handle_read_cancelled ask baselines cleanup) (few h b)"
proof -
  have failed: "leads (tally h 0 b) (bindp (interrupt_failed_writer ask baselines cleanup) raise :: unit leg) (few h b)"
    by (intro leads_then [OF interrupt_failed_few [OF v]] few_keeps maintains_intros)
  have finish: "leads (tally h 0 b) (join_owned ask (finish_read ask baselines True)) (few h b)"
    by (intro leads_maintains maintains_intros; (rule few_intro | simp)?)
  have stop: "leads (tally h 0 b) (bindp (interrupt_leg ask baselines cleanup) (\<lambda>interrupted.
      bindp (writer_failure ask) (\<lambda>failure. if failure \<noteq> None then raise interrupted else ret ())) :: unit leg) (few h b)"
    by (intro leads_then [OF interrupt_few [OF v]] few_keeps maintains_intros)
  show ?thesis
    unfolding handle_read_cancelled_def
    by (intro leads_step leads_step_seqp leads_if failed finish stop maintains_intros; (rule few_intro | assumption)?)
qed

lemma handler_few:
  assumes v: "valid_cleanup cleanup"
  shows "leads (tally h 0 b) (leg_handler ask baselines cleanup str e) (few h b)"
proof -
  have note_then: "leads (tally h 0 b) (seqp (note_failure msg e) (bindp (interrupt_leg ask baselines cleanup) raise) :: unit leg) (few h b)" for msg
    unfolding note_failure_def
    by (intro leads_step_seqp leads_then [OF interrupt_few [OF v]] few_keeps maintains_intros; (rule few_intro | assumption)?)
  have writer: "leads (tally h 0 b) (seqp finish_mailbox (seqp (set_cause c) (bindp (interrupt_failed_writer ask baselines cleanup) raise)) :: unit leg) (few h b)" for c
    by (intro leads_step_seqp leads_then [OF interrupt_failed_few [OF v]] few_keeps maintains_intros; (rule few_intro | assumption)?)
  have cancel: "leads (tally h 0 b) (seqp finish_mailbox (seqp (handle_read_cancelled ask baselines cleanup) (raise e)) :: unit leg) (few h b)"
    by (rule leads_step_seqp, intro maintains_intros, rule few_intro, assumption, rule leads_then_seqp [OF cancelled_few [OF v]], intro few_keeps maintains_intros)
  have raised: "leads (tally h 0 b) (raise e :: unit leg) (few h b)"
    by (intro leads_maintains maintains_intros) (rule few_intro)
  show ?thesis unfolding leg_handler_def using note_then writer cancel raised by (cases e) simp_all
qed

section \<open>The loop\<close>

definition open_phase :: "(leg_call, leg_answer, ingest_state) world \<Rightarrow> bool" where
  "open_phase w \<longleftrightarrow> ingest_phase (local_state w) \<in> {ReadPhase_AWAIT_BEGIN, ReadPhase_RECEIVING}"

lemma open_port [maintains_intros]: "maintains open_phase (port ask c r)"
  by (rule maintains_port) (simp add: open_phase_def)

lemma open_update [maintains_intros]: "(\<And>s. ingest_phase (f s) = ingest_phase s) \<Longrightarrow> maintains open_phase (update_state f)"
  by (rule maintains_update_state) (simp add: open_phase_def)

lemma open_consume:
  "maintains open_phase (check_writer ask es)" "maintains open_phase (consume_read_begin ask start count f)"
  "maintains open_phase (consume_data ask f)" "maintains open_phase (publish_progress t)"
  unfolding consume_read_begin_def consume_data_def quiet_defs by (intro maintains_intros; simp add: Let_def)+

lemma tally_consume [maintains_intros]:
  "maintains (tally h k b) (consume_read_begin ask start count f)" "maintains (tally h k b) (consume_data ask f)"
  unfolding consume_read_begin_def consume_data_def protocol_def arena_step_of_def by (intro maintains_intros; simp)+

lemma tally_notification [maintains_intros]: "maintains (tally h k b) (consume_notification ask start count f e)"
  unfolding consume_notification_def protocol_def by (intro maintains_intros, cases e; simp; intro maintains_intros)

lemma notification_keeps_open:
  assumes e: "bind_result (opcode_of f) read_event_for_opcode = Inr e"
  shows "delivers open_phase (consume_notification ask start count f e) (\<lambda>terminal w. \<not> terminal \<longrightarrow> open_phase w)"
  unfolding consume_notification_def
proof (rule delivers_bindp [OF delivers_get_state], rule delivers_bindp, rule delivers_lift, rule delivers_seqp, rule delivers_assertp, rule delivers_pure)
  fix s d w
  assume "((open_phase w \<and> local_state w = s) \<and> (case read_transition (ingest_phase s) e of Inl _ \<Rightarrow> Inl Assertion_Failure | Inr d \<Rightarrow> Inr d) = Inr d)
    \<and> decision_action d \<noteq> ReadAction_REJECT"
  then show "decision_action d = ReadAction_BARRIER \<or> decision_phase d \<in> {ReadPhase_AWAIT_BEGIN, ReadPhase_RECEIVING}"
    using notification_event [OF e] by (auto simp: open_phase_def read_transition_def read_decision_def split: sum.splits option.splits)
next
  fix s d
  assume "decision_action d = ReadAction_BARRIER \<or> decision_phase d \<in> {ReadPhase_AWAIT_BEGIN, ReadPhase_RECEIVING}"
  then have "wp (seqp (update_state (\<lambda>s. s\<lparr>ingest_phase := decision_phase d\<rparr>)) (ret (decision_action d = ReadAction_BARRIER)))
      (\<lambda>terminal w. \<not> terminal \<longrightarrow> open_phase w) (\<lambda>_ _. True) w" for w
    by (auto simp: wp_simps open_phase_def)
  then show "delivers P (seqp m (seqp (update_state (\<lambda>s. s\<lparr>ingest_phase := decision_phase d\<rparr>)) (ret (decision_action d = ReadAction_BARRIER))))
      (\<lambda>terminal w. \<not> terminal \<longrightarrow> open_phase w)" for P m
    unfolding delivers_def wp_seqp [of m] by (blast intro: wp_mono [OF wp_True])
qed

text \<open>What an error tells when it leaves the loop.\<close>

definition left_by :: "leg_history \<Rightarrow> collect_error \<Rightarrow> (leg_call, leg_answer, ingest_state) world \<Rightarrow> bool" where
  "left_by h e w \<longleftrightarrow> tally h 0 False w \<or> (failing h True w \<and> interrupts e)"

lemma next_leaves:
  assumes "failing h False w"
  shows "wp (port ask Leg_Next leg_payload) (\<lambda>_. failing h False) (left_by h) w"
proof -
  have ok: "failing h False (w\<lparr>history := history w @ [(Leg_Next, a)]\<rparr>)" if "\<forall>e. a = Leg_Raised e \<longrightarrow> \<not> interrupts e" for a
    using assms that by (force simp: failing_def tally_def stream_failed_iff)
  have bad: "failing h True (w\<lparr>history := history w @ [(Leg_Next, a)]\<rparr>)" for a
    using assms by (force simp: failing_def tally_def)
  show ?thesis
    using ok bad by (cases "ask (history w) Leg_Next") (auto simp: wp_simps left_by_def failing_def)
qed

lemma ingest_one_leaves:
  assumes "failing h False w"
  shows "wp (ingest_one ask start count) (\<lambda>terminal v. if terminal then tally h 0 False v else failing h False v) (left_by h) w"
proof -
  let ?rest = "\<lambda>payload. seqp (check_writer ask [])
    (bindp (lift_result (bind_result (opcode_of payload) read_event_for_opcode)) (\<lambda>event.
     seqp (check_writer ask [event])
       (catchp
         (bindp (consume_notification ask start count payload event) (\<lambda>terminal.
          if terminal then seqp (check_writer ask [event]) (ret True) else ret False))
         (\<lambda>error.
            if is_plain_exception error
            then bindp (writer_failure ask) (\<lambda>failure.
              if failure \<noteq> None \<and> \<not> is_writer_ingest error
              then bindp (writer_failure ask) (\<lambda>again. raise (Writer_Ingest again))
              else raise error)
            else raise error))))"
  have keep: "maintains (tally h 0 False) (?rest f)" for f
    by (intro maintains_intros)
  have leave: "delivers (\<lambda>v. \<not> t \<longrightarrow> open_phase v) (if t then seqp (check_writer ask [e]) (ret True) else ret False) (\<lambda>terminal v. \<not> terminal \<longrightarrow> open_phase v)" for t e
    by (cases t) (auto simp: delivers_def wp_simps intro: wp_mono [OF wp_True])
  have phase: "delivers open_phase (?rest f) (\<lambda>terminal v. \<not> terminal \<longrightarrow> open_phase v)" for f
  proof (rule delivers_seqp [OF delivers_maintains [OF open_consume(1)]], rule delivers_bindp [OF delivers_lift], rule delivers_pure, erule conjunct2)
    fix e assume e: "bind_result (opcode_of f) read_event_for_opcode = Inr e"
    note go = delivers_bindp [OF notification_keeps_open [OF e] leave]
    show "delivers (\<lambda>v. open_phase v \<and> bind_result (opcode_of f) read_event_for_opcode = Inr e)
     (seqp (check_writer ask [e])
       (catchp
         (bindp (consume_notification ask start count f e) (\<lambda>terminal.
          if terminal then seqp (check_writer ask [e]) (ret True) else ret False))
         (\<lambda>error.
            if is_plain_exception error
            then bindp (writer_failure ask) (\<lambda>failure.
              if failure \<noteq> None \<and> \<not> is_writer_ingest error
              then bindp (writer_failure ask) (\<lambda>again. raise (Writer_Ingest again))
              else raise error)
            else raise error))) (\<lambda>terminal v. \<not> terminal \<longrightarrow> open_phase v)"
      by (rule delivers_seqp, rule delivers_pre [OF delivers_maintains [OF open_consume(1)]], erule conjunct1, rule delivers_try [OF go]) (intro diverts_intros)
  qed
  have "wp (?rest f) (\<lambda>terminal v. if terminal then tally h 0 False v else failing h False v) (left_by h) v" if "failing h False v" for f v
    using wp_conj [OF maintainsD [OF keep, of v f] phase [unfolded delivers_def, rule_format, of v f]] that
    by (auto simp: failing_def open_phase_def left_by_def elim!: wp_mono)
  then show ?thesis
    unfolding ingest_one_def wp_bindp by (blast intro: wp_mono [OF next_leaves [OF assms]])
qed

lemma ingest_loop_leaves: "failing h False w \<Longrightarrow> wp (ingest_loop ask fuel start count) (\<lambda>_. tally h 0 False) (left_by h) w"
proof (induction fuel arbitrary: w)
  case 0
  then show ?case by (simp add: wp_simps left_by_def failing_def)
next
  case (Suc n)
  show ?case
    unfolding ingest_loop.simps wp_bindp
    by (rule wp_mono [OF ingest_one_leaves [OF Suc.prems]]) (auto simp: wp_simps Suc.IH split: if_splits)
qed

lemma left_by_join:
  assumes "left_by h e w"
  shows "wp (join_owned ask (ret ())) (\<lambda>_. left_by h e) (left_by h) w"
proof -
  have "left_by h c (w\<lparr>history := history w @ [(Leg_Join, a)]\<rparr>)" if "c = e \<or> is_cancelled c" for c a
    using assms that failing_quiet [of h True w Leg_Join a] maintainsD [OF tally_port [of Leg_Join h 0 False "\<lambda>_ _. a" "\<lambda>_. Inr ()"], of w]
    by (auto simp: left_by_def interrupts_def wp_simps)
  then show ?thesis
    by (cases "ask (history w) Leg_Join") (simp_all add: join_owned_def wp_simps)
qed

lemma issue_read_leaves:
  assumes "failing h False w"
  shows "wp (issue_read ask fuel start count) (\<lambda>_. tally h 0 False) (left_by h) w"
proof -
  have tl: "tally h 0 False v \<Longrightarrow> left_by h e v" for e v by (simp add: left_by_def)
  have loop: "wp (ingest_notifications ask fuel start count) (\<lambda>_. tally h 0 False) (left_by h) v" if v: "failing h False v" for v
    unfolding ingest_notifications_def wp_finallyp
  proof (rule wp_mono [OF ingest_loop_leaves [OF v]])
    fix x and u :: "(leg_call, leg_answer, ingest_state) world" assume "tally h 0 False u"
    then show "wp (join_owned ask (ret ())) (\<lambda>_. tally h 0 False) (left_by h) u"
      by (intro wp_mono [OF maintainsD [where I = "tally h 0 False"]] maintains_intros) (simp_all add: tl)
  qed (rule left_by_join)
  have quiet: "wp (port ask c leg_ok) (\<lambda>_. failing h False) (left_by h) v" if "leg_quiet c" "failing h False v" for c v
    using failing_quiet [OF that(2,1)] by (auto simp: wp_simps left_by_def failing_def split: sum.split)
  have read: "wp (seqp (write_control ask frame) (ingest_notifications ask fuel start count)) (\<lambda>_. tally h 0 False) (left_by h) v"
    if "encode_read_command start (Some count) = Inr frame" "failing h False v" for frame v
    unfolding wp_seqp write_control_def by (rule wp_mono [OF quiet [OF read_frame_quiet [OF that(1)] that(2)]]) (simp_all add: loop)
  have go: "wp (bindp (protocol (encode_read_command start (Some count))) (\<lambda>frame. seqp (write_control ask frame) (ingest_notifications ask fuel start count)))
      (\<lambda>_. tally h 0 False) (left_by h) v" if "failing h False v" for v
    unfolding wp_bindp protocol_def wp_lift_result using read that by (auto simp: left_by_def failing_def split: sum.split)
  show ?thesis
    unfolding issue_read_def check_stop_def wp_seqp [of "port ask Leg_Stop_Check leg_ok"]
    by (rule wp_mono [OF quiet [OF _ assms] go]) simp_all
qed

lemma handler_outcome:
  assumes v: "valid_cleanup cleanup" and st: "sticky ask" and l: "left_by h e w"
  shows "wp (leg_handler ask baselines cleanup str e) (\<lambda>_ _. False) (\<lambda>_ u. few h False u \<or> tally h (Suc 0) True u) w"
proof -
  have "wp (leg_handler ask baselines cleanup str e) (\<lambda>_ u. few h False u \<or> tally h (Suc 0) True u) (\<lambda>_ u. few h False u \<or> tally h (Suc 0) True u) w"
    using l unfolding left_by_def
  proof (elim disjE conjE)
    assume "tally h 0 False w"
    from leadsD [OF handler_few [OF v] this] show ?thesis by (rule wp_mono) simp_all
  next
    assume "failing h True w" and i: "interrupts e"
    from leadsD [OF handler_sends [OF v st i] this(1)] show ?thesis by (rule wp_mono) simp_all
  qed
  from wp_conj [OF this leg_handler_diverts [unfolded diverts_def, rule_format]] show ?thesis by (rule wp_mono) blast+
qed

text \<open>The leg since \<open>h\<close> has sent STOP at most once, and once if the stream failed.\<close>

lemma read_leg_stops:
  assumes v: "valid_cleanup cleanup" and st: "sticky ask" and w: "tally h 0 False w"
  shows "wp (read_leg ask fuel str start count timeout cleanup) (\<lambda>_. tally h 0 False) (\<lambda>_ u. few h False u \<or> tally h (Suc 0) True u) w"
proof -
  let ?E = "\<lambda>_ u. few h False u \<or> tally h (Suc 0) True u"
  have start: "wp (seqp m n) (\<lambda>_. tally h 0 False) ?E u"
    if "maintains (tally h 0 False) m" "tally h 0 False u" "\<And>x. tally h 0 False x \<Longrightarrow> wp n (\<lambda>_. tally h 0 False) ?E x"
    for m :: "unit leg" and n :: "read_leg_result leg" and u
    unfolding wp_seqp by (rule wp_mono [OF maintainsD [OF that(1,2)]], erule that(3), simp add: few_intro)
  have bind: "wp (bindp m f) (\<lambda>_. tally h 0 False) ?E u"
    if "maintains (tally h 0 False) m" "tally h 0 False u" "\<And>y x. tally h 0 False x \<Longrightarrow> wp (f y) (\<lambda>_. tally h 0 False) ?E x"
    for m :: "transfer_counters leg" and f :: "transfer_counters \<Rightarrow> read_leg_result leg" and u
    unfolding wp_bindp by (rule wp_mono [OF maintainsD [OF that(1,2)]], erule that(3), simp add: few_intro)
  have rest: "maintains (tally h 0 False) (bindp get_state (\<lambda>s.
     seqp (assertp (ingest_phase s = ReadPhase_DONE) (Ring_Transfer_Error ''READ ended without terminal DONE''))
    (seqp (finish_read ask baselines False)
    (bindp (leg_counters ask baselines) (\<lambda>counters.
     bindp get_state (\<lambda>s.
     ret \<lparr>leg_start_sequence = start, leg_next_sequence = start + count, leg_packet_count = count,
          leg_counters_of = counters, leg_progress = latest_progress s\<rparr>))))))" for baselines
    by (intro maintains_intros)
  have issue: "wp (seqp (update_state fresh_ingest) (seqp (catchp (issue_read ask fuel start count) (leg_handler ask baselines cleanup str)) n))
      (\<lambda>_. tally h 0 False) ?E u"
    if "maintains (tally h 0 False) n" "tally h 0 False u" for n :: "read_leg_result leg" and u baselines
  proof -
    have "failing h False (u\<lparr>local_state := fresh_ingest (local_state u)\<rparr>)" using that(2) by (simp add: failing_def tally_def fresh_ingest_def)
    from issue_read_leaves [OF this]
    have "wp (issue_read ask fuel start count) (\<lambda>_. wp n (\<lambda>_. tally h 0 False) ?E)
        (\<lambda>e. wp (leg_handler ask baselines cleanup str e) (\<lambda>_. wp n (\<lambda>_. tally h 0 False) ?E) ?E) (u\<lparr>local_state := fresh_ingest (local_state u)\<rparr>)"
    proof (rule wp_mono)
      fix y and x :: "(leg_call, leg_answer, ingest_state) world" assume "tally h 0 False x"
      from maintainsD [OF that(1) this] show "wp n (\<lambda>_. tally h 0 False) ?E x" by (rule wp_mono) (simp_all add: few_def)
    next
      fix e x assume "left_by h e x"
      from handler_outcome [OF v st this] show "wp (leg_handler ask baselines cleanup str e) (\<lambda>_. wp n (\<lambda>_. tally h 0 False) ?E) ?E x" by (rule wp_mono) simp_all
    qed
    then show ?thesis by (simp only: wp_seqp wp_update_state wp_catchp)
  qed
  show ?thesis
    unfolding read_leg_def
    by (rule start, rule maintains_lift, rule w, rule start, rule maintains_lift, assumption,
        rule bind, unfold capture_leg_baselines_def, intro maintains_intros, assumption,
        rule start, unfold begin_arena_leg_def arena_step_of_def, intro maintains_intros, assumption,
        rule start, intro maintains_intros, assumption, rule start, intro maintains_intros, simp, assumption,
        rule start, intro maintains_intros, assumption, rule start, intro maintains_intros, simp, assumption,
        rule issue [OF rest], assumption)
qed


text \<open>A leg against a device that stays silent.\<close>

lemmas run_defs = read_leg_def issue_read_def ingest_notifications_def ingest_one_def begin_arena_leg_def capture_leg_baselines_def
  writer_high_water_def writer_written_def check_stop_def write_control_def arena_step_of_def protocol_def
  require_positive_def require_timeout_def port_def call_def bindp_def seqp_def lift_result_def get_state_def update_state_def
  catchp_def finallyp_def capture_def raise_def ret_def join_owned_def leg_handler_def interrupt_leg_def note_failure_def
  finish_mailbox_def writer_failure_def decide_read_event_def read_event_priority_def move_read_def read_transition_def
  read_decision_def settle_interruption_def latch_cancellation_def stop_best_effort_def settle_writer_def
  persist_interrupted_writer_def leg_counters_def fresh_ingest_def assertp_def whenp_def

lemma silent_stream_fails: "stream_failed (history (snd (read_leg (scripted_ports []) 1 (\<lambda>_. []) 7 1 20 (Some 5) one_record_world)))"
proof -
  have b: "begin_leg (ingest_arena (local_state one_record_world)) 7 1 = Inr (ingest_arena (local_state one_record_world))" by (rule one_record_begin)
  have e: "\<exists>f. encode_read_command 7 (Some 1) = Inr f" by (simp add: encode_read_command_def require_uint_def)
  then obtain f where e: "encode_read_command 7 (Some 1) = Inr f" ..
  have nx: "scripted_ports [] h Leg_Next = Leg_Raised Timeout_Error" for h by (simp add: scripted_ports_def)
  have ok: "scripted_ports [] h c = (if c = Leg_Failure then Leg_Failed None else Leg_Ok)" if "c \<noteq> Leg_Next" for h c using that by (cases c) (simp_all add: scripted_ports_def)
  show ?thesis
    by (simp add: run_defs b e nx ok Let_def stream_failed_def interrupts_def)
qed

text \<open>
  C12: STOP is sent at most once in a READ leg, and not at all in one that returns.  If waiting for a notification ended in a
  timeout, a cancellation, a failure of the writer, a lost connection or a protocol error, it is sent exactly once,
  whatever else fails on the way: the STOP write itself, a second cancellation, the queued READ_BEGIN, the writer's
  interruption.  This holds for a cleanup timeout that is absent or positive and a writer whose stored failure stays.
\<close>

theorem stop_is_sent_once:
  assumes "valid_cleanup cleanup" and "sticky ask"
    and "read_leg ask fuel str start count timeout cleanup w = (res, v)"
  shows "\<exists>g. history v = history w @ g \<and> stops g \<le> 1 \<and> (\<forall>r. res = Inr r \<longrightarrow> stops g = 0) \<and> (stream_failed g \<longrightarrow> stops g = 1)"
proof -
  have "tally (history w) 0 False w" by (simp add: tally_def stream_failed_def)
  from read_leg_stops [OF assms(1,2) this, of fuel str start count timeout] assms(3)
  show ?thesis by (cases res) (fastforce simp: wp_def tally_def few_def)+
qed

theorem stop_is_sent_once_witness:
  "\<exists>g. history (snd (read_leg (scripted_ports []) 1 (\<lambda>_. []) 7 1 20 (Some 5) one_record_world)) = g \<and> stream_failed g \<and> stops g = 1"
proof -
  let ?run = "read_leg (scripted_ports []) 1 (\<lambda>_. []) 7 1 20 (Some 5) one_record_world"
  have run: "?run = (fst ?run, snd ?run)" by simp
  have v: "valid_cleanup (Some 5)" and st: "sticky (scripted_ports [])" by (simp_all add: valid_cleanup_def sticky_def scripted_ports_def)
  have h: "history one_record_world = []" by (simp add: one_record_world_def)
  show ?thesis using stop_is_sent_once [OF v st run] silent_stream_fails unfolding h by auto
qed

end
