(* ===== verification/Leg_Advance.thy ===== *)
theory Leg_Advance
  imports Read_Leg
begin

text \<open>
  The ADVANCE exchange and the INFO exchange: what a caller learns from their result about what the device said.
\<close>

section \<open>ADVANCE\<close>

text \<open>What one notification says about an ADVANCE, written from the wire format.\<close>

definition advance_verdict :: "bytes \<Rightarrow> (collect_error, unit) result" where
  "advance_verdict p =
     (if p = [] then Inl (Ring_Transfer_Error ''received an empty ring notification'')
      else if p = ack_frame \<lparr>ack_status = 0\<rparr> then Inr ()
      else if p = ack_frame \<lparr>ack_status = STATUS_STORAGE_NOT_READY\<rparr> then Inl (Advance_Uncertain_Error ''ADVANCE is temporarily unavailable'')
      else if hd p = NOTIFY_ACK then Inl (Advance_Rejected_Error ''ADVANCE was rejected'')
      else Inl (Advance_Rejected_Error ''unexpected notification while waiting for ADVANCE acknowledgement''))"

text \<open>Errors that a transport or the event loop raises.\<close>

fun transport_error :: "collect_error \<Rightarrow> bool" where
  "transport_error Timeout_Error = True"
| "transport_error (Ring_Transport_Error _) = True"
| "transport_error Ring_Transport_Disconnected = True"
| "transport_error (Connection_Error _) = True"
| "transport_error (OS_Failure _) = True"
| "transport_error Cancelled_Error = True"
| "transport_error Stop_Requested_Error = True"
| "transport_error _ = False"

definition unknown_outcome :: "collect_error \<Rightarrow> collect_error" where
  "unknown_outcome e = (if is_timeout e \<or> is_lost_connection e then Advance_Uncertain_Error ''ADVANCE outcome is unknown'' else e)"

lemma transport_handler: "transport_error e \<Longrightarrow> advance_handler e = unknown_outcome e"
  by (cases e) (simp_all add: advance_handler_def unknown_outcome_def)

text \<open>The part of \<open>advance_leg\<close> after the notification arrived, with its handlers.\<close>

definition advance_reply :: "bytes \<Rightarrow> (collect_error, unit) result" where
  "advance_reply p =
     (case bind_result (opcode_of p) (\<lambda>opcode.
        bind_result (require (opcode = NOTIFY_ACK) (Advance_Rejected_Error ''unexpected notification while waiting for ADVANCE acknowledgement'')) (\<lambda>_.
        bind_result (case parse_ack_notification p of Inl e \<Rightarrow> Inl (Ring_Protocol_Error e) | Inr x \<Rightarrow> Inr x) (\<lambda>ack. require_ok_ack ack ''ADVANCE''))) of
      Inl e \<Rightarrow> Inl (advance_handler e) | Inr u \<Rightarrow> Inr u)"

lemma ack_pair: "parse_ack_notification [NOTIFY_ACK, b] = Inr \<lparr>ack_status = uint b\<rparr>"
  by (simp add: parse_ack_notification_def guard_defs)

lemma ack_other: "length p \<noteq> 2 \<Longrightarrow> \<exists>e. parse_ack_notification p = Inl e"
  by (simp add: parse_ack_notification_def require_exact_length_def)

lemma advance_reply_verdict: "advance_reply p = advance_verdict p"
proof (cases "\<exists>b. p = [NOTIFY_ACK, b]")
  case True
  then obtain b where p: "p = [NOTIFY_ACK, b]" by blast
  have z: "uint b = 0 \<longleftrightarrow> b = 0" by (simp add: unsigned_eq_0_iff)
  have n: "uint b = 9 \<longleftrightarrow> b = 9" using word_uint_eq_iff [of b 9] by simp
  show ?thesis
    by (auto simp: advance_reply_def advance_verdict_def p ack_pair opcode_of_def require_ok_ack_def require_def ack_is_ok_def
        advance_handler_def STATUS_STORAGE_NOT_READY_def ack_frame_def z n)
next
  case False
  show ?thesis
  proof (cases p)
    case Nil
    then show ?thesis by (simp add: advance_reply_def advance_verdict_def opcode_of_def advance_handler_def)
  next
    case (Cons b ps)
    show ?thesis
    proof (cases "b = NOTIFY_ACK")
      case True
      then have "length p \<noteq> 2" using False Cons by (auto simp: length_Suc_conv numeral_2_eq_2)
      then obtain e where "parse_ack_notification p = Inl e" using ack_other by blast
      then show ?thesis
        using True False Cons by (auto simp: advance_reply_def advance_verdict_def opcode_of_def require_def advance_handler_def ack_frame_def)
    next
      case f: False
      then show ?thesis
        using Cons by (auto simp: advance_reply_def advance_verdict_def opcode_of_def require_def advance_handler_def ack_frame_def)
    qed
  qed
qed

lemma advance_leg_run:
  assumes "0 < timeout" and "ask (history w) Leg_Stop_Check = Leg_Ok" and "encode_advance_command target = Inr frame"
    and "a = ask (history w @ [(Leg_Stop_Check, Leg_Ok)]) (Leg_Control frame)"
    and "h = history w @ [(Leg_Stop_Check, Leg_Ok), (Leg_Control frame, a)]"
  shows "advance_leg ask target timeout w =
    (case leg_ok a of
       Inl e \<Rightarrow> (Inl (advance_handler e), w\<lparr>history := h\<rparr>)
     | Inr _ \<Rightarrow> ((case leg_payload (ask h Leg_Next) of Inl e \<Rightarrow> Inl (advance_handler e) | Inr p \<Rightarrow> advance_reply p),
                w\<lparr>history := h @ [(Leg_Next, ask h Leg_Next)]\<rparr>))"
  using assms
  by (auto simp: advance_leg_def require_timeout_def require_def check_stop_def write_control_def port_def call_def protocol_def
      bindp_def seqp_def lift_result_def catchp_def raise_def ret_def assertp_def advance_reply_def Let_def split: sum.split)

text \<open>
  C16: ADVANCE is confirmed by an acknowledgement with status 0 and by nothing else.  Let the target fit its field and the
  stop check pass.  If writing the command raises, a timeout or a lost connection is reported as an unknown outcome
  and no notification is awaited.  Otherwise the next notification decides: the acknowledgement with status 0 confirms,
  one with the storage-not-ready status leaves the outcome unknown, every other non-empty notification rejects; and a
  timeout or a lost connection while waiting is an unknown outcome.
\<close>

theorem advance_outcome_is_classified:
  assumes t: "0 < timeout" and f: "fits 8 target" and stop: "ask (history w) Leg_Stop_Check = Leg_Ok"
    and errors: "\<forall>h c e. ask h c = Leg_Raised e \<longrightarrow> transport_error e"
    and answers: "\<forall>h. (\<exists>p. ask h Leg_Next = Leg_Payload p) \<or> (\<exists>e. ask h Leg_Next = Leg_Raised e)"
  shows "\<exists>g frame a. encode_advance_command target = Inr frame
    \<and> history (snd (advance_leg ask target timeout w)) = history w @ [(Leg_Stop_Check, Leg_Ok), (Leg_Control frame, a)] @ g
    \<and> (case a of
         Leg_Raised e \<Rightarrow> g = [] \<and> fst (advance_leg ask target timeout w) = Inl (unknown_outcome e)
       | _ \<Rightarrow> (\<exists>p. g = [(Leg_Next, Leg_Payload p)] \<and> fst (advance_leg ask target timeout w) = advance_verdict p)
              \<or> (\<exists>e. g = [(Leg_Next, Leg_Raised e)] \<and> fst (advance_leg ask target timeout w) = Inl (unknown_outcome e)))"
proof -
  obtain frame where frame: "encode_advance_command target = Inr frame"
    using f by (auto simp: encode_advance_command_def require_uint_def fits_def)
  define a where "a = ask (history w @ [(Leg_Stop_Check, Leg_Ok)]) (Leg_Control frame)"
  define h where "h = history w @ [(Leg_Stop_Check, Leg_Ok), (Leg_Control frame, a)]"
  note run = advance_leg_run [OF t stop frame a_def h_def]
  show ?thesis
  proof (cases "\<exists>e. a = Leg_Raised e")
    case True
    then obtain e where e: "a = Leg_Raised e" by blast
    then have "transport_error e" using errors a_def by metis
    then show ?thesis
      using e frame by (intro exI [of _ "[]"] exI [of _ frame] exI [of _ a]) (simp add: run transport_handler h_def)
  next
    case False
    then have ok: "leg_ok a = Inr ()" by (cases a) simp_all
    let ?b = "ask h Leg_Next"
    have "(\<exists>p. [(Leg_Next, ?b)] = [(Leg_Next, Leg_Payload p)] \<and> fst (advance_leg ask target timeout w) = advance_verdict p)
      \<or> (\<exists>e. [(Leg_Next, ?b)] = [(Leg_Next, Leg_Raised e)] \<and> fst (advance_leg ask target timeout w) = Inl (unknown_outcome e))"
      using answers [rule_format, of h] errors by (cases ?b) (auto simp: run ok advance_reply_verdict transport_handler)
    moreover have "history (snd (advance_leg ask target timeout w)) = history w @ [(Leg_Stop_Check, Leg_Ok), (Leg_Control frame, a)] @ [(Leg_Next, ?b)]"
      by (simp add: run ok h_def)
    ultimately show ?thesis
      using False frame by (intro exI [of _ "[(Leg_Next, ?b)]"] exI [of _ frame] exI [of _ a]) (auto split: leg_answer.split)
  qed
qed

definition acknowledging_ports :: leg_ports where
  "acknowledging_ports h c = (if c = Leg_Next then Leg_Payload [NOTIFY_ACK, 0] else Leg_Ok)"

theorem advance_outcome_is_classified_witness:
  "\<forall>s. fst (advance_leg acknowledging_ports 5 1 \<lparr>local_state = s, history = []\<rparr>) = Inr ()"
proof
  fix s :: ingest_state
  let ?w = "\<lparr>local_state = s, history = []\<rparr>"
  let ?r = "advance_leg acknowledging_ports 5 1 ?w"
  have stop: "acknowledging_ports (history ?w) Leg_Stop_Check = Leg_Ok" by (simp add: acknowledging_ports_def)
  have f: "fits 8 5" by (simp add: fits_def)
  have err: "\<forall>h c e. acknowledging_ports h c = Leg_Raised e \<longrightarrow> transport_error e"
    and ans: "\<forall>h. (\<exists>p. acknowledging_ports h Leg_Next = Leg_Payload p) \<or> (\<exists>e. acknowledging_ports h Leg_Next = Leg_Raised e)"
    by (simp_all add: acknowledging_ports_def)
  obtain g frame a where frame: "encode_advance_command 5 = Inr frame"
    and h: "history (snd ?r) = history ?w @ [(Leg_Stop_Check, Leg_Ok), (Leg_Control frame, a)] @ g"
    and r: "case a of Leg_Raised e \<Rightarrow> g = [] \<and> fst ?r = Inl (unknown_outcome e)
       | _ \<Rightarrow> (\<exists>p. g = [(Leg_Next, Leg_Payload p)] \<and> fst ?r = advance_verdict p)
              \<or> (\<exists>e. g = [(Leg_Next, Leg_Raised e)] \<and> fst ?r = Inl (unknown_outcome e))"
    using advance_outcome_is_classified [OF zero_less_one f stop err ans] by blast
  have "history (snd ?r) = [(Leg_Stop_Check, Leg_Ok), (Leg_Control frame, Leg_Ok), (Leg_Next, Leg_Payload [NOTIFY_ACK, 0])]"
    using advance_leg_run [of 1 acknowledging_ports ?w 5 frame] frame stop by (simp add: acknowledging_ports_def)
  with h r show "fst ?r = Inr ()" by (auto simp: advance_verdict_def ack_frame_def)
qed

end
