(* ===== verification/Leg_Bound.thy ===== *)
theory Leg_Bound
  imports Leg_Progress
begin

text \<open>
  The notification loop of a READ leg ends.  Every notification that keeps it running is the one READ_BEGIN, adds bytes
  to a leg of fixed full, or is idle: an acknowledgement or a DATA notification without bytes.
\<close>

section \<open>Idle notifications\<close>

fun idle_notification :: "leg_call \<times> leg_answer \<Rightarrow> bool" where
  "idle_notification (Leg_Next, Leg_Payload (b # f)) = (b = NOTIFY_ACK \<or> b = NOTIFY_DATA \<and> f = [])"
| "idle_notification _ = False"

definition idles :: "leg_history \<Rightarrow> nat" where
  "idles g = length (filter idle_notification g)"

lemma idles_append [simp]: "idles (g @ g') = idles g + idles g'"
  by (simp add: idles_def)

lemma idles_one: "idles [x] = (if idle_notification x then 1 else 0)" "idles [] = 0"
  by (simp_all add: idles_def)

definition phase_weight :: "read_phase \<Rightarrow> nat" where
  "phase_weight p = (if p = ReadPhase_RECEIVING then 1 else 0)"

text \<open>The leg of \<open>full\<close> bytes has \<open>k\<close> bytes in phase \<open>p\<close>, and \<open>m\<close> is paid for by idle notifications, bytes and the phase.\<close>

definition paid :: "leg_history \<Rightarrow> nat \<Rightarrow> nat \<Rightarrow> read_phase \<Rightarrow> nat \<Rightarrow> (leg_call, leg_answer, ingest_state) world \<Rightarrow> bool" where
  "paid h full k p m w \<longleftrightarrow>
     arena_inv (ingest_arena (local_state w)) \<and> leg_total_bytes (ingest_arena (local_state w)) = full
     \<and> leg_bytes (ingest_arena (local_state w)) = k \<and> ingest_phase (local_state w) = p
     \<and> (\<exists>g. history w = h @ g \<and> m \<le> idles g + k + phase_weight p)"

lemma paid_port [maintains_intros]: "maintains (paid h full k p m) (port ask c r)"
proof (rule maintains_port)
  fix w a assume w: "paid h full k p m w"
  then obtain g where g: "history w = h @ g" "m \<le> idles g + k + phase_weight p" by (auto simp: paid_def)
  then have "\<exists>g'. history w @ [(c, a)] = h @ g' \<and> m \<le> idles g' + k + phase_weight p"
    by (intro exI [of _ "g @ [(c, a)]"]) simp
  then show "paid h full k p m (w\<lparr>history := history w @ [(c, a)]\<rparr>)" using w by (simp add: paid_def)
qed

lemma paid_update [maintains_intros]:
  "(\<And>s. ingest_arena (u s) = ingest_arena s \<and> ingest_phase (u s) = ingest_phase s) \<Longrightarrow> maintains (paid h full k p m) (update_state u)"
  by (rule maintains_update_state) (simp add: paid_def)

lemma paid_quiet [maintains_intros]:
  "maintains (paid h full k p m) (check_writer ask es)" "maintains (paid h full k p m) (consume_read_begin ask start count f)"
  "maintains (paid h full k p m) (publish_progress t)"
  unfolding consume_read_begin_def quiet_defs by (intro maintains_intros; simp add: Let_def)+

lemma submit_paid:
  "delivers (\<lambda>w. paid h full k p m w \<and> ingest_arena (local_state w) = b)
     (bindp (arena_step_of (submit_prefix b None)) (\<lambda>(submitted, _).
        seqp (update_state (\<lambda>s. s\<lparr>ingest_arena := submitted\<rparr>)) (port ask (Leg_Publish n t) leg_ok)))
     (\<lambda>_. paid h full k p m)"
proof -
  have "paid h full k p m (w\<lparr>local_state := local_state w\<lparr>ingest_arena := c\<rparr>\<rparr>)"
    if "paid h full k p m w" "submit_prefix (ingest_arena (local_state w)) None = Inr (c, v)" for w c v
    using that submit_prefix_inv [OF _ that(2)] by (auto simp: paid_def submit_prefix_Inr)
  then have "delivers (\<lambda>w. paid h full k p m w \<and> ingest_arena (local_state w) = b) (arena_step_of (submit_prefix b None))
      (\<lambda>x w. paid h full k p m (w\<lparr>local_state := local_state w\<lparr>ingest_arena := fst x\<rparr>\<rparr>))"
    unfolding arena_step_of_def by (rule_tac delivers_post [OF delivers_lift]) (auto split: sum.splits)
  moreover have "delivers (\<lambda>w. paid h full k p m (w\<lparr>local_state := local_state w\<lparr>ingest_arena := fst x\<rparr>\<rparr>))
      (case x of (submitted, _) \<Rightarrow> seqp (update_state (\<lambda>s. s\<lparr>ingest_arena := submitted\<rparr>)) (port ask (Leg_Publish n t) leg_ok)) (\<lambda>_. paid h full k p m)" for x
    by (cases x, simp, rule delivers_seqp [OF delivers_update_state delivers_maintains [OF paid_port]]) simp
  ultimately show ?thesis by (rule delivers_bindp)
qed

lemma consume_data_paid:
  "delivers (paid h full k p m) (consume_data ask (NOTIFY_DATA # f)) (\<lambda>_. paid h full (k + length f) p (m + length f))"
proof -
  let ?Q = "paid h full (k + length f) p (m + length f)"
  have append: "?Q (w\<lparr>local_state := local_state w\<lparr>ingest_arena := b\<rparr>\<rparr>)"
    if w: "paid h full k p m w" and ap: "append_fragment (ingest_arena (local_state w)) f = Inr b" for w b
  proof -
    have inv: "arena_inv (ingest_arena (local_state w))" using w by (simp add: paid_def)
    show ?thesis using w ap append_fragment_inv [OF inv ap] by (auto simp: paid_def append_fragment_exact [OF inv])
  qed
  have high: "delivers (\<lambda>w. ?Q w \<and> ingest_arena (local_state w) = b) (writer_high_water ask) (\<lambda>_ w. ?Q w \<and> ingest_arena (local_state w) = b)" for b
    unfolding writer_high_water_def by (intro delivers_maintains maintains_conj maintains_intros maintains_port) simp
  have submit: "delivers (\<lambda>w. ?Q w \<and> ingest_arena (local_state w) = b)
      (seqp (whenp c (bindp (arena_step_of (submit_prefix b None)) (\<lambda>(submitted, _).
          seqp (update_state (\<lambda>s. s\<lparr>ingest_arena := submitted\<rparr>)) (port ask (Leg_Publish n t) leg_ok))))
        (whenp c' (publish_progress False))) (\<lambda>_. ?Q)" for b c c' n t
  proof (rule delivers_seqp)
    show "delivers (\<lambda>w. ?Q w \<and> ingest_arena (local_state w) = b)
      (whenp c (bindp (arena_step_of (submit_prefix b None)) (\<lambda>(submitted, _).
          seqp (update_state (\<lambda>s. s\<lparr>ingest_arena := submitted\<rparr>)) (port ask (Leg_Publish n t) leg_ok)))) (\<lambda>_. ?Q)"
      unfolding whenp_def by (intro delivers_if submit_paid delivers_pre [OF delivers_ret]) simp
    show "delivers ?Q (whenp c' (publish_progress False)) (\<lambda>_. ?Q)" by (intro delivers_maintains maintains_intros)
  qed
  show ?thesis
    unfolding consume_data_def Let_def
  proof (rule delivers_bindp [OF delivers_get_state], rule delivers_bindp)
    fix s :: ingest_state
    show "delivers (\<lambda>w. paid h full k p m w \<and> local_state w = s) (protocol (parse_data_notification (NOTIFY_DATA # f)))
       (\<lambda>x w. (paid h full k p m w \<and> local_state w = s) \<and> x = f)"
      unfolding protocol_def by (rule delivers_post [OF delivers_lift]) (simp add: parse_data_notification_def require_opcode_def)
  next
    fix s :: ingest_state and x
    let ?rest = "\<lambda>arena. seqp (update_state (\<lambda>s. s\<lparr>ingest_arena := arena\<rparr>))
      (bindp (writer_high_water ask) (\<lambda>high_water.
       seqp (whenp (high_water < int (complete_records arena * RECORD_SIZE) \<or> partial_tail arena \<noteq> [])
         (bindp (arena_step_of (submit_prefix arena None)) (\<lambda>(submitted, _).
          seqp (update_state (\<lambda>s. s\<lparr>ingest_arena := submitted\<rparr>)) (port ask (Leg_Publish (complete_records arena * RECORD_SIZE) (partial_tail arena)) leg_ok))))
       (whenp (complete_records (ingest_arena s) < complete_records arena
          \<and> complete_records arena < total_records (arena_snapshot arena)) (publish_progress False))))"
    show "delivers (\<lambda>w. (paid h full k p m w \<and> local_state w = s) \<and> x = f) (bindp (arena_step_of (append_fragment (ingest_arena s) x)) ?rest) (\<lambda>_. ?Q)"
    proof (rule delivers_bindp)
      show "delivers (\<lambda>w. (paid h full k p m w \<and> local_state w = s) \<and> x = f) (arena_step_of (append_fragment (ingest_arena s) x))
          (\<lambda>b w. ?Q (w\<lparr>local_state := local_state w\<lparr>ingest_arena := b\<rparr>\<rparr>))"
        unfolding arena_step_of_def by (rule delivers_post [OF delivers_lift]) (auto intro: append split: sum.splits)
      show "delivers (\<lambda>w. ?Q (w\<lparr>local_state := local_state w\<lparr>ingest_arena := b\<rparr>\<rparr>)) (?rest b) (\<lambda>_. ?Q)" for b
        by (rule delivers_seqp [OF delivers_update_state [where Q = "\<lambda>_ w. ?Q w \<and> ingest_arena (local_state w) = b"]], simp,
            rule delivers_bindp [OF high submit])
    qed
  qed
qed

section \<open>One notification\<close>

definition paced :: "leg_history \<Rightarrow> nat \<Rightarrow> nat \<Rightarrow> (leg_call, leg_answer, ingest_state) world \<Rightarrow> bool" where
  "paced h full n w \<longleftrightarrow> (\<exists>k p. p \<in> {ReadPhase_AWAIT_BEGIN, ReadPhase_RECEIVING} \<and> paid h full k p n w)"

lemma paid_less: "paid h full k p m w \<Longrightarrow> n \<le> m \<Longrightarrow> paid h full k p n w"
  by (auto simp: paid_def intro: order_trans)

lemma event_paid:
  assumes e: "bind_result (opcode_of f) read_event_for_opcode = Inr e"
  shows "delivers (paid h full k p m)
     (case e of
         ReadEvent_ACK \<Rightarrow> bindp (protocol (parse_ack_notification f)) (\<lambda>ack. lift_result (require_ok_ack ack ''READ''))
       | ReadEvent_BEGIN \<Rightarrow> consume_read_begin ask start count f
       | ReadEvent_DATA \<Rightarrow> consume_data ask f
       | ReadEvent_DONE \<Rightarrow>
           bindp (protocol (parse_done_notification f)) (\<lambda>d.
           seqp (lift_result (validate_done d (ingest_arena s) start count)) (publish_progress True))
       | _ \<Rightarrow> raise Assertion_Failure)
     (\<lambda>_. paid h full (k + length (data_of (Leg_Next, Leg_Payload f))) p (m + length (data_of (Leg_Next, Leg_Payload f))))"
proof -
  let ?d = "data_of (Leg_Next, Leg_Payload f)"
  have ack: "maintains (paid h full k p m) (bindp (protocol (parse_ack_notification f)) (\<lambda>ack. lift_result (require_ok_ack ack ''READ'')))"
    unfolding protocol_def by (intro maintains_intros)
  have fin: "maintains (paid h full k p m) (bindp (protocol (parse_done_notification f)) (\<lambda>d.
           seqp (lift_result (validate_done d (ingest_arena s) start count)) (publish_progress True)))"
    unfolding protocol_def by (intro maintains_intros)
  consider "e = ReadEvent_ACK" "?d = []" | "e = ReadEvent_BEGIN" "?d = []" | "e = ReadEvent_DONE" "?d = []"
    | "e = ReadEvent_DATA" "f = NOTIFY_DATA # ?d" using notification_event [OF e] by (auto split: if_splits)
  then show ?thesis
  proof cases
    case 4
    then have "delivers (paid h full k p m) (consume_data ask f) (\<lambda>_. paid h full (k + length ?d) p (m + length ?d))"
      using consume_data_paid [of h full k p m ask ?d] by simp
    then show ?thesis by (simp add: 4(1))
  qed (simp_all add: delivers_maintains ack fin paid_quiet)
qed

lemma idle_or_data:
  assumes e: "bind_result (opcode_of f) read_event_for_opcode = Inr e" and "e \<noteq> ReadEvent_BEGIN" and "e \<noteq> ReadEvent_DONE"
  shows "1 \<le> idles [(Leg_Next, Leg_Payload f)] + length (data_of (Leg_Next, Leg_Payload f))"
  using assms by (cases f) (auto simp: opcode_of_def read_event_for_opcode_def idles_one result_iffs Suc_le_eq split: if_splits)

lemma consume_notification_paid:
  assumes e: "bind_result (opcode_of f) read_event_for_opcode = Inr e" and p: "p \<in> {ReadPhase_AWAIT_BEGIN, ReadPhase_RECEIVING}"
  shows "delivers (paid h full k p (n + idles [(Leg_Next, Leg_Payload f)])) (consume_notification ask start count f e)
     (\<lambda>terminal w. \<not> terminal \<longrightarrow> paced h full (Suc n) w)"
  unfolding consume_notification_def
proof (rule delivers_bindp [OF delivers_get_state], rule delivers_bindp, rule delivers_lift, rule delivers_seqp, rule delivers_assertp)
  fix s :: ingest_state and d
  let ?i = "idles [(Leg_Next, Leg_Payload f)]" and ?d = "length (data_of (Leg_Next, Leg_Payload f))"
  let ?P = "paid h full k p (n + ?i)"
  let ?D = "(case read_transition (ingest_phase s) e of Inl _ \<Rightarrow> Inl Assertion_Failure | Inr d \<Rightarrow> Inr d) = Inr d"
  let ?Q = "\<lambda>terminal w. \<not> terminal \<longrightarrow> paced h full (Suc n) w"
  let ?go = "\<lambda>m. seqp m (seqp (update_state (\<lambda>s. s\<lparr>ingest_phase := decision_phase d\<rparr>)) (ret (decision_action d = ReadAction_BARRIER)))"
  have "delivers (\<lambda>w. ((?P w \<and> local_state w = s) \<and> ?D) \<and> decision_action d \<noteq> ReadAction_REJECT) (?go m) ?Q"
    if m: "delivers ?P m (\<lambda>_. paid h full (k + ?d) p (n + ?i + ?d))" for m :: "unit leg"
  proof (rule delivers_pure)
    fix w assume "((?P w \<and> local_state w = s) \<and> ?D) \<and> decision_action d \<noteq> ReadAction_REJECT"
    then show "decision_action d = ReadAction_BARRIER \<or> (e \<noteq> ReadEvent_BEGIN \<and> e \<noteq> ReadEvent_DONE \<and> decision_phase d = p)
        \<or> (p = ReadPhase_AWAIT_BEGIN \<and> decision_phase d = ReadPhase_RECEIVING)"
      using notification_event [OF e] p
      by (auto simp: paid_def read_transition_def read_decision_def split: sum.splits option.splits)
  next
    assume d: "decision_action d = ReadAction_BARRIER \<or> (e \<noteq> ReadEvent_BEGIN \<and> e \<noteq> ReadEvent_DONE \<and> decision_phase d = p)
        \<or> (p = ReadPhase_AWAIT_BEGIN \<and> decision_phase d = ReadPhase_RECEIVING)"
    have step: "paced h full (Suc n) (w\<lparr>local_state := local_state w\<lparr>ingest_phase := decision_phase d\<rparr>\<rparr>)"
      if w: "paid h full (k + ?d) p (n + ?i + ?d) w" and b: "decision_action d \<noteq> ReadAction_BARRIER" for w
      using d b
    proof (elim disjE conjE)
      assume "e \<noteq> ReadEvent_BEGIN" "e \<noteq> ReadEvent_DONE" and q: "decision_phase d = p"
      then have "1 \<le> ?i + ?d" by (intro idle_or_data [OF e])
      then have "paid h full (k + ?d) p (Suc n) (w\<lparr>local_state := local_state w\<lparr>ingest_phase := p\<rparr>\<rparr>)"
        using paid_less [OF w, of "Suc n"] by (auto simp: paid_def)
      then show ?thesis using p unfolding paced_def q by blast
    next
      assume q: "p = ReadPhase_AWAIT_BEGIN" "decision_phase d = ReadPhase_RECEIVING"
      have "paid h full (k + ?d) ReadPhase_RECEIVING (Suc n) (w\<lparr>local_state := local_state w\<lparr>ingest_phase := ReadPhase_RECEIVING\<rparr>\<rparr>)"
        using w by (force simp: paid_def phase_weight_def q(1))
      then show ?thesis unfolding paced_def q by blast
    qed simp
    have "delivers (paid h full (k + ?d) p (n + ?i + ?d))
        (seqp (update_state (\<lambda>s. s\<lparr>ingest_phase := decision_phase d\<rparr>)) (ret (decision_action d = ReadAction_BARRIER))) ?Q"
      using step by (auto simp: delivers_def wp_simps)
    then show "delivers (\<lambda>w. ((?P w \<and> local_state w = s) \<and> ?D) \<and> decision_action d \<noteq> ReadAction_REJECT) (?go m) ?Q"
      by (rule delivers_seqp [OF delivers_pre [OF m], rotated]) blast
  qed
  from this [OF event_paid [OF e]]
  show "delivers (\<lambda>w. ((?P w \<and> local_state w = s) \<and> ?D) \<and> decision_action d \<noteq> ReadAction_REJECT)
    (?go (case e of
         ReadEvent_ACK \<Rightarrow> bindp (protocol (parse_ack_notification f)) (\<lambda>ack. lift_result (require_ok_ack ack ''READ''))
       | ReadEvent_BEGIN \<Rightarrow> consume_read_begin ask start count f
       | ReadEvent_DATA \<Rightarrow> consume_data ask f
       | ReadEvent_DONE \<Rightarrow>
           bindp (protocol (parse_done_notification f)) (\<lambda>d.
           seqp (lift_result (validate_done d (ingest_arena s) start count)) (publish_progress True))
       | _ \<Rightarrow> raise Assertion_Failure)) ?Q" .
qed

section \<open>Fuel\<close>

text \<open>A program that does not raise \<open>Still_Running\<close>.\<close>

definition tame :: "'r leg \<Rightarrow> bool" where
  "tame m \<longleftrightarrow> (\<forall>w. wp m (\<lambda>_ _. True) (\<lambda>e _. e \<noteq> Still_Running) w)"

named_theorems tame_intros "programs that do not run out of fuel"

lemma tame_basic [tame_intros]: "tame (ret x)" "tame get_state" "tame (update_state f)"
  by (simp_all add: tame_def wp_simps)

lemma tame_raise [tame_intros]: "e \<noteq> Still_Running \<Longrightarrow> tame (raise e)"
  by (simp add: tame_def wp_simps)

lemma tame_lift [tame_intros]: "r \<noteq> Inl Still_Running \<Longrightarrow> tame (lift_result r)"
  by (auto simp: tame_def wp_simps split: sum.split)

lemma tame_bindp [tame_intros]: "tame m \<Longrightarrow> (\<And>x. tame (f x)) \<Longrightarrow> tame (bindp m f)"
  unfolding tame_def wp_bindp by (blast intro: wp_mono)

lemma tame_seqp [tame_intros]: "tame m \<Longrightarrow> tame n \<Longrightarrow> tame (seqp m n)"
  unfolding seqp_def by (rule tame_bindp)

lemma tame_catchp [tame_intros]: "tame m \<Longrightarrow> (\<And>e. e \<noteq> Still_Running \<Longrightarrow> tame (h e)) \<Longrightarrow> tame (catchp m h)"
  unfolding tame_def wp_catchp by (blast intro: wp_mono)

lemma tame_if [tame_intros]: "(b \<Longrightarrow> tame m) \<Longrightarrow> (\<not> b \<Longrightarrow> tame n) \<Longrightarrow> tame (if b then m else n)"
  by simp

lemma tame_whenp [tame_intros]: "tame m \<Longrightarrow> tame (whenp b m)"
  by (simp add: whenp_def tame_basic)

lemma tame_assertp [tame_intros]: "e \<noteq> Still_Running \<Longrightarrow> tame (assertp b e)"
  by (simp add: assertp_def tame_basic tame_raise)

lemma tame_pair [tame_intros]: "(\<And>a b. x = (a, b) \<Longrightarrow> tame (f a b)) \<Longrightarrow> tame (case x of (a, b) \<Rightarrow> f a b)"
  by (cases x) simp

text \<open>\<open>Still_Running\<close> is not an error that a port raises.\<close>

definition proper_ports :: "leg_ports \<Rightarrow> bool" where
  "proper_ports ask \<longleftrightarrow> (\<forall>h c. ask h c \<noteq> Leg_Raised Still_Running)"

lemma tame_port: "(\<And>a. a \<noteq> Leg_Raised Still_Running \<Longrightarrow> r a \<noteq> Inl Still_Running) \<Longrightarrow> proper_ports ask \<Longrightarrow> tame (port ask c r)"
  by (auto simp: tame_def proper_ports_def wp_simps split: sum.split)

lemma tame_ports [tame_intros]:
  assumes "proper_ports ask"
  shows "tame (port ask c leg_ok)" "tame (port ask c leg_payload)" "tame (port ask c leg_failed)" "tame (port ask c leg_count)"
  by (rule tame_port [OF _ assms], case_tac a, auto)+

lemma tame_parse [tame_intros]: "tame (protocol r)" "tame (arena_step_of a)"
  unfolding protocol_def arena_step_of_def by (rule tame_lift, simp split: sum.split)+

lemma tame_check:
  assumes "proper_ports ask"
  shows "tame (check_writer ask es)"
  unfolding check_writer_def raise_writer_ingest_def writer_failure_def by (intro tame_intros assms) simp_all

lemma tame_event:
  assumes "proper_ports ask"
  shows "tame (consume_notification ask start count f e)"
proof -
  have beg: "tame (consume_read_begin ask start count f)"
    unfolding consume_read_begin_def by (intro tame_intros assms) simp
  have data: "tame (consume_data ask f)"
    unfolding consume_data_def writer_high_water_def publish_progress_def Let_def by (intro tame_intros assms)
  have ack: "tame (bindp (protocol (parse_ack_notification f)) (\<lambda>ack. lift_result (require_ok_ack ack ''READ'')))"
    by (intro tame_intros) (simp add: require_ok_ack_def require_def)
  have fin: "tame (bindp (protocol (parse_done_notification f)) (\<lambda>d. seqp (lift_result (validate_done d a start count)) (publish_progress True)))" for a
    unfolding publish_progress_def by (intro tame_intros) (simp add: validate_done_def)
  show ?thesis
    unfolding consume_notification_def
    by (intro tame_intros, simp split: sum.split, simp, cases e) (simp_all add: beg data ack fin tame_raise)
qed

lemma ingest_one_tame:
  assumes "proper_ports ask"
  shows "tame (ingest_one ask start count)"
  unfolding ingest_one_def writer_failure_def
  by (intro tame_intros tame_check tame_event assms)
    (auto simp: opcode_of_def read_event_for_opcode_def result_iffs split: list.splits if_splits)

lemma paced_next:
  assumes "paced h full n w"
  shows "wp (port ask Leg_Next leg_payload)
    (\<lambda>f v. \<exists>k p. p \<in> {ReadPhase_AWAIT_BEGIN, ReadPhase_RECEIVING} \<and> paid h full k p (n + idles [(Leg_Next, Leg_Payload f)]) v) (\<lambda>_ _. True) w"
proof -
  obtain k p g where p: "p \<in> {ReadPhase_AWAIT_BEGIN, ReadPhase_RECEIVING}" and w: "paid h full k p n w"
    and g: "history w = h @ g" "n \<le> idles g + k + phase_weight p"
    using assms by (auto simp: paced_def paid_def)
  have "paid h full k p (n + idles [(Leg_Next, Leg_Payload f)]) (w\<lparr>history := history w @ [(Leg_Next, Leg_Payload f)]\<rparr>)" for f
    using w g by (auto simp: paid_def intro!: exI [of _ "g @ [(Leg_Next, Leg_Payload f)]"])
  then show ?thesis using p by (cases "ask (history w) Leg_Next") (auto simp: wp_simps)
qed

lemma ingest_one_paced:
  "delivers (paced h full n) (ingest_one ask start count) (\<lambda>terminal w. \<not> terminal \<longrightarrow> paced h full (Suc n) w)"
proof -
  let ?i = "\<lambda>f. idles [(Leg_Next, Leg_Payload f)]"
  let ?P = "\<lambda>f v. \<exists>k p. p \<in> {ReadPhase_AWAIT_BEGIN, ReadPhase_RECEIVING} \<and> paid h full k p (n + ?i f) v"
  let ?Q = "\<lambda>terminal w. \<not> terminal \<longrightarrow> paced h full (Suc n) w"
  have next_one: "delivers (paced h full n) (port ask Leg_Next leg_payload) ?P"
    using paced_next by (simp add: delivers_def)
  have check: "delivers (?P f) (check_writer ask es) (\<lambda>_. ?P f)" for f es
    unfolding delivers_def
  proof (intro allI impI)
    fix w assume "?P f w"
    then obtain k p where p: "p \<in> {ReadPhase_AWAIT_BEGIN, ReadPhase_RECEIVING}" and w: "paid h full k p (n + ?i f) w" by blast
    from maintainsD [OF paid_quiet(1) w] show "wp (check_writer ask es) (\<lambda>_. ?P f) (\<lambda>_ _. True) w"
      by (rule wp_mono) (use p in blast)+
  qed
  have leave: "delivers (?Q t) (if t then seqp (check_writer ask [e]) (ret True) else ret False) ?Q" for t e
    by (cases t) (auto simp: delivers_def wp_simps intro: wp_mono [OF wp_True])
  have consume: "delivers (?P f) (consume_notification ask start count f e) ?Q"
    if "bind_result (opcode_of f) read_event_for_opcode = Inr e" for f e
    using consume_notification_paid [OF that] by (fastforce simp: delivers_def)
  show ?thesis
    unfolding ingest_one_def
  proof (rule delivers_bindp [OF next_one], rule delivers_seqp [OF check], rule delivers_bindp [OF delivers_lift], rule delivers_pure, erule conjunct2)
    fix f e assume e: "bind_result (opcode_of f) read_event_for_opcode = Inr e"
    note go = delivers_bindp [OF consume [OF e] leave]
    show "delivers (\<lambda>w. ?P f w \<and> bind_result (opcode_of f) read_event_for_opcode = Inr e)
       (seqp (check_writer ask [e])
       (catchp
         (bindp (consume_notification ask start count f e) (\<lambda>terminal.
          if terminal then seqp (check_writer ask [e]) (ret True) else ret False))
         (\<lambda>error.
            if is_plain_exception error
            then bindp (writer_failure ask) (\<lambda>failure.
              if failure \<noteq> None \<and> \<not> is_writer_ingest error
              then bindp (writer_failure ask) (\<lambda>again. raise (Writer_Ingest again))
              else raise error)
            else raise error))) ?Q"
      by (rule delivers_seqp, rule delivers_pre [OF check], erule conjunct1, rule delivers_try [OF go]) (intro diverts_intros)
  qed
qed

lemma ingest_loop_fuel:
  assumes pp: "proper_ports ask"
  shows "paced h full n w \<Longrightarrow> wp (ingest_loop ask fuel start count) (\<lambda>_ _. True) (\<lambda>e v. e = Still_Running \<longrightarrow> paced h full (n + fuel) v) w"
proof (induction fuel arbitrary: n w)
  case 0
  then show ?case by (simp add: wp_simps)
next
  case (Suc fuel)
  have "wp (ingest_one ask start count) (\<lambda>t v. (\<not> t \<longrightarrow> paced h full (Suc n) v) \<and> True) (\<lambda>e _. True \<and> e \<noteq> Still_Running) w"
    using Suc.prems ingest_one_paced [of h full n ask start count] ingest_one_tame [OF pp, of start count]
    by (intro wp_conj) (simp_all add: delivers_def tame_def)
  then show ?case
    unfolding ingest_loop.simps wp_bindp
    by (rule wp_mono) (use Suc.IH [of "Suc n"] in \<open>auto simp: wp_simps\<close>)
qed

lemma fuel_spent:
  assumes pp: "proper_ports ask" and inv: "arena_inv (ingest_arena (local_state w))" and ph: "ingest_phase (local_state w) = ReadPhase_AWAIT_BEGIN"
    and run: "ingest_loop ask fuel start count w = (Inl Still_Running, v)"
  shows "fuel \<le> leg_total_bytes (ingest_arena (local_state w)) + 1 + idles (history v)"
proof -
  let ?full = "leg_total_bytes (ingest_arena (local_state w))"
  have "paid (history w) ?full (leg_bytes (ingest_arena (local_state w))) ReadPhase_AWAIT_BEGIN 0 w"
    using inv ph by (simp add: paid_def)
  then have "paced (history w) ?full 0 w" unfolding paced_def by blast
  from ingest_loop_fuel [OF pp this, of fuel start count] have "paced (history w) ?full fuel v"
    using run by (simp add: wp_def)
  then obtain k p g where w: "paid (history w) ?full k p fuel v" and g: "history v = history w @ g" "fuel \<le> idles g + k + phase_weight p"
    by (auto simp: paced_def paid_def)
  have "k \<le> ?full" using w by (auto simp: paid_def arena_inv_def)
  then show ?thesis using g by (auto simp: phase_weight_def split: if_splits)
qed

text \<open>
  C15: The notification loop ends.  Let the loop start on a leg of \<open>leg_total_bytes\<close> bytes that awaits READ_BEGIN, with ports
  that answer every call.  If the device sends at most \<open>B\<close> idle notifications, acknowledgements or DATA without bytes,
  however long the loop runs, then the loop returns or raises within the size of the leg in bytes plus \<open>B\<close> plus two
  notifications.
\<close>

theorem ingest_loop_ends:
  assumes "proper_ports ask" and "arena_inv (ingest_arena (local_state w))" and "ingest_phase (local_state w) = ReadPhase_AWAIT_BEGIN"
    and "\<forall>n. idles (history (snd (ingest_loop ask n start count w))) \<le> B"
    and "leg_total_bytes (ingest_arena (local_state w)) + B + 2 \<le> fuel"
  shows "fst (ingest_loop ask fuel start count w) \<noteq> Inl Still_Running"
proof
  assume "fst (ingest_loop ask fuel start count w) = Inl Still_Running"
  then have "ingest_loop ask fuel start count w = (Inl Still_Running, snd (ingest_loop ask fuel start count w))"
    by (metis prod.collapse)
  from fuel_spent [OF assms(1,2,3) this] show False using assms(4) [rule_format, of fuel] assms(5) by linarith
qed

theorem ingest_loop_ends_witness:
  "fst (ingest_loop (scripted_ports []) 446 7 1 \<lparr>local_state = fresh_ingest (local_state one_record_world), history = []\<rparr>) \<noteq> Inl Still_Running"
proof -
  let ?w = "\<lparr>local_state = fresh_ingest (local_state one_record_world), history = []\<rparr>"
  have pp: "proper_ports (scripted_ports [])" by (simp add: proper_ports_def scripted_ports_def split: leg_call.split)
  have inv: "arena_inv (ingest_arena (local_state ?w))" and ph: "ingest_phase (local_state ?w) = ReadPhase_AWAIT_BEGIN"
    and full: "leg_total_bytes (ingest_arena (local_state ?w)) = 444"
    using one_record_holds by (simp_all add: fresh_ingest_def holds_prefix_of_def) (simp add: one_record_world_def)
  have "idles (history (snd (ingest_loop (scripted_ports []) n 7 1 ?w))) \<le> 0" for n
    by (cases n) (simp_all add: raise_def ingest_one_def bindp_def port_def call_def lift_result_def scripted_ports_def takes_def idles_one Let_def)
  then show ?thesis using ingest_loop_ends [OF pp inv ph, of 7 1 0 446] full by simp
qed

end
