(* ===== verification/Notification_Stream.thy ===== *)
theory Notification_Stream
  imports Prelude "HOL-Library.Sublist"
begin

text \<open>
  The queue between the BLE callback and the consumer of notifications (\<open>ControlNotificationStream\<close> of
  \<open>application/ring_transport.py\<close>).  The callback side is synchronous.  The consumer \<open>__anext__\<close> is cut at its awaits: it
  takes from the queue, or it waits with a task that takes for it, and is resumed or cancelled later; these steps
  interleave with the callback in any order.
\<close>

section \<open>State and operations\<close>

datatype stream_error = Notification_Protocol_Error | Notification_Overflow_Error | Stream_Disconnected_Error

datatype stream_terminal = Terminal_End | Terminal_Error stream_error

text \<open>The consumer: outside \<open>__anext__\<close>, waiting, or waiting with the payload its task \<open>queue_get\<close> has taken.\<close>

datatype consumer = Consumer_Idle | Consumer_Waiting | Consumer_Holding bytes

record notification_stream =
  buffer_bytes :: int
  buffered_bytes :: int
  stream_queue :: "bytes list"
  stream_closed :: bool
  stream_terminal :: "stream_terminal option"
  stream_consumer :: consumer

datatype new_stream_error = Buffer_Budget_Not_Positive

definition new_stream :: "int \<Rightarrow> (new_stream_error, notification_stream) result" where
  "new_stream n =
     (if n < 1 then Inl Buffer_Budget_Not_Positive
      else Inr \<lparr>buffer_bytes = n, buffered_bytes = 0, stream_queue = [], stream_closed = False, stream_terminal = None,
                stream_consumer = Consumer_Idle\<rparr>)"

definition stream_fail :: "notification_stream \<Rightarrow> stream_error \<Rightarrow> notification_stream" where
  "stream_fail s e = s\<lparr>stream_closed := True, stream_terminal := Some (Terminal_Error e)\<rparr>"

definition stream_feed :: "notification_stream \<Rightarrow> bytes \<Rightarrow> notification_stream" where
  "stream_feed s payload =
     (if stream_closed s then s
      else if payload = [] then stream_fail s Notification_Protocol_Error
      else if buffered_bytes s + int (length payload) > buffer_bytes s then stream_fail s Notification_Overflow_Error
      else s\<lparr>stream_queue := stream_queue s @ [payload], buffered_bytes := buffered_bytes s + int (length payload)\<rparr>)"

definition fail_disconnected :: "notification_stream \<Rightarrow> notification_stream" where
  "fail_disconnected s =
     (if stream_closed s then s
      else s\<lparr>stream_closed := True, stream_terminal := Some (Terminal_Error Stream_Disconnected_Error)\<rparr>)"

function discard_pending :: "notification_stream \<Rightarrow> notification_stream" where
  "discard_pending s =
     (case stream_queue s of
        [] \<Rightarrow> s
      | payload # rest \<Rightarrow> discard_pending (s\<lparr>stream_queue := rest, buffered_bytes := buffered_bytes s - int (length payload)\<rparr>))"
  by pat_completeness auto

termination
  by (relation "measure (\<lambda>s. length (stream_queue s))") simp_all

declare discard_pending.simps [simp del]

definition stream_close :: "notification_stream \<Rightarrow> notification_stream" where
  "stream_close s =
     discard_pending (if stream_closed s then s else s\<lparr>stream_closed := True, stream_terminal := Some Terminal_End\<rparr>)"

text \<open>What the consumer gets: a payload, the end of the iteration, an error, or nothing yet.\<close>

datatype stream_output = Out_Payload bytes | Out_End | Out_Error stream_error | Out_Wait | Out_Cancelled | Out_None

text \<open>One turn of the loop of \<open>__anext__\<close> up to its await.\<close>

definition next_turn :: "notification_stream \<Rightarrow> notification_stream \<times> stream_output" where
  "next_turn s =
     (case stream_queue s of
        payload # rest \<Rightarrow>
          (s\<lparr>stream_queue := rest, buffered_bytes := buffered_bytes s - int (length payload), stream_consumer := Consumer_Idle\<rparr>, Out_Payload payload)
      | [] \<Rightarrow>
          (case stream_terminal s of
             Some Terminal_End \<Rightarrow> (s\<lparr>stream_consumer := Consumer_Idle\<rparr>, Out_End)
           | Some (Terminal_Error e) \<Rightarrow> (s\<lparr>stream_consumer := Consumer_Idle\<rparr>, Out_Error e)
           | None \<Rightarrow> (s\<lparr>stream_consumer := Consumer_Waiting\<rparr>, Out_Wait)))"

datatype stream_op =
    Op_Feed bytes | Op_Disconnected | Op_Close
  | Op_Next | Op_Getter | Op_Resume | Op_Cancel

text \<open>
  \<open>Op_Getter\<close>: the task \<open>queue_get\<close> runs.  \<open>Op_Resume\<close>: the wait is over, with the payload of the task or because the
  terminal event is set.  \<open>Op_Cancel\<close>: the wait is cancelled and both tasks are joined; a payload already taken by the
  task is gone, and its bytes stay counted.
\<close>

fun stream_step :: "notification_stream \<Rightarrow> stream_op \<Rightarrow> (unit, notification_stream \<times> stream_output) result" where
  "stream_step s (Op_Feed payload) = Inr (stream_feed s payload, Out_None)"
| "stream_step s Op_Disconnected = Inr (fail_disconnected s, Out_None)"
| "stream_step s Op_Close = Inr (stream_close s, Out_None)"
| "stream_step s Op_Next = (if stream_consumer s = Consumer_Idle then Inr (next_turn s) else Inl ())"
| "stream_step s Op_Getter =
     (case (stream_consumer s, stream_queue s) of
        (Consumer_Waiting, payload # rest) \<Rightarrow> Inr (s\<lparr>stream_queue := rest, stream_consumer := Consumer_Holding payload\<rparr>, Out_None)
      | _ \<Rightarrow> Inl ())"
| "stream_step s Op_Resume =
     (case stream_consumer s of
        Consumer_Holding payload \<Rightarrow>
          Inr (s\<lparr>buffered_bytes := buffered_bytes s - int (length payload), stream_consumer := Consumer_Idle\<rparr>, Out_Payload payload)
      | Consumer_Waiting \<Rightarrow> if stream_terminal s = None then Inl () else Inr (next_turn s)
      | Consumer_Idle \<Rightarrow> Inl ())"
| "stream_step s Op_Cancel =
     (if stream_consumer s = Consumer_Idle then Inl () else Inr (s\<lparr>stream_consumer := Consumer_Idle\<rparr>, Out_Cancelled))"

section \<open>Accounting\<close>

definition bytes_of :: "bytes list \<Rightarrow> int" where
  "bytes_of ps = int (length (concat ps))"

lemma bytes_of_simps [simp]: "bytes_of [] = 0" "bytes_of (p # ps) = int (length p) + bytes_of ps" "bytes_of (ps @ qs) = bytes_of ps + bytes_of qs"
  by (simp_all add: bytes_of_def)

lemma bytes_of_nonneg: "0 \<le> bytes_of ps"
  by (simp add: bytes_of_def)

fun held :: "consumer \<Rightarrow> bytes list" where
  "held (Consumer_Holding payload) = [payload]"
| "held _ = []"

text \<open>The payloads that wait for the consumer, in their order.\<close>

definition in_flight :: "notification_stream \<Rightarrow> bytes list" where
  "in_flight s = held (stream_consumer s) @ stream_queue s"

lemma discard_pending_eq:
  "discard_pending s = s\<lparr>stream_queue := [], buffered_bytes := buffered_bytes s - bytes_of (stream_queue s)\<rparr>"
  by (induction s rule: discard_pending.induct) (subst discard_pending.simps, auto split: list.split)

text \<open>
  The bytes waiting for the consumer are counted, the count stays within the budget, every payload is nonempty, and a
  closed stream has a terminal state.
\<close>

definition stream_inv :: "notification_stream \<Rightarrow> bool" where
  "stream_inv s \<longleftrightarrow>
     bytes_of (in_flight s) \<le> buffered_bytes s \<and> buffered_bytes s \<le> buffer_bytes s
     \<and> [] \<notin> set (in_flight s) \<and> (stream_closed s \<longleftrightarrow> stream_terminal s \<noteq> None)"

lemma next_turn_cases:
  assumes "next_turn s = (t, out)" and "held (stream_consumer s) = []"
  shows "(\<exists>p. out = Out_Payload p \<and> in_flight s = p # in_flight t \<and> buffered_bytes t = buffered_bytes s - int (length p))
      \<or> ((\<forall>p. out \<noteq> Out_Payload p) \<and> in_flight s = [] \<and> in_flight t = [] \<and> buffered_bytes t = buffered_bytes s)"
    and "stream_closed t = stream_closed s \<and> stream_terminal t = stream_terminal s \<and> buffer_bytes t = buffer_bytes s"
  using assms by (auto simp: next_turn_def in_flight_def split: list.splits option.splits stream_terminal.splits)

text \<open>What one step does to the payloads in flight.\<close>

definition accepted :: "notification_stream \<Rightarrow> stream_op \<Rightarrow> bytes list" where
  "accepted s x = (case x of Op_Feed p \<Rightarrow> if stream_queue (stream_feed s p) = stream_queue s then [] else [p] | _ \<Rightarrow> [])"

fun returned :: "stream_output \<Rightarrow> bytes list" where
  "returned (Out_Payload p) = [p]"
| "returned _ = []"

definition lossless :: "stream_op \<Rightarrow> bool" where
  "lossless x \<longleftrightarrow> x \<noteq> Op_Close \<and> x \<noteq> Op_Cancel"

lemma subseq_sides: "subseq xs (xs @ ys)" "subseq ys (xs @ ys)"
  by (simp_all add: subseq_rev_drop_many subseq_drop_many)

lemma step_flow:
  assumes "stream_step s x = Inr (t, out)"
  shows "subseq (returned out @ in_flight t) (in_flight s @ accepted s x)"
    and "lossless x \<Longrightarrow> returned out @ in_flight t = in_flight s @ accepted s x"
proof -
  have turn: "returned o' @ held (stream_consumer u) @ stream_queue u = stream_queue s"
    if "next_turn s = (u, o')" "held (stream_consumer s) = []" for u o'
    using next_turn_cases(1) [OF that] that(2) by (cases o') (auto simp: in_flight_def)
  have exact: "returned out @ in_flight t = in_flight s @ accepted s x" if "lossless x"
    using assms that
    by (cases x) (auto simp: lossless_def accepted_def stream_feed_def stream_fail_def fail_disconnected_def in_flight_def
        split: if_splits consumer.splits list.splits prod.splits intro!: turn)
  then show "lossless x \<Longrightarrow> returned out @ in_flight t = in_flight s @ accepted s x" .
  show "subseq (returned out @ in_flight t) (in_flight s @ accepted s x)"
  proof (cases "lossless x")
    case True
    then show ?thesis using exact by simp
  next
    case False
    then show ?thesis using assms
      by (auto simp: lossless_def accepted_def stream_close_def discard_pending_eq in_flight_def subseq_sides
          split: if_splits)
  qed
qed

section \<open>Sequences of steps\<close>

lemma stream_inv_step:
  assumes inv: "stream_inv s" and st: "stream_step s x = Inr (t, out)"
  shows "stream_inv t"
proof -
  have turn: "stream_inv u" if n: "next_turn s = (u, o')" and h: "held (stream_consumer s) = []" for u o'
    using next_turn_cases(1) [OF n h] next_turn_cases(2) [OF n h] inv by (auto simp: stream_inv_def)
  show ?thesis
  proof (cases x)
    case (Op_Feed p)
    then show ?thesis using inv st by (auto simp: stream_feed_def stream_fail_def stream_inv_def in_flight_def split: if_splits)
  next
    case Op_Close
    then show ?thesis
      using inv st bytes_of_nonneg [of "stream_queue s"]
      by (auto simp: stream_close_def discard_pending_eq stream_inv_def in_flight_def split: if_splits)
  next
    case Op_Next
    then show ?thesis using st turn by (auto split: if_splits)
  next
    case Op_Resume
    then show ?thesis using st turn inv by (auto simp: stream_inv_def in_flight_def split: consumer.splits if_splits)
  qed (use inv st bytes_of_nonneg [of "held (stream_consumer s)"] in \<open>auto simp: fail_disconnected_def stream_inv_def in_flight_def split: if_splits consumer.splits list.splits\<close>)
qed

text \<open>An error, or the end, is handed out only when no accepted payload is left.\<close>

definition stream_licence :: "notification_stream \<Rightarrow> stream_op \<Rightarrow> stream_output \<Rightarrow> bool" where
  "stream_licence s x out \<longleftrightarrow> (out = Out_End \<or> (\<exists>e. out = Out_Error e) \<longrightarrow> in_flight s = [])"

interpretation notifications: guarded_machine stream_step stream_inv stream_licence
proof unfold_locales
  fix s x t out
  assume inv: "stream_inv s" and st: "stream_step s x = Inr (t, out)"
  show "stream_inv t" by (rule stream_inv_step [OF inv st])
  have "in_flight s = []" if "next_turn s = (t, out)" "held (stream_consumer s) = []" "out = Out_End \<or> (\<exists>e. out = Out_Error e)"
    using next_turn_cases(1) [OF that(1,2)] that(3) by auto
  then show "stream_licence s x out"
    using st by (cases x) (auto simp: stream_licence_def split: if_splits consumer.splits list.splits)
qed

fun accepted_all :: "notification_stream \<Rightarrow> stream_op list \<Rightarrow> bytes list" where
  "accepted_all s [] = []"
| "accepted_all s (x # xs) = accepted s x @ (case stream_step s x of Inl _ \<Rightarrow> [] | Inr (t, _) \<Rightarrow> accepted_all t xs)"

lemma run_flow:
  assumes "run stream_step s xs = Inr (t, outs)"
  shows "subseq (concat (map returned outs) @ in_flight t) (in_flight s @ accepted_all s xs)
    \<and> (list_all lossless xs \<longrightarrow> concat (map returned outs) @ in_flight t = in_flight s @ accepted_all s xs)"
  using assms
proof (induction xs arbitrary: s outs)
  case Nil
  then show ?case by simp
next
  case (Cons x xs)
  then obtain u out os where st: "stream_step s x = Inr (u, out)" and run: "run stream_step u xs = Inr (t, os)" and outs: "outs = out # os"
    by (auto simp: run_Cons_Inr simp del: run.simps(2))
  note IH = Cons.IH [OF run]
  have "subseq (returned out @ concat (map returned os) @ in_flight t) (returned out @ in_flight u @ accepted_all u xs)"
    using IH by (simp add: subseq_append')
  also have "subseq ... (in_flight s @ accepted s x @ accepted_all u xs)"
    using list_emb_append_mono [OF step_flow(1) [OF st] subseq_order.order_refl, of "accepted_all u xs"] by simp
  finally have "subseq (concat (map returned outs) @ in_flight t) (in_flight s @ accepted_all s (x # xs))"
    by (simp add: outs st)
  moreover have "concat (map returned outs) @ in_flight t = in_flight s @ accepted_all s (x # xs)" if "list_all lossless (x # xs)"
    using that IH step_flow(2) [OF st] by (simp add: outs st)
  ultimately show ?case by blast
qed

lemma new_stream_facts: "new_stream n = Inr s \<Longrightarrow> stream_inv s \<and> in_flight s = [] \<and> buffer_bytes s = n"
  by (auto simp: new_stream_def stream_inv_def in_flight_def split: if_splits)

lemma step_budget: "stream_step s x = Inr (t, out) \<Longrightarrow> buffer_bytes t = buffer_bytes s"
  by (cases x) (auto simp: stream_feed_def stream_fail_def fail_disconnected_def stream_close_def discard_pending_eq next_turn_def
      split: if_splits consumer.splits list.splits option.splits stream_terminal.splits)

interpretation budget: invariant_machine stream_step "\<lambda>s. buffer_bytes s = n" for n
  by unfold_locales (simp add: step_budget)

text \<open>
  C17: The stream hands out what it accepted, in order.  Whatever the order of callbacks, reads, waits, cancellations and
  closes, the payloads handed to the consumer followed by those in flight are a subsequence of the accepted payloads,
  and the bytes in flight stay within the budget.  A payload can be missing from them only after a cancelled wait, which
  drops the one it had taken, or a close, which drops the rest: in a history without these all of them are there.
  An error or the end of the iteration is handed out only at a moment when nothing is in flight, under every
  interleaving; in a history without cancellation and close every payload accepted before it has been handed out by then.
\<close>

theorem notifications_are_fifo:
  assumes "new_stream n = Inr s0" and "run stream_step s0 xs = Inr (s, outs)"
  shows "subseq (concat (map returned outs) @ in_flight s) (accepted_all s0 xs)
    \<and> (list_all lossless xs \<longrightarrow> concat (map returned outs) @ in_flight s = accepted_all s0 xs)
    \<and> bytes_of (in_flight s) \<le> n
    \<and> (\<forall>i < length outs. outs ! i = Out_End \<or> (\<exists>e. outs ! i = Out_Error e) \<longrightarrow>
          (\<exists>u. run stream_step s0 (take i xs) = Inr (u, take i outs) \<and> in_flight u = [])
          \<and> (list_all lossless (take i xs) \<longrightarrow> concat (map returned (take i outs)) = accepted_all s0 (take i xs)))"
proof -
  note new = new_stream_facts [OF assms(1)]
  have inv: "stream_inv s0" and e: "in_flight s0 = []" and n: "buffer_bytes s0 = n" using new by simp_all
  have "stream_inv s" by (rule notifications.run_inv [OF inv assms(2)])
  moreover have "buffer_bytes s = n" by (rule budget.run_inv [OF n assms(2)])
  ultimately have "bytes_of (in_flight s) \<le> n" by (simp add: stream_inv_def)
  moreover have "(\<exists>u. run stream_step s0 (take i xs) = Inr (u, take i outs) \<and> in_flight u = [])
      \<and> (list_all lossless (take i xs) \<longrightarrow> concat (map returned (take i outs)) = accepted_all s0 (take i xs))"
    if i: "i < length outs" "outs ! i = Out_End \<or> (\<exists>e. outs ! i = Out_Error e)" for i
  proof -
    obtain u where u: "run stream_step s0 (take i xs) = Inr (u, take i outs)" "stream_licence u (xs ! i) (outs ! i)"
      using notifications.run_licensed [OF inv assms(2) i(1)] by blast
    then have "in_flight u = []" using i(2) by (simp add: stream_licence_def)
    then show ?thesis using run_flow [OF u(1)] u(1) e by auto
  qed
  ultimately show ?thesis using run_flow [OF assms(2)] e by simp
qed

theorem notifications_are_fifo_witness:
  "\<exists>s0 s outs. new_stream 3 = Inr s0
     \<and> run stream_step s0 [Op_Next, Op_Feed [1, 2], Op_Getter, Op_Resume, Op_Feed [7], Op_Feed [8, 9], Op_Feed [5], Op_Next, Op_Next, Op_Next]
         = Inr (s, outs)
     \<and> concat (map returned outs) = [[1, 2], [7], [8, 9]] \<and> last outs = Out_Error Notification_Overflow_Error \<and> in_flight s = []"
proof -
  let ?xs = "[Op_Next, Op_Feed [1, 2], Op_Getter, Op_Resume, Op_Feed [7], Op_Feed [8, 9], Op_Feed [5], Op_Next, Op_Next, Op_Next]"
  have "\<exists>s0 s outs. new_stream 3 = Inr s0 \<and> run stream_step s0 ?xs = Inr (s, outs)
     \<and> accepted_all s0 ?xs = [[1, 2], [7], [8, 9]] \<and> last outs = Out_Error Notification_Overflow_Error \<and> in_flight s = []"
    by (simp add: new_stream_def stream_feed_def stream_fail_def next_turn_def accepted_def in_flight_def)
  then obtain s0 s outs where h: "new_stream 3 = Inr s0" "run stream_step s0 ?xs = Inr (s, outs)"
    "accepted_all s0 ?xs = [[1, 2], [7], [8, 9]]" "last outs = Out_Error Notification_Overflow_Error" "in_flight s = []" by blast
  have "concat (map returned outs) = [[1, 2], [7], [8, 9]]"
    using notifications_are_fifo [OF h(1,2)] h(3,5) by (simp add: lossless_def)
  then show ?thesis using h by blast
qed

end
