(* ===== verification/Session_Errors.thy ===== *)
theory Session_Errors
  imports Complex_Main Effects Ring_Protocol
begin

text \<open>
  Exceptions of a physical session and what the lifecycle reads from them (\<open>application/session_lifecycle.py\<close>): retry
  classification along the cause chain, the message shown to the operator, and the retry policy.

  An exception is its class, its text and its explicit cause; subclasses the code does not tell apart share one
  constructor that carries their name.  A chain of causes is finite here, so the guard of the code against a cyclic
  chain never fires.  Seconds are rationals.
\<close>

section \<open>Exceptions\<close>

datatype error_class =
    Ring_Acknowledgement_Class int
  | Transfer_Interrupted_Class | Advance_Uncertain_Class | Storage_Not_Ready_Session_Class
  | Collector_Timeout_Class | Timeout_Class string
  | Notification_Overflow_Class | Transport_Disconnected_Class | Transport_Unavailable_Class | Candidate_Unavailable_Class
  | Transient_Storage_Class | Fatal_Storage_Class
  | Session_Machine_Class string | Visit_Machine_Class string
  | Runtime_Class | Value_Class | Assertion_Class
  | Exception_Class string | Cancelled_Class string | Base_Exception_Class string
  | Out_Of_Fuel_Class

datatype raised = Raised (class_of: error_class) (text_of: string) (cause_of: "raised option")

fun class_name :: "error_class \<Rightarrow> string" where
  "class_name (Ring_Acknowledgement_Class _) = ''RingAcknowledgementError''"
| "class_name Transfer_Interrupted_Class = ''TransferInterruptedError''"
| "class_name Advance_Uncertain_Class = ''AdvanceUncertainError''"
| "class_name Storage_Not_Ready_Session_Class = ''StorageNotReadySessionError''"
| "class_name Collector_Timeout_Class = ''CollectorTimeoutError''"
| "class_name (Timeout_Class n) = n"
| "class_name Notification_Overflow_Class = ''NotificationOverflowError''"
| "class_name Transport_Disconnected_Class = ''RingTransportDisconnectedError''"
| "class_name Transport_Unavailable_Class = ''RingTransportUnavailableError''"
| "class_name Candidate_Unavailable_Class = ''CandidateUnavailableError''"
| "class_name Transient_Storage_Class = ''TransientInternalAudioStorageError''"
| "class_name Fatal_Storage_Class = ''FatalInternalAudioStorageError''"
| "class_name (Session_Machine_Class n) = n"
| "class_name (Visit_Machine_Class n) = n"
| "class_name Runtime_Class = ''RuntimeError''"
| "class_name Value_Class = ''ValueError''"
| "class_name Assertion_Class = ''AssertionError''"
| "class_name (Exception_Class n) = n"
| "class_name (Cancelled_Class n) = n"
| "class_name (Base_Exception_Class n) = n"
| "class_name Out_Of_Fuel_Class = []"

text \<open>The marker of a loop whose fuel is spent; it is not an exception of the program and no handler sees it.\<close>

definition out_of_fuel :: raised where
  "out_of_fuel = Raised Out_Of_Fuel_Class [] None"

text \<open>\<open>isinstance(error, asyncio.CancelledError)\<close>, \<open>Exception\<close> and \<open>FatalInternalAudioStorageError\<close>.\<close>

fun cancelled_class :: "error_class \<Rightarrow> bool" where
  "cancelled_class (Cancelled_Class _) = True" | "cancelled_class _ = False"

fun exception_class :: "error_class \<Rightarrow> bool" where
  "exception_class (Cancelled_Class _) = False"
| "exception_class (Base_Exception_Class _) = False"
| "exception_class Out_Of_Fuel_Class = False"
| "exception_class _ = True"

definition is_cancellation :: "raised \<Rightarrow> bool" where
  "is_cancellation e = cancelled_class (class_of e)"

definition exception_raised :: "raised \<Rightarrow> bool" where
  "exception_raised e = exception_class (class_of e)"

definition is_fatal_storage :: "raised \<Rightarrow> bool" where
  "is_fatal_storage e \<longleftrightarrow> class_of e = Fatal_Storage_Class"

definition is_live :: "raised \<Rightarrow> bool" where
  "is_live e \<longleftrightarrow> class_of e \<noteq> Out_Of_Fuel_Class"

section \<open>Retry classification\<close>

fun storage_not_ready_ack :: "raised \<Rightarrow> raised option" where
  "storage_not_ready_ack (Raised k m c) =
     (case k of
        Ring_Acknowledgement_Class s \<Rightarrow> if s = STATUS_STORAGE_NOT_READY then Some (Raised k m c) else None
      | _ \<Rightarrow>
          if k \<notin> {Transfer_Interrupted_Class, Advance_Uncertain_Class, Storage_Not_Ready_Session_Class} then None
          else case c of None \<Rightarrow> None | Some e \<Rightarrow> storage_not_ready_ack e)"

fun retryable_class :: "error_class \<Rightarrow> bool" where
  "retryable_class Collector_Timeout_Class = True"
| "retryable_class Advance_Uncertain_Class = True"
| "retryable_class Storage_Not_Ready_Session_Class = True"
| "retryable_class Notification_Overflow_Class = True"
| "retryable_class Transport_Disconnected_Class = True"
| "retryable_class Transport_Unavailable_Class = True"
| "retryable_class Candidate_Unavailable_Class = True"
| "retryable_class Transient_Storage_Class = True"
| "retryable_class (Timeout_Class _) = True"
| "retryable_class _ = False"

fun retryable :: "(raised \<Rightarrow> bool) \<Rightarrow> raised \<Rightarrow> bool" where
  "retryable busy (Raised k m c) =
     (if busy (Raised k m c) then True
      else case k of
        Ring_Acknowledgement_Class s \<Rightarrow> s = STATUS_STORAGE_NOT_READY
      | Transfer_Interrupted_Class \<Rightarrow> (case c of None \<Rightarrow> retryable_class k | Some e \<Rightarrow> retryable busy e)
      | _ \<Rightarrow> retryable_class k)"

fun session_error_cause :: "raised \<Rightarrow> raised" where
  "session_error_cause (Raised k m c) =
     (case c of None \<Rightarrow> Raised k m c
      | Some e \<Rightarrow> if k = Transfer_Interrupted_Class then session_error_cause e else Raised k m c)"

section \<open>Operator messages\<close>

definition MAX_ERROR_CHAIN_ENTRIES :: nat where "MAX_ERROR_CHAIN_ENTRIES = 8"
definition MAX_ERROR_ENTRY_CHARS :: nat where "MAX_ERROR_ENTRY_CHARS = 1024"

definition is_hex :: "char \<Rightarrow> bool" where
  "is_hex c \<longleftrightarrow> c \<in> set ''0123456789abcdefABCDEF''"

definition is_separator :: "char \<Rightarrow> bool" where
  "is_separator c \<longleftrightarrow> c \<in> set '':_-''"

text \<open>\<open>(?:[0-9a-f]{2}[:_-]){5}[0-9a-f]{2}\<close> at the head of a text, without regard to case.\<close>

definition address_shape :: "string \<Rightarrow> bool" where
  "address_shape xs \<longleftrightarrow>
     17 \<le> length xs \<and> (\<forall>i \<in> set [0..<17]. if i mod 3 = 2 then is_separator (xs ! i) else is_hex (xs ! i))"

text \<open>The whole expression, with the character before the text and the character after the address.\<close>

definition address_match :: "char option \<Rightarrow> string \<Rightarrow> bool" where
  "address_match prior xs \<longleftrightarrow>
     (case prior of None \<Rightarrow> True | Some c \<Rightarrow> \<not> is_hex c) \<and> address_shape xs
     \<and> (case drop 17 xs of [] \<Rightarrow> True | c # _ \<Rightarrow> \<not> is_hex c)"

function scrub :: "char option \<Rightarrow> string \<Rightarrow> string" where
  "scrub prior [] = []"
| "scrub prior (c # cs) =
     (if address_match prior (c # cs) then ''[BLE address]'' @ scrub (Some ((c # cs) ! 16)) (drop 17 (c # cs))
      else c # scrub (Some c) cs)"
  by pat_completeness auto
termination by (relation "measure (\<lambda>(b, xs). length xs)") auto

definition bounded_error_summary :: "raised \<Rightarrow> string" where
  "bounded_error_summary e =
     (let name = take (MAX_ERROR_ENTRY_CHARS - 2) (class_name (class_of e));
          limit = MAX_ERROR_ENTRY_CHARS - length name - 2
      in name @ '': '' @ take limit (scrub None (text_of e)))"

fun error_chain :: "raised \<Rightarrow> string list \<Rightarrow> string list" where
  "error_chain (Raised k m c) summaries =
     (if MAX_ERROR_CHAIN_ENTRIES \<le> length summaries then summaries
      else let summary = bounded_error_summary (Raised k m c);
               kept = if summary \<in> set summaries then summaries else summaries @ [summary]
           in case c of None \<Rightarrow> kept | Some e \<Rightarrow> error_chain e kept)"

fun join_with :: "string \<Rightarrow> string list \<Rightarrow> string" where
  "join_with sep [] = []"
| "join_with sep [x] = x"
| "join_with sep (x # y # ys) = x @ sep @ join_with sep (y # ys)"

definition transport_error_chain_message :: "raised \<Rightarrow> string" where
  "transport_error_chain_message e = join_with '' <- '' (error_chain e [])"

definition sanitize_error_message :: "raised \<Rightarrow> string" where
  "sanitize_error_message e =
     (case class_of e of
        Collector_Timeout_Class \<Rightarrow> ''operation timed out''
      | Advance_Uncertain_Class \<Rightarrow> ''advance acknowledgement uncertain''
      | Notification_Overflow_Class \<Rightarrow> ''notification queue overflow''
      | Transport_Disconnected_Class \<Rightarrow> transport_error_chain_message e
      | Transport_Unavailable_Class \<Rightarrow> transport_error_chain_message e
      | Candidate_Unavailable_Class \<Rightarrow> transport_error_chain_message e
      | _ \<Rightarrow> ''session operation failed'')"

section \<open>Properties of messages\<close>

text \<open>\<open>_BLE_ADDRESS.search\<close> finds an address.\<close>

fun occurs_address :: "char option \<Rightarrow> string \<Rightarrow> bool" where
  "occurs_address prior [] = False"
| "occurs_address prior (c # cs) \<longleftrightarrow> address_match prior (c # cs) \<or> occurs_address (Some c) cs"

lemma address_shape_nth: "address_shape xs \<Longrightarrow> i < 17 \<Longrightarrow> (if i mod 3 = 2 then is_separator (xs ! i) else is_hex (xs ! i))"
  by (simp add: address_shape_def)

lemma address_shape_char: "address_shape xs \<Longrightarrow> i < 17 \<Longrightarrow> is_hex (xs ! i) \<or> is_separator (xs ! i)"
  by (metis address_shape_nth)

lemma address_shape_head: "address_shape (a # xs) \<Longrightarrow> is_hex a \<and> is_hex (xs ! 0) \<and> is_separator (xs ! 1) \<and> 16 \<le> length xs"
  by (auto simp: address_shape_def upt_conv_Cons)

lemma address_shape_last: "address_shape xs \<Longrightarrow> is_hex (xs ! 16)"
  using address_shape_nth [of xs 16] by simp

lemma address_char_not_bracket: "is_hex c \<or> is_separator c \<Longrightarrow> c \<noteq> CHR ''[''"
  by (auto simp: is_hex_def is_separator_def)

lemma occurs_marker: "occurs_address q (''[BLE address]'' @ xs) = occurs_address (Some CHR '']'') xs"
proof -
  have "\<not> address_shape (a # b # c # zs)" if "\<not> (is_hex a \<and> is_hex b \<and> is_separator c)" for a b c zs
    using that by (auto dest: address_shape_head)
  moreover have "\<not> address_shape (CHR ''s'' # zs)" "\<not> address_shape (CHR '']'' # zs)" for zs
    by (auto dest!: address_shape_head simp: is_hex_def)
  ultimately show ?thesis
    by (simp add: address_match_def is_hex_def is_separator_def)
qed

text \<open>Where the scrubbed text shows no marker it is the text itself.\<close>

lemma scrub_plain:
  "\<forall>i < n. i < length (scrub p xs) \<and> scrub p xs ! i \<noteq> CHR ''['' \<Longrightarrow>
   n \<le> length xs \<and> take n (scrub p xs) = take n xs
   \<and> drop n (scrub p xs) = scrub (if n = 0 then p else Some (xs ! (n - 1))) (drop n xs)"
proof (induction n arbitrary: p xs)
  case (Suc n)
  obtain c cs where xs: "xs = c # cs" using Suc.prems by (cases xs) auto
  have no: "\<not> address_match p (c # cs)" using Suc.prems [rule_format, of 0] by (auto simp: xs)
  have "\<forall>i < n. i < length (scrub (Some c) cs) \<and> scrub (Some c) cs ! i \<noteq> CHR ''[''"
    using Suc.prems no by (auto simp: xs)
  from Suc.IH [OF this] show ?case using no by (cases n) (auto simp: xs)
qed simp

lemma address_shape_take: "take 17 xs = take 17 ys \<Longrightarrow> 17 \<le> length ys \<Longrightarrow> address_shape xs \<Longrightarrow> address_shape ys"
  unfolding address_shape_def by (metis atLeastLessThan_iff nth_take set_upt)

lemma scrub_match_original:
  assumes m: "address_match q (scrub p xs)" and q: "q = p \<or> xs = [] \<or> \<not> is_hex (hd xs)"
  shows "address_match p xs"
proof -
  have shape: "address_shape (scrub p xs)" and ahead: "case drop 17 (scrub p xs) of [] \<Rightarrow> True | c # _ \<Rightarrow> \<not> is_hex c"
    using m by (simp_all add: address_match_def)
  have "\<forall>i < 17. i < length (scrub p xs) \<and> scrub p xs ! i \<noteq> CHR ''[''"
    using address_shape_char [OF shape] address_char_not_bracket shape by (auto simp: address_shape_def)
  note plain = scrub_plain [OF this]
  have shape': "address_shape xs" using plain shape by (blast intro: address_shape_take)
  have hex: "is_hex (xs ! 16)" "is_hex (hd xs)"
    using address_shape_last [OF shape'] address_shape_nth [OF shape', of 0] plain by (simp_all, cases xs) auto
  have "case drop 17 xs of [] \<Rightarrow> True | c # _ \<Rightarrow> \<not> is_hex c"
    using ahead plain hex(1) by (auto simp: address_match_def split: list.splits)
  with q hex(2) shape' m show ?thesis
    by (auto simp: address_match_def address_shape_def)
qed

lemma scrub_clean: "q = p \<or> xs = [] \<or> \<not> is_hex (hd xs) \<Longrightarrow> \<not> occurs_address q (scrub p xs)"
proof (induction p xs arbitrary: q rule: scrub.induct)
  case (2 p c cs)
  show ?case
  proof (cases "address_match p (c # cs)")
    case True
    then have "drop 17 (c # cs) = [] \<or> \<not> is_hex (hd (drop 17 (c # cs)))"
      by (auto simp: address_match_def split: list.splits)
    with 2(1) [OF True, of "Some CHR '']''"]
    have "\<not> occurs_address q (''[BLE address]'' @ scrub (Some ((c # cs) ! 16)) (drop 17 (c # cs)))"
      unfolding occurs_marker by blast
    then show ?thesis using True by (simp only: scrub.simps if_True simp_thms)
  next
    case False
    have "\<not> address_match q (c # scrub (Some c) cs)"
      using scrub_match_original [of q p "c # cs"] 2(3) False by auto
    with 2(2) [OF False, of "Some c"] False show ?thesis by simp
  qed
qed simp

text \<open>
  What an address is, apart from the matcher: six octets of two hexadecimal digits of either case, separated by
  \<open>:\<close>, \<open>_\<close> or \<open>-\<close>.  A text names one if it occurs there and no further digit touches it.
\<close>

definition hex_digits :: "char set" where
  "hex_digits = set ''0123456789'' \<union> set ''abcdef'' \<union> set ''ABCDEF''"

definition is_address :: "string \<Rightarrow> bool" where
  "is_address m \<longleftrightarrow> length m = 17 \<and> (\<forall>i < 17. m ! i \<in> (if i \<in> {2, 5, 8, 11, 14} then set '':_-'' else hex_digits))"

definition names_address :: "string \<Rightarrow> bool" where
  "names_address s \<longleftrightarrow> (\<exists>before m after. s = before @ m @ after \<and> is_address m
     \<and> (before = [] \<or> last before \<notin> hex_digits) \<and> (after = [] \<or> hd after \<notin> hex_digits))"

lemma hex_digits_iff: "c \<in> hex_digits \<longleftrightarrow> is_hex c"
  by (auto simp: hex_digits_def is_hex_def)

lemma separator_position: "i < 17 \<Longrightarrow> i mod 3 = 2 \<longleftrightarrow> i \<in> {2, 5, 8, 11, 14 :: nat}"
  unfolding insert_iff empty_iff by presburger

lemma is_address_shape: "is_address m \<longleftrightarrow> length m = 17 \<and> address_shape m"
proof -
  have "m ! i \<in> (if i \<in> {2, 5, 8, 11, 14} then set '':_-'' else hex_digits)
      \<longleftrightarrow> (if i mod 3 = 2 then is_separator (m ! i) else is_hex (m ! i))" if "i < 17" for i
    unfolding separator_position [OF that] is_separator_def hex_digits_iff [symmetric] by (cases "i \<in> {2, 5, 8, 11, 14}") simp_all
  then have "(\<forall>i < 17. m ! i \<in> (if i \<in> {2, 5, 8, 11, 14} then set '':_-'' else hex_digits))
      \<longleftrightarrow> (\<forall>i < 17. if i mod 3 = 2 then is_separator (m ! i) else is_hex (m ! i))" by blast
  then show ?thesis unfolding is_address_def address_shape_def by (simp del: insert_iff) auto
qed

lemma address_shape_take_iff: "17 \<le> length xs \<Longrightarrow> address_shape xs \<longleftrightarrow> is_address (take 17 xs)"
  unfolding is_address_shape by (auto simp: address_shape_def)

lemma address_match_occurs:
  "is_address m \<Longrightarrow> p = None \<or> the p \<notin> hex_digits \<Longrightarrow> after = [] \<or> hd after \<notin> hex_digits \<Longrightarrow> address_match p (m @ after)"
  using address_shape_take_iff [of "m @ after"]
  by (auto simp: address_match_def hex_digits_iff is_address_shape split: option.splits list.splits)

lemma occurs_here: "address_match p xs \<Longrightarrow> occurs_address p xs"
  by (cases xs) (auto simp: address_match_def address_shape_def)

lemma occurs_later: "occurs_address (if before = [] then p else Some (last before)) xs \<Longrightarrow> occurs_address p (before @ xs)"
proof (induction before arbitrary: p)
  case (Cons a before)
  have "occurs_address (if before = [] then Some a else Some (last before)) xs"
    using Cons.prems by (simp split: if_splits)
  then show ?case using Cons.IH [of "Some a"] by simp
qed simp

lemma names_occurs: "names_address s \<Longrightarrow> occurs_address None s"
proof -
  assume "names_address s"
  then obtain before m after where s: "s = before @ m @ after" and m: "is_address m"
    and a: "before = [] \<or> last before \<notin> hex_digits" and b: "after = [] \<or> hd after \<notin> hex_digits"
    by (auto simp: names_address_def)
  have "address_match (if before = [] then None else Some (last before)) (m @ after)"
    by (rule address_match_occurs [OF m _ b]) (use a in auto)
  then show ?thesis unfolding s by (intro occurs_later occurs_here)
qed

lemma scrub_pieces:
  "\<exists>pieces rest. list_all (\<lambda>(kept, m). is_address m) pieces
     \<and> xs = concat (map (\<lambda>(kept, m). kept @ m) pieces) @ rest
     \<and> scrub p xs = concat (map (\<lambda>(kept, m). kept @ ''[BLE address]'') pieces) @ rest"
proof (induction p xs rule: scrub.induct)
  case (1 p)
  show ?case by (intro exI [of _ "[]"]) simp
next
  case (2 p c cs)
  show ?case
  proof (cases "address_match p (c # cs)")
    case True
    let ?m = "take 17 (c # cs)"
    have m: "is_address ?m" using True address_shape_take_iff [of "c # cs"] by (auto simp: address_match_def address_shape_def)
    obtain pieces rest where h: "list_all (\<lambda>(kept, m). is_address m) pieces"
      "drop 17 (c # cs) = concat (map (\<lambda>(kept, m). kept @ m) pieces) @ rest"
      "scrub (Some ((c # cs) ! 16)) (drop 17 (c # cs)) = concat (map (\<lambda>(kept, m). kept @ ''[BLE address]'') pieces) @ rest"
      using 2(1) [OF True] by blast
    have "c # cs = ?m @ drop 17 (c # cs)" by (rule append_take_drop_id [symmetric])
    then show ?thesis
      using True h m by (intro exI [of _ "([], ?m) # pieces"] exI [of _ rest]) (simp only: scrub.simps list.map concat.simps list.pred_inject prod.case append_Nil append_assoc if_True simp_thms)
  next
    case False
    obtain pieces rest where h: "list_all (\<lambda>(kept, m). is_address m) pieces"
      "cs = concat (map (\<lambda>(kept, m). kept @ m) pieces) @ rest"
      "scrub (Some c) cs = concat (map (\<lambda>(kept, m). kept @ ''[BLE address]'') pieces) @ rest"
      using 2(2) [OF False] by blast
    show ?thesis
    proof (cases pieces)
      case Nil
      then show ?thesis using False h by (intro exI [of _ "[]"] exI [of _ "c # rest"]) simp
    next
      case (Cons x ps)
      obtain kept m where x: "x = (kept, m)" by (cases x)
      show ?thesis using False h Cons x by (intro exI [of _ "(c # kept, m) # ps"] exI [of _ rest]) simp
    qed
  qed
qed

text \<open>
  C9: The redacted text names no BLE address, in either letter case and with any of the three separators, also across the
  borders of the replaced parts; and it is the message with some addresses replaced by the marker and nothing else changed.
\<close>

theorem scrubbed_text_names_no_address:
  "\<not> names_address (scrub None message) \<and>
   (\<exists>pieces rest. list_all (\<lambda>(kept, m). is_address m) pieces
     \<and> message = concat (map (\<lambda>(kept, m). kept @ m) pieces) @ rest
     \<and> scrub None message = concat (map (\<lambda>(kept, m). kept @ ''[BLE address]'') pieces) @ rest)"
  using names_occurs scrub_clean [of None None message] scrub_pieces by blast

lemma bounded_error_summary_length: "length (bounded_error_summary e) \<le> MAX_ERROR_ENTRY_CHARS"
  by (auto simp: bounded_error_summary_def Let_def MAX_ERROR_ENTRY_CHARS_def)

definition chain_ok :: "string list \<Rightarrow> bool" where
  "chain_ok xs \<longleftrightarrow> length xs \<le> MAX_ERROR_CHAIN_ENTRIES \<and> (\<forall>s \<in> set xs. length s \<le> MAX_ERROR_ENTRY_CHARS) \<and> distinct xs"

lemma chain_ok_step:
  "chain_ok acc \<Longrightarrow> \<not> MAX_ERROR_CHAIN_ENTRIES \<le> length acc \<Longrightarrow>
   chain_ok (if bounded_error_summary e \<in> set acc then acc else acc @ [bounded_error_summary e])"
  by (auto simp: chain_ok_def bounded_error_summary_length)

lemma error_chain_ok: "chain_ok acc \<Longrightarrow> chain_ok (error_chain e acc)"
proof (induction e acc rule: error_chain.induct)
  case (1 k m c acc)
  show ?case
  proof (cases "MAX_ERROR_CHAIN_ENTRIES \<le> length acc")
    case True
    then show ?thesis using "1.prems" by simp
  next
    case False
    note kept = chain_ok_step [OF "1.prems" False, of "Raised k m c"]
    show ?thesis
    proof (cases c)
      case None
      then show ?thesis using kept False by (simp add: Let_def split: if_splits)
    next
      case (Some e)
      then show ?thesis using "1.IH" [OF False refl refl Some kept] False by (simp add: Let_def split: if_splits)
    qed
  qed
qed

lemma join_with_length:
  "\<forall>s \<in> set xs. length s \<le> n \<Longrightarrow> length (join_with sep xs) \<le> length xs * (n + length sep)"
  by (induction sep xs rule: join_with.induct) (auto simp: algebra_simps)

text \<open>
  The message shown for a session error is bounded, whatever the text of the exception and however long its chain of
  causes is.
\<close>

theorem operator_message_bounded:
  "length (sanitize_error_message e) \<le> MAX_ERROR_CHAIN_ENTRIES * (MAX_ERROR_ENTRY_CHARS + 4)"
proof -
  have chain: "chain_ok (error_chain e [])" by (rule error_chain_ok) (simp add: chain_ok_def)
  have "length (transport_error_chain_message e) \<le> length (error_chain e []) * (MAX_ERROR_ENTRY_CHARS + 4)"
    unfolding transport_error_chain_message_def
    using join_with_length [of "error_chain e []" MAX_ERROR_ENTRY_CHARS "'' <- ''"] chain
    by (simp add: chain_ok_def algebra_simps)
  also have "\<dots> \<le> MAX_ERROR_CHAIN_ENTRIES * (MAX_ERROR_ENTRY_CHARS + 4)"
    using chain unfolding chain_ok_def by (blast intro: mult_le_mono1)
  finally show ?thesis
    by (simp add: sanitize_error_message_def MAX_ERROR_CHAIN_ENTRIES_def MAX_ERROR_ENTRY_CHARS_def split: error_class.split)
qed

end
