(* ===== verification/Session_Lifecycle.thy ===== *)
theory Session_Lifecycle
  imports Session_Errors Session_Machine Presence_Machine Visit_Machine
begin

text \<open>
  One physical session (\<open>application/session_lifecycle.py\<close>): connect, INFO, telemetry, the READ loop, teardown and the
  checkpoint, with the session machine consulted before every effect.  Everything outside the class is a port: the
  transport context, the ring exchange, the callbacks of the coordinator, the metrics, the operator's activity sink.

  A callback that receives a reader of the class re-enters it: it answers \<open>Ans_Want_Info\<close>, \<open>Ans_Want_Battery\<close>,
  \<open>Ans_Want_Emit\<close> or \<open>Ans_Note\<close> (it writes the phase and the accounting of the session) and is continued with the
  result.  The loops over callbacks and READ legs have fuel; \<open>out_of_fuel\<close> passes every handler and every \<open>finally\<close>.
  A time stamp is the host time it renders; the session id, the PHY policy and the lock context of events and metrics,
  which nothing reads, are left out.
\<close>

section \<open>Data\<close>

datatype session_phase =
  Phase_Connect | Phase_Preflight | Phase_Info | Phase_Telemetry | Phase_Read | Phase_Advance | Phase_Teardown

record activity_event =
  activity_state :: string
  retry_seconds :: "rat option"
  activity_phase :: "session_phase option"
  error_type :: "string option"
  error_message :: "string option"
  activity_reason :: "string option"
  duration_seconds :: "rat option"
  next_attempt_in_seconds :: "rat option"

definition new_activity :: "string \<Rightarrow> rat option \<Rightarrow> activity_event" where
  "new_activity state retry =
     \<lparr>activity_state = state, retry_seconds = retry, activity_phase = None, error_type = None, error_message = None,
      activity_reason = None, duration_seconds = None, next_attempt_in_seconds = None\<rparr>"

record session_quality =
  quality_rssi :: "int option"
  active_read_elapsed_ms :: int
  requested_record_count :: int
  received_raw_bytes :: int
  submitted_raw_bytes :: int
  written_raw_bytes :: int
  firmware_version :: "string option"
  attempted_read :: bool

definition new_session_quality :: "int option \<Rightarrow> session_quality" where
  "new_session_quality rssi =
     \<lparr>quality_rssi = rssi, active_read_elapsed_ms = 0, requested_record_count = 0, received_raw_bytes = 0,
      submitted_raw_bytes = 0, written_raw_bytes = 0, firmware_version = None, attempted_read = False\<rparr>"

text \<open>The fields of an operational event that the lifecycle reads; a field of another type is absent.\<close>

record operational_event =
  event_kind :: string
  event_outcome :: "string option"
  event_firmware :: "string option"
  event_drift :: "rat option"
  event_target :: "int option"
  event_boundary_min :: "int option"
  event_boundary_max :: "int option"

record presence_wake =
  wake_candidate :: "nat option"
  wake_observed_at :: "rat option"
  wake_rssi :: "int option"

record session_config =
  info_timeout :: rat
  max_storage_not_ready_responses :: nat
  storage_not_ready_backoff :: "rat list"
  has_stop_intent :: bool
  has_activity :: bool
  has_operational :: bool
  has_clock_state_store :: bool
  has_quality_metrics :: bool
  has_session_guard :: bool
  has_observe_info :: bool
  has_observe_public_info :: bool
  has_observe_public_battery :: bool
  has_observe_storage_unavailable :: bool
  has_close_verified_drain :: bool
  is_device_busy :: "raised \<Rightarrow> bool"

text \<open>The fields of \<open>SessionLifecycle\<close>, of \<open>_SessionExecution\<close> and of \<open>SessionPhaseState\<close>.\<close>

record session_life =
  storage_not_ready_responses :: nat
  pending_wake :: "presence_wake option"
  direct_retry :: nat
  pending_clean_drain :: bool
  pending_drain_cursor :: "int option"
  verified_drain_info :: "ring_info option"
  verified_drain_observed_at :: "rat option"
  last_info_observed_at :: "rat option"
  execution_machine :: session_state
  execution_session :: bool
  execution_primary :: "raised option"
  execution_outcome :: "session_outcome option"
  execution_teardown_error :: bool
  terminal_error :: "raised option"
  phase_value :: session_phase
  phase_quality :: session_quality
  visit_now :: "visit_state \<times> visit_command"
  capture_priority_active :: bool

section \<open>Ports\<close>

datatype life_call =
    Ask_Host_Time | Ask_Clock | Ask_Sleep rat | Ask_Stop_Intent
  | Ask_Debug string raised | Ask_Activity activity_event | Ask_Emit operational_event
  | Ask_Metric_Advertisement rat int
  | Ask_Metric_Session rat string string session_quality
  | Ask_Metric_Clock rat operational_event "string option"
  | Ask_Guard_Enter | Ask_Guard_Exit "raised option"
  | Ask_Enter | Ask_Exit "raised option"
  | Ask_Info | Ask_Observe_Info ring_info | Ask_Public_Info ring_info rat | Ask_Storage_Unavailable rat
  | Ask_Public_Battery int rat | Ask_Telemetry bool | Ask_Battery | Ask_Step "ring_info option"
  | Ask_Continue "(raised, ring_info option) result"
  | Ask_Write_Control bytes | Ask_Checkpoint
  | Ask_Provider "nat option" | Ask_Load_Recovery | Ask_Close_Visit close_reason "int option"
  | Ask_Close_Verified_Drain ring_info rat | Ask_Invalidate_Recovery
  | Ask_Completed_Batches | Ask_Durable_Progress | Ask_Before_Direct_Attempt | Ask_Wait_Presence
  | Ask_Attempt_Finished attempt_outcome | Ask_Resume_Visit | Ask_Presence_Close | Ask_Cooldown_Remaining
  | Ask_Enter_Priority | Ask_Exit_Priority | Ask_Drained_Result

datatype life_answer =
    Ans_Raised raised | Ans_Ok | Ans_Time rat | Ans_Info ring_info
  | Ans_Step "session_outcome option" "ring_info option"
  | Ans_Note session_phase session_quality | Ans_Want_Info | Ans_Want_Battery int | Ans_Want_Emit operational_event
  | Ans_Abandoned "raised option" bool
  | Ans_Suppress | Ans_Count int | Ans_Wake presence_wake | Ans_End string | Ans_Recovery recovery_disposition

type_synonym life_ports = "(life_call, life_answer) answers"
type_synonym life_world = "(life_call, life_answer, session_life) world"
type_synonym life_history = "(life_call \<times> life_answer) list"
type_synonym 'r life = "(raised, life_call, life_answer, session_life, 'r) prog"

text \<open>A port that answers with a value of another type.\<close>

definition type_error :: raised where
  "type_error = Raised (Exception_Class ''TypeError'') [] None"

fun ans_unit :: "life_answer \<Rightarrow> (raised, unit) result" where
  "ans_unit (Ans_Raised e) = Inl e" | "ans_unit _ = Inr ()"

fun ans_time :: "life_answer \<Rightarrow> (raised, rat) result" where
  "ans_time (Ans_Raised e) = Inl e" | "ans_time (Ans_Time t) = Inr t" | "ans_time _ = Inl type_error"

fun ans_info :: "life_answer \<Rightarrow> (raised, ring_info) result" where
  "ans_info (Ans_Raised e) = Inl e" | "ans_info (Ans_Info i) = Inr i" | "ans_info _ = Inl type_error"

fun ans_step :: "life_answer \<Rightarrow> (raised, session_outcome option \<times> ring_info option) result" where
  "ans_step (Ans_Raised e) = Inl e" | "ans_step (Ans_Step x i) = Inr (x, i)" | "ans_step _ = Inl type_error"

definition host_time :: "life_ports \<Rightarrow> rat life" where
  "host_time ask = port ask Ask_Host_Time ans_time"

definition session_check_stop :: "life_ports \<Rightarrow> session_config \<Rightarrow> unit life" where
  "session_check_stop ask cfg = whenp (has_stop_intent cfg) (port ask Ask_Stop_Intent ans_unit)"

definition debug_exception :: "life_ports \<Rightarrow> string \<Rightarrow> raised \<Rightarrow> unit life" where
  "debug_exception ask event e = port ask (Ask_Debug event e) ans_unit"

definition sleep :: "life_ports \<Rightarrow> rat \<Rightarrow> unit life" where
  "sleep ask delay = port ask (Ask_Sleep delay) ans_unit"

text \<open>
  A bounded operation races its task against a timeout and against the cancellation of the caller.  The answer of the port
  tells how the race ended: an answer of the operation when the task was done in time, and otherwise
  \<open>Ans_Abandoned\<close> with the cancellation, or without one for the timeout.  The task is then cancelled and joined and its
  result is discarded; the flag tells whether it had one, since the task may have completed in the meantime.
\<close>

definition operation_timed_out :: raised where
  "operation_timed_out = Raised Collector_Timeout_Class ''opportunistic operation timed out'' None"

definition race_result :: "(life_answer \<Rightarrow> (raised, 'r) result) \<Rightarrow> life_answer \<Rightarrow> (raised, 'r) result" where
  "race_result f a =
     (case a of
        Ans_Abandoned (Some cancellation) _ \<Rightarrow> Inl cancellation
      | Ans_Abandoned None _ \<Rightarrow> Inl operation_timed_out
      | _ \<Rightarrow> f a)"

definition bounded :: "life_ports \<Rightarrow> session_config \<Rightarrow> life_call \<Rightarrow> (life_answer \<Rightarrow> (raised, 'r) result) \<Rightarrow> 'r life" where
  "bounded ask cfg operation f =
     seqp (assertp (0 < info_timeout cfg) (Raised Value_Class ''transfer timeouts must be positive'' None))
       (port ask operation (race_result f))"

text \<open>\<open>finally\<close>, for a program that has ended.\<close>

definition finally_live :: "'r life \<Rightarrow> unit life \<Rightarrow> 'r life" where
  "finally_live m n =
     bindp (capture m) (\<lambda>r.
     case r of
       Inl e \<Rightarrow> if is_live e then seqp n (raise e) else raise e
     | Inr x \<Rightarrow> seqp n (ret x))"

section \<open>Reports\<close>

definition report_session_activity :: "life_ports \<Rightarrow> session_config \<Rightarrow> activity_event \<Rightarrow> unit life" where
  "report_session_activity ask cfg event = whenp (has_activity cfg) (port ask (Ask_Activity event) ans_unit)"

definition session_error_event :: "session_phase \<Rightarrow> raised \<Rightarrow> activity_event" where
  "session_error_event phase e =
     (let cause = session_error_cause e in
      (new_activity ''session_error'' None)
        \<lparr>activity_phase := Some phase, error_type := Some (class_name (class_of cause)),
         error_message := Some (sanitize_error_message cause)\<rparr>)"

definition report_session_error :: "life_ports \<Rightarrow> session_config \<Rightarrow> session_phase \<Rightarrow> raised \<Rightarrow> unit life" where
  "report_session_error ask cfg phase e =
     seqp (debug_exception ask ''session_error'' e) (report_session_activity ask cfg (session_error_event phase e))"

definition record_storage_unavailable :: "life_ports \<Rightarrow> session_config \<Rightarrow> unit life" where
  "record_storage_unavailable ask cfg =
     whenp (has_observe_storage_unavailable cfg)
       (bindp (host_time ask) (\<lambda>t. port ask (Ask_Storage_Unavailable t) ans_unit))"

definition observe_public_info :: "life_ports \<Rightarrow> session_config \<Rightarrow> ring_info \<Rightarrow> unit life" where
  "observe_public_info ask cfg i =
     whenp (has_observe_public_info cfg \<or> has_close_verified_drain cfg)
       (bindp (host_time ask) (\<lambda>t.
        seqp (update_state (\<lambda>s. s\<lparr>last_info_observed_at := Some t\<rparr>))
          (whenp (has_observe_public_info cfg) (port ask (Ask_Public_Info i t) ans_unit))))"

definition observe_public_battery :: "life_ports \<Rightarrow> session_config \<Rightarrow> int \<Rightarrow> unit life" where
  "observe_public_battery ask cfg percent =
     whenp (has_observe_public_battery cfg)
       (bindp (host_time ask) (\<lambda>t. port ask (Ask_Public_Battery percent t) ans_unit))"

text \<open>\<open>except FatalInternalAudioStorageError: raise\<close> followed by \<open>except Exception: h\<close>\<close>

definition unless_fatal :: "unit life \<Rightarrow> (raised \<Rightarrow> unit life) \<Rightarrow> unit life" where
  "unless_fatal m h = catchp m (\<lambda>e. if is_fatal_storage e \<or> \<not> exception_raised e then raise e else h e)"

definition record_clock_correction :: "life_ports \<Rightarrow> operational_event \<Rightarrow> unit life" where
  "record_clock_correction ask event =
     whenp (event_kind event = ''pendant_clock_sync'' \<and> event_outcome event = Some ''verified''
            \<and> event_drift event \<noteq> None \<and> event_target event \<noteq> None
            \<and> event_boundary_min event \<noteq> None \<and> event_boundary_max event \<noteq> None)
       (unless_fatal
         (bindp (host_time ask) (\<lambda>t.
          bindp get_state (\<lambda>s. port ask (Ask_Metric_Clock t event (firmware_version (phase_quality s))) ans_unit)))
         (\<lambda>_. ret ()))"

text \<open>The emitter of a session: it keeps the firmware version it has seen and completes an event that lacks one.\<close>

definition emit_event :: "life_ports \<Rightarrow> session_config \<Rightarrow> operational_event \<Rightarrow> unit life" where
  "emit_event ask cfg event =
     bindp get_state (\<lambda>s.
     let observation = event_kind event = ''pendant_observation'';
         known = firmware_version (phase_quality s);
         emitted = (if observation \<and> event_firmware event = None \<and> known \<noteq> None then event\<lparr>event_firmware := known\<rparr> else event)
     in
       seqp (whenp (observation \<and> event_firmware event \<noteq> None)
              (update_state (\<lambda>s. s\<lparr>phase_quality := (phase_quality s)\<lparr>firmware_version := event_firmware event\<rparr>\<rparr>)))
      (seqp (whenp (has_quality_metrics cfg) (record_clock_correction ask emitted))
        (whenp (has_operational cfg) (port ask (Ask_Emit emitted) ans_unit))))"

section \<open>INFO\<close>

definition storage_not_ready_delay :: "nat \<Rightarrow> rat list \<Rightarrow> (raised, rat) result" where
  "storage_not_ready_delay retry_number backoff =
     (if backoff = [] then Inl (Raised (Exception_Class ''IndexError'') ''tuple index out of range'' None)
      else Inr (backoff ! min retry_number (length backoff - 1)))"

definition info_once :: "life_ports \<Rightarrow> session_config \<Rightarrow> ring_info life" where
  "info_once ask cfg =
     bindp (bounded ask cfg Ask_Info ans_info) (\<lambda>i.
     seqp (observe_public_info ask cfg i)
    (seqp (whenp (has_observe_info cfg)
            (unless_fatal (port ask (Ask_Observe_Info i) ans_unit) (debug_exception ask ''firmware_observation_writer_error'')))
      (ret i)))"

text \<open>The response is counted; a round too many ends the session, and before any other the loop waits.\<close>

definition info_not_ready :: "life_ports \<Rightarrow> session_config \<Rightarrow> raised \<Rightarrow> ring_info life \<Rightarrow> ring_info life" where
  "info_not_ready ask cfg e again =
     seqp (record_storage_unavailable ask cfg)
    (seqp (update_state (\<lambda>s. s\<lparr>storage_not_ready_responses := Suc (storage_not_ready_responses s)\<rparr>))
    (bindp get_state (\<lambda>s.
     if max_storage_not_ready_responses cfg \<le> storage_not_ready_responses s
     then raise (Raised Storage_Not_Ready_Session_Class
            ''INFO returned STORAGE_NOT_READY too many times in this physical session'' (Some e))
     else
       bindp (lift_result (storage_not_ready_delay (storage_not_ready_responses s - 1) (storage_not_ready_backoff cfg))) (\<lambda>delay.
       seqp (seqp (report_session_activity ask cfg (new_activity ''storage_wait'' (Some delay))) (sleep ask delay)) again))))"

fun info_loop :: "life_ports \<Rightarrow> session_config \<Rightarrow> nat \<Rightarrow> ring_info life" where
  "info_loop ask cfg 0 = raise out_of_fuel"
| "info_loop ask cfg (Suc n) =
     catchp (info_once ask cfg) (\<lambda>e.
       if class_of e \<noteq> Ring_Acknowledgement_Class STATUS_STORAGE_NOT_READY then raise e
       else info_not_ready ask cfg e (info_loop ask cfg n))"

text \<open>Every round counts one response, so the loop ends within the rounds that are left of the session.\<close>

definition info :: "life_ports \<Rightarrow> session_config \<Rightarrow> ring_info life" where
  "info ask cfg =
     bindp get_state (\<lambda>s. info_loop ask cfg (Suc (max_storage_not_ready_responses cfg - storage_not_ready_responses s)))"

section \<open>Callbacks that re-enter the lifecycle\<close>

datatype session_work = Step_Work | Telemetry_Work | Battery_Work

fun offered :: "session_work \<Rightarrow> life_answer \<Rightarrow> bool" where
  "offered kind Ans_Want_Info = (kind \<noteq> Battery_Work)"
| "offered kind (Ans_Want_Battery _) = (kind \<noteq> Step_Work)"
| "offered kind (Ans_Want_Emit _) = (kind \<noteq> Step_Work)"
| "offered kind (Ans_Note _ _) = (kind = Step_Work)"
| "offered kind _ = False"

definition no_info :: "unit life \<Rightarrow> ring_info option life" where
  "no_info m = seqp m (ret None)"

definition reenter :: "life_ports \<Rightarrow> session_config \<Rightarrow> life_answer \<Rightarrow> ring_info option life" where
  "reenter ask cfg a =
     (case a of
        Ans_Want_Info \<Rightarrow> bindp (info ask cfg) (\<lambda>i. ret (Some i))
      | Ans_Want_Battery percent \<Rightarrow> no_info (observe_public_battery ask cfg percent)
      | Ans_Want_Emit event \<Rightarrow> no_info (emit_event ask cfg event)
      | Ans_Note phase quality \<Rightarrow> no_info (update_state (\<lambda>s. s\<lparr>phase_value := phase, phase_quality := quality\<rparr>))
      | _ \<Rightarrow> ret None)"

fun serve :: "life_ports \<Rightarrow> session_config \<Rightarrow> session_work \<Rightarrow> nat \<Rightarrow> life_call \<Rightarrow> (life_answer \<Rightarrow> (raised, 'r) result) \<Rightarrow> 'r life" where
  "serve ask cfg kind 0 c f = raise out_of_fuel"
| "serve ask cfg kind (Suc n) c f =
     bindp (call ask c) (\<lambda>a.
     if offered kind a then bindp (capture (reenter ask cfg a)) (\<lambda>r. serve ask cfg kind n (Ask_Continue r) f)
     else lift_result (f a))"

definition collect_telemetry :: "life_ports \<Rightarrow> session_config \<Rightarrow> nat \<Rightarrow> preflight_result life" where
  "collect_telemetry ask cfg fuel =
     (if \<not> has_operational cfg \<and> \<not> has_clock_state_store cfg \<and> \<not> has_observe_public_battery cfg then ret PreflightDisabled
      else
        seqp (session_check_stop ask cfg)
       (seqp (update_state (\<lambda>s. s\<lparr>phase_value := Phase_Telemetry\<rparr>))
         (catchp
           (seqp (session_check_stop ask cfg)
           (seqp (serve ask cfg Telemetry_Work fuel (Ask_Telemetry (\<not> has_operational cfg \<and> \<not> has_clock_state_store cfg)) ans_unit)
             (ret PreflightCompleted)))
           (\<lambda>e. if is_fatal_storage e \<or> \<not> exception_raised e then raise e
                else seqp (report_session_error ask cfg Phase_Telemetry e) (ret PreflightDegraded)))))"

definition refresh_battery :: "life_ports \<Rightarrow> session_config \<Rightarrow> nat \<Rightarrow> unit life" where
  "refresh_battery ask cfg fuel =
     whenp (has_operational cfg \<or> has_observe_public_battery cfg)
       (unless_fatal
         (seqp (session_check_stop ask cfg) (serve ask cfg Battery_Work fuel Ask_Battery ans_unit))
         (report_session_error ask cfg Phase_Telemetry))"

section \<open>The session machine\<close>

fun machine_error :: "session_error \<Rightarrow> raised" where
  "machine_error (SessionTransitionError m) = Raised (Session_Machine_Class ''SessionTransitionError'') m None"
| "machine_error (SessionValueError m) = Raised (Session_Machine_Class ''ValueError'') m None"

definition machine_result :: "(session_error, 'r) result \<Rightarrow> (raised, 'r) result" where
  "machine_result r = (case r of Inl e \<Rightarrow> Inl (machine_error e) | Inr x \<Rightarrow> Inr x)"

definition require_session_command :: "session_command \<Rightarrow> unit life" where
  "require_session_command c = bindp get_state (\<lambda>s. lift_result (machine_result (require_command (execution_machine s) c)))"

definition step_machine :: "session_event \<Rightarrow> unit life" where
  "step_machine event =
     bindp get_state (\<lambda>s.
     bindp (lift_result (machine_result (session_transition (execution_machine s) event))) (\<lambda>t.
     update_state (\<lambda>s. s\<lparr>execution_machine := t\<rparr>)))"

text \<open>The event for an exception that ends the pending effect without a retry.\<close>

definition failure_event :: "raised \<Rightarrow> session_event" where
  "failure_event e = (if is_cancellation e then CancellationObserved else EffectFailed None)"

section \<open>READ\<close>

definition empty_ring :: "ring_info \<Rightarrow> bool" where
  "empty_ring i \<longleftrightarrow> read_sequence i = write_sequence i"

text \<open>A drained step: the fresh INFO of a verified drain may show new records, and then the loop goes on.\<close>

definition confirm_drain :: "life_ports \<Rightarrow> session_config \<Rightarrow> ring_info option \<Rightarrow> (ring_info, ring_info) result life" where
  "confirm_drain ask cfg current =
     (case current of
        None \<Rightarrow> raise (Raised Runtime_Class ''drained session lacks a fresh empty-ring cursor'' None)
      | Some i \<Rightarrow>
          if \<not> empty_ring i then raise (Raised Runtime_Class ''drained session lacks a fresh empty-ring cursor'' None)
          else if \<not> has_close_verified_drain cfg
          then seqp (update_state (\<lambda>s. s\<lparr>pending_drain_cursor := Some (read_sequence i)\<rparr>)) (ret (Inr i))
          else
            bindp (info ask cfg) (\<lambda>final.
            if \<not> empty_ring final then ret (Inl final)
            else
              seqp (update_state (\<lambda>s. s\<lparr>pending_drain_cursor := Some (read_sequence final), verified_drain_info := Some final,
                                       verified_drain_observed_at := last_info_observed_at s\<rparr>))
                (ret (Inr final))))"

fun read_to_terminal ::
  "life_ports \<Rightarrow> session_config \<Rightarrow> nat \<Rightarrow> session_state \<Rightarrow> ring_info option \<Rightarrow> (session_outcome \<times> session_state) life" where
  "read_to_terminal ask cfg 0 machine current = raise out_of_fuel"
| "read_to_terminal ask cfg (Suc n) machine current =
     seqp (update_state (\<lambda>s. s\<lparr>phase_value := Phase_Read\<rparr>))
    (seqp (lift_result (machine_result (require_command machine CmdRead)))
    (bindp (serve ask cfg Step_Work n (Ask_Step current) ans_step) (\<lambda>(outcome, now).
     if outcome = Some OutDrained then
       bindp (confirm_drain ask cfg now) (\<lambda>confirmed.
       case confirmed of
         Inl fresh \<Rightarrow> read_to_terminal ask cfg n machine (Some fresh)
       | Inr final \<Rightarrow>
           seqp (refresh_battery ask cfg n)
          (bindp (lift_result (machine_result (session_transition machine (ReadResolved ReadDrained)))) (\<lambda>t. ret (OutDrained, t))))
     else if outcome = Some OutCollected then
       seqp (whenp (now \<noteq> None) (refresh_battery ask cfg n))
      (bindp (lift_result (machine_result (session_transition machine (ReadResolved ReadCollected)))) (\<lambda>t. ret (OutCollected, t)))
     else
       bindp (lift_result (machine_result (session_transition machine (ReadResolved ReadPending)))) (\<lambda>t.
       read_to_terminal ask cfg n t now))))"

section \<open>Errors and teardown\<close>

definition session_retry_outcome :: "(raised \<Rightarrow> bool) \<Rightarrow> raised \<Rightarrow> bool \<Rightarrow> session_outcome option" where
  "session_retry_outcome busy e linked =
     (if \<not> retryable busy e then None
      else if class_of e = Candidate_Unavailable_Class then Some OutCandidateUnavailable
      else if linked then Some OutConnectedInterrupted
      else Some OutRetry)"

definition stop_after_interruption :: "life_ports \<Rightarrow> session_config \<Rightarrow> unit life" where
  "stop_after_interruption ask cfg =
     catchp (bounded ask cfg (Ask_Write_Control encode_stop_command) ans_unit)
       (\<lambda>e. if exception_raised e then ret () else raise e)"

definition recoverable_session_outcome :: "life_ports \<Rightarrow> session_config \<Rightarrow> bool \<Rightarrow> session_phase \<Rightarrow> raised \<Rightarrow> session_outcome life" where
  "recoverable_session_outcome ask cfg linked phase e =
     seqp (report_session_error ask cfg phase e)
       (case session_retry_outcome (is_device_busy cfg) e linked of
          None \<Rightarrow> seqp (report_session_activity ask cfg (new_activity ''fatal'' None)) (raise e)
        | Some outcome \<Rightarrow>
            seqp (whenp (linked \<and> phase = Phase_Read \<and> class_of e \<noteq> Transfer_Interrupted_Class) (stop_after_interruption ask cfg))
              (ret outcome))"

text \<open>The exception of a context that closes after another one is returned and not raised.\<close>

definition exit_context :: "life_ports \<Rightarrow> session_config \<Rightarrow> raised option \<Rightarrow> raised option life" where
  "exit_context ask cfg primary =
     catchp (seqp (bounded ask cfg (Ask_Exit primary) ans_unit) (ret None))
       (\<lambda>e. if is_cancellation e \<or> primary = None then raise e else ret (Some e))"

definition teardown_was_interrupted :: "life_ports \<Rightarrow> session_config \<Rightarrow> raised option \<Rightarrow> bool life" where
  "teardown_was_interrupted ask cfg primary =
     bindp (capture (exit_context ask cfg primary)) (\<lambda>r.
     case r of
       Inl e \<Rightarrow>
         if is_cancellation e then raise e
         else
           seqp (report_session_error ask cfg Phase_Teardown e)
             (if retryable (is_device_busy cfg) e then ret True
              else seqp (whenp (primary = None) (report_session_activity ask cfg (new_activity ''fatal'' None))) (raise e))
     | Inr secondary \<Rightarrow>
         seqp (case secondary of None \<Rightarrow> ret () | Some e \<Rightarrow> report_session_error ask cfg Phase_Teardown e) (ret False))"

definition resolve_session_error :: "life_ports \<Rightarrow> session_config \<Rightarrow> raised \<Rightarrow> unit life" where
  "resolve_session_error ask cfg e =
     seqp
       (catchp
         (seqp (whenp (storage_not_ready_ack e \<noteq> None) (record_storage_unavailable ask cfg))
         (bindp get_state (\<lambda>s.
          bindp (recoverable_session_outcome ask cfg (execution_session s) (phase_value s) e) (\<lambda>x.
          update_state (\<lambda>s. s\<lparr>execution_outcome := Some x\<rparr>)))))
         (\<lambda>x. seqp (step_machine (failure_event x)) (raise x)))
       (bindp get_state (\<lambda>s. step_machine (EffectFailed (execution_outcome s))))"

section \<open>The session\<close>

definition session_body :: "life_ports \<Rightarrow> session_config \<Rightarrow> nat \<Rightarrow> unit life" where
  "session_body ask cfg fuel =
     seqp (require_session_command CmdConnect)
    (seqp (bounded ask cfg Ask_Enter ans_unit)
    (seqp (update_state (\<lambda>s. s\<lparr>execution_session := True\<rparr>))
    (seqp (step_machine Connected)
    (seqp (update_state (\<lambda>s. s\<lparr>phase_value := Phase_Info\<rparr>))
    (seqp (require_session_command CmdInfo)
    (bindp (info ask cfg) (\<lambda>i.
     seqp (step_machine InfoResolved)
    (seqp (require_session_command CmdPreflight)
    (bindp (collect_telemetry ask cfg fuel) (\<lambda>preflight.
     seqp (step_machine (PreflightResolved preflight))
    (bindp get_state (\<lambda>s.
     bindp (read_to_terminal ask cfg fuel (execution_machine s) (Some i)) (\<lambda>(outcome, machine).
     update_state (\<lambda>s. s\<lparr>execution_outcome := Some outcome, execution_machine := machine\<rparr>))))))))))))))"

definition session_failed :: "life_ports \<Rightarrow> session_config \<Rightarrow> raised \<Rightarrow> unit life" where
  "session_failed ask cfg e =
     (if is_cancellation e then
        seqp (update_state (\<lambda>s. s\<lparr>execution_primary := Some e\<rparr>)) (seqp (step_machine CancellationObserved) (raise e))
      else if exception_raised e then
        seqp (update_state (\<lambda>s. s\<lparr>execution_primary := Some e\<rparr>)) (resolve_session_error ask cfg e)
      else raise e)"

definition session_teardown :: "life_ports \<Rightarrow> session_config \<Rightarrow> unit life" where
  "session_teardown ask cfg =
     bindp get_state (\<lambda>s.
     whenp (execution_session s)
       (seqp (require_session_command CmdTeardown)
       (bindp (teardown_was_interrupted ask cfg (execution_primary s)) (\<lambda>interrupted.
        seqp (update_state (\<lambda>s. s\<lparr>execution_teardown_error := interrupted\<rparr>)) (step_machine (TeardownResolved interrupted))))))"

definition run_session_effects :: "life_ports \<Rightarrow> session_config \<Rightarrow> nat \<Rightarrow> unit life" where
  "run_session_effects ask cfg fuel =
     finally_live (catchp (session_body ask cfg fuel) (session_failed ask cfg)) (session_teardown ask cfg)"

definition guard_failed :: "life_ports \<Rightarrow> session_config \<Rightarrow> session_phase \<Rightarrow> raised \<Rightarrow> unit life" where
  "guard_failed ask cfg phase e =
     (if exception_raised e then
        seqp (catchp (report_session_error ask cfg phase e) (\<lambda>x. raise (if is_fatal_storage e then e else x))) (raise e)
      else raise e)"

text \<open>The guard leaves with the exception of its body, with one of its own, or it swallows the one of its body.\<close>

definition run_guarded_session_effects :: "life_ports \<Rightarrow> session_config \<Rightarrow> nat \<Rightarrow> unit life" where
  "run_guarded_session_effects ask cfg fuel =
     bindp (capture (port ask Ask_Guard_Enter ans_unit)) (\<lambda>entered.
     case entered of
       Inl e \<Rightarrow> guard_failed ask cfg Phase_Connect e
     | Inr _ \<Rightarrow>
         bindp (capture (run_session_effects ask cfg fuel)) (\<lambda>body.
         if body = Inl out_of_fuel then raise out_of_fuel
         else
           bindp (call ask (Ask_Guard_Exit (case body of Inl e \<Rightarrow> Some e | Inr _ \<Rightarrow> None))) (\<lambda>a.
           case a of
             Ans_Raised e \<Rightarrow> guard_failed ask cfg Phase_Teardown e
           | Ans_Suppress \<Rightarrow> ret ()
           | _ \<Rightarrow> lift_result body)))"

definition no_outcome :: raised where
  "no_outcome = Raised Runtime_Class ''opportunistic session ended without an outcome'' None"

definition session_checkpoint :: "life_ports \<Rightarrow> session_outcome life" where
  "session_checkpoint ask =
     seqp (require_session_command CmdCheckpoint)
    (seqp (port ask Ask_Checkpoint ans_unit)
    (seqp (step_machine CheckpointResolved)
    (bindp get_state (\<lambda>s.
     case (if execution_teardown_error s then Some OutConnectedInterrupted else execution_outcome s) of
       None \<Rightarrow> raise no_outcome
     | Some outcome \<Rightarrow>
         seqp (lift_result (machine_result (bind_result (session_transition (execution_machine s) (OutcomeReturned outcome)) (\<lambda>_. Inr ()))))
           (ret outcome)))))"

definition session_ended :: "raised \<Rightarrow> session_outcome life" where
  "session_ended e =
     (if \<not> is_live e then raise e
      else
        seqp (update_state (\<lambda>s. s\<lparr>terminal_error := Some e\<rparr>))
       (bindp get_state (\<lambda>s.
        seqp (whenp (session_cmd (execution_machine s) \<notin> {CmdFailed, CmdCancelled, CmdReturned})
               (step_machine (failure_event e)))
          (raise e))))"

fun outcome_text :: "session_outcome \<Rightarrow> string" where
  "outcome_text OutDrained = ''drained''"
| "outcome_text OutCollected = ''collected''"
| "outcome_text OutRetry = ''retry''"
| "outcome_text OutCandidateUnavailable = ''candidate_unavailable''"
| "outcome_text OutConnectedInterrupted = ''connected_interrupted''"
| "outcome_text (OutUnsupported s) = s"

definition quality_terminal :: "session_outcome option \<Rightarrow> bool \<Rightarrow> raised option \<Rightarrow> (raised \<Rightarrow> bool) \<Rightarrow> string \<times> string" where
  "quality_terminal outcome teardown_error error busy =
     (case error of
        Some e \<Rightarrow>
          if is_cancellation e then (''cancelled'', ''cancelled'')
          else (if retryable busy e then ''retryable_error'' else ''fatal_error'', ''failed'')
      | None \<Rightarrow>
          if teardown_error then (''teardown_interrupted'', ''connected_interrupted'')
          else if outcome = Some OutDrained \<or> outcome = Some OutCollected then (''completed'', outcome_text (the outcome))
          else (''retryable_error'', (case outcome of None \<Rightarrow> ''interrupted'' | Some x \<Rightarrow> if outcome_text x = [] then ''interrupted'' else outcome_text x)))"

definition record_advertisement_quality :: "life_ports \<Rightarrow> session_config \<Rightarrow> int option \<Rightarrow> unit life" where
  "record_advertisement_quality ask cfg rssi =
     (case rssi of
        None \<Rightarrow> ret ()
      | Some r \<Rightarrow>
          whenp (has_quality_metrics cfg)
            (unless_fatal (bindp (host_time ask) (\<lambda>t. port ask (Ask_Metric_Advertisement t r) ans_unit))
              (debug_exception ask ''quality_metrics_write_error'')))"

definition record_session_quality :: "life_ports \<Rightarrow> session_config \<Rightarrow> unit life" where
  "record_session_quality ask cfg =
     bindp get_state (\<lambda>s.
     whenp (has_quality_metrics cfg \<and> attempted_read (phase_quality s))
       (let terminal = quality_terminal (execution_outcome s) (execution_teardown_error s) (terminal_error s) (is_device_busy cfg) in
        unless_fatal
          (bindp (host_time ask) (\<lambda>t. port ask (Ask_Metric_Session t (snd terminal) (fst terminal) (phase_quality s)) ans_unit))
          (debug_exception ask ''quality_metrics_write_error'')))"

text \<open>A failure of the metrics replaces the outcome, unless the session ended with a fatal storage fault.\<close>

definition account_session :: "life_ports \<Rightarrow> session_config \<Rightarrow> unit life" where
  "account_session ask cfg =
     catchp (record_session_quality ask cfg) (\<lambda>x.
       bindp get_state (\<lambda>s.
       case terminal_error s of
         None \<Rightarrow> raise x
       | Some e \<Rightarrow> raise (if is_fatal_storage e then e else x)))"

definition connect_state :: session_state where
  "connect_state = \<lparr>session_cmd = CmdConnect, after_teardown = None, session_out = None, teardown_interrupted = False\<rparr>"

definition begin_session :: "int option \<Rightarrow> unit life" where
  "begin_session rssi =
     update_state (\<lambda>s. s\<lparr>execution_machine := connect_state, execution_session := False, execution_primary := None,
       execution_outcome := None, execution_teardown_error := False, terminal_error := None, phase_value := Phase_Connect,
       phase_quality := new_session_quality rssi, storage_not_ready_responses := 0\<rparr>)"

definition run_session :: "life_ports \<Rightarrow> session_config \<Rightarrow> nat \<Rightarrow> int option \<Rightarrow> session_outcome life" where
  "run_session ask cfg fuel rssi =
     seqp (begin_session rssi)
    (seqp (record_advertisement_quality ask cfg rssi)
      (finally_live
        (catchp
          (seqp (if has_session_guard cfg then run_guarded_session_effects ask cfg fuel else run_session_effects ask cfg fuel)
            (session_checkpoint ask))
          session_ended)
        (account_session ask cfg)))"

end
