(* ===== verification/Session_Frame.thy ===== *)
theory Session_Frame
  imports Session_Lifecycle
begin

text \<open>
  What every part of a session leaves alone.  A frame is a property of the world that some calls keep and that does not
  read the scratch fields of the lifecycle; \<open>session_frame\<close> shows once, for every such property, that reports, metrics,
  INFO, telemetry and the callbacks keep it and raise only tame exceptions.  Its instances carry the proofs about the
  order of the session and about the drain it confirms.
\<close>

section \<open>Ports that behave like Python code\<close>

text \<open>
  A port raises an \<open>Exception\<close> or a cancellation, never one of the two faults that the lifecycle raises about itself, a
  bounded operation is interrupted by such an exception only, and the guard does not swallow the exception of its body.
  What happens without this is shown at the end of \<open>Session_Order\<close>.
\<close>

definition ordinary :: "raised \<Rightarrow> bool" where
  "ordinary e \<longleftrightarrow> (exception_raised e \<or> is_cancellation e) \<and> (\<forall>n. class_of e \<noteq> Session_Machine_Class n) \<and> e \<noteq> no_outcome"

definition orderly :: "life_ports \<Rightarrow> bool" where
  "orderly ask \<longleftrightarrow> (\<forall>h c e. ask h c = Ans_Raised e \<longrightarrow> ordinary e)
     \<and> (\<forall>h c e b. ask h c = Ans_Abandoned (Some e) b \<longrightarrow> ordinary e) \<and> (\<forall>h x. ask h (Ask_Guard_Exit x) \<noteq> Ans_Suppress)"

definition tame :: "raised \<Rightarrow> bool" where
  "tame e \<longleftrightarrow> ordinary e \<or> e = out_of_fuel"

lemma tame_live: "tame e \<Longrightarrow> is_live e \<longleftrightarrow> e \<noteq> out_of_fuel"
  by (auto simp: tame_def ordinary_def is_live_def out_of_fuel_def exception_raised_def is_cancellation_def)

lemma tame_out_of_fuel [simp]: "tame out_of_fuel" "\<not> is_live out_of_fuel" "\<not> exception_raised out_of_fuel" "\<not> is_cancellation out_of_fuel"
  by (simp_all add: tame_def is_live_def out_of_fuel_def exception_raised_def is_cancellation_def)

lemma tame_type_error [simp]: "tame type_error"
  by (simp add: tame_def ordinary_def type_error_def exception_raised_def no_outcome_def)

lemma tame_own [simp]:
  "tame (Raised Value_Class m c)" "tame (Raised Storage_Not_Ready_Session_Class m c)" "tame (Raised (Exception_Class n) m c)"
  "tame (Raised Runtime_Class ''drained session lacks a fresh empty-ring cursor'' c)"
  by (simp_all add: tame_def ordinary_def exception_raised_def no_outcome_def)

text \<open>A reading of an answer raises what the port raised, or complains about the type of the answer.\<close>

definition reads :: "(life_answer \<Rightarrow> (raised, 'r) result) \<Rightarrow> bool" where
  "reads f \<longleftrightarrow> (\<forall>a e. f a = Inl e \<longrightarrow>
     a = Ans_Raised e \<or> (\<exists>b. a = Ans_Abandoned (Some e) b) \<or> e = operation_timed_out \<or> e = type_error)"

lemma reads_ans [simp, intro]: "reads ans_unit" "reads ans_time" "reads ans_info" "reads ans_step"
  unfolding reads_def by (auto elim: ans_unit.elims ans_time.elims ans_info.elims ans_step.elims)

lemma reads_race [simp, intro]: "reads f \<Longrightarrow> reads (race_result f)"
  unfolding reads_def race_result_def by (auto split: life_answer.splits option.splits)

lemma tame_timed_out [simp]: "tame operation_timed_out"
  by (simp add: tame_def ordinary_def operation_timed_out_def exception_raised_def no_outcome_def)

lemma orderly_reads: "orderly ask \<Longrightarrow> reads f \<Longrightarrow> f (ask h c) = Inl e \<Longrightarrow> tame e"
  unfolding orderly_def reads_def by (metis tame_def tame_type_error tame_timed_out)

fun noise :: "life_call \<Rightarrow> bool" where
  "noise Ask_Host_Time = True"
| "noise Ask_Clock = True"
| "noise (Ask_Sleep _) = True"
| "noise Ask_Stop_Intent = True"
| "noise (Ask_Debug _ _) = True"
| "noise (Ask_Activity _) = True"
| "noise (Ask_Emit _) = True"
| "noise (Ask_Metric_Advertisement _ _) = True"
| "noise (Ask_Metric_Session _ _ _ _) = True"
| "noise (Ask_Metric_Clock _ _ _) = True"
| "noise Ask_Guard_Enter = True"
| "noise (Ask_Guard_Exit _) = True"
| "noise (Ask_Observe_Info _) = True"
| "noise (Ask_Public_Info _ _) = True"
| "noise (Ask_Storage_Unavailable _) = True"
| "noise (Ask_Public_Battery _ _) = True"
| "noise _ = False"

section \<open>Frames\<close>

locale session_frame =
  fixes ask :: life_ports
    and permits :: "life_call \<Rightarrow> bool"
    and I :: "life_world \<Rightarrow> bool"
  assumes orderly: "orderly ask"
    and admits: "permits c \<Longrightarrow> I w \<Longrightarrow> I (w\<lparr>history := history w @ [(c, ask (history w) c)]\<rparr>)"
    and noise_permitted: "noise c \<Longrightarrow> permits c"
    and scratch: "I w \<Longrightarrow> I (w\<lparr>local_state := (local_state w)\<lparr>storage_not_ready_responses := n, last_info_observed_at := t,
                                   phase_value := p, phase_quality := q\<rparr>\<rparr>)"
begin

lemma scratch_responses: "I w \<Longrightarrow> I (w\<lparr>local_state := (local_state w)\<lparr>storage_not_ready_responses := n\<rparr>\<rparr>)"
  using scratch [of w "phase_quality (local_state w)" "phase_value (local_state w)" "last_info_observed_at (local_state w)" n] by simp

lemma scratch_observed: "I w \<Longrightarrow> I (w\<lparr>local_state := (local_state w)\<lparr>last_info_observed_at := t\<rparr>\<rparr>)"
  using scratch [of w "phase_quality (local_state w)" "phase_value (local_state w)" t "storage_not_ready_responses (local_state w)"] by simp

lemma scratch_phase: "I w \<Longrightarrow> I (w\<lparr>local_state := (local_state w)\<lparr>phase_value := p\<rparr>\<rparr>)"
  using scratch [of w "phase_quality (local_state w)" p "last_info_observed_at (local_state w)" "storage_not_ready_responses (local_state w)"] by simp

lemma scratch_quality: "I w \<Longrightarrow> I (w\<lparr>local_state := (local_state w)\<lparr>phase_quality := q\<rparr>\<rparr>)"
  using scratch [of w q "phase_value (local_state w)" "last_info_observed_at (local_state w)" "storage_not_ready_responses (local_state w)"] by simp

lemma scratch_note: "I w \<Longrightarrow> I (w\<lparr>local_state := (local_state w)\<lparr>phase_value := p, phase_quality := q\<rparr>\<rparr>)"
  using scratch [of w q p "last_info_observed_at (local_state w)" "storage_not_ready_responses (local_state w)"] by simp

lemma keeps_ask: "permits c \<Longrightarrow> reads f \<Longrightarrow> keeps I tame (port ask c f)"
  by (rule keeps_port) (auto intro: admits orderly_reads [OF orderly])

lemma keeps_noise: "noise c \<Longrightarrow> reads f \<Longrightarrow> keeps I tame (port ask c f)"
  by (rule keeps_ask [OF noise_permitted])

lemmas step_keeps = keeps_bindp keeps_seqp keeps_ret keeps_whenp keeps_get_state keeps_let

lemma host_time_keeps: "keeps I tame (host_time ask)"
  unfolding host_time_def by (rule keeps_noise) auto

lemma check_stop_keeps: "keeps I tame (session_check_stop ask cfg)"
  unfolding session_check_stop_def by (intro step_keeps keeps_noise) auto

lemma debug_keeps: "keeps I tame (debug_exception ask event e)"
  unfolding debug_exception_def by (rule keeps_noise) auto

lemma sleep_keeps: "keeps I tame (sleep ask d)"
  unfolding sleep_def by (rule keeps_noise) auto

lemma activity_keeps: "keeps I tame (report_session_activity ask cfg event)"
  unfolding report_session_activity_def by (intro step_keeps keeps_noise) auto

lemma bounded_keeps: "permits c \<Longrightarrow> reads f \<Longrightarrow> keeps I tame (bounded ask cfg c f)"
  unfolding bounded_def by (intro keeps_seqp keeps_assertp keeps_ask) auto

lemma error_report_keeps: "keeps I tame (report_session_error ask cfg phase e)"
  unfolding report_session_error_def by (intro step_keeps debug_keeps activity_keeps)

lemma unavailable_keeps: "keeps I tame (record_storage_unavailable ask cfg)"
  unfolding record_storage_unavailable_def by (intro step_keeps host_time_keeps keeps_noise) auto

lemma public_info_keeps: "keeps I tame (observe_public_info ask cfg i)"
  unfolding observe_public_info_def
  by (intro step_keeps host_time_keeps keeps_noise keeps_update_state scratch_observed) auto

lemma public_battery_keeps: "keeps I tame (observe_public_battery ask cfg p)"
  unfolding observe_public_battery_def by (intro step_keeps host_time_keeps keeps_noise) auto

lemma unless_fatal_keeps: "keeps I tame m \<Longrightarrow> (\<And>e. keeps I tame (h e)) \<Longrightarrow> keeps I tame (unless_fatal m h)"
  unfolding unless_fatal_def by (intro keeps_catchp keeps_if keeps_raise)

lemma clock_correction_keeps: "keeps I tame (record_clock_correction ask event)"
  unfolding record_clock_correction_def by (intro step_keeps unless_fatal_keeps host_time_keeps keeps_noise) auto

lemma emit_keeps: "keeps I tame (emit_event ask cfg event)"
  unfolding emit_event_def
  by (intro step_keeps clock_correction_keeps keeps_noise keeps_update_state scratch_quality) auto

lemma info_once_keeps: "permits Ask_Info \<Longrightarrow> keeps I tame (info_once ask cfg)"
  unfolding info_once_def
  by (intro step_keeps bounded_keeps public_info_keeps unless_fatal_keeps debug_keeps keeps_ask) (auto intro: noise_permitted)

lemma info_loop_keeps: "permits Ask_Info \<Longrightarrow> keeps I tame (info_loop ask cfg n)"
proof (induction n)
  case 0
  then show ?case by (simp add: keeps_raise)
next
  case (Suc n)
  have "keeps I tame (lift_result (storage_not_ready_delay k b))" for k b
    by (rule keeps_lift) (auto simp: storage_not_ready_delay_def split: if_splits)
  then show ?case
    unfolding info_loop.simps info_not_ready_def
    by (intro keeps_catchp keeps_if keeps_raise step_keeps info_once_keeps unavailable_keeps activity_keeps sleep_keeps
        keeps_update_state scratch_responses Suc.IH Suc.prems) auto
qed

lemma info_keeps: "permits Ask_Info \<Longrightarrow> keeps I tame (info ask cfg)"
  unfolding info_def by (intro step_keeps info_loop_keeps)

lemma reenter_keeps: "(a = Ans_Want_Info \<Longrightarrow> permits Ask_Info) \<Longrightarrow> keeps I tame (reenter ask cfg a)"
  unfolding reenter_def no_info_def
  by (cases a) (auto intro!: step_keeps info_keeps public_battery_keeps emit_keeps keeps_update_state scratch_note)

lemma serve_keeps:
  "permits c \<Longrightarrow> (\<And>r. permits (Ask_Continue r)) \<Longrightarrow> (kind \<noteq> Battery_Work \<Longrightarrow> permits Ask_Info) \<Longrightarrow> reads f \<Longrightarrow>
   keeps I tame (serve ask cfg kind n c f)"
proof (induction n arbitrary: c)
  case 0
  then show ?case by (simp add: keeps_raise)
next
  case (Suc n)
  have "keeps I tame (if offered kind a then bindp (capture (reenter ask cfg a)) (\<lambda>r. serve ask cfg kind n (Ask_Continue r) f)
      else lift_result (f a))" if a: "a = ask h c" for a h
  proof (intro keeps_if keeps_captured reenter_keeps Suc.IH Suc.prems keeps_lift)
    show "tame e" if "f a = Inl e" for e using that a orderly_reads [OF orderly Suc.prems(4)] by simp
  qed (use Suc.prems in auto)
  then show ?case by (auto intro!: keeps_call admits Suc.prems)
qed

lemma telemetry_keeps:
  assumes "\<And>b. permits (Ask_Telemetry b)" and "\<And>r. permits (Ask_Continue r)" and "permits Ask_Info"
  shows "keeps I tame (collect_telemetry ask cfg n)"
  unfolding collect_telemetry_def
  by (intro keeps_if keeps_catchp keeps_raise step_keeps check_stop_keeps error_report_keeps keeps_update_state scratch_phase
      serve_keeps assms) auto

lemma battery_keeps: "permits Ask_Battery \<Longrightarrow> (\<And>r. permits (Ask_Continue r)) \<Longrightarrow> keeps I tame (refresh_battery ask cfg n)"
  unfolding refresh_battery_def
  by (intro step_keeps unless_fatal_keeps check_stop_keeps error_report_keeps serve_keeps) auto

lemma stop_keeps: "(\<And>f. permits (Ask_Write_Control f)) \<Longrightarrow> keeps I tame (stop_after_interruption ask cfg)"
  unfolding stop_after_interruption_def
  by (intro keeps_catchp keeps_if keeps_ret keeps_raise bounded_keeps keeps_ask) auto

lemma recoverable_keeps:
  "(\<And>f. linked \<Longrightarrow> permits (Ask_Write_Control f)) \<Longrightarrow> tame e \<Longrightarrow> keeps I tame (recoverable_session_outcome ask cfg linked phase e)"
  unfolding recoverable_session_outcome_def
  by (intro step_keeps keeps_option keeps_raise error_report_keeps activity_keeps stop_keeps) auto

lemma advertisement_keeps: "keeps I tame (record_advertisement_quality ask cfg rssi)"
  unfolding record_advertisement_quality_def
  by (intro keeps_option step_keeps unless_fatal_keeps host_time_keeps debug_keeps keeps_noise) auto

lemma quality_keeps: "keeps I tame (record_session_quality ask cfg)"
  unfolding record_session_quality_def
  by (intro step_keeps unless_fatal_keeps host_time_keeps debug_keeps keeps_noise) auto

lemma guard_failed_keeps: "tame e \<Longrightarrow> keeps I tame (guard_failed ask cfg phase e)"
  unfolding guard_failed_def
  by (intro keeps_if keeps_seqp keeps_catchp keeps_raise error_report_keeps) auto

end

end
