(* ===== verification/Session_Order.thy ===== *)
theory Session_Order
  imports Session_Frame
begin

text \<open>
  The order of the effects of a physical session, for every behaviour of the ports: the link is used only while it is
  open, it is closed before the checkpoint and however the session ends, and the session machine never refuses a step of
  the driver.
\<close>

section \<open>The link\<close>

fun link_step :: "bool \<Rightarrow> life_call \<times> life_answer \<Rightarrow> bool" where
  "link_step b (Ask_Enter, a) = (if race_result ans_unit a = Inr () then True else b)"
| "link_step b (Ask_Exit _, a) = False"
| "link_step b _ = b"

text \<open>The session was given an entered transport context and has not requested its exit since.\<close>

definition link_open :: "life_history \<Rightarrow> bool" where
  "link_open h = foldl link_step False h"

lemma link_open_Nil [simp]: "\<not> link_open []"
  by (simp add: link_open_def)

lemma link_open_snoc [simp]: "link_open (h @ [x]) = link_step (link_open h) x"
  by (simp add: link_open_def)

fun link_work :: "life_call \<Rightarrow> bool" where
  "link_work Ask_Info = True"
| "link_work (Ask_Telemetry _) = True"
| "link_work Ask_Battery = True"
| "link_work (Ask_Step _) = True"
| "link_work (Ask_Continue _) = True"
| "link_work (Ask_Write_Control _) = True"
| "link_work _ = False"

fun is_exit :: "life_call \<Rightarrow> bool" where
  "is_exit (Ask_Exit _) = True" | "is_exit _ = False"

text \<open>
  Work on the link and its exit need an open link; a connection, a checkpoint and every other effect of the visit need a
  closed one.  Clocks, reports, metrics and observers may be called at any time.
\<close>

definition session_allowed :: "life_history \<Rightarrow> life_call \<Rightarrow> bool" where
  "session_allowed h c \<longleftrightarrow> (if noise c then True else if link_work c \<or> is_exit c then link_open h else \<not> link_open h)"

lemma link_step_other: "c \<noteq> Ask_Enter \<Longrightarrow> \<not> is_exit c \<Longrightarrow> link_step b (c, a) = b"
  by (cases "(b, (c, a))" rule: link_step.cases) auto

lemma noise_link: "noise c \<Longrightarrow> link_step b (c, a) = b"
  by (cases c) auto

lemma work_link: "link_work c \<Longrightarrow> link_step b (c, a) = b"
  by (cases c) auto

lemma noise_work: "noise c \<Longrightarrow> \<not> link_work c" "noise c \<Longrightarrow> \<not> is_exit c"
  by (cases c; simp)+

section \<open>The frame of a session\<close>

definition core :: "session_life \<Rightarrow> session_state \<times> bool \<times> raised option \<times> session_outcome option \<times> bool" where
  "core s = (execution_machine s, execution_session s, execution_primary s, execution_outcome s, execution_teardown_error s)"

text \<open>The machine, the execution and the link stand still.\<close>

definition still :: "session_state \<times> bool \<times> raised option \<times> session_outcome option \<times> bool \<Rightarrow> bool \<Rightarrow> life_world \<Rightarrow> bool" where
  "still k b w \<longleftrightarrow> core (local_state w) = k \<and> terminal_error (local_state w) = None \<and> guarded session_allowed (history w) \<and> link_open (history w) = b"

definition still_permits :: "bool \<Rightarrow> life_call \<Rightarrow> bool" where
  "still_permits b c \<longleftrightarrow> noise c \<or> b \<and> link_work c"

text \<open>The ports with their disorderly answers replaced; orderly ports are unchanged.\<close>

definition tidy :: "life_ports \<Rightarrow> life_ports" where
  "tidy ask h c =
     (case ask h c of
        Ans_Raised e \<Rightarrow> if ordinary e then Ans_Raised e else Ans_Ok
      | Ans_Abandoned (Some e) b \<Rightarrow> if ordinary e then Ans_Abandoned (Some e) b else Ans_Ok
      | Ans_Suppress \<Rightarrow> (case c of Ask_Guard_Exit _ \<Rightarrow> Ans_Ok | _ \<Rightarrow> Ans_Suppress)
      | a \<Rightarrow> a)"

lemma tidy_orderly: "orderly (tidy ask)"
  by (auto simp: orderly_def tidy_def split: life_answer.splits life_call.splits option.splits if_splits)

lemma tidy_id: "orderly ask \<Longrightarrow> tidy ask = ask"
proof (intro ext)
  fix h c
  assume "orderly ask"
  then have "ask h c = Ans_Raised e \<Longrightarrow> ordinary e" "ask h c = Ans_Abandoned (Some e) b \<Longrightarrow> ordinary e"
    "ask h (Ask_Guard_Exit x) \<noteq> Ans_Suppress" for e b x
    unfolding orderly_def by blast+
  then show "tidy ask h c = ask h c"
    unfolding tidy_def by (auto split: life_answer.splits life_call.splits option.splits)
qed

interpretation st: session_frame "tidy ask" "still_permits b" "still k b" for ask b k
  by unfold_locales
    (auto simp: tidy_orderly still_permits_def still_def core_def session_allowed_def noise_link work_link noise_work)

lemma still_drain:
  "still k b w \<Longrightarrow> still k b (w\<lparr>local_state := (local_state w)\<lparr>pending_drain_cursor := x\<rparr>\<rparr>)"
  "still k b w \<Longrightarrow> still k b (w\<lparr>local_state := (local_state w)\<lparr>pending_drain_cursor := x, verified_drain_info := y, verified_drain_observed_at := z\<rparr>\<rparr>)"
  by (simp_all add: still_def core_def)

section \<open>READ\<close>

abbreviation handover :: "session_outcome \<Rightarrow> session_state" where
  "handover x \<equiv> sess_at CmdTeardown (Some AfterCheckpoint) (Some x) False"

definition fails_still :: "session_state \<times> bool \<times> raised option \<times> session_outcome option \<times> bool \<Rightarrow> bool \<Rightarrow> raised \<Rightarrow> life_world \<Rightarrow> bool" where
  "fails_still k b e w \<longleftrightarrow> tame e \<and> still k b w"

lemma hoare_still: "keeps (still k b) tame m \<Longrightarrow> hoare (still k b) m (\<lambda>_. still k b) (fails_still k b)"
  unfolding fails_still_def by (rule hoare_keeps)

lemma confirm_drain_keeps: "keeps (still k True) tame (confirm_drain (tidy ask) cfg current)"
  unfolding confirm_drain_def
  by (intro keeps_option keeps_if keeps_raise st.step_keeps st.info_keeps keeps_update_state still_drain)
    (auto simp: still_permits_def)

lemma read_moves:
  "session_transition (sess_plain CmdRead) (ReadResolved ReadDrained) = Inr (handover OutDrained)"
  "session_transition (sess_plain CmdRead) (ReadResolved ReadCollected) = Inr (handover OutCollected)"
  "session_transition (sess_plain CmdRead) (ReadResolved ReadPending) = Inr (sess_plain CmdRead)"
  by (simp_all add: move_open)

definition read_done :: "session_state \<times> bool \<times> raised option \<times> session_outcome option \<times> bool \<Rightarrow> session_outcome \<times> session_state \<Rightarrow> life_world \<Rightarrow> bool" where
  "read_done k r w \<longleftrightarrow> still k True w \<and> fst r \<in> {OutDrained, OutCollected} \<and> snd r = handover (fst r)"

lemma read_to_terminal_order:
  "hoare (still k True) (read_to_terminal (tidy ask) cfg n (sess_plain CmdRead) current) (read_done k) (fails_still k True)"
proof (induction n arbitrary: current)
  case 0
  then show ?case by (simp add: hoare_raise fails_still_def)
next
  case (Suc n)
  have battery: "hoare (still k True) (refresh_battery (tidy ask) cfg n) (\<lambda>_. still k True) (fails_still k True)"
    by (intro hoare_still st.battery_keeps) (auto simp: still_permits_def)
  have phase: "hoare (still k True) (update_state (\<lambda>s. s\<lparr>phase_value := p\<rparr>)) (\<lambda>_. still k True) (fails_still k True)" for p
    by (intro hoare_still keeps_update_state st.scratch_phase)
  have step: "hoare (still k True) (serve (tidy ask) cfg Step_Work n (Ask_Step current) ans_step) (\<lambda>_. still k True) (fails_still k True)"
    by (intro hoare_still st.serve_keeps) (auto simp: still_permits_def)
  have confirm: "hoare (still k True) (confirm_drain (tidy ask) cfg now) (\<lambda>_. still k True) (fails_still k True)" for now
    by (intro hoare_still confirm_drain_keeps)
  have collected: "hoare (still k True) (seqp (whenp b (refresh_battery (tidy ask) cfg n))
       (bindp (lift_result (machine_result (session_transition (sess_plain CmdRead) (ReadResolved ReadCollected)))) (\<lambda>t. ret (OutCollected, t))))
     (read_done k) (fails_still k True)" for b
    by (intro hoare_seqp [where R = "still k True"] hoare_lift_Inr [where x = "handover OutCollected"] hoare_ret)
      (auto simp: whenp_def read_moves machine_result_def read_done_def intro: battery hoare_ret)
  have drained: "hoare (still k True) (seqp (refresh_battery (tidy ask) cfg n)
       (bindp (lift_result (machine_result (session_transition (sess_plain CmdRead) (ReadResolved ReadDrained)))) (\<lambda>t. ret (OutDrained, t))))
     (read_done k) (fails_still k True)"
    by (intro hoare_seqp [OF battery] hoare_lift_Inr [where x = "handover OutDrained"] hoare_ret)
      (auto simp: read_moves machine_result_def read_done_def)
  show ?case
    unfolding read_to_terminal.simps
    by (intro hoare_seqp [OF phase] hoare_lift_unit hoare_bindp [OF step] hoare_pair hoare_if hoare_bindp [OF confirm] hoare_sum
        collected drained Suc.IH hoare_lift_Inr [where x = "sess_plain CmdRead"])
      (auto simp: read_moves machine_result_def require_command_def require_def)
qed

section \<open>Connecting and reading\<close>

lemma step_order:
  "session_transition m event = Inr t \<Longrightarrow>
   hoare (still (m, s, p, x, d) b) (step_machine event) (\<lambda>_. still (t, s, p, x, d) b) E"
  unfolding step_machine_def
  by (auto simp: hoare_def wp_simps still_def core_def machine_result_def)

lemma require_order:
  "session_cmd m = c \<Longrightarrow> hoare (still (m, s, p, x, d) b) (require_session_command c) (\<lambda>_. still (m, s, p, x, d) b) E"
  unfolding require_session_command_def
  by (auto simp: hoare_def wp_simps still_def core_def machine_result_def require_command_def require_def)

abbreviation "unconnected \<equiv> (sess_plain CmdConnect, False, None :: raised option, None :: session_outcome option, False)"
abbreviation "underway c \<equiv> (sess_plain c, True, None :: raised option, None :: session_outcome option, False)"

definition body_failed :: "raised \<Rightarrow> life_world \<Rightarrow> bool" where
  "body_failed e w \<longleftrightarrow>
     tame e \<and> (still unconnected False w \<or> (\<exists>c \<in> {CmdInfo, CmdPreflight, CmdRead}. still (underway c) True w))"

definition body_done :: "unit \<Rightarrow> life_world \<Rightarrow> bool" where
  "body_done _ w \<longleftrightarrow> (\<exists>x \<in> {OutDrained, OutCollected}. still (handover x, True, None, Some x, False) True w)"

lemma fails_body:
  "fails_still unconnected False e w \<Longrightarrow> body_failed e w"
  "c \<in> {CmdInfo, CmdPreflight, CmdRead} \<Longrightarrow> fails_still (underway c) True e w \<Longrightarrow> body_failed e w"
  by (auto simp: fails_still_def body_failed_def)

lemma underway_keeps:
  "c \<in> {CmdInfo, CmdPreflight, CmdRead} \<Longrightarrow> keeps (still (underway c) True) tame m \<Longrightarrow>
   hoare (still (underway c) True) m (\<lambda>_. still (underway c) True) body_failed"
  by (rule hoare_post [OF hoare_still]) (auto intro: fails_body)

lemma telemetry_result:
  "hoare P (collect_telemetry ask cfg n) (\<lambda>p _. p \<in> {PreflightDisabled, PreflightCompleted, PreflightDegraded}) (\<lambda>_ _. True)"
  unfolding collect_telemetry_def
  by (intro hoare_if hoare_seqp [OF hoare_any] hoare_catchp [where F = "\<lambda>_ _. True"] hoare_ret hoare_raise) auto

lemma telemetry_order:
  "hoare (still (underway CmdPreflight) True) (collect_telemetry (tidy ask) cfg n)
     (\<lambda>p w. p \<in> {PreflightDisabled, PreflightCompleted, PreflightDegraded} \<and> still (underway CmdPreflight) True w) body_failed"
  by (rule hoare_post [OF hoare_conj [OF telemetry_result underway_keeps]])
    (auto intro: st.telemetry_keeps simp: still_permits_def)

lemma open_moves:
  "session_transition (sess_plain CmdConnect) Connected = Inr (sess_plain CmdInfo)"
  "session_transition (sess_plain CmdInfo) InfoResolved = Inr (sess_plain CmdPreflight)"
  "p \<in> {PreflightDisabled, PreflightCompleted, PreflightDegraded} \<Longrightarrow>
   session_transition (sess_plain CmdPreflight) (PreflightResolved p) = Inr (sess_plain CmdRead)"
  by (auto simp: move_connect move_open)

lemma enter_order:
  "hoare (still unconnected False) (bounded (tidy ask) cfg Ask_Enter ans_unit)
     (\<lambda>_. still unconnected True) body_failed"
  unfolding bounded_def
proof (rule hoare_seqp)
  show "hoare (still unconnected False) (assertp (0 < info_timeout cfg) (Raised Value_Class ''transfer timeouts must be positive'' None))
      (\<lambda>_. still unconnected False) body_failed"
    by (rule hoare_post [OF hoare_still]) (auto intro: fails_body keeps_assertp)
  show "hoare (still unconnected False) (port (tidy ask) Ask_Enter (race_result ans_unit)) (\<lambda>_. still unconnected True) body_failed"
    by (rule hoare_port)
      (auto simp: still_def body_failed_def session_allowed_def intro: orderly_reads [OF tidy_orderly reads_ans(1)] orderly_reads [OF tidy_orderly reads_race [OF reads_ans(1)]] split: sum.split)
qed

lemma read_order:
  "hoare (still (underway CmdRead) True)
     (bindp get_state (\<lambda>s. bindp (read_to_terminal (tidy ask) cfg n (execution_machine s) (Some i)) (\<lambda>(outcome, machine).
        update_state (\<lambda>s. s\<lparr>execution_outcome := Some outcome, execution_machine := machine\<rparr>)))) body_done body_failed"
proof (rule hoare_get_state, rule hoare_pure)
  fix s :: session_life
  let ?P = "\<lambda>w. still (underway CmdRead) True w \<and> local_state w = s"
  show "execution_machine s = sess_plain CmdRead" if "?P w" for w
    using that by (auto simp: still_def core_def)
  assume m: "execution_machine s = sess_plain CmdRead"
  have "hoare ?P (read_to_terminal (tidy ask) cfg n (execution_machine s) (Some i)) (read_done (underway CmdRead)) body_failed"
    unfolding m by (rule hoare_weaken [OF read_to_terminal_order]) (auto intro: fails_body)
  then show "hoare ?P (bindp (read_to_terminal (tidy ask) cfg n (execution_machine s) (Some i)) (\<lambda>(outcome, machine).
        update_state (\<lambda>s. s\<lparr>execution_outcome := Some outcome, execution_machine := machine\<rparr>))) body_done body_failed"
    by (rule hoare_bindp) (auto intro!: hoare_pair hoare_update simp: read_done_def body_done_def still_def core_def)
qed

lemma session_body_order: "hoare (still unconnected False) (session_body (tidy ask) cfg n) body_done body_failed"
proof -
  have link: "hoare (still unconnected True) (update_state (\<lambda>s. s\<lparr>execution_session := True\<rparr>))
      (\<lambda>_. still (sess_plain CmdConnect, True, None, None, False) True) body_failed"
    by (rule hoare_update) (simp add: still_def core_def)
  have phase: "hoare (still (underway CmdInfo) True) (update_state (\<lambda>s. s\<lparr>phase_value := Phase_Info\<rparr>))
      (\<lambda>_. still (underway CmdInfo) True) body_failed"
    by (intro underway_keeps keeps_update_state st.scratch_phase) simp
  have fresh: "hoare (still (underway CmdInfo) True) (info (tidy ask) cfg) (\<lambda>_. still (underway CmdInfo) True) body_failed"
    by (intro underway_keeps st.info_keeps) (simp_all add: still_permits_def)
  have preflight: "hoare (\<lambda>w. p \<in> {PreflightDisabled, PreflightCompleted, PreflightDegraded} \<and> still (underway CmdPreflight) True w)
      (step_machine (PreflightResolved p)) (\<lambda>_. still (underway CmdRead) True) body_failed" for p
    by (rule hoare_pure [where F = "p \<in> {PreflightDisabled, PreflightCompleted, PreflightDegraded}"])
      (auto intro!: hoare_pre [OF step_order] simp: open_moves)
  show ?thesis
    unfolding session_body_def
    by (intro hoare_seqp [OF require_order [of "sess_plain CmdConnect"]] hoare_seqp [OF enter_order] hoare_seqp [OF link]
        hoare_seqp [OF step_order [OF open_moves(1)]] hoare_seqp [OF phase] hoare_seqp [OF require_order [of "sess_plain CmdInfo"]]
        hoare_bindp [OF fresh] hoare_seqp [OF step_order [OF open_moves(2)]] hoare_seqp [OF require_order [of "sess_plain CmdPreflight"]]
        hoare_bindp [OF telemetry_order] hoare_seqp [OF preflight] read_order) simp_all
qed

section \<open>A failed body\<close>

definition settled :: "unit \<Rightarrow> life_world \<Rightarrow> bool" where
  "settled _ w \<longleftrightarrow>
     (\<exists>x p. supported_outcome x \<and>
        (still (sess_at CmdCheckpoint None (Some x) False, False, p, Some x, False) False w \<or> still (handover x, True, p, Some x, False) True w))"

text \<open>After a live exception the session has ended without a link, or its machine waits for the teardown.\<close>

definition aborted :: "raised \<Rightarrow> life_world \<Rightarrow> bool" where
  "aborted e w \<longleftrightarrow> tame e \<and> guarded session_allowed (history w) \<and>
     (e \<noteq> out_of_fuel \<longrightarrow>
        (\<exists>c \<in> {CmdFailed, CmdCancelled}. \<exists>p x. still (sess_plain c, False, p, x, False) False w)
      \<or> (\<exists>a \<in> {AfterFailed, AfterCancelled}. \<exists>p x. still (sess_at CmdTeardown (Some a) None False, True, p, x, False) True w))"

lemma body_done_settled: "body_done u w \<Longrightarrow> settled u w"
  unfolding body_done_def settled_def by (metis supported_outcome.simps(2,3) insertE singletonD)

lemma retry_outcome_range:
  "session_retry_outcome busy e l = Some x \<Longrightarrow> x \<in> retry_outcomes \<and> (\<not> l \<longrightarrow> x \<noteq> OutConnectedInterrupted)"
  by (auto simp: session_retry_outcome_def retry_outcomes_def split: if_splits)

lemma recoverable_result:
  "hoare P (recoverable_session_outcome ask cfg l phase e) (\<lambda>x _. x \<in> retry_outcomes \<and> (\<not> l \<longrightarrow> x \<noteq> OutConnectedInterrupted)) (\<lambda>_ _. True)"
proof (cases "session_retry_outcome (is_device_busy cfg) e l")
  case None
  then show ?thesis unfolding recoverable_session_outcome_def
    by (auto intro!: hoare_seqp [OF hoare_any] hoare_raise)
next
  case (Some x)
  then show ?thesis unfolding recoverable_session_outcome_def
    by (auto intro!: hoare_seqp [OF hoare_any] hoare_ret dest: retry_outcome_range)
qed

lemma recoverable_order:
  "tame e \<Longrightarrow> hoare (still k b) (recoverable_session_outcome (tidy ask) cfg b phase e)
     (\<lambda>x w. (x \<in> retry_outcomes \<and> (\<not> b \<longrightarrow> x \<noteq> OutConnectedInterrupted)) \<and> still k b w) (fails_still k b)"
  by (rule hoare_post [OF hoare_conj [OF recoverable_result hoare_still]]) (auto intro!: st.recoverable_keeps simp: still_permits_def)

lemma resolve_order:
  assumes e: "tame e"
    and retry: "\<And>x. x \<in> retry_outcomes \<Longrightarrow> (\<not> b \<longrightarrow> x \<noteq> OutConnectedInterrupted) \<Longrightarrow>
      \<exists>t. session_transition m (EffectFailed (Some x)) = Inr t \<and> (\<forall>w. still (t, b, Some e, Some x, False) b w \<longrightarrow> settled () w)"
    and fail: "\<And>x. \<exists>t. session_transition m (failure_event x) = Inr t \<and>
        (\<forall>w y. tame x \<longrightarrow> still (t, b, Some e, y, False) b w \<longrightarrow> aborted x w)"
  shows "hoare (still (m, b, Some e, None, False) b) (resolve_session_error (tidy ask) cfg e) settled aborted"
  unfolding resolve_session_error_def
proof (rule hoare_seqp)
  let ?k = "(m, b, Some e, None, False)"
  let ?R = "\<lambda>w. \<exists>x. (x \<in> retry_outcomes \<and> (\<not> b \<longrightarrow> x \<noteq> OutConnectedInterrupted)) \<and> still (m, b, Some e, Some x, False) b w"
  let ?F = "\<lambda>x w. tame x \<and> still ?k b w"
  have unavailable: "hoare (still ?k b) (whenp c (record_storage_unavailable (tidy ask) cfg)) (\<lambda>_. still ?k b) ?F" for c
    by (intro hoare_keeps keeps_whenp st.unavailable_keeps)
  have recover: "hoare (\<lambda>w. still ?k b w \<and> local_state w = s)
      (bindp (recoverable_session_outcome (tidy ask) cfg (execution_session s) (phase_value s) e) (\<lambda>x.
         update_state (\<lambda>s. s\<lparr>execution_outcome := Some x\<rparr>))) (\<lambda>_. ?R) ?F" for s
  proof (rule hoare_pure [where F = "execution_session s = b"])
    assume b: "execution_session s = b"
    have "hoare (\<lambda>w. still ?k b w \<and> local_state w = s) (recoverable_session_outcome (tidy ask) cfg (execution_session s) (phase_value s) e)
        (\<lambda>x w. (x \<in> retry_outcomes \<and> (\<not> b \<longrightarrow> x \<noteq> OutConnectedInterrupted)) \<and> still ?k b w) ?F"
      unfolding b by (rule hoare_weaken [OF recoverable_order [where k = ?k, OF e]]) (auto simp: fails_still_def)
    then show ?thesis
      by (rule hoare_bindp) (auto intro!: hoare_update simp: still_def core_def)
  qed (auto simp: still_def core_def)
  have abort: "hoare (?F x) (seqp (step_machine (failure_event x)) (raise x)) (\<lambda>_. ?R) aborted" for x
  proof -
    obtain t where t: "session_transition m (failure_event x) = Inr t"
      and a: "\<forall>w y. tame x \<longrightarrow> still (t, b, Some e, y, False) b w \<longrightarrow> aborted x w"
      using fail [of x] by blast
    show ?thesis
      by (rule hoare_pure [where F = "tame x"], simp, rule hoare_pre [OF hoare_seqp [OF step_order [OF t]]])
        (auto intro!: hoare_raise simp: a)
  qed
  show "hoare (still ?k b)
       (catchp (seqp (whenp (storage_not_ready_ack e \<noteq> None) (record_storage_unavailable (tidy ask) cfg))
          (bindp get_state (\<lambda>s. bindp (recoverable_session_outcome (tidy ask) cfg (execution_session s) (phase_value s) e) (\<lambda>x.
             update_state (\<lambda>s. s\<lparr>execution_outcome := Some x\<rparr>)))))
         (\<lambda>x. seqp (step_machine (failure_event x)) (raise x))) (\<lambda>_. ?R) aborted"
    by (intro hoare_catchp [OF _ abort] hoare_seqp [OF unavailable] hoare_get_state recover)
  show "hoare ?R (bindp get_state (\<lambda>s. step_machine (EffectFailed (execution_outcome s)))) settled aborted"
  proof (intro hoare_ex hoare_get_state)
    fix x s
    let ?P = "\<lambda>w. ((x \<in> retry_outcomes \<and> (\<not> b \<longrightarrow> x \<noteq> OutConnectedInterrupted)) \<and> still (m, b, Some e, Some x, False) b w) \<and> local_state w = s"
    show "hoare ?P (step_machine (EffectFailed (execution_outcome s))) settled aborted"
    proof (rule hoare_pure [where F = "x \<in> retry_outcomes \<and> (\<not> b \<longrightarrow> x \<noteq> OutConnectedInterrupted) \<and> execution_outcome s = Some x"])
      assume x: "x \<in> retry_outcomes \<and> (\<not> b \<longrightarrow> x \<noteq> OutConnectedInterrupted) \<and> execution_outcome s = Some x"
      then obtain t where t: "session_transition m (EffectFailed (Some x)) = Inr t"
        and "\<forall>w. still (t, b, Some e, Some x, False) b w \<longrightarrow> settled () w" using retry by blast
      then show ?thesis using x by (auto intro!: hoare_weaken [OF step_order [OF t]])
    qed (auto simp: still_def core_def)
  qed
qed

lemma failure_moves:
  "session_transition (sess_plain CmdConnect) (failure_event x) = Inr (sess_plain (if is_cancellation x then CmdCancelled else CmdFailed))"
  "c \<in> {CmdInfo, CmdPreflight, CmdRead} \<Longrightarrow> session_transition (sess_plain c) (failure_event x) =
     Inr (sess_at CmdTeardown (Some (if is_cancellation x then AfterCancelled else AfterFailed)) None False)"
  by (auto simp: failure_event_def move_connect move_open)

lemma aborted_unlinked: "tame x \<Longrightarrow> c \<in> {CmdFailed, CmdCancelled} \<Longrightarrow> still (sess_plain c, False, p, y, False) False w \<Longrightarrow> aborted x w"
  unfolding aborted_def by (auto simp: still_def)

lemma aborted_linked:
  "tame x \<Longrightarrow> a \<in> {AfterFailed, AfterCancelled} \<Longrightarrow> still (sess_at CmdTeardown (Some a) None False, True, p, y, False) True w \<Longrightarrow> aborted x w"
  unfolding aborted_def by (auto simp: still_def)

lemma resolve_unlinked:
  "tame e \<Longrightarrow> hoare (still (sess_plain CmdConnect, False, Some e, None, False) False) (resolve_session_error (tidy ask) cfg e) settled aborted"
proof (rule resolve_order)
  fix x assume "x \<in> retry_outcomes" "\<not> False \<longrightarrow> x \<noteq> OutConnectedInterrupted"
  then have x: "x \<in> {OutRetry, OutCandidateUnavailable}" by (auto simp: retry_outcomes_def)
  then have "session_transition (sess_plain CmdConnect) (EffectFailed (Some x)) = Inr (sess_at CmdCheckpoint None (Some x) False)"
    by (auto simp: move_connect)
  moreover have "supported_outcome x" using x by auto
  ultimately show "\<exists>t. session_transition (sess_plain CmdConnect) (EffectFailed (Some x)) = Inr t
      \<and> (\<forall>w. still (t, False, Some e, Some x, False) False w \<longrightarrow> settled () w)"
    unfolding settled_def by blast
qed (auto simp: failure_moves intro: aborted_unlinked)

lemma resolve_linked:
  assumes c: "c \<in> {CmdInfo, CmdPreflight, CmdRead}" and e: "tame e"
  shows "hoare (still (sess_plain c, True, Some e, None, False) True) (resolve_session_error (tidy ask) cfg e) settled aborted"
proof (rule resolve_order [OF e])
  fix x assume x: "x \<in> retry_outcomes"
  then have "session_transition (sess_plain c) (EffectFailed (Some x)) = Inr (handover x)" by (simp add: move_open [OF c])
  moreover have "supported_outcome x" using x by (auto simp: retry_outcomes_def)
  ultimately show "\<exists>t. session_transition (sess_plain c) (EffectFailed (Some x)) = Inr t
      \<and> (\<forall>w. still (t, True, Some e, Some x, False) True w \<longrightarrow> settled () w)"
    unfolding settled_def by blast
qed (use c in \<open>auto simp: failure_moves intro: aborted_linked\<close>)

lemma primary_order:
  "hoare (still (m, s, None, x, d) b) (update_state (\<lambda>s. s\<lparr>execution_primary := Some e\<rparr>)) (\<lambda>_. still (m, s, Some e, x, d) b) E"
  by (rule hoare_update) (simp add: still_def core_def)

lemma spent: "still k b w \<Longrightarrow> aborted out_of_fuel w"
  by (simp add: aborted_def still_def)

lemma failed_from:
  assumes e: "tame e" and t: "session_transition m (failure_event e) = Inr t"
    and a: "\<And>w. still (t, b, Some e, None, False) b w \<Longrightarrow> aborted e w"
    and r: "hoare (still (m, b, Some e, None, False) b) (resolve_session_error (tidy ask) cfg e) settled aborted"
  shows "hoare (still (m, b, None, None, False) b) (session_failed (tidy ask) cfg e) settled aborted"
proof (cases "is_cancellation e")
  case True
  then have "session_transition m CancellationObserved = Inr t" using t by (simp add: failure_event_def)
  then show ?thesis
    using True unfolding session_failed_def
    by (auto intro!: hoare_seqp [OF primary_order] hoare_seqp [OF step_order] hoare_raise a)
next
  case no: False
  show ?thesis
  proof (cases "exception_raised e")
    case True
    then show ?thesis using no unfolding session_failed_def by (auto intro!: hoare_seqp [OF primary_order] r)
  next
    case False
    then have "e = out_of_fuel" using e no by (auto simp: tame_def ordinary_def)
    then show ?thesis using no False unfolding session_failed_def by (auto intro!: hoare_raise intro: spent)
  qed
qed

lemma session_failed_order: "hoare (body_failed e) (session_failed (tidy ask) cfg e) settled aborted"
proof (rule hoare_pure [where F = "tame e"])
  assume e: "tame e"
  have un: "hoare (still unconnected False) (session_failed (tidy ask) cfg e) settled aborted"
    by (rule failed_from [OF e failure_moves(1)]) (auto intro: aborted_unlinked [OF e] resolve_unlinked [OF e] split: if_splits)
  have li: "hoare (still (underway c) True) (session_failed (tidy ask) cfg e) settled aborted" if c: "c \<in> {CmdInfo, CmdPreflight, CmdRead}" for c
    by (rule failed_from [OF e failure_moves(2) [OF c]]) (auto intro: aborted_linked [OF e] resolve_linked [OF c e] split: if_splits)
  show ?thesis
    using un li unfolding hoare_def body_failed_def by blast
qed (simp add: body_failed_def)

section \<open>Teardown and checkpoint\<close>

text \<open>The session may be checkpointed: the link is closed and the machine agrees with the outcome the driver holds.\<close>

definition concluded :: "unit \<Rightarrow> life_world \<Rightarrow> bool" where
  "concluded _ w \<longleftrightarrow>
     (\<exists>x i s p y. supported_outcome x \<and> (i \<longrightarrow> x = OutConnectedInterrupted) \<and> (\<not> i \<longrightarrow> y = x)
        \<and> still (sess_at CmdCheckpoint None (Some x) i, s, p, Some y, i) False w)"

definition closed_with :: "raised \<Rightarrow> life_world \<Rightarrow> bool" where
  "closed_with e w \<longleftrightarrow>
     tame e \<and> guarded session_allowed (history w)
     \<and> (e \<noteq> out_of_fuel \<longrightarrow> \<not> link_open (history w) \<and> terminal_error (local_state w) = None
        \<and> session_cmd (execution_machine (local_state w)) \<noteq> CmdFinished)"

lemma closed_with_still: "tame e \<Longrightarrow> still (m, s, p, x, d) False w \<Longrightarrow> session_cmd m \<noteq> CmdFinished \<Longrightarrow> closed_with e w"
  by (auto simp: closed_with_def still_def core_def)

lemma hoare_fails: "(tame e \<Longrightarrow> keeps (still k b) tame m) \<Longrightarrow> hoare (fails_still k b e) m (\<lambda>_. still k b) (fails_still k b)"
  by (rule hoare_pure [where F = "tame e"]) (auto simp: fails_still_def intro: hoare_pre [OF hoare_still])

lemma exit_context_order:
  assumes "0 < info_timeout cfg"
  shows "hoare (still k True) (exit_context (tidy ask) cfg p) (\<lambda>r w. (\<forall>e. r = Some e \<longrightarrow> tame e) \<and> still k False w) (fails_still k False)"
proof -
  have "hoare (still k True) (bounded (tidy ask) cfg (Ask_Exit p) ans_unit) (\<lambda>_. still k False) (fails_still k False)"
    using assms unfolding bounded_def
    by (auto intro!: hoare_seqp [where R = "still k True"] hoare_port simp: assertp_def still_def fails_still_def session_allowed_def
        intro: hoare_ret orderly_reads [OF tidy_orderly reads_ans(1)] orderly_reads [OF tidy_orderly reads_race [OF reads_ans(1)]] split: sum.split)
  then have "hoare (still k True) (seqp (bounded (tidy ask) cfg (Ask_Exit p) ans_unit) (ret None))
      (\<lambda>r w. (\<forall>e. r = Some e \<longrightarrow> tame e) \<and> still k False w) (fails_still k False)"
    by (rule hoare_seqp) (auto intro: hoare_ret)
  then show ?thesis
    unfolding exit_context_def by (rule hoare_catchp) (auto intro!: hoare_if hoare_raise hoare_ret simp: fails_still_def)
qed

lemma teardown_order:
  assumes "0 < info_timeout cfg"
  shows "hoare (still k True) (teardown_was_interrupted (tidy ask) cfg p) (\<lambda>_. still k False) (fails_still k False)"
  unfolding teardown_was_interrupted_def
  by (rule hoare_captured [OF exit_context_order [OF assms]], unfold sum.case,
      rule hoare_pre [OF hoare_still], intro keeps_seqp keeps_option keeps_ret st.error_report_keeps, simp,
      intro hoare_fails keeps_if keeps_seqp keeps_whenp keeps_raise keeps_ret st.error_report_keeps st.activity_keeps)

lemma session_teardown_linked:
  assumes t: "0 < info_timeout cfg" and m: "session_cmd m = CmdTeardown"
    and u: "\<And>i. \<exists>u. session_transition m (TeardownResolved i) = Inr u \<and> (\<forall>w. still (u, True, p, x, i) False w \<longrightarrow> Q () w)"
    and E: "\<And>e w. fails_still (m, True, p, x, False) False e w \<Longrightarrow> E e w"
  shows "hoare (still (m, True, p, x, False) True) (session_teardown (tidy ask) cfg) Q E"
  unfolding session_teardown_def
proof (rule hoare_get_state, rule hoare_pure [where F = "execution_session s \<and> execution_primary s = p" for s])
  fix s :: session_life
  assume s: "execution_session s \<and> execution_primary s = p"
  have resolve: "hoare (still (m, True, p, x, False) False)
      (seqp (update_state (\<lambda>s. s\<lparr>execution_teardown_error := i\<rparr>)) (step_machine (TeardownResolved i))) Q E" for i
  proof -
    obtain u where u: "session_transition m (TeardownResolved i) = Inr u" "\<forall>w. still (u, True, p, x, i) False w \<longrightarrow> Q () w"
      using u by blast
    show ?thesis
      by (rule hoare_seqp [OF hoare_update [where Q = "\<lambda>_. still (m, True, p, x, i) False"] hoare_post [OF step_order [OF u(1)]]])
        (auto simp: still_def core_def u(2) [unfolded still_def core_def])
  qed
  show "hoare (\<lambda>w. still (m, True, p, x, False) True w \<and> local_state w = s)
      (whenp (execution_session s) (seqp (require_session_command CmdTeardown)
        (bindp (teardown_was_interrupted (tidy ask) cfg (execution_primary s)) (\<lambda>interrupted.
          seqp (update_state (\<lambda>s. s\<lparr>execution_teardown_error := interrupted\<rparr>)) (step_machine (TeardownResolved interrupted)))))) Q E"
    using s unfolding whenp_def
    by (auto intro!: hoare_pre [OF hoare_seqp [OF require_order [OF m] hoare_bindp [OF hoare_post [OF teardown_order [OF t]] resolve]]] E)
qed (auto simp: still_def core_def)

lemma session_teardown_unlinked:
  "(\<And>w. still (m, False, p, x, d) False w \<Longrightarrow> Q () w) \<Longrightarrow> hoare (still (m, False, p, x, d) False) (session_teardown ask cfg) Q E"
  unfolding session_teardown_def
  by (auto simp: hoare_def wp_simps still_def core_def)

lemma concludedI:
  "still (sess_at CmdCheckpoint None (Some x) i, s, p, Some y, i) False w \<Longrightarrow> supported_outcome x \<Longrightarrow>
   (i \<Longrightarrow> x = OutConnectedInterrupted) \<Longrightarrow> (\<not> i \<Longrightarrow> y = x) \<Longrightarrow> concluded u w"
  unfolding concluded_def by blast

lemma settled_teardown:
  assumes "0 < info_timeout cfg"
  shows "hoare (settled u) (session_teardown (tidy ask) cfg) concluded closed_with"
proof -
  have un: "hoare (still (sess_at CmdCheckpoint None (Some x) False, False, p, Some x, False) False) (session_teardown (tidy ask) cfg) concluded closed_with"
    if "supported_outcome x" for x p
    by (rule session_teardown_unlinked) (use that in \<open>auto intro: concludedI\<close>)
  have li: "hoare (still (handover x, True, p, Some x, False) True) (session_teardown (tidy ask) cfg) concluded closed_with"
    if x: "supported_outcome x" for x p
  proof (rule session_teardown_linked [OF assms])
    fix i
    have "session_transition (handover x) (TeardownResolved i) =
        Inr (sess_at CmdCheckpoint None (Some (if i then OutConnectedInterrupted else x)) i)" by (simp add: move_teardown(1) [OF x])
    moreover have "concluded () w"
      if "still (sess_at CmdCheckpoint None (Some (if i then OutConnectedInterrupted else x)) i, True, p, Some x, i) False w" for w
      using that x by (cases i) (auto intro: concludedI)
    ultimately show "\<exists>u. session_transition (handover x) (TeardownResolved i) = Inr u \<and> (\<forall>w. still (u, True, p, Some x, i) False w \<longrightarrow> concluded () w)"
      by blast
  qed (auto simp: fails_still_def intro: closed_with_still)
  show ?thesis using un li unfolding hoare_def settled_def by blast
qed

lemma aborted_teardown:
  assumes "0 < info_timeout cfg" and live: "is_live e"
  shows "hoare (aborted e) (session_teardown (tidy ask) cfg) (\<lambda>_. closed_with e) closed_with"
proof (rule hoare_pure [where F = "tame e \<and> e \<noteq> out_of_fuel"])
  assume e: "tame e \<and> e \<noteq> out_of_fuel"
  have un: "hoare (still (sess_plain c, False, p, x, False) False) (session_teardown (tidy ask) cfg) (\<lambda>_. closed_with e) closed_with"
    if "c \<in> {CmdFailed, CmdCancelled}" for c p x
    by (rule session_teardown_unlinked) (use that e in \<open>auto intro: closed_with_still\<close>)
  have li: "hoare (still (sess_at CmdTeardown (Some a) None False, True, p, x, False) True) (session_teardown (tidy ask) cfg) (\<lambda>_. closed_with e) closed_with"
    if "a \<in> {AfterFailed, AfterCancelled}" for a p x
  proof (rule session_teardown_linked [OF assms(1)])
    fix i
    have "session_transition (sess_at CmdTeardown (Some a) None False) (TeardownResolved i) =
        Inr (sess_plain (if a = AfterFailed then CmdFailed else CmdCancelled))"
      using that by (auto simp: move_teardown)
    then show "\<exists>u. session_transition (sess_at CmdTeardown (Some a) None False) (TeardownResolved i) = Inr u
        \<and> (\<forall>w. still (u, True, p, x, i) False w \<longrightarrow> closed_with e w)"
      using e by (auto intro: closed_with_still)
  qed (auto simp: fails_still_def intro: closed_with_still)
  show ?thesis using un li e unfolding hoare_def aborted_def by blast
qed (use live in \<open>auto simp: aborted_def\<close>)

lemma finally_live_order:
  assumes m: "hoare P m R F" and ok: "\<And>x. hoare (R x) n (\<lambda>_. Q x) E" and bad: "\<And>e. is_live e \<Longrightarrow> hoare (F e) n (\<lambda>_. E e) E"
    and spent: "\<And>e w. \<not> is_live e \<Longrightarrow> F e w \<Longrightarrow> E e w"
  shows "hoare P (finally_live m n) Q E"
  unfolding finally_live_def
  by (rule hoare_captured [OF m])
    (auto intro!: hoare_seqp [OF ok] hoare_ret hoare_if hoare_seqp [OF bad] hoare_raise spent)

lemma effects_order:
  assumes "0 < info_timeout cfg"
  shows "hoare (still unconnected False) (run_session_effects (tidy ask) cfg n) concluded closed_with"
  unfolding run_session_effects_def
proof (rule finally_live_order [where R = settled and F = aborted])
  show "hoare (still unconnected False) (catchp (session_body (tidy ask) cfg n) (session_failed (tidy ask) cfg)) settled aborted"
    by (rule hoare_catchp [OF hoare_post [OF session_body_order] session_failed_order]) (auto intro: body_done_settled)
next
  fix e w assume "\<not> is_live e" "aborted e w"
  then show "closed_with e w" using tame_live [of e] by (auto simp: aborted_def closed_with_def)
qed (auto intro: settled_teardown [OF assms] aborted_teardown [OF assms])

section \<open>The guard\<close>

text \<open>Between sessions: the link is closed, and the calls so far were allowed.\<close>

definition at_rest :: "(session_state \<Rightarrow> raised option \<Rightarrow> bool) \<Rightarrow> life_world \<Rightarrow> bool" where
  "at_rest P w \<longleftrightarrow> guarded session_allowed (history w) \<and> \<not> link_open (history w)
     \<and> P (execution_machine (local_state w)) (terminal_error (local_state w))"

interpretation rs: session_frame "tidy ask" noise "at_rest P" for ask P
  by unfold_locales (auto simp: tidy_orderly at_rest_def session_allowed_def noise_link)

abbreviation "unfinished \<equiv> at_rest (\<lambda>m t. session_cmd m \<noteq> CmdFinished \<and> t = None)"

lemma unfinished_still: "still (m, s, p, x, d) False w \<Longrightarrow> session_cmd m \<noteq> CmdFinished \<Longrightarrow> unfinished w"
  by (auto simp: at_rest_def still_def core_def)

lemma concluded_unfinished: "concluded u w \<Longrightarrow> unfinished w"
  by (auto simp: concluded_def intro: unfinished_still)

lemma closed_unfinished: "closed_with e w \<Longrightarrow> e \<noteq> out_of_fuel \<Longrightarrow> unfinished w"
  by (simp add: closed_with_def at_rest_def)

lemma guard_failed_order: "tame e \<Longrightarrow> hoare unfinished (guard_failed (tidy ask) cfg phase e) Q closed_with"
proof -
  assume e: "tame e"
  have never: "hoare unfinished (guard_failed (tidy ask) cfg phase e) (\<lambda>_ _. False) (\<lambda>_ _. True)"
    unfolding guard_failed_def by (intro hoare_if hoare_seqp [OF hoare_any] hoare_raise) auto
  show ?thesis
    by (rule hoare_post [OF hoare_conj [OF never hoare_keeps [OF rs.guard_failed_keeps [OF e]]]])
      (auto simp: closed_with_def at_rest_def)
qed

lemma guard_exit_order:
  assumes P: "\<And>w. P w \<Longrightarrow> unfinished w"
    and r: "\<And>w a. P w \<Longrightarrow> case r of Inl e \<Rightarrow> closed_with e (w\<lparr>history := history w @ [(Ask_Guard_Exit y, a)]\<rparr>)
                       | Inr x \<Rightarrow> concluded x (w\<lparr>history := history w @ [(Ask_Guard_Exit y, a)]\<rparr>)"
  shows "hoare P (bindp (call (tidy ask) (Ask_Guard_Exit y)) (\<lambda>a. case a of
       Ans_Raised e \<Rightarrow> guard_failed (tidy ask) cfg Phase_Teardown e | Ans_Suppress \<Rightarrow> ret () | _ \<Rightarrow> lift_result r)) concluded closed_with"
proof -
  have "wp (case a of Ans_Raised e \<Rightarrow> guard_failed (tidy ask) cfg Phase_Teardown e | Ans_Suppress \<Rightarrow> ret () | _ \<Rightarrow> lift_result r)
      concluded closed_with (w\<lparr>history := history w @ [(Ask_Guard_Exit y, a)]\<rparr>)"
    if w: "P w" and a: "a = tidy ask (history w) (Ask_Guard_Exit y)" for w a
  proof -
    have quiet: "a \<noteq> Ans_Suppress" "\<And>e. a = Ans_Raised e \<Longrightarrow> tame e"
      using tidy_orderly [of ask] by (auto simp: a orderly_def tame_def)
    have rest: "unfinished (w\<lparr>history := history w @ [(Ask_Guard_Exit y, a)]\<rparr>)"
      unfolding a by (rule rs.admits [OF _ P [OF w]]) simp
    show ?thesis
      using r [OF w, of a] quiet hoareD [OF guard_failed_order rest]
      by (auto simp: wp_simps split: life_answer.splits sum.splits)
  qed
  then show ?thesis unfolding hoare_def wp_bindp wp_call by blast
qed

lemma guarded_effects_order:
  assumes t: "0 < info_timeout cfg"
  shows "hoare (still unconnected False) (run_guarded_session_effects (tidy ask) cfg n) concluded closed_with"
  unfolding run_guarded_session_effects_def
proof (rule hoare_captured [where R = "\<lambda>_. still unconnected False" and F = "fails_still unconnected False"])
  show "hoare (still unconnected False) (port (tidy ask) Ask_Guard_Enter ans_unit) (\<lambda>_. still unconnected False) (fails_still unconnected False)"
    by (intro hoare_still st.keeps_noise) auto
next
  fix e
  show "hoare (fails_still unconnected False e)
      (case Inl e of Inl e \<Rightarrow> guard_failed (tidy ask) cfg Phase_Connect e | Inr _ \<Rightarrow> G) concluded closed_with" for G
    by (rule hoare_pure [where F = "tame e"])
      (auto simp: fails_still_def intro!: hoare_pre [OF guard_failed_order] intro: unfinished_still)
next
  let ?exit = "\<lambda>body. bindp (call (tidy ask) (Ask_Guard_Exit (case body of Inl e \<Rightarrow> Some e | Inr _ \<Rightarrow> None))) (\<lambda>a. case a of
      Ans_Raised e \<Rightarrow> guard_failed (tidy ask) cfg Phase_Teardown e | Ans_Suppress \<Rightarrow> ret () | _ \<Rightarrow> lift_result body)"
  have good: "hoare (concluded x) (?exit (Inr x)) concluded closed_with" for x
    by (rule guard_exit_order)
      (auto simp: concluded_unfinished concluded_def still_def session_allowed_def split: sum.splits)
  have bad: "hoare (closed_with e) (?exit (Inl e)) concluded closed_with" if "e \<noteq> out_of_fuel" for e
    by (rule guard_exit_order)
      (use that in \<open>auto simp: closed_unfinished closed_with_def session_allowed_def\<close>)
  show "hoare (still unconnected False) (case Inr u of Inl e \<Rightarrow> guard_failed (tidy ask) cfg Phase_Connect e
      | Inr _ \<Rightarrow> bindp (capture (run_session_effects (tidy ask) cfg n)) (\<lambda>body. if body = Inl out_of_fuel then raise out_of_fuel else ?exit body))
      concluded closed_with" for u :: unit
    unfolding sum.case
    by (rule hoare_captured [OF effects_order [OF t]]; intro hoare_if good bad; auto intro!: hoare_raise)
qed

section \<open>The end of a session\<close>

abbreviation "rested \<equiv> at_rest (\<lambda>_ t. \<forall>e. t = Some e \<longrightarrow> tame e)"

lemma checkpoint_moves:
  "supported_outcome x \<Longrightarrow> (i \<longrightarrow> x = OutConnectedInterrupted) \<Longrightarrow>
     session_transition (sess_at CmdCheckpoint None (Some x) i) CheckpointResolved = Inr (sess_at CmdFinished None (Some x) i)"
  "supported_outcome x \<Longrightarrow> (i \<longrightarrow> x = OutConnectedInterrupted) \<Longrightarrow>
     session_transition (sess_at CmdFinished None (Some x) i) (OutcomeReturned x) = Inr (sess_at CmdReturned None (Some x) i)"
  by (simp_all add: move_checkpoint move_finished)

lemma checkpoint_from:
  assumes x: "supported_outcome x" "i \<longrightarrow> x = OutConnectedInterrupted" "\<not> i \<longrightarrow> y = x"
  shows "hoare (still (sess_at CmdCheckpoint None (Some x) i, s, p, Some y, i) False) (session_checkpoint (tidy ask)) (\<lambda>_. rested) closed_with"
proof -
  let ?k = "\<lambda>m. (m, s, p, Some y, i)"
  let ?c = "sess_at CmdCheckpoint None (Some x) i" and ?f = "sess_at CmdFinished None (Some x) i"
  have ask: "hoare (still (?k ?c) False) (port (tidy ask) Ask_Checkpoint ans_unit) (\<lambda>_. still (?k ?c) False) closed_with"
    by (rule hoare_port)
      (auto simp: still_def core_def closed_with_def session_allowed_def intro: orderly_reads [OF tidy_orderly reads_ans(1)] orderly_reads [OF tidy_orderly reads_race [OF reads_ans(1)]] split: sum.split)
  have answer: "hoare (\<lambda>w. still (?k ?f) False w \<and> local_state w = r)
      (case (if execution_teardown_error r then Some OutConnectedInterrupted else execution_outcome r) of
         None \<Rightarrow> raise no_outcome
       | Some outcome \<Rightarrow> seqp (lift_result (machine_result (bind_result (session_transition (execution_machine r) (OutcomeReturned outcome)) (\<lambda>_. Inr ()))))
           (ret outcome)) (\<lambda>_. rested) closed_with" for r
  proof (rule hoare_pure [where F = "core r = ?k ?f"])
    assume r: "core r = ?k ?f"
    have "(if execution_teardown_error r then Some OutConnectedInterrupted else execution_outcome r) = Some x" using r x by (auto simp: core_def)
    moreover have "session_transition (execution_machine r) (OutcomeReturned x) = Inr (sess_at CmdReturned None (Some x) i)"
      using r checkpoint_moves(2) [OF x(1,2)] by (auto simp: core_def)
    ultimately show ?thesis
      by (auto intro!: hoare_lift_unit hoare_ret simp: machine_result_def bind_result_def at_rest_def still_def)
  qed (auto simp: still_def)
  show ?thesis
    unfolding session_checkpoint_def
    by (intro hoare_seqp [OF require_order] hoare_seqp [OF ask] hoare_seqp [OF step_order [OF checkpoint_moves(1) [OF x(1,2)]]]
        hoare_get_state answer) simp
qed

lemma checkpoint_order: "hoare (concluded u) (session_checkpoint (tidy ask)) (\<lambda>_. rested) closed_with"
  using checkpoint_from unfolding hoare_def concluded_def by blast

definition ended_with :: "raised \<Rightarrow> life_world \<Rightarrow> bool" where
  "ended_with e w \<longleftrightarrow> tame e \<and> guarded session_allowed (history w) \<and> (e \<noteq> out_of_fuel \<longrightarrow> rested w)"

lemma ended_order: "hoare (closed_with e) (session_ended e) Q ended_with"
proof (cases "is_live e")
  case True
  have move: "\<exists>t. session_transition m (failure_event e) = Inr t"
    if "session_cmd m \<notin> {CmdFailed, CmdCancelled, CmdReturned, CmdFinished}" for m
    using that
    by (cases "session_cmd m")
      (auto simp: failure_event_def session_transition_def session_handlers_def session_handler_defs session_construct)
  show ?thesis
    unfolding hoare_def
  proof (intro allI impI)
    fix w assume w: "closed_with e w"
    then have e: "tame e" "e \<noteq> out_of_fuel" using True by (auto simp: closed_with_def)
    show "wp (session_ended e) Q ended_with w"
      using move [of "execution_machine (local_state w)"] w e True
      by (auto simp: session_ended_def step_machine_def wp_simps machine_result_def ended_with_def closed_with_def at_rest_def)
  qed
next
  case False
  then show ?thesis
    using tame_live [of e] by (auto simp: session_ended_def closed_with_def ended_with_def intro!: hoare_raise)
qed

lemma account_keeps: "keeps rested tame (account_session (tidy ask) cfg)"
  unfolding account_session_def keeps_def wp_catchp
proof (intro allI impI)
  fix w assume "rested w"
  then have "wp (record_session_quality (tidy ask) cfg) (\<lambda>_. rested) (\<lambda>e v. tame e \<and> rested v) w"
    by (rule keepsD [OF rs.quality_keeps])
  then show "wp (record_session_quality (tidy ask) cfg) (\<lambda>_. rested) (\<lambda>x. wp (bindp get_state (\<lambda>s. case terminal_error s of
       None \<Rightarrow> raise x | Some e \<Rightarrow> raise (if is_fatal_storage e then e else x))) (\<lambda>_. rested) (\<lambda>e v. tame e \<and> rested v)) w"
    by (rule wp_mono) (auto simp: wp_simps at_rest_def split: option.splits)
qed

lemma run_session_order:
  assumes "0 < info_timeout cfg"
  shows "hoare (at_rest (\<lambda>_ _. True)) (run_session (tidy ask) cfg n rssi) (\<lambda>_. rested) ended_with"
proof -
  have start: "hoare (at_rest (\<lambda>_ _. True)) (begin_session rssi) (\<lambda>_. still unconnected False) ended_with"
    unfolding begin_session_def by (rule hoare_update) (simp add: at_rest_def still_def core_def connect_state_def)
  have metric: "hoare (still unconnected False) (record_advertisement_quality (tidy ask) cfg rssi) (\<lambda>_. still unconnected False) ended_with"
    by (rule hoare_post [OF hoare_still [OF st.advertisement_keeps]])
      (auto simp: fails_still_def ended_with_def still_def at_rest_def)
  have main: "hoare (still unconnected False)
      (catchp (seqp (if has_session_guard cfg then run_guarded_session_effects (tidy ask) cfg n else run_session_effects (tidy ask) cfg n)
        (session_checkpoint (tidy ask))) session_ended) (\<lambda>_. rested) ended_with"
    by (rule hoare_catchp [OF hoare_seqp ended_order])
      (auto intro: guarded_effects_order [OF assms] effects_order [OF assms] checkpoint_order)
  have account: "hoare rested (account_session (tidy ask) cfg) (\<lambda>_. rested) ended_with"
    by (rule hoare_post [OF hoare_keeps [OF account_keeps]]) (auto simp: ended_with_def at_rest_def)
  have account_error: "hoare (ended_with e) (account_session (tidy ask) cfg) (\<lambda>_. ended_with e) ended_with"
    if "tame e \<and> e \<noteq> out_of_fuel" for e
    by (rule hoare_weaken [OF account]) (use that in \<open>simp_all add: ended_with_def at_rest_def\<close>)
  show ?thesis
    unfolding run_session_def
  proof (intro hoare_seqp [OF start] hoare_seqp [OF metric] finally_live_order [OF main account])
    fix e assume "is_live e"
    then show "hoare (ended_with e) (account_session (tidy ask) cfg) (\<lambda>_. ended_with e) ended_with"
      by (intro hoare_pure [where F = "tame e \<and> e \<noteq> out_of_fuel", OF _ account_error]) (auto simp: ended_with_def)
  qed
qed

section \<open>Properties\<close>

lemma run_session_outcome:
  assumes "orderly ask" and "0 < info_timeout cfg" and "guarded session_allowed (history w)" and "\<not> link_open (history w)"
    and r: "run_session ask cfg fuel rssi w = (r, v)"
  shows "guarded session_allowed (history v) \<and> (r \<noteq> Inl out_of_fuel \<longrightarrow> \<not> link_open (history v)) \<and> (\<forall>e. r = Inl e \<longrightarrow> tame e)"
proof -
  have "at_rest (\<lambda>_ _. True) w" using assms by (simp add: at_rest_def)
  from hoareD [OF run_session_order [where ask = ask and n = fuel and rssi = rssi, OF assms(2)] this] have "wp (run_session ask cfg fuel rssi) (\<lambda>_. rested) ended_with w"
    unfolding tidy_id [OF assms(1)] .
  then show ?thesis
    unfolding wp_def r by (cases r) (auto simp: ended_with_def at_rest_def)
qed

text \<open>
  Work on the link is requested only while it is open, and a connection, a checkpoint or an effect of the visit only
  while it is closed, whatever the ports answer and however many rounds the session takes.
\<close>

theorem session_effects_are_ordered:
  assumes "orderly ask" and "0 < info_timeout cfg" and "guarded session_allowed (history w)" and "\<not> link_open (history w)"
    and "run_session ask cfg fuel rssi w = (r, v)"
  shows "guarded session_allowed (history v)"
  using run_session_outcome [OF assms] by blast

text \<open>The transport context is entered, whether or not the session was given it, and its exit has not been requested since.\<close>

definition context_step :: "bool \<Rightarrow> life_call \<times> life_answer \<Rightarrow> bool" where
  "context_step b x =
     (case fst x of
        Ask_Enter \<Rightarrow> b \<or> (case snd x of Ans_Abandoned _ completed \<Rightarrow> completed | a \<Rightarrow> ans_unit a = Inr ())
      | Ask_Exit _ \<Rightarrow> False
      | _ \<Rightarrow> b)"

definition context_open :: "life_history \<Rightarrow> bool" where
  "context_open h = foldl context_step False h"

text \<open>The context was entered while the wait for it was being abandoned, and the session never hears of it.\<close>

definition entry_lost :: "life_call \<times> life_answer \<Rightarrow> bool" where
  "entry_lost x \<longleftrightarrow> fst x = Ask_Enter \<and> (case snd x of Ans_Abandoned _ completed \<Rightarrow> completed | _ \<Rightarrow> False)"

lemma context_step_kept: "\<not> entry_lost x \<Longrightarrow> context_step b x = link_step b x"
proof (cases x)
  fix c a
  assume "\<not> entry_lost x" and "x = (c, a)"
  then show ?thesis
    by (cases c) (auto simp: context_step_def entry_lost_def race_result_def split: life_answer.splits option.splits)
qed

lemma context_open_kept: "list_all (\<lambda>x. \<not> entry_lost x) h \<Longrightarrow> context_open h = link_open h"
  unfolding context_open_def link_open_def
  by (induction h rule: rev_induct) (auto simp: context_step_kept)

text \<open>
  C3: A session that ends, with an outcome or with an exception, has requested the exit of every transport context it
  entered.  This assumes orderly ports (\<open>orderly\<close>: no exceptions but \<open>Exception\<close>s and cancellations, a guard that
  swallows nothing), a positive timeout, and that no entry completes while the wait for it is being abandoned.
\<close>

theorem session_closes_its_link:
  assumes "orderly ask" and "0 < info_timeout cfg" and "guarded session_allowed (history w)" and "\<not> link_open (history w)"
    and "run_session ask cfg fuel rssi w = (r, v)" and "r \<noteq> Inl out_of_fuel"
    and "list_all (\<lambda>x. \<not> entry_lost x) (history v)"
  shows "\<not> context_open (history v)"
  using run_session_outcome [OF assms(1-5)] assms(6) context_open_kept [OF assms(7)] by blast

text \<open>
  C5: The session machine never refuses a step of the driver, and a checkpointed session always has an outcome: neither of
  the two faults the driver raises about itself can surface.  This assumes orderly ports and a positive timeout.
\<close>

theorem session_machine_accepts_driver:
  assumes "orderly ask" and "0 < info_timeout cfg" and "guarded session_allowed (history w)" and "\<not> link_open (history w)"
    and "run_session ask cfg fuel rssi w = (Inl e, v)"
  shows "e \<noteq> no_outcome \<and> (\<forall>n. class_of e \<noteq> Session_Machine_Class n)"
  using run_session_outcome [OF assms] by (auto simp: tame_def ordinary_def out_of_fuel_def no_outcome_def)

section \<open>Examples\<close>

definition sample_config :: session_config where
  "sample_config =
     \<lparr>info_timeout = 30, max_storage_not_ready_responses = 3, storage_not_ready_backoff = [1, 2, 5], has_stop_intent = True,
      has_activity = True, has_operational = False, has_clock_state_store = False, has_quality_metrics = False,
      has_session_guard = True, has_observe_info = False, has_observe_public_info = False, has_observe_public_battery = True,
      has_observe_storage_unavailable = False, has_close_verified_drain = True, is_device_busy = (\<lambda>_. False)\<rparr>"

definition empty_info :: ring_info where
  "empty_info = \<lparr>read_sequence = 7, write_sequence = 7, capacity_packets = 100, dropped_packets = 0, packet_size = 444\<rparr>"

text \<open>A device with an empty ring, on a link that fails when it is closed.\<close>

fun drained_device :: life_ports where
  "drained_device h Ask_Info = Ans_Info empty_info"
| "drained_device h (Ask_Step i) = Ans_Step (Some OutDrained) i"
| "drained_device h Ask_Host_Time = Ans_Time 100"
| "drained_device h Ask_Battery = Ans_Want_Battery 80"
| "drained_device h (Ask_Exit _) = Ans_Raised (Raised Transport_Disconnected_Class ''gone'' None)"
| "drained_device h _ = Ans_Ok"

text \<open>A device whose link drops during READ, with a fault in the store behind the checkpoint.\<close>

fun failing_device :: life_ports where
  "failing_device h Ask_Info = Ans_Info empty_info"
| "failing_device h (Ask_Step i) = Ans_Raised (Raised Transport_Disconnected_Class ''gone'' None)"
| "failing_device h Ask_Host_Time = Ans_Time 100"
| "failing_device h Ask_Checkpoint = Ans_Raised (Raised Fatal_Storage_Class ''disk'' None)"
| "failing_device h _ = Ans_Ok"

definition idle_life :: session_life where
  "idle_life =
     \<lparr>storage_not_ready_responses = 0, pending_wake = None, direct_retry = 0, pending_clean_drain = False,
      pending_drain_cursor = None, verified_drain_info = None, verified_drain_observed_at = None, last_info_observed_at = None,
      execution_machine = connect_state, execution_session = False, execution_primary = None, execution_outcome = None,
      execution_teardown_error = False, terminal_error = None, phase_value = Phase_Connect,
      phase_quality = new_session_quality None, visit_now = visit_initial_transition, capture_priority_active = False\<rparr>"

definition idle_world :: life_world where
  "idle_world = \<lparr>local_state = idle_life, history = []\<rparr>"

lemma drained_device_orderly: "orderly drained_device"
  unfolding orderly_def by (auto simp: ordinary_def exception_raised_def no_outcome_def elim!: drained_device.elims)

lemma failing_device_orderly: "orderly failing_device"
  unfolding orderly_def by (auto simp: ordinary_def exception_raised_def no_outcome_def elim!: failing_device.elims)

lemma idle_world_start: "guarded session_allowed (history idle_world)" "\<not> link_open (history idle_world)" "0 < info_timeout sample_config"
  by (simp_all add: idle_world_def sample_config_def)

lemma drained_session: "fst (run_session drained_device sample_config 6 (Some (- 60)) idle_world) = Inr OutConnectedInterrupted"
  by code_simp

lemma failing_session: "fst (run_session failing_device sample_config 6 None idle_world) = Inl (Raised Fatal_Storage_Class ''disk'' None)"
  by code_simp

theorem session_effects_are_ordered_witness:
  "\<exists>v. run_session drained_device sample_config 6 (Some (- 60)) idle_world = (Inr OutConnectedInterrupted, v) \<and> guarded session_allowed (history v)"
  using session_effects_are_ordered [OF drained_device_orderly idle_world_start(3,1,2) surjective_pairing] drained_session
  by (metis prod.collapse)

lemma failing_session_entry: "list_all (\<lambda>x. \<not> entry_lost x) (history (snd (run_session failing_device sample_config 6 None idle_world)))"
  by code_simp

theorem session_closes_its_link_witness:
  "\<exists>v. run_session failing_device sample_config 6 None idle_world = (Inl (Raised Fatal_Storage_Class ''disk'' None), v) \<and> \<not> context_open (history v)"
proof -
  let ?run = "run_session failing_device sample_config 6 None idle_world"
  have "?run = (Inl (Raised Fatal_Storage_Class ''disk'' None), snd ?run)" using failing_session by (metis prod.collapse)
  moreover from session_closes_its_link [OF failing_device_orderly idle_world_start(3,1,2) this _ failing_session_entry]
  have "\<not> context_open (history (snd ?run))" by (simp add: out_of_fuel_def)
  ultimately show ?thesis by blast
qed

theorem session_machine_accepts_driver_witness:
  "\<exists>e. fst (run_session failing_device sample_config 6 None idle_world) = Inl e \<and> (\<forall>n. class_of e \<noteq> Session_Machine_Class n)"
proof -
  let ?run = "run_session failing_device sample_config 6 None idle_world"
  have "?run = (Inl (Raised Fatal_Storage_Class ''disk'' None), snd ?run)" using failing_session by (metis prod.collapse)
  from session_machine_accepts_driver [OF failing_device_orderly idle_world_start(3,1,2) this] failing_session
  show ?thesis by blast
qed

section \<open>Disorderly endings\<close>

text \<open>
  What the hypotheses exclude.  An exception that is neither an \<open>Exception\<close> nor a cancellation moves no machine, so the
  \<open>finally\<close> of the session finds it without the command \<open>TEARDOWN\<close>: it raises before it leaves the context, and hides
  the exception.
\<close>

fun interrupted_device :: life_ports where
  "interrupted_device h Ask_Info = Ans_Raised (Raised (Base_Exception_Class ''KeyboardInterrupt'') [] None)"
| "interrupted_device h c = drained_device h c"

lemma interrupt_leaves_context_open:
  "case run_session interrupted_device sample_config 6 None idle_world of (r, v) \<Rightarrow>
     (case r of Inl e \<Rightarrow> class_of e = Session_Machine_Class ''SessionTransitionError'' | Inr _ \<Rightarrow> False) \<and> context_open (history v)"
  by code_simp

text \<open>A context that is entered when the wait for it has just been abandoned is never left, and the next attempt connects again.\<close>

fun late_device :: "raised option \<Rightarrow> life_ports" where
  "late_device e h Ask_Enter = Ans_Abandoned e True"
| "late_device e h c = drained_device h c"

lemma lost_entry_leaves_context_open:
  "case run_session (late_device None) sample_config 6 None idle_world of (r, v) \<Rightarrow> r = Inr OutRetry \<and> context_open (history v)"
  by code_simp

lemma lost_entry_on_cancellation:
  "case run_session (late_device (Some (Raised (Cancelled_Class ''CancelledError'') [] None))) sample_config 6 None idle_world of (r, v) \<Rightarrow>
     (case r of Inl e \<Rightarrow> is_cancellation e | Inr _ \<Rightarrow> False) \<and> context_open (history v)"
  by code_simp

end
