(* ===== verification/Session_Recovery.thy ===== *)
theory Session_Recovery
  imports Session_Order
begin

text \<open>
  Bounded recovery inside one physical session: the INFO loop waits for a storage that is not ready only as often as the
  configuration allows, whatever the device answers.
\<close>

definition info_requests :: "life_history \<Rightarrow> nat" where
  "info_requests h = length (filter (\<lambda>(c, _). c = Ask_Info) h)"

lemma info_requests_snoc [simp]: "info_requests (h @ [(c, a)]) = info_requests h + (if c = Ask_Info then 1 else 0)"
  by (simp add: info_requests_def)

text \<open>The responses counted so far, and at most \<open>c\<close> requests.\<close>

definition spent_at :: "nat \<Rightarrow> nat \<Rightarrow> life_world \<Rightarrow> bool" where
  "spent_at a c w \<longleftrightarrow> storage_not_ready_responses (local_state w) = a \<and> info_requests (history w) \<le> c"

definition live_error :: "raised \<Rightarrow> bool" where
  "live_error e \<longleftrightarrow> e \<noteq> out_of_fuel"

lemma live_errors: "ordinary e \<Longrightarrow> live_error e" "live_error type_error" "live_error (Raised Value_Class m c)"
  "live_error operation_timed_out"
  by (auto simp: ordinary_def live_error_def type_error_def operation_timed_out_def out_of_fuel_def exception_raised_def is_cancellation_def)

lemma orderly_live: "orderly ask \<Longrightarrow> reads f \<Longrightarrow> f (ask h c) = Inl e \<Longrightarrow> live_error e"
  unfolding orderly_def reads_def using live_errors by blast

lemma spent_port: "orderly ask \<Longrightarrow> c \<noteq> Ask_Info \<Longrightarrow> reads f \<Longrightarrow> keeps (spent_at a n) live_error (port ask c f)"
  by (rule keeps_port) (auto simp: spent_at_def intro: orderly_live)

lemma spent_unless_fatal: "keeps I C m \<Longrightarrow> (\<And>e. keeps I C (h e)) \<Longrightarrow> keeps I C (unless_fatal m h)"
  unfolding unless_fatal_def by (intro keeps_catchp keeps_if keeps_raise)

lemmas spent_intros = keeps_bindp keeps_seqp keeps_ret keeps_whenp spent_port spent_unless_fatal keeps_update_state

lemma spent_waiting:
  assumes "orderly ask"
  shows "keeps (spent_at a n) live_error (record_storage_unavailable ask cfg)"
    and "keeps (spent_at a n) live_error (seqp (report_session_activity ask cfg event) (sleep ask delay))"
  unfolding record_storage_unavailable_def host_time_def report_session_activity_def sleep_def
  by (intro spent_intros assms; auto)+

lemma spent_info_once:
  assumes "orderly ask"
  shows "hoare (spent_at a n) (info_once ask cfg) (\<lambda>_. spent_at a (Suc n)) (\<lambda>e w. live_error e \<and> spent_at a (Suc n) w)"
proof -
  have ask: "hoare (spent_at a n) (bounded ask cfg Ask_Info ans_info) (\<lambda>_. spent_at a (Suc n)) (\<lambda>e w. live_error e \<and> spent_at a (Suc n) w)"
    using orderly_live [OF assms reads_race [OF reads_ans(3)]] unfolding bounded_def
    by (auto simp: hoare_def wp_simps spent_at_def live_errors split: sum.split)
  have observe: "keeps (spent_at a (Suc n)) live_error (seqp (observe_public_info ask cfg i)
      (seqp (whenp (has_observe_info cfg) (unless_fatal (port ask (Ask_Observe_Info i) ans_unit) (debug_exception ask ''firmware_observation_writer_error'')))
        (ret i)))" for i
    unfolding observe_public_info_def host_time_def debug_exception_def
    by (intro spent_intros assms) (auto simp: spent_at_def)
  show ?thesis
    unfolding info_once_def by (rule hoare_bindp [OF ask hoare_keeps [OF observe]])
qed

definition stays_within :: "nat \<Rightarrow> raised \<Rightarrow> life_world \<Rightarrow> bool" where
  "stays_within c e w \<longleftrightarrow> live_error e \<and> info_requests (history w) \<le> c"

lemma spent_within: "spent_at a n w \<Longrightarrow> n \<le> c \<Longrightarrow> info_requests (history w) \<le> c"
  by (simp add: spent_at_def)

lemma info_not_ready_spent:
  assumes o': "orderly ask" and c: "Suc m \<le> c"
    and again: "\<not> max_storage_not_ready_responses cfg \<le> Suc a \<Longrightarrow>
      hoare (spent_at (Suc a) (Suc m)) again (\<lambda>_ w. info_requests (history w) \<le> c) (stays_within c)"
  shows "hoare (spent_at a (Suc m)) (info_not_ready ask cfg e again) (\<lambda>_ w. info_requests (history w) \<le> c) (stays_within c)"
  unfolding info_not_ready_def
proof (intro hoare_seqp hoare_get_state)
  have fail: "stays_within c e w" if "live_error e" "spent_at b (Suc m) w" for e b w
    using that c by (simp add: stays_within_def spent_at_def)
  show "hoare (spent_at a (Suc m)) (record_storage_unavailable ask cfg) (\<lambda>_. spent_at a (Suc m)) (stays_within c)"
    by (rule hoare_post [OF hoare_keeps [OF spent_waiting(1) [OF o']]]) (auto intro: fail)
  show "hoare (spent_at a (Suc m)) (update_state (\<lambda>s. s\<lparr>storage_not_ready_responses := Suc (storage_not_ready_responses s)\<rparr>))
      (\<lambda>_. spent_at (Suc a) (Suc m)) (stays_within c)"
    by (rule hoare_update) (simp add: spent_at_def)
  fix s :: session_life
  let ?P = "spent_at (Suc a) (Suc m)"
  have wait: "hoare ?P (seqp (report_session_activity ask cfg ev) (sleep ask d)) (\<lambda>_. ?P) (stays_within c)" for ev d
    by (rule hoare_post [OF hoare_keeps [OF spent_waiting(2) [OF o']]]) (auto intro: fail)
  have delay: "hoare ?P (lift_result (storage_not_ready_delay k b)) (\<lambda>_. ?P) (stays_within c)" for k b
    using c by (auto simp: hoare_def wp_simps storage_not_ready_delay_def stays_within_def live_error_def out_of_fuel_def spent_at_def)
  have stop: "hoare ?P (raise (Raised Storage_Not_Ready_Session_Class t x)) (\<lambda>_ w. info_requests (history w) \<le> c) (stays_within c)" for t x
    by (intro hoare_raise fail) (simp_all add: live_error_def out_of_fuel_def)
  show "hoare (\<lambda>w. ?P w \<and> local_state w = s)
     (if max_storage_not_ready_responses cfg \<le> storage_not_ready_responses s
      then raise (Raised Storage_Not_Ready_Session_Class ''INFO returned STORAGE_NOT_READY too many times in this physical session'' (Some e))
      else bindp (lift_result (storage_not_ready_delay (storage_not_ready_responses s - 1) (storage_not_ready_backoff cfg))) (\<lambda>delay.
        seqp (seqp (report_session_activity ask cfg (new_activity ''storage_wait'' (Some delay))) (sleep ask delay)) again))
     (\<lambda>_ w. info_requests (history w) \<le> c) (stays_within c)"
  proof (rule hoare_pure [where F = "storage_not_ready_responses s = Suc a"])
    assume s: "storage_not_ready_responses s = Suc a"
    show ?thesis
      unfolding s by (rule hoare_pre [where P = ?P]) (auto intro!: hoare_if stop hoare_bindp [OF delay] hoare_seqp [OF wait again])
  qed (auto simp: spent_at_def)
qed

lemma info_loop_spent:
  assumes o': "orderly ask"
  shows "Suc (max_storage_not_ready_responses cfg - a) \<le> n \<Longrightarrow> m + max 1 (max_storage_not_ready_responses cfg - a) \<le> c \<Longrightarrow>
   hoare (spent_at a m) (info_loop ask cfg n) (\<lambda>_ w. info_requests (history w) \<le> c) (stays_within c)"
proof (induction n arbitrary: a m)
  case (Suc n)
  have c: "Suc m \<le> c" using Suc.prems by simp
  have again: "hoare (spent_at a (Suc m)) (info_not_ready ask cfg e (info_loop ask cfg n)) (\<lambda>_ w. info_requests (history w) \<le> c) (stays_within c)" for e
    using Suc.prems by (intro info_not_ready_spent [OF o' c] Suc.IH) auto
  have handle: "hoare (\<lambda>w. live_error e \<and> spent_at a (Suc m) w)
      (if class_of e \<noteq> Ring_Acknowledgement_Class STATUS_STORAGE_NOT_READY then raise e else info_not_ready ask cfg e (info_loop ask cfg n))
      (\<lambda>_ w. info_requests (history w) \<le> c) (stays_within c)" for e
    using c by (auto intro!: hoare_raise hoare_pre [OF again] simp: stays_within_def spent_at_def)
  show ?case
    unfolding info_loop.simps
    by (rule hoare_catchp [OF hoare_post [OF spent_info_once [OF o'] _ _] handle]) (use c in \<open>auto intro: spent_within\<close>)
qed simp

text \<open>
  C8: Waiting for a storage that is not ready ends: with a round for every response the configuration still allows the loop
  is done, by a value or by an exception, and it has asked for INFO at most that often, and once at least allowed.
\<close>

theorem info_recovery_is_bounded:
  assumes "orderly ask" and "Suc (max_storage_not_ready_responses cfg - storage_not_ready_responses (local_state w)) \<le> n"
  shows "\<exists>r v. info_loop ask cfg n w = (r, v) \<and> r \<noteq> Inl out_of_fuel \<and>
    info_requests (history v) \<le> info_requests (history w) + max 1 (max_storage_not_ready_responses cfg - storage_not_ready_responses (local_state w))"
proof -
  have "spent_at (storage_not_ready_responses (local_state w)) (info_requests (history w)) w" by (simp add: spent_at_def)
  from hoareD [OF info_loop_spent [OF assms order_refl] this] show ?thesis
    by (cases "info_loop ask cfg n w") (auto simp: wp_def stays_within_def live_error_def split: sum.splits)
qed

text \<open>A device whose storage never becomes ready.\<close>

fun remounting_device :: life_ports where
  "remounting_device h Ask_Info = Ans_Raised (Raised (Ring_Acknowledgement_Class STATUS_STORAGE_NOT_READY) ''INFO'' None)"
| "remounting_device h _ = Ans_Ok"

lemma remounting_device_orderly: "orderly remounting_device"
  unfolding orderly_def by (auto simp: ordinary_def exception_raised_def no_outcome_def elim!: remounting_device.elims)

theorem info_recovery_is_bounded_witness:
  "\<exists>r v. info_loop remounting_device sample_config 4 idle_world = (r, v) \<and> r \<noteq> Inl out_of_fuel \<and> info_requests (history v) \<le> 3"
proof -
  have "Suc (max_storage_not_ready_responses sample_config - storage_not_ready_responses (local_state idle_world)) \<le> 4"
    by (simp add: sample_config_def idle_world_def idle_life_def)
  from info_recovery_is_bounded [OF remounting_device_orderly this] show ?thesis
    by (simp add: sample_config_def idle_world_def idle_life_def info_requests_def)
qed

end
