(* ===== verification/Visit_Driver.thy ===== *)
theory Visit_Driver
  imports Session_Lifecycle
begin

text \<open>
  The loop that runs visits (\<open>application/session_lifecycle.py\<close>): it executes the command of the visit machine, feeds
  the fact back, and brackets attempts and closures with the capture priority.  The local variables of the loop are
  fields of the state, so that the handlers see the values at the moment of an exception.
\<close>

section \<open>Policies\<close>

record retry_policy =
  backoff :: "rat list"
  batch_records :: int
  stop_after_drained :: bool
  drain_cooldown :: rat
  arena_limit :: int
  advance_enabled :: bool

definition delay_for :: "retry_policy \<Rightarrow> nat \<Rightarrow> rat" where
  "delay_for p retry_number = (if backoff p = [] then 0 else backoff p ! min retry_number (length (backoff p) - 1))"

definition policy_error :: raised where
  "policy_error = Raised Value_Class ''opportunistic recovery policy values must be positive'' None"

definition validate_policy :: "retry_policy \<Rightarrow> rat \<Rightarrow> (raised, unit) result" where
  "validate_policy p max_cooldown =
     (if backoff p = [] \<or> drain_cooldown p \<le> 0 \<or> max_cooldown < drain_cooldown p then Inl policy_error
      else if batch_records p \<le> 0 \<or> arena_limit p \<le> 0 \<or> arena_limit p div int RECORD_SIZE < batch_records p then Inl policy_error
      else if \<exists>d \<in> set (backoff p). d \<le> 0 then Inl policy_error
      else Inr ())"

definition validate_presence_policy :: "retry_policy \<Rightarrow> presence_policy option \<Rightarrow> (raised, unit) result" where
  "validate_presence_policy p presence =
     (case presence of
        None \<Rightarrow> Inr ()
      | Some q \<Rightarrow>
          require (backoff p = rapid_backoff q \<and> drain_cooldown p = drain_cooldown_seconds q)
            (Raised Value_Class ''opportunistic and presence timing policies must match'' None))"

record visit_config =
  session_options :: session_config
  visit_policy :: retry_policy
  visit_presence :: "presence_policy option"
  wake_max_gap_seconds :: rat
  has_durable_progress_query :: bool
  has_close_visit :: bool
  has_load_recovery :: bool
  has_invalidate_recovery :: bool
  has_capture_priority :: bool

section \<open>Answers\<close>

fun ans_count :: "life_answer \<Rightarrow> (raised, int) result" where
  "ans_count (Ans_Raised e) = Inl e" | "ans_count (Ans_Count n) = Inr n" | "ans_count _ = Inl type_error"

fun ans_recovery :: "life_answer \<Rightarrow> (raised, recovery_disposition) result" where
  "ans_recovery (Ans_Raised e) = Inl e" | "ans_recovery (Ans_Recovery d) = Inr d" | "ans_recovery _ = Inl type_error"

text \<open>\<open>PresenceEnd | None\<close> and \<open>PresenceWake | PresenceEnd\<close>\<close>

fun ans_end :: "life_answer \<Rightarrow> (raised, string option) result" where
  "ans_end (Ans_Raised e) = Inl e" | "ans_end (Ans_End reason) = Inr (Some reason)" | "ans_end _ = Inr None"

fun ans_wake :: "life_answer \<Rightarrow> (raised, (string, presence_wake) result) result" where
  "ans_wake (Ans_Raised e) = Inl e"
| "ans_wake (Ans_End reason) = Inr (Inl reason)"
| "ans_wake (Ans_Wake k) = Inr (Inr k)"
| "ans_wake _ = Inl type_error"

fun visit_fault :: "visit_error \<Rightarrow> raised" where
  "visit_fault VisitTransitionError = Raised (Visit_Machine_Class ''VisitTransitionError'') [] None"
| "visit_fault (VisitValueError m) = Raised Value_Class m None"

definition visit_result_of :: "(visit_error, 'r) result \<Rightarrow> (raised, 'r) result" where
  "visit_result_of r = (case r of Inl e \<Rightarrow> Inl (visit_fault e) | Inr x \<Rightarrow> Inr x)"

section \<open>Waiting for an attempt\<close>

definition visit_recovery_end :: "string \<Rightarrow> (raised, visit_event) result" where
  "visit_recovery_end reason =
     (if reason = ''absence'' then Inr (RecoveryEnded CloseAbsence)
      else if reason = ''recovery_exhausted'' then Inr (RecoveryEnded CloseRecoveryExhausted)
      else Inl (Raised Value_Class ''unknown presence end reason'' None))"

definition submit_presence_outcome :: "life_ports \<Rightarrow> visit_outcome option \<Rightarrow> string option life" where
  "submit_presence_outcome ask previous =
     (case previous of
        None \<Rightarrow> ret None
      | Some (Interrupted linked progress) \<Rightarrow>
          port ask (Ask_Attempt_Finished (if linked then ConnectedInterruption progress else NotConnected progress)) ans_end
      | Some _ \<Rightarrow> port ask (Ask_Attempt_Finished attempt_outcome.CandidateUnavailable) ans_end)"

definition wait_direct :: "life_ports \<Rightarrow> visit_config \<Rightarrow> visit_outcome option \<Rightarrow> visit_event life" where
  "wait_direct ask cfg previous =
     seqp (whenp (previous \<noteq> None)
       (bindp get_state (\<lambda>s.
        let delay = delay_for (visit_policy cfg) (direct_retry s) in
        seqp (update_state (\<lambda>s. s\<lparr>direct_retry := Suc (direct_retry s)\<rparr>))
       (seqp (report_session_activity ask (session_options cfg) (new_activity ''away'' (Some delay))) (sleep ask delay)))))
    (seqp (port ask Ask_Before_Direct_Attempt ans_unit) (ret AttemptGranted))"

definition wait_presence :: "life_ports \<Rightarrow> visit_config \<Rightarrow> bool \<Rightarrow> visit_outcome option \<Rightarrow> visit_event life" where
  "wait_presence ask cfg arm_restored previous =
     seqp (assertp (visit_presence cfg \<noteq> None) (Raised Assertion_Class [] None))
    (seqp (whenp arm_restored (port ask Ask_Resume_Visit ans_unit))
    (bindp (submit_presence_outcome ask previous) (\<lambda>ended.
     case ended of
       Some reason \<Rightarrow> lift_result (visit_recovery_end reason)
     | None \<Rightarrow>
         seqp (whenp (previous \<noteq> None) (report_session_activity ask (session_options cfg) (new_activity ''away'' None)))
        (bindp (port ask Ask_Wait_Presence ans_wake) (\<lambda>answer.
         case answer of
           Inl reason \<Rightarrow> lift_result (visit_recovery_end reason)
         | Inr wake \<Rightarrow> seqp (update_state (\<lambda>s. s\<lparr>pending_wake := Some wake\<rparr>)) (ret AttemptGranted))))))"

definition wait_for_visit_attempt :: "life_ports \<Rightarrow> visit_config \<Rightarrow> bool \<Rightarrow> bool \<Rightarrow> visit_outcome option \<Rightarrow> visit_event life" where
  "wait_for_visit_attempt ask cfg with_presence arm_restored previous =
     (if with_presence then wait_presence ask cfg arm_restored previous else wait_direct ask cfg previous)"

section \<open>One attempt\<close>

definition wake_is_fresh :: "presence_wake \<Rightarrow> rat \<Rightarrow> rat \<Rightarrow> bool" where
  "wake_is_fresh wake now max_gap \<longleftrightarrow> (case wake_observed_at wake of None \<Rightarrow> False | Some t \<Rightarrow> now < t + max_gap)"

definition take_wake :: "presence_wake option life" where
  "take_wake = bindp get_state (\<lambda>s. seqp (update_state (\<lambda>s. s\<lparr>pending_wake := None\<rparr>)) (ret (pending_wake s)))"

text \<open>The provider opens a context, or its failure is an outcome of the attempt.\<close>

definition open_context :: "life_ports \<Rightarrow> session_config \<Rightarrow> nat option \<Rightarrow> session_outcome option life" where
  "open_context ask cfg chosen =
     catchp (seqp (port ask (Ask_Provider chosen) ans_unit) (ret None)) (\<lambda>e.
       seqp (report_session_error ask cfg Phase_Connect e)
         (if class_of e = Candidate_Unavailable_Class then ret (Some OutCandidateUnavailable)
          else if \<not> retryable (is_device_busy cfg) e
          then seqp (report_session_activity ask cfg (new_activity ''fatal'' None)) (raise e)
          else ret (Some OutRetry)))"

definition wake_is_stale :: "life_ports \<Rightarrow> visit_config \<Rightarrow> bool \<Rightarrow> presence_wake option \<Rightarrow> bool life" where
  "wake_is_stale ask cfg with_presence wake =
     (if \<not> with_presence then ret False
      else case wake of
        None \<Rightarrow> ret True
      | Some k \<Rightarrow> bindp (port ask Ask_Clock ans_time) (\<lambda>now. ret (\<not> wake_is_fresh k now (wake_max_gap_seconds cfg))))"

definition run_one_attempt :: "life_ports \<Rightarrow> visit_config \<Rightarrow> nat \<Rightarrow> bool \<Rightarrow> session_outcome life" where
  "run_one_attempt ask cfg fuel with_presence =
     seqp (session_check_stop ask (session_options cfg))
    (bindp (if with_presence then take_wake else ret None) (\<lambda>wake.
     bindp (wake_is_stale ask cfg with_presence wake) (\<lambda>stale.
     if stale then ret OutCandidateUnavailable
     else
       seqp (report_session_activity ask (session_options cfg) (new_activity ''connecting'' None))
      (bindp (open_context ask (session_options cfg) (case wake of None \<Rightarrow> None | Some k \<Rightarrow> wake_candidate k)) (\<lambda>opened.
       case opened of
         Some outcome \<Rightarrow> ret outcome
       | None \<Rightarrow> run_session ask (session_options cfg) fuel (case wake of None \<Rightarrow> None | Some k \<Rightarrow> wake_rssi k))))))"

definition attempt_event :: "session_outcome \<Rightarrow> bool \<Rightarrow> int option \<Rightarrow> (raised, visit_outcome) result" where
  "attempt_event outcome progressed drain_cursor =
     (if outcome = OutDrained then
        (case drain_cursor of
           None \<Rightarrow> Inl (Raised Runtime_Class ''drained session lacks its confirmed cursor'' None)
         | Some c \<Rightarrow> visit_result_of (new_drain_confirmed c))
      else if drain_cursor \<noteq> None then Inl (Raised Runtime_Class ''nondrained session carries a confirmed drain cursor'' None)
      else if outcome = OutCollected then Inr OperatorBatchCompleted
      else if outcome = OutCandidateUnavailable then Inr visit_outcome.CandidateUnavailable
      else if outcome = OutRetry \<or> outcome = OutConnectedInterrupted
      then Inr (Interrupted (outcome = OutConnectedInterrupted) progressed)
      else Inl (Raised Runtime_Class ''unknown lifecycle attempt outcome'' None))"

definition completed_batches :: "life_ports \<Rightarrow> int life" where
  "completed_batches ask = port ask Ask_Completed_Batches ans_count"

definition visit_durable_progress :: "life_ports \<Rightarrow> visit_config \<Rightarrow> int life" where
  "visit_durable_progress ask cfg = (if has_durable_progress_query cfg then port ask Ask_Durable_Progress ans_count else ret 0)"

definition is_drain :: "visit_outcome \<Rightarrow> bool" where
  "is_drain x \<longleftrightarrow> (case x of DrainConfirmed _ \<Rightarrow> True | _ \<Rightarrow> False)"

definition is_interruption :: "visit_outcome \<Rightarrow> bool" where
  "is_interruption x \<longleftrightarrow> (case x of Interrupted _ _ \<Rightarrow> True | _ \<Rightarrow> False)"

definition attempt_visit :: "life_ports \<Rightarrow> visit_config \<Rightarrow> nat \<Rightarrow> bool \<Rightarrow> visit_outcome life" where
  "attempt_visit ask cfg fuel with_presence =
     bindp (completed_batches ask) (\<lambda>completed_before.
     bindp (visit_durable_progress ask cfg) (\<lambda>progress_before.
     seqp (update_state (\<lambda>s. s\<lparr>pending_drain_cursor := None\<rparr>))
    (bindp (run_one_attempt ask cfg fuel with_presence) (\<lambda>outcome.
     bindp (completed_batches ask) (\<lambda>completed.
     bindp (if completed_before < completed then ret True else bindp (visit_durable_progress ask cfg) (\<lambda>p. ret (progress_before < p))) (\<lambda>durable.
     bindp get_state (\<lambda>s.
     bindp (lift_result (attempt_event outcome durable (if outcome = OutDrained then pending_drain_cursor s else None))) (\<lambda>event.
     seqp (if is_drain event then update_state (\<lambda>s. s\<lparr>pending_clean_drain := with_presence, direct_retry := 0\<rparr>)
           else bindp (completed_batches ask) (\<lambda>n. whenp (completed_before < n) (update_state (\<lambda>s. s\<lparr>direct_retry := 0\<rparr>))))
    (seqp (whenp (with_presence \<and> is_interruption event)
            (bindp (completed_batches ask) (\<lambda>n.
             whenp (completed_before < n) (report_session_activity ask (session_options cfg) (new_activity ''batch_complete'' None)))))
      (ret event))))))))))"

section \<open>Commands of the visit\<close>

definition commit_closure :: "life_ports \<Rightarrow> visit_config \<Rightarrow> close_reason \<Rightarrow> int option \<Rightarrow> unit life" where
  "commit_closure ask cfg reason cursor =
     seqp
       (if reason = CloseDrained \<and> has_close_verified_drain (session_options cfg) then
          bindp get_state (\<lambda>s.
          case (verified_drain_info s, verified_drain_observed_at s) of
            (Some i, Some t) \<Rightarrow> port ask (Ask_Close_Verified_Drain i t) ans_unit
          | _ \<Rightarrow> raise (Raised Assertion_Class [] None))
        else whenp (has_close_visit cfg) (port ask (Ask_Close_Visit reason cursor) ans_unit))
       (whenp (reason = CloseRestartInterrupted \<and> has_invalidate_recovery cfg) (port ask Ask_Invalidate_Recovery ans_unit))"

definition run_visit_command :: "life_ports \<Rightarrow> visit_config \<Rightarrow> nat \<Rightarrow> bool \<Rightarrow> visit_command \<Rightarrow> visit_event life" where
  "run_visit_command ask cfg fuel with_presence command =
     (case command of
        InspectRecovery \<Rightarrow>
          bindp (if has_load_recovery cfg then port ask Ask_Load_Recovery ans_recovery else ret RecoveryEmpty) (\<lambda>d. ret (RecoveryLoaded d))
      | WaitForAttempt arm_restored previous \<Rightarrow> wait_for_visit_attempt ask cfg with_presence arm_restored previous
      | RunAttempt \<Rightarrow> bindp (attempt_visit ask cfg fuel with_presence) (\<lambda>x. ret (SessionFinished x))
      | CommitClosure reason cursor \<Rightarrow> seqp (commit_closure ask cfg reason cursor) (ret ClosureCommitted)
      | _ \<Rightarrow> raise (Raised Runtime_Class ''unhandled visit command'' None))"

fun is_closure :: "visit_command \<Rightarrow> bool" where
  "is_closure (CommitClosure _ _) = True" | "is_closure _ = False"

text \<open>A closure that failed is acknowledged to the machine; the result of that step is not used.\<close>

definition execute_visit_command :: "life_ports \<Rightarrow> visit_config \<Rightarrow> nat \<Rightarrow> bool \<Rightarrow> visit_state \<times> visit_command \<Rightarrow> visit_event life" where
  "execute_visit_command ask cfg fuel with_presence pending =
     catchp (run_visit_command ask cfg fuel with_presence (snd pending)) (\<lambda>e.
       seqp (whenp (is_live e \<and> is_closure (snd pending))
              (bindp (lift_result (visit_result_of (visit_transition False (fst pending) CloseFailed))) (\<lambda>_. ret ())))
         (raise e))"

definition finish_visit :: "life_ports \<Rightarrow> visit_config \<Rightarrow> bool \<Rightarrow> close_reason \<Rightarrow> bool \<Rightarrow> unit life" where
  "finish_visit ask cfg presence reason stop =
     whenp (reason = CloseDrained)
       (bindp get_state (\<lambda>s.
        let cooldown = (case visit_presence cfg of Some p \<Rightarrow> if presence then drain_cooldown_seconds p else drain_cooldown (visit_policy cfg)
                        | None \<Rightarrow> drain_cooldown (visit_policy cfg)) in
        seqp (whenp (presence \<and> pending_clean_drain s)
               (seqp (port ask (Ask_Attempt_Finished CleanDrain) ans_unit) (update_state (\<lambda>s. s\<lparr>pending_clean_drain := False\<rparr>))))
       (seqp (report_session_activity ask (session_options cfg) (new_activity ''drained'' None))
         (whenp (\<not> stop)
           (bindp (if presence then port ask Ask_Cooldown_Remaining ans_time else ret cooldown) (\<lambda>remaining.
            seqp (report_session_activity ask (session_options cfg)
                   ((new_activity ''cooldown_started'' None)
                     \<lparr>activity_reason := Some ''clean_drain'', duration_seconds := Some cooldown, next_attempt_in_seconds := Some remaining\<rparr>))
              (whenp (\<not> presence) (sleep ask cooldown))))))))"

section \<open>The loop\<close>

fun needs_priority :: "visit_command \<Rightarrow> bool" where
  "needs_priority RunAttempt = True" | "needs_priority (CommitClosure _ _) = True" | "needs_priority _ = False"

definition should_enter_capture_priority :: "visit_config \<Rightarrow> visit_command \<Rightarrow> bool \<Rightarrow> bool" where
  "should_enter_capture_priority cfg command active \<longleftrightarrow> needs_priority command \<and> \<not> active \<and> has_capture_priority cfg"

fun keeps_priority :: "visit_command option \<Rightarrow> bool" where
  "keeps_priority (Some (CommitClosure _ _)) = True"
| "keeps_priority (Some InspectRecovery) = True"
| "keeps_priority _ = False"

definition release_capture_priority_after :: "life_ports \<Rightarrow> visit_config \<Rightarrow> visit_command option \<Rightarrow> bool \<Rightarrow> bool life" where
  "release_capture_priority_after ask cfg next_command active =
     (if active \<and> \<not> keeps_priority next_command
      then seqp (whenp (has_capture_priority cfg) (port ask Ask_Exit_Priority ans_unit)) (ret False)
      else ret active)"

definition enter_capture_priority :: "life_ports \<Rightarrow> visit_config \<Rightarrow> visit_command \<Rightarrow> unit life" where
  "enter_capture_priority ask cfg command =
     bindp get_state (\<lambda>s.
     whenp (should_enter_capture_priority cfg command (capture_priority_active s))
       (seqp (update_state (\<lambda>s. s\<lparr>capture_priority_active := True\<rparr>)) (port ask Ask_Enter_Priority ans_unit)))"

definition visit_step_now :: "visit_config \<Rightarrow> visit_event \<Rightarrow> unit life" where
  "visit_step_now cfg event =
     bindp get_state (\<lambda>s.
     bindp (lift_result (visit_result_of (visit_transition (stop_after_drained (visit_policy cfg)) (fst (visit_now s)) event))) (\<lambda>r.
     update_state (\<lambda>s. s\<lparr>visit_now := r\<rparr>)))"

definition release_now :: "life_ports \<Rightarrow> visit_config \<Rightarrow> unit life" where
  "release_now ask cfg =
     bindp get_state (\<lambda>s.
     bindp (release_capture_priority_after ask cfg (Some (snd (visit_now s))) (capture_priority_active s)) (\<lambda>active.
     update_state (\<lambda>s. s\<lparr>capture_priority_active := active\<rparr>)))"

definition visit_drained_result :: "life_ports \<Rightarrow> unit life" where
  "visit_drained_result ask = port ask Ask_Drained_Result ans_unit"

fun visit_loop :: "life_ports \<Rightarrow> visit_config \<Rightarrow> bool \<Rightarrow> nat \<Rightarrow> unit life" where
  "visit_loop ask cfg with_presence 0 = raise out_of_fuel"
| "visit_loop ask cfg with_presence (Suc n) =
     bindp get_state (\<lambda>s.
     case snd (visit_now s) of
       FinishVisit reason stop \<Rightarrow>
         seqp (finish_visit ask cfg (with_presence \<and> visit_presence cfg \<noteq> None) reason stop)
           (if stop then visit_drained_result ask
            else
              seqp (update_state (\<lambda>s. s\<lparr>visit_now := (fst (visit_now s), WaitForAttempt False None)\<rparr>))
                (visit_loop ask cfg with_presence n))
     | PreserveAndStop \<Rightarrow>
         raise (Raised (Cancelled_Class ''CancelledError'') ''visit lifecycle stopped before closure acknowledgement'' None)
     | VisitNoOp \<Rightarrow> visit_drained_result ask
     | command \<Rightarrow>
         seqp (enter_capture_priority ask cfg command)
        (bindp (execute_visit_command ask cfg n with_presence (visit_now s)) (\<lambda>event.
         seqp (visit_step_now cfg event)
        (seqp (release_now ask cfg) (visit_loop ask cfg with_presence n)))))"

definition visit_shutdown :: "raised \<Rightarrow> unit life" where
  "visit_shutdown e =
     seqp (whenp (is_cancellation e)
       (bindp get_state (\<lambda>s.
        bindp (lift_result (visit_result_of (visit_transition False (fst (visit_now s)) VisitShutdown))) (\<lambda>_. ret ()))))
     (raise e)"

definition visit_cleanup :: "life_ports \<Rightarrow> visit_config \<Rightarrow> bool \<Rightarrow> unit life" where
  "visit_cleanup ask cfg with_presence =
     bindp get_state (\<lambda>s.
     seqp (bindp (release_capture_priority_after ask cfg None (capture_priority_active s)) (\<lambda>_. ret ()))
       (whenp (with_presence \<and> visit_presence cfg \<noteq> None) (port ask Ask_Presence_Close ans_unit)))"

definition run_visit_machine :: "life_ports \<Rightarrow> visit_config \<Rightarrow> nat \<Rightarrow> bool \<Rightarrow> unit life" where
  "run_visit_machine ask cfg fuel with_presence =
     seqp (update_state (\<lambda>s. s\<lparr>visit_now := visit_initial_transition, capture_priority_active := False\<rparr>))
       (finally_live (catchp (visit_loop ask cfg with_presence fuel) visit_shutdown) (visit_cleanup ask cfg with_presence))"

end
