(* ===== verification/Call_Frame.thy ===== *)
theory Call_Frame
  imports Session_Order Visit_Driver
begin

text \<open>
  Properties of the history of calls and of a view of the state that a part of the driver does not change.
  \<open>call_frame\<close> is the contract for a view of the fields that a session keeps until it has an outcome, \<open>loop_frame\<close> for a
  view of the variables of the visit loop, and \<open>session_history\<close> adds that every call of a session is permitted, so a
  whole session keeps the property.  A session sleeps only while it recovers from a refused INFO; such a sleep is
  admitted by every frame, any other one needs a permission of its own.  The ports are arbitrary.
\<close>

type_synonym loop_vars = "(visit_state \<times> visit_command) \<times> bool"

definition loop_vars :: "session_life \<Rightarrow> loop_vars" where
  "loop_vars s = (visit_now s, capture_priority_active s)"

definition kept ::
  "session_life \<Rightarrow> session_outcome option \<times> int option \<times> ring_info option \<times> rat option \<times> loop_vars" where
  "kept s = (execution_outcome s, pending_drain_cursor s, verified_drain_info s, verified_drain_observed_at s, loop_vars s)"

definition frame_of :: "(session_life \<Rightarrow> 'v) \<Rightarrow> (life_history \<Rightarrow> 'v \<Rightarrow> bool) \<Rightarrow> life_world \<Rightarrow> bool" where
  "frame_of view H w = H (history w) (view (local_state w))"

fun session_call :: "life_call \<Rightarrow> bool" where
  "session_call Ask_Enter = True"
| "session_call Ask_Checkpoint = True"
| "session_call c = (noise c \<or> link_work c \<or> is_exit c)"

section \<open>Sleeping\<close>

text \<open>An INFO was requested, and since then neither the exit of the link nor a capture priority.\<close>

definition asked_step :: "bool \<Rightarrow> life_call \<times> life_answer \<Rightarrow> bool" where
  "asked_step b x = (case fst x of Ask_Info \<Rightarrow> True | Ask_Exit _ \<Rightarrow> False | Ask_Enter_Priority \<Rightarrow> False | _ \<Rightarrow> b)"

definition info_asked :: "life_history \<Rightarrow> bool" where
  "info_asked h = foldl asked_step False h"

lemma info_asked_snoc [simp]: "info_asked (h @ [x]) = asked_step (info_asked h) x"
  by (simp add: info_asked_def)

abbreviation asked :: "life_world \<Rightarrow> bool" where
  "asked w \<equiv> info_asked (history w)"

lemma asked_port: "c \<noteq> Ask_Enter_Priority \<Longrightarrow> \<not> is_exit c \<Longrightarrow> maintains asked (port ask c f)"
  by (rule maintains_port) (cases c; simp add: asked_step_def)

lemma asked_update: "maintains asked (update_state f)"
  by (rule maintains_update_state) simp

lemma asked_reports:
  "maintains asked (record_storage_unavailable ask cfg)"
  "maintains asked (report_session_activity ask cfg activity)"
  "maintains asked (observe_public_info ask cfg i)"
  "maintains asked (unless_fatal (port ask (Ask_Observe_Info i) ans_unit) (debug_exception ask event))"
  unfolding record_storage_unavailable_def report_session_activity_def observe_public_info_def unless_fatal_def
    debug_exception_def host_time_def
  by (intro maintains_intros asked_port asked_update; simp)+

lemma hoare_maintains: "maintains I m \<Longrightarrow> hoare I m (\<lambda>_. I) (\<lambda>_. I)"
  by (simp add: hoare_def maintains_def)

section \<open>Parts of a session\<close>

locale call_frame =
  fixes permits :: "life_call \<Rightarrow> bool"
    and view :: "session_life \<Rightarrow> 'v"
    and H :: "life_history \<Rightarrow> 'v \<Rightarrow> bool"
  assumes admits: "permits c \<Longrightarrow> H h x \<Longrightarrow> H (h @ [(c, a)]) x"
    and noise_permitted: "noise c \<Longrightarrow> (\<forall>d. c \<noteq> Ask_Sleep d) \<Longrightarrow> permits c"
    and recovery_sleeps: "info_asked h \<Longrightarrow> H h x \<Longrightarrow> H (h @ [(Ask_Sleep d, a)]) x"
    and insensitive: "kept s = kept t \<Longrightarrow> view s = view t"
begin

lemma port_maintains: "permits c \<Longrightarrow> maintains (frame_of view H) (port ask c f)"
  by (rule maintains_port) (simp add: frame_of_def admits)

lemma noise_maintains: "noise c \<Longrightarrow> (\<forall>d. c \<noteq> Ask_Sleep d) \<Longrightarrow> maintains (frame_of view H) (port ask c f)"
  by (rule port_maintains [OF noise_permitted])

lemma sleep_maintains: "permits (Ask_Sleep delay) \<Longrightarrow> maintains (frame_of view H) (sleep ask delay)"
  unfolding sleep_def by (rule port_maintains)

lemma call_maintains: "permits c \<Longrightarrow> maintains (frame_of view H) (call ask c)"
  by (rule maintains_call) (simp add: frame_of_def admits)

lemma update_maintains: "(\<And>s. kept (f s) = kept s) \<Longrightarrow> maintains (frame_of view H) (update_state f)"
  by (rule maintains_update_state) (simp add: frame_of_def insensitive [of "f s" s for s])

lemmas frame_steps = maintains_intros update_maintains

lemma reports_maintain:
  "maintains (frame_of view H) (host_time ask)"
  "maintains (frame_of view H) (session_check_stop ask cfg)"
  "maintains (frame_of view H) (debug_exception ask event e)"
  "maintains (frame_of view H) (report_session_activity ask cfg activity)"
  unfolding host_time_def session_check_stop_def debug_exception_def report_session_activity_def
  by (intro frame_steps noise_maintains; simp)+

lemma observers_maintain:
  "maintains (frame_of view H) (report_session_error ask cfg phase e)"
  "maintains (frame_of view H) (record_storage_unavailable ask cfg)"
  "maintains (frame_of view H) (observe_public_info ask cfg i)"
  "maintains (frame_of view H) (observe_public_battery ask cfg percent)"
  unfolding report_session_error_def record_storage_unavailable_def observe_public_info_def observe_public_battery_def
  by (intro frame_steps reports_maintain noise_maintains; simp add: kept_def loop_vars_def)+

lemma unless_fatal_maintains:
  "maintains (frame_of view H) m \<Longrightarrow> (\<And>e. maintains (frame_of view H) (h e)) \<Longrightarrow> maintains (frame_of view H) (unless_fatal m h)"
  unfolding unless_fatal_def by (intro frame_steps)

lemma emit_maintains: "maintains (frame_of view H) (emit_event ask cfg event)"
  unfolding emit_event_def record_clock_correction_def
  by (intro frame_steps unless_fatal_maintains reports_maintain noise_maintains; simp add: kept_def loop_vars_def)

lemma metrics_maintain:
  "maintains (frame_of view H) (record_advertisement_quality ask cfg rssi)"
  "maintains (frame_of view H) (account_session ask cfg)"
  unfolding record_advertisement_quality_def account_session_def record_session_quality_def
  by (intro frame_steps unless_fatal_maintains reports_maintain noise_maintains; simp)+

text \<open>INFO: a refusal follows a request, so the sleep of the recovery is admitted.\<close>

lemma info_once_asked:
  assumes p: "permits Ask_Info"
  shows "hoare (frame_of view H) (info_once ask cfg) (\<lambda>_. frame_of view H)
     (\<lambda>e w. frame_of view H w \<and> (class_of e = Ring_Acknowledgement_Class STATUS_STORAGE_NOT_READY \<longrightarrow> asked w))"
proof -
  have ask: "hoare (frame_of view H) (bounded ask cfg Ask_Info ans_info) (\<lambda>_ w. frame_of view H w \<and> asked w)
      (\<lambda>e w. frame_of view H w \<and> (class_of e = Ring_Acknowledgement_Class STATUS_STORAGE_NOT_READY \<longrightarrow> asked w))"
    unfolding bounded_def
    by (auto simp: hoare_def wp_simps frame_of_def asked_step_def admits [OF p] split: sum.split)
  have observe: "maintains (\<lambda>w. frame_of view H w \<and> asked w) (seqp (observe_public_info ask cfg i)
      (seqp (whenp (has_observe_info cfg)
          (unless_fatal (port ask (Ask_Observe_Info i) ans_unit) (debug_exception ask ''firmware_observation_writer_error'')))
        (ret i)))" for i
    by (rule maintains_conj; intro frame_steps unless_fatal_maintains reports_maintain observers_maintain port_maintains
        noise_permitted asked_reports; simp)
  show ?thesis
    unfolding info_once_def by (rule hoare_bindp [OF ask hoare_post [OF hoare_maintains [OF observe]]]) auto
qed

lemma info_recovery_maintains:
  assumes "maintains (frame_of view H) again"
  shows "hoare (\<lambda>w. frame_of view H w \<and> asked w) (info_not_ready ask cfg e again) (\<lambda>_. frame_of view H) (\<lambda>_. frame_of view H)"
proof -
  let ?A = "\<lambda>w. frame_of view H w \<and> asked w"
  have steady: "hoare ?A m (\<lambda>_. ?A) (\<lambda>_. frame_of view H)" if "maintains (frame_of view H) m" "maintains asked m" for m :: "'x life"
    by (rule hoare_post [OF hoare_maintains [OF maintains_conj [OF that]]]) auto
  have sleep: "hoare ?A (sleep ask delay) (\<lambda>_. frame_of view H) (\<lambda>_. frame_of view H)" for delay
    unfolding sleep_def by (rule hoare_port) (auto simp: frame_of_def recovery_sleeps split: sum.split)
  show ?thesis
    unfolding info_not_ready_def seqp_assoc
    by (intro hoare_seqp [OF steady] hoare_bindp [OF steady] hoare_if hoare_seqp [OF sleep] hoare_maintains [OF assms]
        observers_maintain reports_maintain asked_reports update_maintains asked_update frame_steps hoare_raise)
      (auto simp: kept_def loop_vars_def)
qed

lemma info_maintains: "permits Ask_Info \<Longrightarrow> maintains (frame_of view H) (info ask cfg)"
proof -
  assume p: "permits Ask_Info"
  have "maintains (frame_of view H) (info_loop ask cfg n)" for n
  proof (induction n)
    case (Suc n)
    have "hoare (frame_of view H) (info_loop ask cfg (Suc n)) (\<lambda>_. frame_of view H) (\<lambda>_. frame_of view H)"
      unfolding info_loop.simps
    proof (rule hoare_catchp [OF info_once_asked [OF p]])
      fix e
      show "hoare (\<lambda>w. frame_of view H w \<and> (class_of e = Ring_Acknowledgement_Class STATUS_STORAGE_NOT_READY \<longrightarrow> asked w))
          (if class_of e \<noteq> Ring_Acknowledgement_Class STATUS_STORAGE_NOT_READY then raise e
           else info_not_ready ask cfg e (info_loop ask cfg n)) (\<lambda>_. frame_of view H) (\<lambda>_. frame_of view H)"
        by (cases "class_of e = Ring_Acknowledgement_Class STATUS_STORAGE_NOT_READY")
          (auto intro: info_recovery_maintains [OF Suc.IH] hoare_raise)
    qed
    then show ?case by (simp add: hoare_def maintains_def)
  qed (simp add: maintains_raise)
  then show ?thesis unfolding info_def by (intro frame_steps)
qed

lemma serve_maintains:
  assumes "kind \<noteq> Battery_Work \<Longrightarrow> permits Ask_Info" and "\<And>r. permits (Ask_Continue r)"
  shows "permits c \<Longrightarrow> maintains (frame_of view H) (serve ask cfg kind n c f)"
proof (induction n arbitrary: c)
  case (Suc n)
  have enter: "maintains (frame_of view H) (reenter ask cfg a)" if "offered kind a" for a
    using that unfolding reenter_def no_info_def
    by (cases a) (auto intro!: frame_steps info_maintains assms observers_maintain emit_maintains simp: kept_def loop_vars_def)
  show ?case
    unfolding serve.simps by (intro frame_steps call_maintains enter Suc assms)
qed (simp add: maintains_raise)

lemma telemetry_maintains:
  assumes "\<And>b. permits (Ask_Telemetry b)" and "\<And>r. permits (Ask_Continue r)" and "permits Ask_Info"
  shows "maintains (frame_of view H) (collect_telemetry ask cfg n)"
  unfolding collect_telemetry_def
  by (intro frame_steps reports_maintain observers_maintain serve_maintains assms; simp add: kept_def loop_vars_def)

lemma battery_maintains: "permits Ask_Battery \<Longrightarrow> (\<And>r. permits (Ask_Continue r)) \<Longrightarrow> maintains (frame_of view H) (refresh_battery ask cfg n)"
  unfolding refresh_battery_def
  by (intro frame_steps unless_fatal_maintains reports_maintain observers_maintain serve_maintains; simp)

lemma machine_maintains:
  "maintains (frame_of view H) (require_session_command c)" "maintains (frame_of view H) (step_machine event)"
  unfolding require_session_command_def step_machine_def by (intro frame_steps; simp add: kept_def loop_vars_def)+

lemma recoverable_maintains:
  "(\<And>f. permits (Ask_Write_Control f)) \<Longrightarrow> maintains (frame_of view H) (recoverable_session_outcome ask cfg l phase e)"
  unfolding recoverable_session_outcome_def stop_after_interruption_def bounded_def
  by (intro frame_steps reports_maintain observers_maintain port_maintains)

lemma teardown_maintains: "(\<And>p. permits (Ask_Exit p)) \<Longrightarrow> maintains (frame_of view H) (session_teardown ask cfg)"
  unfolding session_teardown_def teardown_was_interrupted_def exit_context_def bounded_def
  by (intro frame_steps machine_maintains reports_maintain observers_maintain port_maintains; simp add: kept_def loop_vars_def)

lemma guard_failed_maintains: "maintains (frame_of view H) (guard_failed ask cfg phase e)"
  unfolding guard_failed_def by (intro frame_steps observers_maintain)

lemma guard_leave_maintains:
  "maintains (frame_of view H) (bindp (call ask (Ask_Guard_Exit p)) (\<lambda>a. case a of
     Ans_Raised e \<Rightarrow> guard_failed ask cfg Phase_Teardown e | Ans_Suppress \<Rightarrow> ret () | _ \<Rightarrow> lift_result body))"
proof (rule maintains_bindp [OF call_maintains])
  show "maintains (frame_of view H) (case a of Ans_Raised e \<Rightarrow> guard_failed ask cfg Phase_Teardown e | Ans_Suppress \<Rightarrow> ret ()
      | _ \<Rightarrow> lift_result body)" for a
    by (cases a) (auto intro: guard_failed_maintains frame_steps)
qed (simp add: noise_permitted)

lemma ended_maintains: "maintains (frame_of view H) (session_ended e)"
  unfolding session_ended_def by (intro frame_steps machine_maintains; simp add: kept_def loop_vars_def)

end

section \<open>Whole sessions\<close>

locale loop_frame = call_frame +
  assumes loop_only: "loop_vars s = loop_vars t \<Longrightarrow> view s = view t"
begin

lemma update_any: "(\<And>s. loop_vars (f s) = loop_vars s) \<Longrightarrow> maintains (frame_of view H) (update_state f)"
  by (rule maintains_update_state) (simp add: frame_of_def loop_only [of "f s" s for s])

lemmas loop_steps = maintains_intros update_any

end

locale session_history = loop_frame +
  assumes session_permitted: "session_call c \<Longrightarrow> (\<forall>d. c \<noteq> Ask_Sleep d) \<Longrightarrow> permits c"
begin

lemma permitted:
  "permits Ask_Info" "permits (Ask_Continue r)" "permits (Ask_Telemetry b)" "permits Ask_Battery" "permits (Ask_Step i)"
  "permits (Ask_Write_Control f)" "permits (Ask_Exit p)" "permits Ask_Enter" "permits Ask_Checkpoint"
  "permits Ask_Guard_Enter" "permits (Ask_Guard_Exit p)"
  by (simp_all add: session_permitted)

lemmas session_steps = loop_steps reports_maintain observers_maintain metrics_maintain unless_fatal_maintains info_maintains
  serve_maintains port_maintains call_maintains battery_maintains telemetry_maintains recoverable_maintains teardown_maintains
  machine_maintains guard_failed_maintains ended_maintains permitted

lemma confirm_maintains: "maintains (frame_of view H) (confirm_drain ask cfg current)"
  unfolding confirm_drain_def by (intro session_steps; simp add: loop_vars_def)

lemma read_maintains: "maintains (frame_of view H) (read_to_terminal ask cfg n m current)"
proof (induction n arbitrary: m current)
  case (Suc n)
  show ?case unfolding read_to_terminal.simps by (intro session_steps confirm_maintains Suc.IH; simp add: loop_vars_def)
qed (simp add: maintains_raise)

lemma finally_maintains:
  "maintains (frame_of view H) m \<Longrightarrow> maintains (frame_of view H) n \<Longrightarrow> maintains (frame_of view H) (finally_live m n)"
  unfolding finally_live_def by (intro frame_steps)

lemma resolve_maintains: "maintains (frame_of view H) (session_failed ask cfg e)"
  unfolding session_failed_def resolve_session_error_def by (intro session_steps; simp add: loop_vars_def)

lemma effects_maintain: "maintains (frame_of view H) (run_session_effects ask cfg n)"
  unfolding run_session_effects_def session_body_def bounded_def
  by (intro finally_maintains resolve_maintains session_steps read_maintains; simp add: loop_vars_def)

lemma guarded_maintain: "maintains (frame_of view H) (run_guarded_session_effects ask cfg n)"
  unfolding run_guarded_session_effects_def
  by (intro guard_leave_maintains maintains_intros port_maintains guard_failed_maintains effects_maintain permitted)

lemma run_session_maintains: "maintains (frame_of view H) (run_session ask cfg n rssi)"
  unfolding run_session_def begin_session_def session_checkpoint_def
  by (intro finally_maintains session_steps guarded_maintain effects_maintain; simp add: loop_vars_def)

end

end
