(* ===== verification/Visit_Priority.thy ===== *)
theory Visit_Priority
  imports Call_Frame
begin

text \<open>
  The capture priority of the visit loop: work on the device and on the closure of a visit happens inside it, waiting
  happens outside, and it is given back however the loop ends.  The statements hold for any ports, also disorderly ones.
\<close>

section \<open>The capture priority\<close>

fun priority_step :: "bool \<Rightarrow> life_call \<times> life_answer \<Rightarrow> bool" where
  "priority_step b (Ask_Enter_Priority, a) = True"
| "priority_step b (Ask_Exit_Priority, a) = False"
| "priority_step b _ = b"

definition priority_held :: "life_history \<Rightarrow> bool" where
  "priority_held h = foldl priority_step False h"

lemma priority_held_Nil [simp]: "\<not> priority_held []"
  by (simp add: priority_held_def)

lemma priority_held_snoc [simp]: "priority_held (h @ [x]) = priority_step (priority_held h) x"
  by (simp add: priority_held_def)

text \<open>Work on the device and on a closure.\<close>

fun inside_priority :: "life_call \<Rightarrow> bool" where
  "inside_priority (Ask_Provider _) = True"
| "inside_priority Ask_Enter = True"
| "inside_priority Ask_Checkpoint = True"
| "inside_priority (Ask_Close_Visit _ _) = True"
| "inside_priority (Ask_Close_Verified_Drain _ _) = True"
| "inside_priority c = (link_work c \<or> is_exit c)"

text \<open>Waiting, and the end of a visit.\<close>

fun outside_priority :: "life_call \<Rightarrow> bool" where
  "outside_priority Ask_Enter_Priority = True"
| "outside_priority Ask_Before_Direct_Attempt = True"
| "outside_priority Ask_Wait_Presence = True"
| "outside_priority (Ask_Attempt_Finished _) = True"
| "outside_priority Ask_Resume_Visit = True"
| "outside_priority Ask_Cooldown_Remaining = True"
| "outside_priority Ask_Drained_Result = True"
| "outside_priority Ask_Presence_Close = True"
| "outside_priority _ = False"

text \<open>
  Sleeping is waiting too.  While the priority is held only the recovery of a refused INFO may sleep: an INFO was
  requested under this priority, and the exit of the link was not.
\<close>

definition priority_allowed :: "life_history \<Rightarrow> life_call \<Rightarrow> bool" where
  "priority_allowed h c \<longleftrightarrow> (inside_priority c \<longrightarrow> priority_held h) \<and> (outside_priority c \<longrightarrow> \<not> priority_held h)
     \<and> ((\<exists>d. c = Ask_Sleep d) \<longrightarrow> priority_held h \<longrightarrow> info_asked h)"

definition priority_at :: "bool \<Rightarrow> loop_vars \<Rightarrow> life_history \<Rightarrow> loop_vars \<Rightarrow> bool" where
  "priority_at b x h y \<longleftrightarrow> guarded priority_allowed h \<and> priority_held h = b \<and> y = x"

definition priority_permits :: "bool \<Rightarrow> life_call \<Rightarrow> bool" where
  "priority_permits b c \<longleftrightarrow> c \<noteq> Ask_Enter_Priority \<and> c \<noteq> Ask_Exit_Priority \<and> (inside_priority c \<longrightarrow> b) \<and> (outside_priority c \<longrightarrow> \<not> b)
     \<and> ((\<exists>d. c = Ask_Sleep d) \<longrightarrow> \<not> b)"

lemma priority_step_other: "c \<noteq> Ask_Enter_Priority \<Longrightarrow> c \<noteq> Ask_Exit_Priority \<Longrightarrow> priority_step b (c, a) = b"
  by (cases "(b, (c, a))" rule: priority_step.cases) auto

lemma noise_priority: "noise c \<Longrightarrow> (\<forall>d. c \<noteq> Ask_Sleep d) \<Longrightarrow> priority_permits b c"
  by (cases c) (auto simp: priority_permits_def)

lemma session_priority: "session_call c \<Longrightarrow> (\<forall>d. c \<noteq> Ask_Sleep d) \<Longrightarrow> priority_permits True c"
  by (cases c) (auto simp: priority_permits_def)

lemma priority_admits: "priority_permits b c \<Longrightarrow> priority_at b x h y \<Longrightarrow> priority_at b x (h @ [(c, a)]) y"
  by (auto simp: priority_at_def priority_allowed_def priority_permits_def priority_step_other)

lemma priority_sleeps: "info_asked h \<Longrightarrow> priority_at b x h y \<Longrightarrow> priority_at b x (h @ [(Ask_Sleep d, a)]) y"
  by (auto simp: priority_at_def priority_allowed_def)

interpretation pc: loop_frame "priority_permits b" loop_vars "priority_at b x" for b x
  by unfold_locales (auto intro: priority_admits noise_priority priority_sleeps simp: kept_def)

interpretation ps: session_history "priority_permits True" loop_vars "priority_at True x" for x
  by unfold_locales (rule session_priority)

lemma attempt_inside: "maintains (frame_of loop_vars (priority_at True x)) (attempt_visit ask cfg n p)"
  unfolding attempt_visit_def completed_batches_def visit_durable_progress_def run_one_attempt_def take_wake_def wake_is_stale_def open_context_def
  by (intro pc.loop_steps pc.reports_maintain pc.observers_maintain ps.run_session_maintains pc.port_maintains;
      simp add: loop_vars_def priority_permits_def)

lemma wait_outside: "maintains (frame_of loop_vars (priority_at False x)) (wait_for_visit_attempt ask cfg p arm previous)"
proof -
  have submit: "maintains (frame_of loop_vars (priority_at False x)) (submit_presence_outcome ask previous)"
    unfolding submit_presence_outcome_def
    by (cases previous; cases "the previous") (auto intro!: pc.loop_steps pc.port_maintains simp: priority_permits_def)
  show ?thesis
    unfolding wait_for_visit_attempt_def wait_direct_def wait_presence_def
    by (intro pc.loop_steps submit pc.reports_maintain pc.sleep_maintains pc.port_maintains; simp add: loop_vars_def priority_permits_def)
qed

lemma commit_inside: "maintains (frame_of loop_vars (priority_at True x)) (commit_closure ask cfg reason cursor)"
proof -
  have verified: "maintains (frame_of loop_vars (priority_at True x)) (case (i, t) of
      (Some i, Some t) \<Rightarrow> port ask (Ask_Close_Verified_Drain i t) ans_unit | _ \<Rightarrow> raise (Raised Assertion_Class [] None))" for i t
    by (cases i; cases t) (auto intro!: pc.loop_steps pc.port_maintains simp: priority_permits_def)
  show ?thesis
    unfolding commit_closure_def
    by (intro pc.loop_steps verified pc.port_maintains; simp add: loop_vars_def priority_permits_def)
qed

lemma finish_outside: "maintains (frame_of loop_vars (priority_at False x)) (finish_visit ask cfg p reason stop)"
  unfolding finish_visit_def
  by (intro pc.loop_steps pc.reports_maintain pc.sleep_maintains pc.port_maintains; simp add: loop_vars_def priority_permits_def)

text \<open>Whether a command runs inside the priority; an inspection may run either way.\<close>

fun runs_at :: "visit_command \<Rightarrow> bool \<Rightarrow> bool" where
  "runs_at InspectRecovery b = True"
| "runs_at (WaitForAttempt _ _) b = (\<not> b)"
| "runs_at RunAttempt b = b"
| "runs_at (CommitClosure _ _) b = b"
| "runs_at _ b = True"

lemma command_at: "runs_at command b \<Longrightarrow> maintains (frame_of loop_vars (priority_at b x)) (run_visit_command ask cfg n p command)"
  unfolding run_visit_command_def
  by (cases command; cases b)
    (auto intro!: pc.loop_steps attempt_inside wait_outside commit_inside pc.port_maintains simp: priority_permits_def)

lemma execute_at:
  "runs_at (snd pending) b \<Longrightarrow> maintains (frame_of loop_vars (priority_at b x)) (execute_visit_command ask cfg n p pending)"
  unfolding execute_visit_command_def by (intro pc.loop_steps command_at)

section \<open>The loop\<close>

definition turn :: "life_world \<Rightarrow> bool" where
  "turn w \<longleftrightarrow> guarded priority_allowed (history w)
     \<and> priority_held (history w) = capture_priority_active (local_state w)
     \<and> (capture_priority_active (local_state w) \<longrightarrow> keeps_priority (Some (snd (visit_now (local_state w)))))"

text \<open>After an exception the loop knows of a priority that is held.\<close>

definition known :: "raised \<Rightarrow> life_world \<Rightarrow> bool" where
  "known _ w \<longleftrightarrow> guarded priority_allowed (history w) \<and> (priority_held (history w) \<longrightarrow> capture_priority_active (local_state w))"

definition given_back :: "unit \<Rightarrow> life_world \<Rightarrow> bool" where
  "given_back _ w \<longleftrightarrow> guarded priority_allowed (history w) \<and> \<not> priority_held (history w)"

lemma enter_priority_order:
  assumes p: "has_capture_priority cfg"
  shows "hoare (\<lambda>w. turn w \<and> visit_now (local_state w) = (st, c)) (enter_capture_priority ask cfg c)
     (\<lambda>_ w. \<exists>b. runs_at c b \<and> frame_of loop_vars (priority_at b ((st, c), b)) w) known"
proof -
  have runs: "keeps_priority (Some c) \<Longrightarrow> runs_at c True" "needs_priority c \<Longrightarrow> runs_at c True" "\<not> needs_priority c \<Longrightarrow> runs_at c False"
    by (cases c; simp)+
  show ?thesis
    using p runs unfolding enter_capture_priority_def should_enter_capture_priority_def
    by (auto simp: hoare_def wp_simps turn_def known_def frame_of_def priority_at_def loop_vars_def priority_allowed_def split: sum.split)
qed

lemma turn_after:
  "has_capture_priority cfg \<Longrightarrow> hoare (frame_of loop_vars (priority_at b (x, b))) (seqp (visit_step_now cfg event) (release_now ask cfg)) (\<lambda>_. turn) known"
  unfolding visit_step_now_def release_now_def release_capture_priority_after_def
  by (auto simp: hoare_def wp_simps turn_def known_def frame_of_def priority_at_def loop_vars_def priority_allowed_def split: sum.split)

lemma command_turn:
  assumes p: "has_capture_priority cfg" and again: "hoare turn again given_back known"
  shows "hoare (\<lambda>w. turn w \<and> visit_now (local_state w) = (st, c))
     (seqp (enter_capture_priority ask cfg c)
       (bindp (execute_visit_command ask cfg n pr (st, c)) (\<lambda>event. seqp (visit_step_now cfg event) (seqp (release_now ask cfg) again))))
     given_back known"
proof (rule hoare_seqp [OF enter_priority_order [OF p]], rule hoare_ex)
  fix b
  have run: "hoare (frame_of loop_vars (priority_at b ((st, c), b))) (execute_visit_command ask cfg n pr (st, c))
      (\<lambda>_. frame_of loop_vars (priority_at b ((st, c), b))) known" if "runs_at c b"
    by (rule hoare_post [OF hoare_maintains [OF execute_at]])
      (use that in \<open>auto simp: known_def frame_of_def priority_at_def loop_vars_def\<close>)
  show "hoare (\<lambda>w. runs_at c b \<and> frame_of loop_vars (priority_at b ((st, c), b)) w)
      (bindp (execute_visit_command ask cfg n pr (st, c)) (\<lambda>event. seqp (visit_step_now cfg event) (seqp (release_now ask cfg) again)))
      given_back known"
    unfolding seqp_assoc [symmetric]
    by (rule hoare_pure [where F = "runs_at c b"], simp)
      (rule hoare_pre [OF hoare_bindp [OF run hoare_seqp [OF turn_after [OF p] again]]], auto)
qed

lemma finish_turn:
  assumes again: "hoare turn again given_back known"
  shows "hoare (\<lambda>w. turn w \<and> visit_now (local_state w) = (st, FinishVisit reason stop))
     (seqp (finish_visit ask cfg pr reason stop)
       (if stop then visit_drained_result ask
        else seqp (update_state (\<lambda>s. s\<lparr>visit_now := (fst (visit_now s), WaitForAttempt False None)\<rparr>)) again)) given_back known"
proof -
  let ?I = "frame_of loop_vars (priority_at False ((st, FinishVisit reason stop), False))"
  have known: "known e w" if "?I w" for e w using that by (simp add: known_def frame_of_def priority_at_def)
  have finish: "hoare ?I (finish_visit ask cfg pr reason stop) (\<lambda>_. ?I) known"
    by (rule hoare_post [OF hoare_maintains [OF finish_outside]]) (auto intro: known)
  have result: "hoare ?I (visit_drained_result ask) given_back known"
    unfolding visit_drained_result_def
    by (rule hoare_post [OF hoare_maintains [OF pc.port_maintains]])
      (auto intro: known simp: priority_permits_def given_back_def frame_of_def priority_at_def)
  have wait: "hoare ?I (seqp (update_state (\<lambda>s. s\<lparr>visit_now := (fst (visit_now s), WaitForAttempt False None)\<rparr>)) again) given_back known"
    by (rule hoare_seqp [OF hoare_update again]) (simp add: turn_def frame_of_def priority_at_def loop_vars_def)
  show ?thesis
    by (rule hoare_pre [OF hoare_seqp [OF finish hoare_if [OF result wait]]])
      (auto simp: turn_def frame_of_def priority_at_def loop_vars_def)
qed

lemma visit_loop_order:
  assumes p: "has_capture_priority cfg"
  shows "hoare turn (visit_loop ask cfg pr n) given_back known"
proof (induction n)
  case 0
  show ?case unfolding visit_loop.simps by (rule hoare_raise) (simp add: known_def turn_def)
next
  case (Suc n)
  have result: "hoare (\<lambda>w. turn w \<and> visit_now (local_state w) = (st, VisitNoOp)) (visit_drained_result ask) given_back known" for st
    unfolding visit_drained_result_def
    by (rule hoare_port) (auto simp: turn_def given_back_def known_def priority_allowed_def split: sum.split)
  have stop: "hoare (\<lambda>w. turn w \<and> visit_now (local_state w) = (st, c)) (raise e) given_back known" for st c e
    by (rule hoare_raise) (simp add: turn_def known_def)
  show ?case
    unfolding visit_loop.simps
  proof (rule hoare_get_state)
    fix s :: session_life
    obtain st c where x: "visit_now s = (st, c)" by (cases "visit_now s")
    have here: "hoare (\<lambda>w. turn w \<and> local_state w = s) m given_back known"
      if "hoare (\<lambda>w. turn w \<and> visit_now (local_state w) = (st, c)) m given_back known" for m
      by (rule hoare_pre [OF that]) (auto simp: x)
    show "hoare (\<lambda>w. turn w \<and> local_state w = s)
       (case snd (visit_now s) of
         FinishVisit reason stop \<Rightarrow> seqp (finish_visit ask cfg (pr \<and> visit_presence cfg \<noteq> None) reason stop)
           (if stop then visit_drained_result ask
            else seqp (update_state (\<lambda>s. s\<lparr>visit_now := (fst (visit_now s), WaitForAttempt False None)\<rparr>)) (visit_loop ask cfg pr n))
       | PreserveAndStop \<Rightarrow> raise (Raised (Cancelled_Class ''CancelledError'') ''visit lifecycle stopped before closure acknowledgement'' None)
       | VisitNoOp \<Rightarrow> visit_drained_result ask
       | command \<Rightarrow> seqp (enter_capture_priority ask cfg command) (bindp (execute_visit_command ask cfg n pr (visit_now s)) (\<lambda>event.
           seqp (visit_step_now cfg event) (seqp (release_now ask cfg) (visit_loop ask cfg pr n))))) given_back known"
      unfolding x snd_conv
      by (cases c; simp only: visit_command.case; rule here; simp only:;
          (rule command_turn [OF p Suc.IH] finish_turn [OF Suc.IH] result stop))
  qed
qed

lemma cleanup_order:
  "has_capture_priority cfg \<Longrightarrow> hoare (known e) (visit_cleanup ask cfg pr) given_back (\<lambda>_. given_back ())"
  unfolding visit_cleanup_def
proof (rule hoare_get_state, rule hoare_seqp [where R = "given_back ()"])
  fix s :: session_life
  assume p: "has_capture_priority cfg"
  then show "hoare (\<lambda>w. known e w \<and> local_state w = s)
      (bindp (release_capture_priority_after ask cfg None (capture_priority_active s)) (\<lambda>_. ret ())) (\<lambda>_. given_back ()) (\<lambda>_. given_back ())"
    unfolding release_capture_priority_after_def
    by (auto simp: hoare_def wp_simps known_def given_back_def priority_allowed_def split: sum.split)
  show "hoare (given_back ()) (whenp (pr \<and> visit_presence cfg \<noteq> None) (port ask Ask_Presence_Close ans_unit)) given_back (\<lambda>_. given_back ())"
    by (auto simp: hoare_def wp_simps given_back_def priority_allowed_def split: sum.split)
qed

definition ended_visit :: "raised \<Rightarrow> life_world \<Rightarrow> bool" where
  "ended_visit e w \<longleftrightarrow> guarded priority_allowed (history w) \<and> (is_live e \<longrightarrow> \<not> priority_held (history w))"

lemma run_visit_order:
  assumes p: "has_capture_priority cfg"
  shows "hoare (given_back ()) (run_visit_machine ask cfg n pr) given_back ended_visit"
  unfolding run_visit_machine_def
proof (rule hoare_seqp)
  show "hoare (given_back ()) (update_state (\<lambda>s. s\<lparr>visit_now := visit_initial_transition, capture_priority_active := False\<rparr>)) (\<lambda>_. turn) ended_visit"
    by (rule hoare_update) (simp add: given_back_def turn_def)
  have shutdown: "hoare (known e) (visit_shutdown e) given_back known" for e
    unfolding visit_shutdown_def by (auto simp: hoare_def wp_simps known_def visit_result_of_def split: sum.split)
  have main: "hoare turn (catchp (visit_loop ask cfg pr n) visit_shutdown) given_back known"
    by (rule hoare_catchp [OF visit_loop_order [OF p] shutdown])
  show "hoare turn (finally_live (catchp (visit_loop ask cfg pr n) visit_shutdown) (visit_cleanup ask cfg pr)) given_back ended_visit"
  proof (rule finally_live_order [OF main])
    show "hoare (given_back x) (visit_cleanup ask cfg pr) (\<lambda>_. given_back x) ended_visit" for x :: unit
      by (rule hoare_weaken [OF cleanup_order [OF p, of out_of_fuel]]) (auto simp: given_back_def known_def ended_visit_def)
    show "hoare (known e) (visit_cleanup ask cfg pr) (\<lambda>_. ended_visit e) ended_visit" for e
      by (rule hoare_post [OF cleanup_order [OF p]]) (auto simp: given_back_def ended_visit_def)
  qed (auto simp: known_def ended_visit_def)
qed


text \<open>C7: The capture priority is given back, however the loop ends: it returns, fails or is cancelled.\<close>

theorem capture_priority_is_given_back:
  assumes "has_capture_priority cfg" and "guarded priority_allowed (history w)" and "\<not> priority_held (history w)"
    and "run_visit_machine ask cfg fuel with_presence w = (r, v)" and "\<And>e. r = Inl e \<Longrightarrow> is_live e"
  shows "\<not> priority_held (history v)"
proof -
  have "given_back () w" using assms by (simp add: given_back_def)
  from hoareD [OF run_visit_order [OF assms(1)] this, of ask fuel with_presence] show ?thesis
    unfolding wp_def assms(4) using assms(5) by (cases r) (auto simp: given_back_def ended_visit_def)
qed

section \<open>Examples\<close>

definition sample_visit :: visit_config where
  "sample_visit =
     \<lparr>session_options = sample_config,
      visit_policy = \<lparr>backoff = [1, 2], batch_records = 10, stop_after_drained = True, drain_cooldown = 60, arena_limit = 100000, advance_enabled = True\<rparr>,
      visit_presence = None, wake_max_gap_seconds = 10, has_durable_progress_query = True, has_close_visit = True,
      has_load_recovery = False, has_invalidate_recovery = True, has_capture_priority = True\<rparr>"

text \<open>A device with an empty ring, and one whose store refuses the closure of the visit.\<close>

fun quiet_device :: life_ports where
  "quiet_device h Ask_Info = Ans_Info empty_info"
| "quiet_device h (Ask_Step i) = Ans_Step (Some OutDrained) i"
| "quiet_device h Ask_Host_Time = Ans_Time 100"
| "quiet_device h Ask_Completed_Batches = Ans_Count 0"
| "quiet_device h Ask_Durable_Progress = Ans_Count 0"
| "quiet_device h _ = Ans_Ok"

fun refusing_store :: life_ports where
  "refusing_store h (Ask_Close_Verified_Drain i t) = Ans_Raised (Raised Transient_Storage_Class ''busy'' None)"
| "refusing_store h c = quiet_device h c"

lemma quiet_visit: "fst (run_visit_machine quiet_device sample_visit 9 False idle_world) = Inr ()"
  by code_simp

lemma refused_visit:
  "fst (run_visit_machine refusing_store sample_visit 9 False idle_world) = Inl (Raised Transient_Storage_Class ''busy'' None)"
  by code_simp

lemma idle_world_priority: "guarded priority_allowed (history idle_world)" "\<not> priority_held (history idle_world)" "has_capture_priority sample_visit"
  by (simp_all add: idle_world_def sample_visit_def)


theorem capture_priority_is_given_back_witness:
  "\<exists>v. run_visit_machine refusing_store sample_visit 9 False idle_world = (Inl (Raised Transient_Storage_Class ''busy'' None), v)
     \<and> \<not> priority_held (history v)"
proof -
  let ?run = "run_visit_machine refusing_store sample_visit 9 False idle_world"
  have run: "?run = (Inl (Raised Transient_Storage_Class ''busy'' None), snd ?run)" using refused_visit by (metis prod.collapse)
  have "\<not> priority_held (history (snd ?run))"
    by (rule capture_priority_is_given_back [OF idle_world_priority(3,1,2) run]) (auto simp: is_live_def)
  with run show ?thesis by blast
qed

end
