(* ===== verification/Visit_Closure.thy ===== *)
theory Visit_Closure
  imports Visit_Priority
begin

text \<open>
  The closure of a drained visit: where the coordinator verifies drains, a visit is closed as drained only on the latest
  INFO of the device, and that INFO shows an empty ring.
\<close>

section \<open>The latest INFO\<close>

fun info_step :: "ring_info option \<Rightarrow> life_call \<times> life_answer \<Rightarrow> ring_info option" where
  "info_step x (Ask_Info, Ans_Info i) = Some i"
| "info_step x _ = x"

definition latest_info :: "life_history \<Rightarrow> ring_info option" where
  "latest_info h = foldl info_step None h"

lemma latest_info_snoc [simp]: "latest_info (h @ [x]) = info_step (latest_info h) x"
  by (simp add: latest_info_def)

lemma info_step_other [simp]: "c \<noteq> Ask_Info \<Longrightarrow> info_step x (c, a) = x"
  by (cases "(x, (c, a))" rule: info_step.cases) auto

definition closure_allowed :: "life_history \<Rightarrow> life_call \<Rightarrow> bool" where
  "closure_allowed h c \<longleftrightarrow> (\<forall>i t. c = Ask_Close_Verified_Drain i t \<longrightarrow> empty_ring i \<and> latest_info h = Some i)"

text \<open>The evidence of a drain: the latest INFO shows an empty ring, and the cursor of the drain is its cursor.\<close>

definition evidence :: "life_history \<Rightarrow> ring_info option \<Rightarrow> int option \<Rightarrow> bool" where
  "evidence h i cursor \<longleftrightarrow> (\<exists>x. i = Some x \<and> empty_ring x \<and> cursor = Some (read_sequence x) \<and> latest_info h = Some x)"

fun closes_verified :: "life_call \<Rightarrow> bool" where
  "closes_verified (Ask_Close_Verified_Drain _ _) = True" | "closes_verified _ = False"

lemma closure_allowed_other [simp]: "\<not> closes_verified c \<Longrightarrow> closure_allowed h c"
  by (auto simp: closure_allowed_def)

section \<open>Frames\<close>

type_synonym drain_view = "session_outcome option \<times> ring_info option \<times> int option"

definition drain_view :: "session_life \<Rightarrow> drain_view" where
  "drain_view s = (execution_outcome s, verified_drain_info s, pending_drain_cursor s)"

text \<open>No drain yet, a drain that the loop has confirmed, and a session whose outcome is backed.\<close>

definition undrained :: "life_history \<Rightarrow> drain_view \<Rightarrow> bool" where
  "undrained h x \<longleftrightarrow> guarded closure_allowed h \<and> fst x \<noteq> Some OutDrained"

definition confirmed :: "life_history \<Rightarrow> drain_view \<Rightarrow> bool" where
  "confirmed h x \<longleftrightarrow> undrained h x \<and> evidence h (fst (snd x)) (snd (snd x))"

definition backed :: "life_history \<Rightarrow> drain_view \<Rightarrow> bool" where
  "backed h x \<longleftrightarrow> guarded closure_allowed h \<and> (fst x = Some OutDrained \<longrightarrow> evidence h (fst (snd x)) (snd (snd x)))"

definition quiet_call :: "life_call \<Rightarrow> bool" where
  "quiet_call c \<longleftrightarrow> \<not> closes_verified c \<and> c \<noteq> Ask_Info"

lemma noise_quiet: "noise c \<Longrightarrow> quiet_call c" "noise c \<Longrightarrow> \<not> closes_verified c"
  by (cases c; simp add: quiet_call_def)+

interpretation ud: call_frame "\<lambda>c. \<not> closes_verified c" drain_view undrained
  by unfold_locales (auto simp: undrained_def drain_view_def kept_def noise_quiet)

interpretation cd: call_frame quiet_call drain_view confirmed
  by unfold_locales (auto simp: confirmed_def undrained_def evidence_def drain_view_def kept_def noise_quiet quiet_call_def)

interpretation bd: call_frame quiet_call drain_view backed
  by unfold_locales (auto simp: backed_def evidence_def drain_view_def kept_def noise_quiet quiet_call_def)

lemma undrained_backed: "frame_of drain_view undrained w \<Longrightarrow> frame_of drain_view backed w"
  by (simp add: frame_of_def undrained_def backed_def)

section \<open>A fresh INFO\<close>

lemma latest_port: "maintains (\<lambda>w. latest_info (history w) = x) (port ask c f)" if "c \<noteq> Ask_Info"
  by (rule maintains_port) (simp add: that)

lemma info_once_latest: "delivers P (info_once ask cfg) (\<lambda>i w. latest_info (history w) = Some i)"
  unfolding info_once_def
proof (rule delivers_bindp)
  show "delivers P (bounded ask cfg Ask_Info ans_info) (\<lambda>i w. latest_info (history w) = Some i)"
    unfolding bounded_def
    by (rule delivers_seqp [where R = "\<lambda>_. True"])
      (auto simp: delivers_def wp_simps race_result_def elim!: ans_info.elims split: sum.split life_answer.splits option.splits)
  fix i
  have "maintains (\<lambda>w. latest_info (history w) = Some i)
      (seqp (observe_public_info ask cfg i) (whenp (has_observe_info cfg)
        (unless_fatal (port ask (Ask_Observe_Info i) ans_unit) (debug_exception ask ''firmware_observation_writer_error''))))"
    unfolding observe_public_info_def host_time_def unless_fatal_def debug_exception_def
    by (intro maintains_intros latest_port maintains_update_state) auto
  note steady = delivers_maintains [OF this]
  show "delivers (\<lambda>w. latest_info (history w) = Some i) (seqp (observe_public_info ask cfg i)
      (seqp (whenp (has_observe_info cfg) (unless_fatal (port ask (Ask_Observe_Info i) ans_unit)
        (debug_exception ask ''firmware_observation_writer_error''))) (ret i))) (\<lambda>i w. latest_info (history w) = Some i)"
    unfolding seqp_assoc [symmetric] by (rule delivers_seqp [OF steady]) (simp add: delivers_def wp_simps)
qed

lemma info_latest: "delivers P (info ask cfg) (\<lambda>i w. latest_info (history w) = Some i)"
proof -
  have "delivers P (info_loop ask cfg n) (\<lambda>i w. latest_info (history w) = Some i)" for P n
  proof (induction n arbitrary: P)
    case (Suc n)
    have again: "delivers (\<lambda>_. True) (info_not_ready ask cfg e (info_loop ask cfg n)) (\<lambda>i w. latest_info (history w) = Some i)" for e
      unfolding info_not_ready_def
      by (intro delivers_seqp [where R = "\<lambda>_. True"] delivers_bindp [where R = "\<lambda>_ _. True"] delivers_if delivers_raise Suc.IH)
        (auto simp: delivers_def)
    show ?case
      unfolding info_loop.simps delivers_def wp_catchp
    proof (intro allI impI)
      fix w assume "P w"
      then have "wp (info_once ask cfg) (\<lambda>i w. latest_info (history w) = Some i) (\<lambda>_ _. True) w"
        using info_once_latest by (auto simp: delivers_def)
      then show "wp (info_once ask cfg) (\<lambda>i w. latest_info (history w) = Some i)
          (\<lambda>e. wp (if class_of e \<noteq> Ring_Acknowledgement_Class STATUS_STORAGE_NOT_READY then raise e
             else info_not_ready ask cfg e (info_loop ask cfg n)) (\<lambda>i w. latest_info (history w) = Some i) (\<lambda>_ _. True)) w"
        by (rule wp_mono) (use again in \<open>auto simp: delivers_def wp_simps\<close>)
    qed
  qed (simp add: delivers_raise)
  then show ?thesis unfolding info_def by (rule delivers_bindp [OF delivers_get_state])
qed

section \<open>A drained session\<close>

abbreviation "UD \<equiv> frame_of drain_view undrained"
abbreviation "CD \<equiv> frame_of drain_view confirmed"
abbreviation "BD \<equiv> frame_of drain_view backed"

lemma hoare_delivers: "delivers P m Q \<Longrightarrow> hoare P m Q (\<lambda>_ _. True)"
  by (simp add: delivers_def hoare_def)

lemma fresh_info: "hoare UD (info ask cfg) (\<lambda>i w. latest_info (history w) = Some i \<and> UD w) (\<lambda>_. UD)"
  by (rule hoare_post [OF hoare_conj [OF hoare_delivers [OF info_latest] hoare_maintains [OF ud.info_maintains]]]) auto

definition drain_confirmed :: "ring_info + ring_info \<Rightarrow> life_world \<Rightarrow> bool" where
  "drain_confirmed r w \<longleftrightarrow> (if isl r then UD w else CD w)"

definition read_backed :: "session_outcome \<times> session_state \<Rightarrow> life_world \<Rightarrow> bool" where
  "read_backed r w \<longleftrightarrow> (if fst r = OutDrained then CD w else UD w)"

lemma drain_confirmed_simps: "drain_confirmed (Inl i) = UD" "drain_confirmed (Inr i) = CD"
  by (auto simp: drain_confirmed_def fun_eq_iff)

lemma confirm_order:
  assumes v: "has_close_verified_drain cfg"
  shows "hoare UD (confirm_drain ask cfg current) drain_confirmed (\<lambda>_. UD)"
proof -
  have settle: "hoare (\<lambda>w. latest_info (history w) = Some i \<and> UD w)
      (if \<not> empty_ring i then ret (Inl i)
       else seqp (update_state (\<lambda>s. s\<lparr>pending_drain_cursor := Some (read_sequence i), verified_drain_info := Some i,
         verified_drain_observed_at := last_info_observed_at s\<rparr>)) (ret (Inr i))) drain_confirmed (\<lambda>_. UD)" for i
    by (auto simp: hoare_def wp_simps drain_confirmed_def frame_of_def drain_view_def confirmed_def undrained_def evidence_def)
  show ?thesis
    using v unfolding confirm_drain_def
    by (auto intro!: hoare_raise hoare_bindp [OF fresh_info settle] split: option.split)
qed

lemma read_evidence:
  assumes v: "has_close_verified_drain cfg"
  shows "hoare UD (read_to_terminal ask cfg n m current) read_backed (\<lambda>_. UD)"
proof (induction n arbitrary: m current)
  case 0
  show ?case unfolding read_to_terminal.simps by (rule hoare_raise)
next
  case (Suc n)
  have ud: "hoare UD p (\<lambda>_. UD) (\<lambda>_. UD)" if "maintains UD p" for p :: "'x life"
    by (rule hoare_maintains [OF that])
  have step: "maintains UD (serve ask cfg Step_Work n (Ask_Step current) ans_step)"
    by (rule ud.serve_maintains) auto
  have phase: "maintains UD (update_state (\<lambda>s. s\<lparr>phase_value := p\<rparr>))" for p
    by (rule ud.update_maintains) (simp add: kept_def loop_vars_def)
  have collected: "hoare UD (seqp (whenp b (refresh_battery ask cfg n)) (bindp (lift_result r) (\<lambda>t. ret (OutCollected, t))))
      read_backed (\<lambda>_. UD)" for b and r :: "(raised, session_state) result"
  proof (rule hoare_post [OF hoare_seqp [OF ud]])
    show "maintains UD (whenp b (refresh_battery ask cfg n))" by (intro maintains_whenp ud.battery_maintains) auto
    show "hoare UD (bindp (lift_result r) (\<lambda>t. ret (OutCollected, t))) (\<lambda>r w. fst r = OutCollected \<and> UD w) (\<lambda>_. UD)"
      by (cases r) (auto simp: hoare_def wp_simps)
  qed (auto simp: read_backed_def)
  have drained: "hoare CD (seqp (refresh_battery ask cfg n) (bindp (lift_result r) (\<lambda>t. ret (OutDrained, t))))
      read_backed (\<lambda>_. UD)" for r :: "(raised, session_state) result"
  proof (rule hoare_post [OF hoare_seqp [OF hoare_maintains]])
    show "maintains CD (refresh_battery ask cfg n)" by (rule cd.battery_maintains) (auto simp: quiet_call_def)
    show "hoare CD (bindp (lift_result r) (\<lambda>t. ret (OutDrained, t))) (\<lambda>r w. fst r = OutDrained \<and> CD w) (\<lambda>_. CD)"
      by (cases r) (auto simp: hoare_def wp_simps)
  qed (auto simp: read_backed_def frame_of_def confirmed_def)
  have resolve: "hoare (drain_confirmed x) (case x of
        Inl fresh \<Rightarrow> read_to_terminal ask cfg n m (Some fresh)
      | Inr final \<Rightarrow> seqp (refresh_battery ask cfg n) (bindp (lift_result (machine_result (session_transition m (ReadResolved ReadDrained)))) (\<lambda>t. ret (OutDrained, t))))
      read_backed (\<lambda>_. UD)" for x :: "ring_info + ring_info"
    by (cases x) (auto intro!: Suc.IH drained simp: drain_confirmed_simps)
  have pending: "hoare UD (bindp (lift_result r) (\<lambda>t. read_to_terminal ask cfg n t now)) read_backed (\<lambda>_. UD)"
    for r :: "(raised, session_state) result" and now
    by (rule hoare_bindp [OF ud [OF maintains_lift]]) (rule Suc.IH)
  show ?case
    unfolding read_to_terminal.simps
    by (intro hoare_seqp [OF ud [OF phase]] hoare_seqp [OF ud [OF maintains_lift]] hoare_bindp [OF ud [OF step]] hoare_pair hoare_if
        hoare_bindp [OF confirm_order [OF v] resolve] collected pending)
qed

text \<open>What a session that returned \<open>x\<close> leaves behind.\<close>

definition proved :: "session_outcome \<Rightarrow> life_history \<Rightarrow> drain_view \<Rightarrow> bool" where
  "proved x h y \<longleftrightarrow> guarded closure_allowed h \<and> (x = OutDrained \<longrightarrow> evidence h (fst (snd y)) (snd (snd y)))"

interpretation pd: call_frame quiet_call drain_view "proved x" for x
  by unfold_locales (auto simp: proved_def evidence_def drain_view_def kept_def noise_quiet quiet_call_def)

abbreviation "PD x \<equiv> frame_of drain_view (proved x)"
abbreviation "GD \<equiv> PD OutRetry"

lemma frame_GD: "UD w \<Longrightarrow> GD w" "BD w \<Longrightarrow> GD w" "PD x w \<Longrightarrow> GD w"
  by (simp_all add: frame_of_def undrained_def backed_def proved_def)

lemma body_evidence:
  assumes v: "has_close_verified_drain cfg"
  shows "hoare UD (session_body ask cfg n) (\<lambda>_. BD) (\<lambda>_. UD)"
proof -
  have ud: "hoare UD p (\<lambda>_. UD) (\<lambda>_. UD)" if "maintains UD p" for p :: "'x life"
    by (rule hoare_maintains [OF that])
  have up: "hoare UD (update_state f) (\<lambda>_. UD) (\<lambda>_. UD)" if "\<And>s. kept (f s) = kept s" for f
    by (rule hoare_maintains [OF ud.update_maintains]) (rule that)
  have enter: "maintains UD (bounded ask cfg Ask_Enter ans_unit)"
    unfolding bounded_def by (intro maintains_intros ud.port_maintains) simp
  have telemetry: "maintains UD (collect_telemetry ask cfg n)" by (rule ud.telemetry_maintains) auto
  have infos: "maintains UD (info ask cfg)" by (rule ud.info_maintains) simp
  have finish: "hoare (read_backed r) (case r of (outcome, machine) \<Rightarrow>
      update_state (\<lambda>s. s\<lparr>execution_outcome := Some outcome, execution_machine := machine\<rparr>)) (\<lambda>_. BD) (\<lambda>_. UD)" for r
    by (cases r) (auto simp: hoare_def wp_simps read_backed_def frame_of_def drain_view_def backed_def confirmed_def undrained_def)
  have get: "hoare UD (bindp get_state f) (\<lambda>_. BD) (\<lambda>_. UD)" if "\<And>s. hoare UD (f s) (\<lambda>_. BD) (\<lambda>_. UD)" for f :: "session_life \<Rightarrow> unit life"
    by (rule hoare_get_state) (rule hoare_pre [OF that], simp)
  show ?thesis
    unfolding session_body_def
    by (intro hoare_seqp [OF ud [OF ud.machine_maintains(1)]] hoare_seqp [OF ud [OF ud.machine_maintains(2)]] hoare_seqp [OF ud [OF enter]]
        hoare_seqp [OF up] hoare_bindp [OF ud [OF infos]] hoare_bindp [OF ud [OF telemetry]] get hoare_bindp [OF read_evidence [OF v] finish])
      (simp_all add: kept_def loop_vars_def)
qed

lemma failed_evidence: "maintains UD (session_failed ask cfg e)"
proof -
  have "hoare UD (recoverable_session_outcome ask cfg l phase e) (\<lambda>x w. x \<in> retry_outcomes \<and> UD w) (\<lambda>_. UD)" for l phase
    by (rule hoare_post [OF hoare_conj [OF recoverable_result hoare_maintains [OF ud.recoverable_maintains]]]) auto
  then have "hoare UD (bindp (recoverable_session_outcome ask cfg l phase e) (\<lambda>x. update_state (\<lambda>s. s\<lparr>execution_outcome := Some x\<rparr>)))
      (\<lambda>_. UD) (\<lambda>_. UD)" for l phase
    by (rule hoare_bindp) (auto intro!: hoare_update simp: frame_of_def drain_view_def undrained_def retry_outcomes_def)
  then have recover: "maintains UD (bindp (recoverable_session_outcome ask cfg l phase e) (\<lambda>x. update_state (\<lambda>s. s\<lparr>execution_outcome := Some x\<rparr>)))" for l phase
    by (simp add: maintains_def hoare_def)
  show ?thesis
    unfolding session_failed_def resolve_session_error_def
    by (intro recover maintains_seqp maintains_catchp maintains_if maintains_raise maintains_whenp maintains_bindp [OF maintains_get_state]
        ud.machine_maintains ud.observers_maintain ud.update_maintains; simp add: kept_def loop_vars_def)
qed

lemma effects_evidence:
  assumes v: "has_close_verified_drain cfg"
  shows "hoare UD (run_session_effects ask cfg n) (\<lambda>_. BD) (\<lambda>_. BD)"
  unfolding run_session_effects_def
proof (rule finally_live_order [where R = "\<lambda>_. BD" and F = "\<lambda>_. UD"])
  have teardown: "maintains BD (session_teardown ask cfg)" by (rule bd.teardown_maintains) (simp add: quiet_call_def)
  show "hoare UD (catchp (session_body ask cfg n) (session_failed ask cfg)) (\<lambda>_. BD) (\<lambda>_. UD)"
    by (rule hoare_catchp [OF body_evidence [OF v]])
      (rule hoare_post [OF hoare_maintains [OF failed_evidence]], auto intro: undrained_backed)
  show "hoare BD (session_teardown ask cfg) (\<lambda>_. BD) (\<lambda>_. BD)"
    "hoare UD (session_teardown ask cfg) (\<lambda>_. BD) (\<lambda>_. BD)"
    by (rule hoare_maintains [OF teardown] hoare_pre [OF hoare_maintains [OF teardown]], auto intro: undrained_backed)+
qed (auto intro: undrained_backed)

lemma guarded_evidence:
  assumes v: "has_close_verified_drain cfg"
  shows "hoare UD (run_guarded_session_effects ask cfg n) (\<lambda>_. BD) (\<lambda>_. BD)"
  unfolding run_guarded_session_effects_def
proof (rule hoare_captured [where R = "\<lambda>_. UD" and F = "\<lambda>_. UD"], simp_all only: sum.case)
  show "hoare UD (port ask Ask_Guard_Enter ans_unit) (\<lambda>_. UD) (\<lambda>_. UD)"
    by (rule hoare_maintains [OF ud.noise_maintains]) simp_all
  show "hoare UD (guard_failed ask cfg Phase_Connect e) (\<lambda>_. BD) (\<lambda>_. BD)" for e
    by (rule hoare_post [OF hoare_maintains [OF ud.guard_failed_maintains]]) (auto intro: undrained_backed)
  show "hoare UD (bindp (capture (run_session_effects ask cfg n)) (\<lambda>body. if body = Inl out_of_fuel then raise out_of_fuel
      else bindp (call ask (Ask_Guard_Exit (case body of Inl e \<Rightarrow> Some e | Inr _ \<Rightarrow> None))) (\<lambda>a. case a of
        Ans_Raised e \<Rightarrow> guard_failed ask cfg Phase_Teardown e | Ans_Suppress \<Rightarrow> ret () | _ \<Rightarrow> lift_result body))) (\<lambda>_. BD) (\<lambda>_. BD)"
    by (rule hoare_captured [OF effects_evidence [OF v]];
        intro hoare_if hoare_raise hoare_maintains [OF bd.guard_leave_maintains]; simp)
qed

lemma checkpoint_evidence: "hoare BD (session_checkpoint ask) PD (\<lambda>_. GD)"
proof -
  have bd: "hoare BD p (\<lambda>_. BD) (\<lambda>_. GD)" if "maintains BD p" for p :: "'x life"
    by (rule hoare_post [OF hoare_maintains [OF that]]) (auto intro: frame_GD)
  have ask: "maintains BD (port ask Ask_Checkpoint ans_unit)" by (rule bd.port_maintains) (simp add: quiet_call_def)
  have answer: "hoare (\<lambda>w. BD w \<and> local_state w = s)
      (case (if execution_teardown_error s then Some OutConnectedInterrupted else execution_outcome s) of
         None \<Rightarrow> raise no_outcome
       | Some outcome \<Rightarrow> seqp (lift_result (machine_result (bind_result (session_transition (execution_machine s) (OutcomeReturned outcome)) (\<lambda>_. Inr ()))))
           (ret outcome)) PD (\<lambda>_. GD)" for s
    by (auto simp: hoare_def wp_simps frame_of_def drain_view_def backed_def proved_def split: option.split sum.split)
  show ?thesis
    unfolding session_checkpoint_def
    by (intro hoare_seqp [OF bd [OF bd.machine_maintains(1)]] hoare_seqp [OF bd [OF ask]] hoare_seqp [OF bd [OF bd.machine_maintains(2)]]
        hoare_get_state answer)
qed

lemma run_session_evidence:
  assumes v: "has_close_verified_drain cfg"
  shows "hoare GD (run_session ask cfg n rssi) PD (\<lambda>_. GD)"
proof -
  have start: "hoare GD (begin_session rssi) (\<lambda>_. UD) (\<lambda>_. GD)"
    unfolding begin_session_def by (rule hoare_update) (simp add: frame_of_def drain_view_def proved_def undrained_def)
  have metric: "hoare UD (record_advertisement_quality ask cfg rssi) (\<lambda>_. UD) (\<lambda>_. GD)"
    by (rule hoare_post [OF hoare_maintains [OF ud.metrics_maintain(1)]]) (auto intro: frame_GD)
  have effects: "hoare UD (if has_session_guard cfg then run_guarded_session_effects ask cfg n else run_session_effects ask cfg n) (\<lambda>_. BD) (\<lambda>_. GD)"
    by (rule hoare_post [OF hoare_if [OF guarded_evidence effects_evidence]]) (use v in \<open>auto intro: frame_GD\<close>)
  have ended: "hoare GD (session_ended e) PD (\<lambda>_. GD)" for e
  proof -
    have "hoare GD (session_ended e) (\<lambda>_ _. False) (\<lambda>_ _. True)"
      unfolding session_ended_def by (intro hoare_if hoare_seqp [OF hoare_any] hoare_bindp [OF hoare_any] hoare_raise) auto
    from hoare_conj [OF this hoare_maintains [OF pd.ended_maintains]] show ?thesis by (rule hoare_post) auto
  qed
  show ?thesis
    unfolding run_session_def
  proof (intro hoare_seqp [OF start] hoare_seqp [OF metric] finally_live_order)
    show "hoare UD (catchp (seqp (if has_session_guard cfg then run_guarded_session_effects ask cfg n else run_session_effects ask cfg n)
        (session_checkpoint ask)) session_ended) PD (\<lambda>_. GD)"
      by (rule hoare_catchp [OF hoare_seqp [OF effects checkpoint_evidence] ended])
    show "hoare (PD x) (account_session ask cfg) (\<lambda>_. PD x) (\<lambda>_. GD)" for x
      by (rule hoare_post [OF hoare_maintains [OF pd.metrics_maintain(2)]]) (auto intro: frame_GD)
    show "hoare GD (account_session ask cfg) (\<lambda>_. GD) (\<lambda>_. GD)"
      by (rule hoare_maintains [OF pd.metrics_maintain(2)])
  qed
qed

section \<open>An attempt\<close>

definition sound :: "life_history \<Rightarrow> unit \<Rightarrow> bool" where
  "sound h u \<longleftrightarrow> guarded closure_allowed h"

interpretation so: session_history "\<lambda>c. \<not> closes_verified c" "\<lambda>_. ()" sound
proof unfold_locales
  show "session_call c \<Longrightarrow> \<not> closes_verified c" for c by (cases c) auto
qed (auto simp: sound_def noise_quiet)

abbreviation "SO \<equiv> frame_of (\<lambda>_. ()) sound"

lemma frame_SO: "PD x w \<Longrightarrow> SO w" "GD w = SO w"
  by (simp_all add: frame_of_def sound_def proved_def)

text \<open>The evidence for a drain that an attempt reports.\<close>

definition reported :: "visit_outcome \<Rightarrow> life_history \<Rightarrow> drain_view \<Rightarrow> bool" where
  "reported e h y \<longleftrightarrow> guarded closure_allowed h \<and> (\<forall>c. e = DrainConfirmed c \<longrightarrow> evidence h (fst (snd y)) (Some c))"

interpretation rd: call_frame quiet_call drain_view "reported e" for e
  by unfold_locales (auto simp: reported_def evidence_def drain_view_def kept_def noise_quiet quiet_call_def)

abbreviation "RD e \<equiv> frame_of drain_view (reported e)"

lemma hoare_SO: "maintains SO m \<Longrightarrow> hoare SO m (\<lambda>_. SO) (\<lambda>_. SO)"
  by (rule hoare_maintains)

lemma run_one_attempt_evidence:
  assumes v: "has_close_verified_drain (session_options cfg)"
  shows "hoare SO (run_one_attempt ask cfg n p) PD (\<lambda>_. SO)"
proof -
  have wake: "maintains SO (if p then take_wake else ret None)"
    unfolding take_wake_def by (intro so.loop_steps) (simp add: loop_vars_def)
  have stale: "maintains SO (wake_is_stale ask cfg p k)" for k
    unfolding wake_is_stale_def by (intro so.loop_steps so.noise_maintains; simp)
  have opens: "hoare SO (open_context ask (session_options cfg) k)
      (\<lambda>r w. (r = None \<or> r = Some OutRetry \<or> r = Some OutCandidateUnavailable) \<and> SO w) (\<lambda>_. SO)" for k
  proof -
    have "hoare SO (open_context ask (session_options cfg) k) (\<lambda>r w. r = None \<or> r = Some OutRetry \<or> r = Some OutCandidateUnavailable) (\<lambda>_ _. True)"
      unfolding open_context_def
      by (rule hoare_catchp [where F = "\<lambda>_ _. True"]) (intro hoare_if hoare_seqp [OF hoare_any] hoare_ret hoare_raise; simp)+
    moreover have "maintains SO (open_context ask (session_options cfg) k)"
      unfolding open_context_def by (intro so.loop_steps so.port_maintains so.reports_maintain so.observers_maintain) simp
    ultimately show ?thesis by (rule hoare_post [OF hoare_conj [OF _ hoare_maintains]]) auto
  qed
  have session: "hoare SO (run_session ask (session_options cfg) n r) PD (\<lambda>_. SO)" for r
    using run_session_evidence [OF v, of ask n r] unfolding frame_SO(2) .
  have proceed: "hoare (\<lambda>w. (r = None \<or> r = Some OutRetry \<or> r = Some OutCandidateUnavailable) \<and> SO w)
      (case r of Some outcome \<Rightarrow> ret outcome | None \<Rightarrow> run_session ask (session_options cfg) n k) PD (\<lambda>_. SO)" for r k
    by (cases r) (auto intro!: hoare_ret hoare_pre [OF session] simp: frame_of_def proved_def sound_def)
  show ?thesis
    unfolding run_one_attempt_def
    by (intro hoare_seqp [OF hoare_SO [OF so.reports_maintain(2)]] hoare_bindp [OF hoare_SO [OF wake]] hoare_bindp [OF hoare_SO [OF stale]]
        hoare_if hoare_ret hoare_seqp [OF hoare_SO [OF so.reports_maintain(4)]] hoare_bindp [OF opens proceed])
      (simp add: frame_of_def proved_def sound_def)
qed

lemma session_event_drain:
  "attempt_event x d cursor = Inr (DrainConfirmed c) \<Longrightarrow> x = OutDrained \<and> cursor = Some c"
  by (auto simp: attempt_event_def visit_result_of_def new_drain_confirmed_def split: if_splits option.splits sum.splits)

lemma attempt_evidence:
  assumes v: "has_close_verified_drain (session_options cfg)"
  shows "hoare SO (attempt_visit ask cfg n p) RD (\<lambda>_. SO)"
proof -
  have count: "maintains SO (completed_batches ask)" "maintains SO (visit_durable_progress ask cfg)"
    unfolding completed_batches_def visit_durable_progress_def by (intro so.loop_steps so.port_maintains; simp)+
  have reset: "maintains SO (update_state (\<lambda>s. s\<lparr>pending_drain_cursor := None\<rparr>))"
    by (rule so.update_any) (simp add: loop_vars_def)
  have pd: "hoare (PD x) m (\<lambda>_. PD x) (\<lambda>_. SO)" if "maintains (PD x) m" for x and m :: "'x life"
    by (rule hoare_post [OF hoare_maintains [OF that]]) (auto intro: frame_SO)
  have rd: "hoare (RD e) m (\<lambda>_. RD e) (\<lambda>_. SO)" if "maintains (RD e) m" for e and m :: "'x life"
    by (rule hoare_post [OF hoare_maintains [OF that]]) (auto simp: frame_of_def reported_def sound_def)
  have again: "maintains (PD x) (completed_batches ask)"
    "maintains (PD x) (if b then ret True else bindp (visit_durable_progress ask cfg) (\<lambda>p. ret (q < p)))" for x b q
    unfolding completed_batches_def visit_durable_progress_def
    by (intro maintains_intros pd.port_maintains; simp add: quiet_call_def)+
  have event: "hoare (\<lambda>w. PD x w \<and> local_state w = s)
      (lift_result (attempt_event x d (if x = OutDrained then pending_drain_cursor s else None))) RD (\<lambda>_. SO)" for x d s
    by (auto simp: hoare_def wp_simps frame_of_def proved_def reported_def sound_def drain_view_def dest: session_event_drain split: sum.split)
  have wrap: "maintains (RD e) (if is_drain e then update_state (\<lambda>s. s\<lparr>pending_clean_drain := p, direct_retry := 0\<rparr>)
        else bindp (completed_batches ask) (\<lambda>n. whenp (b < n) (update_state (\<lambda>s. s\<lparr>direct_retry := 0\<rparr>))))"
    "maintains (RD e) (whenp c (bindp (completed_batches ask) (\<lambda>n. whenp (b < n) (report_session_activity ask (session_options cfg) a))))" for e b c a
    unfolding completed_batches_def
    by (intro rd.frame_steps rd.port_maintains rd.reports_maintain; simp add: quiet_call_def kept_def loop_vars_def)+
  show ?thesis
    unfolding attempt_visit_def
    by (intro hoare_bindp [OF hoare_SO [OF count(1)]] hoare_bindp [OF hoare_SO [OF count(2)]] hoare_seqp [OF hoare_SO [OF reset]]
        hoare_bindp [OF run_one_attempt_evidence [OF v]] hoare_bindp [OF pd [OF again(1)]] hoare_bindp [OF pd [OF again(2)]]
        hoare_get_state hoare_bindp [OF event] hoare_seqp [OF rd [OF wrap(1)]] hoare_seqp [OF rd [OF wrap(2)]] hoare_ret)
qed
section \<open>The loop\<close>

definition drain_backed :: "life_world \<Rightarrow> bool" where
  "drain_backed w \<longleftrightarrow> guarded closure_allowed (history w)
     \<and> (\<forall>c. snd (visit_now (local_state w)) = CommitClosure CloseDrained c \<longrightarrow> evidence (history w) (verified_drain_info (local_state w)) c)"

definition event_backed :: "visit_event \<Rightarrow> life_world \<Rightarrow> bool" where
  "event_backed e w \<longleftrightarrow> guarded closure_allowed (history w)
     \<and> (\<forall>c. e = SessionFinished (DrainConfirmed c) \<longrightarrow> evidence (history w) (verified_drain_info (local_state w)) (Some c))"

lemma drain_backed_SO: "drain_backed w \<Longrightarrow> SO w" "event_backed e w \<Longrightarrow> SO w"
  by (simp_all add: drain_backed_def event_backed_def frame_of_def sound_def)

lemma event_backed_other: "SO w \<Longrightarrow> (\<And>x. e \<noteq> SessionFinished x) \<Longrightarrow> event_backed e w"
  by (simp add: event_backed_def frame_of_def sound_def)

lemma drain_closure_step:
  "visit_transition stop s e = Inr (t, CommitClosure CloseDrained c) \<Longrightarrow> \<exists>x. e = SessionFinished (DrainConfirmed x) \<and> c = Some x"
  by (erule visit_step_cases) auto

lemma wait_no_session:
  "hoare P (wait_for_visit_attempt ask cfg p arm previous) (\<lambda>e _. \<forall>x. e \<noteq> SessionFinished x) (\<lambda>_ _. True)"
proof -
  have ended: "hoare P' (lift_result (visit_recovery_end reason)) (\<lambda>e _. \<forall>x. e \<noteq> SessionFinished x) (\<lambda>_ _. True)" for P' reason
    by (auto simp: hoare_def wp_simps visit_recovery_end_def)
  show ?thesis
    unfolding wait_for_visit_attempt_def wait_direct_def wait_presence_def
    by (intro hoare_if hoare_seqp [OF hoare_any] hoare_bindp [OF hoare_any] hoare_option hoare_sum ended hoare_ret) simp_all
qed

lemma wait_sound: "maintains SO (wait_for_visit_attempt ask cfg p arm previous)"
proof -
  have submit: "maintains SO (submit_presence_outcome ask previous)"
    unfolding submit_presence_outcome_def
    by (cases previous; cases "the previous") (auto intro!: so.loop_steps so.port_maintains)
  show ?thesis
    unfolding wait_for_visit_attempt_def wait_direct_def wait_presence_def
    by (intro so.loop_steps submit so.reports_maintain so.sleep_maintains so.port_maintains; simp add: loop_vars_def)
qed

lemma commit_sound:
  "hoare (\<lambda>w. SO w \<and> (reason = CloseDrained \<longrightarrow> evidence (history w) (verified_drain_info (local_state w)) cursor))
     (commit_closure ask cfg reason cursor) (\<lambda>_. SO) (\<lambda>_. SO)"
  unfolding commit_closure_def
proof (rule hoare_seqp [OF hoare_if])
  show "hoare SO (whenp b (port ask Ask_Invalidate_Recovery ans_unit)) (\<lambda>_. SO) (\<lambda>_. SO)" for b
    by (intro hoare_SO maintains_whenp so.port_maintains) simp
  show "hoare (\<lambda>w. SO w \<and> (reason = CloseDrained \<longrightarrow> evidence (history w) (verified_drain_info (local_state w)) cursor))
      (whenp (has_close_visit cfg) (port ask (Ask_Close_Visit reason cursor) ans_unit)) (\<lambda>_. SO) (\<lambda>_. SO)"
    by (rule hoare_pre [OF hoare_SO]) (auto intro!: maintains_whenp so.port_maintains)
  assume "reason = CloseDrained \<and> has_close_verified_drain (session_options cfg)"
  then show "hoare (\<lambda>w. SO w \<and> (reason = CloseDrained \<longrightarrow> evidence (history w) (verified_drain_info (local_state w)) cursor))
      (bindp get_state (\<lambda>s. case (verified_drain_info s, verified_drain_observed_at s) of
         (Some i, Some t) \<Rightarrow> port ask (Ask_Close_Verified_Drain i t) ans_unit | _ \<Rightarrow> raise (Raised Assertion_Class [] None))) (\<lambda>_. SO) (\<lambda>_. SO)"
    by (auto simp: hoare_def wp_simps frame_of_def sound_def evidence_def closure_allowed_def split: option.split sum.split)
qed

lemma command_sound:
  assumes v: "has_close_verified_drain (session_options cfg)"
  shows "hoare (\<lambda>w. SO w \<and> (\<forall>c. command = CommitClosure CloseDrained c \<longrightarrow> evidence (history w) (verified_drain_info (local_state w)) c))
     (run_visit_command ask cfg n p command) event_backed (\<lambda>_. SO)"
proof (cases command)
  case InspectRecovery
  have "hoare SO (bindp (if b then port ask Ask_Load_Recovery ans_recovery else ret RecoveryEmpty) (\<lambda>d. ret (RecoveryLoaded d))) event_backed (\<lambda>_. SO)" for b
    by (rule hoare_bindp [OF hoare_SO]) (auto intro!: so.loop_steps so.port_maintains hoare_ret event_backed_other)
  then show ?thesis unfolding run_visit_command_def InspectRecovery by (auto intro: hoare_pre)
next
  case (WaitForAttempt arm previous)
  have "hoare SO (wait_for_visit_attempt ask cfg p arm previous) event_backed (\<lambda>_. SO)"
    by (rule hoare_post [OF hoare_conj [OF wait_no_session hoare_SO [OF wait_sound]]]) (auto intro: event_backed_other)
  then show ?thesis unfolding run_visit_command_def WaitForAttempt by (auto intro: hoare_pre)
next
  case RunAttempt
  have "hoare SO (bindp (attempt_visit ask cfg n p) (\<lambda>x. ret (SessionFinished x))) event_backed (\<lambda>_. SO)"
    by (rule hoare_bindp [OF attempt_evidence [OF v]])
      (auto intro!: hoare_ret simp: event_backed_def frame_of_def reported_def drain_view_def)
  then show ?thesis unfolding run_visit_command_def RunAttempt by (auto intro: hoare_pre)
next
  case (CommitClosure reason cursor)
  have "hoare (\<lambda>w. SO w \<and> (reason = CloseDrained \<longrightarrow> evidence (history w) (verified_drain_info (local_state w)) cursor))
      (seqp (commit_closure ask cfg reason cursor) (ret ClosureCommitted)) event_backed (\<lambda>_. SO)"
    by (rule hoare_seqp [OF commit_sound]) (auto intro!: hoare_ret event_backed_other)
  then show ?thesis unfolding run_visit_command_def CommitClosure by (auto intro: hoare_pre)
qed (auto simp: run_visit_command_def intro!: hoare_raise)

lemma execute_sound:
  assumes "has_close_verified_drain (session_options cfg)"
  shows "hoare (\<lambda>w. SO w \<and> (\<forall>c. snd x = CommitClosure CloseDrained c \<longrightarrow> evidence (history w) (verified_drain_info (local_state w)) c))
     (execute_visit_command ask cfg n p x) event_backed (\<lambda>_. SO)"
proof -
  have failed: "hoare SO (seqp (whenp b (bindp (lift_result r) (\<lambda>_. ret ()))) (raise e)) event_backed (\<lambda>_. SO)"
    for b e and r :: "(raised, visit_state \<times> visit_command) result"
    by (cases r) (auto simp: hoare_def wp_simps)
  show ?thesis unfolding execute_visit_command_def by (rule hoare_catchp [OF command_sound [OF assms] failed])
qed

lemma visit_turn:
  assumes v: "has_close_verified_drain (session_options cfg)" and again: "hoare drain_backed again (\<lambda>_. SO) (\<lambda>_. SO)"
  shows "hoare (\<lambda>w. drain_backed w \<and> visit_now (local_state w) = x)
     (seqp (enter_capture_priority ask cfg (snd x)) (bindp (execute_visit_command ask cfg n p x) (\<lambda>event.
        seqp (visit_step_now cfg event) (seqp (release_now ask cfg) again)))) (\<lambda>_. SO) (\<lambda>_. SO)"
proof (rule hoare_seqp)
  show "hoare (\<lambda>w. drain_backed w \<and> visit_now (local_state w) = x) (enter_capture_priority ask cfg (snd x))
      (\<lambda>_ w. SO w \<and> (\<forall>c. snd x = CommitClosure CloseDrained c \<longrightarrow> evidence (history w) (verified_drain_info (local_state w)) c)) (\<lambda>_. SO)"
    unfolding enter_capture_priority_def
    by (auto simp: hoare_def wp_simps drain_backed_def frame_of_def sound_def evidence_def split: sum.split)
  have step: "hoare (event_backed e) (visit_step_now cfg e) (\<lambda>_. drain_backed) (\<lambda>_. SO)" for e
    unfolding visit_step_now_def
    by (auto simp: hoare_def wp_simps visit_result_of_def drain_backed_def event_backed_def frame_of_def sound_def
        dest!: drain_closure_step split: sum.split)
  have release: "hoare drain_backed (release_now ask cfg) (\<lambda>_. drain_backed) (\<lambda>_. SO)"
    unfolding release_now_def release_capture_priority_after_def
    by (auto simp: hoare_def wp_simps drain_backed_def frame_of_def sound_def evidence_def split: sum.split)
  show "hoare (\<lambda>w. SO w \<and> (\<forall>c. snd x = CommitClosure CloseDrained c \<longrightarrow> evidence (history w) (verified_drain_info (local_state w)) c))
      (bindp (execute_visit_command ask cfg n p x) (\<lambda>event. seqp (visit_step_now cfg event) (seqp (release_now ask cfg) again))) (\<lambda>_. SO) (\<lambda>_. SO)"
    by (intro hoare_bindp [OF execute_sound [OF v]] hoare_seqp [OF step] hoare_seqp [OF release again])
qed

lemma finish_sound: "maintains SO (finish_visit ask cfg p reason stop)"
  unfolding finish_visit_def
  by (intro so.loop_steps so.reports_maintain so.sleep_maintains so.port_maintains; simp add: loop_vars_def)

lemma result_sound: "maintains SO (visit_drained_result ask)"
  unfolding visit_drained_result_def by (rule so.port_maintains) simp

lemma visit_loop_sound:
  assumes v: "has_close_verified_drain (session_options cfg)"
  shows "hoare drain_backed (visit_loop ask cfg p n) (\<lambda>_. SO) (\<lambda>_. SO)"
proof (induction n)
  case 0
  show ?case unfolding visit_loop.simps by (rule hoare_raise) (rule drain_backed_SO)
next
  case (Suc n)
  let ?P = "\<lambda>x w. drain_backed w \<and> visit_now (local_state w) = x"
  have finish: "hoare (?P x) (seqp (finish_visit ask cfg pr reason stop)
       (if stop then visit_drained_result ask
        else seqp (update_state (\<lambda>s. s\<lparr>visit_now := (fst (visit_now s), WaitForAttempt False None)\<rparr>)) (visit_loop ask cfg p n))) (\<lambda>_. SO) (\<lambda>_. SO)"
    for x reason stop pr
  proof (rule hoare_pre [OF hoare_seqp [OF hoare_SO [OF finish_sound] hoare_if]])
    show "hoare SO (visit_drained_result ask) (\<lambda>_. SO) (\<lambda>_. SO)" by (rule hoare_SO [OF result_sound])
    show "hoare SO (seqp (update_state (\<lambda>s. s\<lparr>visit_now := (fst (visit_now s), WaitForAttempt False None)\<rparr>)) (visit_loop ask cfg p n)) (\<lambda>_. SO) (\<lambda>_. SO)"
      by (rule hoare_seqp [OF hoare_update Suc.IH]) (simp add: frame_of_def sound_def drain_backed_def)
  qed (auto intro: drain_backed_SO)
  have result: "hoare (?P x) (visit_drained_result ask) (\<lambda>_. SO) (\<lambda>_. SO)" for x
    by (rule hoare_pre [OF hoare_SO [OF result_sound]]) (auto intro: drain_backed_SO)
  have stop: "hoare (?P x) (raise e) (\<lambda>_. SO) (\<lambda>_. SO)" for x e
    by (rule hoare_raise) (auto intro: drain_backed_SO)
  have command: "hoare (?P (st, c)) (seqp (enter_capture_priority ask cfg c) (bindp (execute_visit_command ask cfg n p (st, c)) (\<lambda>event.
        seqp (visit_step_now cfg event) (seqp (release_now ask cfg) (visit_loop ask cfg p n))))) (\<lambda>_. SO) (\<lambda>_. SO)" for st c
    using visit_turn [OF v Suc.IH, of "(st, c)"] by simp
  show ?case
    unfolding visit_loop.simps
  proof (rule hoare_get_state)
    fix s :: session_life
    obtain st c where x: "visit_now s = (st, c)" by (cases "visit_now s")
    have here: "hoare (\<lambda>w. drain_backed w \<and> local_state w = s) m (\<lambda>_. SO) (\<lambda>_. SO)" if "hoare (?P (st, c)) m (\<lambda>_. SO) (\<lambda>_. SO)" for m
      by (rule hoare_pre [OF that]) (auto simp: x)
    show "hoare (\<lambda>w. drain_backed w \<and> local_state w = s)
       (case snd (visit_now s) of
         FinishVisit reason stop \<Rightarrow> seqp (finish_visit ask cfg (p \<and> visit_presence cfg \<noteq> None) reason stop)
           (if stop then visit_drained_result ask
            else seqp (update_state (\<lambda>s. s\<lparr>visit_now := (fst (visit_now s), WaitForAttempt False None)\<rparr>)) (visit_loop ask cfg p n))
       | PreserveAndStop \<Rightarrow> raise (Raised (Cancelled_Class ''CancelledError'') ''visit lifecycle stopped before closure acknowledgement'' None)
       | VisitNoOp \<Rightarrow> visit_drained_result ask
       | command \<Rightarrow> seqp (enter_capture_priority ask cfg command) (bindp (execute_visit_command ask cfg n p (visit_now s)) (\<lambda>event.
           seqp (visit_step_now cfg event) (seqp (release_now ask cfg) (visit_loop ask cfg p n))))) (\<lambda>_. SO) (\<lambda>_. SO)"
      unfolding x snd_conv
      by (cases c; simp only: visit_command.case; rule here; simp only:; (rule command finish result stop))
  qed
qed

lemma run_visit_sound:
  assumes v: "has_close_verified_drain (session_options cfg)"
  shows "hoare SO (run_visit_machine ask cfg n p) (\<lambda>_. SO) (\<lambda>_. SO)"
  unfolding run_visit_machine_def
proof (rule hoare_seqp)
  show "hoare SO (update_state (\<lambda>s. s\<lparr>visit_now := visit_initial_transition, capture_priority_active := False\<rparr>)) (\<lambda>_. drain_backed) (\<lambda>_. SO)"
    by (rule hoare_update) (simp add: frame_of_def sound_def drain_backed_def visit_initial_transition_def)
  have shutdown: "maintains SO (visit_shutdown e)" for e
    unfolding visit_shutdown_def by (intro so.loop_steps)
  have cleanup: "hoare SO (visit_cleanup ask cfg p) (\<lambda>_. SO) (\<lambda>_. SO)"
    unfolding visit_cleanup_def release_capture_priority_after_def by (intro hoare_SO so.loop_steps so.port_maintains) simp_all
  show "hoare drain_backed (finally_live (catchp (visit_loop ask cfg p n) visit_shutdown) (visit_cleanup ask cfg p)) (\<lambda>_. SO) (\<lambda>_. SO)"
    by (rule finally_live_order [OF hoare_catchp [OF visit_loop_sound [OF v] hoare_SO [OF shutdown]]]) (auto intro: cleanup)
qed

text \<open>
  C4: Where drains are verified, a visit is closed as drained only on evidence: the closure is requested with the latest INFO
  that the device answered, and that INFO shows an empty ring.  This holds over any number of attempts and visits and
  for any behaviour of the ports.
\<close>

theorem drained_closure_is_fresh:
  assumes "has_close_verified_drain (session_options cfg)" and "guarded closure_allowed (history w)"
    and "run_visit_machine ask cfg fuel with_presence w = (r, v)"
  shows "guarded closure_allowed (history v)"
proof -
  have "SO w" using assms by (simp add: frame_of_def sound_def)
  from hoareD [OF run_visit_sound [OF assms(1)] this, of ask fuel with_presence] show ?thesis
    unfolding wp_def assms(3) by (cases r) (auto simp: frame_of_def sound_def)
qed

lemma quiet_closure:
  "\<exists>t. (Ask_Close_Verified_Drain empty_info t, Ans_Ok) \<in> set (history (snd (run_visit_machine quiet_device sample_visit 9 False idle_world)))"
proof -
  have "(Ask_Close_Verified_Drain empty_info 100, Ans_Ok) \<in> set (history (snd (run_visit_machine quiet_device sample_visit 9 False idle_world)))"
    by code_simp
  then show ?thesis by blast
qed

theorem drained_closure_is_fresh_witness:
  "\<exists>v. run_visit_machine quiet_device sample_visit 9 False idle_world = (Inr (), v) \<and> guarded closure_allowed (history v)
     \<and> (\<exists>t. (Ask_Close_Verified_Drain empty_info t, Ans_Ok) \<in> set (history v))"
proof -
  let ?run = "run_visit_machine quiet_device sample_visit 9 False idle_world"
  have run: "?run = (Inr (), snd ?run)" using quiet_visit by (metis prod.collapse)
  have "has_close_verified_drain (session_options sample_visit)" "guarded closure_allowed (history idle_world)"
    by (simp_all add: sample_visit_def sample_config_def idle_world_def)
  from drained_closure_is_fresh [OF this run] run quiet_closure show ?thesis by blast
qed

end
