(* ===== verification/Visit_Order.thy ===== *)
theory Visit_Order
  imports Visit_Priority
begin

text \<open>
  Sessions inside visits: the order of the effects of one session carries over to the whole loop, over any number of
  sessions.  Between sessions the link is closed, so waiting, closures and the next connection never overlap with work on
  the device.
\<close>

section \<open>Between sessions\<close>

definition resting :: "life_history \<Rightarrow> unit \<Rightarrow> bool" where
  "resting h u \<longleftrightarrow> guarded session_allowed h \<and> \<not> link_open h"

fun visit_call :: "life_call \<Rightarrow> bool" where
  "visit_call Ask_Enter = False" | "visit_call c = (\<not> link_work c \<and> \<not> is_exit c)"

lemma visit_call_link: "visit_call c \<Longrightarrow> \<not> link_work c \<and> \<not> is_exit c \<and> c \<noteq> Ask_Enter"
  by (cases c) auto

lemma noise_visit: "noise c \<Longrightarrow> visit_call c"
  by (cases c) auto

interpretation re: loop_frame visit_call "\<lambda>_. ()" resting
  by unfold_locales (auto simp: resting_def session_allowed_def link_step_other noise_visit dest: visit_call_link)

abbreviation "RE \<equiv> frame_of (\<lambda>_. ()) resting"

definition ordered_end :: "raised \<Rightarrow> life_world \<Rightarrow> bool" where
  "ordered_end e w \<longleftrightarrow> guarded session_allowed (history w) \<and> (is_live e \<longrightarrow> \<not> link_open (history w))"

lemma RE_end: "RE w \<Longrightarrow> ordered_end e w"
  by (simp add: frame_of_def resting_def ordered_end_def)

lemma end_RE: "ordered_end e w \<Longrightarrow> is_live e \<Longrightarrow> RE w"
  by (simp add: frame_of_def resting_def ordered_end_def)

lemma hoare_RE: "maintains RE m \<Longrightarrow> hoare RE m (\<lambda>_. RE) ordered_end"
  by (rule hoare_post [OF hoare_maintains]) (auto intro: RE_end)

lemma session_RE: "0 < info_timeout cfg \<Longrightarrow> hoare RE (run_session (tidy ask) cfg n rssi) (\<lambda>_. RE) ordered_end"
  by (rule hoare_weaken [OF run_session_order])
    (auto simp: frame_of_def resting_def at_rest_def ended_with_def ordered_end_def is_live_def out_of_fuel_def)

section \<open>Commands\<close>

lemma attempt_RE:
  assumes t: "0 < info_timeout (session_options cfg)"
  shows "hoare RE (attempt_visit (tidy ask) cfg n p) (\<lambda>_. RE) ordered_end"
proof -
  have wake: "maintains RE (if p then take_wake else ret None)"
    unfolding take_wake_def by (intro re.loop_steps) (simp add: loop_vars_def)
  have stale: "maintains RE (wake_is_stale (tidy ask) cfg p k)" for k
    unfolding wake_is_stale_def by (intro re.loop_steps re.noise_maintains; simp)
  have opens: "maintains RE (open_context (tidy ask) (session_options cfg) k)" for k
    unfolding open_context_def by (intro re.loop_steps re.port_maintains re.reports_maintain re.observers_maintain) simp
  have one: "hoare RE (run_one_attempt (tidy ask) cfg n p) (\<lambda>_. RE) ordered_end"
    unfolding run_one_attempt_def
    by (intro hoare_seqp [OF hoare_RE [OF re.reports_maintain(2)]] hoare_bindp [OF hoare_RE [OF wake]] hoare_bindp [OF hoare_RE [OF stale]]
        hoare_if hoare_ret hoare_seqp [OF hoare_RE [OF re.reports_maintain(4)]] hoare_bindp [OF hoare_RE [OF opens]] hoare_option
        session_RE [OF t])
  have count: "maintains RE (completed_batches (tidy ask))" "maintains RE (visit_durable_progress (tidy ask) cfg)"
    unfolding completed_batches_def visit_durable_progress_def by (intro re.loop_steps re.port_maintains; simp)+
  have rest: "maintains RE
     (bindp (completed_batches (tidy ask)) (\<lambda>completed.
      bindp (if b < completed then ret True else bindp (visit_durable_progress (tidy ask) cfg) (\<lambda>p. ret (q < p))) (\<lambda>durable.
      bindp get_state (\<lambda>s.
      bindp (lift_result (attempt_event x durable (if x = OutDrained then pending_drain_cursor s else None))) (\<lambda>event.
      seqp (if is_drain event then update_state (\<lambda>s. s\<lparr>pending_clean_drain := p, direct_retry := 0\<rparr>)
            else bindp (completed_batches (tidy ask)) (\<lambda>n. whenp (b < n) (update_state (\<lambda>s. s\<lparr>direct_retry := 0\<rparr>))))
     (seqp (whenp (p \<and> is_interruption event) (bindp (completed_batches (tidy ask)) (\<lambda>n.
              whenp (b < n) (report_session_activity (tidy ask) (session_options cfg) (new_activity ''batch_complete'' None)))))
       (ret event)))))))" for b q x
    by (intro re.loop_steps count re.reports_maintain; simp add: loop_vars_def)
  show ?thesis
    unfolding attempt_visit_def
    by (intro hoare_bindp [OF hoare_RE [OF count(1)]] hoare_bindp [OF hoare_RE [OF count(2)]] hoare_seqp [OF hoare_RE [OF re.update_any]]
        hoare_bindp [OF one hoare_RE [OF rest]]) (simp add: loop_vars_def)
qed

lemma wait_RE: "maintains RE (wait_for_visit_attempt ask cfg p arm previous)"
proof -
  have submit: "maintains RE (submit_presence_outcome ask previous)"
    unfolding submit_presence_outcome_def
    by (cases previous; cases "the previous") (auto intro!: re.loop_steps re.port_maintains)
  show ?thesis
    unfolding wait_for_visit_attempt_def wait_direct_def wait_presence_def
    by (intro re.loop_steps submit re.reports_maintain re.sleep_maintains re.port_maintains; simp add: loop_vars_def)
qed

lemma commit_RE: "maintains RE (commit_closure ask cfg reason cursor)"
proof -
  have "maintains RE (case (i, t) of (Some i, Some t) \<Rightarrow> port ask (Ask_Close_Verified_Drain i t) ans_unit
      | _ \<Rightarrow> raise (Raised Assertion_Class [] None))" for i t
    by (cases i; cases t) (auto intro!: re.loop_steps re.port_maintains)
  then show ?thesis unfolding commit_closure_def by (intro re.loop_steps re.port_maintains; simp)
qed

lemma command_RE:
  assumes t: "0 < info_timeout (session_options cfg)"
  shows "hoare RE (execute_visit_command (tidy ask) cfg n p x) (\<lambda>_. RE) ordered_end"
  unfolding execute_visit_command_def
proof (rule hoare_catchp)
  have attempt: "hoare RE (bindp (attempt_visit (tidy ask) cfg n p) (\<lambda>x. ret (SessionFinished x))) (\<lambda>_. RE) ordered_end"
    by (rule hoare_bindp [OF attempt_RE [OF t]]) (simp add: hoare_ret)
  show "hoare RE (run_visit_command (tidy ask) cfg n p (snd x)) (\<lambda>_. RE) ordered_end"
    unfolding run_visit_command_def
    by (cases "snd x")
      (auto intro!: attempt hoare_RE [OF wait_RE] hoare_RE [OF maintains_raise] hoare_RE re.loop_steps commit_RE re.port_maintains)
  show "hoare (ordered_end e) (seqp (whenp (is_live e \<and> is_closure (snd x))
      (bindp (lift_result (visit_result_of (visit_transition False (fst x) CloseFailed))) (\<lambda>_. ret ()))) (raise e)) (\<lambda>_. RE) ordered_end" for e
    by (auto simp: hoare_def wp_simps ordered_end_def split: sum.split)
qed

lemma priority_RE: "maintains RE (enter_capture_priority ask cfg c)" "maintains RE (release_now ask cfg)"
  unfolding enter_capture_priority_def release_now_def release_capture_priority_after_def
  by (auto simp: maintains_def wp_simps frame_of_def resting_def session_allowed_def split: sum.split)

lemma step_RE: "maintains RE (visit_step_now cfg e)"
  unfolding visit_step_now_def
  by (intro maintains_intros maintains_update_state) (simp add: frame_of_def)

lemma finish_RE: "maintains RE (finish_visit ask cfg p reason stop)" "maintains RE (visit_drained_result ask)"
  unfolding finish_visit_def visit_drained_result_def
  by (intro re.loop_steps re.reports_maintain re.sleep_maintains re.port_maintains; simp add: loop_vars_def)+

section \<open>The loop\<close>

lemma visit_loop_RE:
  assumes t: "0 < info_timeout (session_options cfg)"
  shows "hoare RE (visit_loop (tidy ask) cfg p n) (\<lambda>_. RE) ordered_end"
proof (induction n)
  case 0
  show ?case unfolding visit_loop.simps by (rule hoare_raise) (rule RE_end)
next
  case (Suc n)
  have command: "hoare RE (seqp (enter_capture_priority (tidy ask) cfg c) (bindp (execute_visit_command (tidy ask) cfg n p x) (\<lambda>event.
      seqp (visit_step_now cfg event) (seqp (release_now (tidy ask) cfg) (visit_loop (tidy ask) cfg p n))))) (\<lambda>_. RE) ordered_end" for c x
    by (intro hoare_seqp [OF hoare_RE [OF priority_RE(1)]] hoare_bindp [OF command_RE [OF t]] hoare_seqp [OF hoare_RE [OF step_RE]]
        hoare_seqp [OF hoare_RE [OF priority_RE(2)]] Suc.IH)
  have wait: "maintains RE (update_state (\<lambda>s. s\<lparr>visit_now := f s\<rparr>))" for f
    by (rule maintains_update_state) (simp add: frame_of_def)
  have finish: "hoare RE (seqp (finish_visit (tidy ask) cfg pr reason stop)
      (if stop then visit_drained_result (tidy ask)
       else seqp (update_state (\<lambda>s. s\<lparr>visit_now := (fst (visit_now s), WaitForAttempt False None)\<rparr>)) (visit_loop (tidy ask) cfg p n))) (\<lambda>_. RE) ordered_end"
    for pr reason stop
    by (intro hoare_seqp [OF hoare_RE [OF finish_RE(1)]] hoare_if hoare_RE [OF finish_RE(2)] hoare_seqp [OF hoare_RE [OF wait]] Suc.IH)
  have choose: "hoare RE (case c of
       FinishVisit reason stop \<Rightarrow> seqp (finish_visit (tidy ask) cfg pr reason stop)
         (if stop then visit_drained_result (tidy ask)
          else seqp (update_state (\<lambda>s. s\<lparr>visit_now := (fst (visit_now s), WaitForAttempt False None)\<rparr>)) (visit_loop (tidy ask) cfg p n))
     | PreserveAndStop \<Rightarrow> raise e
     | VisitNoOp \<Rightarrow> visit_drained_result (tidy ask)
     | command \<Rightarrow> seqp (enter_capture_priority (tidy ask) cfg command) (bindp (execute_visit_command (tidy ask) cfg n p x) (\<lambda>event.
         seqp (visit_step_now cfg event) (seqp (release_now (tidy ask) cfg) (visit_loop (tidy ask) cfg p n))))) (\<lambda>_. RE) ordered_end" for c x e pr
    by (cases c; simp only: visit_command.case; (rule command finish hoare_RE [OF finish_RE(2)] hoare_RE [OF maintains_raise]))
  show ?case
    unfolding visit_loop.simps by (rule hoare_get_state) (rule hoare_pre [OF choose], simp)
qed

lemma run_visit_RE:
  assumes t: "0 < info_timeout (session_options cfg)"
  shows "hoare RE (run_visit_machine (tidy ask) cfg n p) (\<lambda>_. RE) ordered_end"
  unfolding run_visit_machine_def
proof (rule hoare_seqp [where R = RE])
  show "hoare RE (update_state (\<lambda>s. s\<lparr>visit_now := visit_initial_transition, capture_priority_active := False\<rparr>)) (\<lambda>_. RE) ordered_end"
    by (rule hoare_RE [OF maintains_update_state]) (simp add: frame_of_def)
  have shutdown: "hoare (ordered_end e) (visit_shutdown e) (\<lambda>_. RE) ordered_end" for e
    unfolding visit_shutdown_def
    by (auto simp: hoare_def wp_simps ordered_end_def is_cancellation_def is_live_def split: sum.split)
  have cleanup: "hoare RE (visit_cleanup (tidy ask) cfg p) (\<lambda>_. RE) ordered_end"
    unfolding visit_cleanup_def release_capture_priority_after_def by (intro hoare_RE re.loop_steps re.port_maintains) simp_all
  show "hoare RE (finally_live (catchp (visit_loop (tidy ask) cfg p n) visit_shutdown) (visit_cleanup (tidy ask) cfg p)) (\<lambda>_. RE) ordered_end"
    by (rule finally_live_order [OF hoare_catchp [OF visit_loop_RE [OF t] shutdown] cleanup])
      (auto intro: hoare_weaken [OF cleanup] dest: end_RE intro: RE_end)
qed

text \<open>
  C2: Over any number of attempts and visits, work on the link and its exit are requested only while it is open, and
  connecting, the checkpoint, the closure of a visit and waiting only while it is closed.  The link is the transport
  context that a session was given.  This assumes orderly ports and a positive timeout.
\<close>

theorem visits_use_the_link_in_order:
  assumes "orderly ask" and "0 < info_timeout (session_options cfg)"
    and "guarded session_allowed (history w)" and "\<not> link_open (history w)"
    and "run_visit_machine ask cfg fuel with_presence w = (r, v)"
  shows "guarded session_allowed (history v)"
proof -
  have "RE w" using assms by (simp add: frame_of_def resting_def)
  from hoareD [OF run_visit_RE [where ask = ask and n = fuel and p = with_presence, OF assms(2)] this]
  have "wp (run_visit_machine ask cfg fuel with_presence) (\<lambda>_. RE) ordered_end w" unfolding tidy_id [OF assms(1)] .
  then show ?thesis
    unfolding wp_def assms(5) by (cases r) (auto simp: frame_of_def resting_def ordered_end_def)
qed

lemma quiet_device_orderly: "orderly quiet_device"
  unfolding orderly_def by (auto elim!: quiet_device.elims)

theorem visits_use_the_link_in_order_witness:
  "\<exists>v. run_visit_machine quiet_device sample_visit 9 False idle_world = (Inr (), v) \<and> guarded session_allowed (history v)"
proof -
  let ?run = "run_visit_machine quiet_device sample_visit 9 False idle_world"
  have run: "?run = (Inr (), snd ?run)" using quiet_visit by (metis prod.collapse)
  have "0 < info_timeout (session_options sample_visit)" by (simp add: sample_visit_def sample_config_def)
  from visits_use_the_link_in_order [OF quiet_device_orderly this idle_world_start(1,2) run] run show ?thesis by blast
qed

end
