(* ===== verification/Spec2Isabelle.thy ===== *)
theory Spec2Isabelle
  imports Ring_Protocol Transfer_Arena Opus_Records Batch_Machine Session_Machine Visit_Machine
    Attempt_Writer_Machine Internal_Audio_Cohorts Ready_Machine Presence_Machine Quarantine_Machine
    Publication_Recovery Stop_Intent Clock_State Ogg_Stream Public_Time Replay_Proof Clock_Store Batch_Custody
    Leg_Stop Leg_Advance Leg_Bound Notification_Stream Session_Recovery Visit_Closure Visit_Order
begin

text \<open>
  A verification library for the capture core of \<open>omi-collector\<close>, the host program that drains the audio ring
  of an Omi wearable over BLE, stores it durably, publishes it as bundles and only then lets the device forget
  it.  All paths below are relative to \<open>src/src/omi_collector/capture/\<close>.

  \<^bold>\<open>The program.\<close>  The code keeps its decisions in pure modules and its effects in drivers around them.  A
  \<^emph>\<open>presence\<close> reducer turns advertisements and timers into permits for an attempt; a \<^emph>\<open>visit\<close> reducer strings
  attempts together until the ring is drained, the wearer is gone or the process stops; within an attempt a
  \<^emph>\<open>session\<close> reducer orders connect, INFO, preflight, READ, teardown and checkpoint; a READ is driven by the
  \<^emph>\<open>batch\<close> machine's lifecycle table, its bytes are reassembled in the \<^emph>\<open>transfer arena\<close> from frames parsed by the
  \<^emph>\<open>ring protocol\<close>, checked by the \<^emph>\<open>Opus\<close> scanner and written under the \<^emph>\<open>attempt writer\<close> reducer.  The same batch
  machine decides when the device cursor may ADVANCE.  What was captured passes through the \<^emph>\<open>internal audio\<close>
  lifecycle into cohorts, is published and compacted under the \<^emph>\<open>ready\<close> reducer, and ends in custody or in the
  \<^emph>\<open>quarantine\<close> machine.  The \<^emph>\<open>clock state\<close> records which sequences have which clock offset.

  \<^bold>\<open>The theories.\<close>  Each machine is modelled whole: its states, events and results are datatypes with the
  source's constructors, each handler is one definition with the guards and early returns of the code, and
  every exception is a value of an error type (\<open>Inl\<close>).

  \<^item> \<open>Prelude\<close>: results and their bind, little and big endian integers, the run of a transition function over a
    list of events, and the interfaces below.
  \<^item> \<open>Ring_Protocol\<close> (\<open>domain/ring_protocol.py\<close>): the parsers accept exactly the frames of the wire format and
    recover each field; commands are encoded exactly for operands in range and decode to the same operands.
  \<^item> \<open>Transfer_Arena\<close> (\<open>domain/transfer_arena.py\<close>): for every sequence of legs and fragments the received bytes
    are a prefix of the device's stream, and submissions are whole-record prefixes that only grow.
  \<^item> \<open>Opus_Duration\<close>, \<open>Opus_Records\<close> (\<open>domain/opus_duration.py\<close>): the index-based scanner accepts exactly the
    payload grammar over RFC 6716 packets, stated independently of it, never indexes out of range, and its
    layouts are bounded.
  \<^item> \<open>Batch_Machine\<close> (\<open>application/batch_machine.py\<close>): ADVANCE is decided only after a durable seal that reaches
    the batch end, and a READ completes only behind its barrier.
  \<^item> \<open>Session_Machine\<close> (\<open>application/session_machine.py\<close>): the histories after which a session returns are an
    explicit grammar; teardown happens once; the validation of states never fires on reachable ones.
  \<^item> \<open>Visit_Machine\<close> (\<open>application/visit_machine.py\<close>): closures are backed by a confirmed drain; effects are paired
    with their results; an interrupted visit stays retained.
  \<^item> \<open>Attempt_Writer_Machine\<close> (\<open>adapters/attempt_writer_machine.py\<close>): the first failure is retained, admissions
    are ordered, the kind of close is truthful.
  \<^item> \<open>Internal_Audio_Machine\<close>, \<open>Internal_Audio_Cohorts\<close> (\<open>domain/internal_audio_machine.py\<close>,
    \<open>domain/coverage_decision.py\<close>, \<open>domain/quarantine_disposition.py\<close>): bytes are written only inside a bound
    READ, a source is removed only under proved custody, cohorts commit before they retire, and evidence of a
    conflict is deleted only when classified, expired and unreferenced.
  \<^item> \<open>Ready_Machine\<close> (\<open>domain/ready_machine.py\<close>): jobs exclude one another, a capture cancels and joins them and commands
    nothing else, a superseded result is checked again, retries follow the backoff table.
  \<^item> \<open>Presence_Machine\<close> (\<open>application/presence_machine.py\<close>, \<open>application/scan_cadence.py\<close>): permits need a stable
    encounter and never overlap; within one visit the backoff table bounds the failed attempts, and the failure that
    exhausts it ends the visit.
  \<^item> \<open>Quarantine_Machine\<close> (\<open>domain/quarantine_machine.py\<close>): evidence is deleted only after its verdict is durable.
  \<^item> \<open>Publication_Recovery\<close> (\<open>domain/publication_recovery.py\<close>, \<open>domain/operational_status_machine.py\<close>): an
    interrupted commit is classified exactly; the status table is complete and a block is sticky.
  \<^item> \<open>Stop_Intent\<close> (\<open>application/stop_intent.py\<close>): the first signal wins and the root task is cancelled at most
    once.
  \<^item> \<open>Python_Values\<close>, \<open>Clock_State\<close> (\<open>domain/clock_state.py\<close>): the range table refines a partial function from
    sequences to evidence that is only ever extended; a clock write closes over an unknown boundary; the
    durable payload reads back.

  \<^item> \<open>Ogg_Crc\<close>, \<open>Ogg_Opus\<close>, \<open>Ogg_Stream\<close> (\<open>adapters/ogg_opus.py\<close>): the checksum is Ogg's CRC, and a checking reader
    recovers headers and packets from every file the writer produces.
  \<^item> \<open>Public_Audio\<close> (\<open>domain/public_audio_v2.py\<close>): the published timeline carries exactly the frozen labels and
    boundary facts of its records, passes the checks of the manifest, and acknowledgements are parsed exactly.
  \<^item> \<open>Float64\<close>, \<open>Replay_Proof\<close> (\<open>domain/replay_proof.py\<close>): doubles as their bits with round-to-even, packed
    normalization runs that read back, proof pages that verify and index, and the rounding bound of a normalized time.
  \<^item> \<open>Clock_Segments\<close>, \<open>Public_Time\<close>, \<open>Clock_Store\<close> (\<open>adapters/clock_segments.py\<close>, \<open>public_time_facts.py\<close>,
    \<open>clock_state_store.py\<close>, the observation checks of \<open>legacy_clock_import.py\<close>): segments agree with the decided
    evidence, a merged map consists of the confirmed segments and of pieces of the estimates where none is confirmed,
    records are comparable exactly over a joined edge (and wrongly over an empty write in an unknown range), and the
    stored row with its lazy migration refines the clock state.
  \<^item> \<open>Effects\<close>: sequential programs that read and write their state, raise and call ports; a port may answer anything
    that depends on the calls so far; weakest preconditions, and the interface \<open>driver\<close>.
  \<^item> \<open>Batch_Reconciliation\<close>, \<open>Batch_Custody\<close> (\<open>application/batch_reconciliation.py\<close>): the driver of one batch around
    the batch machine.  For all ports and all sequences of operations READ, seal and ADVANCE are licensed by what the
    writer acknowledged before; with ports that answer, a step completes its batch.  A pending attempt is quarantined, once and before
    anything else, exactly when its bounds cannot be used.
  \<^item> \<open>Read_Leg\<close> (\<open>application/collector.py\<close>, \<open>join_owned\<close> of \<open>application/owned_work.py\<close>): INFO, one READ leg and ADVANCE
    around the arena, the parsers and the read table.  \<open>Leg_Delivery\<close> and \<open>Leg_Progress\<close>: a leg that returns has put
    exactly the bytes of its notifications into the arena, behind a valid DONE and an acknowledged barrier, and with a
    cooperative device it returns.  \<open>Leg_Bound\<close>: its loop ends.  \<open>Leg_Stop\<close>: STOP is sent at most once, and once
    whenever the stream fails.  \<open>Leg_Advance\<close>: what an ADVANCE reports is what the device said.
  \<^item> \<open>Notification_Stream\<close> (\<open>application/ring_transport.py\<close>): the queue between the BLE callback and the leg is a
    bounded FIFO under every interleaving of its steps; a cancelled wait or a close may lose payloads, nothing else does.
  \<^item> \<open>Session_Errors\<close> (\<open>application/session_lifecycle.py\<close>): exceptions with their causes, which of them are retried, and the
    bounded text for the operator; the redacted text names no device address in either letter case, by a definition of
    addresses that is independent of the matcher.
  \<^item> \<open>Session_Lifecycle\<close>: one physical session around the session machine, with the transport, the coordinator's
    callbacks, metrics and the activity sink as ports.  \<open>Session_Frame\<close> and \<open>Session_Order\<close>: for
    orderly ports the session machine never refuses its driver, work on the link happens while it is open, and an entered
    context is left unless its entry completed while the wait for it was being abandoned.  The section on disorderly
    endings runs the sessions that these assumptions exclude.  \<open>Session_Recovery\<close>: the rounds of INFO against an unready storage are bounded.
  \<^item> \<open>Visit_Driver\<close>: the loop of visits around the visit machine.  \<open>Call_Frame\<close> holds what its calls leave alone.
    \<open>Visit_Priority\<close>: attempts and closures run under the capture priority, the waits and sleeps between them do not,
    and it is given back.  \<open>Visit_Closure\<close>: a
    verified drain is closed with the latest INFO, of an empty ring.  \<open>Visit_Order\<close>: the order on the link across visits.

  \<^bold>\<open>Interfaces.\<close>  The locales of \<open>Prelude\<close> state what a reducer promises its driver: an invariant kept along every
  run (\<open>invariant_machine\<close>), one whose answers are all licensed by state and event (\<open>guarded_machine\<close>), absorbing states
  (\<open>absorbing_machine\<close>) and quantities that only grow (\<open>monotone_machine\<close>); each reducer interprets the ones its
  properties rest on.  \<open>evidence_table\<close> of \<open>Clock_State\<close> is the contract between the range table and the
  operations on intents and observations.  \<open>driver\<close> of \<open>Effects\<close> is what a driver promises its caller: every
  operation keeps its invariant, whether it returns or raises; the reconciler interprets it.  \<open>session_frame\<close> of
  \<open>Session_Frame\<close> is what an invariant over calls and state needs so that every operation of a session keeps it;
  \<open>Session_Order\<close> interprets it for the order on the link.  \<open>call_frame\<close>, \<open>loop_frame\<close> and \<open>session_history\<close> of \<open>Call_Frame\<close>
  do the same for invariants of the visit loop, for those that follow its variables, and for properties of the calls of
  one session; the theories of the visit driver interpret them.

  \<^bold>\<open>Histories.\<close>  A property of a reducer is stated over every list of events that it accepts from its initial
  state, so it holds for every interleaving the drivers can produce.  All functions are total: loops over
  payloads are recursions with a proved measure.  \<open>run_connected_step\<close> has fuel, since the device can ask for any
  number of restarts within one step: its safety holds for every fuel, and with ports that answer one unit is enough.
  \<open>ingest_loop\<close> and \<open>await_info\<close> have fuel, since the device can send any number of acknowledgements: the properties of a
  leg hold for every fuel, a cooperative device needs one unit per notification, and \<open>Leg_Bound\<close> bounds the fuel by
  the size of the leg and the idle notifications.  \<open>serve\<close>, \<open>read_to_terminal\<close> and \<open>visit_loop\<close> have fuel, since callbacks,
  legs and visits are unbounded by design: the properties hold for every fuel, and \<open>out_of_fuel\<close> passes every handler.
  The fuel of \<open>info\<close> is the number of responses that are left, which \<open>Session_Recovery\<close> proves enough.

  \<^bold>\<open>Ports.\<close>  A port may answer anything that depends on the calls so far.  Where a property needs more it says so:
  \<open>orderly\<close> ports raise \<open>Exception\<close>s and cancellations only, none of the errors that the driver raises about itself, and
  the session guard swallows nothing.  A bounded operation is answered by its race with the timeout and a cancellation
  (\<open>race_result\<close>): \<open>Ans_Abandoned\<close> is a wait that ended first, and tells whether the result it discards existed.

  \<^bold>\<open>Numbers.\<close>  Python integers are \<open>int\<close> or \<open>nat\<close>; integers of frames keep their width through their codecs.
  Clock offsets are exact rationals; where a timestamp is computed from a float offset (\<open>Replay_Proof\<close>, \<open>Public_Time\<close>)
  the sums are rounded as IEEE doubles by \<open>Float64\<close>.

  \<^bold>\<open>Not modelled.\<close>  The other drivers (\<open>application/presence.py\<close>, \<open>opportunistic_sync.py\<close>,
  \<open>quarantine_maintenance.py\<close>), which are coroutines around the machines; the adapters that are SQL, files, threads, BLE
  or D-Bus; metrics, logging and the command line.  Of \<open>application/collector.py\<close> the clock readings of progress events,
  the waiting side of the progress mailbox and the progress callback.  Of \<open>application/session_lifecycle.py\<close> the join
  of an abandoned task in \<open>cancel_task\<close>, the session id and lock context of events, the rendering of time stamps, the callback after
  a closed transport (no caller passes one), \<open>report_finalization_error\<close> and \<open>remaining_budget\<close>.

  \<^bold>\<open>Plan.\<close>  Next: the driver of \<open>application/presence.py\<close> over the presence machine, the window arithmetic of
  \<open>application/ble_scan_health.py\<close>, and the pure parts of \<open>adapters/ready_bundles.py\<close> and
  \<open>adapters/internal_audio_store.py\<close>.
\<close>

end
